(* ===== verification/Prelude.thy ===== *)
theory Prelude
  imports Main "HOL-Library.Word"
begin

text \<open>
  Shared vocabulary of the development: the machine integers of the 32-bit (i386) build of the
  kernel, the result type of fallible kernel operations, little-endian access to byte-addressed
  memory, and the generic lemmas on words, lists and loops the components use. The kernel is
  built with \<^verbatim>\<open>opt-level=2\<close> and no debug assertions, so integer arithmetic
  wraps around, which is what the operations of \<^typ>\<open>'a word\<close> do.
\<close>

unbundle bit_operations_syntax

section \<open>Machine integers\<close>

type_synonym u8 = "8 word"
type_synonym u16 = "16 word"
type_synonym u32 = "32 word"
type_synonym u64 = "64 word"
type_synonym usize = "32 word"
type_synonym isize = "32 word"

text \<open>
  A signed Rust integer is the word of its two's complement representation, compared through
  \<^const>\<open>sint\<close>.
\<close>

type_synonym i32 = "32 word"
type_synonym i64 = "64 word"

text \<open>Rust's signed division truncates towards zero.\<close>

definition i64_div :: "i64 \<Rightarrow> i64 \<Rightarrow> i64" where
  "i64_div a b = of_int (sgn (sint a) * sgn (sint b) * (\<bar>sint a\<bar> div \<bar>sint b\<bar>))"

named_theorems redox_consts \<open>definitions of the numeric constants of the sources\<close>
named_theorems mem_simps \<open>reading back what was written to byte-addressed memory\<close>
named_theorems loop_unfold \<open>one unfolding of a loop of the sources\<close>

section \<open>Results\<close>

text \<open>
  \<^verbatim>\<open>Result<T>\<close> of \<^verbatim>\<open>system::error\<close>: \<^term>\<open>Inl errno\<close> is
  \<^verbatim>\<open>Err(Error::new(errno))\<close>, \<^term>\<open>Inr v\<close> is \<^verbatim>\<open>Ok(v)\<close>.
\<close>

type_synonym errno = isize
type_synonym 'a result = "errno + 'a"

abbreviation Ok :: "'a \<Rightarrow> 'a result" where "Ok \<equiv> Inr"
abbreviation Err :: "errno \<Rightarrow> 'a result" where "Err \<equiv> Inl"

text \<open>\<^verbatim>\<open>try!\<close> and \<^verbatim>\<open>Result::and\<close> of the Rust standard library.\<close>

definition and_then :: "'a result \<Rightarrow> ('a \<Rightarrow> 'b result) \<Rightarrow> 'b result" where
  "and_then r f = (case r of Inl e \<Rightarrow> Inl e | Inr v \<Rightarrow> f v)"

lemma and_then_simps [simp]:
  "and_then (Inl e) f = Inl e"
  "and_then (Inr v) f = f v"
  by (simp_all add: and_then_def)

lemma and_then_Inr_iff: "and_then r f = Inr w \<longleftrightarrow> (\<exists>v. r = Inr v \<and> f v = Inr w)"
  by (cases r) simp_all

definition ok_or :: "'a option \<Rightarrow> errno \<Rightarrow> 'a result" where
  "ok_or r e = (case r of None \<Rightarrow> Inl e | Some v \<Rightarrow> Inr v)"

lemma ok_or_simps [simp]: "ok_or None e = Inl e" "ok_or (Some v) e = Inr v"
  by (simp_all add: ok_or_def)

section \<open>Words\<close>

lemma unat_lt2p: "unat (x :: 'a::len word) < 2 ^ LENGTH('a)"
  by (rule unsigned_less)

lemma unat_add_lt:
  fixes a b :: "'a::len word"
  assumes "unat a + unat b < 2 ^ LENGTH('a)"
  shows "unat (a + b) = unat a + unat b"
  using assms by (simp add: unat_word_ariths)

lemma unat_mult_lt:
  fixes a b :: "'a::len word"
  assumes "unat a * unat b < 2 ^ LENGTH('a)"
  shows "unat (a * b) = unat a * unat b"
  using assms by (simp add: unat_word_ariths)

lemma unat_sub_le:
  fixes a b :: "'a::len word"
  assumes "b \<le> a"
  shows "unat (a - b) = unat a - unat b"
  using assms by (rule unat_sub)

lemma unat_of_nat_lt:
  assumes "n < 2 ^ LENGTH('a)"
  shows "unat (of_nat n :: 'a::len word) = n"
  using assms by (simp add: unat_of_nat take_bit_nat_eq_self)

lemma of_nat_eq_word_iff:
  assumes "m < 2 ^ LENGTH('a)" and "n < 2 ^ LENGTH('a)"
  shows "(of_nat m :: 'a::len word) = of_nat n \<longleftrightarrow> m = n"
  using assms by (metis unat_of_nat_lt)

lemma word_eq_unatI: "unat a = unat b \<Longrightarrow> a = b"
  by (simp add: word_unat_eq_iff)

lemma unat_Suc_less:
  fixes i n :: "'a::len word"
  assumes "i < n"
  shows "unat (i + 1) = Suc (unat i)"
proof -
  have "unat i + 1 < 2 ^ LENGTH('a)"
    using assms unat_lt2p[of n] unfolding word_less_nat_alt by linarith
  then show ?thesis by (simp add: unat_word_ariths)
qed

text \<open>The termination argument of \<^verbatim>\<open>while i < n { ...; i += 1 }\<close> on a machine integer.\<close>

lemma while_up_measure:
  fixes i n :: "'a::len word"
  assumes "i < n"
  shows "unat n - unat (i + 1) < unat n - unat i"
  using assms by (simp add: unat_Suc_less word_less_nat_alt)

lemma unat_diff_wrap:
  fixes a b :: usize
  shows "unat (a - b) = (if b \<le> a then unat a - unat b else 2 ^ 32 + unat a - unat b)"
  using unat_sub_if_size[of a b] unfolding word_le_nat_alt word_size
  by (cases "unat b \<le> unat a") simp_all

lemma unat_pred:
  fixes i :: "'a::len word"
  assumes "i \<noteq> 0"
  shows "unat (i - 1) = unat i - 1"
  using assms by (simp add: unat_minus_one)

lemma le_pred_word:
  fixes i x :: "'a::len word"
  assumes "i \<noteq> 0"
  shows "i - 1 \<le> x \<longleftrightarrow> i \<le> x \<or> x = i - 1"
proof -
  have "0 < unat i" using assms by (simp add: unat_gt_0)
  then show ?thesis
    unfolding word_le_nat_alt word_unat_eq_iff[of x] unat_pred[OF assms] by linarith
qed

lemma pred_less_word:
  fixes i n :: "'a::len word"
  assumes "i \<noteq> 0" and "i \<le> n"
  shows "i - 1 < n"
proof -
  have "0 < unat i" using assms(1) by (simp add: unat_gt_0)
  then show ?thesis
    using assms(2) unfolding word_less_nat_alt word_le_nat_alt unat_pred[OF assms(1)] by linarith
qed

lemma less_Suc_word:
  fixes i n x :: "'a::len word"
  assumes "i < n"
  shows "x < i + 1 \<longleftrightarrow> x < i \<or> x = i"
  unfolding word_less_nat_alt word_unat_eq_iff[of x] unat_Suc_less[OF assms] by linarith

lemma Suc_le_word:
  fixes i n x :: "'a::len word"
  assumes "i < n"
  shows "i + 1 \<le> x \<longleftrightarrow> i < x"
  unfolding word_le_nat_alt word_less_nat_alt unat_Suc_less[OF assms] by linarith

lemma unat_and_mask: "unat (w AND mask n :: 'a::len word) = unat w mod 2 ^ n"
  by (simp only: take_bit_eq_mask[symmetric] unsigned_take_bit_eq) (simp add: take_bit_eq_mod)

lemma word_and_exp: "(w :: 'a::len word) AND 2 ^ n = (if bit w n then 2 ^ n else 0)"
  by (rule bit_word_eqI) (auto simp: bit_simps)

lemma unat_ucast_up:
  assumes "LENGTH('a) \<le> LENGTH('b)"
  shows "unat (ucast (w :: 'a::len word) :: 'b::len word) = unat w"
proof -
  have "unat w < 2 ^ LENGTH('b)"
    by (rule less_le_trans[OF unat_lt2p]) (use assms in simp)
  then show ?thesis by (simp add: unsigned_ucast_eq take_bit_nat_eq_self)
qed

lemma ucast_u8_u32_inject: "(ucast a :: 32 word) = ucast b \<longleftrightarrow> a = (b :: 8 word)"
proof -
  have "(ucast (ucast a :: 32 word) :: 8 word) = a" for a :: "8 word"
    by (rule bit_word_eqI) (simp add: bit_simps)
  then show ?thesis by metis
qed

text \<open>Signed arithmetic agrees with the integers while no overflow occurs.\<close>

definition sfits :: "nat \<Rightarrow> int \<Rightarrow> bool" where
  "sfits n k \<longleftrightarrow> - (2 ^ (n - 1)) \<le> k \<and> k < 2 ^ (n - 1)"

lemma sint_add_fits:
  fixes a b :: "'a::len word"
  assumes "sfits LENGTH('a) (sint a + sint b)"
  shows "sint (a + b) = sint a + sint b"
  using assms by (simp add: sfits_def sint_word_ariths signed_take_bit_int_eq_self)

lemma sint_sub_fits:
  fixes a b :: "'a::len word"
  assumes "sfits LENGTH('a) (sint a - sint b)"
  shows "sint (a - b) = sint a - sint b"
  using assms by (simp add: sfits_def sint_word_ariths signed_take_bit_int_eq_self)

lemma sint_mult_fits:
  fixes a b :: "'a::len word"
  assumes "sfits LENGTH('a) (sint a * sint b)"
  shows "sint (a * b) = sint a * sint b"
  using assms by (simp add: sfits_def sint_word_ariths signed_take_bit_int_eq_self)

lemma sint_fits: "sfits LENGTH('a) (sint (a :: 'a::len word))"
  using sint_ge[of a] sint_lt[of a] by (simp add: sfits_def)

lemma sint_eq_0: "sint (a :: 'a::len word) = 0 \<longleftrightarrow> a = 0"
  by (metis signed_word_eqI sint_0)

lemma sint_i32_range: "- 0x80000000 \<le> sint (a :: i32)" "sint (a :: i32) < 0x80000000"
  using sint_fits[of a] by (simp_all add: sfits_def)

lemma sint_i64_range: "- 0x8000000000000000 \<le> sint (a :: i64)" "sint (a :: i64) < 0x8000000000000000"
  using sint_fits[of a] by (simp_all add: sfits_def)

text \<open>Induction for upward loops on machine integers.\<close>

lemma word_up_induct [consumes 1, case_names stop step]:
  fixes i n :: "'a::len word"
  assumes "i \<le> n" and "P n" and "\<And>i. i < n \<Longrightarrow> P (i + 1) \<Longrightarrow> P i"
  shows "P i"
  using assms(1)
proof (induction "unat n - unat i" arbitrary: i)
  case 0
  then have "i = n" by (simp add: word_le_nat_alt word_eq_unatI)
  then show ?case using assms(2) by simp
next
  case (Suc k)
  then have lt: "i < n" by (simp add: word_less_nat_alt)
  then have "k = unat n - unat (i + 1)" "i + 1 \<le> n"
    using Suc.hyps(2) by (auto simp: unat_Suc_less Suc_le_word)
  from Suc.hyps(1)[OF this] show ?case by (rule assms(3)[OF lt])
qed

section \<open>Byte-addressed memory\<close>

text \<open>
  Physical memory: one byte per address of the 32-bit address space. Reading and writing a
  \<^verbatim>\<open>usize\<close> through a raw pointer is little-endian on x86.
\<close>

type_synonym mem = "usize \<Rightarrow> u8"

definition read_usize :: "mem \<Rightarrow> usize \<Rightarrow> usize" where
  "read_usize m a =
     ucast (m a) OR push_bit 8 (ucast (m (a + 1))) OR
     push_bit 16 (ucast (m (a + 2))) OR push_bit 24 (ucast (m (a + 3)))"

definition read_u16 :: "mem \<Rightarrow> usize \<Rightarrow> u16" where
  "read_u16 m a = ucast (m a) OR push_bit 8 (ucast (m (a + 1)))"

definition write_usize :: "mem \<Rightarrow> usize \<Rightarrow> usize \<Rightarrow> mem" where
  "write_usize m a v =
     m(a := ucast v, a + 1 := ucast (drop_bit 8 v),
       a + 2 := ucast (drop_bit 16 v), a + 3 := ucast (drop_bit 24 v))"

lemma usize_bytes:
  fixes v :: usize
  shows "ucast (ucast v :: u8) OR push_bit 8 (ucast (ucast (drop_bit 8 v) :: u8)) OR
     push_bit 16 (ucast (ucast (drop_bit 16 v) :: u8)) OR
     push_bit 24 (ucast (ucast (drop_bit 24 v) :: u8)) = v"
proof (rule bit_word_eqI)
  fix n
  assume "n < LENGTH(32)"
  then show "bit (ucast (ucast v :: u8) OR push_bit 8 (ucast (ucast (drop_bit 8 v) :: u8)) OR
     push_bit 16 (ucast (ucast (drop_bit 16 v) :: u8)) OR
     push_bit 24 (ucast (ucast (drop_bit 24 v) :: u8)) :: usize) n = bit v n"
    by (cases "n < 8"; cases "n < 16"; cases "n < 24") (auto simp: bit_simps)
qed

lemma read_write_usize [mem_simps]: "read_usize (write_usize m a v) a = v"
  by (simp add: read_usize_def write_usize_def usize_bytes)

text \<open>
  Two four-byte cells are disjoint when neither address lies inside the other cell; the
  differences are taken modulo \<^term>\<open>2 ^ 32 :: nat\<close>, as the addresses are.
\<close>

definition cells_disjoint :: "usize \<Rightarrow> usize \<Rightarrow> bool" where
  "cells_disjoint a b \<longleftrightarrow> 4 \<le> a - b \<and> 4 \<le> b - a"

lemma cells_disjoint_sym: "cells_disjoint a b \<longleftrightarrow> cells_disjoint b a"
  by (auto simp: cells_disjoint_def)

lemma cells_disjoint_neq:
  assumes "cells_disjoint a b" and "i < 4" and "j < 4"
  shows "a + i \<noteq> b + j"
proof
  assume eq: "a + i = b + j"
  show False
  proof (cases "i \<le> j")
    case True
    have "a - b = j - i" using eq by (simp add: algebra_simps)
    moreover have "j - i < 4"
      using True assms(3) by (meson order_le_less_trans word_sub_le)
    ultimately show False using assms(1) by (auto simp: cells_disjoint_def)
  next
    case False
    have "b - a = i - j" using eq by (simp add: algebra_simps)
    moreover have "i - j < 4"
      using False assms(2) by (meson linorder_le_cases order_le_less_trans word_sub_le)
    ultimately show False using assms(1) by (auto simp: cells_disjoint_def)
  qed
qed

lemma read_write_usize_disjoint [mem_simps]:
  assumes "cells_disjoint a b"
  shows "read_usize (write_usize m b v) a = read_usize m a"
proof -
  have "a + i \<noteq> b + j" if "i \<in> {0, 1, 2, 3}" "j \<in> {0, 1, 2, 3}" for i j
    using that by (intro cells_disjoint_neq [OF assms]) auto
  from this[of 0] this[of 1] this[of 2] this[of 3]
  have "a \<noteq> b" "a \<noteq> b + 1" "a \<noteq> b + 2" "a \<noteq> b + 3"
    "a + 1 \<noteq> b" "a + 1 \<noteq> b + 1" "a + 1 \<noteq> b + 2" "a + 1 \<noteq> b + 3"
    "a + 2 \<noteq> b" "a + 2 \<noteq> b + 1" "a + 2 \<noteq> b + 2" "a + 2 \<noteq> b + 3"
    "a + 3 \<noteq> b" "a + 3 \<noteq> b + 1" "a + 3 \<noteq> b + 2" "a + 3 \<noteq> b + 3"
    by fastforce+
  then show ?thesis
    unfolding read_usize_def write_usize_def by simp
qed

text \<open>A byte outside the written cell keeps its value.\<close>

lemma write_usize_other: "4 \<le> x - a \<Longrightarrow> write_usize m a v x = m x"
  by (auto simp: write_usize_def word_le_nat_alt)

text \<open>A cell none of whose bytes changes is read back unchanged.\<close>

lemma read_usize_cong:
  assumes "\<And>i. i < 4 \<Longrightarrow> m (a + i) = m' (a + i)"
  shows "read_usize m a = read_usize m' a"
  using assms[of 0] assms[of 1] assms[of 2] assms[of 3] by (simp add: read_usize_def)

lemma shift_in_block:
  fixes x r off n sz :: usize
  assumes "x - (r + off) < n" and "unat off + unat n \<le> unat sz"
  shows "x - r < sz"
proof -
  have e: "x - r = (x - (r + off)) + off" by simp
  have "unat (x - (r + off)) + unat off < unat sz" using assms by (simp add: word_less_nat_alt)
  moreover from this have "unat (x - (r + off) + off) = unat (x - (r + off)) + unat off"
    using unat_lt2p[of sz] by (intro unat_add_lt) simp
  ultimately show ?thesis unfolding e word_less_nat_alt by simp
qed

lemma sint_unat_small:
  assumes "unat (w :: isize) < 2 ^ 31"
  shows "sint w = int (unat w)"
proof -
  have u: "uint w = int (unat w)" by simp
  have "sint w = signed_take_bit 31 (uint w)" by (simp add: sint_uint)
  also have "\<dots> = uint w"
  proof (rule signed_take_bit_int_eq_self)
    have "int (unat w) < 2 ^ 31" using assms by (metis of_nat_less_iff of_nat_numeral of_nat_power)
    then show "uint w < 2 ^ 31" using u by linarith
    have "0 \<le> uint w" by (rule uint_ge_0)
    then show "- (2 ^ 31) \<le> uint w" by (rule order_trans[rotated]) simp
  qed
  finally show ?thesis by (simp only: u)
qed

end
