(* ===== verification/Time.thy ===== *)
theory Time
  imports Prelude
begin

text \<open>
  Signed durations, \<^verbatim>\<open>kernel/common/time.rs\<close>: the normalising constructor,
  addition, subtraction and comparison. The kernel's clocks and every sleeping context are
  kept in these durations. \<^verbatim>\<open>i64\<close> and \<^verbatim>\<open>i32\<close> are words read through
  \<^const>\<open>sint\<close>; their arithmetic wraps.
\<close>

section \<open>Definitions\<close>

definition NANOS_PER_MICRO :: i32 where [redox_consts]: "NANOS_PER_MICRO = 1000"
definition NANOS_PER_MILLI :: i32 where [redox_consts]: "NANOS_PER_MILLI = 1000000"
definition NANOS_PER_SEC :: i32 where [redox_consts]: "NANOS_PER_SEC = 1000000000"

record Duration =
  secs :: i64
  nanos :: i32

lemma sint_NANOS_PER_SEC [simp]: "sint NANOS_PER_SEC = 1000000000"
  by (simp add: NANOS_PER_SEC_def)

lemma nanos_down:
  assumes "0 < sint (n :: i32)"
  shows "sint (n - NANOS_PER_SEC) = sint n - 1000000000"
  using assms sint_i32_range[of n] by (subst sint_sub_fits) (simp_all add: sfits_def)

lemma nanos_up:
  assumes "sint (n :: i32) < 0"
  shows "sint (n + NANOS_PER_SEC) = sint n + 1000000000"
  using assms sint_i32_range[of n] by (subst sint_add_fits) (simp_all add: sfits_def)

text \<open>The two loops of \<^verbatim>\<open>Duration::new\<close>.\<close>

function duration_carry :: "i64 \<Rightarrow> i32 \<Rightarrow> i64 \<times> i32" where
  "duration_carry s n =
     (if sint n \<ge> sint NANOS_PER_SEC \<or> (sint n > 0 \<and> sint s < 0)
      then duration_carry (s + 1) (n - NANOS_PER_SEC) else (s, n))"
  by pat_completeness auto
termination
proof (relation "measure (\<lambda>(s, n). nat (sint n))", goal_cases)
  case (2 s n)
  then have "0 < sint n" by auto
  then show ?case by (simp add: nanos_down)
qed simp

function duration_borrow :: "i64 \<Rightarrow> i32 \<Rightarrow> i64 \<times> i32" where
  "duration_borrow s n =
     (if sint n < 0 \<and> sint s > 0 then duration_borrow (s - 1) (n + NANOS_PER_SEC) else (s, n))"
  by pat_completeness auto
termination
  by (relation "measure (\<lambda>(s, n). nat (- sint n))") (auto simp: nanos_up)

declare duration_carry.simps [simp del] duration_borrow.simps [simp del]

definition duration_new :: "i64 \<Rightarrow> i32 \<Rightarrow> Duration" where
  "duration_new s n =
     (let (s1, n1) = duration_carry s n; (s2, n2) = duration_borrow s1 n1
      in \<lparr>secs = s2, nanos = n2\<rparr>)"

definition duration_add :: "Duration \<Rightarrow> Duration \<Rightarrow> Duration" where
  "duration_add a b = duration_new (secs a + secs b) (nanos a + nanos b)"

definition duration_sub :: "Duration \<Rightarrow> Duration \<Rightarrow> Duration" where
  "duration_sub a b = duration_new (secs a - secs b) (nanos a - nanos b)"

definition duration_eq :: "Duration \<Rightarrow> Duration \<Rightarrow> bool" where
  "duration_eq a b = (let dif = duration_sub a b in secs dif = 0 \<and> nanos dif = 0)"

datatype Ordering = Less | Equal | Greater

definition duration_partial_cmp :: "Duration \<Rightarrow> Duration \<Rightarrow> Ordering option" where
  "duration_partial_cmp a b =
     (let dif = duration_sub a b in
      if sint (secs dif) > 0 then Some Greater
      else if sint (secs dif) < 0 then Some Less
      else if sint (nanos dif) > 0 then Some Greater
      else if sint (nanos dif) < 0 then Some Less
      else Some Equal)"

text \<open>The comparison operators of \<^verbatim>\<open>PartialOrd\<close> are derived from \<^verbatim>\<open>partial_cmp\<close>.\<close>

definition duration_gt :: "Duration \<Rightarrow> Duration \<Rightarrow> bool" where
  "duration_gt a b = (duration_partial_cmp a b = Some Greater)"

definition duration_ge :: "Duration \<Rightarrow> Duration \<Rightarrow> bool" where
  "duration_ge a b = (duration_partial_cmp a b \<in> {Some Greater, Some Equal})"

section \<open>The length of a duration in nanoseconds\<close>

definition span_nanos :: "i64 \<Rightarrow> i32 \<Rightarrow> int" where
  "span_nanos s n = sint s * 1000000000 + sint n"

definition total_nanos :: "Duration \<Rightarrow> int" where
  "total_nanos d = span_nanos (secs d) (nanos d)"

text \<open>Seconds and nanoseconds of opposite sign never stay together.\<close>

definition same_sign :: "i64 \<Rightarrow> i32 \<Rightarrow> bool" where
  "same_sign s n \<longleftrightarrow> \<not> (sint s < 0 \<and> sint n > 0) \<and> \<not> (sint s > 0 \<and> sint n < 0)"

lemma duration_carry_spec:
  assumes "duration_carry s n = (s', n')" and "sint s + max 0 (sint n) < 2 ^ 63"
  shows "span_nanos s' n' = span_nanos s n \<and> \<not> (sint n' \<ge> 1000000000 \<or> (sint n' > 0 \<and> sint s' < 0))
    \<and> sint s \<le> sint s' \<and> (sint n \<le> 0 \<longrightarrow> s' = s \<and> n' = n)"
  using assms
proof (induction s n arbitrary: s' n' rule: duration_carry.induct)
  case (1 s n)
  show ?case
  proof (cases "sint n \<ge> sint NANOS_PER_SEC \<or> (sint n > 0 \<and> sint s < 0)")
    case True
    then have pos: "0 < sint n" by auto
    note down = nanos_down[OF pos]
    have up: "sint (s + 1) = sint s + 1"
      using "1.prems"(2) pos sint_i64_range[of s] by (subst sint_add_fits) (simp_all add: sfits_def)
    have "duration_carry (s + 1) (n - NANOS_PER_SEC) = (s', n')"
      using "1.prems"(1) True by (simp add: duration_carry.simps[of s n])
    moreover have "sint (s + 1) + max 0 (sint (n - NANOS_PER_SEC)) < 2 ^ 63"
      using "1.prems"(2) pos unfolding up down by auto
    ultimately have "span_nanos s' n' = span_nanos (s + 1) (n - NANOS_PER_SEC)
      \<and> \<not> (sint n' \<ge> 1000000000 \<or> (sint n' > 0 \<and> sint s' < 0)) \<and> sint (s + 1) \<le> sint s'"
      using "1.IH"[OF True] by blast
    then show ?thesis using pos by (auto simp: span_nanos_def up down)
  next
    case False
    then show ?thesis using "1.prems"(1) by (auto simp: duration_carry.simps[of s n])
  qed
qed

lemma duration_borrow_spec:
  assumes "duration_borrow s n = (s', n')"
  shows "span_nanos s' n' = span_nanos s n \<and> \<not> (sint n' < 0 \<and> sint s' > 0) \<and> (sint s \<ge> 0 \<longrightarrow> sint s' \<ge> 0)
    \<and> (sint n \<ge> 0 \<or> sint s \<le> 0 \<longrightarrow> s' = s \<and> n' = n) \<and> (sint n < 1000000000 \<longrightarrow> sint n' < 1000000000)"
  using assms
proof (induction s n arbitrary: s' n' rule: duration_borrow.induct)
  case (1 s n)
  show ?case
  proof (cases "sint n < 0 \<and> sint s > 0")
    case True
    have down: "sint (s - 1) = sint s - 1"
      using True sint_i64_range[of s] by (subst sint_sub_fits) (simp_all add: sfits_def)
    note up = nanos_up[OF conjunct1[OF True]]
    have "duration_borrow (s - 1) (n + NANOS_PER_SEC) = (s', n')"
      using "1.prems" True by (simp add: duration_borrow.simps[of s n])
    from "1.IH"[OF True this] show ?thesis
      using True by (auto simp: span_nanos_def up down)
  next
    case False
    then show ?thesis using "1.prems" by (auto simp: duration_borrow.simps[of s n])
  qed
qed

lemma duration_new_spec:
  assumes "sint s + max 0 (sint n) < 2 ^ 63"
  shows "total_nanos (duration_new s n) = span_nanos s n
    \<and> same_sign (secs (duration_new s n)) (nanos (duration_new s n))
    \<and> sint (nanos (duration_new s n)) < 1000000000"
proof -
  obtain s1 n1 where c: "duration_carry s n = (s1, n1)" by fastforce
  obtain s2 n2 where b: "duration_borrow s1 n1 = (s2, n2)" by fastforce
  note C = duration_carry_spec[OF c assms] and B = duration_borrow_spec[OF b]
  have "\<not> (sint s2 < 0 \<and> sint n2 > 0)"
    using B C by (cases "sint n1 \<ge> 0 \<or> sint s1 \<le> 0") auto
  then show ?thesis
    using B C c b by (auto simp: duration_new_def total_nanos_def same_sign_def)
qed

text \<open>Durations whose difference and sum can be formed without overflow.\<close>

definition tame :: "Duration \<Rightarrow> bool" where
  "tame d \<longleftrightarrow> - (2 ^ 61) \<le> sint (secs d) \<and> sint (secs d) \<le> 2 ^ 61
     \<and> - 1000000000 < sint (nanos d) \<and> sint (nanos d) < 1000000000"

lemma total_add:
  assumes "tame a" and "tame b"
  shows "span_nanos (secs a + secs b) (nanos a + nanos b) = total_nanos a + total_nanos b
    \<and> sint (secs a + secs b) + max 0 (sint (nanos a + nanos b)) < 2 ^ 63"
proof -
  have "sint (secs a + secs b) = sint (secs a) + sint (secs b)"
    using assms by (subst sint_add_fits) (simp_all add: sfits_def tame_def)
  moreover have "sint (nanos a + nanos b) = sint (nanos a) + sint (nanos b)"
    using assms by (subst sint_add_fits) (simp_all add: sfits_def tame_def)
  ultimately show ?thesis
    using assms by (auto simp: span_nanos_def total_nanos_def tame_def max_def)
qed

lemma total_sub:
  assumes "tame a" and "tame b"
  shows "span_nanos (secs a - secs b) (nanos a - nanos b) = total_nanos a - total_nanos b
    \<and> sint (secs a - secs b) + max 0 (sint (nanos a - nanos b)) < 2 ^ 63"
proof -
  have "sint (secs a - secs b) = sint (secs a) - sint (secs b)"
    using assms by (subst sint_sub_fits) (simp_all add: sfits_def tame_def)
  moreover have "sint (nanos a - nanos b) = sint (nanos a) - sint (nanos b)"
    using assms by (subst sint_sub_fits) (simp_all add: sfits_def tame_def)
  ultimately show ?thesis
    using assms by (auto simp: span_nanos_def total_nanos_def tame_def max_def)
qed

lemma duration_add_total:
  assumes "tame a" and "tame b"
  shows "total_nanos (duration_add a b) = total_nanos a + total_nanos b"
  using duration_new_spec total_add[OF assms] unfolding duration_add_def by simp

lemma duration_sub_spec:
  assumes "tame a" and "tame b"
  shows "total_nanos (duration_sub a b) = total_nanos a - total_nanos b
    \<and> same_sign (secs (duration_sub a b)) (nanos (duration_sub a b))"
  using duration_new_spec total_sub[OF assms] unfolding duration_sub_def by simp

lemma duration_cmp_total:
  assumes "tame a" and "tame b"
  shows "duration_partial_cmp a b =
    Some (if total_nanos a > total_nanos b then Greater
          else if total_nanos a < total_nanos b then Less else Equal)"
proof -
  define d where "d = duration_sub a b"
  have "total_nanos a - total_nanos b = sint (secs d) * 1000000000 + sint (nanos d)"
    and "same_sign (secs d) (nanos d)"
    using duration_sub_spec[OF assms] by (simp_all add: d_def total_nanos_def span_nanos_def)
  then show ?thesis
    unfolding duration_partial_cmp_def d_def[symmetric] Let_def same_sign_def by auto
qed

section \<open>Properties\<close>

text \<open>
  \<^verbatim>\<open>Duration::new\<close> terminates for every pair of seconds and nanoseconds (it is a
  total function), keeps the total length, and, as long as the seconds do not overflow,
  returns seconds and nanoseconds that never have opposite signs, with less than one
  second in the nanoseconds.
\<close>

theorem duration_new_normalises:
  assumes "sint s \<le> 2 ^ 62"
  shows "total_nanos (duration_new s n) = sint s * 1000000000 + sint n
    \<and> same_sign (secs (duration_new s n)) (nanos (duration_new s n))
    \<and> sint (nanos (duration_new s n)) < 1000000000"
  using duration_new_spec[of s n] assms sint_i32_range[of n] by (simp add: span_nanos_def max_def)

theorem duration_new_normalises_witness:
  "total_nanos (duration_new (- 2) 1500000000) = - 500000000
   \<and> duration_new (- 2) 1500000000 = \<lparr>secs = 0, nanos = - 500000000\<rparr>"
  using duration_new_normalises[of "- 2" 1500000000]
  by (simp add: duration_new_def duration_carry.simps duration_borrow.simps NANOS_PER_SEC_def)

text \<open>
  Addition and subtraction of durations are exact on the total length, and equality
  and comparison of two durations agree with the comparison of their total lengths, for all
  durations with at most one second in the nanoseconds and seconds up to
  \<^term>\<open>2 ^ 61 :: int\<close> in magnitude.
\<close>

theorem duration_arith:
  assumes "tame a" and "tame b"
  shows "total_nanos (duration_add a b) = total_nanos a + total_nanos b
    \<and> total_nanos (duration_sub a b) = total_nanos a - total_nanos b
    \<and> (duration_eq a b \<longleftrightarrow> total_nanos a = total_nanos b)
    \<and> duration_partial_cmp a b =
        Some (if total_nanos a > total_nanos b then Greater
              else if total_nanos a < total_nanos b then Less else Equal)"
proof -
  define d where "d = duration_sub a b"
  have d: "total_nanos a - total_nanos b = sint (secs d) * 1000000000 + sint (nanos d)"
    "same_sign (secs d) (nanos d)"
    using duration_sub_spec[OF assms] by (simp_all add: d_def total_nanos_def span_nanos_def)
  have "duration_eq a b \<longleftrightarrow> sint (secs d) = 0 \<and> sint (nanos d) = 0"
    unfolding duration_eq_def d_def[symmetric] Let_def sint_eq_0 ..
  also have "\<dots> \<longleftrightarrow> total_nanos a = total_nanos b"
    using d unfolding same_sign_def by auto
  finally show ?thesis
    using duration_add_total[OF assms] duration_sub_spec[OF assms] duration_cmp_total[OF assms] by simp
qed

theorem duration_arith_witness:
  "duration_partial_cmp \<lparr>secs = 3, nanos = 200000000\<rparr> \<lparr>secs = 2, nanos = 900000000\<rparr> = Some Greater
   \<and> total_nanos (duration_sub \<lparr>secs = 3, nanos = 200000000\<rparr> \<lparr>secs = 2, nanos = 900000000\<rparr>) = 300000000"
  using duration_arith[of "\<lparr>secs = 3, nanos = 200000000\<rparr>" "\<lparr>secs = 2, nanos = 900000000\<rparr>"]
  by (simp add: tame_def total_nanos_def span_nanos_def)

end
