(* ===== verification/Rtc.thy ===== *)
theory Rtc
  imports Time
begin

text \<open>
  The real-time clock driver, \<^verbatim>\<open>kernel/drivers/rtc.rs\<close>: decoding of the clock's
  registers and conversion to Unix time. The registers are an argument, \<^term>\<open>regs r\<close> the
  byte that selecting register \<^term>\<open>r\<close> reads; \<^verbatim>\<open>wait\<close> polls the device until the
  registers are stable and computes nothing.
\<close>

section \<open>Definitions\<close>

definition cvt_bcd :: "usize \<Rightarrow> usize" where
  "cvt_bcd val = (val AND 0xF) + (val div 16) * 10"

text \<open>Seconds before the first day of a month of an ordinary year.\<close>

definition month_seconds :: "usize \<Rightarrow> i64" where
  "month_seconds month =
     (if month = 2 then 2678400
      else if month = 3 then 5097600
      else if month = 4 then 7776000
      else if month = 5 then 10368000
      else if month = 6 then 13046400
      else if month = 7 then 15638400
      else if month = 8 then 18316800
      else if month = 9 then 20995200
      else if month = 10 then 23587200
      else if month = 11 then 26265600
      else if month = 12 then 28857600
      else 0)"

text \<open>Unix time from the clock's fields.\<close>

definition rtc_unix_secs :: "usize \<Rightarrow> usize \<Rightarrow> usize \<Rightarrow> usize \<Rightarrow> usize \<Rightarrow> usize \<Rightarrow> i64" where
  "rtc_unix_secs year month day hour minute second =
     (let secs = (ucast year - 1970) * 31536000 :: i64;
          leap_days = i64_div (ucast year - 1972) 4 + 1;
          leap_days = (if year mod 4 = 0 then if month \<le> 2 then leap_days - 1 else leap_days else leap_days);
          secs = secs + leap_days * 86400;
          secs = secs + month_seconds month;
          secs = secs + (ucast day - 1) * 86400;
          secs = secs + ucast hour * 3600;
          secs = secs + ucast minute * 60
      in secs + ucast second)"

definition rtc_time :: "(u8 \<Rightarrow> u8) \<Rightarrow> Duration" where
  "rtc_time regs =
     (let second = ucast (regs 0) :: usize;
          minute = ucast (regs 2) :: usize;
          hour = ucast (regs 4) :: usize;
          day = ucast (regs 7) :: usize;
          month = ucast (regs 8) :: usize;
          year = ucast (regs 9) :: usize;
          register_b = regs 0xB;
          bcd = (register_b AND 4 \<noteq> 4);
          second = (if bcd then cvt_bcd second else second);
          minute = (if bcd then cvt_bcd minute else minute);
          hour = (if bcd then cvt_bcd (hour AND 0x7F) OR (hour AND 0x80) else hour);
          day = (if bcd then cvt_bcd day else day);
          month = (if bcd then cvt_bcd month else month);
          year = (if bcd then cvt_bcd year else year);
          hour = (if register_b AND 2 \<noteq> 2 \<or> hour AND 0x80 = 0x80
                  then ((hour AND 0x7F) + 12) mod 24 else hour);
          year = year + 2000
      in duration_new (rtc_unix_secs year month day hour minute second) 0)"

section \<open>The calendar\<close>

definition leap_year :: "nat \<Rightarrow> bool" where
  "leap_year y \<longleftrightarrow> 4 dvd y \<and> (\<not> 100 dvd y \<or> 400 dvd y)"

definition month_length :: "nat \<Rightarrow> nat \<Rightarrow> nat" where
  "month_length y mo =
     (if mo = 2 then (if leap_year y then 29 else 28)
      else if mo \<in> {4, 6, 9, 11} then 30 else 31)"

fun days_before_year :: "nat \<Rightarrow> nat" where
  "days_before_year y =
     (if y \<le> 1970 then 0 else days_before_year (y - 1) + (if leap_year (y - 1) then 366 else 365))"

declare days_before_year.simps [simp del]

definition days_before_month :: "nat \<Rightarrow> nat \<Rightarrow> nat" where
  "days_before_month y mo = sum_list (map (month_length y) [1..<mo])"

text \<open>Seconds since 1970-01-01 00:00:00 of a date and time of the Gregorian calendar.\<close>

definition unix_time :: "nat \<Rightarrow> nat \<Rightarrow> nat \<Rightarrow> nat \<Rightarrow> nat \<Rightarrow> nat \<Rightarrow> nat" where
  "unix_time y mo d h mi s =
     (days_before_year y + days_before_month y mo + (d - 1)) * 86400 + h * 3600 + mi * 60 + s"

lemma leap_year_century: "y < 2100 \<Longrightarrow> 1970 \<le> y \<Longrightarrow> leap_year y \<longleftrightarrow> 4 dvd y"
  unfolding leap_year_def by presburger

lemma days_before_year_closed:
  "k \<le> 130 \<Longrightarrow> days_before_year (1970 + k) = 365 * k + (k + 1) div 4"
proof (induction k)
  case 0
  then show ?case by (simp add: days_before_year.simps)
next
  case (Suc k)
  have "leap_year (1970 + k) \<longleftrightarrow> 4 dvd (1970 + k)"
    using Suc.prems by (intro leap_year_century) auto
  moreover have "Suc k div 4 + (if 4 dvd (1970 + k) then 1 else 0) = (Suc k + 1) div 4"
    by presburger
  ultimately show ?case
    using Suc by (subst days_before_year.simps) (auto split: if_splits)
qed

lemma month_cases:
  assumes "1 \<le> mo" "mo \<le> 12"
  obtains "mo = 1" | "mo = 2" | "mo = 3" | "mo = 4" | "mo = 5" | "mo = 6" | "mo = 7" | "mo = 8"
    | "mo = 9" | "mo = 10" | "mo = 11" | "mo = (12 :: nat)"
  using assms by (auto simp: le_Suc_eq numeral_eq_Suc)

lemma not_leap_2001: "\<not> leap_year 2001"
  by (simp add: leap_year_def)

lemma days_before_month_leap:
  assumes "1 \<le> mo" "mo \<le> 12"
  shows "days_before_month y mo = days_before_month 2001 mo + (if leap_year y \<and> 2 < mo then 1 else 0)"
  by (rule month_cases[OF assms]; simp add: days_before_month_def month_length_def not_leap_2001 upt_rec)

lemma month_seconds_days:
  assumes "1 \<le> mo" "mo \<le> 12"
  shows "month_seconds (of_nat mo) = of_nat (days_before_month 2001 mo) * 86400"
  by (rule month_cases[OF assms]; simp add: days_before_month_def month_length_def not_leap_2001 upt_rec month_seconds_def)

section \<open>Decoding the registers\<close>

text \<open>The byte the clock holds for a number, in binary or in packed decimal digits.\<close>

definition encode :: "bool \<Rightarrow> nat \<Rightarrow> u8" where
  "encode binary n = (if binary then of_nat n else of_nat (16 * (n div 10) + n mod 10))"

lemma and_low4: "unat (w AND 0xF :: usize) = unat w mod 16"
  using unat_and_mask[of w 4] by (simp add: mask_eq_exp_minus_1)

lemma and_low7:
  assumes "unat (w :: usize) < 128"
  shows "w AND 0x7F = w" and "w AND 0x80 = 0"
proof -
  show "w AND 0x7F = w"
    using unat_and_mask[of w 7] assms by (intro word_eq_unatI) (simp add: mask_eq_exp_minus_1)
  have "\<not> bit (unat w) 7"
    using assms by (simp add: bit_iff_odd)
  then have "\<not> bit w 7" by (simp add: bit_unsigned_iff)
  then show "w AND 0x80 = 0" using and_exp_eq_0_iff_not_bit[of w 7] by simp
qed

lemma unat_encode:
  "n < 100 \<Longrightarrow> unat (encode binary n) = (if binary then n else 16 * (n div 10) + n mod 10)"
  by (auto simp: encode_def unat_of_nat_lt simp del: of_nat_add of_nat_mult)

lemma cvt_bcd_encode:
  assumes "n < 100"
  shows "cvt_bcd (ucast (encode False n)) = of_nat n"
proof (rule word_eq_unatI)
  define v where "v = (ucast (encode False n) :: usize)"
  have v: "unat v = 16 * (n div 10) + n mod 10"
    using assms by (simp add: v_def unat_ucast_up unat_encode)
  have d: "unat (v AND 0xF) = n mod 10" "unat (v div 16) = n div 10"
    unfolding and_low4 unat_div v by simp_all
  have "unat (v div 16 * 10) = n div 10 * 10"
    using assms d by (subst unat_mult_lt) simp_all
  then have "unat (cvt_bcd v) = n"
    using assms d unfolding cvt_bcd_def by (subst unat_add_lt) simp_all
  then show "unat (cvt_bcd v) = unat (of_nat n :: usize)"
    using assms by (simp add: unat_of_nat_lt)
qed

lemma binary_encode: "n < 100 \<Longrightarrow> ucast (encode True n) = (of_nat n :: usize)"
  by (rule word_eq_unatI) (simp add: unat_ucast_up unat_encode unat_of_nat_lt)

lemma hour_encode:
  assumes "h < 24"
  shows "cvt_bcd (ucast (encode False h) AND 0x7F) OR (ucast (encode False h) AND 0x80) = (of_nat h :: usize)"
proof -
  have "unat (ucast (encode False h) :: usize) < 128"
    using assms by (simp add: unat_ucast_up unat_encode)
  then show ?thesis using assms by (simp add: and_low7 cvt_bcd_encode)
qed

text \<open>The arithmetic after decoding, on numbers in range.\<close>

lemma i64_div_of_nat:
  assumes "a < 2 ^ 63" "b < 2 ^ 63"
  shows "i64_div (of_nat a) (of_nat b) = of_nat (a div b)"
proof -
  have "sint (of_nat n :: i64) = int n" if "n < 2 ^ 63" for n
    using that by (simp add: sint_uint unsigned_of_nat signed_take_bit_int_eq_self take_bit_nat_eq_self)
  then show ?thesis
    using assms by (simp add: i64_div_def sgn_if flip: of_nat_div)
qed

lemma ucast_of_nat_i64: "n < 2 ^ 32 \<Longrightarrow> ucast (of_nat n :: usize) = (of_nat n :: i64)"
  by (rule word_eq_unatI) (simp add: unat_ucast_up unat_of_nat_lt)

lemma duration_new_secs: "duration_new x 0 = \<lparr>secs = x, nanos = 0\<rparr>"
  by (simp add: duration_new_def duration_carry.simps duration_borrow.simps)

text \<open>Days since 1970 as the driver counts them.\<close>

lemma driver_days:
  assumes "y < 100" "1 \<le> mo" "mo \<le> 12" "1 \<le> d"
  shows "days_before_year (2000 + y) + days_before_month (2000 + y) mo + (d - 1) =
    (30 + y) * 365 + ((28 + y) div 4 + (if 4 dvd y \<and> mo \<le> 2 then 0 else 1)) +
    days_before_month 2001 mo + (d - 1)"
proof -
  have "days_before_year (2000 + y) = 365 * (30 + y) + (31 + y) div 4"
    using days_before_year_closed[of "30 + y"] assms(1) by simp
  moreover have "leap_year (2000 + y) \<longleftrightarrow> 4 dvd y"
    using assms(1) by (subst leap_year_century) presburger+
  moreover have "(31 + y) div 4 + (if 4 dvd y \<and> 2 < mo then 1 else 0) =
      (28 + y) div 4 + (if 4 dvd y \<and> mo \<le> 2 then 0 else (1 :: nat))"
  proof -
    have "(31 + y) div 4 = (28 + y) div 4 + (if 4 dvd y then 0 else (1 :: nat))" by presburger
    then show ?thesis by simp
  qed
  ultimately show ?thesis using days_before_month_leap[OF assms(2,3), of "2000 + y"] by simp
qed

lemma driver_secs:
  assumes "y < 100" "1 \<le> mo" "mo \<le> 12" "1 \<le> d" "d < 100" "h < 100" "mi < 100" "s < 100"
  shows "rtc_unix_secs (of_nat y + 2000) (of_nat mo) (of_nat d) (of_nat h) (of_nat mi) (of_nat s) =
    of_nat (unix_time (2000 + y) mo d h mi s)"
proof -
  define year where "year = (of_nat y + 2000 :: usize)"
  define leap_days where "leap_days = i64_div (ucast year - 1972) 4 + 1"
  have "year = of_nat (2000 + y)" by (simp add: year_def)
  then have uy: "ucast year = (of_nat (2000 + y) :: i64)" and "unat year = 2000 + y"
    using assms(1) ucast_of_nat_i64[of "2000 + y"] unat_of_nat_lt[of "2000 + y", where 'a = 32] by simp_all
  then have "year mod 4 = 0 \<longleftrightarrow> (2000 + y) mod 4 = 0"
    by (simp add: unat_mod flip: unat_eq_zero)
  then have lp: "year mod 4 = 0 \<longleftrightarrow> 4 dvd y" by presburger
  have mo: "(of_nat mo :: usize) \<le> 2 \<longleftrightarrow> mo \<le> 2"
    using assms(3) by (simp add: word_le_nat_alt unat_of_nat_lt)
  have "i64_div (ucast year - 1972) 4 = i64_div (of_nat (28 + y)) (of_nat 4)"
    by (simp add: uy)
  then have ld: "leap_days = of_nat ((28 + y) div 4) + 1"
    using assms(1) i64_div_of_nat[of "28 + y" 4] by (simp only: leap_days_def) simp
  define lin where "lin = (28 + y) div 4"
  have "leap_days = of_nat lin + 1" using ld by (simp add: lin_def)
  moreover have "of_nat (unix_time (2000 + y) mo d h mi s) =
    (of_nat ((30 + y) * 365 + (lin + (if 4 dvd y \<and> mo \<le> 2 then 0 else 1)) + days_before_month 2001 mo + (d - 1)) * 86400
      + of_nat h * 3600 + of_nat mi * 60 + of_nat s :: i64)"
    unfolding unix_time_def driver_days[OF assms(1-4)] lin_def by simp
  moreover obtain d' where "d = Suc d'" and "ucast (1 + of_nat d' :: usize) = (1 + of_nat d' :: i64)"
    using assms(4,5) ucast_of_nat_i64[of d] by (cases d) auto
  moreover have nums: "ucast (of_nat n :: usize) = (of_nat n :: i64)" if "n < 100" for n
    using that by (simp add: ucast_of_nat_i64)
  ultimately show ?thesis
    using assms(5-8)
    unfolding rtc_unix_secs_def year_def[symmetric] Let_def leap_days_def[symmetric]
    unfolding lp mo uy month_seconds_days[OF assms(2,3)]
    by (simp add: algebra_simps split: if_splits)
qed

section \<open>Properties\<close>

text \<open>
  C35. When the clock is in 24-hour mode, in binary or packed-decimal format, and shows a date
  of the years 2000 to 2099, the driver returns the Unix time of that date in the Gregorian
  calendar.
\<close>

theorem rtc_time_correct:
  assumes "register_b AND 2 = 2" and "binary \<longleftrightarrow> register_b AND 4 = 4"
    and "y < 100" "1 \<le> mo" "mo \<le> 12" "1 \<le> d" "d \<le> 31" "h < 24" "mi < 60" "s < 60"
  shows "rtc_time ((\<lambda>_. 0)(0 := encode binary s, 2 := encode binary mi, 4 := encode binary h,
      7 := encode binary d, 8 := encode binary mo, 9 := encode binary y, 0xB := register_b)) =
    \<lparr>secs = of_nat (unix_time (2000 + y) mo d h mi s), nanos = 0\<rparr>"
proof -
  have nh: "(of_nat h :: usize) AND 0x80 = 0"
    using assms(8) by (intro and_low7) (simp add: unat_of_nat_lt)
  then show ?thesis
    using assms
    by (cases binary)
       (simp_all add: rtc_time_def Let_def cvt_bcd_encode binary_encode hour_encode duration_new_secs driver_secs)
qed

text \<open>2016-02-29 12:34:56, in packed decimal.\<close>

theorem rtc_time_correct_witness:
  "rtc_time ((\<lambda>_. 0)(0 := 0x56, 2 := 0x34, 4 := 0x12, 7 := 0x29, 8 := 2, 9 := 0x16, 0xB := 2)) =
     \<lparr>secs = 1456749296, nanos = 0\<rparr>"
proof -
  have "unix_time 2016 2 29 12 34 56 = 1456749296"
    using driver_days[of 16 2 29]
    by (simp add: unix_time_def days_before_month_def month_length_def upt_rec)
  then show ?thesis
    using rtc_time_correct[of 2 False 16 2 29 12 34 56] by (simp add: encode_def)
qed

end
