(* ===== verification/Event.thy ===== *)
theory Event
  imports Prelude
begin

text \<open>
  Input events, \<^verbatim>\<open>kernel/common/event.rs\<close>: the wire format of four 64-bit numbers and
  its conversion to and from mouse, key and quit events. A Rust \<^verbatim>\<open>char\<close> is a Unicode
  scalar value, kept in a 32-bit word.
\<close>

section \<open>Definitions\<close>

type_synonym rchar = "32 word"

definition is_char :: "u32 \<Rightarrow> bool" where
  "is_char c \<longleftrightarrow> c < 0xD800 \<or> (0xDFFF < c \<and> c < 0x110000)"

text \<open>\<^verbatim>\<open>char::from_u32\<close> of the core library.\<close>

definition char_from_u32 :: "u32 \<Rightarrow> rchar option" where
  "char_from_u32 c = (if is_char c then Some c else None)"

definition EVENT_NONE :: i64 where [redox_consts]: "EVENT_NONE = 0"
definition EVENT_MOUSE :: i64 where [redox_consts]: "EVENT_MOUSE = 1"
definition EVENT_KEY :: i64 where [redox_consts]: "EVENT_KEY = 2"
definition EVENT_QUIT :: i64 where [redox_consts]: "EVENT_QUIT = 3"

definition K_ESC :: u8 where [redox_consts]: "K_ESC = 0x01"
definition K_BKSP :: u8 where [redox_consts]: "K_BKSP = 0x0E"
definition K_TAB :: u8 where [redox_consts]: "K_TAB = 0x0F"
definition K_CTRL :: u8 where [redox_consts]: "K_CTRL = 0x1D"
definition K_ALT :: u8 where [redox_consts]: "K_ALT = 0x38"
definition K_F1 :: u8 where [redox_consts]: "K_F1 = 0x3B"
definition K_F2 :: u8 where [redox_consts]: "K_F2 = 0x3C"
definition K_F3 :: u8 where [redox_consts]: "K_F3 = 0x3D"
definition K_F4 :: u8 where [redox_consts]: "K_F4 = 0x3E"
definition K_F5 :: u8 where [redox_consts]: "K_F5 = 0x3F"
definition K_F6 :: u8 where [redox_consts]: "K_F6 = 0x40"
definition K_F7 :: u8 where [redox_consts]: "K_F7 = 0x41"
definition K_F8 :: u8 where [redox_consts]: "K_F8 = 0x42"
definition K_F9 :: u8 where [redox_consts]: "K_F9 = 0x43"
definition K_F10 :: u8 where [redox_consts]: "K_F10 = 0x44"
definition K_HOME :: u8 where [redox_consts]: "K_HOME = 0x47"
definition K_UP :: u8 where [redox_consts]: "K_UP = 0x48"
definition K_PGUP :: u8 where [redox_consts]: "K_PGUP = 0x49"
definition K_LEFT :: u8 where [redox_consts]: "K_LEFT = 0x4B"
definition K_RIGHT :: u8 where [redox_consts]: "K_RIGHT = 0x4D"
definition K_END :: u8 where [redox_consts]: "K_END = 0x4F"
definition K_DOWN :: u8 where [redox_consts]: "K_DOWN = 0x50"
definition K_PGDN :: u8 where [redox_consts]: "K_PGDN = 0x51"
definition K_DEL :: u8 where [redox_consts]: "K_DEL = 0x53"
definition K_F11 :: u8 where [redox_consts]: "K_F11 = 0x57"
definition K_F12 :: u8 where [redox_consts]: "K_F12 = 0x58"
definition K_LEFT_SHIFT :: u8 where [redox_consts]: "K_LEFT_SHIFT = 0x2A"
definition K_RIGHT_SHIFT :: u8 where [redox_consts]: "K_RIGHT_SHIFT = 0x36"

record Event =
  event_code :: i64
  event_a :: i64
  event_b :: i64
  event_c :: i64

definition event_new :: Event where
  "event_new = \<lparr>event_code = 0, event_a = 0, event_b = 0, event_c = 0\<rparr>"

record MouseEvent =
  mouse_x :: i32
  mouse_y :: i32
  left_button :: bool
  middle_button :: bool
  right_button :: bool

definition mouse_to_event :: "MouseEvent \<Rightarrow> Event" where
  "mouse_to_event e =
     \<lparr>event_code = EVENT_MOUSE,
      event_a = scast (mouse_x e),
      event_b = scast (mouse_y e),
      event_c = of_bool (left_button e) OR push_bit 1 (of_bool (middle_button e)) OR
        push_bit 2 (of_bool (right_button e))\<rparr>"

definition mouse_from_event :: "Event \<Rightarrow> MouseEvent" where
  "mouse_from_event event =
     \<lparr>mouse_x = scast (event_a event),
      mouse_y = scast (event_b event),
      left_button = (event_c event AND 1 = 1),
      middle_button = (event_c event AND 2 = 2),
      right_button = (event_c event AND 4 = 4)\<rparr>"

record KeyEvent =
  key_character :: rchar
  key_scancode :: u8
  key_pressed :: bool

definition key_to_event :: "KeyEvent \<Rightarrow> Event" where
  "key_to_event e =
     \<lparr>event_code = EVENT_KEY,
      event_a = ucast (key_character e),
      event_b = ucast (key_scancode e),
      event_c = of_bool (key_pressed e)\<rparr>"

definition key_from_event :: "Event \<Rightarrow> KeyEvent" where
  "key_from_event event =
     \<lparr>key_character = (case char_from_u32 (ucast (event_a event)) of Some c \<Rightarrow> c | None \<Rightarrow> 0),
      key_scancode = ucast (event_b event),
      key_pressed = (0 < sint (event_c event))\<rparr>"

datatype QuitEvent = QuitEvent

definition quit_to_event :: "QuitEvent \<Rightarrow> Event" where
  "quit_to_event q = \<lparr>event_code = EVENT_QUIT, event_a = 0, event_b = 0, event_c = 0\<rparr>"

definition quit_from_event :: "Event \<Rightarrow> QuitEvent" where
  "quit_from_event event = QuitEvent"

datatype EventOption =
  Mouse MouseEvent
| Key KeyEvent
| Quit QuitEvent
| Unknown Event
| NoEvent

definition event_to_option :: "Event \<Rightarrow> EventOption" where
  "event_to_option e =
     (if event_code e = EVENT_NONE then NoEvent
      else if event_code e = EVENT_MOUSE then Mouse (mouse_from_event e)
      else if event_code e = EVENT_KEY then Key (key_from_event e)
      else if event_code e = EVENT_QUIT then Quit (quit_from_event e)
      else Unknown e)"

text \<open>
  An event as bytes (\<^verbatim>\<open>Deref\<close>): the packed struct is its four numbers, each little-endian.
\<close>

definition i64_bytes :: "i64 \<Rightarrow> u8 list" where
  "i64_bytes w = map (\<lambda>k. ucast (drop_bit (8 * k) w)) [0, 1, 2, 3, 4, 5, 6, 7]"

definition event_bytes :: "Event \<Rightarrow> u8 list" where
  "event_bytes e =
     i64_bytes (event_code e) @ i64_bytes (event_a e) @ i64_bytes (event_b e) @ i64_bytes (event_c e)"

text \<open>Overwriting the bytes of an event (\<^verbatim>\<open>DerefMut\<close>) is reading four numbers back.\<close>

definition bytes_i64 :: "u8 list \<Rightarrow> i64" where
  "bytes_i64 bs = foldr (\<lambda>b w. ucast b OR push_bit 8 w) (take 8 bs) 0"

definition bytes_event :: "u8 list \<Rightarrow> Event" where
  "bytes_event bs =
     \<lparr>event_code = bytes_i64 bs, event_a = bytes_i64 (drop 8 bs),
      event_b = bytes_i64 (drop 16 bs), event_c = bytes_i64 (drop 24 bs)\<rparr>"

text \<open>The event a device or program sends for a decoded event.\<close>

fun option_to_event :: "EventOption \<Rightarrow> Event" where
  "option_to_event (Mouse e) = mouse_to_event e"
| "option_to_event (Key e) = key_to_event e"
| "option_to_event (Quit e) = quit_to_event e"
| "option_to_event (Unknown e) = e"
| "option_to_event NoEvent = event_new"

section \<open>Round trips\<close>

lemma scast_scast_i32: "scast (scast (x :: i32) :: i64) = x"
  by (rule bit_word_eqI) (simp add: bit_simps)

lemma ucast_ucast_u32: "ucast (ucast (x :: u32) :: i64) = x"
  by (rule bit_word_eqI) (simp add: bit_simps)

lemma ucast_ucast_u8: "ucast (ucast (x :: u8) :: i64) = x"
  by (rule bit_word_eqI) (simp add: bit_simps)

lemma mouse_roundtrip: "mouse_from_event (mouse_to_event e) = e"
  by (cases "left_button e"; cases "middle_button e"; cases "right_button e")
     (simp_all add: mouse_from_event_def mouse_to_event_def scast_scast_i32)

lemma key_roundtrip: "is_char (key_character e) \<Longrightarrow> key_from_event (key_to_event e) = e"
  by (cases "key_pressed e")
     (simp_all add: key_from_event_def key_to_event_def char_from_u32_def ucast_ucast_u32 ucast_ucast_u8)

lemma length_i64_bytes [simp]: "length (i64_bytes w) = 8"
  by (simp add: i64_bytes_def)

lemma le_byte_step:
  fixes v :: i64
  shows "ucast (ucast v :: u8) OR push_bit 8 (take_bit (8 * n) (drop_bit 8 v)) = take_bit (8 * Suc n) v"
  by (rule bit_word_eqI) (auto simp: bit_simps)

lemma le_bytes_fold:
  fixes w :: i64
  shows "foldr (\<lambda>b w. ucast b OR push_bit 8 w) (map (\<lambda>k. ucast (drop_bit (8 * k) w) :: u8) [a..<a + n]) 0 =
    take_bit (8 * n) (drop_bit (8 * a) w)"
proof (induction n arbitrary: a)
  case (Suc n)
  have "[a..<a + Suc n] = a # [Suc a..<Suc a + n]" by (simp add: upt_rec)
  moreover have "drop_bit (8 * Suc a) w = drop_bit 8 (drop_bit (8 * a) w)"
    by (simp add: add.commute)
  ultimately show ?case
    using le_byte_step[of "drop_bit (8 * a) w" n] by (simp only: foldr.simps list.map o_apply Suc.IH)
qed simp

lemma bytes_i64_bytes: "bytes_i64 (i64_bytes w @ bs) = w"
proof -
  have "i64_bytes w = map (\<lambda>k. ucast (drop_bit (8 * k) w)) [0..<0 + 8]"
    by (simp add: i64_bytes_def upt_rec)
  then have "bytes_i64 (i64_bytes w @ bs) = take_bit (8 * 8) (drop_bit (8 * 0) w)"
    using le_bytes_fold[of w 0 8] by (simp add: bytes_i64_def)
  then show ?thesis by (simp add: take_bit_word_eq_self)
qed

lemma bytes_i64_bytes_end: "bytes_i64 (i64_bytes w) = w"
  using bytes_i64_bytes[of w "[]"] by simp

lemma bytes_event_bytes: "bytes_event (event_bytes e) = e"
  by (simp add: bytes_event_def event_bytes_def bytes_i64_bytes bytes_i64_bytes_end)

section \<open>Properties\<close>

text \<open>Events a sender can mean: characters are Unicode scalar values, unknown codes are unknown.\<close>

fun proper_event :: "EventOption \<Rightarrow> bool" where
  "proper_event (Key e) \<longleftrightarrow> is_char (key_character e)"
| "proper_event (Unknown e) \<longleftrightarrow> event_code e \<notin> {EVENT_NONE, EVENT_MOUSE, EVENT_KEY, EVENT_QUIT}"
| "proper_event _ \<longleftrightarrow> True"

text \<open>
  An event survives the wire: encoding an input event, writing its 32 bytes, reading them
  back and decoding gives the same event, for mouse positions of either sign, all button
  combinations, every Unicode scalar value and every unknown code.
\<close>

theorem event_roundtrip:
  assumes "proper_event e"
  shows "event_to_option (bytes_event (event_bytes (option_to_event e))) = e"
proof (cases e)
  case (Mouse m)
  then show ?thesis
    using mouse_roundtrip[of m] by (simp add: bytes_event_bytes event_to_option_def mouse_to_event_def redox_consts)
next
  case (Key k)
  then show ?thesis
    using key_roundtrip[of k] assms
    by (simp add: bytes_event_bytes event_to_option_def key_to_event_def redox_consts)
next
  case (Quit q)
  then show ?thesis
    by (cases q) (simp add: bytes_event_bytes event_to_option_def quit_to_event_def quit_from_event_def redox_consts)
qed (use assms in \<open>simp_all add: bytes_event_bytes event_to_option_def event_new_def redox_consts\<close>)

theorem event_roundtrip_witness:
  "event_to_option (bytes_event (event_bytes (option_to_event
     (Key \<lparr>key_character = 0x1F600, key_scancode = K_ESC, key_pressed = True\<rparr>)))) =
   Key \<lparr>key_character = 0x1F600, key_scancode = K_ESC, key_pressed = True\<rparr>"
  by (rule event_roundtrip) (simp add: is_char_def)

end
