(* ===== verification/Keyboard.thy ===== *)
theory Keyboard
  imports Event
begin

text \<open>
  Keyboard and mouse input: the keyboard layouts (\<^verbatim>\<open>kernel/drivers/kb_layouts/layouts.rs\<close>)
  and the interrupt handlers of the PS/2 driver (\<^verbatim>\<open>kernel/drivers/ps2.rs\<close>), which decode
  scan codes and three-byte mouse packets into the events of theory \<open>Event\<close>. The
  initialisation handshake with the controller is device access only and is not modelled.
\<close>

section \<open>Layouts\<close>

datatype Layout = English | French | German

definition SCANCODES_EN :: "(rchar \<times> rchar \<times> rchar) list" where
  "SCANCODES_EN = [
    (0, 0, 0), (27, 27, 27), (49, 33, 49), (50, 64, 50), (51, 35, 51), (52, 36, 52), (53, 37, 53),
    (54, 94, 54), (55, 38, 55), (56, 42, 56), (57, 40, 57), (48, 41, 48), (45, 95, 45),
    (61, 43, 61), (0, 0, 0), (9, 9, 9), (113, 81, 113), (119, 87, 119), (101, 69, 101),
    (114, 82, 114), (116, 84, 116), (121, 89, 121), (117, 85, 117), (105, 73, 105), (111, 79, 111),
    (112, 80, 112), (91, 123, 91), (93, 125, 93), (10, 10, 10), (0, 0, 0), (97, 65, 97),
    (115, 83, 115), (100, 68, 100), (102, 70, 102), (103, 71, 103), (104, 72, 104), (106, 74, 106),
    (107, 75, 107), (108, 76, 108), (59, 58, 59), (39, 34, 39), (96, 126, 96), (0, 0, 0),
    (92, 124, 92), (122, 90, 122), (120, 88, 120), (99, 67, 99), (118, 86, 118), (98, 66, 98),
    (110, 78, 110), (109, 77, 109), (44, 60, 44), (46, 62, 46), (47, 63, 47), (0, 0, 0), (0, 0, 0),
    (0, 0, 0), (32, 32, 32)]"

definition SCANCODES_FR :: "(rchar \<times> rchar \<times> rchar) list" where
  "SCANCODES_FR = [
    (0, 0, 0), (27, 27, 0), (49, 38, 49), (50, 233, 50), (51, 34, 51), (52, 39, 52), (53, 40, 53),
    (54, 45, 54), (55, 232, 55), (56, 95, 56), (57, 231, 57), (48, 224, 48), (45, 41, 45),
    (61, 61, 61), (0, 0, 0), (9, 9, 9), (97, 65, 97), (122, 90, 122), (101, 69, 101),
    (114, 82, 114), (116, 84, 116), (121, 89, 121), (117, 85, 117), (105, 73, 105), (111, 79, 111),
    (112, 80, 112), (94, 168, 94), (36, 163, 36), (10, 10, 10), (0, 0, 0), (113, 81, 113),
    (115, 83, 115), (100, 68, 100), (102, 70, 102), (103, 71, 103), (104, 72, 104), (106, 74, 106),
    (107, 75, 107), (108, 76, 108), (109, 77, 109), (249, 37, 249), (42, 181, 42), (0, 0, 0),
    (60, 62, 124), (119, 87, 119), (120, 88, 120), (99, 67, 99), (118, 86, 118), (98, 66, 98),
    (110, 78, 110), (44, 63, 44), (59, 46, 59), (58, 47, 58), (33, 167, 33), (0, 0, 0), (0, 0, 0),
    (0, 0, 0), (32, 32, 32)]"

definition SCANCODES_DE :: "(rchar \<times> rchar \<times> rchar) list" where
  "SCANCODES_DE = [
    (0, 0, 0), (27, 27, 27), (49, 33, 49), (50, 34, 178), (51, 167, 179), (52, 36, 52),
    (53, 37, 37), (54, 38, 54), (55, 47, 123), (56, 40, 91), (57, 41, 93), (48, 61, 125),
    (223, 63, 92), (39, 96, 39), (0, 0, 0), (9, 9, 9), (113, 81, 64), (119, 87, 119),
    (101, 69, 8364), (114, 82, 114), (116, 84, 116), (122, 90, 122), (117, 85, 117),
    (105, 73, 105), (111, 79, 111), (112, 80, 112), (252, 220, 252), (43, 42, 126), (10, 10, 10),
    (0, 0, 0), (97, 65, 97), (115, 83, 115), (100, 68, 100), (102, 70, 102), (103, 71, 103),
    (104, 72, 104), (106, 74, 106), (107, 75, 107), (108, 76, 108), (246, 214, 246),
    (228, 196, 228), (94, 176, 94), (0, 0, 0), (35, 39, 35), (121, 89, 121), (120, 88, 120),
    (99, 67, 99), (118, 86, 118), (98, 66, 98), (110, 78, 110), (109, 77, 181), (44, 59, 44),
    (46, 58, 46), (45, 95, 45), (0, 0, 0), (0, 0, 0), (0, 0, 0), (32, 32, 32)]"

definition SCANCODES_EXTRA_EN :: "(u8 \<times> rchar \<times> rchar \<times> rchar) list" where
  "SCANCODES_EXTRA_EN = []"

definition SCANCODES_EXTRA_FR :: "(u8 \<times> rchar \<times> rchar \<times> rchar) list" where
  "SCANCODES_EXTRA_FR = []"

definition SCANCODES_EXTRA_DE :: "(u8 \<times> rchar \<times> rchar \<times> rchar) list" where
  "SCANCODES_EXTRA_DE = [(0x56, 60, 62, 124)]"

fun scancodes :: "Layout \<Rightarrow> (rchar \<times> rchar \<times> rchar) list" where
  "scancodes English = SCANCODES_EN"
| "scancodes French = SCANCODES_FR"
| "scancodes German = SCANCODES_DE"

text \<open>Indexing past the end of a table is a panic, the result \<^term>\<open>None\<close>.\<close>

definition get_scancode_from_layout :: "Layout \<Rightarrow> u8 \<Rightarrow> (rchar \<times> rchar \<times> rchar) option" where
  "get_scancode_from_layout layout scancode =
     (let i = unat scancode in
      if i < length (scancodes layout) then Some (scancodes layout ! i) else None)"

fun extra_scancodes :: "Layout \<Rightarrow> (u8 \<times> rchar \<times> rchar \<times> rchar) list" where
  "extra_scancodes English = SCANCODES_EXTRA_EN"
| "extra_scancodes French = SCANCODES_EXTRA_FR"
| "extra_scancodes German = SCANCODES_EXTRA_DE"

definition get_special_keys_from_layout :: "Layout \<Rightarrow> u8 \<Rightarrow> rchar \<times> rchar \<times> rchar" where
  "get_special_keys_from_layout layout scancode =
     (case filter (\<lambda>(code, _). code = scancode) (extra_scancodes layout) of
        (_, keys) # _ \<Rightarrow> keys
      | [] \<Rightarrow> (0, 0, 0))"

definition char_for_scancode :: "u8 \<Rightarrow> bool \<Rightarrow> bool \<Rightarrow> Layout \<Rightarrow> rchar option" where
  "char_for_scancode scancode shift altgr layout =
     map_option
       (\<lambda>(plain, shifted, alt). if altgr then alt else if shift then shifted else plain)
       (if scancode < 58 then get_scancode_from_layout layout scancode
        else Some (get_special_keys_from_layout layout scancode))"

section \<open>The driver's state\<close>

record Ps2 =
  ps2_lshift :: bool
  ps2_rshift :: bool
  ps2_caps_lock :: bool
  ps2_caps_lock_toggle :: bool
  ps2_altgr :: bool
  ps2_mouse_packet :: "u8 \<times> u8 \<times> u8"
  ps2_mouse_i :: usize
  ps2_mouse_x :: i32
  ps2_mouse_y :: i32
  ps2_layout :: Layout

definition ps2_new :: Ps2 where
  "ps2_new =
     \<lparr>ps2_lshift = False, ps2_rshift = False, ps2_caps_lock = False, ps2_caps_lock_toggle = False,
      ps2_altgr = False, ps2_mouse_packet = (0, 0, 0), ps2_mouse_i = 0, ps2_mouse_x = 0,
      ps2_mouse_y = 0, ps2_layout = English\<rparr>"

text \<open>
  The effect of a scan code on the modifier keys, and the scan code reported; \<^term>\<open>byte2\<close>
  is the byte the data port delivers after the prefix \<^verbatim>\<open>0xE0\<close>.
\<close>

definition keyboard_modifiers :: "Ps2 \<Rightarrow> u8 \<Rightarrow> u8 \<Rightarrow> Ps2 \<times> u8" where
  "keyboard_modifiers st scancode byte2 =
     (if scancode = 0x2A then (st\<lparr>ps2_lshift := True\<rparr>, scancode)
      else if scancode = 0xAA then (st\<lparr>ps2_lshift := False\<rparr>, scancode)
      else if scancode = 0x36 then (st\<lparr>ps2_rshift := True\<rparr>, scancode)
      else if scancode = 0xB6 then (st\<lparr>ps2_rshift := False\<rparr>, scancode)
      else if scancode = 0x3A then
        (if \<not> ps2_caps_lock st then st\<lparr>ps2_caps_lock := True, ps2_caps_lock_toggle := True\<rparr>
         else st\<lparr>ps2_caps_lock_toggle := False\<rparr>, scancode)
      else if scancode = 0xBA then
        (if ps2_caps_lock st \<and> \<not> ps2_caps_lock_toggle st then st\<lparr>ps2_caps_lock := False\<rparr> else st, scancode)
      else if scancode = 0xE0 then
        (if byte2 = 0x38 then (st\<lparr>ps2_altgr := True\<rparr>, scancode)
         else if byte2 = 0xB8 then (st\<lparr>ps2_altgr := False\<rparr>, scancode)
         else (st, byte2))
      else (st, scancode))"

text \<open>The outer \<^term>\<open>None\<close> would be a panic, the inner one is no event.\<close>

definition keyboard_interrupt :: "Ps2 \<Rightarrow> u8 \<Rightarrow> u8 \<Rightarrow> (KeyEvent option \<times> Ps2) option" where
  "keyboard_interrupt st scancode byte2 =
     (if scancode = 0 then Some (None, st)
      else
        let (st, scancode) = keyboard_modifiers st scancode byte2;
            shift = (ps2_caps_lock st \<noteq> (ps2_lshift st \<or> ps2_rshift st))
        in case char_for_scancode (scancode AND 0x7F) shift (ps2_altgr st) (ps2_layout st) of
             None \<Rightarrow> None
           | Some c \<Rightarrow>
               Some (Some \<lparr>key_character = c, key_scancode = scancode AND 0x7F,
                           key_pressed = (scancode < 0x80)\<rparr>, st))"

text \<open>Signed comparison of \<^verbatim>\<open>core::cmp\<close>.\<close>

definition i32_min :: "i32 \<Rightarrow> i32 \<Rightarrow> i32" where
  "i32_min a b = (if sint a \<le> sint b then a else b)"

definition i32_max :: "i32 \<Rightarrow> i32 \<Rightarrow> i32" where
  "i32_max a b = (if sint a \<le> sint b then b else a)"

text \<open>
  The mouse handler. The resolution of the screen (\<^verbatim>\<open>VBEMODEINFO\<close>) is an argument, absent
  in text mode. The movement is computed in \<^verbatim>\<open>isize\<close>, which is \<^verbatim>\<open>i32\<close> on i386.
\<close>

definition mouse_dx :: "u8 \<Rightarrow> u8 \<Rightarrow> i32" where
  "mouse_dx p0 p1 =
     (if p0 AND 0x40 \<noteq> 0x40 \<and> p1 \<noteq> 0 then ucast p1 - (push_bit 4 (ucast p0) AND 0x100) else 0)"

definition mouse_dy :: "u8 \<Rightarrow> u8 \<Rightarrow> i32" where
  "mouse_dy p0 p2 =
     (if p0 AND 0x80 \<noteq> 0x80 \<and> p2 \<noteq> 0 then (push_bit 3 (ucast p0) AND 0x100) - ucast p2 else 0)"

definition mouse_interrupt :: "(u16 \<times> u16) option \<Rightarrow> Ps2 \<Rightarrow> u8 \<Rightarrow> MouseEvent option \<times> Ps2" where
  "mouse_interrupt resolution st b =
     (case ps2_mouse_packet st of (p0, p1, p2) \<Rightarrow>
      if ps2_mouse_i st = 0 then
        (None, if b AND 0x8 = 0x8
               then st\<lparr>ps2_mouse_packet := (b, p1, p2), ps2_mouse_i := ps2_mouse_i st + 1\<rparr> else st)
      else if ps2_mouse_i st = 1 then
        (None, st\<lparr>ps2_mouse_packet := (p0, b, p2), ps2_mouse_i := ps2_mouse_i st + 1\<rparr>)
      else
        let st = st\<lparr>ps2_mouse_packet := (p0, p1, b)\<rparr>;
            x = mouse_dx p0 p1;
            y = mouse_dy p0 b;
            st = (case resolution of
                    Some (xres, yres) \<Rightarrow>
                      st\<lparr>ps2_mouse_x := i32_max 0 (i32_min (ucast xres) (ps2_mouse_x st + x)),
                         ps2_mouse_y := i32_max 0 (i32_min (ucast yres) (ps2_mouse_y st + y))\<rparr>
                  | None \<Rightarrow> st);
            st = st\<lparr>ps2_mouse_i := 0\<rparr>
        in (Some \<lparr>mouse_x = ps2_mouse_x st, mouse_y = ps2_mouse_y st,
                  left_button = (p0 AND 1 = 1), middle_button = (p0 AND 4 = 4),
                  right_button = (p0 AND 2 = 2)\<rparr>, st))"

definition change_layout :: "Ps2 \<Rightarrow> usize \<Rightarrow> Ps2" where
  "change_layout st layout =
     st\<lparr>ps2_layout :=
       (if layout = 0 then English else if layout = 1 then French
        else if layout = 2 then German else English)\<rparr>"

section \<open>Keyboard\<close>

lemma length_scancodes [simp]: "length (scancodes layout) = 58"
  by (cases layout) (simp_all add: SCANCODES_EN_def SCANCODES_FR_def SCANCODES_DE_def)

lemma scancodes_chars: "list_all (\<lambda>(a, b, c). is_char a \<and> is_char b \<and> is_char c) (scancodes layout)"
  by (cases layout) (simp_all add: SCANCODES_EN_def SCANCODES_FR_def SCANCODES_DE_def is_char_def)

lemma special_chars:
  "case get_special_keys_from_layout layout sc of (a, b, c) \<Rightarrow> is_char a \<and> is_char b \<and> is_char c"
  by (cases layout)
     (simp_all add: get_special_keys_from_layout_def SCANCODES_EXTRA_EN_def SCANCODES_EXTRA_FR_def
       SCANCODES_EXTRA_DE_def is_char_def)

lemma char_for_scancode_total:
  "\<exists>c. char_for_scancode sc shift altgr layout = Some c \<and> is_char c"
proof (cases "sc < 58")
  case True
  then have "unat sc < 58" by (simp add: word_less_nat_alt)
  then have "case scancodes layout ! unat sc of (a, b, c) \<Rightarrow> is_char a \<and> is_char b \<and> is_char c"
    using scancodes_chars[of layout] by (simp add: list_all_length)
  then show ?thesis
    using True \<open>unat sc < 58\<close>
    by (auto simp: char_for_scancode_def get_scancode_from_layout_def Let_def split: prod.splits)
next
  case False
  then show ?thesis
    using special_chars[of layout sc] by (auto simp: char_for_scancode_def split: prod.splits)
qed

text \<open>A whole sequence of scan codes, each with the byte that follows it.\<close>

fun type_keys :: "Ps2 \<Rightarrow> (u8 \<times> u8) list \<Rightarrow> (KeyEvent list \<times> Ps2) option" where
  "type_keys st [] = Some ([], st)"
| "type_keys st ((sc, b2) # ks) =
     (case keyboard_interrupt st sc b2 of
        None \<Rightarrow> None
      | Some (e, st) \<Rightarrow>
          (case type_keys st ks of
             None \<Rightarrow> None
           | Some (es, st) \<Rightarrow> Some ((case e of None \<Rightarrow> es | Some k \<Rightarrow> k # es), st)))"

lemma keyboard_interrupt_total:
  "\<exists>e st'. keyboard_interrupt st sc b2 = Some (e, st') \<and> (e = None \<longleftrightarrow> sc = 0)
     \<and> (case e of None \<Rightarrow> True | Some k \<Rightarrow> is_char (key_character k) \<and> key_scancode k < 0x80)"
proof (cases "sc = 0")
  case False
  obtain st1 sc1 where m: "keyboard_modifiers st sc b2 = (st1, sc1)" by fastforce
  obtain c where "char_for_scancode (sc1 AND 0x7F) (ps2_caps_lock st1 \<noteq> (ps2_lshift st1 \<or> ps2_rshift st1))
      (ps2_altgr st1) (ps2_layout st1) = Some c" and "is_char c"
    using char_for_scancode_total by blast
  moreover have "sc1 AND 0x7F < 0x80"
    using word_and_le1[of sc1 "0x7F"] by (rule order.strict_trans1) simp
  ultimately show ?thesis
    using m False by (simp add: keyboard_interrupt_def Let_def)
qed (simp add: keyboard_interrupt_def)

text \<open>
  The keyboard handler never panics: for every sequence of scan codes, in every state and
  layout, it delivers exactly one event for each scan code other than 0, with a character that is
  a Unicode scalar value and a scan code below 128.
\<close>

theorem keyboard_total:
  "\<exists>es st'. type_keys st ks = Some (es, st')
     \<and> length es = length (filter (\<lambda>(sc, _). sc \<noteq> 0) ks)
     \<and> list_all (\<lambda>k. is_char (key_character k) \<and> key_scancode k < 0x80) es"
proof (induction ks arbitrary: st)
  case (Cons k ks)
  obtain sc b2 where k: "k = (sc, b2)" by fastforce
  obtain e st1 where e: "keyboard_interrupt st sc b2 = Some (e, st1)" "e = None \<longleftrightarrow> sc = 0"
    "case e of None \<Rightarrow> True | Some k \<Rightarrow> is_char (key_character k) \<and> key_scancode k < 0x80"
    using keyboard_interrupt_total by blast
  obtain es st2 where "type_keys st1 ks = Some (es, st2)"
    "length es = length (filter (\<lambda>(sc, _). sc \<noteq> 0) ks)"
    "list_all (\<lambda>k. is_char (key_character k) \<and> key_scancode k < 0x80) es"
    using Cons.IH by blast
  with e show ?case by (cases e) (simp_all add: k)
qed simp

lemma keyboard_interrupt_state:
  "sc \<noteq> 0 \<Longrightarrow> map_option snd (keyboard_interrupt st sc b2) = Some (fst (keyboard_modifiers st sc b2))"
  using keyboard_interrupt_total[of st sc b2]
  by (auto simp: keyboard_interrupt_def Let_def split: prod.splits option.splits)

definition tap_caps :: "nat \<Rightarrow> (u8 \<times> u8) list" where
  "tap_caps n = replicate (Suc n) (0x3A, 0) @ [(0xBA, 0)]"

lemma type_keys_state:
  assumes "\<forall>(sc, _) \<in> set ks. sc \<noteq> 0"
  shows "map_option snd (type_keys st ks) = Some (foldl (\<lambda>st (sc, b2). fst (keyboard_modifiers st sc b2)) st ks)"
  using assms
proof (induction ks arbitrary: st)
  case (Cons k ks)
  obtain sc b2 where k: "k = (sc, b2)" by fastforce
  obtain e where "keyboard_interrupt st sc b2 = Some (e, fst (keyboard_modifiers st sc b2))"
    using Cons.prems keyboard_interrupt_state[of sc st b2] by (auto simp: k)
  then show ?case
    using Cons.IH[of "fst (keyboard_modifiers st sc b2)"] Cons.prems
    by (auto simp: k split: option.splits)
qed simp

lemma caps_presses:
  "foldl (\<lambda>st (sc, b2). fst (keyboard_modifiers st sc b2)) st (replicate (Suc n) (0x3A, 0)) =
     st\<lparr>ps2_caps_lock := True, ps2_caps_lock_toggle := (\<not> ps2_caps_lock st \<and> n = 0)\<rparr>"
proof (induction n)
  case 0
  then show ?case by (cases "ps2_caps_lock st") (simp_all add: keyboard_modifiers_def)
next
  case (Suc n)
  have "replicate (Suc (Suc n)) (0x3A :: u8, 0 :: u8) = replicate (Suc n) (0x3A, 0) @ [(0x3A, 0)]"
    by (simp add: replicate_append_same)
  then show ?case
    by (simp only: foldl_append Suc.IH) (simp add: keyboard_modifiers_def)
qed

text \<open>
  Pressing and releasing caps lock toggles it and nothing else, as long as the press code
  arrives once; if the key is held so that the press code repeats, caps lock is off after the
  release whatever it was before. The other modifiers and the mouse keep their state.
\<close>

theorem caps_lock_tap:
  "map_option snd (type_keys st (tap_caps n)) =
     Some (st\<lparr>ps2_caps_lock := (\<not> ps2_caps_lock st \<and> n = 0),
             ps2_caps_lock_toggle := (\<not> ps2_caps_lock st \<and> n = 0)\<rparr>)"
proof -
  have "\<forall>(sc, _) \<in> set (tap_caps n). sc \<noteq> 0" by (auto simp: tap_caps_def)
  then have "map_option snd (type_keys st (tap_caps n)) =
      Some (fst (keyboard_modifiers (st\<lparr>ps2_caps_lock := True,
        ps2_caps_lock_toggle := (\<not> ps2_caps_lock st \<and> n = 0)\<rparr>) 0xBA 0))"
    by (simp only: type_keys_state) (simp only: tap_caps_def foldl_append caps_presses, simp)
  then show ?thesis by (auto simp: keyboard_modifiers_def)
qed

section \<open>Mouse\<close>

lemma sign_bit_x: "push_bit 4 (ucast (p :: u8)) AND 0x100 = (if bit p 4 then 0x100 else 0 :: i32)"
  using word_and_exp[of "push_bit 4 (ucast p) :: i32" 8] by (simp add: bit_simps)

lemma sign_bit_y: "push_bit 3 (ucast (p :: u8)) AND 0x100 = (if bit p 5 then 0x100 else 0 :: i32)"
  using word_and_exp[of "push_bit 3 (ucast p) :: i32" 8] by (simp add: bit_simps)

text \<open>
  Ranges of unsigned numbers; the lower bound is written as a negative number so that the
  simplifier keeps it for arithmetic.
\<close>

lemma uint_u8: "- 1 \<le> uint (b :: u8)" "uint (b :: u8) < 256"
  using unsigned_less[of b, where 'a = int] unsigned_greater_eq[of b, where 'a = int] by (linarith, simp)

lemma uint_u16: "- 1 \<le> uint (b :: u16)" "uint (b :: u16) < 65536"
  using unsigned_less[of b, where 'a = int] unsigned_greater_eq[of b, where 'a = int] by (linarith, simp)

lemma sint_ucast_u8: "sint (ucast (b :: u8) :: i32) = uint b"
  using uint_u8[of b] by (simp add: sint_uint unsigned_ucast_eq take_bit_int_eq_self signed_take_bit_int_eq_self)

lemma sint_ucast_u16: "sint (ucast (b :: u16) :: i32) = uint b"
  using uint_u16[of b] by (simp add: sint_uint unsigned_ucast_eq take_bit_int_eq_self signed_take_bit_int_eq_self)

text \<open>The movement in a packet: nine bits in two's complement, the sign in the first byte.\<close>

definition move9 :: "bool \<Rightarrow> u8 \<Rightarrow> int" where
  "move9 neg b = uint b - (if neg then 256 else 0)"

lemma mouse_dx_move: "sint (mouse_dx p0 p1) = (if bit p0 6 \<or> p1 = 0 then 0 else move9 (bit p0 4) p1)"
proof -
  have "sint (ucast p1 - (if bit p0 4 then 0x100 else 0) :: i32) = move9 (bit p0 4) p1"
    using uint_u8[of p1] by (subst sint_sub_fits) (auto simp: sint_ucast_u8 sfits_def move9_def)
  moreover have "p0 AND 0x40 = 0x40 \<longleftrightarrow> bit p0 6"
    using word_and_exp[of p0 6] by (simp split: if_splits)
  ultimately show ?thesis by (simp add: mouse_dx_def sign_bit_x del: if_distrib)
qed

lemma mouse_dy_move: "sint (mouse_dy p0 p2) = (if bit p0 7 \<or> p2 = 0 then 0 else - move9 (bit p0 5) p2)"
proof -
  have "sint ((if bit p0 5 then 0x100 else 0) - ucast p2 :: i32) = - move9 (bit p0 5) p2"
    using uint_u8[of p2] by (subst sint_sub_fits) (auto simp: sint_ucast_u8 sfits_def move9_def)
  moreover have "p0 AND 0x80 = 0x80 \<longleftrightarrow> bit p0 7"
    using word_and_exp[of p0 7] by (simp split: if_splits)
  ultimately show ?thesis by (simp add: mouse_dy_def sign_bit_y)
qed

lemma move9_range: "- 256 \<le> move9 neg b" "move9 neg b \<le> 256"
  using uint_u8[of b] by (auto simp: move9_def)

lemma mouse_dx_range: "- 256 \<le> sint (mouse_dx p0 p1)" "sint (mouse_dx p0 p1) \<le> 256"
  using move9_range unfolding mouse_dx_move by auto

lemma mouse_dy_range: "- 256 \<le> sint (mouse_dy p0 p1)" "sint (mouse_dy p0 p1) \<le> 256"
  using move9_range[of "bit p0 5" p1] unfolding mouse_dy_move by auto

lemma clamp_sint:
  assumes "0 \<le> sint p" "sint p \<le> 0x10000" "- 256 \<le> sint d" "sint d \<le> 256"
  shows "sint (i32_max 0 (i32_min (ucast (r :: u16)) (p + d))) = max 0 (min (uint r) (sint p + sint d))"
proof -
  have "sint (p + d) = sint p + sint d"
    using assms by (subst sint_add_fits) (simp_all add: sfits_def)
  then show ?thesis by (auto simp: i32_max_def i32_min_def sint_ucast_u16)
qed

text \<open>On a screen of the given resolution, the packet position and the pointer are in range.\<close>

definition mouse_ok :: "u16 \<times> u16 \<Rightarrow> Ps2 \<Rightarrow> bool" where
  "mouse_ok res st \<longleftrightarrow> unat (ps2_mouse_i st) \<le> 2
     \<and> 0 \<le> sint (ps2_mouse_x st) \<and> sint (ps2_mouse_x st) \<le> uint (fst res)
     \<and> 0 \<le> sint (ps2_mouse_y st) \<and> sint (ps2_mouse_y st) \<le> uint (snd res)"

lemma mouse_ok_small:
  assumes "mouse_ok res st"
  shows "0 \<le> sint (ps2_mouse_x st) \<and> sint (ps2_mouse_x st) \<le> 0x10000
    \<and> 0 \<le> sint (ps2_mouse_y st) \<and> sint (ps2_mouse_y st) \<le> 0x10000"
  using assms uint_u16[of "fst res"] uint_u16[of "snd res"] by (auto simp: mouse_ok_def)

lemma mouse_interrupt_ok:
  assumes "mouse_ok res st"
  shows "mouse_ok res (snd (mouse_interrupt (Some res) st b))"
proof (cases "ps2_mouse_i st = 0 \<or> ps2_mouse_i st = 1")
  case True
  then show ?thesis using assms
    by (auto simp: mouse_interrupt_def mouse_ok_def split: prod.splits)
next
  case False
  then show ?thesis
    using mouse_ok_small[OF assms]
    by (cases res)
       (auto simp: mouse_interrupt_def mouse_ok_def Let_def clamp_sint mouse_dx_range mouse_dy_range split: prod.splits)
qed

text \<open>
  Whatever bytes the mouse sends, the pointer stays on the screen: from a state with the
  pointer inside the resolution, after any sequence of mouse interrupts the pointer is inside it,
  no coordinate having overflowed, and the packet index never exceeds 2.
\<close>

theorem mouse_on_screen:
  assumes "mouse_ok res st"
  shows "mouse_ok res (foldl (\<lambda>st b. snd (mouse_interrupt (Some res) st b)) st bytes)"
  using assms by (induction bytes arbitrary: st) (simp_all add: mouse_interrupt_ok)

theorem mouse_on_screen_witness:
  "mouse_ok (800, 600) (foldl (\<lambda>st b. snd (mouse_interrupt (Some (800, 600)) st b)) ps2_new [0x08, 0xFF, 0x01])"
  by (rule mouse_on_screen) (simp add: mouse_ok_def ps2_new_def)

text \<open>
  A mouse packet is three bytes, the first with bit 3 set: between packets the handler waits
  for such a byte and ignores others, and the third byte produces the one event of the
  packet, with the buttons of the first byte and the pointer moved by the nine-bit movements
  (none where the byte is zero or its overflow bit is set; up is positive on the wire),
  clamped to the screen.
\<close>

theorem mouse_packet_decoded:
  assumes "mouse_ok (xres, yres) st" and "ps2_mouse_i st = 0" and "bit b0 3"
    and "mouse_interrupt (Some (xres, yres)) st b0 = (e0, st0)"
    and "mouse_interrupt (Some (xres, yres)) st0 b1 = (e1, st1)"
    and "mouse_interrupt (Some (xres, yres)) st1 b2 = (e2, st2)"
  shows "e0 = None \<and> e1 = None \<and> ps2_mouse_i st2 = 0 \<and>
    (\<exists>e. e2 = Some e \<and> left_button e = bit b0 0 \<and> right_button e = bit b0 1 \<and> middle_button e = bit b0 2
      \<and> sint (mouse_x e) = max 0 (min (uint xres)
           (sint (ps2_mouse_x st) + (if bit b0 6 \<or> b1 = 0 then 0 else move9 (bit b0 4) b1)))
      \<and> sint (mouse_y e) = max 0 (min (uint yres)
           (sint (ps2_mouse_y st) - (if bit b0 7 \<or> b2 = 0 then 0 else move9 (bit b0 5) b2))))
    \<and> (\<not> bit b 3 \<longrightarrow> mouse_interrupt (Some (xres, yres)) st b = (None, st))"
proof -
  have bits: "b0 AND 1 = 1 \<longleftrightarrow> bit b0 0" "b0 AND 2 = 2 \<longleftrightarrow> bit b0 1" "b0 AND 4 = 4 \<longleftrightarrow> bit b0 2"
    "b AND 8 = 8 \<longleftrightarrow> bit b 3" "b0 AND 8 = 8 \<longleftrightarrow> bit b0 3"
    using word_and_exp[of b0 0] word_and_exp[of b0 1] word_and_exp[of b0 2] word_and_exp[of b0 3] word_and_exp[of b 3]
    by (simp_all split: if_splits)
  obtain p0 p1 p2 where p: "ps2_mouse_packet st = (p0, p1, p2)" by (rule prod_cases3)
  have st0: "e0 = None" "st0 = st\<lparr>ps2_mouse_packet := (b0, p1, p2), ps2_mouse_i := 1\<rparr>"
    using assms(2,3,4) by (simp_all add: mouse_interrupt_def p bits)
  then have st1: "e1 = None" "st1 = st\<lparr>ps2_mouse_packet := (b0, b1, p2), ps2_mouse_i := 2\<rparr>"
    using assms(5) by (simp_all add: mouse_interrupt_def)
  note small = mouse_ok_small[OF assms(1)]
  have e2: "e2 = Some \<lparr>mouse_x = i32_max 0 (i32_min (ucast xres) (ps2_mouse_x st + mouse_dx b0 b1)),
      mouse_y = i32_max 0 (i32_min (ucast yres) (ps2_mouse_y st + mouse_dy b0 b2)),
      left_button = bit b0 0, middle_button = bit b0 2, right_button = bit b0 1\<rparr>"
    and i: "ps2_mouse_i st2 = 0"
    using assms(6) by (auto simp: mouse_interrupt_def st1 Let_def bits)
  have x: "sint (i32_max 0 (i32_min (ucast xres) (ps2_mouse_x st + mouse_dx b0 b1))) =
      max 0 (min (uint xres) (sint (ps2_mouse_x st) + (if bit b0 6 \<or> b1 = 0 then 0 else move9 (bit b0 4) b1)))"
    using small mouse_dx_range[of b0 b1] clamp_sint[of "ps2_mouse_x st" "mouse_dx b0 b1" xres]
    by (simp only: mouse_dx_move)
  have y: "sint (i32_max 0 (i32_min (ucast yres) (ps2_mouse_y st + mouse_dy b0 b2))) =
      max 0 (min (uint yres) (sint (ps2_mouse_y st) - (if bit b0 7 \<or> b2 = 0 then 0 else move9 (bit b0 5) b2)))"
    using small mouse_dy_range[of b0 b2] clamp_sint[of "ps2_mouse_y st" "mouse_dy b0 b2" yres]
    by (simp add: mouse_dy_move)
  have skip: "\<not> bit b 3 \<longrightarrow> mouse_interrupt (Some (xres, yres)) st b = (None, st)"
    using assms(2) by (simp add: mouse_interrupt_def p bits)
  show ?thesis
    by (intro conjI st0(1) st1(1) i skip) (rule exI, intro conjI, rule e2, simp_all only: x y MouseEvent.simps)
qed

definition demo_screen :: "u8 \<Rightarrow> Ps2 \<Rightarrow> MouseEvent option \<times> Ps2" where
  "demo_screen b st = mouse_interrupt (Some (800, 600)) st b"

theorem mouse_packet_decoded_witness:
  "\<exists>e. fst (demo_screen 3 (snd (demo_screen 5 (snd (demo_screen 0x29 ps2_new))))) = Some e
     \<and> left_button e \<and> sint (mouse_x e) = 5 \<and> sint (mouse_y e) = 253"
proof -
  have "mouse_ok (800, 600) ps2_new" "ps2_mouse_i ps2_new = 0" "bit (0x29 :: u8) 3"
    by (simp_all add: mouse_ok_def ps2_new_def)
  note concl = mouse_packet_decoded[OF this surjective_pairing surjective_pairing surjective_pairing, of 5 3 0]
  obtain e where e: "fst (demo_screen 3 (snd (demo_screen 5 (snd (demo_screen 0x29 ps2_new))))) = Some e"
    and "left_button e = bit (0x29 :: u8) 0"
    and "sint (mouse_x e) = max 0 (min (uint (800 :: u16)) (sint (ps2_mouse_x ps2_new) +
           (if bit (0x29 :: u8) 6 \<or> (5 :: u8) = 0 then 0 else move9 (bit (0x29 :: u8) 4) 5)))"
    and "sint (mouse_y e) = max 0 (min (uint (600 :: u16)) (sint (ps2_mouse_y ps2_new) -
           (if bit (0x29 :: u8) 7 \<or> (3 :: u8) = 0 then 0 else move9 (bit (0x29 :: u8) 5) 3)))"
    using concl[folded demo_screen_def] by (elim conjE exE) (rule that)
  then show ?thesis
    by (intro exI[of _ e] conjI e) (simp_all add: move9_def ps2_new_def)
qed

end
