(* ===== verification/Externs.thy ===== *)
theory Externs
  imports Prelude
begin

text \<open>
  The run-time support routines of \<^verbatim>\<open>crates/system/externs.rs\<close>: the byte loops the
  compiler and the kernel call (\<^verbatim>\<open>memcpy\<close>, \<^verbatim>\<open>memmove\<close>,
  \<^verbatim>\<open>memset\<close>, \<^verbatim>\<open>memcmp\<close>) over byte-addressed memory, and the software
  64-bit division of the 32-bit build. Each loop is shown equal to a closed form.
\<close>

section \<open>Definitions\<close>

subsection \<open>Memory loops\<close>

function memcpy_loop :: "mem \<Rightarrow> usize \<Rightarrow> usize \<Rightarrow> usize \<Rightarrow> usize \<Rightarrow> mem" where
  "memcpy_loop m dest src n i =
     (if i < n then memcpy_loop (m(dest + i := m (src + i))) dest src n (i + 1) else m)"
  by pat_completeness auto
termination
  by (relation "measure (\<lambda>(m, dest, src, n, i). unat n - unat i)") (auto simp: while_up_measure)

declare memcpy_loop.simps [simp del]

definition memcpy :: "mem \<Rightarrow> usize \<Rightarrow> usize \<Rightarrow> usize \<Rightarrow> mem" where
  "memcpy m dest src n = memcpy_loop m dest src n 0"

function memmove_down :: "mem \<Rightarrow> usize \<Rightarrow> usize \<Rightarrow> usize \<Rightarrow> mem" where
  "memmove_down m dest src i =
     (if i \<noteq> 0 then
        let i' = i - 1 in memmove_down (m(dest + i' := m (src + i'))) dest src i'
      else m)"
  by pat_completeness auto
termination
  by (relation "measure (\<lambda>(m, dest, src, i). unat i)") (auto simp: unat_pred unat_gt_0)

declare memmove_down.simps [simp del]

definition memmove :: "mem \<Rightarrow> usize \<Rightarrow> usize \<Rightarrow> usize \<Rightarrow> mem" where
  "memmove m dest src n =
     (if src < dest then memmove_down m dest src n else memcpy_loop m dest src n 0)"

function memset_loop :: "mem \<Rightarrow> usize \<Rightarrow> i32 \<Rightarrow> usize \<Rightarrow> usize \<Rightarrow> mem" where
  "memset_loop m s c n i =
     (if i < n then memset_loop (m(s + i := ucast c)) s c n (i + 1) else m)"
  by pat_completeness auto
termination
  by (relation "measure (\<lambda>(m, s, c, n, i). unat n - unat i)") (auto simp: while_up_measure)

declare memset_loop.simps [simp del]

definition memset :: "mem \<Rightarrow> usize \<Rightarrow> i32 \<Rightarrow> usize \<Rightarrow> mem" where
  "memset m s c n = memset_loop m s c n 0"

function memcmp_loop :: "mem \<Rightarrow> usize \<Rightarrow> usize \<Rightarrow> usize \<Rightarrow> usize \<Rightarrow> i32" where
  "memcmp_loop m s1 s2 n i =
     (if i < n then
        let a = m (s1 + i); b = m (s2 + i) in
        if a \<noteq> b then ucast a - ucast b else memcmp_loop m s1 s2 n (i + 1)
      else 0)"
  by pat_completeness auto
termination
  by (relation "measure (\<lambda>(m, s1, s2, n, i). unat n - unat i)") (auto simp: while_up_measure)

declare memcmp_loop.simps [simp del]

definition memcmp :: "mem \<Rightarrow> usize \<Rightarrow> usize \<Rightarrow> usize \<Rightarrow> i32" where
  "memcmp m s1 s2 n = memcmp_loop m s1 s2 n 0"

subsection \<open>64-bit division on a 32-bit machine\<close>

text \<open>
  \<^verbatim>\<open>while b > 0 && b < a { b *= 2; d *= 2; }\<close>. The doubling of \<^term>\<open>b\<close> may wrap
  around; the loop stops in any case, because a word doubled often enough is zero.
\<close>

definition doublings :: "u64 \<Rightarrow> nat" where
  "doublings b = (LEAST k. push_bit k b = 0)"

lemma doublings_less:
  fixes b :: u64
  assumes "b > 0"
  shows "doublings (b * 2) < doublings b"
proof -
  let ?P = "\<lambda>k. push_bit k b = 0"
  have "push_bit 64 b = 0"
    by (rule bit_word_eqI) (simp add: bit_simps)
  then have K: "?P (doublings b)"
    unfolding doublings_def by (rule LeastI)
  have pos: "doublings b \<noteq> 0"
    using K assms by (metis push_bit_0_id id_apply less_irrefl)
  then obtain k where k: "doublings b = Suc k"
    using not0_implies_Suc by blast
  have "push_bit k (b * 2) = push_bit (Suc k) b"
    by (simp add: mult.commute)
  then have "push_bit k (b * 2) = 0"
    using K k by simp
  then have "doublings (b * 2) \<le> k"
    unfolding doublings_def by (rule Least_le)
  then show ?thesis by (simp add: k)
qed

function div_double :: "u64 \<Rightarrow> u64 \<Rightarrow> u64 \<Rightarrow> u64 \<times> u64" where
  "div_double a b d = (if b > 0 \<and> b < a then div_double a (b * 2) (d * 2) else (b, d))"
  by pat_completeness auto
termination
  by (relation "measure (\<lambda>(a, b, d). doublings b)") (auto simp: doublings_less)

declare div_double.simps [simp del]

lemma halve_less: "(d :: u64) \<noteq> 0 \<Longrightarrow> unat (drop_bit 1 d) < unat d"
  by (simp add: drop_bit_Suc unat_div unat_gt_0 unat_eq_zero)

function divrem_loop :: "u64 \<Rightarrow> u64 \<Rightarrow> u64 \<Rightarrow> u64 \<Rightarrow> u64 \<times> u64" where
  "divrem_loop a b d res =
     (let a' = (if a \<ge> b then a - b else a);
          res' = (if a \<ge> b then res + d else res);
          b' = drop_bit 1 b; d' = drop_bit 1 d
      in if d' = 0 then (res', a') else divrem_loop a' b' d' res')"
  by pat_completeness auto
termination
proof (relation "measure (\<lambda>(a, b, d, res). unat d)", goal_cases)
  case (2 a b d res a' res' b' d')
  then have "d \<noteq> 0" by auto
  with 2 show ?case using halve_less[of d] by simp
qed simp

declare divrem_loop.simps [simp del]

function rem_loop :: "u64 \<Rightarrow> u64 \<Rightarrow> u64 \<Rightarrow> u64" where
  "rem_loop a b d =
     (let a' = (if a \<ge> b then a - b else a); b' = drop_bit 1 b; d' = drop_bit 1 d
      in if d' = 0 then a' else rem_loop a' b' d')"
  by pat_completeness auto
termination
proof (relation "measure (\<lambda>(a, b, d). unat d)", goal_cases)
  case (2 a b d a' b' d')
  then have "d \<noteq> 0" by auto
  with 2 show ?case using halve_less[of d] by simp
qed simp

declare rem_loop.simps [simp del]

function div_loop :: "u64 \<Rightarrow> u64 \<Rightarrow> u64 \<Rightarrow> u64 \<Rightarrow> u64" where
  "div_loop a b d res =
     (let a' = (if a \<ge> b then a - b else a);
          res' = (if a \<ge> b then res + d else res);
          b' = drop_bit 1 b; d' = drop_bit 1 d
      in if d' = 0 then res' else div_loop a' b' d' res')"
  by pat_completeness auto
termination
proof (relation "measure (\<lambda>(a, b, d, res). unat d)", goal_cases)
  case (2 a b d res a' res' b' d')
  then have "d \<noteq> 0" by auto
  with 2 show ?case using halve_less[of d] by simp
qed simp

declare div_loop.simps [simp del]

text \<open>
  \<^verbatim>\<open>None\<close> is the panic of \<^verbatim>\<open>hig /= b\<close> on a zero divisor, which every call
  with \<^term>\<open>b = 0\<close> reaches because \<^term>\<open>hig \<ge> 0\<close> holds.
\<close>

definition umoddi3 :: "u64 \<Rightarrow> u64 \<Rightarrow> u64 option" where
  "umoddi3 a b =
     (let hig = drop_bit 32 a in
      if hig \<ge> b \<and> b = 0 then None
      else
        let a1 = (if hig \<ge> b then a - push_bit 32 (hig div b * b) else a);
            (b2, d2) = div_double a1 b 1
        in Some (rem_loop a1 b2 d2))"

definition udivdi3 :: "u64 \<Rightarrow> u64 \<Rightarrow> u64 option" where
  "udivdi3 a b =
     (let hig = drop_bit 32 a in
      if hig \<ge> b \<and> b = 0 then None
      else
        let res = (if hig \<ge> b then push_bit 32 (hig div b) else 0);
            a1 = (if hig \<ge> b then a - push_bit 32 (hig div b * b) else a);
            (b2, d2) = div_double a1 b 1
        in Some (div_loop a1 b2 d2 res))"

definition udivremi3 :: "u64 \<Rightarrow> u64 \<Rightarrow> (u64 \<times> u64) option" where
  "udivremi3 a b =
     (let hig = drop_bit 32 a in
      if hig \<ge> b \<and> b = 0 then None
      else
        let res = (if hig \<ge> b then push_bit 32 (hig div b) else 0);
            a1 = (if hig \<ge> b then a - push_bit 32 (hig div b * b) else a);
            (b2, d2) = div_double a1 b 1
        in Some (divrem_loop a1 b2 d2 res))"


section \<open>Closed forms of the memory loops\<close>

text \<open>
  The byte at offset \<^term>\<open>a - dest\<close> of a block of \<^term>\<open>n\<close> bytes; the subtraction wraps like
  the addresses, so the test \<^term>\<open>a - dest < n\<close> says that \<^term>\<open>a\<close> lies in the block.
\<close>

definition copied :: "mem \<Rightarrow> usize \<Rightarrow> usize \<Rightarrow> usize \<Rightarrow> mem" where
  "copied m dest src n = (\<lambda>a. if a - dest < n then m (src + (a - dest)) else m a)"

definition filled :: "mem \<Rightarrow> usize \<Rightarrow> u8 \<Rightarrow> usize \<Rightarrow> mem" where
  "filled m s c n = (\<lambda>a. if a - s < n then c else m a)"

lemma filled_Suc: "i < n \<Longrightarrow> filled m s c (i + 1) = (filled m s c i)(s + i := c)"
  by (rule ext) (auto simp: filled_def less_Suc_word)

lemma memset_loop_filled:
  "i \<le> n \<Longrightarrow> memset_loop (filled m s (ucast c) i) s c n i = filled m s (ucast c) n"
proof (induction rule: word_up_induct)
  case stop
  show ?case by (simp add: memset_loop.simps)
next
  case (step i)
  then show ?case
    by (subst memset_loop.simps) (simp add: filled_Suc [OF step.hyps, symmetric])
qed

lemma memset_eq: "memset m s c n = filled m s (ucast c) n"
proof -
  have "filled m s (ucast c) 0 = m" by (simp add: filled_def)
  then show ?thesis
    using memset_loop_filled[of 0 n m s c] by (simp add: memset_def)
qed

text \<open>
  The upward loop copies the block as it was, provided the byte it reads next has not been
  overwritten yet.
\<close>

lemma copied_Suc:
  assumes "i < n" and "\<not> (src + i) - dest < i"
  shows "copied m dest src (i + 1) = (copied m dest src i)(dest + i := copied m dest src i (src + i))"
  using assms by (auto simp: copied_def less_Suc_word fun_eq_iff)

lemma memcpy_loop_copied:
  assumes "\<And>i. i < n \<Longrightarrow> \<not> (src + i) - dest < i" and "i \<le> n"
  shows "memcpy_loop (copied m dest src i) dest src n i = copied m dest src n"
  using assms(2)
proof (induction rule: word_up_induct)
  case stop
  show ?case by (simp add: memcpy_loop.simps)
next
  case (step i)
  then show ?case
    using copied_Suc[OF step.hyps assms(1)[OF step.hyps], of m, symmetric]
    by (subst memcpy_loop.simps) simp
qed

lemma memcpy_loop_eq:
  assumes "\<And>i. i < n \<Longrightarrow> \<not> (src + i) - dest < i"
  shows "memcpy_loop m dest src n 0 = copied m dest src n"
proof -
  have "copied m dest src 0 = m" by (simp add: copied_def)
  then show ?thesis
    using memcpy_loop_copied[of n src dest 0 m, OF assms] by simp
qed

lemma memcpy_eq:
  assumes "\<And>i j. i < n \<Longrightarrow> j < n \<Longrightarrow> src + i \<noteq> dest + j"
  shows "memcpy m dest src n = copied m dest src n"
  unfolding memcpy_def
proof (rule memcpy_loop_eq, rule notI)
  fix i
  assume i: "i < n" and lt: "(src + i) - dest < i"
  then have "(src + i) - dest < n" by (rule less_trans[rotated])
  from assms[OF i this] show False by simp
qed

text \<open>Whatever the overlap, \<^verbatim>\<open>memcpy\<close> writes only its destination.\<close>

lemma memcpy_loop_other:
  assumes "\<not> a - dest < n"
  shows "memcpy_loop m dest src n i a = m a"
  using assms
proof (induction m dest src n i rule: memcpy_loop.induct)
  case (1 m dest src n i)
  show ?case
  proof (cases "i < n")
    case True
    then have "a \<noteq> dest + i" using "1.prems" by auto
    moreover have "memcpy_loop (m(dest + i := m (src + i))) dest src n (i + 1) a = (m(dest + i := m (src + i))) a"
      by (rule "1.IH"[OF True "1.prems"])
    ultimately show ?thesis using True by (subst memcpy_loop.simps) simp
  next
    case False
    then show ?thesis by (subst memcpy_loop.simps) simp
  qed
qed

lemma memcpy_other: "\<not> a - dest < n \<Longrightarrow> memcpy m dest src n a = m a"
  by (simp add: memcpy_def memcpy_loop_other)

text \<open>The downward loop of \<^verbatim>\<open>memmove\<close>: bytes from offset \<^term>\<open>i\<close> on are already copied.\<close>

definition copied_from :: "mem \<Rightarrow> usize \<Rightarrow> usize \<Rightarrow> usize \<Rightarrow> usize \<Rightarrow> mem" where
  "copied_from m dest src n i =
     (\<lambda>a. if i \<le> a - dest \<and> a - dest < n then m (src + (a - dest)) else m a)"

lemma copied_from_pred:
  assumes "i \<noteq> 0" and "i \<le> n" and "\<not> (i \<le> (src + (i - 1)) - dest \<and> (src + (i - 1)) - dest < n)"
  shows "copied_from m dest src n (i - 1) =
    (copied_from m dest src n i)(dest + (i - 1) := copied_from m dest src n i (src + (i - 1)))"
proof (rule ext)
  fix a
  have lt: "i - 1 < n"
    using assms(1,2) by (rule pred_less_word)
  show "copied_from m dest src n (i - 1) a =
    ((copied_from m dest src n i)(dest + (i - 1) := copied_from m dest src n i (src + (i - 1)))) a"
  proof (cases "a - dest = i - 1")
    case True
    then have "a = dest + (i - 1)" by (metis add.commute diff_add_cancel)
    then show ?thesis using assms(3) lt by (auto simp: copied_from_def)
  next
    case False
    then have "a \<noteq> dest + (i - 1)" by auto
    then show ?thesis using False assms(1) by (simp add: copied_from_def le_pred_word)
  qed
qed

lemma memmove_down_copied:
  assumes "\<And>i. i \<noteq> 0 \<Longrightarrow> i \<le> n \<Longrightarrow> \<not> (i \<le> (src + (i - 1)) - dest \<and> (src + (i - 1)) - dest < n)"
    and "i \<le> n"
  shows "memmove_down (copied_from m dest src n i) dest src i = copied_from m dest src n 0"
  using assms(2)
proof (induction "unat i" arbitrary: i)
  case 0
  then have "i = 0" by (simp add: word_eq_unatI)
  then show ?case by (simp add: memmove_down.simps)
next
  case (Suc k)
  then have nz: "i \<noteq> 0" by auto
  have "k = unat (i - 1)" "i - 1 \<le> n"
    using Suc.hyps(2) Suc.prems nz by (auto simp: unat_pred word_le_nat_alt)
  from Suc.hyps(1)[OF this] show ?case
    using nz Suc.prems assms(1)[OF nz Suc.prems]
    by (subst memmove_down.simps) (simp add: Let_def copied_from_pred [symmetric])
qed

lemma memmove_down_eq:
  assumes "src < dest" and "unat dest + unat n \<le> 2 ^ 32" and "unat src + unat n \<le> 2 ^ 32"
  shows "memmove_down m dest src n = copied m dest src n"
proof -
  have overlap: "\<not> (i \<le> (src + (i - 1)) - dest \<and> (src + (i - 1)) - dest < n)"
    if "i \<noteq> 0" "i \<le> n" for i
  proof -
    have "unat (src + (i - 1)) = unat src + (unat i - 1)"
      using that assms(3) unat_gt_0[of i] by (subst unat_add_lt) (auto simp: unat_pred word_le_nat_alt)
    then show ?thesis
      using that assms(1,2) unat_gt_0[of i]
      by (auto simp: word_le_nat_alt word_less_nat_alt unat_diff_wrap)
  qed
  have "copied_from m dest src n n = m" "copied_from m dest src n 0 = copied m dest src n"
    by (auto simp: copied_from_def copied_def fun_eq_iff)
  then show ?thesis
    using memmove_down_copied[of n src dest n m, OF overlap] by simp
qed

lemma memmove_eq:
  assumes "unat dest + unat n \<le> 2 ^ 32" and "unat src + unat n \<le> 2 ^ 32"
  shows "memmove m dest src n = copied m dest src n"
proof (cases "src < dest")
  case True
  then show ?thesis using assms by (simp add: memmove_def memmove_down_eq)
next
  case False
  have "\<not> (src + i) - dest < i" if "i < n" for i
  proof -
    have "unat (src + i) = unat src + unat i"
      using that assms(2) by (subst unat_add_lt) (auto simp: word_less_nat_alt)
    then show ?thesis
      using False by (auto simp: word_less_nat_alt unat_diff_wrap word_le_nat_alt)
  qed
  then show ?thesis
    using False by (simp add: memmove_def memcpy_loop_eq)
qed

text \<open>\<^verbatim>\<open>memcmp\<close> returns zero exactly on equal blocks.\<close>

lemma memcmp_loop_zero_iff:
  "i \<le> n \<Longrightarrow> memcmp_loop m s1 s2 n i = 0 \<longleftrightarrow> (\<forall>j. i \<le> j \<longrightarrow> j < n \<longrightarrow> m (s1 + j) = m (s2 + j))"
proof (induction rule: word_up_induct)
  case stop
  show ?case by (auto simp: memcmp_loop.simps)
next
  case (step i)
  have split_i: "i \<le> j \<longleftrightarrow> j = i \<or> i + 1 \<le> j" for j
    using step.hyps by (auto simp: Suc_le_word)
  show ?case
    using step by (subst memcmp_loop.simps) (auto simp: Let_def split_i ucast_u8_u32_inject)
qed


section \<open>Correctness of the 64-bit division\<close>

lemma rem_loop_eq: "rem_loop a b d = snd (divrem_loop a b d res)"
proof (induction a b d arbitrary: res rule: rem_loop.induct)
  case (1 a b d)
  show ?case
    by (subst rem_loop.simps, subst divrem_loop.simps)
      (use 1 in \<open>simp add: Let_def\<close>)
qed

lemma div_loop_eq: "div_loop a b d res = fst (divrem_loop a b d res)"
proof (induction a b d res rule: div_loop.induct)
  case (1 a b d res)
  show ?case
    by (subst div_loop.simps, subst divrem_loop.simps)
      (use 1 in \<open>simp add: Let_def\<close>)
qed

text \<open>
  The doubling loop does not wrap when the dividend is at most \<^term>\<open>2 ^ 63 :: nat\<close>: it stops with
  the divisor scaled by a power of two that covers the dividend.
\<close>

lemma div_double_scales:
  assumes "unat a \<le> 2 ^ 63" and "b \<noteq> 0" and "unat b = unat b0 * unat d" and "unat d = 2 ^ k"
  shows "\<exists>k' b' d'. div_double a b d = (b', d') \<and> unat d' = 2 ^ k' \<and>
    unat b' = unat b0 * unat d' \<and> unat a < 2 * unat b'"
  using assms
proof (induction a b d arbitrary: k rule: div_double.induct)
  case (1 a b d)
  show ?case
  proof (cases "b > 0 \<and> b < a")
    case True
    then have lt: "unat b < 2 ^ 63"
      using "1.prems"(1) by (simp add: word_less_nat_alt)
    then have b2: "unat (b * 2) = 2 * unat b"
      by (subst unat_mult_lt) auto
    have "unat d \<le> unat b"
      using "1.prems"(2,3) by (metis le_square mult.commute mult_le_mono1 mult_is_0 nat_neq_iff not_less unat_eq_zero
          le_add1 mult_eq_if)
    then have d2: "unat (d * 2) = 2 * unat d"
      using lt by (subst unat_mult_lt) auto
    have "\<exists>k' b' d'. div_double a (b * 2) (d * 2) = (b', d') \<and> unat d' = 2 ^ k' \<and>
      unat b' = unat b0 * unat d' \<and> unat a < 2 * unat b'"
    proof (rule "1.IH"[OF True])
      show "b * 2 \<noteq> 0" using b2 "1.prems"(2) by (metis mult_eq_0_iff unat_0 unat_eq_zero zero_neq_numeral)
      show "unat (b * 2) = unat b0 * unat (d * 2)" using b2 d2 "1.prems"(3) by simp
      show "unat (d * 2) = 2 ^ Suc k" using d2 "1.prems"(4) by simp
    qed (use "1.prems" in simp)
    then show ?thesis using True by (subst div_double.simps) simp
  next
    case False
    then have "unat a \<le> unat b"
      using "1.prems"(2) by (auto simp: word_gt_0 not_less word_le_nat_alt)
    moreover have "0 < unat b" using "1.prems"(2) by (simp add: unat_gt_0)
    ultimately have "unat a < 2 * unat b" by linarith
    then show ?thesis
      using False "1.prems"(3,4) by (subst div_double.simps) auto
  qed
qed

lemma unat_halve: "unat (drop_bit 1 (w :: u64)) = unat w div 2"
  by (simp add: drop_bit_Suc unat_div)

text \<open>The subtraction loop, from a scaled divisor, is long division.\<close>

lemma divrem_loop_correct:
  assumes "0 < unat b0" and "unat d = 2 ^ k" and "unat b = unat b0 * 2 ^ k" and "unat a < 2 * unat b"
  shows "divrem_loop a b d res = (res + of_nat (unat a div unat b0), a mod b0)"
  using assms
proof (induction k arbitrary: a b d res)
  case 0
  then have b: "b = b0" and d: "d = 1"
    by (auto intro: word_eq_unatI)
  have small: "unat a div unat b0 = (if b0 \<le> a then 1 else 0)"
    using 0 b by (auto simp: word_le_nat_alt div_eq_0_iff intro!: div_nat_eqI)
  have "a mod b0 = (if b0 \<le> a then a - b0 else a)"
    using 0 b by (intro word_eq_unatI) (auto simp: unat_mod word_le_nat_alt unat_sub mod_if)
  then show ?case
    using small b d by (subst divrem_loop.simps) (simp add: Let_def drop_bit_Suc)
next
  case (Suc k)
  define a' where "a' = (if b \<le> a then a - b else a)"
  define res' where "res' = (if b \<le> a then res + d else res)"
  have d': "unat (drop_bit 1 d) = 2 ^ k" and b': "unat (drop_bit 1 b) = unat b0 * 2 ^ k"
    unfolding unat_halve Suc.prems by simp_all
  then have nz: "drop_bit 1 d \<noteq> 0"
    by (metis power_not_zero unat_0 zero_neq_numeral)
  have a': "unat a = (if b \<le> a then unat a' + unat b0 * 2 ^ Suc k else unat a')"
    using Suc.prems(3) by (simp add: a'_def unat_sub word_le_nat_alt)
  have "unat a' < 2 * unat (drop_bit 1 b)"
    using Suc.prems(3,4) a' unfolding b' word_le_nat_alt by (simp split: if_splits)
  from Suc.IH[OF Suc.prems(1) d' b' this]
  have IH: "divrem_loop a' (drop_bit 1 b) (drop_bit 1 d) res' =
    (res' + of_nat (unat a' div unat b0), a' mod b0)" .
  have "a' mod b0 = a mod b0"
    by (intro word_eq_unatI) (simp add: unat_mod a')
  moreover have "res' + of_nat (unat a' div unat b0) = res + of_nat (unat a div unat b0)"
  proof (cases "b \<le> a")
    case True
    have "d = of_nat (2 ^ Suc k)" using Suc.prems(2) by (metis of_nat_unat ucast_id)
    moreover have "unat a div unat b0 = 2 ^ Suc k + unat a' div unat b0"
      using True Suc.prems(1) a' by simp
    ultimately show ?thesis using True by (simp add: res'_def)
  qed (simp add: res'_def a'_def)
  ultimately show ?case
    using IH nz by (subst divrem_loop.simps) (simp add: Let_def a'_def res'_def)
qed

lemma udivremi3_correct_aux:
  assumes b: "b \<noteq> 0" and a: "unat a \<le> 2 ^ 63"
  shows "udivremi3 a b = Some (a div b, a mod b)"
proof -
  define hig where "hig = drop_bit 32 a"
  define q where "q = (if b \<le> hig then hig div b else 0)"
  define a1 where "a1 = a - push_bit 32 (q * b)"
  have pos: "0 < unat b" using b by (simp add: unat_gt_0)
  have "unat q * unat b \<le> unat hig"
    by (simp add: q_def unat_div)
  moreover have hig: "unat hig = unat a div 2 ^ 32"
    unfolding hig_def unat_drop_bit_eq by (simp add: drop_bit_eq_div)
  ultimately have le: "unat q * unat b * 2 ^ 32 \<le> unat a"
    by (metis div_times_less_eq_dividend le_trans mult_le_mono1)
  have qb: "unat (push_bit 32 (q * b)) = unat q * unat b * 2 ^ 32"
  proof -
    have lt: "unat q * unat b * 2 ^ 32 < 2 ^ 64"
      by (rule order.strict_trans1[OF le]) (use unat_lt2p[of a] in simp)
    have mult: "unat (q * b) = unat q * unat b"
      by (rule unat_mult_lt) (use lt in \<open>simp add: mult.commute\<close>)
    have "unat (q * b * 2 ^ 32) = unat (q * b) * unat (2 ^ 32 :: u64)"
      by (rule unat_mult_lt) (use lt mult in simp)
    then show ?thesis by (simp add: push_bit_eq_mult mult)
  qed
  have a1: "unat a1 + unat q * unat b * 2 ^ 32 = unat a"
    using le by (simp add: a1_def qb unat_sub word_le_nat_alt)
  have "\<exists>k' b' d'. div_double a1 b 1 = (b', d') \<and> unat d' = 2 ^ k' \<and>
    unat b' = unat b * unat d' \<and> unat a1 < 2 * unat b'"
    by (rule div_double_scales[where k = 0]) (use a a1 b in auto)
  then obtain k' b' d' where dd: "div_double a1 b 1 = (b', d')" and "unat d' = 2 ^ k'"
    "unat b' = unat b * 2 ^ k'" "unat a1 < 2 * unat b'"
    by auto
  then have loop: "divrem_loop a1 b' d' (push_bit 32 q) =
    (push_bit 32 q + of_nat (unat a1 div unat b), a1 mod b)"
    by (intro divrem_loop_correct pos)
  have a_eq: "unat a = unat a1 + unat b * (unat q * 2 ^ 32)"
    using a1 by (simp add: mult_ac)
  have "unat a div unat b = unat q * 2 ^ 32 + unat a1 div unat b"
    unfolding a_eq using pos by (intro div_mult_self2) simp
  then have "push_bit 32 q + of_nat (unat a1 div unat b) = of_nat (unat a div unat b)"
    by (simp add: push_bit_eq_mult)
  also have "\<dots> = a div b" by (metis unat_div of_nat_unat ucast_id)
  finally have quot: "push_bit 32 q + of_nat (unat a1 div unat b) = a div b" .
  have "a1 mod b = a mod b"
    by (intro word_eq_unatI) (simp only: unat_mod a_eq mod_mult_self2)
  then show ?thesis
    using dd loop quot b
    by (simp add: udivremi3_def Let_def q_def a1_def hig_def split: if_splits)
qed


lemma udivdi3_fst: "udivdi3 a b = map_option fst (udivremi3 a b)"
  by (simp add: udivremi3_def udivdi3_def Let_def div_loop_eq split: prod.split)

lemma umoddi3_snd: "umoddi3 a b = map_option snd (udivremi3 a b)"
  by (simp add: udivremi3_def umoddi3_def Let_def rem_loop_eq[symmetric] split: prod.split)

section \<open>Properties\<close>

text \<open>
  The software division of the 32-bit build is correct on every dividend up to
  \<^term>\<open>2 ^ 63 :: nat\<close> and every non-zero divisor: \<^verbatim>\<open>__udivremi3\<close> returns the quotient
  and the remainder, and \<^verbatim>\<open>__udivdi3\<close> and \<^verbatim>\<open>__umoddi3\<close> one of them each.
\<close>

theorem udivremi3_correct:
  assumes "b \<noteq> 0" and "unat a \<le> 2 ^ 63"
  shows "udivremi3 a b = Some (a div b, a mod b) \<and> udivdi3 a b = Some (a div b) \<and>
    umoddi3 a b = Some (a mod b)"
  by (simp add: udivdi3_fst umoddi3_snd udivremi3_correct_aux[OF assms])

theorem udivremi3_correct_witness:
  "udivremi3 10000000000 7 = Some (1428571428, 4)"
  using udivremi3_correct[of 7 10000000000] by simp

text \<open>
  Above that bound the doubling of the divisor can wrap to zero, and the quotient is wrong:
  dividing \<^term>\<open>2 ^ 64 - 1 :: nat\<close> by \<^term>\<open>2 ^ 63 :: nat\<close> yields 3 instead of 1.
\<close>

theorem udivdi3_wraps:
  "udivdi3 (2 ^ 64 - 1) (2 ^ 63) = Some 3 \<and> (2 ^ 64 - 1 :: u64) div 2 ^ 63 = 1"
  by (simp add: udivdi3_def div_double.simps div_loop.simps)

text \<open>
  \<^verbatim>\<open>memmove\<close> copies overlapping blocks correctly: after it, every byte of the
  destination block holds what the corresponding source byte held before, and every other byte
  is unchanged.
\<close>

theorem memmove_correct:
  assumes "unat dest + unat n \<le> 2 ^ 32" and "unat src + unat n \<le> 2 ^ 32"
  shows "(\<forall>i < n. memmove m dest src n (dest + i) = m (src + i)) \<and>
    (\<forall>a. n \<le> a - dest \<longrightarrow> memmove m dest src n a = m a)"
  using memmove_eq[OF assms, of m] by (auto simp: copied_def)

theorem memmove_correct_witness:
  "memmove ((\<lambda>_. 0)(100 := 1, 101 := 2)) 101 100 2 101 = 1 \<and>
   memmove ((\<lambda>_. 0)(100 := 1, 101 := 2)) 101 100 2 102 = 2"
  using memmove_correct[of 101 2 100 "(\<lambda>_. 0)(100 := 1, 101 := 2)"]
  by (auto dest: spec[of _ 0] spec[of _ 1])

end
