(* ===== verification/Allocator.thy ===== *)
theory Allocator
  imports Prelude
begin

text \<open>
  The contract of a block allocator, as the kernel's clients rely on it: an acquired block is
  fresh, releasing a block makes it and nothing else unavailable, and both keep the allocator's
  invariant. The lemmas of the locale are what the clients use: blocks acquired one after the other
  are distinct, and releasing them all restores the set of live blocks.
\<close>

fun acquire_all :: "('s \<Rightarrow> 'z \<Rightarrow> 'p \<times> 's) \<Rightarrow> 's \<Rightarrow> 'z list \<Rightarrow> 'p list \<times> 's" where
  "acquire_all acq s [] = ([], s)"
| "acquire_all acq s (z # zs) =
     (let (p, s1) = acq s z; (ps, s2) = acquire_all acq s1 zs in (p # ps, s2))"

fun release_all :: "('s \<Rightarrow> 'p \<Rightarrow> 's) \<Rightarrow> 's \<Rightarrow> 'p list \<Rightarrow> 's" where
  "release_all rel s [] = s"
| "release_all rel s (p # ps) = release_all rel (rel s p) ps"

locale block_allocator =
  fixes inv :: "'s \<Rightarrow> bool"
    and live :: "'s \<Rightarrow> 'p \<Rightarrow> bool"
    and valid :: "'p \<Rightarrow> bool"
    and granted :: "'p \<Rightarrow> 'z \<Rightarrow> bool"
    and acquire :: "'s \<Rightarrow> 'z \<Rightarrow> 'p \<times> 's"
    and release :: "'s \<Rightarrow> 'p \<Rightarrow> 's"
  assumes acquire_inv: "inv s \<Longrightarrow> acquire s z = (p, s') \<Longrightarrow> granted p z \<Longrightarrow> inv s'"
    and acquire_fresh: "inv s \<Longrightarrow> acquire s z = (p, s') \<Longrightarrow> granted p z \<Longrightarrow> \<not> live s p"
    and acquire_live: "acquire s z = (p, s') \<Longrightarrow> granted p z \<Longrightarrow> live s' q \<longleftrightarrow> q = p \<or> live s q"
    and live_valid: "live s p \<Longrightarrow> valid p"
    and release_inv: "inv s \<Longrightarrow> valid p \<Longrightarrow> inv (release s p)"
    and release_live: "inv s \<Longrightarrow> valid p \<Longrightarrow> live (release s p) q \<longleftrightarrow> q \<noteq> p \<and> live s q"
begin

lemma acquired_valid: "acquire s z = (p, s') \<Longrightarrow> granted p z \<Longrightarrow> valid p"
  using acquire_live[of s z p s' p] live_valid by blast

lemma release_acquire:
  assumes "inv s" and "acquire s z = (p, s')" and "granted p z"
  shows "live (release s' p) q \<longleftrightarrow> live s q"
  using assms acquire_inv acquire_fresh acquire_live acquired_valid release_live by metis

lemma release_twice:
  assumes "inv s" and "valid p"
  shows "live (release (release s p) p) q \<longleftrightarrow> live (release s p) q"
  using assms release_inv release_live by metis

lemma acquire_all_spec:
  assumes "inv s" and "acquire_all acquire s zs = (ps, s')" and "list_all2 granted ps zs"
  shows "inv s' \<and> distinct ps \<and> (\<forall>p \<in> set ps. \<not> live s p \<and> valid p) \<and>
    (\<forall>q. live s' q \<longleftrightarrow> q \<in> set ps \<or> live s q)"
  using assms
proof (induction zs arbitrary: s ps)
  case Nil
  then show ?case by simp
next
  case (Cons z zs)
  obtain p s1 where a: "acquire s z = (p, s1)" by (cases "acquire s z") auto
  obtain qs s2 where b: "acquire_all acquire s1 zs = (qs, s2)"
    by (cases "acquire_all acquire s1 zs") auto
  have ps: "ps = p # qs" "s' = s2" using Cons.prems(2) a b by auto
  then have g: "granted p z" "list_all2 granted qs zs" using Cons.prems(3) by auto
  note inv1 = acquire_inv[OF Cons.prems(1) a g(1)] and fresh = acquire_fresh[OF Cons.prems(1) a g(1)]
    and lv = acquire_live[OF a g(1)] and v = acquired_valid[OF a g(1)]
  from Cons.IH[OF inv1 b[folded ps(2)] g(2)] show ?case
    using fresh lv v by (auto simp: ps)
qed

lemma release_all_spec:
  assumes "inv s" and "\<forall>p \<in> set ps. valid p"
  shows "inv (release_all release s ps) \<and>
    (\<forall>q. live (release_all release s ps) q \<longleftrightarrow> q \<notin> set ps \<and> live s q)"
  using assms
proof (induction ps arbitrary: s)
  case Nil
  then show ?case by simp
next
  case (Cons p ps)
  then show ?case using release_inv release_live by auto
qed

lemma release_all_acquire_all:
  assumes "inv s" and "acquire_all acquire s zs = (ps, s')" and "list_all2 granted ps zs"
  shows "live (release_all release s' ps) q \<longleftrightarrow> live s q"
  using acquire_all_spec[OF assms] release_all_spec[of s' ps] by blast

end

end
