(* ===== verification/Memory.thy ===== *)
theory Memory
  imports Externs Allocator
begin

text \<open>
  The physical memory allocator, \<^verbatim>\<open>kernel/arch/memory.rs\<close>. A table of
  \<^verbatim>\<open>CLUSTER_COUNT\<close> words in physical memory, right after the page tables, gives each
  4 KiB cluster an owner: zero for a free cluster, \<^verbatim>\<open>0xFFFFFFFF\<close> for absent memory, and
  otherwise the address of the block the cluster belongs to. The table is read and written through
  the same byte memory the blocks live in, so that the proofs have to show that the two do not
  interfere.
\<close>

section \<open>Definitions\<close>

subsection \<open>Constants\<close>

text \<open>The page table area, \<^verbatim>\<open>kernel/arch/x86/paging.rs\<close>.\<close>

definition PAGE_TABLE_SIZE :: usize where [redox_consts]: "PAGE_TABLE_SIZE = 1024"
definition PAGE_ENTRY_SIZE :: usize where [redox_consts]: "PAGE_ENTRY_SIZE = 4"
definition PAGE_SIZE :: usize where [redox_consts]: "PAGE_SIZE = 4096"
definition PAGE_DIRECTORY :: usize where [redox_consts]: "PAGE_DIRECTORY = 0x200000"
definition PAGE_TABLES :: usize where [redox_consts]:
  "PAGE_TABLES = PAGE_DIRECTORY + PAGE_TABLE_SIZE * PAGE_ENTRY_SIZE"
definition PAGE_END :: usize where [redox_consts]:
  "PAGE_END = PAGE_TABLES + PAGE_TABLE_SIZE * PAGE_TABLE_SIZE * PAGE_ENTRY_SIZE"

definition CLUSTER_ADDRESS :: usize where [redox_consts]: "CLUSTER_ADDRESS = PAGE_END"
definition CLUSTER_COUNT :: usize where [redox_consts]: "CLUSTER_COUNT = 1024 * 1024"
definition CLUSTER_SIZE :: usize where [redox_consts]: "CLUSTER_SIZE = 4096"

text \<open>\<^verbatim>\<open>mem::size_of::<usize>()\<close> on i386.\<close>

definition SIZE_OF_USIZE :: usize where [redox_consts]: "SIZE_OF_USIZE = 4"

subsection \<open>The cluster table\<close>

definition cluster :: "mem \<Rightarrow> usize \<Rightarrow> usize" where
  "cluster m number =
     (if number < CLUSTER_COUNT then read_usize m (CLUSTER_ADDRESS + number * SIZE_OF_USIZE) else 0)"

definition set_cluster :: "mem \<Rightarrow> usize \<Rightarrow> usize \<Rightarrow> mem" where
  "set_cluster m number address =
     (if number < CLUSTER_COUNT
      then write_usize m (CLUSTER_ADDRESS + number * SIZE_OF_USIZE) address else m)"

definition address_to_cluster :: "usize \<Rightarrow> usize" where
  "address_to_cluster address =
     (if address \<ge> CLUSTER_ADDRESS + CLUSTER_COUNT * SIZE_OF_USIZE
      then (address - CLUSTER_ADDRESS - CLUSTER_COUNT * SIZE_OF_USIZE) div CLUSTER_SIZE
      else 0)"

definition cluster_to_address :: "usize \<Rightarrow> usize" where
  "cluster_to_address number =
     CLUSTER_ADDRESS + CLUSTER_COUNT * SIZE_OF_USIZE + number * CLUSTER_SIZE"

subsection \<open>Initialisation from the BIOS memory map\<close>

record MemoryMapEntry =
  mm_base :: u64
  mm_len :: u64
  mm_class :: u32
  mm_acpi :: u32

function mark_absent :: "mem \<Rightarrow> usize \<Rightarrow> mem" where
  "mark_absent m i =
     (if i < CLUSTER_COUNT then mark_absent (set_cluster m i 0xFFFFFFFF) (i + 1) else m)"
  by pat_completeness auto
termination
  by (relation "measure (\<lambda>(m, i). unat CLUSTER_COUNT - unat i)") (auto simp: while_up_measure)

function mark_entry :: "MemoryMapEntry \<Rightarrow> mem \<Rightarrow> usize \<Rightarrow> mem" where
  "mark_entry e m i =
     (if i < CLUSTER_COUNT then
        let address = cluster_to_address i in
        mark_entry e
          (if ucast address \<ge> mm_base e \<and> (ucast address + ucast CLUSTER_SIZE :: u64) \<le> mm_base e + mm_len e
           then set_cluster m i 0 else m)
          (i + 1)
      else m)"
  by pat_completeness auto
termination
  by (relation "measure (\<lambda>(e, m, i). unat CLUSTER_COUNT - unat i)") (auto simp: while_up_measure)

declare mark_absent.simps [simp del] mark_entry.simps [simp del]

text \<open>
  The memory map at \<^verbatim>\<open>0x500\<close> is an argument: the list of the
  \<^verbatim>\<open>(0x5000 - 0x500) / 24\<close> entries the boot loader left there.
\<close>

fun mark_entries :: "MemoryMapEntry list \<Rightarrow> mem \<Rightarrow> mem" where
  "mark_entries [] m = m"
| "mark_entries (e # es) m =
     mark_entries es (if mm_len e > 0 \<and> mm_class e = 1 then mark_entry e m 0 else m)"

definition cluster_init :: "MemoryMapEntry list \<Rightarrow> mem \<Rightarrow> mem" where
  "cluster_init memory_map m = mark_entries memory_map (mark_absent m 0)"

subsection \<open>Allocation\<close>

text \<open>
  The search loop of \<^verbatim>\<open>alloc\<close> and \<^verbatim>\<open>alloc_aligned\<close>, which differ in the
  condition \<^term>\<open>ok i count\<close> under which cluster \<^term>\<open>i\<close> extends the current run.
\<close>

function cluster_scan ::
  "(usize \<Rightarrow> usize \<Rightarrow> bool) \<Rightarrow> usize \<Rightarrow> usize \<Rightarrow> usize \<Rightarrow> usize \<Rightarrow> usize \<times> usize" where
  "cluster_scan ok sz i number count =
     (if i < CLUSTER_COUNT then
        if ok i count then
          let number' = (if count = 0 then i else number); count' = count + 1 in
          if count' * CLUSTER_SIZE \<ge> sz then (number', count')
          else cluster_scan ok sz (i + 1) number' count'
        else cluster_scan ok sz (i + 1) number 0
      else (number, count))"
  by pat_completeness auto
termination
  by (relation "measure (\<lambda>(ok, sz, i, number, count). unat CLUSTER_COUNT - unat i)")
    (auto simp: while_up_measure)

function set_clusters :: "mem \<Rightarrow> usize \<Rightarrow> usize \<Rightarrow> usize \<Rightarrow> mem" where
  "set_clusters m address lim i =
     (if i < lim then set_clusters (set_cluster m i address) address lim (i + 1) else m)"
  by pat_completeness auto
termination
  by (relation "measure (\<lambda>(m, address, lim, i). unat lim - unat i)") (auto simp: while_up_measure)

declare cluster_scan.simps [simp del] set_clusters.simps [simp del]

definition alloc :: "mem \<Rightarrow> usize \<Rightarrow> usize \<times> mem" where
  "alloc m sz =
     (if sz > 0 then
        let (number, count) = cluster_scan (\<lambda>i count. cluster m i = 0) sz 0 0 0 in
        if count * CLUSTER_SIZE \<ge> sz then
          let address = cluster_to_address number;
              m1 = memset m address 0 (count * CLUSTER_SIZE)
          in (address, set_clusters m1 address (number + count) number)
        else (0, m)
      else (0, m))"

text \<open>
  \<^verbatim>\<open>cluster_to_address(i) % align\<close> panics for \<^term>\<open>align = 0\<close>, at the first free
  cluster; \<^term>\<open>None\<close> is that panic.
\<close>

function any_free :: "mem \<Rightarrow> usize \<Rightarrow> bool" where
  "any_free m i = (if i < CLUSTER_COUNT then cluster m i = 0 \<or> any_free m (i + 1) else False)"
  by pat_completeness auto
termination
  by (relation "measure (\<lambda>(m, i). unat CLUSTER_COUNT - unat i)") (auto simp: while_up_measure)

declare any_free.simps [simp del]

definition alloc_aligned :: "mem \<Rightarrow> usize \<Rightarrow> usize \<Rightarrow> (usize \<times> mem) option" where
  "alloc_aligned m sz align =
     (if sz > 0 then
        if align = 0 \<and> any_free m 0 then None
        else
          let (number, count) =
                cluster_scan (\<lambda>i count. cluster m i = 0 \<and>
                                (count > 0 \<or> cluster_to_address i mod align = 0)) sz 0 0 0 in
          if count * CLUSTER_SIZE \<ge> sz then
            let address = cluster_to_address number;
                m1 = memset m address 0 (count * CLUSTER_SIZE)
            in Some (address, set_clusters m1 address (number + count) number)
          else Some (0, m)
      else Some (0, m))"

function alloc_size_loop :: "mem \<Rightarrow> usize \<Rightarrow> usize \<Rightarrow> usize \<Rightarrow> usize" where
  "alloc_size_loop m ptr i sz =
     (if i < CLUSTER_COUNT \<and> cluster m i = ptr
      then alloc_size_loop m ptr (i + 1) (sz + CLUSTER_SIZE) else sz)"
  by pat_completeness auto
termination
  by (relation "measure (\<lambda>(m, ptr, i, sz). unat CLUSTER_COUNT - unat i)")
    (auto simp: while_up_measure)

declare alloc_size_loop.simps [simp del]

definition alloc_size :: "mem \<Rightarrow> usize \<Rightarrow> usize" where
  "alloc_size m ptr = (if ptr > 0 then alloc_size_loop m ptr (address_to_cluster ptr) 0 else 0)"

function unalloc_loop :: "mem \<Rightarrow> usize \<Rightarrow> usize \<Rightarrow> mem" where
  "unalloc_loop m ptr i =
     (if i < CLUSTER_COUNT \<and> cluster m i = ptr
      then unalloc_loop (set_cluster m i 0) ptr (i + 1) else m)"
  by pat_completeness auto
termination
  by (relation "measure (\<lambda>(m, ptr, i). unat CLUSTER_COUNT - unat i)") (auto simp: while_up_measure)

declare unalloc_loop.simps [simp del]

definition unalloc :: "mem \<Rightarrow> usize \<Rightarrow> mem" where
  "unalloc m ptr = (if ptr > 0 then unalloc_loop m ptr (address_to_cluster ptr) else m)"

definition realloc :: "mem \<Rightarrow> usize \<Rightarrow> usize \<Rightarrow> usize \<times> mem" where
  "realloc m ptr sz =
     (if sz = 0 then (0, if ptr > 0 then unalloc m ptr else m)
      else
        let old_size = alloc_size m ptr in
        if sz \<le> old_size then (ptr, m)
        else
          let (ret, m1) = alloc m sz in
          if ptr > 0 then
            (ret, unalloc (if ret > 0 then memmove m1 ret ptr (min old_size sz) else m1) ptr)
          else (ret, m1))"

definition realloc_inplace :: "mem \<Rightarrow> usize \<Rightarrow> usize \<Rightarrow> usize" where
  "realloc_inplace m ptr sz =
     (let old_size = alloc_size m ptr in if sz \<le> old_size then sz else old_size)"

function memory_used_loop :: "mem \<Rightarrow> usize \<Rightarrow> usize \<Rightarrow> usize" where
  "memory_used_loop m i ret =
     (if i < CLUSTER_COUNT then
        memory_used_loop m (i + 1)
          (if cluster m i \<noteq> 0 \<and> cluster m i \<noteq> 0xFFFFFFFF then ret + CLUSTER_SIZE else ret)
      else ret)"
  by pat_completeness auto
termination
  by (relation "measure (\<lambda>(m, i, ret). unat CLUSTER_COUNT - unat i)") (auto simp: while_up_measure)

definition memory_used :: "mem \<Rightarrow> usize" where
  "memory_used m = memory_used_loop m 0 0"

function memory_free_loop :: "mem \<Rightarrow> usize \<Rightarrow> usize \<Rightarrow> usize" where
  "memory_free_loop m i ret =
     (if i < CLUSTER_COUNT then
        memory_free_loop m (i + 1) (if cluster m i = 0 then ret + CLUSTER_SIZE else ret)
      else ret)"
  by pat_completeness auto
termination
  by (relation "measure (\<lambda>(m, i, ret). unat CLUSTER_COUNT - unat i)") (auto simp: while_up_measure)

declare memory_used_loop.simps [simp del] memory_free_loop.simps [simp del]

definition memory_free :: "mem \<Rightarrow> usize" where
  "memory_free m = memory_free_loop m 0 0"

subsection \<open>The owning wrapper \<^verbatim>\<open>Memory<T>\<close>\<close>

text \<open>
  The struct holds a raw pointer; \<^term>\<open>size_of_T\<close> is \<^verbatim>\<open>mem::size_of::<T>()\<close>.
  \<^verbatim>\<open>length\<close> panics for a zero-sized \<^verbatim>\<open>T\<close>.
\<close>

record MemoryPtr =
  mptr :: usize

definition memory_new :: "usize \<Rightarrow> mem \<Rightarrow> usize \<Rightarrow> MemoryPtr option \<times> mem" where
  "memory_new size_of_T m count =
     (let (a, m1) = alloc m (count * size_of_T)
      in (if a > 0 then Some \<lparr>mptr = a\<rparr> else None, m1))"

definition memory_new_align ::
  "usize \<Rightarrow> mem \<Rightarrow> usize \<Rightarrow> usize \<Rightarrow> (MemoryPtr option \<times> mem) option" where
  "memory_new_align size_of_T m count align =
     map_option (\<lambda>(a, m1). (if a > 0 then Some \<lparr>mptr = a\<rparr> else None, m1))
       (alloc_aligned m (count * size_of_T) align)"

definition memory_renew :: "usize \<Rightarrow> mem \<Rightarrow> MemoryPtr \<Rightarrow> usize \<Rightarrow> bool \<times> MemoryPtr \<times> mem" where
  "memory_renew size_of_T m self count =
     (let (address, m1) = realloc m (mptr self) (count * size_of_T)
      in if address > 0 then (True, self\<lparr>mptr := address\<rparr>, m1) else (False, self, m1))"

definition memory_size :: "mem \<Rightarrow> MemoryPtr \<Rightarrow> usize" where
  "memory_size m self = alloc_size m (mptr self)"

definition memory_length :: "usize \<Rightarrow> mem \<Rightarrow> MemoryPtr \<Rightarrow> usize option" where
  "memory_length size_of_T m self =
     (if size_of_T = 0 then None else Some (alloc_size m (mptr self) div size_of_T))"

definition memory_into_raw :: "MemoryPtr \<Rightarrow> usize \<times> MemoryPtr" where
  "memory_into_raw self = (mptr self, self\<lparr>mptr := 0\<rparr>)"

definition memory_drop :: "mem \<Rightarrow> MemoryPtr \<Rightarrow> mem" where
  "memory_drop m self = (if mptr self > 0 then unalloc m (mptr self) else m)"

section \<open>The table as a map\<close>

lemma const_vals:
  "PAGE_TABLES = 0x201000" "CLUSTER_ADDRESS = 0x601000" "CLUSTER_COUNT = 0x100000" "CLUSTER_SIZE = 4096"
  "SIZE_OF_USIZE = 4"
  by (simp_all add: redox_consts)

lemma unat_CLUSTER_COUNT [simp]: "unat CLUSTER_COUNT = 0x100000"
  by (simp add: const_vals)

definition cluster_cell :: "usize \<Rightarrow> usize" where
  "cluster_cell n = CLUSTER_ADDRESS + n * SIZE_OF_USIZE"

lemma cluster_bound: "n < CLUSTER_COUNT \<longleftrightarrow> unat n < 0x100000"
  by (simp add: word_less_nat_alt)

lemma unat_cluster_cell:
  assumes "n < CLUSTER_COUNT"
  shows "unat (cluster_cell n) = 0x601000 + 4 * unat n"
  using assms[unfolded cluster_bound]
  by (simp add: cluster_cell_def const_vals unat_word_ariths)

lemma cluster_cells_disjoint:
  assumes "i < CLUSTER_COUNT" and "j < CLUSTER_COUNT" and "i \<noteq> j"
  shows "cells_disjoint (cluster_cell i) (cluster_cell j)"
proof -
  have "unat i \<noteq> unat j" using assms(3) by (auto dest: word_eq_unatI)
  then show ?thesis
    using assms(1,2)
    by (auto simp: cells_disjoint_def word_le_nat_alt unat_diff_wrap unat_cluster_cell cluster_bound)
qed

lemma cluster_set_cluster [mem_simps]:
  "cluster (set_cluster m i v) j = (if i = j \<and> i < CLUSTER_COUNT then v else cluster m j)"
  using cluster_cells_disjoint[of j i]
  by (auto simp: cluster_def set_cluster_def mem_simps simp flip: cluster_cell_def)

text \<open>The bytes of the table, and the writes that stay inside it.\<close>

definition in_table :: "usize \<Rightarrow> bool" where
  "in_table a \<longleftrightarrow> 0x601000 \<le> unat a \<and> unat a < 0xA01000"

lemma set_cluster_other: "\<not> in_table a \<Longrightarrow> set_cluster m i v a = m a"
proof (cases "i < CLUSTER_COUNT")
  case True
  assume "\<not> in_table a"
  then have "4 \<le> a - cluster_cell i"
    using True unat_lt2p[of a]
    by (auto simp: word_le_nat_alt unat_diff_wrap unat_cluster_cell in_table_def cluster_bound)
  then show ?thesis
    using True by (simp add: set_cluster_def write_usize_other flip: cluster_cell_def)
qed (simp add: set_cluster_def)

lemma cluster_cong:
  assumes "\<And>a. in_table a \<Longrightarrow> m a = m' a"
  shows "cluster m n = cluster m' n"
proof (cases "n < CLUSTER_COUNT")
  case True
  have "in_table (cluster_cell n + i)" if "i < 4" for i
  proof -
    have lt: "unat i < 4" "unat n < 0x100000"
      using that True by (simp_all add: word_less_nat_alt)
    have "unat (cluster_cell n + i) = unat (cluster_cell n) + unat i"
      by (rule unat_add_lt) (use lt unat_cluster_cell[OF True] in simp)
    then show ?thesis
      using lt unat_cluster_cell[OF True] by (simp add: in_table_def)
  qed
  then have "read_usize m (cluster_cell n) = read_usize m' (cluster_cell n)"
    using assms by (intro read_usize_cong) blast
  then show ?thesis by (simp add: cluster_def cluster_cell_def)
qed (simp add: cluster_def)

lemma set_clusters_other: "i \<le> lim \<Longrightarrow> \<not> in_table a \<Longrightarrow> set_clusters m adr lim i a = m a"
proof (induction arbitrary: m rule: word_up_induct)
  case stop
  then show ?case by (simp add: set_clusters.simps)
next
  case (step i)
  then show ?case by (subst set_clusters.simps) (simp add: set_cluster_other)
qed

lemma cluster_set_clusters [mem_simps]:
  assumes "i \<le> lim" and "lim \<le> CLUSTER_COUNT"
  shows "cluster (set_clusters m adr lim i) j = (if i \<le> j \<and> j < lim then adr else cluster m j)"
  using assms(1)
proof (induction arbitrary: m rule: word_up_induct)
  case stop
  show ?case by (auto simp: set_clusters.simps)
next
  case (step i)
  have "i < CLUSTER_COUNT" using step.hyps assms(2) by simp
  then show ?case
    using step by (subst set_clusters.simps) (auto simp: mem_simps Suc_le_word)
qed

section \<open>Addresses and cluster numbers\<close>

text \<open>
  On the 32-bit build \<^verbatim>\<open>cluster_to_address\<close> wraps around from cluster 1046015 on: the
  clusters below have addresses from \<^verbatim>\<open>0xA01000\<close> up.
\<close>

definition DATA_BASE :: usize where
  "DATA_BASE = cluster_to_address 0"

definition WRAP_CLUSTER :: nat where
  "WRAP_CLUSTER = 1046015"

lemma DATA_BASE_val [simp]: "DATA_BASE = 0xA01000"
  by (simp add: DATA_BASE_def cluster_to_address_def const_vals)

lemma unat_cluster_to_address:
  "unat n < WRAP_CLUSTER \<Longrightarrow> unat (cluster_to_address n) = 0xA01000 + 4096 * unat n"
  by (simp add: cluster_to_address_def const_vals WRAP_CLUSTER_def unat_word_ariths)

lemma address_to_cluster_inverse:
  assumes "unat n < WRAP_CLUSTER"
  shows "address_to_cluster (cluster_to_address n) = n"
proof -
  have ge: "0xA01000 \<le> cluster_to_address n"
    using assms by (simp add: word_le_nat_alt unat_cluster_to_address)
  have "unat (cluster_to_address n - 0x601000 - 0x400000) = 4096 * unat n"
    using assms unfolding diff_diff_eq
    by (subst unat_sub_le) (simp_all add: word_le_nat_alt unat_cluster_to_address)
  then show ?thesis
    using ge by (intro word_eq_unatI)
      (simp add: address_to_cluster_def const_vals unat_div)
qed

text \<open>A wrapped cluster address lies below the data area.\<close>

lemma cluster_to_address_wraps:
  assumes "WRAP_CLUSTER \<le> unat n" and "n < CLUSTER_COUNT"
  shows "unat (cluster_to_address n) = 4096 * (unat n - WRAP_CLUSTER)"
proof -
  have "unat (cluster_to_address n) = (0xA01000 + 4096 * unat n) mod 2 ^ 32"
    by (simp add: cluster_to_address_def const_vals unat_word_ariths mod_simps mult.commute)
  also have "0xA01000 + 4096 * unat n = 4096 * (unat n - WRAP_CLUSTER) + 2 ^ 32"
    using assms(1) by (simp add: WRAP_CLUSTER_def)
  also have "\<dots> mod 2 ^ 32 = 4096 * (unat n - WRAP_CLUSTER) mod 2 ^ 32"
    by (rule mod_add_self2)
  also have "\<dots> = 4096 * (unat n - WRAP_CLUSTER)"
    using assms by (intro mod_less) (simp add: cluster_bound WRAP_CLUSTER_def)
  finally show ?thesis .
qed

lemma DATA_BASE_le_iff:
  assumes "n < CLUSTER_COUNT"
  shows "DATA_BASE \<le> cluster_to_address n \<longleftrightarrow> unat n < WRAP_CLUSTER"
proof (cases "unat n < WRAP_CLUSTER")
  case True
  then show ?thesis by (simp add: word_le_nat_alt unat_cluster_to_address)
next
  case False
  then have "unat (cluster_to_address n) = 4096 * (unat n - WRAP_CLUSTER)"
    using assms by (intro cluster_to_address_wraps) simp_all
  also have "\<dots> < 0xA01000"
    using assms by (simp add: cluster_bound WRAP_CLUSTER_def)
  finally show ?thesis using False by (simp add: word_le_nat_alt)
qed

section \<open>The search loop\<close>

text \<open>How many clusters a request of \<^term>\<open>sz\<close> bytes takes.\<close>

definition clusters_needed :: "usize \<Rightarrow> nat" where
  "clusters_needed sz = (unat sz + 4095) div 4096"

lemma clusters_needed_le: "clusters_needed sz \<le> 0x100000"
  using unat_lt2p[of sz] by (simp add: clusters_needed_def)

lemma clusters_needed_pos: "0 < sz \<Longrightarrow> 0 < clusters_needed sz"
  by (simp add: clusters_needed_def word_gt_0 flip: unat_gt_0)

lemma unat_times_CLUSTER_SIZE:
  "unat c < 0x100000 \<Longrightarrow> unat (c * CLUSTER_SIZE) = unat c * 4096"
  by (simp add: const_vals unat_word_ariths)

text \<open>The test \<^verbatim>\<open>count * CLUSTER_SIZE >= size\<close>, with its wrap-around at the full table.\<close>

lemma covers_iff:
  assumes "unat c \<le> 0x100000" and "0 < sz"
  shows "sz \<le> c * CLUSTER_SIZE \<longleftrightarrow> unat c < 0x100000 \<and> clusters_needed sz \<le> unat c"
proof (cases "unat c < 0x100000")
  case True
  then show ?thesis
    by (auto simp: word_le_nat_alt unat_times_CLUSTER_SIZE clusters_needed_def)
next
  case False
  with assms(1) have "c = 0x100000" by (intro word_eq_unatI) simp
  then have "c * CLUSTER_SIZE = 0" by (simp add: const_vals)
  then show ?thesis using assms(2) False by (simp add: word_gt_0)
qed

text \<open>
  The state of the search before cluster \<^term>\<open>i\<close>: the current run ends at \<^term>\<open>i\<close>, it satisfies the
  condition, and it is still too short.
\<close>

definition scan_inv :: "(usize \<Rightarrow> usize \<Rightarrow> bool) \<Rightarrow> (usize \<Rightarrow> bool) \<Rightarrow> usize \<Rightarrow> usize \<Rightarrow> usize \<Rightarrow> usize \<Rightarrow> bool"
where
  "scan_inv ok P sz i number count \<longleftrightarrow>
     \<not> sz \<le> count * CLUSTER_SIZE \<and>
     (count \<noteq> 0 \<longrightarrow>
       unat number + unat count = unat i \<and> ok number 0 \<and> (\<forall>j. number \<le> j \<and> j < i \<longrightarrow> P j))"

text \<open>What the search returns when it found a run.\<close>

definition scan_found :: "(usize \<Rightarrow> usize \<Rightarrow> bool) \<Rightarrow> (usize \<Rightarrow> bool) \<Rightarrow> usize \<Rightarrow> usize \<Rightarrow> usize \<Rightarrow> bool"
where
  "scan_found ok P sz n c \<longleftrightarrow>
     unat c = clusters_needed sz \<and> unat n + unat c \<le> 0x100000 \<and> ok n 0 \<and>
     (\<forall>j. n \<le> j \<and> j < n + c \<longrightarrow> P j)"

lemma scan_inv_count:
  "scan_inv ok P sz i number count \<Longrightarrow> unat count \<le> unat i"
  by (cases "count = 0") (auto simp: scan_inv_def)

lemma scan_inv_reset: "0 < sz \<Longrightarrow> scan_inv ok P sz i number 0"
  by (simp add: scan_inv_def word_gt_0)

lemma scan_step:
  assumes inv: "scan_inv ok P sz i number count" and i: "i < CLUSTER_COUNT" and "ok i count" "P i"
    and n': "number' = (if count = 0 then i else number)"
  shows "unat (count + 1) = unat count + 1" "unat number' + unat (count + 1) = unat i + 1"
    "ok number' 0" "\<forall>j. number' \<le> j \<and> j < i + 1 \<longrightarrow> P j"
proof -
  have "unat count < 0x100000"
    using scan_inv_count[OF inv] i by (simp add: cluster_bound)
  then show c: "unat (count + 1) = unat count + 1"
    by (simp add: unat_word_ariths)
  show "unat number' + unat (count + 1) = unat i + 1"
    using inv unfolding c n' scan_inv_def by auto
  show "ok number' 0"
    using inv assms(3) by (auto simp: n' scan_inv_def)
  show "\<forall>j. number' \<le> j \<and> j < i + 1 \<longrightarrow> P j"
    using inv assms(4) by (auto simp: n' scan_inv_def less_Suc_word[OF i])
qed

lemma scan_found_step:
  assumes inv: "scan_inv ok P sz i number count" and i: "i < CLUSTER_COUNT" and "ok i count" "P i"
    and n': "number' = (if count = 0 then i else number)" and sz: "0 < sz"
    and cov: "sz \<le> (count + 1) * CLUSTER_SIZE"
  shows "scan_found ok P sz number' (count + 1)"
proof -
  note st = scan_step[OF assms(1-5)]
  have c: "unat count < 0x100000"
    using scan_inv_count[OF inv] i by (simp add: cluster_bound)
  have ends: "number' + (count + 1) = i + 1"
    using st(2) i by (intro word_eq_unatI) (simp add: unat_Suc_less[OF i] unat_word_ariths cluster_bound)
  have "\<not> clusters_needed sz \<le> unat count"
    using inv c sz by (simp add: scan_inv_def covers_iff)
  moreover have "clusters_needed sz \<le> unat count + 1"
    using cov c sz st(1) by (simp add: covers_iff)
  ultimately have "unat (count + 1) = clusters_needed sz"
    using st(1) by simp
  moreover have "unat number' + unat (count + 1) \<le> 0x100000"
    using st(2) i by (simp add: cluster_bound)
  ultimately show ?thesis
    using st(3,4) by (simp add: scan_found_def ends)
qed

lemma cluster_scan_spec:
  assumes ok: "\<And>i c. ok i c \<Longrightarrow> P i" and sz: "0 < sz"
    and "i \<le> CLUSTER_COUNT" and "scan_inv ok P sz i number count"
    and "cluster_scan ok sz i number count = (n, c)" and "sz \<le> c * CLUSTER_SIZE"
  shows "scan_found ok P sz n c"
  using assms(3-5)
proof (induction arbitrary: number count rule: word_up_induct)
  case stop
  then show ?case using assms(6) by (simp add: cluster_scan.simps scan_inv_def)
next
  case (step i)
  define number' where "number' = (if count = 0 then i else number)"
  consider (reset) "\<not> ok i count" | (found) "ok i count" "sz \<le> (count + 1) * CLUSTER_SIZE"
    | (extend) "ok i count" "\<not> sz \<le> (count + 1) * CLUSTER_SIZE"
    by blast
  then show ?case
  proof cases
    case reset
    then show ?thesis
      using step.IH[OF scan_inv_reset[OF sz]] step.prems(2) step.hyps
      by (simp add: cluster_scan.simps[of ok sz i])
  next
    case found
    then have "n = number'" "c = count + 1"
      using step.prems(2) step.hyps by (simp_all add: cluster_scan.simps[of ok sz i] Let_def number'_def)
    then show ?thesis
      using scan_found_step[OF step.prems(1) step.hyps found(1) ok[OF found(1)] number'_def sz found(2)]
      by simp
  next
    case extend
    note st = scan_step[OF step.prems(1) step.hyps extend(1) ok[OF extend(1)] number'_def]
    have "scan_inv ok P sz (i + 1) number' (count + 1)"
      using extend(2) st by (simp add: scan_inv_def unat_Suc_less[OF step.hyps])
    then show ?thesis
      using step.IH step.prems(2) step.hyps extend
      by (simp add: cluster_scan.simps[of ok sz i] Let_def number'_def)
  qed
qed

text \<open>
  The search is complete: when it fails, no run of the needed length satisfies the condition.
  \<^term>\<open>suffix_inv P k i c\<close>: the longest run of \<^term>\<open>P\<close> ending at \<^term>\<open>i\<close> has length \<^term>\<open>c\<close>, and no run of
  length \<^term>\<open>k\<close> ends at or before \<^term>\<open>i\<close>.
\<close>

definition run_of :: "(usize \<Rightarrow> bool) \<Rightarrow> nat \<Rightarrow> nat \<Rightarrow> bool" where
  "run_of P s k \<longleftrightarrow> (\<forall>j. s \<le> j \<and> j < s + k \<longrightarrow> P (of_nat j))"

definition suffix_inv :: "(usize \<Rightarrow> bool) \<Rightarrow> nat \<Rightarrow> nat \<Rightarrow> nat \<Rightarrow> bool" where
  "suffix_inv P k i c \<longleftrightarrow> c \<le> i \<and> (c < i \<longrightarrow> \<not> P (of_nat (i - c - 1))) \<and>
     (\<forall>s. s + k \<le> i \<longrightarrow> \<not> run_of P s k)"

lemma suffix_inv_reset:
  assumes "suffix_inv P k i c" and "\<not> P (of_nat i)" and "0 < k"
  shows "suffix_inv P k (i + 1) 0"
proof -
  have "\<not> run_of P s k" if "s + k \<le> i + 1" for s
  proof (cases "s + k \<le> i")
    case False
    then have "s \<le> i" "i < s + k" using that assms(3) by auto
    then show ?thesis using assms(2) by (auto simp: run_of_def)
  qed (use assms(1) in \<open>simp add: suffix_inv_def\<close>)
  then show ?thesis using assms(2) by (simp add: suffix_inv_def)
qed

lemma suffix_inv_extend:
  assumes "suffix_inv P k i c" and "c + 1 < k"
  shows "suffix_inv P k (i + 1) (c + 1)"
proof -
  have "\<not> run_of P s k" if "s + k \<le> i + 1" for s
  proof (cases "s + k \<le> i")
    case False
    then have "s \<le> i - c - 1" "i - c - 1 < s + k" "c < i" using that assms(2) by auto
    then show ?thesis using assms(1) by (auto simp: run_of_def suffix_inv_def)
  qed (use assms(1) in \<open>simp add: suffix_inv_def\<close>)
  then show ?thesis using assms(1) by (auto simp: suffix_inv_def)
qed

lemma cluster_scan_complete:
  assumes sz: "0 < sz" and k: "clusters_needed sz < 0x100000"
    and "i \<le> CLUSTER_COUNT" and "suffix_inv P (clusters_needed sz) (unat i) (unat count)"
    and "unat count < clusters_needed sz"
    and "cluster_scan (\<lambda>i c. P i) sz i number count = (n, c)" and "\<not> sz \<le> c * CLUSTER_SIZE"
  shows "s + clusters_needed sz \<le> 0x100000 \<Longrightarrow> \<not> run_of P s (clusters_needed sz)"
  using assms(3-6)
proof (induction arbitrary: number count rule: word_up_induct)
  case stop
  then show ?case by (simp add: suffix_inv_def)
next
  case (step i)
  note unf = cluster_scan.simps[of _ sz i number count]
  show ?case
  proof (cases "P i")
    case False
    have "suffix_inv P (clusters_needed sz) (unat (i + 1)) (unat 0)"
      using suffix_inv_reset[OF step.prems(2)] False clusters_needed_pos[OF sz]
      by (simp add: unat_Suc_less[OF step.hyps])
    then show ?thesis
      using step.IH[OF step.prems(1), of 0 number] clusters_needed_pos[OF sz] step.prems(4) step.hyps False
      by (simp add: unf)
  next
    case True
    have c: "unat (count + 1) = unat count + 1"
      using step.prems(3) k by (simp add: unat_word_ariths)
    have "\<not> sz \<le> (count + 1) * CLUSTER_SIZE"
      using True step.prems(4) step.hyps assms(7) by (auto simp: unf Let_def)
    then have lt: "unat count + 1 < clusters_needed sz"
      using step.prems(3) k c sz by (simp add: covers_iff)
    then have "suffix_inv P (clusters_needed sz) (unat (i + 1)) (unat (count + 1))"
      using suffix_inv_extend[OF step.prems(2)] by (simp add: unat_Suc_less[OF step.hyps] c)
    then show ?thesis
      using step.IH[OF step.prems(1), of "count + 1"] lt c step.prems(4) step.hyps True
        \<open>\<not> sz \<le> (count + 1) * CLUSTER_SIZE\<close>
      by (simp add: unf Let_def)
  qed
qed

text \<open>The search takes the first run: none that long starts before the one it returns.\<close>

lemma cluster_scan_first:
  assumes sz: "0 < sz" and k: "clusters_needed sz < 0x100000"
    and "i \<le> CLUSTER_COUNT" and "suffix_inv P (clusters_needed sz) (unat i) (unat count)"
    and "unat count < clusters_needed sz" and "count \<noteq> 0 \<longrightarrow> unat number + unat count = unat i"
    and "cluster_scan (\<lambda>i c. P i) sz i number count = (n, c)" and cov: "sz \<le> c * CLUSTER_SIZE"
  shows "s < unat n \<Longrightarrow> \<not> run_of P s (clusters_needed sz)"
  using assms(3-7)
proof (induction arbitrary: number count rule: word_up_induct)
  case stop
  then have "c = count" by (simp add: cluster_scan.simps)
  then show ?case using stop.prems(3) cov k sz by (simp add: covers_iff)
next
  case (step i)
  note unf = cluster_scan.simps[of _ sz i number count]
  show ?case
  proof (cases "P i")
    case False
    have "suffix_inv P (clusters_needed sz) (unat (i + 1)) (unat 0)"
      using suffix_inv_reset[OF step.prems(2)] False clusters_needed_pos[OF sz]
      by (simp add: unat_Suc_less[OF step.hyps])
    then show ?thesis
      using step.IH[OF step.prems(1), of 0 number] clusters_needed_pos[OF sz] step.prems(5) step.hyps False
      by (simp add: unf)
  next
    case True
    define number' where "number' = (if count = 0 then i else number)"
    have c: "unat (count + 1) = unat count + 1"
      using step.prems(3) k by (simp add: unat_word_ariths)
    have n': "unat number' + unat (count + 1) = unat i + 1"
      using step.prems(4) by (auto simp: number'_def c)
    show ?thesis
    proof (cases "sz \<le> (count + 1) * CLUSTER_SIZE")
      case stop: True
      then have "n = number'" using True step.prems(5) step.hyps by (simp add: unf Let_def number'_def)
      moreover have "clusters_needed sz = unat count + 1"
        using stop step.prems(3) k sz c by (simp add: covers_iff)
      ultimately have "s + clusters_needed sz \<le> unat i" using step.prems(1) n' c by simp
      then show ?thesis using step.prems(2) by (simp add: suffix_inv_def)
    next
      case more: False
      then have lt: "unat count + 1 < clusters_needed sz"
        using step.prems(3) k c sz by (simp add: covers_iff)
      then have "suffix_inv P (clusters_needed sz) (unat (i + 1)) (unat (count + 1))"
        using suffix_inv_extend[OF step.prems(2)] by (simp add: unat_Suc_less[OF step.hyps] c)
      then show ?thesis
        using step.IH[OF step.prems(1), of "count + 1" number'] lt c n' step.prems(5) step.hyps True more
        by (simp add: unf Let_def number'_def unat_Suc_less[OF step.hyps])
    qed
  qed
qed

section \<open>Blocks\<close>

text \<open>
  A request is satisfied inside the address space when the block neither starts in the wrapped
  part of the table nor runs past \<^term>\<open>2 ^ 32 :: nat\<close>.
\<close>

definition block_fits :: "usize \<Rightarrow> usize \<Rightarrow> bool" where
  "block_fits r sz \<longleftrightarrow> 0 < sz \<and> DATA_BASE \<le> r \<and> unat r + 4096 * clusters_needed sz \<le> 2 ^ 32"

definition free_cluster :: "mem \<Rightarrow> usize \<Rightarrow> bool" where
  "free_cluster m i \<longleftrightarrow> cluster m i = 0"

text \<open>What an allocation of the run from cluster \<^term>\<open>n\<close> does to memory.\<close>

definition took :: "mem \<Rightarrow> usize \<Rightarrow> nat \<Rightarrow> usize \<Rightarrow> mem \<Rightarrow> bool" where
  "took m n k r m' \<longleftrightarrow>
     r = cluster_to_address n \<and> unat n + k \<le> WRAP_CLUSTER \<and> 0 < k \<and>
     (\<forall>j. n \<le> j \<and> unat j < unat n + k \<longrightarrow> cluster m j = 0) \<and>
     (\<forall>j. cluster m' j = (if n \<le> j \<and> unat j < unat n + k then r else cluster m j)) \<and>
     (\<forall>a. \<not> in_table a \<longrightarrow> m' a = (if unat (a - r) < 4096 * k then 0 else m a))"

lemma block_outside_table:
  assumes "0xA01000 \<le> unat r" and "unat r + l \<le> 2 ^ 32" and "in_table a"
  shows "\<not> unat (a - r) < l"
  using assms by (auto simp: unat_diff_wrap in_table_def word_le_nat_alt)

lemma take_run:
  assumes found: "scan_found ok (free_cluster m) sz n c" and fits: "block_fits (cluster_to_address n) sz"
    and m': "m' = set_clusters (memset m (cluster_to_address n) 0 (c * CLUSTER_SIZE))
      (cluster_to_address n) (n + c) n"
  shows "took m n (clusters_needed sz) (cluster_to_address n) m'"
proof -
  let ?k = "clusters_needed sz" and ?r = "cluster_to_address n"
  let ?m1 = "memset m ?r 0 (c * CLUSTER_SIZE)"
  have k: "unat c = ?k" "unat n + ?k \<le> 0x100000" "0 < ?k"
    using found fits clusters_needed_pos[of sz] by (auto simp: scan_found_def block_fits_def)
  have n: "unat n < WRAP_CLUSTER"
    using fits k DATA_BASE_le_iff[of n] by (simp add: block_fits_def cluster_bound)
  have r: "unat ?r = 0xA01000 + 4096 * unat n"
    using n by (rule unat_cluster_to_address)
  then have nk: "unat n + ?k \<le> WRAP_CLUSTER"
    using fits by (simp add: block_fits_def WRAP_CLUSTER_def)
  have c4: "unat (c * CLUSTER_SIZE) = 4096 * ?k"
    using k nk by (subst unat_times_CLUSTER_SIZE) (auto simp: WRAP_CLUSTER_def)
  have nc: "unat (n + c) = unat n + ?k"
    using k by (subst unat_add_lt) auto
  have m1: "?m1 a = (if unat (a - ?r) < 4096 * ?k then 0 else m a)" for a
    by (simp add: memset_eq filled_def word_less_nat_alt c4)
  have "cluster ?m1 j = cluster m j" for j
  proof (rule cluster_cong)
    fix a
    assume "in_table a"
    then show "?m1 a = m a"
      using block_outside_table[of ?r "4096 * ?k" a] fits r by (simp add: m1 block_fits_def)
  qed
  moreover have le: "n \<le> n + c" "n + c \<le> CLUSTER_COUNT"
    using k nc by (simp_all add: word_le_nat_alt)
  ultimately have table: "cluster m' j = (if n \<le> j \<and> unat j < unat n + ?k then ?r else cluster m j)" for j
    by (simp add: m' cluster_set_clusters word_less_nat_alt nc)
  have "m' a = (if unat (a - ?r) < 4096 * ?k then 0 else m a)" if "\<not> in_table a" for a
    using set_clusters_other[OF le(1) that] by (simp add: m' m1)
  moreover have "cluster m j = 0" if "n \<le> j" "unat j < unat n + ?k" for j
    using found that nc by (auto simp: scan_found_def free_cluster_def word_less_nat_alt)
  ultimately show ?thesis
    using nk k(3) table by (simp add: took_def)
qed

lemma alloc_took:
  assumes "alloc m sz = (r, m')" and "block_fits r sz"
  obtains n where "took m n (clusters_needed sz) r m'"
proof -
  obtain n c where scan: "cluster_scan (\<lambda>i count. cluster m i = 0) sz 0 0 0 = (n, c)"
    by (cases "cluster_scan (\<lambda>i count. cluster m i = 0) sz 0 0 0") auto
  have sz: "0 < sz" and r: "r \<noteq> 0"
    using assms(2) by (auto simp: block_fits_def)
  then have cov: "sz \<le> c * CLUSTER_SIZE" and r': "r = cluster_to_address n"
    and m': "m' = set_clusters (memset m r 0 (c * CLUSTER_SIZE)) r (n + c) n"
    using assms(1) scan by (auto simp: alloc_def Let_def split: if_splits)
  have "scan_found (\<lambda>i c. cluster m i = 0) (free_cluster m) sz n c"
    by (rule cluster_scan_spec[OF _ sz _ scan_inv_reset[OF sz] scan cov])
      (simp_all add: free_cluster_def)
  from take_run[OF this] assms(2) m' r' that show thesis by simp
qed

lemma alloc_aligned_took:
  assumes "alloc_aligned m sz align = Some (r, m')" and "block_fits r sz"
  obtains n where "took m n (clusters_needed sz) r m'" and "r mod align = 0"
proof -
  let ?ok = "\<lambda>i count. cluster m i = 0 \<and> (count > 0 \<or> cluster_to_address i mod align = 0)"
  obtain n c where scan: "cluster_scan ?ok sz 0 0 0 = (n, c)"
    by (cases "cluster_scan ?ok sz 0 0 0") auto
  have sz: "0 < sz" and r: "r \<noteq> 0"
    using assms(2) by (auto simp: block_fits_def)
  then have cov: "sz \<le> c * CLUSTER_SIZE" and r': "r = cluster_to_address n"
    and m': "m' = set_clusters (memset m r 0 (c * CLUSTER_SIZE)) r (n + c) n"
    using assms(1) scan by (auto simp: alloc_aligned_def Let_def split: if_splits)
  have found: "scan_found ?ok (free_cluster m) sz n c"
    by (rule cluster_scan_spec[OF _ sz _ scan_inv_reset[OF sz] scan cov])
      (simp_all add: free_cluster_def)
  then have "r mod align = 0" by (simp add: scan_found_def r')
  with take_run[OF found] assms(2) m' r' that show thesis by simp
qed

subsection \<open>Well-formed tables\<close>

definition is_block :: "usize \<Rightarrow> bool" where
  "is_block p \<longleftrightarrow> p \<noteq> 0 \<and> p \<noteq> 0xFFFFFFFF"

definition wf_table :: "mem \<Rightarrow> bool" where
  "wf_table m \<longleftrightarrow> (\<forall>i < CLUSTER_COUNT. is_block (cluster m i) \<longrightarrow>
     unat i < WRAP_CLUSTER \<and> cluster_to_address (address_to_cluster (cluster m i)) = cluster m i \<and>
     address_to_cluster (cluster m i) \<le> i \<and>
     (\<forall>j. address_to_cluster (cluster m i) \<le> j \<and> j \<le> i \<longrightarrow> cluster m j = cluster m i))"

text \<open>A block is live when some cluster belongs to it.\<close>

definition live :: "mem \<Rightarrow> usize \<Rightarrow> bool" where
  "live m p \<longleftrightarrow> is_block p \<and> (\<exists>i < CLUSTER_COUNT. cluster m i = p)"

lemma wf_tableD:
  assumes "wf_table m" and "i < CLUSTER_COUNT" and "cluster m i = p" and "is_block p"
    and "address_to_cluster p \<le> j" and "j \<le> i"
  shows "cluster m j = p"
  using assms unfolding wf_table_def by blast

lemma wf_table_le:
  "wf_table m \<Longrightarrow> i < CLUSTER_COUNT \<Longrightarrow> is_block (cluster m i) \<Longrightarrow> address_to_cluster (cluster m i) \<le> i"
  unfolding wf_table_def by blast

lemma wf_table_addr:
  "wf_table m \<Longrightarrow> i < CLUSTER_COUNT \<Longrightarrow> is_block (cluster m i) \<Longrightarrow>
   unat i < WRAP_CLUSTER \<and> cluster_to_address (address_to_cluster (cluster m i)) = cluster m i"
  unfolding wf_table_def by blast

lemma wf_table_head: "wf_table m \<Longrightarrow> live m p \<Longrightarrow> cluster m (address_to_cluster p) = p"
  unfolding live_def wf_table_def by blast

lemma took_head:
  assumes "took m n k r m'"
  shows "address_to_cluster r = n" and "is_block r" and "cluster m n = 0" and "n < CLUSTER_COUNT"
proof -
  have n: "unat n < WRAP_CLUSTER" and r: "r = cluster_to_address n"
    using assms by (auto simp: took_def)
  then show "address_to_cluster r = n" by (simp add: address_to_cluster_inverse)
  have "unat r = 0xA01000 + 4096 * unat n" using n r by (simp add: unat_cluster_to_address)
  moreover from this have "r \<noteq> 0xFFFFFFFF"
  proof -
    have "unat (0xFFFFFFFF :: usize) mod 4096 = 4095" by simp
    moreover have "unat r mod 4096 = 0" using \<open>unat r = _\<close> by presburger
    ultimately show ?thesis by (metis zero_neq_numeral)
  qed
  ultimately show "is_block r" by (auto simp: is_block_def)
  show "cluster m n = 0" using assms by (simp add: took_def)
  show "n < CLUSTER_COUNT" using n by (simp add: cluster_bound WRAP_CLUSTER_def)
qed

lemma took_fresh: "wf_table m \<Longrightarrow> took m n k r m' \<Longrightarrow> \<not> live m r"
  using wf_table_head[of m r] took_head[of m n k r m'] by (auto simp: is_block_def)

lemma took_wf:
  assumes wf: "wf_table m" and took: "took m n k r m'"
  shows "wf_table m'"
  unfolding wf_table_def
proof (intro allI impI)
  fix i
  assume i: "i < CLUSTER_COUNT" and blk: "is_block (cluster m' i)"
  have tab: "cluster m' j = (if n \<le> j \<and> unat j < unat n + k then r else cluster m j)"
    and free: "n \<le> j \<Longrightarrow> unat j < unat n + k \<Longrightarrow> cluster m j = 0" for j
    using took by (auto simp: took_def)
  show "unat i < WRAP_CLUSTER \<and> cluster_to_address (address_to_cluster (cluster m' i)) = cluster m' i \<and>
    address_to_cluster (cluster m' i) \<le> i \<and>
    (\<forall>j. address_to_cluster (cluster m' i) \<le> j \<and> j \<le> i \<longrightarrow> cluster m' j = cluster m' i)"
  proof (cases "n \<le> i \<and> unat i < unat n + k")
    case True
    then show ?thesis
      using took_head(1)[OF took] took by (auto simp: tab word_le_nat_alt took_def)
  next
    case False
    then have p: "cluster m' i = cluster m i" by (auto simp: tab)
    have "cluster m' j = cluster m i" if "address_to_cluster (cluster m i) \<le> j" "j \<le> i" for j
      using wf_tableD[OF wf i refl _ that] blk free[of j] p by (auto simp: tab is_block_def)
    then show ?thesis
      using wf_table_le[OF wf i] wf_table_addr[OF wf i] blk p by simp
  qed
qed

lemma took_live:
  assumes "took m n k r m'"
  shows "live m' p \<longleftrightarrow> p = r \<or> live m p"
proof -
  have tab: "cluster m' j = (if n \<le> j \<and> unat j < unat n + k then r else cluster m j)"
    and free: "n \<le> j \<Longrightarrow> unat j < unat n + k \<Longrightarrow> cluster m j = 0" for j
    using assms by (auto simp: took_def)
  have "cluster m' n = r" using assms by (simp add: took_def)
  moreover have "cluster m' i = p \<longleftrightarrow> cluster m i = p" if "p \<noteq> r" "is_block p" for i
    using that free[of i] by (auto simp: tab is_block_def)
  ultimately show ?thesis
    using took_head(2,4)[OF assms] unfolding live_def by (cases "p = r") auto
qed

subsection \<open>Release\<close>

lemma cluster_unalloc_loop:
  assumes "i \<le> CLUSTER_COUNT" and "p \<noteq> 0"
  shows "cluster (unalloc_loop m p i) j =
    (if i \<le> j \<and> j < CLUSTER_COUNT \<and> (\<forall>l. i \<le> l \<and> l \<le> j \<longrightarrow> cluster m l = p) then 0 else cluster m j)"
  using assms(1)
proof (induction arbitrary: m rule: word_up_induct)
  case stop
  show ?case by (auto simp: unalloc_loop.simps)
next
  case (step i)
  have split_i: "i \<le> l \<longleftrightarrow> l = i \<or> i + 1 \<le> l" for l
    using step.hyps by (auto simp: Suc_le_word)
  show ?case
  proof (cases "cluster m i = p")
    case True
    have ne: "i + 1 \<le> l \<Longrightarrow> cluster (set_cluster m i 0) l = cluster m l" for l
      using step.hyps by (auto simp: mem_simps Suc_le_word)
    show ?thesis
    proof (cases "i + 1 \<le> j")
      case True
      then show ?thesis
        using step \<open>cluster m i = p\<close> ne
        by (subst unalloc_loop.simps) (auto simp: split_i dest: ne order_trans)
    next
      case False
      then show ?thesis
        using step \<open>cluster m i = p\<close>
        by (subst unalloc_loop.simps) (auto simp: split_i mem_simps Suc_le_word)
    qed
  next
    case False
    then show ?thesis by (subst unalloc_loop.simps) auto
  qed
qed

lemma address_to_cluster_le: "address_to_cluster p \<le> CLUSTER_COUNT"
proof -
  have "unat (address_to_cluster p) \<le> unat (2 ^ 32 - 1 :: usize) div 4096"
    using unat_lt2p[of "p - CLUSTER_ADDRESS - CLUSTER_COUNT * SIZE_OF_USIZE"]
    by (simp add: address_to_cluster_def const_vals unat_div) linarith
  then show ?thesis by (simp add: word_le_nat_alt)
qed

lemma cluster_unalloc:
  assumes wf: "wf_table m" and p: "is_block p"
  shows "cluster (unalloc m p) j = (if cluster m j = p then 0 else cluster m j)"
proof (cases "cluster m j = p")
  case True
  then have j: "j < CLUSTER_COUNT" using p by (auto simp: cluster_def is_block_def split: if_splits)
  then have "address_to_cluster p \<le> j" using wf True p by (auto simp: wf_table_def)
  then show ?thesis
    using True p j wf_tableD[OF wf j True p]
    by (auto simp: unalloc_def cluster_unalloc_loop address_to_cluster_le is_block_def word_gt_0)
next
  case False
  then show ?thesis
    using p by (auto simp: unalloc_def cluster_unalloc_loop address_to_cluster_le is_block_def word_gt_0)
qed

lemma unalloc_loop_other: "i \<le> CLUSTER_COUNT \<Longrightarrow> \<not> in_table a \<Longrightarrow> unalloc_loop m p i a = m a"
proof (induction arbitrary: m rule: word_up_induct)
  case stop
  then show ?case by (simp add: unalloc_loop.simps)
next
  case (step i)
  then show ?case by (subst unalloc_loop.simps) (simp add: set_cluster_other)
qed

text \<open>Releasing a block changes no byte outside the table.\<close>

lemma unalloc_other: "\<not> in_table a \<Longrightarrow> unalloc m p a = m a"
  by (simp add: unalloc_def unalloc_loop_other address_to_cluster_le)

lemma unalloc_wf:
  assumes wf: "wf_table m" and p: "is_block p"
  shows "wf_table (unalloc m p)"
  unfolding wf_table_def cluster_unalloc[OF assms]
proof (intro allI impI)
  fix i
  assume i: "i < CLUSTER_COUNT" and blk: "is_block (if cluster m i = p then 0 else cluster m i)"
  have q: "cluster m i \<noteq> p" and b: "is_block (cluster m i)"
    using blk by (auto simp: is_block_def split: if_splits)
  show "unat i < WRAP_CLUSTER \<and>
    cluster_to_address (address_to_cluster (if cluster m i = p then 0 else cluster m i)) =
      (if cluster m i = p then 0 else cluster m i) \<and>
    address_to_cluster (if cluster m i = p then 0 else cluster m i) \<le> i \<and>
    (\<forall>j. address_to_cluster (if cluster m i = p then 0 else cluster m i) \<le> j \<and> j \<le> i \<longrightarrow>
      (if cluster m j = p then 0 else cluster m j) = (if cluster m i = p then 0 else cluster m i))"
    unfolding if_not_P[OF q]
  proof (intro conjI allI impI wf_table_le[OF wf i b] wf_table_addr[OF wf i b, THEN conjunct1]
      wf_table_addr[OF wf i b, THEN conjunct2])
    fix j
    assume j: "address_to_cluster (cluster m i) \<le> j \<and> j \<le> i"
    then have "cluster m j = cluster m i" by (intro wf_tableD[OF wf i refl b]) simp_all
    then show "(if cluster m j = p then 0 else cluster m j) = cluster m i" using q by simp
  qed
qed

lemma unalloc_live:
  assumes wf: "wf_table m" and p: "is_block p"
  shows "live (unalloc m p) q \<longleftrightarrow> q \<noteq> p \<and> live m q"
  unfolding live_def cluster_unalloc[OF assms] by (auto simp: is_block_def)

subsection \<open>Sizes\<close>

lemma alloc_size_loop_run:
  assumes "unat i + k \<le> 0x100000" and "\<And>j. i \<le> j \<Longrightarrow> unat j < unat i + k \<Longrightarrow> cluster m j = p"
    and "\<And>j. unat j = unat i + k \<Longrightarrow> j < CLUSTER_COUNT \<Longrightarrow> cluster m j \<noteq> p"
  shows "alloc_size_loop m p i s = s + of_nat k * CLUSTER_SIZE"
  using assms
proof (induction k arbitrary: i s)
  case 0
  then show ?case by (subst alloc_size_loop.simps) auto
next
  case (Suc k)
  have i: "i < CLUSTER_COUNT" using Suc.prems(1) by (simp add: cluster_bound)
  have u: "unat (i + 1) = unat i + 1" using i by (simp add: unat_Suc_less)
  have "alloc_size_loop m p (i + 1) (s + CLUSTER_SIZE) = s + CLUSTER_SIZE + of_nat k * CLUSTER_SIZE"
  proof (rule Suc.IH)
    show "unat (i + 1) + k \<le> 0x100000" using Suc.prems(1) u by simp
    show "cluster m j = p" if "i + 1 \<le> j" "unat j < unat (i + 1) + k" for j
      using that u Suc.prems(2)[of j] Suc_le_word[OF i] by auto
    show "cluster m j \<noteq> p" if "unat j = unat (i + 1) + k" "j < CLUSTER_COUNT" for j
      using that u Suc.prems(3)[of j] by simp
  qed
  then show ?case
    using i Suc.prems(2)[of i] by (subst alloc_size_loop.simps) (simp add: algebra_simps)
qed

lemma took_size:
  assumes wf: "wf_table m" and took: "took m n k r m'"
  shows "unat (alloc_size m' r) = 4096 * k"
proof -
  have tab: "cluster m' j = (if n \<le> j \<and> unat j < unat n + k then r else cluster m j)" for j
    using took by (simp add: took_def)
  have nk: "unat n + k \<le> WRAP_CLUSTER" using took by (simp add: took_def)
  have "cluster m j \<noteq> r" if "j < CLUSTER_COUNT" for j
    using took_fresh[OF wf took] took_head(2)[OF took] that by (auto simp: live_def)
  then have "alloc_size_loop m' r n 0 = 0 + of_nat k * CLUSTER_SIZE"
    using nk by (intro alloc_size_loop_run) (auto simp: tab WRAP_CLUSTER_def)
  moreover have "unat (of_nat k * CLUSTER_SIZE) = 4096 * k"
    using nk unat_times_CLUSTER_SIZE[of "of_nat k"]
    by (simp add: unat_of_nat_lt WRAP_CLUSTER_def)
  ultimately show ?thesis
    using took_head[OF took] by (simp add: alloc_size_def is_block_def word_gt_0)
qed

lemma alloc_size_loop_cong:
  assumes "\<And>j. cluster m j = p \<longleftrightarrow> cluster m' j = p"
  shows "alloc_size_loop m p i s = alloc_size_loop m' p i s"
  using assms
proof (induction m p i s rule: alloc_size_loop.induct)
  case (1 m p i s)
  then show ?case
    by (subst (1 2) alloc_size_loop.simps) simp
qed

lemma alloc_size_cong:
  "(\<And>j. cluster m j = p \<longleftrightarrow> cluster m' j = p) \<Longrightarrow> alloc_size m p = alloc_size m' p"
  by (simp add: alloc_size_def alloc_size_loop_cong[of m p m'])

lemma took_size_other:
  assumes "took m n k r m'" and "is_block p" and "p \<noteq> r"
  shows "alloc_size m' p = alloc_size m p"
proof (rule alloc_size_cong)
  fix j
  show "cluster m' j = p \<longleftrightarrow> cluster m j = p"
    using assms unfolding took_def is_block_def by metis
qed

lemma unalloc_size_other:
  assumes "wf_table m" and "is_block p" and "is_block q" and "q \<noteq> p"
  shows "alloc_size (unalloc m p) q = alloc_size m q"
  by (rule alloc_size_cong) (use assms in \<open>auto simp: cluster_unalloc is_block_def\<close>)

subsection \<open>The allocator implements the interface\<close>

interpretation mem_alloc: block_allocator wf_table live is_block block_fits alloc unalloc
proof unfold_locales
  show "wf_table m'" if "wf_table m" "alloc m sz = (r, m')" "block_fits r sz" for m sz r m'
  proof -
    from that(2,3) obtain n where "took m n (clusters_needed sz) r m'" by (rule alloc_took)
    then show ?thesis by (rule took_wf[OF that(1)])
  qed
  show "\<not> live m r" if "wf_table m" "alloc m sz = (r, m')" "block_fits r sz" for m sz r m'
  proof -
    from that(2,3) obtain n where "took m n (clusters_needed sz) r m'" by (rule alloc_took)
    then show ?thesis by (rule took_fresh[OF that(1)])
  qed
  show "live m' q \<longleftrightarrow> q = r \<or> live m q" if "alloc m sz = (r, m')" "block_fits r sz" for m sz r m' q
  proof -
    from that(1,2) obtain n where "took m n (clusters_needed sz) r m'" by (rule alloc_took)
    then show ?thesis by (rule took_live)
  qed
  show "is_block p" if "live m p" for m p
    using that by (simp add: live_def)
  show "wf_table (unalloc m p)" if "wf_table m" "is_block p" for m p
    using that by (rule unalloc_wf)
  show "live (unalloc m p) q \<longleftrightarrow> q \<noteq> p \<and> live m q" if "wf_table m" "is_block p" for m p q
    using that by (rule unalloc_live)
qed

subsection \<open>The extent of a live block\<close>

lemma alloc_size_loop_extent:
  assumes "i \<le> CLUSTER_COUNT"
  shows "\<exists>c. alloc_size_loop m p i s = s + of_nat c * CLUSTER_SIZE \<and> unat i + c \<le> 0x100000 \<and>
    (\<forall>j. i \<le> j \<and> unat j < unat i + c \<longrightarrow> cluster m j = p) \<and>
    (i < CLUSTER_COUNT \<and> cluster m i = p \<longrightarrow> 0 < c)"
  using assms
proof (induction arbitrary: s rule: word_up_induct)
  case stop
  then show ?case by (intro exI[of _ 0]) (auto simp: alloc_size_loop.simps word_le_nat_alt)
next
  case (step i)
  show ?case
  proof (cases "cluster m i = p")
    case True
    obtain c where c: "alloc_size_loop m p (i + 1) (s + CLUSTER_SIZE) = s + CLUSTER_SIZE + of_nat c * CLUSTER_SIZE"
      "unat (i + 1) + c \<le> 0x100000"
      "\<forall>j. i + 1 \<le> j \<and> unat j < unat (i + 1) + c \<longrightarrow> cluster m j = p"
      using step.IH by blast
    have "cluster m j = p" if "i \<le> j" "unat j < unat i + Suc c" for j
      using that c(3) True Suc_le_word[OF step.hyps, of j] unat_Suc_less[OF step.hyps] by (cases "j = i") auto
    moreover have "alloc_size_loop m p i s = s + of_nat (Suc c) * CLUSTER_SIZE"
      using c(1) True step.hyps by (subst alloc_size_loop.simps) (simp add: algebra_simps)
    ultimately show ?thesis
      using c(2) unat_Suc_less[OF step.hyps] by (intro exI[of _ "Suc c"]) auto
  next
    case False
    then show ?thesis
      using step.hyps
      by (intro exI[of _ 0]) (subst alloc_size_loop.simps, auto simp: cluster_bound word_le_nat_alt)
  qed
qed

lemma live_extent:
  assumes wf: "wf_table m" and lv: "live m p"
  obtains n c where "p = cluster_to_address n" "unat (alloc_size m p) = 4096 * c" "0 < c"
    "unat n + c \<le> WRAP_CLUSTER" "\<And>j. n \<le> j \<Longrightarrow> unat j < unat n + c \<Longrightarrow> cluster m j = p"
proof -
  define n where "n = address_to_cluster p"
  have p: "is_block p" using lv by (simp add: live_def)
  have head: "cluster m n = p" using wf_table_head[OF wf lv] by (simp add: n_def)
  then have n: "n < CLUSTER_COUNT" using p by (auto simp: cluster_def is_block_def split: if_splits)
  obtain c where c: "alloc_size_loop m p n 0 = 0 + of_nat c * CLUSTER_SIZE" "unat n + c \<le> 0x100000"
    "\<forall>j. n \<le> j \<and> unat j < unat n + c \<longrightarrow> cluster m j = p" "0 < c"
    using alloc_size_loop_extent[of n m p 0, OF less_imp_le[OF n]] n head by blast
  define l where "l = (of_nat (unat n + c - 1) :: usize)"
  have l: "unat l = unat n + c - 1"
    using c(2,4) unfolding l_def by (intro unat_of_nat_lt) simp
  have "n \<le> l" "unat l < unat n + c" using l c(4) by (simp_all add: word_le_nat_alt)
  then have "cluster m l = p" using c(3) by blast
  moreover have "l < CLUSTER_COUNT" using l c(2,4) by (simp add: cluster_bound)
  ultimately have "unat l < WRAP_CLUSTER" using wf_table_addr[OF wf] p by metis
  then have nc: "unat n + c \<le> WRAP_CLUSTER" using l c(4) by simp
  have "unat (of_nat c * CLUSTER_SIZE) = 4096 * c"
    using nc c(4) unat_times_CLUSTER_SIZE[of "of_nat c"] by (simp add: unat_of_nat_lt WRAP_CLUSTER_def)
  then have "unat (alloc_size m p) = 4096 * c"
    using c(1) p by (simp add: alloc_size_def is_block_def word_gt_0 n_def)
  moreover have "p = cluster_to_address n"
    using wf_table_addr[OF wf n] head p by (simp add: n_def)
  ultimately show thesis using that c nc by blast
qed

text \<open>Two runs of clusters with no cluster in common have no byte in common.\<close>

lemma runs_disjoint:
  assumes "unat n + c \<le> WRAP_CLUSTER" and "unat n' + c' \<le> WRAP_CLUSTER"
    and "\<And>x. unat n \<le> x \<Longrightarrow> x < unat n + c \<Longrightarrow> \<not> (unat n' \<le> x \<and> x < unat n' + c')"
    and "unat i < 4096 * c" and "0 < c'"
  shows "\<not> unat ((cluster_to_address n + i) - cluster_to_address n') < 4096 * c'"
    and "\<not> in_table (cluster_to_address n + i)"
    and "unat (cluster_to_address n + i) = 0xA01000 + 4096 * unat n + unat i"
proof -
  have c: "0 < c" using assms(4) by (cases c) auto
  then have n: "unat (cluster_to_address n) = 0xA01000 + 4096 * unat n"
    using assms(1) by (intro unat_cluster_to_address) simp
  show u: "unat (cluster_to_address n + i) = 0xA01000 + 4096 * unat n + unat i"
    using assms(1,4) n by (subst unat_add_lt) (simp_all add: WRAP_CLUSTER_def)
  then show "\<not> in_table (cluster_to_address n + i)" by (simp add: in_table_def)
  have n': "unat (cluster_to_address n') = 0xA01000 + 4096 * unat n'"
    using assms(2,5) by (intro unat_cluster_to_address) simp
  have "unat n + unat i div 4096 < unat n + c" using assms(4) by (simp add: less_mult_imp_div_less mult.commute)
  with assms(3)[of "unat n + unat i div 4096"]
  have "unat n + unat i div 4096 < unat n' \<or> unat n' + c' \<le> unat n + unat i div 4096" by auto
  moreover have "unat i = 4096 * (unat i div 4096) + unat i mod 4096" "unat i mod 4096 < 4096" by simp_all
  ultimately show "\<not> unat ((cluster_to_address n + i) - cluster_to_address n') < 4096 * c'"
    using assms(1,2,4) by (auto simp: unat_diff_wrap u n' word_le_nat_alt WRAP_CLUSTER_def)
qed

subsection \<open>Moving a block\<close>

lemma table_cong:
  assumes "\<And>j. cluster m' j = cluster m j"
  shows "wf_table m' \<longleftrightarrow> wf_table m" and "live m' p \<longleftrightarrow> live m p"
  by (simp_all add: wf_table_def live_def assms)

lemma took_apart:
  assumes wf: "wf_table m" and lv: "live m p" and took: "took m n k r m1"
    and i: "unat i < unat (alloc_size m p)"
  shows "\<not> unat ((p + i) - r) < 4096 * k" and "\<not> in_table (p + i)"
proof -
  obtain n' c where p: "p = cluster_to_address n'" and sz: "unat (alloc_size m p) = 4096 * c"
    and n': "unat n' + c \<le> WRAP_CLUSTER"
    and own: "\<And>j. n' \<le> j \<Longrightarrow> unat j < unat n' + c \<Longrightarrow> cluster m j = p"
    using live_extent[OF wf lv] by metis
  have apart: "\<not> (unat n \<le> x \<and> x < unat n + k)" if "unat n' \<le> x" "x < unat n' + c" for x
  proof
    assume x: "unat n \<le> x \<and> x < unat n + k"
    have u: "unat (of_nat x :: usize) = x"
      using that n' by (intro unat_of_nat_lt) (simp add: WRAP_CLUSTER_def)
    have "cluster m (of_nat x) = p" using that own[of "of_nat x"] u by (simp add: word_le_nat_alt)
    moreover have "cluster m (of_nat x) = 0" using x took u by (simp add: took_def word_le_nat_alt)
    ultimately show False using lv by (simp add: live_def is_block_def)
  qed
  have k: "unat n + k \<le> WRAP_CLUSTER" "0 < k" and r: "r = cluster_to_address n"
    using took by (simp_all add: took_def)
  note dis = runs_disjoint[OF n' k(1) apart i[unfolded sz] k(2), folded p r]
  show "\<not> in_table (p + i)" by (rule dis(2))
  show "\<not> unat ((p + i) - r) < 4096 * k" using dis(1) by simp
qed

lemma took_keeps_block:
  assumes "wf_table m" and "live m p" and "took m n k r m1" and "unat i < unat (alloc_size m p)"
  shows "m1 (p + i) = m (p + i)" and "\<not> in_table (p + i)"
  using took_apart[OF assms] assms(3) by (simp_all add: took_def)

lemma realloc_move:
  assumes wf: "wf_table m" and lv: "live m p" and grow: "alloc_size m p < sz"
    and re: "realloc m p sz = (r, m')" and fits: "block_fits r sz"
  shows "wf_table m'" and "\<And>q. live m' q \<longleftrightarrow> q = r \<or> (q \<noteq> p \<and> live m q)" and "\<not> live m r"
    and "unat (alloc_size m' r) = 4096 * clusters_needed sz"
    and "unat i < 4096 * clusters_needed sz \<Longrightarrow> m' (r + i) = (if i < alloc_size m p then m (p + i) else 0)"
    and "live m q \<Longrightarrow> q \<noteq> p \<Longrightarrow> alloc_size m' q = alloc_size m q"
    and "live m q \<Longrightarrow> q \<noteq> p \<Longrightarrow> unat i < unat (alloc_size m q) \<Longrightarrow> m' (q + i) = m (q + i)"
proof -
  let ?old = "alloc_size m p" and ?k = "clusters_needed sz"
  have p: "is_block p" using lv by (simp add: live_def)
  have r: "r \<noteq> 0" using fits by (auto simp: block_fits_def)
  obtain r0 m1 where a: "alloc m sz = (r0, m1)" by (cases "alloc m sz") auto
  have "sz \<noteq> 0" and old_min: "min ?old sz = ?old" and "0 < p"
    using grow p by (auto simp: is_block_def word_gt_0)
  then have "realloc m p sz = (r0, unalloc (if r0 > 0 then memmove m1 r0 p ?old else m1) p)"
    using grow[unfolded not_le [symmetric]] a by (simp add: realloc_def Let_def)
  then have m1: "alloc m sz = (r, m1)" and m': "m' = unalloc (memmove m1 r p ?old) p"
    using re r a by (auto simp: word_gt_0)
  obtain n where took: "took m n ?k r m1" by (rule alloc_took[OF m1 fits])
  have oldk: "unat ?old \<le> 4096 * ?k" using grow by (simp add: word_less_nat_alt clusters_needed_def)
  have rk: "0xA01000 \<le> unat r" "unat r + 4096 * ?k \<le> 2 ^ 32" using fits by (simp_all add: block_fits_def word_le_nat_alt)
  have old: "unat r + unat ?old \<le> 2 ^ 32" using oldk rk by simp
  have oldp: "unat p + unat ?old \<le> 2 ^ 32"
  proof -
    obtain n' c where "p = cluster_to_address n'" "unat ?old = 4096 * c" "0 < c" "unat n' + c \<le> WRAP_CLUSTER"
      using live_extent[OF wf lv] by metis
    then show ?thesis using unat_cluster_to_address[of n'] by (simp add: WRAP_CLUSTER_def)
  qed
  define m2 where "m2 = memmove m1 r p ?old"
  have m2: "m2 = copied m1 r p ?old" unfolding m2_def by (rule memmove_eq[OF old oldp])
  have tab: "cluster m2 j = cluster m1 j" for j
    using block_outside_table[of r "unat ?old"] rk old
    by (intro cluster_cong) (simp add: m2 copied_def word_less_nat_alt)
  have wf2: "wf_table m2" and live2: "\<And>q. live m2 q \<longleftrightarrow> q = r \<or> live m q"
    using took_wf[OF wf took] took_live[OF took] by (simp_all add: table_cong[OF tab])
  have size2: "alloc_size m2 q = alloc_size m1 q" for q by (rule alloc_size_cong) (simp add: tab)
  show "wf_table m'" using unalloc_wf[OF wf2 p] by (simp add: m' m2_def)
  show fresh: "\<not> live m r" by (rule took_fresh[OF wf took])
  then have rp: "r \<noteq> p" using lv by auto
  then show "live m' q \<longleftrightarrow> q = r \<or> (q \<noteq> p \<and> live m q)" for q
    using unalloc_live[OF wf2 p, of q] live2 by (auto simp: m' m2_def)
  have size': "alloc_size m' q = alloc_size m1 q" if "is_block q" "q \<noteq> p" for q
    using unalloc_size_other[OF wf2 p that] by (simp add: m' m2_def[symmetric] size2)
  show "unat (alloc_size m' r) = 4096 * ?k"
    using size'[OF took_head(2)[OF took] rp] took_size[OF wf took] by simp
  have bytes: "m' a = m2 a" if "\<not> in_table a" for a using that by (simp add: m' m2_def unalloc_other)
  show "m' (r + i) = (if i < ?old then m (p + i) else 0)" if i: "unat i < 4096 * ?k"
  proof -
    have nt: "\<not> in_table (r + i)" using i rk by (simp add: in_table_def unat_add_lt)
    have "m2 (r + i) = (if i < ?old then m1 (p + i) else m1 (r + i))" by (simp add: m2 copied_def)
    moreover have "m1 (r + i) = 0" using nt i took by (simp add: took_def)
    moreover have "m1 (p + i) = m (p + i)" if "i < ?old"
      using that took_keeps_block(1)[OF wf lv took] by (simp add: word_less_nat_alt)
    ultimately show ?thesis using bytes[OF nt] by simp
  qed
  show "alloc_size m' q = alloc_size m q" if q: "live m q" "q \<noteq> p"
  proof -
    have "is_block q" "q \<noteq> r" using q fresh by (auto simp: live_def)
    then show ?thesis using size'[of q] took_size_other[OF took, of q] q by simp
  qed
  show "m' (q + i) = m (q + i)" if q: "live m q" "q \<noteq> p" and i: "unat i < unat (alloc_size m q)"
  proof -
    note apart = took_apart[OF wf q(1) took i]
    have "\<not> (q + i) - r < ?old" using apart(1) oldk by (simp add: word_less_nat_alt)
    then have "m2 (q + i) = m1 (q + i)" by (simp add: m2 copied_def)
    then show ?thesis using bytes[OF apart(2)] took_keeps_block(1)[OF wf q(1) took i] by simp
  qed
qed

subsection \<open>First fit\<close>

text \<open>The lowest run of free clusters that is long enough, if the table has one.\<close>

definition first_run :: "mem \<Rightarrow> nat \<Rightarrow> nat \<Rightarrow> bool" where
  "first_run m k n \<longleftrightarrow> n + k \<le> 0x100000 \<and> run_of (free_cluster m) n k \<and> (\<forall>s < n. \<not> run_of (free_cluster m) s k)"

lemma first_run_exists:
  assumes "s + k \<le> 0x100000" and "run_of (free_cluster m) s k"
  obtains n where "first_run m k n" and "n \<le> s"
proof -
  define n where "n = (LEAST s. run_of (free_cluster m) s k)"
  have "run_of (free_cluster m) n k" unfolding n_def by (rule LeastI[of _ s]) (rule assms(2))
  moreover have "n \<le> s" unfolding n_def by (rule Least_le) (rule assms(2))
  moreover have "\<not> run_of (free_cluster m) t k" if "t < n" for t using not_less_Least[of t] that unfolding n_def by blast
  ultimately show thesis using that assms(1) by (auto simp: first_run_def)
qed

lemma alloc_first_fit:
  assumes "0 < sz" and "clusters_needed sz < 0x100000"
  shows "first_run m (clusters_needed sz) n \<Longrightarrow> fst (alloc m sz) = cluster_to_address (of_nat n)"
    and "\<nexists>n. first_run m (clusters_needed sz) n \<Longrightarrow> alloc m sz = (0, m)"
proof -
  let ?k = "clusters_needed sz"
  obtain n c where scan: "cluster_scan (\<lambda>i c. free_cluster m i) sz 0 0 0 = (n, c)"
    by (cases "cluster_scan (\<lambda>i c. free_cluster m i) sz 0 0 0") auto
  then have al: "alloc m sz = (if sz \<le> c * CLUSTER_SIZE
      then (cluster_to_address n, set_clusters (memset m (cluster_to_address n) 0 (c * CLUSTER_SIZE))
        (cluster_to_address n) (n + c) n) else (0, m))"
    using assms(1) by (simp add: alloc_def free_cluster_def Let_def)
  have inv: "suffix_inv (free_cluster m) ?k (unat (0 :: usize)) (unat (0 :: usize))"
    using clusters_needed_pos[OF assms(1)] by (simp add: suffix_inv_def)
  have hit: "first_run m ?k (unat n)" if cov: "sz \<le> c * CLUSTER_SIZE"
  proof -
    have found: "scan_found (\<lambda>i c. free_cluster m i) (free_cluster m) sz n c"
      by (rule cluster_scan_spec[OF _ assms(1) _ scan_inv_reset[OF assms(1)] scan cov]) simp_all
    then have nc: "unat c = ?k" "unat n + ?k \<le> 0x100000" by (auto simp: scan_found_def)
    then have "unat (n + c) = unat n + ?k" by (subst unat_add_lt) auto
    then have "run_of (free_cluster m) (unat n) ?k"
      using found nc unfolding run_of_def scan_found_def word_le_nat_alt word_less_nat_alt
      by (metis (no_types, lifting) le_less_trans nat_less_le of_nat_eq_word_iff unat_lt2p unat_of_nat_lt
          order_less_le_trans)
    moreover have "\<not> run_of (free_cluster m) s ?k" if "s < unat n" for s
      using that clusters_needed_pos[OF assms(1)] inv
      by (intro cluster_scan_first[OF assms _ _ _ _ scan cov]) simp_all
    ultimately show ?thesis using nc by (simp add: first_run_def)
  qed
  have miss: "\<nexists>n. first_run m ?k n" if short: "\<not> sz \<le> c * CLUSTER_SIZE"
  proof
    assume "\<exists>n. first_run m ?k n"
    then obtain s where "s + ?k \<le> 0x100000" "run_of (free_cluster m) s ?k" by (auto simp: first_run_def)
    then show False
      using cluster_scan_complete[OF assms _ inv _ scan short] clusters_needed_pos[OF assms(1)] by simp
  qed
  show "fst (alloc m sz) = cluster_to_address (of_nat n')" if fr: "first_run m ?k n'" for n'
  proof -
    have cov: "sz \<le> c * CLUSTER_SIZE" using miss fr by blast
    have "n' = unat n" using hit[OF cov] fr by (auto simp: first_run_def not_less intro: antisym dest: leI)
    then show ?thesis using al cov by simp
  qed
  show "alloc m sz = (0, m)" if "\<nexists>n. first_run m ?k n" using hit that al by auto
qed

text \<open>
  Room for \<^term>\<open>K\<close> clusters: a free run of that length below the end of the address space. Since the
  search takes the first run that fits, an allocation of at most \<^term>\<open>K\<close> clusters is granted inside the
  address space and eats the run from below, if at all.
\<close>

definition room :: "nat \<Rightarrow> mem \<Rightarrow> bool" where
  "room K m \<longleftrightarrow> (\<exists>s. s + K \<le> WRAP_CLUSTER \<and> run_of (free_cluster m) s K)"

lemma run_of_shorter: "run_of P s L \<Longrightarrow> K \<le> L \<Longrightarrow> run_of P s K"
  by (simp add: run_of_def)

lemma room_mono: "room L m \<Longrightarrow> K \<le> L \<Longrightarrow> room K m"
  using run_of_shorter unfolding room_def by (meson add_left_mono order_trans)

lemma room_cong: "(\<And>j. cluster m' j = cluster m j) \<Longrightarrow> room K m' \<longleftrightarrow> room K m"
  by (simp add: room_def run_of_def free_cluster_def)

lemma room_unalloc:
  assumes "wf_table m" and "is_block p" and "room K m"
  shows "room K (unalloc m p)"
  using assms(3) by (fastforce simp: room_def run_of_def free_cluster_def cluster_unalloc[OF assms(1,2)])

lemma alloc_room:
  assumes "room K m" and "0 < sz" and "clusters_needed sz \<le> K" and "alloc m sz = (r, m')"
  shows "block_fits r sz" and "r \<noteq> 0" and "\<exists>n. took m n (clusters_needed sz) r m'"
    and "room (K - clusters_needed sz) m'"
proof -
  let ?k = "clusters_needed sz"
  obtain s where s: "s + K \<le> WRAP_CLUSTER" "run_of (free_cluster m) s K" using assms(1) by (auto simp: room_def)
  have k: "?k < 0x100000" "s + ?k \<le> 0x100000" "0 < ?k"
    using s(1) assms(3) clusters_needed_pos[OF assms(2)] by (simp_all add: WRAP_CLUSTER_def)
  obtain n where n: "first_run m ?k n" "n \<le> s"
    by (rule first_run_exists[OF k(2) run_of_shorter[OF s(2) assms(3)]])
  have r: "r = cluster_to_address (of_nat n)" using alloc_first_fit(1)[OF assms(2) k(1) n(1)] assms(4) by simp
  have nk: "n + ?k \<le> WRAP_CLUSTER" using n(2) assms(3) s(1) by simp
  have u: "unat (of_nat n :: usize) = n" using nk by (intro unat_of_nat_lt) (simp add: WRAP_CLUSTER_def)
  have ur: "unat r = 0xA01000 + 4096 * n"
    unfolding r using nk k(3) u unat_cluster_to_address[of "of_nat n"] by simp
  show fits: "block_fits r sz"
    using assms(2) nk ur by (simp add: block_fits_def word_le_nat_alt WRAP_CLUSTER_def)
  show "r \<noteq> 0" using ur by auto
  obtain n' where took: "took m n' ?k r m'" by (rule alloc_took[OF assms(4) fits])
  then show "\<exists>n. took m n ?k r m'" by blast
  have "cluster_to_address n' = r" "unat n' < WRAP_CLUSTER" using took by (auto simp: took_def)
  then have n': "unat n' = n" using ur unat_cluster_to_address[of n'] by simp
  have "free_cluster m' (of_nat j)" if j: "s + ?k \<le> j" "j < s + K" for j
  proof -
    have "cluster m (of_nat j) = 0" using s(2) j by (simp add: run_of_def free_cluster_def)
    moreover have "unat (of_nat j :: usize) = j" using j s(1) by (intro unat_of_nat_lt) (simp add: WRAP_CLUSTER_def)
    moreover have "cluster m' i = (if n' \<le> i \<and> unat i < unat n' + ?k then r else cluster m i)" for i
      using took by (simp add: took_def)
    ultimately show ?thesis using j n(2) n' by (auto simp: free_cluster_def)
  qed
  then have "run_of (free_cluster m') (s + ?k) (K - ?k)" using assms(3) by (auto simp: run_of_def)
  then show "room (K - ?k) m'"
    unfolding room_def using s(1) assms(3) by (intro exI[of _ "s + ?k"]) simp
qed

subsection \<open>Accounting\<close>

definition clusters_with :: "mem \<Rightarrow> (usize \<Rightarrow> bool) \<Rightarrow> usize \<Rightarrow> usize set" where
  "clusters_with m P i = {j. i \<le> j \<and> j < CLUSTER_COUNT \<and> P (cluster m j)}"

lemma clusters_with_step:
  assumes "i < CLUSTER_COUNT"
  shows "card (clusters_with m P i) = (if P (cluster m i) then 1 else 0) + card (clusters_with m P (i + 1))"
proof -
  have "clusters_with m P i = (if P (cluster m i) then {i} else {}) \<union> clusters_with m P (i + 1)"
    using assms unfolding clusters_with_def Suc_le_word[OF assms] by (force simp: order_le_less)
  moreover have "i \<notin> clusters_with m P (i + 1)"
    using assms by (simp add: clusters_with_def Suc_le_word[OF assms])
  moreover have "finite (clusters_with m P (i + 1))" by simp
  ultimately show ?thesis by simp
qed

lemma clusters_with_end: "clusters_with m P CLUSTER_COUNT = {}"
  by (auto simp: clusters_with_def)

lemma memory_free_loop_eq:
  "i \<le> CLUSTER_COUNT \<Longrightarrow>
   memory_free_loop m i ret = ret + of_nat (card (clusters_with m (\<lambda>p. p = 0) i)) * CLUSTER_SIZE"
proof (induction arbitrary: ret rule: word_up_induct)
  case stop
  show ?case by (simp add: memory_free_loop.simps clusters_with_end)
next
  case (step i)
  then show ?case
    by (subst memory_free_loop.simps) (simp add: clusters_with_step[OF step.hyps] algebra_simps)
qed

lemma memory_used_loop_eq:
  "i \<le> CLUSTER_COUNT \<Longrightarrow>
   memory_used_loop m i ret = ret + of_nat (card (clusters_with m is_block i)) * CLUSTER_SIZE"
proof (induction arbitrary: ret rule: word_up_induct)
  case stop
  show ?case by (simp add: memory_used_loop.simps clusters_with_end)
next
  case (step i)
  then show ?case
    by (subst memory_used_loop.simps)
      (simp add: clusters_with_step[OF step.hyps] is_block_def [symmetric] algebra_simps)
qed

lemma card_run:
  assumes "unat n + k \<le> 0x100000"
  shows "card {j :: usize. n \<le> j \<and> unat j < unat n + k} = k"
proof -
  have "bij_betw unat {j :: usize. n \<le> j \<and> unat j < unat n + k} {unat n ..< unat n + k}"
  proof (rule bij_betw_byWitness[where f' = of_nat])
    show "\<forall>x \<in> {unat n ..< unat n + k}. unat (of_nat x :: usize) = x"
      using assms by (auto intro: unat_of_nat_lt)
    then show "of_nat ` {unat n ..< unat n + k} \<subseteq> {j :: usize. n \<le> j \<and> unat j < unat n + k}"
      by (auto simp: word_le_nat_alt)
  qed (auto simp: word_le_nat_alt)
  then show ?thesis by (simp add: bij_betw_same_card)
qed

lemma took_accounting:
  assumes took: "took m n k r m'"
  shows "memory_free m' + of_nat k * CLUSTER_SIZE = memory_free m"
    and "memory_used m' = memory_used m + of_nat k * CLUSTER_SIZE"
proof -
  let ?R = "{j :: usize. n \<le> j \<and> unat j < unat n + k}"
  have nk: "unat n + k \<le> 0x100000" using took by (simp add: took_def WRAP_CLUSTER_def)
  have tab: "cluster m' j = (if n \<le> j \<and> unat j < unat n + k then r else cluster m j)"
    and free: "n \<le> j \<Longrightarrow> unat j < unat n + k \<Longrightarrow> cluster m j = 0" for j
    using took by (auto simp: took_def)
  have r: "is_block r" using took_head[OF took] by simp
  have inR: "j \<in> ?R \<Longrightarrow> j < CLUSTER_COUNT" for j using nk by (simp add: cluster_bound)
  have "clusters_with m (\<lambda>p. p = 0) 0 = clusters_with m' (\<lambda>p. p = 0) 0 \<union> ?R"
    "clusters_with m' (\<lambda>p. p = 0) 0 \<inter> ?R = {}"
    using r inR free by (auto simp: clusters_with_def tab is_block_def)
  then have "card (clusters_with m (\<lambda>p. p = 0) 0) = card (clusters_with m' (\<lambda>p. p = 0) 0) + k"
    by (simp add: card_Un_disjoint card_run[OF nk])
  then show "memory_free m' + of_nat k * CLUSTER_SIZE = memory_free m"
    by (simp add: memory_free_def memory_free_loop_eq algebra_simps)
  have "clusters_with m' is_block 0 = clusters_with m is_block 0 \<union> ?R"
    "clusters_with m is_block 0 \<inter> ?R = {}"
    using r inR free by (auto simp: clusters_with_def tab is_block_def)
  then have "card (clusters_with m' is_block 0) = card (clusters_with m is_block 0) + k"
    by (simp add: card_Un_disjoint card_run[OF nk])
  then show "memory_used m' = memory_used m + of_nat k * CLUSTER_SIZE"
    by (simp add: memory_used_def memory_used_loop_eq algebra_simps)
qed

subsection \<open>Initialisation\<close>

definition usable :: "MemoryMapEntry \<Rightarrow> usize \<Rightarrow> bool" where
  "usable e i \<longleftrightarrow> mm_len e > 0 \<and> mm_class e = 1 \<and> ucast (cluster_to_address i) \<ge> mm_base e \<and>
     ucast (cluster_to_address i) + ucast CLUSTER_SIZE \<le> mm_base e + mm_len e"

lemma cluster_mark_absent:
  "i \<le> CLUSTER_COUNT \<Longrightarrow>
   cluster (mark_absent m i) j = (if i \<le> j \<and> j < CLUSTER_COUNT then 0xFFFFFFFF else cluster m j)"
proof (induction arbitrary: m rule: word_up_induct)
  case stop
  show ?case by (auto simp: mark_absent.simps)
next
  case (step i)
  then show ?case
    by (subst mark_absent.simps) (auto simp: mem_simps Suc_le_word[OF step.hyps])
qed

lemma cluster_mark_entry:
  "i \<le> CLUSTER_COUNT \<Longrightarrow> mm_len e > 0 \<Longrightarrow> mm_class e = 1 \<Longrightarrow>
   cluster (mark_entry e m i) j =
     (if i \<le> j \<and> j < CLUSTER_COUNT \<and> usable e j then 0 else cluster m j)"
proof (induction arbitrary: m rule: word_up_induct)
  case stop
  show ?case by (auto simp: mark_entry.simps)
next
  case (step i)
  then show ?case
    by (subst mark_entry.simps)
      (auto simp: mem_simps Suc_le_word[OF step.hyps] usable_def Let_def)
qed

lemma cluster_mark_entries:
  "j < CLUSTER_COUNT \<Longrightarrow>
   cluster (mark_entries es m) j = (if \<exists>e \<in> set es. usable e j then 0 else cluster m j)"
proof (induction es arbitrary: m)
  case (Cons e es)
  then show ?case
    using cluster_mark_entry[of 0 e m j] by (auto simp: usable_def)
qed simp

lemma cluster_cluster_init:
  "i < CLUSTER_COUNT \<Longrightarrow> cluster (cluster_init es m) i = (if \<exists>e \<in> set es. usable e i then 0 else 0xFFFFFFFF)"
  by (simp add: cluster_init_def cluster_mark_entries cluster_mark_absent)

text \<open>
  A machine with 128 MiB of memory after initialisation from its BIOS memory map: the clusters up to
  the end of memory are free, and so are clusters that wrap around to low memory.
\<close>

definition boot_map :: "MemoryMapEntry list" where
  "boot_map = [\<lparr>mm_base = 0, mm_len = 0x9FC00, mm_class = 1, mm_acpi = 0\<rparr>,
     \<lparr>mm_base = 0x100000, mm_len = 0x7EE0000, mm_class = 1, mm_acpi = 0\<rparr>]"

definition boot_mem :: mem where
  "boot_mem = cluster_init boot_map (\<lambda>_. 0)"

lemma boot_usable: "unat i < 30175 \<Longrightarrow> usable \<lparr>mm_base = 0x100000, mm_len = 0x7EE0000, mm_class = 1, mm_acpi = 0\<rparr> i"
proof -
  assume i: "unat i < 30175"
  let ?a = "cluster_to_address i" and ?b = "ucast (cluster_to_address i) :: u64"
  have a: "unat ?a = 0xA01000 + 4096 * unat i" using i by (intro unat_cluster_to_address) (simp add: WRAP_CLUSTER_def)
  then have b: "unat ?b = 0xA01000 + 4096 * unat i" using i by (simp add: unsigned_ucast_eq take_bit_nat_eq_self)
  have "unat (?b + 4096) = unat ?b + 4096" using b i by (subst unat_add_lt) simp_all
  then show ?thesis using b i by (simp add: usable_def const_vals word_le_nat_alt)
qed

lemma boot_wf: "wf_table boot_mem"
  by (simp add: wf_table_def is_block_def boot_mem_def cluster_cluster_init)

lemma boot_room: "room 30175 boot_mem"
  unfolding room_def
proof (intro exI conjI)
  show "0 + 30175 \<le> WRAP_CLUSTER" by (simp add: WRAP_CLUSTER_def)
  have "cluster boot_mem (of_nat j) = 0" if "j < 30175" for j
  proof -
    have "unat (of_nat j :: usize) = j" using that by (intro unat_of_nat_lt) simp
    then have "usable \<lparr>mm_base = 0x100000, mm_len = 0x7EE0000, mm_class = 1, mm_acpi = 0\<rparr> (of_nat j)" "(of_nat j :: usize) < CLUSTER_COUNT"
      using that boot_usable[of "of_nat j"] by (simp_all add: cluster_bound)
    then show ?thesis by (auto simp: boot_mem_def cluster_cluster_init boot_map_def)
  qed
  then show "run_of (free_cluster boot_mem) 0 30175" by (simp add: run_of_def free_cluster_def)
qed

section \<open>Properties\<close>

text \<open>
  C1. Allocation: a granted request yields a block that was not live before, is as large as
  requested and at most one cluster larger, is zeroed, and leaves every other live block as it
  was: live, with the same size and the same contents. The table stays well-formed.
\<close>

theorem alloc_correct:
  assumes "wf_table m" and "alloc m sz = (r, m')" and "block_fits r sz"
  shows "wf_table m' \<and> \<not> live m r \<and> live m' r \<and>
    unat sz \<le> unat (alloc_size m' r) \<and> unat (alloc_size m' r) < unat sz + 4096 \<and>
    (\<forall>i. unat i < unat (alloc_size m' r) \<longrightarrow> m' (r + i) = 0) \<and>
    (\<forall>p. live m p \<longrightarrow> live m' p \<and> alloc_size m' p = alloc_size m p \<and>
       (\<forall>i. unat i < unat (alloc_size m p) \<longrightarrow> m' (p + i) = m (p + i)))"
proof -
  obtain n where took: "took m n (clusters_needed sz) r m'" by (rule alloc_took[OF assms(2,3)])
  note size = took_size[OF assms(1) took]
  have zero: "m' (r + i) = 0" if i: "unat i < 4096 * clusters_needed sz" for i
  proof -
    have "unat (r + i) = unat r + unat i"
      using i assms(3) by (intro unat_add_lt) (simp add: block_fits_def)
    then have "\<not> in_table (r + i)"
      using assms(3) by (simp add: in_table_def block_fits_def word_le_nat_alt)
    then show ?thesis using i took by (simp add: took_def)
  qed
  have "live m p \<Longrightarrow> is_block p \<and> p \<noteq> r" for p
    using took_fresh[OF assms(1) took] by (auto simp: live_def)
  then show ?thesis
    using took_wf[OF assms(1) took] took_fresh[OF assms(1) took] took_live[OF took] zero
      took_size_other[OF took] took_keeps_block(1)[OF assms(1) _ took] assms(3)
    by (auto simp: size clusters_needed_def block_fits_def)
qed

lemma wf_table_zero: "wf_table (\<lambda>_. 0)"
  by (simp add: wf_table_def cluster_def read_usize_def is_block_def)

lemma alloc_zero_5000: "fst (alloc (\<lambda>_. 0) 5000) = 0xA01000"
  by (simp add: alloc_def cluster_scan.simps cluster_def read_usize_def const_vals Let_def
      cluster_to_address_def)

theorem alloc_correct_witness:
  "live (snd (alloc (\<lambda>_. 0) 5000)) 0xA01000 \<and> snd (alloc (\<lambda>_. 0) 5000) 0xA01010 = 0"
proof -
  have fits: "block_fits 0xA01000 5000"
    by (simp add: block_fits_def clusters_needed_def)
  have "alloc (\<lambda>_. 0) 5000 = (0xA01000, snd (alloc (\<lambda>_. 0) 5000))"
    using alloc_zero_5000 by (metis prod.collapse)
  note a = alloc_correct[OF wf_table_zero this fits]
  then have "unat (0x10 :: usize) < unat (alloc_size (snd (alloc (\<lambda>_. 0) 5000)) 0xA01000)" by simp
  with a have "snd (alloc (\<lambda>_. 0) 5000) (0xA01000 + 0x10) = 0" by blast
  with a show ?thesis by simp
qed

text \<open>
  C22. Release undoes allocation: after a granted request, releasing the block gives back exactly
  the cluster table there was before.
\<close>

theorem unalloc_alloc:
  assumes "wf_table m" and "alloc m sz = (r, m')" and "block_fits r sz"
  shows "cluster (unalloc m' r) i = cluster m i"
proof -
  obtain n where took: "took m n (clusters_needed sz) r m'" by (rule alloc_took[OF assms(2,3)])
  have "cluster m i \<noteq> r"
    using took_fresh[OF assms(1) took] took_head(2)[OF took]
    by (auto simp: live_def cluster_def is_block_def split: if_splits)
  then show ?thesis
    using took took_head(2)[OF took] took_wf[OF assms(1) took]
    by (auto simp: cluster_unalloc took_def)
qed

theorem unalloc_alloc_witness:
  "cluster (unalloc (snd (alloc (\<lambda>_. 0) 5000)) 0xA01000) 1 = 0"
proof -
  have "alloc (\<lambda>_. 0) 5000 = (0xA01000, snd (alloc (\<lambda>_. 0) 5000))"
    using alloc_zero_5000 by (metis prod.collapse)
  from unalloc_alloc[OF wf_table_zero this, of 1] show ?thesis
    by (simp add: block_fits_def clusters_needed_def cluster_def read_usize_def)
qed

text \<open>
  C20. First fit, on the whole table. When the table has a free run that is long enough,
  \<^verbatim>\<open>alloc\<close> answers with the address of the lowest one: a block inside the address space if the run ends
  below cluster 1046015, but, if every free run that long starts beyond, an address below the data area,
  which wraps around to the memory of the kernel and is even 0 for cluster 1046015. When there is no
  such run it answers 0 and leaves memory untouched.
\<close>

theorem alloc_complete:
  assumes "0 < sz" and "clusters_needed sz < 0x100000"
  shows "(\<forall>n. first_run m (clusters_needed sz) n \<longrightarrow> fst (alloc m sz) = cluster_to_address (of_nat n)
      \<and> (n + clusters_needed sz \<le> WRAP_CLUSTER \<longrightarrow>
           block_fits (fst (alloc m sz)) sz \<and> unat (fst (alloc m sz)) = unat DATA_BASE + 4096 * n)
      \<and> (WRAP_CLUSTER \<le> n \<longrightarrow> unat (fst (alloc m sz)) = 4096 * (n - WRAP_CLUSTER)))
    \<and> ((\<nexists>n. first_run m (clusters_needed sz) n) \<longrightarrow> alloc m sz = (0, m))"
proof (intro conjI allI impI)
  let ?k = "clusters_needed sz"
  fix n assume n: "first_run m ?k n"
  show r: "fst (alloc m sz) = cluster_to_address (of_nat n)" by (rule alloc_first_fit(1)[OF assms n])
  have k: "n + ?k \<le> 0x100000" "0 < ?k" using n clusters_needed_pos[OF assms(1)] by (simp_all add: first_run_def)
  have u: "unat (of_nat n :: usize) = n" using k by (intro unat_of_nat_lt) simp
  show low: "unat (fst (alloc m sz)) = unat DATA_BASE + 4096 * n" if "n + ?k \<le> WRAP_CLUSTER"
    using that k(2) u unat_cluster_to_address[of "of_nat n"] by (simp add: r)
  show "block_fits (fst (alloc m sz)) sz" if "n + ?k \<le> WRAP_CLUSTER"
    using low[OF that] that assms(1) by (simp add: block_fits_def word_le_nat_alt WRAP_CLUSTER_def)
  show "unat (fst (alloc m sz)) = 4096 * (n - WRAP_CLUSTER)" if "WRAP_CLUSTER \<le> n"
    using that k u cluster_to_address_wraps[of "of_nat n"] by (simp add: r cluster_bound)
next
  show "alloc m sz = (0, m)" if "\<nexists>n. first_run m (clusters_needed sz) n" by (rule alloc_first_fit(2)[OF assms that])
qed

theorem alloc_complete_witness: "fst (alloc boot_mem 5000) = 0xA01000 \<and> block_fits (fst (alloc boot_mem 5000)) 5000"
proof -
  have k: "clusters_needed 5000 = 2" by (simp add: clusters_needed_def)
  obtain s where "s + 30175 \<le> WRAP_CLUSTER" "run_of (free_cluster boot_mem) s 30175"
    using boot_room by (auto simp: room_def)
  have "cluster boot_mem 0 = 0" "cluster boot_mem 1 = 0"
    using boot_usable[of 0] boot_usable[of 1] by (auto simp: boot_mem_def cluster_cluster_init boot_map_def const_vals)
  then have "first_run boot_mem 2 0"
    by (auto simp: first_run_def run_of_def free_cluster_def numeral_2_eq_2 less_Suc_eq)
  then show ?thesis
    using alloc_complete[of 5000 boot_mem] by (auto simp: k WRAP_CLUSTER_def cluster_to_address_def const_vals)
qed

text \<open>
  Aligned allocation returns a block whose address is a multiple of the alignment, and is
  otherwise an allocation.
\<close>

theorem alloc_aligned_correct:
  assumes "wf_table m" and "alloc_aligned m sz align = Some (r, m')" and "block_fits r sz"
  shows "r mod align = 0 \<and> wf_table m' \<and> \<not> live m r \<and> live m' r \<and> unat sz \<le> unat (alloc_size m' r)"
proof -
  obtain n where took: "took m n (clusters_needed sz) r m'" and "r mod align = 0"
    by (rule alloc_aligned_took[OF assms(2,3)])
  then show ?thesis
    using took_wf[OF assms(1) took] took_fresh[OF assms(1) took] took_live[OF took]
      took_size[OF assms(1) took] by (simp add: clusters_needed_def)
qed

lemma alloc_aligned_zero: "map_option fst (alloc_aligned (\<lambda>_. 0) 100 0x2000) = Some 0xA02000"
  by (simp add: alloc_aligned_def cluster_scan.simps cluster_def read_usize_def const_vals Let_def
      cluster_to_address_def)

theorem alloc_aligned_correct_witness:
  "\<exists>m'. alloc_aligned (\<lambda>_. 0) 100 0x2000 = Some (0xA02000, m') \<and> live m' 0xA02000"
proof -
  obtain m' where a: "alloc_aligned (\<lambda>_. 0) 100 0x2000 = Some (0xA02000, m')"
    using alloc_aligned_zero by auto
  from alloc_aligned_correct[OF wf_table_zero this] have "live m' 0xA02000"
    by (simp add: block_fits_def clusters_needed_def)
  with a show ?thesis by blast
qed

text \<open>
  C18. Growing a block moves it: the new block was not live before and is as large as requested, it
  holds the bytes of the old one and zeros after them, the old one is no longer live, and every
  other live block stays live with the same size and the same bytes.
\<close>

theorem realloc_correct:
  assumes "wf_table m" and "live m p" and "alloc_size m p < sz" and "realloc m p sz = (r, m')"
    and "block_fits r sz"
  shows "wf_table m' \<and> \<not> live m r \<and> (\<forall>q. live m' q \<longleftrightarrow> q = r \<or> q \<noteq> p \<and> live m q) \<and>
    unat sz \<le> unat (alloc_size m' r) \<and> unat (alloc_size m' r) < unat sz + 4096 \<and>
    (\<forall>i < alloc_size m' r. m' (r + i) = (if i < alloc_size m p then m (p + i) else 0)) \<and>
    (\<forall>q. live m q \<and> q \<noteq> p \<longrightarrow> alloc_size m' q = alloc_size m q
       \<and> (\<forall>i < alloc_size m q. m' (q + i) = m (q + i)))"
proof -
  note R = realloc_move[OF assms]
  have "0 < unat sz" using assms(3) by (simp add: word_less_nat_alt)
  then have "unat sz \<le> unat (alloc_size m' r)" "unat (alloc_size m' r) < unat sz + 4096"
    by (simp_all add: R(4) clusters_needed_def)
  moreover have "m' (r + i) = (if i < alloc_size m p then m (p + i) else 0)" if "i < alloc_size m' r" for i
    using that by (intro R(5)) (simp add: word_less_nat_alt R(4))
  ultimately show ?thesis using R(1,2,3,6,7) by (auto simp: word_less_nat_alt)
qed

lemma cluster_zero: "cluster (\<lambda>_. 0) j = 0"
  by (simp add: cluster_def read_usize_def)

text \<open>Memory with one live block of one cluster.\<close>

lemma one_block:
  obtains m where "wf_table m" "live m 0xA01000" "alloc_size m 0xA01000 = 4096"
    "\<And>j. cluster m j = (if j = 0 then 0xA01000 else 0)"
proof -
  define m where "m = snd (alloc (\<lambda>_. 0) 100)"
  have "fst (alloc (\<lambda>_. 0) 100) = 0xA01000"
    by (simp add: alloc_def cluster_scan.simps cluster_zero const_vals Let_def cluster_to_address_def)
  then have a: "alloc (\<lambda>_. 0) 100 = (0xA01000, m)" by (metis m_def prod.collapse)
  have fits: "block_fits 0xA01000 100" by (simp add: block_fits_def clusters_needed_def)
  obtain n where took: "took (\<lambda>_. 0) n (clusters_needed 100) 0xA01000 m" by (rule alloc_took[OF a fits])
  have "address_to_cluster 0xA01000 = n" by (rule took_head[OF took])
  then have n: "n = 0" by (simp add: address_to_cluster_def const_vals)
  have k: "clusters_needed 100 = 1" by (simp add: clusters_needed_def)
  have "cluster m j = (if j = 0 then 0xA01000 else 0)" for j
    using took by (simp add: took_def n k cluster_zero unat_eq_zero)
  moreover have "wf_table m" using took_wf[OF wf_table_zero took] .
  moreover have "live m 0xA01000" using took_live[OF took] by simp
  moreover have "alloc_size m 0xA01000 = 4096"
    by (rule word_eq_unatI) (simp add: took_size[OF wf_table_zero took] k)
  ultimately show thesis using that by blast
qed

theorem realloc_correct_witness:
  "\<exists>m m'. live m 0xA01000 \<and> realloc m 0xA01000 5000 = (0xA02000, m') \<and> live m' 0xA02000 \<and>
     \<not> live m' 0xA01000 \<and> m' 0xA02000 = m 0xA01000"
proof -
  obtain m where m: "wf_table m" "live m 0xA01000" "alloc_size m 0xA01000 = 4096"
    "\<And>j. cluster m j = (if j = 0 then 0xA01000 else 0)" by (rule one_block) blast
  define m' where "m' = snd (realloc m 0xA01000 5000)"
  have "fst (alloc m 5000) = 0xA02000"
    by (simp add: alloc_def cluster_scan.simps m(4) const_vals Let_def cluster_to_address_def)
  then have "fst (realloc m 0xA01000 5000) = 0xA02000"
    by (auto simp: realloc_def Let_def m(3) split: prod.split)
  then have re: "realloc m 0xA01000 5000 = (0xA02000, m')" by (metis m'_def prod.collapse)
  have "block_fits 0xA02000 5000" by (simp add: block_fits_def clusters_needed_def)
  moreover have "alloc_size m 0xA01000 < 5000" by (simp add: m(3))
  ultimately have rc: "(\<forall>q. live m' q \<longleftrightarrow> q = 0xA02000 \<or> q \<noteq> 0xA01000 \<and> live m q)"
      "unat (5000 :: usize) \<le> unat (alloc_size m' 0xA02000)"
      "\<forall>i < alloc_size m' 0xA02000. m' (0xA02000 + i) = (if i < 4096 then m (0xA01000 + i) else 0)"
    using realloc_correct[OF m(1,2) _ re] by (simp_all add: m(3))
  have "0 < alloc_size m' 0xA02000" using rc(2) by (simp add: word_less_nat_alt)
  then have "m' (0xA02000 + 0) = m (0xA01000 + 0)" using rc(3) by (auto dest!: spec[of _ 0])
  then have "live m' 0xA02000 \<and> \<not> live m' 0xA01000 \<and> m' 0xA02000 = m 0xA01000"
    using rc(1) by simp
  with m(2) re show ?thesis by blast
qed

text \<open>
  Any number of granted requests yields pairwise distinct blocks, none of them live before, and
  releasing them all, in any later state of the table reached that way, leaves exactly the blocks that
  were live at the start.
\<close>

theorem alloc_many:
  assumes "wf_table m" and "acquire_all alloc m szs = (ps, m')" and "list_all2 block_fits ps szs"
  shows "distinct ps \<and> (\<forall>p \<in> set ps. \<not> live m p \<and> live m' p) \<and>
    (\<forall>q. live (release_all unalloc m' ps) q \<longleftrightarrow> live m q)"
  using mem_alloc.acquire_all_spec[OF assms] mem_alloc.release_all_acquire_all[OF assms] by blast

theorem alloc_many_witness:
  "\<exists>m'. acquire_all alloc (\<lambda>_. 0) [5000] = ([0xA01000], m') \<and> live m' 0xA01000"
proof -
  define m' where "m' = snd (alloc (\<lambda>_. 0) 5000)"
  have "alloc (\<lambda>_. 0) 5000 = (0xA01000, m')"
    using alloc_zero_5000 by (metis m'_def prod.collapse)
  then have a: "acquire_all alloc (\<lambda>_. 0) [5000] = ([0xA01000], m')" by simp
  from alloc_many[OF wf_table_zero this] have "live m' 0xA01000"
    by (simp add: block_fits_def clusters_needed_def)
  with a show ?thesis by blast
qed

text \<open>
  The usage counters account for every allocation: what \<^verbatim>\<open>memory_used\<close> gains is
  what \<^verbatim>\<open>memory_free\<close> loses, namely the size of the block.
\<close>

theorem alloc_accounting:
  assumes "wf_table m" and "alloc m sz = (r, m')" and "block_fits r sz"
  shows "memory_used m' = memory_used m + alloc_size m' r \<and> memory_free m' + alloc_size m' r = memory_free m"
proof -
  obtain n where took: "took m n (clusters_needed sz) r m'" by (rule alloc_took[OF assms(2,3)])
  have "unat (of_nat (clusters_needed sz) * CLUSTER_SIZE) = 4096 * clusters_needed sz"
    using assms(3) unat_times_CLUSTER_SIZE[of "of_nat (clusters_needed sz)"]
    by (simp add: block_fits_def unat_of_nat_lt word_le_nat_alt)
  then have "alloc_size m' r = of_nat (clusters_needed sz) * CLUSTER_SIZE"
    using took_size[OF assms(1) took] by (intro word_eq_unatI) simp
  then show ?thesis using took_accounting[OF took] by simp
qed

theorem alloc_accounting_witness:
  "\<exists>m'. memory_used m' = memory_used (\<lambda>_. 0) + alloc_size m' 0xA01000"
proof -
  have "alloc (\<lambda>_. 0) 5000 = (0xA01000, snd (alloc (\<lambda>_. 0) 5000))"
    using alloc_zero_5000 by (metis prod.collapse)
  from alloc_accounting[OF wf_table_zero this] show ?thesis
    by (auto simp: block_fits_def clusters_needed_def)
qed

text \<open>
  Initialisation marks a cluster free exactly when a usable entry of the BIOS memory map covers
  its address, and absent otherwise. On the 32-bit build the addresses of the last 2561 clusters wrap
  around, so cluster 1046015 is the memory at address 0: it is marked free by an ordinary map whose first
  entry is the low memory below \<^verbatim>\<open>0x9FC00\<close>.
\<close>

theorem cluster_init_table:
  "(\<forall>i < CLUSTER_COUNT. cluster (cluster_init es m) i =
      (if \<exists>e \<in> set es. usable e i then 0 else 0xFFFFFFFF)) \<and>
   cluster_to_address 1046015 = 0 \<and>
   cluster (cluster_init [\<lparr>mm_base = 0, mm_len = 0x9FC00, mm_class = 1, mm_acpi = 0\<rparr>] m) 1046015 = 0"
proof -
  note cluster_cluster_init
  moreover have "cluster_to_address 1046015 = 0"
    by (simp add: cluster_to_address_def const_vals)
  moreover have "usable \<lparr>mm_base = 0, mm_len = 0x9FC00, mm_class = 1, mm_acpi = 0\<rparr> 1046015"
    by (simp add: usable_def cluster_to_address_def const_vals)
  ultimately show ?thesis by (simp add: const_vals)
qed

theorem cluster_init_table_witness:
  "cluster (cluster_init [\<lparr>mm_base = 0x100000, mm_len = 0x1000000, mm_class = 1, mm_acpi = 0\<rparr>] (\<lambda>_. 0)) 3 = 0"
proof -
  have "usable \<lparr>mm_base = 0x100000, mm_len = 0x1000000, mm_class = 1, mm_acpi = 0\<rparr> 3"
    by (simp add: usable_def cluster_to_address_def const_vals)
  moreover have "(3 :: usize) < CLUSTER_COUNT" by (simp add: const_vals)
  ultimately show ?thesis
    using cluster_init_table[of "[\<lparr>mm_base = 0x100000, mm_len = 0x1000000, mm_class = 1, mm_acpi = 0\<rparr>]" "\<lambda>_. 0"]
    by auto
qed

end
