(* ===== verification/Paging.thy ===== *)
theory Paging
  imports Memory
begin

text \<open>
  The kernel's page table, \<^verbatim>\<open>kernel/arch/x86/paging.rs\<close> (\<^verbatim>\<open>Page\<close>): one
  word per 4 KiB page of the address space, in the physical memory from
  \<^verbatim>\<open>PAGE_TABLES\<close> on, right below the cluster table. Flushing the translation cache has no
  effect on memory and is left out.
\<close>

section \<open>Definitions\<close>

definition PF_PRESENT :: usize where [redox_consts]: "PF_PRESENT = 1"
definition PF_WRITE :: usize where [redox_consts]: "PF_WRITE = push_bit 1 1"
definition PF_USER :: usize where [redox_consts]: "PF_USER = push_bit 2 1"
definition PF_WRITE_THROUGH :: usize where [redox_consts]: "PF_WRITE_THROUGH = push_bit 3 1"
definition PF_CACHE_DISABLE :: usize where [redox_consts]: "PF_CACHE_DISABLE = push_bit 4 1"
definition PF_ACCESSED :: usize where [redox_consts]: "PF_ACCESSED = push_bit 5 1"
definition PF_DIRTY :: usize where [redox_consts]: "PF_DIRTY = push_bit 6 1"
definition PF_SIZE :: usize where [redox_consts]: "PF_SIZE = push_bit 7 1"
definition PF_GLOBAL :: usize where [redox_consts]: "PF_GLOBAL = push_bit 8 1"
definition PF_ALLOC :: usize where [redox_consts]: "PF_ALLOC = push_bit 9 1"
definition PF_EXEC :: usize where [redox_consts]: "PF_EXEC = push_bit 10 1"
definition PF_STACK :: usize where [redox_consts]: "PF_STACK = push_bit 11 1"
definition PF_ALL :: usize where [redox_consts]: "PF_ALL = 0xFFF"
definition PF_NONE :: usize where [redox_consts]: "PF_NONE = 0xFFFFF000"

text \<open>A page is given by its virtual address.\<close>

definition entry_address :: "usize \<Rightarrow> usize" where
  "entry_address virtual_address =
     (let page = virtual_address div PAGE_SIZE;
          table = page div PAGE_TABLE_SIZE;
          entry = page mod PAGE_TABLE_SIZE
      in PAGE_TABLES + (table * PAGE_TABLE_SIZE + entry) * PAGE_ENTRY_SIZE)"

definition phys_addr :: "mem \<Rightarrow> usize \<Rightarrow> usize" where
  "phys_addr m va = read_usize m (entry_address va) AND PF_NONE"

definition virt_addr :: "usize \<Rightarrow> usize" where
  "virt_addr va = va AND PF_NONE"

definition map_kernel_read :: "mem \<Rightarrow> usize \<Rightarrow> usize \<Rightarrow> mem" where
  "map_kernel_read m va pa = write_usize m (entry_address va) ((pa AND PF_NONE) OR PF_PRESENT)"

definition map_kernel_write :: "mem \<Rightarrow> usize \<Rightarrow> usize \<Rightarrow> mem" where
  "map_kernel_write m va pa =
     write_usize m (entry_address va) ((pa AND PF_NONE) OR PF_WRITE OR PF_PRESENT)"

definition map_user_read :: "mem \<Rightarrow> usize \<Rightarrow> usize \<Rightarrow> mem" where
  "map_user_read m va pa =
     write_usize m (entry_address va) ((pa AND PF_NONE) OR PF_USER OR PF_PRESENT)"

definition map_user_write :: "mem \<Rightarrow> usize \<Rightarrow> usize \<Rightarrow> mem" where
  "map_user_write m va pa =
     write_usize m (entry_address va) ((pa AND PF_NONE) OR PF_USER OR PF_WRITE OR PF_PRESENT)"

definition page_unmap :: "mem \<Rightarrow> usize \<Rightarrow> mem" where
  "page_unmap m va = write_usize m (entry_address va) 0"

text \<open>
  \<^verbatim>\<open>Page::init\<close>: every directory entry points at its table, every page is mapped to
  itself. The final assembly loads the directory into \<^verbatim>\<open>cr3\<close> and turns paging on.
\<close>

function init_table :: "mem \<Rightarrow> usize \<Rightarrow> usize \<Rightarrow> mem" where
  "init_table m table_i entry_i =
     (if entry_i < PAGE_TABLE_SIZE then
        let addr = (table_i * PAGE_TABLE_SIZE + entry_i) * PAGE_SIZE
        in init_table (map_kernel_write m addr addr) table_i (entry_i + 1)
      else m)"
  by pat_completeness auto
termination
  by (relation "measure (\<lambda>(m, t, e). unat PAGE_TABLE_SIZE - unat e)") (auto simp: while_up_measure)

function init_tables :: "mem \<Rightarrow> usize \<Rightarrow> mem" where
  "init_tables m table_i =
     (if table_i < PAGE_TABLE_SIZE then
        init_tables
          (init_table
            (write_usize m (PAGE_DIRECTORY + table_i * PAGE_ENTRY_SIZE)
               ((PAGE_TABLES + table_i * PAGE_TABLE_SIZE * PAGE_ENTRY_SIZE) OR PF_USER OR PF_WRITE OR PF_PRESENT))
            table_i 0)
          (table_i + 1)
      else m)"
  by pat_completeness auto
termination
  by (relation "measure (\<lambda>(m, t). unat PAGE_TABLE_SIZE - unat t)") (auto simp: while_up_measure)

declare init_table.simps [simp del] init_tables.simps [simp del]

definition page_init :: "mem \<Rightarrow> mem" where
  "page_init m = init_tables m 0"

section \<open>The entry of a page\<close>

definition page_no :: "usize \<Rightarrow> nat" where
  "page_no va = unat va div 4096"

lemma page_vals: "PAGE_TABLES = 0x201000" "PAGE_DIRECTORY = 0x200000"
  by (simp_all add: redox_consts)

lemma page_no_bound: "page_no va < 0x100000"
  using unat_lt2p[of va] by (simp add: page_no_def less_mult_imp_div_less)

lemma unat_entry_address: "unat (entry_address va) = 0x201000 + 4 * page_no va"
proof -
  let ?p = "va div 4096" and ?k = "1024 :: usize"
  have "?p div ?k * ?k + ?p mod ?k = ?p"
    by (metis div_mult_mod_eq)
  then have "entry_address va = PAGE_TABLES + ?p * 4"
    by (simp only: entry_address_def Let_def PAGE_SIZE_def PAGE_TABLE_SIZE_def PAGE_ENTRY_SIZE_def)
  then have ea: "entry_address va = 0x201000 + ?p * 4"
    by (simp only: page_vals)
  moreover have "unat (?p * 4) = 4 * page_no va"
    using page_no_bound[of va] by (subst unat_mult_lt) (simp_all add: unat_div page_no_def)
  ultimately show ?thesis
    using page_no_bound[of va] by (subst ea) (simp add: unat_add_lt)
qed

lemma entries_disjoint:
  assumes "page_no a \<noteq> page_no b"
  shows "cells_disjoint (entry_address a) (entry_address b)"
  using assms page_no_bound[of a] page_no_bound[of b]
  by (auto simp: cells_disjoint_def word_le_nat_alt unat_diff_wrap unat_entry_address)

lemma entry_address_cong: "page_no a = page_no b \<Longrightarrow> entry_address a = entry_address b"
  by (rule word_eq_unatI) (simp add: unat_entry_address)

text \<open>The word the table holds for a page; a page is looked up by any of its addresses.\<close>

definition page_entry :: "mem \<Rightarrow> usize \<Rightarrow> usize" where
  "page_entry m va = read_usize m (entry_address va)"

lemma page_entry_write [mem_simps]:
  "page_entry (write_usize m (entry_address a) v) b = (if page_no a = page_no b then v else page_entry m b)"
  using entry_address_cong[of a b] entries_disjoint[of b a]
  by (auto simp: page_entry_def read_write_usize read_write_usize_disjoint)

text \<open>The page table area and what lies outside it.\<close>

definition in_pages :: "usize \<Rightarrow> bool" where
  "in_pages a \<longleftrightarrow> 0x201000 \<le> unat a \<and> unat a < 0x601000"

lemma entry_write_other: "\<not> in_pages x \<Longrightarrow> write_usize m (entry_address a) v x = m x"
proof (rule write_usize_other)
  assume "\<not> in_pages x"
  then show "4 \<le> x - entry_address a"
    using page_no_bound[of a] unat_lt2p[of x]
    by (auto simp: word_le_nat_alt unat_diff_wrap unat_entry_address in_pages_def)
qed

lemma page_writes_keep_table [mem_simps]:
  "cluster (write_usize m (entry_address a) v) n = cluster m n"
  by (rule cluster_cong) (rule entry_write_other, simp add: in_pages_def in_table_def)

text \<open>
  Flag bits lie in the low twelve bits, which the mask of the frame address removes.
\<close>

lemma frame_mask [simp]:
  assumes "f AND PF_NONE = 0"
  shows "((pa AND PF_NONE) OR f) AND PF_NONE = pa AND PF_NONE"
  using assms by (simp add: bit.conj_disj_distrib2 and.assoc)

lemma flags_masked:
  "PF_PRESENT AND PF_NONE = 0" "(PF_WRITE OR PF_PRESENT) AND PF_NONE = 0"
  "(PF_USER OR PF_PRESENT) AND PF_NONE = 0" "(PF_USER OR PF_WRITE OR PF_PRESENT) AND PF_NONE = 0"
  by (simp_all add: redox_consts)

lemma flags_kept:
  "((pa AND PF_NONE) OR f) AND PF_ALL = f AND PF_ALL"
  "PF_PRESENT AND PF_ALL = PF_PRESENT" "(PF_WRITE OR PF_PRESENT) AND PF_ALL = PF_WRITE OR PF_PRESENT"
  "(PF_USER OR PF_PRESENT) AND PF_ALL = PF_USER OR PF_PRESENT"
  "(PF_USER OR PF_WRITE OR PF_PRESENT) AND PF_ALL = PF_USER OR PF_WRITE OR PF_PRESENT"
  by (simp_all add: bit.conj_disj_distrib2 and.assoc redox_consts)

lemma PF_NONE_mask: "PF_NONE = NOT (mask 12)"
  by (simp add: PF_NONE_def mask_eq_exp_minus_1)

lemma page_base_mask: "of_nat (page_no va * 4096) AND PF_NONE = va AND PF_NONE"
proof -
  have "(of_nat (page_no va * 4096) :: usize) = of_nat (page_no va) * 4096"
    by simp
  also have "of_nat (page_no va) = drop_bit 12 va"
    using page_no_bound[of va]
    by (intro word_eq_unatI) (simp add: unat_of_nat_lt drop_bit_eq_div page_no_def unat_div)
  also have "drop_bit 12 va * 4096 = push_bit 12 (drop_bit 12 va)"
    by (simp add: push_bit_eq_mult)
  also have "\<dots> = va AND PF_NONE"
    unfolding PF_NONE_mask by (rule bit_word_eqI) (auto simp: bit_simps)
  finally show ?thesis by (simp add: and.assoc)
qed

lemmas page_ops = map_kernel_read_def map_kernel_write_def map_user_read_def map_user_write_def
  page_unmap_def

lemma phys_addr_entry: "phys_addr m va = page_entry m va AND PF_NONE"
  by (simp add: phys_addr_def page_entry_def)

section \<open>The identity mapping\<close>

lemma directory_write_keeps:
  assumes "t < PAGE_TABLE_SIZE"
  shows "page_entry (write_usize m (PAGE_DIRECTORY + t * PAGE_ENTRY_SIZE) v) va = page_entry m va"
proof -
  have t: "unat t < 1024" using assms by (simp add: redox_consts word_less_nat_alt)
  then have "unat (PAGE_DIRECTORY + t * PAGE_ENTRY_SIZE) = 0x200000 + 4 * unat t"
    by (simp add: page_vals PAGE_ENTRY_SIZE_def unat_add_lt unat_mult_lt)
  then have "cells_disjoint (entry_address va) (PAGE_DIRECTORY + t * PAGE_ENTRY_SIZE)"
    using t page_no_bound[of va]
    by (auto simp: cells_disjoint_def word_le_nat_alt unat_diff_wrap unat_entry_address)
  then show ?thesis by (simp add: page_entry_def read_write_usize_disjoint)
qed

text \<open>The virtual address of entry \<^term>\<open>e\<close> of table \<^term>\<open>t\<close>.\<close>

definition page_base :: "usize \<Rightarrow> usize \<Rightarrow> usize" where
  "page_base t e = (t * PAGE_TABLE_SIZE + e) * PAGE_SIZE"

lemma unat_page_base:
  assumes "unat t < 1024" and "unat e < 1024"
  shows "unat (page_base t e) = (unat t * 1024 + unat e) * 4096"
proof -
  have "unat (t * 1024) = unat t * 1024" using assms by (subst unat_mult_lt) simp_all
  then have "unat (t * 1024 + e) = unat t * 1024 + unat e" using assms by (subst unat_add_lt) simp_all
  then show ?thesis
    using assms unfolding page_base_def PAGE_TABLE_SIZE_def PAGE_SIZE_def by (subst unat_mult_lt) simp_all
qed

lemma page_no_base:
  "unat t < 1024 \<Longrightarrow> unat e < 1024 \<Longrightarrow> page_no (page_base t e) = unat t * 1024 + unat e"
  by (simp add: page_no_def unat_page_base)

lemma unat_of_page: "n < 0x100000 \<Longrightarrow> unat (of_nat n * 4096 :: usize) = n * 4096"
  by (subst unat_mult_lt) (simp_all add: unat_of_nat_lt)

lemma init_table_entry:
  assumes "e \<le> PAGE_TABLE_SIZE" and t: "t < PAGE_TABLE_SIZE"
  shows "page_entry (init_table m t e) va =
    (if unat t * 1024 + unat e \<le> page_no va \<and> page_no va < unat t * 1024 + 1024
     then (of_nat (page_no va * 4096) AND PF_NONE) OR PF_WRITE OR PF_PRESENT else page_entry m va)"
  using assms(1)
proof (induction arbitrary: m rule: word_up_induct)
  case stop
  then show ?case by (subst init_table.simps) (auto simp: PAGE_TABLE_SIZE_def)
next
  case (step e)
  have u: "unat t < 1024" "unat e < 1024"
    using step.hyps t by (simp_all add: PAGE_TABLE_SIZE_def word_less_nat_alt)
  have "unat (of_nat (page_no va) * 4096 :: usize) = unat (page_base t e)"
    if "page_no va = unat t * 1024 + unat e"
    unfolding unat_of_page[OF page_no_bound] using that u by (simp only: unat_page_base)
  then have eq: "of_nat (page_no va) * 4096 = page_base t e" if "page_no va = unat t * 1024 + unat e"
    using that by (blast intro: word_eq_unatI)
  have "init_table m t e = init_table (map_kernel_write m (page_base t e) (page_base t e)) t (e + 1)"
    using step.hyps by (subst init_table.simps) (simp add: page_base_def Let_def)
  then have "page_entry (init_table m t e) va =
    (if unat t * 1024 + Suc (unat e) \<le> page_no va \<and> page_no va < unat t * 1024 + 1024
     then (of_nat (page_no va * 4096) AND PF_NONE) OR PF_WRITE OR PF_PRESENT
     else if unat t * 1024 + unat e = page_no va
     then (page_base t e AND PF_NONE) OR PF_WRITE OR PF_PRESENT else page_entry m va)"
    using u by (simp only: step.IH unat_Suc_less[OF step.hyps] map_kernel_write_def page_entry_write page_no_base)
  moreover have "page_base t e = of_nat (page_no va * 4096)" if "unat t * 1024 + unat e = page_no va"
    using eq[OF that[symmetric]] by simp
  ultimately show ?case using u by (cases "unat t * 1024 + unat e = page_no va") (simp_all only:, auto)
qed

lemma init_tables_entry:
  assumes "t \<le> PAGE_TABLE_SIZE"
  shows "page_entry (init_tables m t) va =
    (if unat t * 1024 \<le> page_no va
     then (of_nat (page_no va * 4096) AND PF_NONE) OR PF_WRITE OR PF_PRESENT else page_entry m va)"
  using assms
proof (induction arbitrary: m rule: word_up_induct)
  case stop
  then show ?case
    using page_no_bound[of va] by (subst init_tables.simps) (simp add: PAGE_TABLE_SIZE_def)
next
  case (step t)
  have u: "unat t < 1024" using step.hyps by (simp add: PAGE_TABLE_SIZE_def word_less_nat_alt)
  show ?case
    using step.hyps u
    by (subst init_tables.simps)
       (auto simp: step.IH unat_Suc_less[OF step.hyps] init_table_entry directory_write_keeps)
qed

section \<open>Properties\<close>

text \<open>
  What an operation on the page of \<^term>\<open>va\<close> may do: give that page the frame address \<^term>\<open>frame\<close>
  with the rights \<^term>\<open>rights\<close>, seen from every address on it, and nothing else. The whole entry of every
  other page, every byte but the four of the entry, and the allocator's table stay as they were.
\<close>

definition sets_entry :: "mem \<Rightarrow> usize \<Rightarrow> usize \<Rightarrow> usize \<Rightarrow> mem \<Rightarrow> bool" where
  "sets_entry m va frame rights m' \<longleftrightarrow>
     (\<forall>vb. page_entry m' vb = (if page_no vb = page_no va then frame OR rights else page_entry m vb)) \<and>
     (\<forall>vb. page_no vb = page_no va \<longrightarrow> phys_addr m' vb = frame \<and> page_entry m' vb AND PF_ALL = rights) \<and>
     (\<forall>x. m' x \<noteq> m x \<longrightarrow> in_pages x \<and> x - entry_address va < 4) \<and>
     (\<forall>n. cluster m' n = cluster m n)"

lemma write_sets_entry:
  assumes "frame AND PF_NONE = frame" and "rights AND PF_NONE = 0" and "rights AND PF_ALL = rights"
  shows "sets_entry m va frame rights (write_usize m (entry_address va) (frame OR rights))"
  unfolding sets_entry_def
proof (intro conjI allI impI)
  let ?m = "write_usize m (entry_address va) (frame OR rights)"
  show e: "page_entry ?m vb = (if page_no vb = page_no va then frame OR rights else page_entry m vb)" for vb
    by (auto simp: page_entry_write)
  fix vb assume "page_no vb = page_no va"
  then have e': "page_entry ?m vb = (frame AND PF_NONE) OR rights" using e assms(1) by simp
  show "phys_addr ?m vb = frame" unfolding phys_addr_entry e' frame_mask[OF assms(2)] by (rule assms(1))
  show "page_entry ?m vb AND PF_ALL = rights" unfolding e' flags_kept(1) by (rule assms(3))
next
  fix x assume ne: "write_usize m (entry_address va) (frame OR rights) x \<noteq> m x"
  show "in_pages x" using ne entry_write_other by blast
  show "x - entry_address va < 4" using ne write_usize_other[of x "entry_address va" m "frame OR rights"] by (rule contrapos_np) simp
next
  show "cluster (write_usize m (entry_address va) (frame OR rights)) n = cluster m n" for n
    by (rule page_writes_keep_table)
qed

lemma map_sets_entry:
  assumes "rights AND PF_NONE = 0" and "rights AND PF_ALL = rights"
  shows "sets_entry m va (pa AND PF_NONE) rights (write_usize m (entry_address va) ((pa AND PF_NONE) OR rights))"
  by (rule write_sets_entry[OF _ assms]) (simp add: and.assoc)

text \<open>
  C34. The five page operations. Each gives exactly its page exactly its entry, the masked frame
  address with the requested rights, or for \<^verbatim>\<open>unmap\<close> an entry that is zero, so neither present nor mapped;
  every other page keeps its whole entry, no byte but those of the entry changes, and the cluster
  table, which lies right behind the page tables, is untouched.
\<close>

theorem page_map_correct:
  "sets_entry m va (pa AND PF_NONE) PF_PRESENT (map_kernel_read m va pa)
   \<and> sets_entry m va (pa AND PF_NONE) (PF_WRITE OR PF_PRESENT) (map_kernel_write m va pa)
   \<and> sets_entry m va (pa AND PF_NONE) (PF_USER OR PF_PRESENT) (map_user_read m va pa)
   \<and> sets_entry m va (pa AND PF_NONE) (PF_USER OR PF_WRITE OR PF_PRESENT) (map_user_write m va pa)
   \<and> sets_entry m va 0 0 (page_unmap m va)"
  using map_sets_entry[OF flags_masked(1) flags_kept(2), of m va pa]
    map_sets_entry[OF flags_masked(2) flags_kept(3), of m va pa]
    map_sets_entry[OF flags_masked(3) flags_kept(4), of m va pa]
    map_sets_entry[OF flags_masked(4) flags_kept(5), of m va pa] write_sets_entry[of 0 0 m va]
  by (simp add: page_ops)

text \<open>
  \<^verbatim>\<open>Page::init\<close> establishes the identity mapping: afterwards every one of the
  \<^term>\<open>2 ^ 20 :: nat\<close> pages is present, writable, reserved to the kernel, and translated
  to its own address.
\<close>

theorem page_init_identity:
  "phys_addr (page_init m) va = virt_addr va
   \<and> page_entry (page_init m) va AND PF_ALL = PF_WRITE OR PF_PRESENT"
proof -
  have base: "of_nat (page_no va * 4096) AND PF_NONE = va AND PF_NONE"
    by (rule page_base_mask)
  have "page_entry (page_init m) va = (va AND PF_NONE) OR PF_WRITE OR PF_PRESENT"
    unfolding page_init_def by (subst init_tables_entry) (simp_all only: base, simp_all)
  then show ?thesis by (simp add: phys_addr_entry virt_addr_def flags_masked flags_kept)
qed

end
