(* ===== verification/Segments.thy ===== *)
theory Segments
  imports Paging
begin

text \<open>
  The memory segments of a context, \<^verbatim>\<open>ContextMemory\<close> of
  \<^verbatim>\<open>kernel/arch/context.rs\<close>: mapping a segment page by page into user space when its
  context is switched in, restoring the kernel's identity mapping when it is switched out, and
  releasing its physical memory when it is dropped.
\<close>

section \<open>Definitions\<close>

record ContextMemory =
  physical_address :: usize
  virtual_address :: usize
  virtual_size :: usize
  writeable :: bool
  allocated :: bool

text \<open>\<^term>\<open>segment_pages s\<close> is the bound of both loops, \<^verbatim>\<open>(self.virtual_size + 4095) / 4096\<close>.\<close>

definition segment_pages :: "ContextMemory \<Rightarrow> usize" where
  "segment_pages s = (virtual_size s + 4095) div 4096"

function segment_map_loop :: "mem \<Rightarrow> ContextMemory \<Rightarrow> usize \<Rightarrow> mem" where
  "segment_map_loop m s i =
     (if i < segment_pages s then
        segment_map_loop
          (if writeable s
           then map_user_write m (virtual_address s + i * 4096) (physical_address s + i * 4096)
           else map_user_read m (virtual_address s + i * 4096) (physical_address s + i * 4096))
          s (i + 1)
      else m)"
  by pat_completeness auto
termination
  by (relation "measure (\<lambda>(m, s, i). unat (segment_pages s) - unat i)") (auto simp: while_up_measure)

definition segment_map :: "mem \<Rightarrow> ContextMemory \<Rightarrow> mem" where
  "segment_map m s = segment_map_loop m s 0"

function segment_unmap_loop :: "mem \<Rightarrow> ContextMemory \<Rightarrow> usize \<Rightarrow> mem" where
  "segment_unmap_loop m s i =
     (if i < segment_pages s then
        segment_unmap_loop
          (map_kernel_write m (virtual_address s + i * 4096) (virtual_address s + i * 4096)) s (i + 1)
      else m)"
  by pat_completeness auto
termination
  by (relation "measure (\<lambda>(m, s, i). unat (segment_pages s) - unat i)") (auto simp: while_up_measure)

definition segment_unmap :: "mem \<Rightarrow> ContextMemory \<Rightarrow> mem" where
  "segment_unmap m s = segment_unmap_loop m s 0"

declare segment_map_loop.simps [simp del] segment_unmap_loop.simps [simp del]

text \<open>\<^verbatim>\<open>Drop for ContextMemory\<close>.\<close>

definition segment_drop :: "mem \<Rightarrow> ContextMemory \<Rightarrow> mem" where
  "segment_drop m s = (if allocated s then unalloc m (physical_address s) else m)"

section \<open>The pages of a segment\<close>

text \<open>
  A segment lies in user space when it starts on a page and ends inside the address space.
\<close>

definition seg_ok :: "ContextMemory \<Rightarrow> bool" where
  "seg_ok s \<longleftrightarrow> unat (virtual_address s) mod 4096 = 0
     \<and> unat (virtual_address s) + unat (virtual_size s) + 4095 < 2 ^ 32"

definition seg_first :: "ContextMemory \<Rightarrow> nat" where
  "seg_first s = unat (virtual_address s) div 4096"

definition seg_count :: "ContextMemory \<Rightarrow> nat" where
  "seg_count s = (unat (virtual_size s) + 4095) div 4096"

text \<open>Whether an address lies on a page of the segment.\<close>

definition on_seg :: "ContextMemory \<Rightarrow> usize \<Rightarrow> bool" where
  "on_seg s va \<longleftrightarrow> seg_first s \<le> page_no va \<and> page_no va < seg_first s + seg_count s"

lemma unat_segment_pages:
  assumes "seg_ok s"
  shows "unat (segment_pages s) = seg_count s"
proof -
  have "unat (virtual_size s + 4095) = unat (virtual_size s) + 4095"
    using assms by (subst unat_add_lt) (simp_all add: seg_ok_def)
  then show ?thesis by (simp add: segment_pages_def seg_count_def unat_div)
qed

lemma seg_page_address:
  assumes "seg_ok s" and "i < segment_pages s"
  shows "page_no (virtual_address s + i * 4096) = seg_first s + unat i"
proof -
  have lt: "unat i < seg_count s"
    using assms by (simp add: word_less_nat_alt unat_segment_pages)
  then have "unat (virtual_address s) + unat i * 4096 < 2 ^ 32"
    using assms(1) unfolding seg_count_def seg_ok_def by linarith
  moreover have "unat (i * 4096) = unat i * 4096"
    using calculation by (subst unat_mult_lt) simp_all
  ultimately have "unat (virtual_address s + i * 4096) = unat (virtual_address s) + unat i * 4096"
    by (subst unat_add_lt) simp_all
  then show ?thesis
    using assms(1) by (simp add: page_no_def seg_first_def)
qed

text \<open>What the page table holds for a page of a mapped segment.\<close>

definition seg_entry :: "ContextMemory \<Rightarrow> usize \<Rightarrow> usize" where
  "seg_entry s va =
     ((physical_address s + of_nat (page_no va - seg_first s) * 4096) AND PF_NONE) OR
     (if writeable s then PF_USER OR PF_WRITE OR PF_PRESENT else PF_USER OR PF_PRESENT)"

lemma seg_entry_at:
  assumes "seg_first s + unat i = page_no va"
  shows "seg_entry s va = ((physical_address s + i * 4096) AND PF_NONE) OR
    (if writeable s then PF_USER OR PF_WRITE OR PF_PRESENT else PF_USER OR PF_PRESENT)"
proof -
  have "page_no va - seg_first s = unat i" using assms by linarith
  then show ?thesis by (simp only: seg_entry_def) simp
qed

lemma segment_map_loop_entry:
  assumes "seg_ok s" and "i \<le> segment_pages s"
  shows "page_entry (segment_map_loop m s i) va =
    (if seg_first s + unat i \<le> page_no va \<and> page_no va < seg_first s + seg_count s
     then seg_entry s va else page_entry m va)"
  using assms(2)
proof (induction arbitrary: m rule: word_up_induct)
  case stop
  then show ?case
    using unat_segment_pages[OF assms(1)] by (subst segment_map_loop.simps) auto
next
  case (step i)
  have lt: "unat i < seg_count s"
    using step.hyps assms(1) by (simp add: word_less_nat_alt unat_segment_pages)
  have e: "page_entry (if writeable s
      then map_user_write m (virtual_address s + i * 4096) (physical_address s + i * 4096)
      else map_user_read m (virtual_address s + i * 4096) (physical_address s + i * 4096)) va =
    (if seg_first s + unat i = page_no va then seg_entry s va else page_entry m va)"
    using seg_page_address[OF assms(1) step.hyps] seg_entry_at[of s i va]
    by (auto simp: page_ops page_entry_write)
  show ?case
    using step.hyps lt
    by (subst segment_map_loop.simps) (simp only: step.IH e unat_Suc_less[OF step.hyps] if_True, auto)
qed

lemma segment_map_entry:
  assumes "seg_ok s"
  shows "page_entry (segment_map m s) va = (if on_seg s va then seg_entry s va else page_entry m va)"
  using segment_map_loop_entry[OF assms, of 0] by (simp add: segment_map_def on_seg_def)

text \<open>The kernel's identity mapping of a page.\<close>

definition kernel_entry :: "usize \<Rightarrow> usize" where
  "kernel_entry va = (va AND PF_NONE) OR PF_WRITE OR PF_PRESENT"

lemma page_no_mask: "page_no a = page_no b \<Longrightarrow> a AND PF_NONE = b AND PF_NONE"
  using page_base_mask[of a] page_base_mask[of b] by simp

lemma segment_unmap_loop_entry:
  assumes "seg_ok s" and "i \<le> segment_pages s"
  shows "page_entry (segment_unmap_loop m s i) va =
    (if seg_first s + unat i \<le> page_no va \<and> page_no va < seg_first s + seg_count s
     then kernel_entry va else page_entry m va)"
  using assms(2)
proof (induction arbitrary: m rule: word_up_induct)
  case stop
  then show ?case
    using unat_segment_pages[OF assms(1)] by (subst segment_unmap_loop.simps) auto
next
  case (step i)
  have lt: "unat i < seg_count s"
    using step.hyps assms(1) by (simp add: word_less_nat_alt unat_segment_pages)
  have e: "page_entry (map_kernel_write m (virtual_address s + i * 4096) (virtual_address s + i * 4096)) va =
    (if seg_first s + unat i = page_no va then kernel_entry va else page_entry m va)"
    using seg_page_address[OF assms(1) step.hyps] page_no_mask[of "virtual_address s + i * 4096" va]
    by (auto simp: page_ops page_entry_write kernel_entry_def)
  show ?case
    using step.hyps lt
    by (subst segment_unmap_loop.simps) (simp only: step.IH e unat_Suc_less[OF step.hyps] if_True, auto)
qed

lemma segment_unmap_entry:
  assumes "seg_ok s"
  shows "page_entry (segment_unmap m s) va = (if on_seg s va then kernel_entry va else page_entry m va)"
  using segment_unmap_loop_entry[OF assms, of 0] by (simp add: segment_unmap_def on_seg_def)

text \<open>Mapping and unmapping write page table entries only, whatever the segment.\<close>

lemma segment_map_loop_other:
  assumes "\<not> in_pages a"
  shows "segment_map_loop m s i a = m a"
proof (induction m s i rule: segment_map_loop.induct)
  case (1 m s i)
  then show ?case
    by (subst segment_map_loop.simps) (simp add: page_ops entry_write_other[OF assms])
qed

lemma segment_unmap_loop_other:
  assumes "\<not> in_pages a"
  shows "segment_unmap_loop m s i a = m a"
proof (induction m s i rule: segment_unmap_loop.induct)
  case (1 m s i)
  then show ?case
    by (subst segment_unmap_loop.simps) (simp add: page_ops entry_write_other[OF assms])
qed

lemma segment_map_other: "\<not> in_pages a \<Longrightarrow> segment_map m s a = m a"
  by (simp add: segment_map_def segment_map_loop_other)

lemma segment_unmap_other: "\<not> in_pages a \<Longrightarrow> segment_unmap m s a = m a"
  by (simp add: segment_unmap_def segment_unmap_loop_other)

lemma in_table_not_in_pages: "in_table a \<Longrightarrow> \<not> in_pages a"
  by (simp add: in_pages_def in_table_def)

lemma segment_map_table [mem_simps]: "cluster (segment_map m s) n = cluster m n"
  by (rule cluster_cong) (rule segment_map_other, erule in_table_not_in_pages)

lemma segment_unmap_table [mem_simps]: "cluster (segment_unmap m s) n = cluster m n"
  by (rule cluster_cong) (rule segment_unmap_other, erule in_table_not_in_pages)

end
