(* ===== verification/Errors.thy ===== *)
theory Errors
  imports Prelude
begin

text \<open>
  The error numbers of \<^verbatim>\<open>crates/system/error.rs\<close>, their texts, and the encoding of a
  \<^verbatim>\<open>Result<usize>\<close> in one register (\<^verbatim>\<open>Error::mux\<close> and
  \<^verbatim>\<open>Error::demux\<close>), which the system call interface and the user-space schemes use.
\<close>

section \<open>Definitions\<close>

definition EPERM :: errno where [redox_consts]: "EPERM = 1"
definition ENOENT :: errno where [redox_consts]: "ENOENT = 2"
definition ESRCH :: errno where [redox_consts]: "ESRCH = 3"
definition EINTR :: errno where [redox_consts]: "EINTR = 4"
definition EIO :: errno where [redox_consts]: "EIO = 5"
definition ENXIO :: errno where [redox_consts]: "ENXIO = 6"
definition E2BIG :: errno where [redox_consts]: "E2BIG = 7"
definition ENOEXEC :: errno where [redox_consts]: "ENOEXEC = 8"
definition EBADF :: errno where [redox_consts]: "EBADF = 9"
definition ECHILD :: errno where [redox_consts]: "ECHILD = 10"
definition EAGAIN :: errno where [redox_consts]: "EAGAIN = 11"
definition ENOMEM :: errno where [redox_consts]: "ENOMEM = 12"
definition EACCES :: errno where [redox_consts]: "EACCES = 13"
definition EFAULT :: errno where [redox_consts]: "EFAULT = 14"
definition ENOTBLK :: errno where [redox_consts]: "ENOTBLK = 15"
definition EBUSY :: errno where [redox_consts]: "EBUSY = 16"
definition EEXIST :: errno where [redox_consts]: "EEXIST = 17"
definition EXDEV :: errno where [redox_consts]: "EXDEV = 18"
definition ENODEV :: errno where [redox_consts]: "ENODEV = 19"
definition ENOTDIR :: errno where [redox_consts]: "ENOTDIR = 20"
definition EISDIR :: errno where [redox_consts]: "EISDIR = 21"
definition EINVAL :: errno where [redox_consts]: "EINVAL = 22"
definition ENFILE :: errno where [redox_consts]: "ENFILE = 23"
definition EMFILE :: errno where [redox_consts]: "EMFILE = 24"
definition ENOTTY :: errno where [redox_consts]: "ENOTTY = 25"
definition ETXTBSY :: errno where [redox_consts]: "ETXTBSY = 26"
definition EFBIG :: errno where [redox_consts]: "EFBIG = 27"
definition ENOSPC :: errno where [redox_consts]: "ENOSPC = 28"
definition ESPIPE :: errno where [redox_consts]: "ESPIPE = 29"
definition EROFS :: errno where [redox_consts]: "EROFS = 30"
definition EMLINK :: errno where [redox_consts]: "EMLINK = 31"
definition EPIPE :: errno where [redox_consts]: "EPIPE = 32"
definition EDOM :: errno where [redox_consts]: "EDOM = 33"
definition ERANGE :: errno where [redox_consts]: "ERANGE = 34"
definition EDEADLK :: errno where [redox_consts]: "EDEADLK = 35"
definition ENAMETOOLONG :: errno where [redox_consts]: "ENAMETOOLONG = 36"
definition ENOLCK :: errno where [redox_consts]: "ENOLCK = 37"
definition ENOSYS :: errno where [redox_consts]: "ENOSYS = 38"
definition ENOTEMPTY :: errno where [redox_consts]: "ENOTEMPTY = 39"
definition ELOOP :: errno where [redox_consts]: "ELOOP = 40"
definition EWOULDBLOCK :: errno where [redox_consts]: "EWOULDBLOCK = 41"
definition ENOMSG :: errno where [redox_consts]: "ENOMSG = 42"
definition EIDRM :: errno where [redox_consts]: "EIDRM = 43"
definition ECHRNG :: errno where [redox_consts]: "ECHRNG = 44"
definition EL2NSYNC :: errno where [redox_consts]: "EL2NSYNC = 45"
definition EL3HLT :: errno where [redox_consts]: "EL3HLT = 46"
definition EL3RST :: errno where [redox_consts]: "EL3RST = 47"
definition ELNRNG :: errno where [redox_consts]: "ELNRNG = 48"
definition EUNATCH :: errno where [redox_consts]: "EUNATCH = 49"
definition ENOCSI :: errno where [redox_consts]: "ENOCSI = 50"
definition EL2HLT :: errno where [redox_consts]: "EL2HLT = 51"
definition EBADE :: errno where [redox_consts]: "EBADE = 52"
definition EBADR :: errno where [redox_consts]: "EBADR = 53"
definition EXFULL :: errno where [redox_consts]: "EXFULL = 54"
definition ENOANO :: errno where [redox_consts]: "ENOANO = 55"
definition EBADRQC :: errno where [redox_consts]: "EBADRQC = 56"
definition EBADSLT :: errno where [redox_consts]: "EBADSLT = 57"
definition EDEADLOCK :: errno where [redox_consts]: "EDEADLOCK = 58"
definition EBFONT :: errno where [redox_consts]: "EBFONT = 59"
definition ENOSTR :: errno where [redox_consts]: "ENOSTR = 60"
definition ENODATA :: errno where [redox_consts]: "ENODATA = 61"
definition ETIME :: errno where [redox_consts]: "ETIME = 62"
definition ENOSR :: errno where [redox_consts]: "ENOSR = 63"
definition ENONET :: errno where [redox_consts]: "ENONET = 64"
definition ENOPKG :: errno where [redox_consts]: "ENOPKG = 65"
definition EREMOTE :: errno where [redox_consts]: "EREMOTE = 66"
definition ENOLINK :: errno where [redox_consts]: "ENOLINK = 67"
definition EADV :: errno where [redox_consts]: "EADV = 68"
definition ESRMNT :: errno where [redox_consts]: "ESRMNT = 69"
definition ECOMM :: errno where [redox_consts]: "ECOMM = 70"
definition EPROTO :: errno where [redox_consts]: "EPROTO = 71"
definition EMULTIHOP :: errno where [redox_consts]: "EMULTIHOP = 72"
definition EDOTDOT :: errno where [redox_consts]: "EDOTDOT = 73"
definition EBADMSG :: errno where [redox_consts]: "EBADMSG = 74"
definition EOVERFLOW :: errno where [redox_consts]: "EOVERFLOW = 75"
definition ENOTUNIQ :: errno where [redox_consts]: "ENOTUNIQ = 76"
definition EBADFD :: errno where [redox_consts]: "EBADFD = 77"
definition EREMCHG :: errno where [redox_consts]: "EREMCHG = 78"
definition ELIBACC :: errno where [redox_consts]: "ELIBACC = 79"
definition ELIBBAD :: errno where [redox_consts]: "ELIBBAD = 80"
definition ELIBSCN :: errno where [redox_consts]: "ELIBSCN = 81"
definition ELIBMAX :: errno where [redox_consts]: "ELIBMAX = 82"
definition ELIBEXEC :: errno where [redox_consts]: "ELIBEXEC = 83"
definition EILSEQ :: errno where [redox_consts]: "EILSEQ = 84"
definition ERESTART :: errno where [redox_consts]: "ERESTART = 85"
definition ESTRPIPE :: errno where [redox_consts]: "ESTRPIPE = 86"
definition EUSERS :: errno where [redox_consts]: "EUSERS = 87"
definition ENOTSOCK :: errno where [redox_consts]: "ENOTSOCK = 88"
definition EDESTADDRREQ :: errno where [redox_consts]: "EDESTADDRREQ = 89"
definition EMSGSIZE :: errno where [redox_consts]: "EMSGSIZE = 90"
definition EPROTOTYPE :: errno where [redox_consts]: "EPROTOTYPE = 91"
definition ENOPROTOOPT :: errno where [redox_consts]: "ENOPROTOOPT = 92"
definition EPROTONOSUPPORT :: errno where [redox_consts]: "EPROTONOSUPPORT = 93"
definition ESOCKTNOSUPPORT :: errno where [redox_consts]: "ESOCKTNOSUPPORT = 94"
definition EOPNOTSUPP :: errno where [redox_consts]: "EOPNOTSUPP = 95"
definition EPFNOSUPPORT :: errno where [redox_consts]: "EPFNOSUPPORT = 96"
definition EAFNOSUPPORT :: errno where [redox_consts]: "EAFNOSUPPORT = 97"
definition EADDRINUSE :: errno where [redox_consts]: "EADDRINUSE = 98"
definition EADDRNOTAVAIL :: errno where [redox_consts]: "EADDRNOTAVAIL = 99"
definition ENETDOWN :: errno where [redox_consts]: "ENETDOWN = 100"
definition ENETUNREACH :: errno where [redox_consts]: "ENETUNREACH = 101"
definition ENETRESET :: errno where [redox_consts]: "ENETRESET = 102"
definition ECONNABORTED :: errno where [redox_consts]: "ECONNABORTED = 103"
definition ECONNRESET :: errno where [redox_consts]: "ECONNRESET = 104"
definition ENOBUFS :: errno where [redox_consts]: "ENOBUFS = 105"
definition EISCONN :: errno where [redox_consts]: "EISCONN = 106"
definition ENOTCONN :: errno where [redox_consts]: "ENOTCONN = 107"
definition ESHUTDOWN :: errno where [redox_consts]: "ESHUTDOWN = 108"
definition ETOOMANYREFS :: errno where [redox_consts]: "ETOOMANYREFS = 109"
definition ETIMEDOUT :: errno where [redox_consts]: "ETIMEDOUT = 110"
definition ECONNREFUSED :: errno where [redox_consts]: "ECONNREFUSED = 111"
definition EHOSTDOWN :: errno where [redox_consts]: "EHOSTDOWN = 112"
definition EHOSTUNREACH :: errno where [redox_consts]: "EHOSTUNREACH = 113"
definition EALREADY :: errno where [redox_consts]: "EALREADY = 114"
definition EINPROGRESS :: errno where [redox_consts]: "EINPROGRESS = 115"
definition ESTALE :: errno where [redox_consts]: "ESTALE = 116"
definition EUCLEAN :: errno where [redox_consts]: "EUCLEAN = 117"
definition ENOTNAM :: errno where [redox_consts]: "ENOTNAM = 118"
definition ENAVAIL :: errno where [redox_consts]: "ENAVAIL = 119"
definition EISNAM :: errno where [redox_consts]: "EISNAM = 120"
definition EREMOTEIO :: errno where [redox_consts]: "EREMOTEIO = 121"
definition EDQUOT :: errno where [redox_consts]: "EDQUOT = 122"
definition ENOMEDIUM :: errno where [redox_consts]: "ENOMEDIUM = 123"
definition EMEDIUMTYPE :: errno where [redox_consts]: "EMEDIUMTYPE = 124"
definition ECANCELED :: errno where [redox_consts]: "ECANCELED = 125"
definition ENOKEY :: errno where [redox_consts]: "ENOKEY = 126"
definition EKEYEXPIRED :: errno where [redox_consts]: "EKEYEXPIRED = 127"
definition EKEYREVOKED :: errno where [redox_consts]: "EKEYREVOKED = 128"
definition EKEYREJECTED :: errno where [redox_consts]: "EKEYREJECTED = 129"
definition EOWNERDEAD :: errno where [redox_consts]: "EOWNERDEAD = 130"
definition ENOTRECOVERABLE :: errno where [redox_consts]: "ENOTRECOVERABLE = 131"

definition STR_ERROR :: "string list" where
  "STR_ERROR =
    [''Success'',
     ''Operation not permitted'',
     ''No such file or directory'',
     ''No such process'',
     ''Interrupted system call'',
     ''I/O error'',
     ''No such device or address'',
     ''Argument list too long'',
     ''Exec format error'',
     ''Bad file number'',
     ''No child processes'',
     ''Try again'',
     ''Out of memory'',
     ''Permission denied'',
     ''Bad address'',
     ''Block device required'',
     ''Device or resource busy'',
     ''File exists'',
     ''Cross-device link'',
     ''No such device'',
     ''Not a directory'',
     ''Is a directory'',
     ''Invalid argument'',
     ''File table overflow'',
     ''Too many open files'',
     ''Not a typewriter'',
     ''Text file busy'',
     ''File too large'',
     ''No space left on device'',
     ''Illegal seek'',
     ''Read-only file system'',
     ''Too many links'',
     ''Broken pipe'',
     ''Math argument out of domain of func'',
     ''Math result not representable'',
     ''Resource deadlock would occur'',
     ''File name too long'',
     ''No record locks available'',
     ''Function not implemented'',
     ''Directory not empty'',
     ''Too many symbolic links encountered'',
     ''Operation would block'',
     ''No message of desired type'',
     ''Identifier removed'',
     ''Channel number out of range'',
     ''Level 2 not synchronized'',
     ''Level 3 halted'',
     ''Level 3 reset'',
     ''Link number out of range'',
     ''Protocol driver not attached'',
     ''No CSI structure available'',
     ''Level 2 halted'',
     ''Invalid exchange'',
     ''Invalid request descriptor'',
     ''Exchange full'',
     ''No anode'',
     ''Invalid request code'',
     ''Invalid slot'',
     ''Resource deadlock would occur'',
     ''Bad font file format'',
     ''Device not a stream'',
     ''No data available'',
     ''Timer expired'',
     ''Out of streams resources'',
     ''Machine is not on the network'',
     ''Package not installed'',
     ''Object is remote'',
     ''Link has been severed'',
     ''Advertise error'',
     ''Srmount error'',
     ''Communication error on send'',
     ''Protocol error'',
     ''Multihop attempted'',
     ''RFS specific error'',
     ''Not a data message'',
     ''Value too large for defined data type'',
     ''Name not unique on network'',
     ''File descriptor in bad state'',
     ''Remote address changed'',
     ''Can not access a needed shared library'',
     ''Accessing a corrupted shared library'',
     ''.lib section in a.out corrupted'',
     ''Attempting to link in too many shared libraries'',
     ''Cannot exec a shared library directly'',
     ''Illegal byte sequence'',
     ''Interrupted system call should be restarted'',
     ''Streams pipe error'',
     ''Too many users'',
     ''Socket operation on non-socket'',
     ''Destination address required'',
     ''Message too long'',
     ''Protocol wrong type for socket'',
     ''Protocol not available'',
     ''Protocol not supported'',
     ''Socket type not supported'',
     ''Operation not supported on transport endpoint'',
     ''Protocol family not supported'',
     ''Address family not supported by protocol'',
     ''Address already in use'',
     ''Cannot assign requested address'',
     ''Network is down'',
     ''Network is unreachable'',
     ''Network dropped connection because of reset'',
     ''Software caused connection abort'',
     ''Connection reset by peer'',
     ''No buffer space available'',
     ''Transport endpoint is already connected'',
     ''Transport endpoint is not connected'',
     ''Cannot send after transport endpoint shutdown'',
     ''Too many references: cannot splice'',
     ''Connection timed out'',
     ''Connection refused'',
     ''Host is down'',
     ''No route to host'',
     ''Operation already in progress'',
     ''Operation now in progress'',
     ''Stale NFS file handle'',
     ''Structure needs cleaning'',
     ''Not a XENIX named type file'',
     ''No XENIX semaphores available'',
     ''Is a named type file'',
     ''Remote I/O error'',
     ''Quota exceeded'',
     ''No medium found'',
     ''Wrong medium type'',
     ''Operation Canceled'',
     ''Required key not available'',
     ''Key has expired'',
     ''Key has been revoked'',
     ''Key was rejected by service'',
     ''Owner died'',
     ''State not recoverable'']"

text \<open>\<^verbatim>\<open>-error.errno as usize\<close> is the two's complement of the error number.\<close>

definition mux :: "usize result \<Rightarrow> usize" where
  "mux result = (case result of Inr v \<Rightarrow> v | Inl e \<Rightarrow> - e)"

definition demux :: "usize \<Rightarrow> usize result" where
  "demux v =
     (let e = - v in
      if 1 \<le> sint e \<and> sint e < int (length STR_ERROR) then Err e else Ok v)"

definition text_of :: "errno \<Rightarrow> string" where
  "text_of e =
     (if unat e < length STR_ERROR then STR_ERROR ! unat e else ''Unknown Error'')"

section \<open>Lemmas\<close>

lemma length_STR_ERROR [simp]: "length STR_ERROR = 132"
  by (simp add: STR_ERROR_def)

text \<open>An error number that has a text.\<close>

definition known_errno :: "errno \<Rightarrow> bool" where
  "known_errno e \<longleftrightarrow> 1 \<le> sint e \<and> sint e < 132"

lemma known_errno_numeral [simp]:
  "known_errno (numeral n) \<longleftrightarrow> 1 \<le> sint (numeral n :: errno) \<and> sint (numeral n :: errno) < 132"
  "known_errno 1"
  by (simp_all add: known_errno_def)

lemma mux_simps [simp]: "mux (Inr v) = v" "mux (Inl e) = - e"
  by (simp_all add: mux_def)

lemma demux_mux_Err: "known_errno e \<Longrightarrow> demux (mux (Err e)) = Err e"
  by (simp add: demux_def known_errno_def Let_def)

lemma demux_Err_iff: "demux v = Err e \<longleftrightarrow> v = - e \<and> known_errno e"
  by (auto simp: demux_def known_errno_def Let_def)

lemma demux_Ok_iff: "demux v = Ok w \<longleftrightarrow> w = v \<and> \<not> known_errno (- v)"
  by (auto simp: demux_def known_errno_def Let_def)

end
