(* ===== verification/Text.thy ===== *)
theory Text
  imports Errors
begin

text \<open>
  The kernel's string helpers: bounded slices (\<^verbatim>\<open>kernel/common/slice.rs\<close>), numbers
  (\<^verbatim>\<open>to_num.rs\<close>), host and port of an address (\<^verbatim>\<open>parse_ip.rs\<close>), path components
  (\<^verbatim>\<open>parse_path.rs\<close>) and URLs (\<^verbatim>\<open>kernel/fs/url.rs\<close>). A \<^verbatim>\<open>str\<close> is the list of
  the bytes of its UTF-8 encoding; every character the helpers look for is ASCII, so looking at
  bytes and looking at characters agree.
\<close>

section \<open>Slices\<close>

text \<open>
  The end points of a range argument: absent, or a value of an \<^verbatim>\<open>AsOption<usize>\<close> type,
  whose own \<^term>\<open>None\<close> makes \<^verbatim>\<open>bound\<close> panic (result \<^term>\<open>None\<close>).
\<close>

type_synonym end_point = "nat option option"

definition bound :: "nat \<Rightarrow> end_point \<Rightarrow> end_point \<Rightarrow> (nat \<times> nat) option" where
  "bound len a_start a_end =
     (case (case a_start of None \<Rightarrow> Some 0 | Some x \<Rightarrow> x) of
        None \<Rightarrow> None
      | Some s \<Rightarrow>
          (case (case a_end of None \<Rightarrow> Some len | Some x \<Rightarrow> x) of
             None \<Rightarrow> None
           | Some e \<Rightarrow>
               (let start = min s len; fin = min e len
                in Some (if start \<le> fin then (start, fin) else (0, 0)))))"

definition get_slice :: "'a list \<Rightarrow> end_point \<Rightarrow> end_point \<Rightarrow> 'a list option" where
  "get_slice xs a_start a_end =
     map_option (\<lambda>(s, e). take (e - s) (drop s xs)) (bound (length xs) a_start a_end)"

text \<open>The ranges \<^verbatim>\<open>a..b\<close>, \<^verbatim>\<open>a..\<close> and \<^verbatim>\<open>..b\<close> of plain numbers never panic.\<close>

definition slice_range :: "'a list \<Rightarrow> nat \<Rightarrow> nat \<Rightarrow> 'a list" where
  "slice_range xs a b = the (get_slice xs (Some (Some a)) (Some (Some b)))"

definition slice_from :: "'a list \<Rightarrow> nat \<Rightarrow> 'a list" where
  "slice_from xs a = the (get_slice xs (Some (Some a)) None)"

definition slice_to :: "'a list \<Rightarrow> nat \<Rightarrow> 'a list" where
  "slice_to xs b = the (get_slice xs None (Some (Some b)))"

lemma slice_from_eq [simp]: "slice_from xs a = drop a xs"
  by (auto simp: slice_from_def get_slice_def bound_def Let_def min_def)

lemma slice_to_eq [simp]: "slice_to xs b = take b xs"
  by (auto simp: slice_to_def get_slice_def bound_def Let_def min_def)

lemma slice_range_eq: "slice_range xs a b = (if a \<le> b then take (b - a) (drop a xs) else if length xs \<le> b then [] else [])"
  by (auto simp: slice_range_def get_slice_def bound_def Let_def min_def)

section \<open>Searching\<close>

text \<open>\<^verbatim>\<open>str::find\<close> and \<^verbatim>\<open>str::rfind\<close>: the position of the first or last matching character.\<close>

fun find_char :: "(char \<Rightarrow> bool) \<Rightarrow> string \<Rightarrow> nat option" where
  "find_char p [] = None"
| "find_char p (c # cs) = (if p c then Some 0 else map_option Suc (find_char p cs))"

definition rfind_char :: "(char \<Rightarrow> bool) \<Rightarrow> string \<Rightarrow> nat option" where
  "rfind_char p cs = map_option (\<lambda>i. length cs - 1 - i) (find_char p (rev cs))"

lemma find_char_None: "find_char p cs = None \<longleftrightarrow> (\<forall>c \<in> set cs. \<not> p c)"
  by (induction cs) auto

lemma find_char_Some:
  "find_char p cs = Some i \<longleftrightarrow> i < length cs \<and> p (cs ! i) \<and> (\<forall>j < i. \<not> p (cs ! j))"
proof (induction cs arbitrary: i)
  case (Cons c cs)
  then show ?case
    by (cases i) (auto simp: nth_Cons split: nat.splits)
qed simp

lemma find_char_set: "find_char (\<lambda>c. c = x) cs = Some i \<Longrightarrow> x \<in> set cs"
  by (auto simp: find_char_Some)

section \<open>Numbers\<close>

text \<open>The value of a digit character, or none.\<close>

definition digit_of :: "char \<Rightarrow> usize option" where
  "digit_of c =
     (if of_char CHR ''0'' \<le> (of_char c :: nat) \<and> (of_char c :: nat) \<le> of_char CHR ''9'' then
        Some (of_char c - of_char CHR ''0'')
      else if of_char CHR ''A'' \<le> (of_char c :: nat) \<and> (of_char c :: nat) \<le> of_char CHR ''Z'' then
        Some (of_char c - of_char CHR ''A'' + 10)
      else if of_char CHR ''a'' \<le> (of_char c :: nat) \<and> (of_char c :: nat) \<le> of_char CHR ''z'' then
        Some (of_char c - of_char CHR ''a'' + 10)
      else None)"

fun to_num_loop :: "usize \<Rightarrow> string \<Rightarrow> usize \<Rightarrow> usize" where
  "to_num_loop radix [] num = num"
| "to_num_loop radix (c # cs) num =
     (case digit_of c of
        None \<Rightarrow> num
      | Some digit \<Rightarrow> if digit \<ge> radix then num else to_num_loop radix cs (num * radix + digit))"

definition to_num_radix :: "string \<Rightarrow> usize \<Rightarrow> usize" where
  "to_num_radix s radix = (if radix = 0 then 0 else to_num_loop radix s 0)"

definition to_num_radix_signed :: "string \<Rightarrow> usize \<Rightarrow> isize" where
  "to_num_radix_signed s radix =
     (if s \<noteq> [] \<and> hd s = CHR ''-'' then - to_num_radix (slice_from s 1) radix
      else to_num_radix s radix)"

definition to_num :: "string \<Rightarrow> usize" where
  "to_num s = to_num_radix s 10"

definition to_num_signed :: "string \<Rightarrow> isize" where
  "to_num_signed s = to_num_radix_signed s 10"

section \<open>Hosts and ports\<close>

fun count_digits :: "string \<Rightarrow> nat" where
  "count_digits [] = 0"
| "count_digits (c # cs) =
     (if c \<in> set ''0123456789''
      then Suc (count_digits cs) else 0)"

definition parse_port :: "string \<Rightarrow> string option" where
  "parse_port s =
     (let b = 1 + count_digits s
      in get_slice s (Some (map_option Suc (find_char (\<lambda>c. c = CHR '':'') s))) (Some (Some b)))"

definition parse_host :: "string \<Rightarrow> string option" where
  "parse_host s =
     get_slice s None (Some (map_option Suc (find_char (\<lambda>c. c = CHR '':'' \<or> c = CHR ''/'') s)))"

section \<open>Paths\<close>

record path_state =
  path_parts :: "string list"
  path_new_part :: bool
  path_climb :: bool
  path_escape :: bool
  path_head :: string

text \<open>One character of the loop of \<^verbatim>\<open>parse_path\<close>.\<close>

definition parse_path_step :: "path_state \<Rightarrow> char \<Rightarrow> path_state" where
  "parse_path_step st c =
     (if path_escape st then st\<lparr>path_head := path_head st @ [c]\<rparr>
      else if c = CHR 0x5C then st\<lparr>path_climb := False, path_new_part := False, path_escape := True\<rparr>
      else if c = CHR ''.'' \<and> path_new_part st then st\<lparr>path_climb := True\<rparr>
      else if c = CHR ''.'' \<and> path_climb st then st\<lparr>path_parts := butlast (path_parts st)\<rparr>
      else if c = CHR ''/'' \<and> \<not> path_new_part st then
        st\<lparr>path_climb := False, path_new_part := True,
           path_parts := path_parts st @ [path_head st], path_head := []\<rparr>
      else if c = CHR ''/'' then st
      else st\<lparr>path_climb := False, path_new_part := False, path_head := path_head st @ [c]\<rparr>)"

definition parse_path :: "string \<Rightarrow> string list \<Rightarrow> string list" where
  "parse_path path cwd =
     (let parts = (if path \<noteq> [] \<and> hd path = CHR ''/'' then [] else cwd);
          st = foldl parse_path_step
                 \<lparr>path_parts = parts, path_new_part = True, path_climb = False,
                  path_escape = False, path_head = []\<rparr> path
      in if path_head st \<noteq> [] then path_parts st @ [path_head st] else path_parts st)"

section \<open>URLs\<close>

record Url =
  url_scheme :: string
  url_reference :: string

definition url_new :: Url where
  "url_new = \<lparr>url_scheme = [], url_reference = []\<rparr>"

definition url_from_str :: "string \<Rightarrow> Url result" where
  "url_from_str s =
     (case find_char (\<lambda>c. c = CHR '':'') s of
        None \<Rightarrow> Err 22
      | Some split \<Rightarrow>
          Ok \<lparr>url_scheme = slice_to s split, url_reference = slice_from s (split + 1)\<rparr>)"

definition url_to_string :: "Url \<Rightarrow> string" where
  "url_to_string u = url_scheme u @ '':'' @ url_reference u"

definition url_len :: "Url \<Rightarrow> nat" where
  "url_len u = length (url_scheme u) + length (url_reference u) + 1"

datatype CowUrl = CowRef Url | CowOwned Url

fun cow_as_url :: "CowUrl \<Rightarrow> Url" where
  "cow_as_url (CowRef u) = u"
| "cow_as_url (CowOwned u) = u"

section \<open>Properties of slices and URLs\<close>

text \<open>
  Slices never go out of bounds: whatever the end points, \<^verbatim>\<open>bound\<close> gives a range
  inside the slice, exactly the requested one when it lies inside, and it panics only when an
  end point is given as an absent optional number.
\<close>

theorem bound_in_range:
  "(bound len a b = None \<longleftrightarrow> a = Some None \<or> b = Some None)
   \<and> (case bound len a b of None \<Rightarrow> True | Some (s, e) \<Rightarrow> s \<le> e \<and> e \<le> len)
   \<and> (s \<le> e \<and> e \<le> len \<longrightarrow> bound len (Some (Some s)) (Some (Some e)) = Some (s, e))"
  by (auto simp: bound_def Let_def split: option.splits)

theorem bound_in_range_witness:
  "bound 5 (Some (Some 1)) (Some (Some 3)) = Some (1, 3)"
  using bound_in_range[of 5 None None 1 3] by simp

lemma url_from_str_split:
  assumes "CHR '':'' \<notin> set a"
  shows "url_from_str (a @ '':'' @ b) = Ok \<lparr>url_scheme = a, url_reference = b\<rparr>"
proof -
  have "find_char (\<lambda>c. c = CHR '':'') (a @ '':'' @ b) = Some (length a)"
    using assms by (induction a) auto
  then show ?thesis by (simp add: url_from_str_def)
qed

text \<open>
  URLs round trip: parsing the text of a URL whose scheme has no colon gives the URL back,
  printing a parsed URL gives the parsed text back, the length is the length of the text, and
  parsing fails, with error 22 (\<^verbatim>\<open>EINVAL\<close>), exactly on texts without a colon.
\<close>

theorem url_roundtrip:
  "(CHR '':'' \<notin> set (url_scheme u) \<longrightarrow> url_from_str (url_to_string u) = Ok u)
   \<and> (url_from_str s = Ok v \<longrightarrow> url_to_string v = s \<and> url_len v = length s \<and> CHR '':'' \<notin> set (url_scheme v))
   \<and> (url_from_str s = Err EINVAL \<longleftrightarrow> CHR '':'' \<notin> set s)
   \<and> url_len u = length (url_to_string u)"
proof (intro conjI impI)
  assume "CHR '':'' \<notin> set (url_scheme u)"
  then show "url_from_str (url_to_string u) = Ok u"
    unfolding url_to_string_def by (subst url_from_str_split) simp_all
next
  assume "url_from_str s = Ok v"
  then obtain i where i: "find_char (\<lambda>c. c = CHR '':'') s = Some i"
    and v: "v = \<lparr>url_scheme = take i s, url_reference = drop (Suc i) s\<rparr>"
    by (auto simp: url_from_str_def split: option.splits)
  from i have lt: "i < length s" and "s ! i = CHR '':''" and no: "\<forall>j < i. s ! j \<noteq> CHR '':''"
    by (auto simp: find_char_Some)
  then show "url_to_string v = s"
    using id_take_nth_drop[OF lt] by (simp add: v url_to_string_def)
  show "url_len v = length s" using lt by (simp add: v url_len_def)
  show "CHR '':'' \<notin> set (url_scheme v)"
    using no lt by (auto simp: v in_set_conv_nth)
next
  show "url_from_str s = Err EINVAL \<longleftrightarrow> CHR '':'' \<notin> set s"
    by (auto simp: url_from_str_def find_char_None EINVAL_def split: option.splits dest: find_char_set)
next
  show "url_len u = length (url_to_string u)"
    by (simp add: url_len_def url_to_string_def)
qed

theorem url_roundtrip_witness:
  "url_from_str ''file:/etc/a:b'' = Ok \<lparr>url_scheme = ''file'', url_reference = ''/etc/a:b''\<rparr>"
  using url_roundtrip[of "\<lparr>url_scheme = ''file'', url_reference = ''/etc/a:b''\<rparr>"]
  by (simp add: url_to_string_def)

section \<open>Properties of numbers\<close>

text \<open>Numerals of a natural number, as a reference for the parser.\<close>

definition digit_chars :: string where
  "digit_chars = ''0123456789abcdefghijklmnopqrstuvwxyz''"

fun num_chars :: "nat \<Rightarrow> nat \<Rightarrow> string" where
  "num_chars radix n =
     (if radix < 2 \<or> n < radix then [digit_chars ! n]
      else num_chars radix (n div radix) @ [digit_chars ! (n mod radix)])"

declare num_chars.simps [simp del]

lemma digit_of_chars:
  assumes "d < 36"
  shows "digit_of (digit_chars ! d) = Some (of_nat d)"
proof -
  have "\<forall>d \<in> set [0..<36]. digit_of (digit_chars ! d) = Some (of_nat d)"
    by (simp add: upt_rec digit_of_def digit_chars_def)
  then show ?thesis using assms by simp
qed

lemma to_num_loop_append:
  assumes "\<forall>c \<in> set xs. \<exists>d. digit_of c = Some d \<and> d < radix"
  shows "to_num_loop radix (xs @ ys) num = to_num_loop radix ys (to_num_loop radix xs num)"
  using assms by (induction xs arbitrary: num) auto

lemma num_chars_digits:
  assumes "2 \<le> radix" "radix \<le> 36"
  shows "\<forall>c \<in> set (num_chars radix n). \<exists>d < radix. c = digit_chars ! d"
  using assms
proof (induction radix n rule: num_chars.induct)
  case (1 radix n)
  then show ?case
    by (subst num_chars.simps) (auto intro: exI[of _ "n mod radix"])
qed

lemma valid_digit:
  assumes "2 \<le> radix" "radix \<le> 36" "d < radix"
  shows "digit_of (digit_chars ! d) = Some (of_nat d) \<and> (of_nat d :: usize) < of_nat radix"
  using assms by (simp add: digit_of_chars word_less_nat_alt unat_of_nat_lt)

lemma to_num_loop_chars:
  assumes "2 \<le> radix" "radix \<le> 36"
  shows "to_num_loop (of_nat radix) (num_chars radix n) 0 = of_nat n"
  using assms
proof (induction radix n rule: num_chars.induct)
  case (1 radix n)
  show ?case
  proof (cases "n < radix")
    case True
    then show ?thesis
      using "1.prems" valid_digit[of radix n] by (auto simp: num_chars.simps[of radix n] not_le)
  next
    case False
    have "\<forall>c \<in> set (num_chars radix (n div radix)). \<exists>d. digit_of c = Some d \<and> d < of_nat radix"
      using num_chars_digits[OF "1.prems"] valid_digit[OF "1.prems"] by metis
    moreover have "to_num_loop (of_nat radix) (num_chars radix (n div radix)) 0 = of_nat (n div radix)"
      using "1.IH" "1.prems" False by simp
    ultimately have "to_num_loop (of_nat radix) (num_chars radix n) 0 =
      to_num_loop (of_nat radix) [digit_chars ! (n mod radix)] (of_nat (n div radix))"
      using "1.prems" False by (simp add: num_chars.simps[of radix n] to_num_loop_append)
    also have "\<dots> = of_nat (n div radix) * of_nat radix + of_nat (n mod radix)"
      using valid_digit[OF "1.prems", of "n mod radix"] "1.prems" by (auto simp: not_le)
    also have "\<dots> = of_nat (n div radix * radix + n mod radix)"
      by (simp only: of_nat_add of_nat_mult)
    finally show ?thesis by (simp only: div_mult_mod_eq)
  qed
qed

lemma num_chars_no_minus: "num_chars radix n \<noteq> [] \<and> (2 \<le> radix \<longrightarrow> radix \<le> 36 \<longrightarrow> hd (num_chars radix n) \<noteq> CHR ''-'')"
proof (intro conjI impI)
  show ne: "num_chars radix n \<noteq> []" by (subst num_chars.simps) simp
  assume r: "2 \<le> radix" "radix \<le> 36"
  then obtain d where "d < radix" "hd (num_chars radix n) = digit_chars ! d"
    using bspec[OF num_chars_digits[OF r] hd_in_set[OF ne]] by blast
  then have "digit_of (hd (num_chars radix n)) \<noteq> None"
    using valid_digit[OF r] by auto
  then show "hd (num_chars radix n) \<noteq> CHR ''-''" by (auto simp: digit_of_def)
qed

text \<open>
  Number parsing inverts printing: the numeral of every natural number in every radix
  from 2 to 36 parses to that number modulo the machine word, with a leading minus sign to its
  negation, and in radix 0 the parser gives 0.
\<close>

theorem to_num_inverts:
  assumes "2 \<le> radix" "radix \<le> 36"
  shows "to_num_radix (num_chars radix n) (of_nat radix) = of_nat n
    \<and> to_num_radix_signed (num_chars radix n) (of_nat radix) = of_nat n
    \<and> to_num_radix_signed (CHR ''-'' # num_chars radix n) (of_nat radix) = - of_nat n
    \<and> to_num (num_chars 10 n) = of_nat n \<and> to_num_signed (num_chars 10 n) = of_nat n
    \<and> to_num_radix s 0 = 0"
proof -
  have "(of_nat radix :: usize) \<noteq> 0"
    using assms of_nat_eq_word_iff[of radix 0, where 'a = 32] by simp
  moreover have "to_num_loop 10 (num_chars 10 n) 0 = of_nat n"
    using to_num_loop_chars[of 10 n] by simp
  ultimately show ?thesis
    using assms num_chars_no_minus[of radix n] num_chars_no_minus[of 10 n]
    by (simp add: to_num_radix_def to_num_radix_signed_def to_num_def to_num_signed_def to_num_loop_chars)
qed

theorem to_num_inverts_witness:
  "to_num_radix ''ff'' 16 = 255 \<and> to_num_radix_signed ''-ff'' 16 = - 255"
  using to_num_inverts[of 16 255 "[]"] by (simp add: num_chars.simps digit_chars_def)

section \<open>Properties of host, port and path parsing\<close>

lemma count_digits_le_colon:
  "find_char (\<lambda>c. c = CHR '':'') s = Some i \<Longrightarrow> count_digits s \<le> i"
  by (induction s arbitrary: i) (auto split: if_splits)

text \<open>
  \<^verbatim>\<open>parse_port\<close> never finds a port: it returns the empty string for every address
  with a colon and panics for every address without one, because the end of its range is
  counted from the start of the string.
\<close>

theorem parse_port_empty:
  "parse_port s = (if CHR '':'' \<in> set s then Some [] else None)"
proof (cases "find_char (\<lambda>c. c = CHR '':'') s")
  case None
  then have "CHR '':'' \<notin> set s" unfolding find_char_None by blast
  with None show ?thesis by (simp add: parse_port_def get_slice_def bound_def)
next
  case (Some i)
  then show ?thesis
    using count_digits_le_colon[OF Some] find_char_set[OF Some]
    by (simp add: parse_port_def get_slice_def bound_def Let_def min_def)
qed

lemma parse_path_fold:
  assumes "\<not> (path_climb st \<and> \<not> path_new_part st)"
  shows "\<exists>ps. path_parts (foldl parse_path_step st cs) = path_parts st @ ps"
  using assms
proof (induction cs arbitrary: st)
  case (Cons c cs)
  have ok: "\<not> (path_climb (parse_path_step st c) \<and> \<not> path_new_part (parse_path_step st c))"
    using Cons.prems unfolding parse_path_step_def by (simp split: if_split)
  have "path_parts (parse_path_step st c) \<in> {path_parts st, path_parts st @ [path_head st]}"
    using Cons.prems unfolding parse_path_step_def by (simp split: if_split)
  with Cons.IH[OF ok] show ?case by (simp, elim disjE) auto
qed simp

text \<open>
  \<^verbatim>\<open>parse_path\<close> never climbs: the components it starts from (those of the working
  directory, for a relative path) are always a prefix of the result, so a component
  \<^verbatim>\<open>..\<close> has no effect; in particular \<^verbatim>\<open>../b\<close> in directory \<^verbatim>\<open>a\<close> is
  \<^verbatim>\<open>a/b\<close>.
\<close>

theorem parse_path_never_climbs:
  "take (length (if path \<noteq> [] \<and> hd path = CHR ''/'' then [] else cwd)) (parse_path path cwd) =
     (if path \<noteq> [] \<and> hd path = CHR ''/'' then [] else cwd)
   \<and> parse_path ''../b'' [''a''] = [''a'', ''b'']"
proof
  define parts where "parts = (if path \<noteq> [] \<and> hd path = CHR ''/'' then [] else cwd)"
  define st where "st = foldl parse_path_step
      \<lparr>path_parts = parts, path_new_part = True, path_climb = False, path_escape = False, path_head = []\<rparr> path"
  obtain ps where "path_parts st = parts @ ps"
    using parse_path_fold[of "\<lparr>path_parts = parts, path_new_part = True, path_climb = False,
      path_escape = False, path_head = []\<rparr>" path] by (auto simp: st_def)
  moreover have "parse_path path cwd =
      (if path_head st \<noteq> [] then path_parts st @ [path_head st] else path_parts st)"
    unfolding parse_path_def st_def parts_def Let_def ..
  ultimately have "take (length parts) (parse_path path cwd) = parts" by simp
  then show "take (length (if path \<noteq> [] \<and> hd path = CHR ''/'' then [] else cwd)) (parse_path path cwd) =
     (if path \<noteq> [] \<and> hd path = CHR ''/'' then [] else cwd)" unfolding parts_def .
  show "parse_path ''../b'' [''a''] = [''a'', ''b'']"
    by (simp add: parse_path_def parse_path_step_def)
qed

end
