(* ===== verification/Abi.thy ===== *)
theory Abi
  imports Errors
begin

text \<open>
  The system call interface between user space and kernel, \<^verbatim>\<open>crates/system/syscall\<close>:
  call numbers and flags (\<^verbatim>\<open>unix.rs\<close>, \<^verbatim>\<open>redox.rs\<close>), the register convention of
  the 32-bit build (\<^verbatim>\<open>x86.rs\<close>, \<^verbatim>\<open>kernel/arch/x86/regs.rs\<close>), the user-side wrapper
  of every call, and the kernel's decoding of the registers
  (\<^verbatim>\<open>syscall_handle\<close> of \<^verbatim>\<open>kernel/syscall/mod.rs\<close>). Pointers are passed as addresses.
\<close>

section \<open>Numbers and structures\<close>

definition SYS_BRK :: usize where [redox_consts]: "SYS_BRK = 45"
definition SYS_CHDIR :: usize where [redox_consts]: "SYS_CHDIR = 12"
definition SYS_CLONE :: usize where [redox_consts]: "SYS_CLONE = 120"
definition CLONE_VM :: usize where [redox_consts]: "CLONE_VM = 0x100"
definition CLONE_FS :: usize where [redox_consts]: "CLONE_FS = 0x200"
definition CLONE_FILES :: usize where [redox_consts]: "CLONE_FILES = 0x400"
definition CLONE_VFORK :: usize where [redox_consts]: "CLONE_VFORK = 0x4000"
definition SYS_CLOSE :: usize where [redox_consts]: "SYS_CLOSE = 6"
definition SYS_CLOCK_GETTIME :: usize where [redox_consts]: "SYS_CLOCK_GETTIME = 265"
definition CLOCK_REALTIME :: usize where [redox_consts]: "CLOCK_REALTIME = 1"
definition CLOCK_MONOTONIC :: usize where [redox_consts]: "CLOCK_MONOTONIC = 4"
definition SYS_DUP :: usize where [redox_consts]: "SYS_DUP = 41"
definition SYS_EXECVE :: usize where [redox_consts]: "SYS_EXECVE = 11"
definition SYS_EXIT :: usize where [redox_consts]: "SYS_EXIT = 1"
definition SYS_FPATH :: usize where [redox_consts]: "SYS_FPATH = 928"
definition SYS_FSTAT :: usize where [redox_consts]: "SYS_FSTAT = 28"
definition SYS_FSYNC :: usize where [redox_consts]: "SYS_FSYNC = 118"
definition SYS_FTRUNCATE :: usize where [redox_consts]: "SYS_FTRUNCATE = 93"
definition SYS_GETPID :: usize where [redox_consts]: "SYS_GETPID = 20"
definition SYS_IOPL :: usize where [redox_consts]: "SYS_IOPL = 110"
definition SYS_LINK :: usize where [redox_consts]: "SYS_LINK = 9"
definition SYS_LSEEK :: usize where [redox_consts]: "SYS_LSEEK = 19"
definition SEEK_SET :: usize where [redox_consts]: "SEEK_SET = 0"
definition SEEK_CUR :: usize where [redox_consts]: "SEEK_CUR = 1"
definition SEEK_END :: usize where [redox_consts]: "SEEK_END = 2"
definition SYS_MKDIR :: usize where [redox_consts]: "SYS_MKDIR = 39"
definition SYS_NANOSLEEP :: usize where [redox_consts]: "SYS_NANOSLEEP = 162"
definition SYS_OPEN :: usize where [redox_consts]: "SYS_OPEN = 5"
definition O_RDONLY :: usize where [redox_consts]: "O_RDONLY = 0"
definition O_WRONLY :: usize where [redox_consts]: "O_WRONLY = 1"
definition O_RDWR :: usize where [redox_consts]: "O_RDWR = 2"
definition O_NONBLOCK :: usize where [redox_consts]: "O_NONBLOCK = 4"
definition O_APPEND :: usize where [redox_consts]: "O_APPEND = 8"
definition O_SHLOCK :: usize where [redox_consts]: "O_SHLOCK = 0x10"
definition O_EXLOCK :: usize where [redox_consts]: "O_EXLOCK = 0x20"
definition O_ASYNC :: usize where [redox_consts]: "O_ASYNC = 0x40"
definition O_FSYNC :: usize where [redox_consts]: "O_FSYNC = 0x80"
definition O_CREAT :: usize where [redox_consts]: "O_CREAT = 0x200"
definition O_TRUNC :: usize where [redox_consts]: "O_TRUNC = 0x400"
definition O_EXCL :: usize where [redox_consts]: "O_EXCL = 0x800"
definition SYS_PIPE2 :: usize where [redox_consts]: "SYS_PIPE2 = 331"
definition SYS_READ :: usize where [redox_consts]: "SYS_READ = 3"
definition SYS_RMDIR :: usize where [redox_consts]: "SYS_RMDIR = 84"
definition SYS_STAT :: usize where [redox_consts]: "SYS_STAT = 18"
definition MODE_DIR :: u16 where [redox_consts]: "MODE_DIR = 0x4000"
definition MODE_FILE :: u16 where [redox_consts]: "MODE_FILE = 0x8000"
definition SYS_UNLINK :: usize where [redox_consts]: "SYS_UNLINK = 10"
definition SYS_WAITPID :: usize where [redox_consts]: "SYS_WAITPID = 7"
definition SYS_WRITE :: usize where [redox_consts]: "SYS_WRITE = 4"
definition SYS_YIELD :: usize where [redox_consts]: "SYS_YIELD = 158"
definition SYS_DEBUG :: usize where [redox_consts]: "SYS_DEBUG = 0"
definition SYS_ALLOC :: usize where [redox_consts]: "SYS_ALLOC = 1000"
definition SYS_REALLOC :: usize where [redox_consts]: "SYS_REALLOC = 1001"
definition SYS_REALLOC_INPLACE :: usize where [redox_consts]: "SYS_REALLOC_INPLACE = 1002"
definition SYS_UNALLOC :: usize where [redox_consts]: "SYS_UNALLOC = 1003"

record Stat =
  st_mode :: u16
  st_size :: u64

record TimeSpec =
  tv_sec :: i64
  tv_nsec :: i32

record Regs =
  reg_ax :: usize
  reg_bx :: usize
  reg_cx :: usize
  reg_dx :: usize
  reg_di :: usize
  reg_si :: usize
  reg_bp :: usize
  reg_ip :: usize
  reg_cs :: usize
  reg_flags :: usize
  reg_sp :: usize
  reg_ss :: usize

definition regs_default :: Regs where
  "regs_default =
     \<lparr>reg_ax = 0, reg_bx = 0, reg_cx = 0, reg_dx = 0, reg_di = 0, reg_si = 0, reg_bp = 0, reg_ip = 0,
      reg_cs = 0, reg_flags = 0, reg_sp = 0, reg_ss = 0\<rparr>"

section \<open>The user side\<close>

text \<open>
  The trap is an argument: \<^term>\<open>int80 r s\<close> is the value of register \<^verbatim>\<open>eax\<close> and the
  state of the system after \<^verbatim>\<open>int 0x80\<close> with registers \<^term>\<open>r\<close> in state \<^term>\<open>s\<close>. Registers a call does not set keep what the
  program had in them.
\<close>

type_synonym 's trap = "Regs \<Rightarrow> 's \<Rightarrow> usize \<times> 's"

text \<open>The register \<^verbatim>\<open>eax\<close> after the trap holds the encoded result.\<close>

definition demuxed :: "usize \<times> 's \<Rightarrow> usize result \<times> 's" where
  "demuxed p = (demux (fst p), snd p)"

definition syscall0 :: "'s trap \<Rightarrow> Regs \<Rightarrow> usize \<Rightarrow> 's \<Rightarrow> usize result \<times> 's" where
  "syscall0 int80 r a s = demuxed (int80 (r\<lparr>reg_ax := a\<rparr>) s)"

definition syscall1 :: "'s trap \<Rightarrow> Regs \<Rightarrow> usize \<Rightarrow> usize \<Rightarrow> 's \<Rightarrow> usize result \<times> 's" where
  "syscall1 int80 r a b s = demuxed (int80 (r\<lparr>reg_ax := a, reg_bx := b\<rparr>) s)"

definition syscall2 :: "'s trap \<Rightarrow> Regs \<Rightarrow> usize \<Rightarrow> usize \<Rightarrow> usize \<Rightarrow> 's \<Rightarrow> usize result \<times> 's" where
  "syscall2 int80 r a b c s = demuxed (int80 (r\<lparr>reg_ax := a, reg_bx := b, reg_cx := c\<rparr>) s)"

definition syscall3 :: "'s trap \<Rightarrow> Regs \<Rightarrow> usize \<Rightarrow> usize \<Rightarrow> usize \<Rightarrow> usize \<Rightarrow> 's \<Rightarrow> usize result \<times> 's" where
  "syscall3 int80 r a b c d s = demuxed (int80 (r\<lparr>reg_ax := a, reg_bx := b, reg_cx := c, reg_dx := d\<rparr>) s)"

definition syscall4 :: "'s trap \<Rightarrow> Regs \<Rightarrow> usize \<Rightarrow> usize \<Rightarrow> usize \<Rightarrow> usize \<Rightarrow> usize \<Rightarrow> 's \<Rightarrow> usize result \<times> 's" where
  "syscall4 int80 r a b c d e s =
     demuxed (int80 (r\<lparr>reg_ax := a, reg_bx := b, reg_cx := c, reg_dx := d, reg_si := e\<rparr>) s)"

definition syscall5 ::
  "'s trap \<Rightarrow> Regs \<Rightarrow> usize \<Rightarrow> usize \<Rightarrow> usize \<Rightarrow> usize \<Rightarrow> usize \<Rightarrow> usize \<Rightarrow> 's \<Rightarrow> usize result \<times> 's" where
  "syscall5 int80 r a b c d e f s =
     demuxed (int80 (r\<lparr>reg_ax := a, reg_bx := b, reg_cx := c, reg_dx := d, reg_si := e, reg_di := f\<rparr>) s)"

definition sys_brk :: "'s trap \<Rightarrow> Regs \<Rightarrow> usize \<Rightarrow> 's \<Rightarrow> usize result \<times> 's" where
  "sys_brk int80 r addr s = syscall1 int80 r SYS_BRK addr s"

definition sys_chdir :: "'s trap \<Rightarrow> Regs \<Rightarrow> usize \<Rightarrow> 's \<Rightarrow> usize result \<times> 's" where
  "sys_chdir int80 r path s = syscall1 int80 r SYS_CHDIR path s"

definition sys_clone :: "'s trap \<Rightarrow> Regs \<Rightarrow> usize \<Rightarrow> 's \<Rightarrow> usize result \<times> 's" where
  "sys_clone int80 r fl s = syscall1 int80 r SYS_CLONE fl s"

definition sys_close :: "'s trap \<Rightarrow> Regs \<Rightarrow> usize \<Rightarrow> 's \<Rightarrow> usize result \<times> 's" where
  "sys_close int80 r fd s = syscall1 int80 r SYS_CLOSE fd s"

definition sys_clock_gettime :: "'s trap \<Rightarrow> Regs \<Rightarrow> usize \<Rightarrow> usize \<Rightarrow> 's \<Rightarrow> usize result \<times> 's" where
  "sys_clock_gettime int80 r clock tp s = syscall2 int80 r SYS_CLOCK_GETTIME clock tp s"

definition sys_dup :: "'s trap \<Rightarrow> Regs \<Rightarrow> usize \<Rightarrow> 's \<Rightarrow> usize result \<times> 's" where
  "sys_dup int80 r fd s = syscall1 int80 r SYS_DUP fd s"

definition sys_execve :: "'s trap \<Rightarrow> Regs \<Rightarrow> usize \<Rightarrow> usize \<Rightarrow> 's \<Rightarrow> usize result \<times> 's" where
  "sys_execve int80 r path args s = syscall2 int80 r SYS_EXECVE path args s"

definition sys_exit :: "'s trap \<Rightarrow> Regs \<Rightarrow> usize \<Rightarrow> 's \<Rightarrow> usize result \<times> 's" where
  "sys_exit int80 r status s = syscall1 int80 r SYS_EXIT status s"

definition sys_fpath :: "'s trap \<Rightarrow> Regs \<Rightarrow> usize \<Rightarrow> usize \<Rightarrow> usize \<Rightarrow> 's \<Rightarrow> usize result \<times> 's" where
  "sys_fpath int80 r fd buf count s = syscall3 int80 r SYS_FPATH fd buf count s"

definition sys_fstat :: "'s trap \<Rightarrow> Regs \<Rightarrow> usize \<Rightarrow> usize \<Rightarrow> 's \<Rightarrow> usize result \<times> 's" where
  "sys_fstat int80 r fd stat s = syscall2 int80 r SYS_FSTAT fd stat s"

definition sys_fsync :: "'s trap \<Rightarrow> Regs \<Rightarrow> usize \<Rightarrow> 's \<Rightarrow> usize result \<times> 's" where
  "sys_fsync int80 r fd s = syscall1 int80 r SYS_FSYNC fd s"

definition sys_ftruncate :: "'s trap \<Rightarrow> Regs \<Rightarrow> usize \<Rightarrow> usize \<Rightarrow> 's \<Rightarrow> usize result \<times> 's" where
  "sys_ftruncate int80 r fd len s = syscall2 int80 r SYS_FTRUNCATE fd len s"

definition sys_getpid :: "'s trap \<Rightarrow> Regs \<Rightarrow> 's \<Rightarrow> usize result \<times> 's" where
  "sys_getpid int80 r s = syscall0 int80 r SYS_GETPID s"

definition sys_iopl :: "'s trap \<Rightarrow> Regs \<Rightarrow> usize \<Rightarrow> 's \<Rightarrow> usize result \<times> 's" where
  "sys_iopl int80 r level s = syscall1 int80 r SYS_IOPL level s"

definition sys_link :: "'s trap \<Rightarrow> Regs \<Rightarrow> usize \<Rightarrow> usize \<Rightarrow> 's \<Rightarrow> usize result \<times> 's" where
  "sys_link int80 r old_path new_path s = syscall2 int80 r SYS_LINK old_path new_path s"

definition sys_lseek :: "'s trap \<Rightarrow> Regs \<Rightarrow> usize \<Rightarrow> usize \<Rightarrow> usize \<Rightarrow> 's \<Rightarrow> usize result \<times> 's" where
  "sys_lseek int80 r fd offset whence s = syscall3 int80 r SYS_LSEEK fd offset whence s"

definition sys_mkdir :: "'s trap \<Rightarrow> Regs \<Rightarrow> usize \<Rightarrow> usize \<Rightarrow> 's \<Rightarrow> usize result \<times> 's" where
  "sys_mkdir int80 r path mode s = syscall2 int80 r SYS_MKDIR path mode s"

definition sys_nanosleep :: "'s trap \<Rightarrow> Regs \<Rightarrow> usize \<Rightarrow> usize \<Rightarrow> 's \<Rightarrow> usize result \<times> 's" where
  "sys_nanosleep int80 r req rem s = syscall2 int80 r SYS_NANOSLEEP req rem s"

definition sys_open :: "'s trap \<Rightarrow> Regs \<Rightarrow> usize \<Rightarrow> usize \<Rightarrow> usize \<Rightarrow> 's \<Rightarrow> usize result \<times> 's" where
  "sys_open int80 r path fl mode s = syscall3 int80 r SYS_OPEN path fl mode s"

definition sys_pipe2 :: "'s trap \<Rightarrow> Regs \<Rightarrow> usize \<Rightarrow> usize \<Rightarrow> 's \<Rightarrow> usize result \<times> 's" where
  "sys_pipe2 int80 r fds fl s = syscall2 int80 r SYS_PIPE2 fds fl s"

definition sys_read :: "'s trap \<Rightarrow> Regs \<Rightarrow> usize \<Rightarrow> usize \<Rightarrow> usize \<Rightarrow> 's \<Rightarrow> usize result \<times> 's" where
  "sys_read int80 r fd buf count s = syscall3 int80 r SYS_READ fd buf count s"

definition sys_rmdir :: "'s trap \<Rightarrow> Regs \<Rightarrow> usize \<Rightarrow> 's \<Rightarrow> usize result \<times> 's" where
  "sys_rmdir int80 r path s = syscall1 int80 r SYS_RMDIR path s"

definition sys_stat :: "'s trap \<Rightarrow> Regs \<Rightarrow> usize \<Rightarrow> usize \<Rightarrow> 's \<Rightarrow> usize result \<times> 's" where
  "sys_stat int80 r path stat s = syscall2 int80 r SYS_STAT path stat s"

definition sys_unlink :: "'s trap \<Rightarrow> Regs \<Rightarrow> usize \<Rightarrow> 's \<Rightarrow> usize result \<times> 's" where
  "sys_unlink int80 r path s = syscall1 int80 r SYS_UNLINK path s"

definition sys_waitpid :: "'s trap \<Rightarrow> Regs \<Rightarrow> usize \<Rightarrow> usize \<Rightarrow> usize \<Rightarrow> 's \<Rightarrow> usize result \<times> 's" where
  "sys_waitpid int80 r pid status options s = syscall3 int80 r SYS_WAITPID pid status options s"

definition sys_write :: "'s trap \<Rightarrow> Regs \<Rightarrow> usize \<Rightarrow> usize \<Rightarrow> usize \<Rightarrow> 's \<Rightarrow> usize result \<times> 's" where
  "sys_write int80 r fd buf count s = syscall3 int80 r SYS_WRITE fd buf count s"

definition sys_yield :: "'s trap \<Rightarrow> Regs \<Rightarrow> 's \<Rightarrow> usize result \<times> 's" where
  "sys_yield int80 r s = syscall0 int80 r SYS_YIELD s"

definition sys_debug :: "'s trap \<Rightarrow> Regs \<Rightarrow> usize \<Rightarrow> usize \<Rightarrow> 's \<Rightarrow> usize result \<times> 's" where
  "sys_debug int80 r buf count s = syscall2 int80 r SYS_DEBUG buf count s"

definition sys_alloc :: "'s trap \<Rightarrow> Regs \<Rightarrow> usize \<Rightarrow> 's \<Rightarrow> usize result \<times> 's" where
  "sys_alloc int80 r sz s = syscall1 int80 r SYS_ALLOC sz s"

definition sys_realloc :: "'s trap \<Rightarrow> Regs \<Rightarrow> usize \<Rightarrow> usize \<Rightarrow> 's \<Rightarrow> usize result \<times> 's" where
  "sys_realloc int80 r ptr sz s = syscall2 int80 r SYS_REALLOC ptr sz s"

definition sys_realloc_inplace :: "'s trap \<Rightarrow> Regs \<Rightarrow> usize \<Rightarrow> usize \<Rightarrow> 's \<Rightarrow> usize result \<times> 's" where
  "sys_realloc_inplace int80 r ptr sz s = syscall2 int80 r SYS_REALLOC_INPLACE ptr sz s"

definition sys_unalloc :: "'s trap \<Rightarrow> Regs \<Rightarrow> usize \<Rightarrow> 's \<Rightarrow> usize result \<times> 's" where
  "sys_unalloc int80 r ptr s = syscall1 int80 r SYS_UNALLOC ptr s"

section \<open>The kernel side\<close>

text \<open>
  The handler \<^verbatim>\<open>syscall_handle\<close> selects, with its arguments, one constructor per
  \<^verbatim>\<open>do_sys_\<close> function. The calls that read or change the registers get them whole.
\<close>

datatype Call =
  DoDebug usize usize
| DoAlloc usize
| DoRealloc usize usize
| DoReallocInplace usize usize
| DoUnalloc usize
| DoBrk usize
| DoChdir usize
| DoClone Regs
| DoClose usize
| DoClockGettime usize usize
| DoDup usize
| DoExecve usize usize
| DoExit usize
| DoFpath usize usize usize
| DoFstat usize usize
| DoFsync usize
| DoFtruncate usize usize
| DoGetpid
| DoIopl Regs
| DoLseek usize usize usize
| DoMkdir usize usize
| DoNanosleep usize usize
| DoOpen usize usize
| DoPipe2 usize usize
| DoRead usize usize usize
| DoRmdir usize
| DoStat usize usize
| DoUnlink usize
| DoWaitpid usize usize usize
| DoWrite usize usize usize
| DoYield
| NoCall

definition syscall_call :: "Regs \<Rightarrow> Call" where
  "syscall_call r =
     (if reg_ax r = SYS_DEBUG then DoDebug (reg_bx r) (reg_cx r)
      else if reg_ax r = SYS_ALLOC then DoAlloc (reg_bx r)
      else if reg_ax r = SYS_REALLOC then DoRealloc (reg_bx r) (reg_cx r)
      else if reg_ax r = SYS_REALLOC_INPLACE then DoReallocInplace (reg_bx r) (reg_cx r)
      else if reg_ax r = SYS_UNALLOC then DoUnalloc (reg_bx r)
      else if reg_ax r = SYS_BRK then DoBrk (reg_bx r)
      else if reg_ax r = SYS_CHDIR then DoChdir (reg_bx r)
      else if reg_ax r = SYS_CLONE then DoClone r
      else if reg_ax r = SYS_CLOSE then DoClose (reg_bx r)
      else if reg_ax r = SYS_CLOCK_GETTIME then DoClockGettime (reg_bx r) (reg_cx r)
      else if reg_ax r = SYS_DUP then DoDup (reg_bx r)
      else if reg_ax r = SYS_EXECVE then DoExecve (reg_bx r) (reg_cx r)
      else if reg_ax r = SYS_EXIT then DoExit (reg_bx r)
      else if reg_ax r = SYS_FPATH then DoFpath (reg_bx r) (reg_cx r) (reg_dx r)
      else if reg_ax r = SYS_FSTAT then DoFstat (reg_bx r) (reg_cx r)
      else if reg_ax r = SYS_FSYNC then DoFsync (reg_bx r)
      else if reg_ax r = SYS_FTRUNCATE then DoFtruncate (reg_bx r) (reg_cx r)
      else if reg_ax r = SYS_GETPID then DoGetpid
      else if reg_ax r = SYS_IOPL then DoIopl r
      else if reg_ax r = SYS_LSEEK then DoLseek (reg_bx r) (reg_cx r) (reg_dx r)
      else if reg_ax r = SYS_MKDIR then DoMkdir (reg_bx r) (reg_cx r)
      else if reg_ax r = SYS_NANOSLEEP then DoNanosleep (reg_bx r) (reg_cx r)
      else if reg_ax r = SYS_OPEN then DoOpen (reg_bx r) (reg_cx r)
      else if reg_ax r = SYS_PIPE2 then DoPipe2 (reg_bx r) (reg_cx r)
      else if reg_ax r = SYS_READ then DoRead (reg_bx r) (reg_cx r) (reg_dx r)
      else if reg_ax r = SYS_RMDIR then DoRmdir (reg_bx r)
      else if reg_ax r = SYS_STAT then DoStat (reg_bx r) (reg_cx r)
      else if reg_ax r = SYS_UNLINK then DoUnlink (reg_bx r)
      else if reg_ax r = SYS_WAITPID then DoWaitpid (reg_bx r) (reg_cx r) (reg_dx r)
      else if reg_ax r = SYS_WRITE then DoWrite (reg_bx r) (reg_cx r) (reg_dx r)
      else if reg_ax r = SYS_YIELD then DoYield
      else NoCall)"

text \<open>
  \<^verbatim>\<open>syscall_handle\<close>: the result of the selected function, \<^verbatim>\<open>ENOSYS\<close> for an unknown
  number, encoded in register \<^verbatim>\<open>eax\<close>. The functions are the argument \<^term>\<open>perform\<close>, they
  may change the registers (\<^verbatim>\<open>iopl\<close>) and the state.
\<close>

type_synonym 's performer = "Call \<Rightarrow> Regs \<Rightarrow> 's \<Rightarrow> usize result \<times> Regs \<times> 's"

definition syscall_handle :: "'s performer \<Rightarrow> Regs \<Rightarrow> 's \<Rightarrow> Regs \<times> 's" where
  "syscall_handle perform r s =
     (let (res, r', s') = (case syscall_call r of NoCall \<Rightarrow> (Err ENOSYS, r, s) | c \<Rightarrow> perform c r s)
      in (r'\<lparr>reg_ax := mux res\<rparr>, s'))"

text \<open>Trapping into that handler.\<close>

definition trap_into :: "'s performer \<Rightarrow> 's trap" where
  "trap_into perform r s = (let (r', s') = syscall_handle perform r s in (reg_ax r', s'))"

text \<open>What a function returns and how it leaves the state, without the registers.\<close>

definition performed :: "'s performer \<Rightarrow> Call \<Rightarrow> Regs \<Rightarrow> 's \<Rightarrow> usize result \<times> 's" where
  "performed perform c r s = (case perform c r s of (res, _, s') \<Rightarrow> (res, s'))"

section \<open>Properties\<close>

text \<open>Results that survive the encoding: known error numbers, and values that are not one negated.\<close>

fun wire_safe :: "usize result \<Rightarrow> bool" where
  "wire_safe (Inl e) \<longleftrightarrow> known_errno e"
| "wire_safe (Inr v) \<longleftrightarrow> \<not> known_errno (- v)"

lemma demux_mux: "wire_safe x \<Longrightarrow> demux (mux x) = x"
  by (cases x) (simp_all add: demux_Err_iff demux_Ok_iff)

lemma trap_into_call:
  assumes "\<And>c r s. wire_safe (fst (perform c r s))" and "syscall_call r = c" and "c \<noteq> NoCall"
  shows "demuxed (trap_into perform r s) = performed perform c r s"
  using assms(1)[of c r s] assms(2,3)
  by (cases c) (auto simp: demuxed_def trap_into_def syscall_handle_def performed_def demux_mux split: prod.splits)

lemma trap_into_none:
  assumes "syscall_call r = NoCall"
  shows "demuxed (trap_into perform r s) = (Err ENOSYS, s)"
proof -
  have "demux (mux (Err ENOSYS)) = Err ENOSYS"
    by (rule demux_mux_Err) (simp add: ENOSYS_def)
  then show ?thesis
    using assms by (simp add: demuxed_def trap_into_def syscall_handle_def)
qed

lemmas call_numbers =
  SYS_BRK_def SYS_CHDIR_def SYS_CLONE_def SYS_CLOSE_def SYS_CLOCK_GETTIME_def SYS_DUP_def
  SYS_EXECVE_def SYS_EXIT_def SYS_FPATH_def SYS_FSTAT_def SYS_FSYNC_def SYS_FTRUNCATE_def
  SYS_GETPID_def SYS_IOPL_def SYS_LINK_def SYS_LSEEK_def SYS_MKDIR_def SYS_NANOSLEEP_def
  SYS_OPEN_def SYS_PIPE2_def SYS_READ_def SYS_RMDIR_def SYS_STAT_def SYS_UNLINK_def
  SYS_WAITPID_def SYS_WRITE_def SYS_YIELD_def SYS_DEBUG_def SYS_ALLOC_def SYS_REALLOC_def
  SYS_REALLOC_INPLACE_def SYS_UNALLOC_def

lemmas wrapper_defs =
  sys_brk_def sys_chdir_def sys_clone_def sys_close_def sys_clock_gettime_def sys_dup_def
  sys_execve_def sys_exit_def sys_fpath_def sys_fstat_def sys_fsync_def sys_ftruncate_def
  sys_getpid_def sys_iopl_def sys_link_def sys_lseek_def sys_mkdir_def sys_nanosleep_def
  sys_open_def sys_pipe2_def sys_read_def sys_rmdir_def sys_stat_def sys_unlink_def
  sys_waitpid_def sys_write_def sys_yield_def sys_debug_def sys_alloc_def sys_realloc_def
  sys_realloc_inplace_def sys_unalloc_def
  syscall0_def syscall1_def syscall2_def syscall3_def

text \<open>
  C30. A program that makes a system call through a wrapper of the \<^verbatim>\<open>system\<close> crate gets
  exactly what the kernel function of that call returns for exactly the arguments it passed, as
  long as that result survives the register encoding; the wrapper \<^verbatim>\<open>sys_link\<close> has no
  function in the kernel and always fails with \<^verbatim>\<open>ENOSYS\<close>.
\<close>

theorem wrappers_reach_functions:
  assumes "\<And>c r s. wire_safe (fst (perform c r s))"
  shows "
    sys_brk (trap_into perform) r addr s = performed perform (DoBrk addr)
        (r\<lparr>reg_ax := SYS_BRK, reg_bx := addr\<rparr>) s
    \<and> sys_chdir (trap_into perform) r path s = performed perform (DoChdir path)
        (r\<lparr>reg_ax := SYS_CHDIR, reg_bx := path\<rparr>) s
    \<and> sys_clone (trap_into perform) r fl s = performed perform (DoClone (r\<lparr>reg_ax := SYS_CLONE, reg_bx := fl\<rparr>))
        (r\<lparr>reg_ax := SYS_CLONE, reg_bx := fl\<rparr>) s
    \<and> sys_close (trap_into perform) r fd s = performed perform (DoClose fd)
        (r\<lparr>reg_ax := SYS_CLOSE, reg_bx := fd\<rparr>) s
    \<and> sys_clock_gettime (trap_into perform) r clock tp s = performed perform (DoClockGettime clock tp)
        (r\<lparr>reg_ax := SYS_CLOCK_GETTIME, reg_bx := clock, reg_cx := tp\<rparr>) s
    \<and> sys_dup (trap_into perform) r fd s = performed perform (DoDup fd)
        (r\<lparr>reg_ax := SYS_DUP, reg_bx := fd\<rparr>) s
    \<and> sys_execve (trap_into perform) r path args s = performed perform (DoExecve path args)
        (r\<lparr>reg_ax := SYS_EXECVE, reg_bx := path, reg_cx := args\<rparr>) s
    \<and> sys_exit (trap_into perform) r status s = performed perform (DoExit status)
        (r\<lparr>reg_ax := SYS_EXIT, reg_bx := status\<rparr>) s
    \<and> sys_fpath (trap_into perform) r fd buf count s = performed perform (DoFpath fd buf count)
        (r\<lparr>reg_ax := SYS_FPATH, reg_bx := fd, reg_cx := buf, reg_dx := count\<rparr>) s
    \<and> sys_fstat (trap_into perform) r fd stat s = performed perform (DoFstat fd stat)
        (r\<lparr>reg_ax := SYS_FSTAT, reg_bx := fd, reg_cx := stat\<rparr>) s
    \<and> sys_fsync (trap_into perform) r fd s = performed perform (DoFsync fd)
        (r\<lparr>reg_ax := SYS_FSYNC, reg_bx := fd\<rparr>) s
    \<and> sys_ftruncate (trap_into perform) r fd len s = performed perform (DoFtruncate fd len)
        (r\<lparr>reg_ax := SYS_FTRUNCATE, reg_bx := fd, reg_cx := len\<rparr>) s
    \<and> sys_getpid (trap_into perform) r s = performed perform DoGetpid
        (r\<lparr>reg_ax := SYS_GETPID\<rparr>) s
    \<and> sys_iopl (trap_into perform) r level s = performed perform (DoIopl (r\<lparr>reg_ax := SYS_IOPL, reg_bx := level\<rparr>))
        (r\<lparr>reg_ax := SYS_IOPL, reg_bx := level\<rparr>) s
    \<and> sys_lseek (trap_into perform) r fd offset whence s = performed perform (DoLseek fd offset whence)
        (r\<lparr>reg_ax := SYS_LSEEK, reg_bx := fd, reg_cx := offset, reg_dx := whence\<rparr>) s
    \<and> sys_mkdir (trap_into perform) r path mode s = performed perform (DoMkdir path mode)
        (r\<lparr>reg_ax := SYS_MKDIR, reg_bx := path, reg_cx := mode\<rparr>) s
    \<and> sys_nanosleep (trap_into perform) r req rem s = performed perform (DoNanosleep req rem)
        (r\<lparr>reg_ax := SYS_NANOSLEEP, reg_bx := req, reg_cx := rem\<rparr>) s
    \<and> sys_open (trap_into perform) r path fl mode s = performed perform (DoOpen path fl)
        (r\<lparr>reg_ax := SYS_OPEN, reg_bx := path, reg_cx := fl, reg_dx := mode\<rparr>) s
    \<and> sys_pipe2 (trap_into perform) r fds fl s = performed perform (DoPipe2 fds fl)
        (r\<lparr>reg_ax := SYS_PIPE2, reg_bx := fds, reg_cx := fl\<rparr>) s
    \<and> sys_read (trap_into perform) r fd buf count s = performed perform (DoRead fd buf count)
        (r\<lparr>reg_ax := SYS_READ, reg_bx := fd, reg_cx := buf, reg_dx := count\<rparr>) s
    \<and> sys_rmdir (trap_into perform) r path s = performed perform (DoRmdir path)
        (r\<lparr>reg_ax := SYS_RMDIR, reg_bx := path\<rparr>) s
    \<and> sys_stat (trap_into perform) r path stat s = performed perform (DoStat path stat)
        (r\<lparr>reg_ax := SYS_STAT, reg_bx := path, reg_cx := stat\<rparr>) s
    \<and> sys_unlink (trap_into perform) r path s = performed perform (DoUnlink path)
        (r\<lparr>reg_ax := SYS_UNLINK, reg_bx := path\<rparr>) s
    \<and> sys_waitpid (trap_into perform) r pid status options s = performed perform (DoWaitpid pid status options)
        (r\<lparr>reg_ax := SYS_WAITPID, reg_bx := pid, reg_cx := status, reg_dx := options\<rparr>) s
    \<and> sys_write (trap_into perform) r fd buf count s = performed perform (DoWrite fd buf count)
        (r\<lparr>reg_ax := SYS_WRITE, reg_bx := fd, reg_cx := buf, reg_dx := count\<rparr>) s
    \<and> sys_yield (trap_into perform) r s = performed perform DoYield
        (r\<lparr>reg_ax := SYS_YIELD\<rparr>) s
    \<and> sys_debug (trap_into perform) r buf count s = performed perform (DoDebug buf count)
        (r\<lparr>reg_ax := SYS_DEBUG, reg_bx := buf, reg_cx := count\<rparr>) s
    \<and> sys_alloc (trap_into perform) r sz s = performed perform (DoAlloc sz)
        (r\<lparr>reg_ax := SYS_ALLOC, reg_bx := sz\<rparr>) s
    \<and> sys_realloc (trap_into perform) r ptr sz s = performed perform (DoRealloc ptr sz)
        (r\<lparr>reg_ax := SYS_REALLOC, reg_bx := ptr, reg_cx := sz\<rparr>) s
    \<and> sys_realloc_inplace (trap_into perform) r ptr sz s = performed perform (DoReallocInplace ptr sz)
        (r\<lparr>reg_ax := SYS_REALLOC_INPLACE, reg_bx := ptr, reg_cx := sz\<rparr>) s
    \<and> sys_unalloc (trap_into perform) r ptr s = performed perform (DoUnalloc ptr)
        (r\<lparr>reg_ax := SYS_UNALLOC, reg_bx := ptr\<rparr>) s
    \<and> sys_link (trap_into perform) r old_path new_path s = (Err ENOSYS, s)"
  unfolding wrapper_defs
  by (intro conjI; (rule trap_into_call[OF assms] | rule trap_into_none); (simp only: syscall_call_def Regs.simps call_numbers)?; simp)

text \<open>A performer that answers every seek with its own arguments added up.\<close>

definition demo_performer :: "unit performer" where
  "demo_performer c r s = (case c of DoLseek fd off whence \<Rightarrow> if fd = 3 \<and> off = 100 \<and> whence = 0 then Ok 103 else Err EBADF
     | _ \<Rightarrow> Err EBADF, r, s)"

theorem wrappers_reach_functions_witness:
  "sys_lseek (trap_into demo_performer) regs_default 3 100 0 () = (Ok 103, ())"
proof -
  have "wire_safe (fst (demo_performer c r s))" for c r s
    by (cases c) (auto simp: demo_performer_def EBADF_def known_errno_def)
  from wrappers_reach_functions[where perform = demo_performer and r = regs_default and s = "()" and
      fd = 3 and offset = 100 and whence = 0 and addr = 0 and path = 0 and fl = 0 and clock = 0 and tp = 0 and args = 0 and status = 0 and buf = 0 and count = 0 and stat = 0 and len = 0 and level = 0 and old_path = 0 and new_path = 0 and mode = 0 and req = 0 and rem = 0 and fds = 0 and pid = 0 and options = 0 and sz = 0 and ptr = 0, OF this]
  have "sys_lseek (trap_into demo_performer) regs_default 3 100 0 () =
      performed demo_performer (DoLseek 3 100 0)
        (regs_default\<lparr>reg_ax := SYS_LSEEK, reg_bx := 3, reg_cx := 100, reg_dx := 0\<rparr>) ()"
    by (elim conjE)
  then show ?thesis by (simp add: performed_def demo_performer_def)
qed

end
