(* ===== verification/Context.thy ===== *)
theory Context
  imports Segments Time Text Abi
begin

text \<open>
  Contexts (processes and threads) and the context manager, \<^verbatim>\<open>kernel/arch/context.rs\<close>.
  A context owns its stack and registers; working directory, memory and files are
  \<^verbatim>\<open>Arc<UnsafeCell<..>>\<close>, shared between threads, so they are cells of an explicit store and a
  context holds the names of its cells. The raw pointer \<^verbatim>\<open>vfork\<close> to another context is
  kept as that context's pid, which is unique among the existing contexts. The type parameter
  \<^typ>\<open>'r\<close> is the type of resources. The kernel's own heap (boxes, vectors, strings) is not
  placed in the modelled memory.
\<close>

section \<open>Data\<close>

definition CONTEXT_STACK_SIZE :: usize where [redox_consts]: "CONTEXT_STACK_SIZE = 1024 * 1024"
definition CONTEXT_STACK_ADDR :: usize where [redox_consts]: "CONTEXT_STACK_ADDR = 0xB0000000"

record 'r ContextFile =
  file_fd :: usize
  file_resource :: 'r

record Context =
  pid :: usize
  ppid :: usize
  ctx_name :: string
  iopl :: usize
  blocked :: bool
  exited :: bool
  switch :: usize
  slices :: usize
  vfork :: "usize option"
  wake :: "Duration option"
  kernel_stack :: usize
  regs :: Regs
  fx :: usize
  ctx_stack :: "ContextMemory option"
  loadable :: bool
  cwd :: nat
  memory :: nat
  files :: nat
  statuses :: "(usize \<times> usize) list"
  waiters :: "usize list"

text \<open>
  The part of \<^verbatim>\<open>Environment\<close> the context code works on: the context manager
  (\<^verbatim>\<open>inner\<close>, \<^verbatim>\<open>enabled\<close>, \<^verbatim>\<open>i\<close>, \<^verbatim>\<open>next_pid\<close>), the clocks, the store of
  shared cells, physical memory, and the kernel stack pointer in the task state segment.
\<close>

record 'r Kernel =
  kmem :: mem
  inner :: "Context list"
  enabled :: bool
  cur_i :: nat
  pid_hint :: usize
  clock_monotonic :: Duration
  clock_realtime :: Duration
  tss_sp0 :: usize
  cwd_cell :: "nat \<Rightarrow> string"
  mem_cell :: "nat \<Rightarrow> ContextMemory list"
  file_cell :: "nat \<Rightarrow> 'r ContextFile list"
  fresh :: nat

section \<open>Process and file numbers\<close>

text \<open>
  The search for a free number shared by \<^verbatim>\<open>next_pid\<close> and \<^verbatim>\<open>next_fd\<close>: as long as the
  number is taken, try the next one. The first argument bounds the number of rounds;
  \<^term>\<open>None\<close> is a search that has not ended within them.
\<close>

fun next_free :: "nat \<Rightarrow> usize list \<Rightarrow> usize \<Rightarrow> usize option" where
  "next_free 0 taken n = None"
| "next_free (Suc rounds) taken n = (if n \<in> set taken then next_free rounds taken (n + 1) else Some n)"

definition next_pid :: "'r Kernel \<Rightarrow> usize option \<times> 'r Kernel" where
  "next_pid k =
     (case next_free (Suc (length (inner k))) (map pid (inner k)) (pid_hint k) of
        None \<Rightarrow> (None, k)
      | Some ret \<Rightarrow>
          (let n = ret + 1 in (Some ret, k\<lparr>pid_hint := if n \<ge> 65536 then 1 else n\<rparr>)))"

definition next_fd :: "'r ContextFile list \<Rightarrow> usize option" where
  "next_fd fs = next_free (Suc (length fs)) (map file_fd fs) 0"

section \<open>The context manager\<close>

definition manager_get :: "'r Kernel \<Rightarrow> nat \<Rightarrow> Context result" where
  "manager_get k i =
     (if enabled k then (if i < length (inner k) then Ok (inner k ! i) else Err ESRCH)
      else Err ESRCH)"

definition current :: "'r Kernel \<Rightarrow> Context result" where
  "current k = manager_get k (cur_i k)"

text \<open>Changing a context through \<^verbatim>\<open>get_mut\<close> and \<^verbatim>\<open>current_mut\<close>.\<close>

definition put_context :: "'r Kernel \<Rightarrow> nat \<Rightarrow> Context \<Rightarrow> 'r Kernel" where
  "put_context k i c = k\<lparr>inner := (inner k)[i := c]\<rparr>"

definition push_context :: "'r Kernel \<Rightarrow> Context \<Rightarrow> 'r Kernel" where
  "push_context k c = k\<lparr>inner := inner k @ [c]\<rparr>"

text \<open>Clearing \<^verbatim>\<open>blocked\<close> through a raw pointer to the context with a given pid.\<close>

definition unblock :: "usize \<Rightarrow> Context list \<Rightarrow> Context list" where
  "unblock p cs = map (\<lambda>c. if pid c = p then c\<lparr>blocked := False\<rparr> else c) cs"

text \<open>
  Dropping a context that is no longer in the list: \<^verbatim>\<open>Drop for Context\<close>, then its
  fields: its stack, and each shared cell when no other context holds it.
\<close>

definition drop_segments :: "mem \<Rightarrow> ContextMemory list \<Rightarrow> mem" where
  "drop_segments m ss = foldl segment_drop m ss"

definition drop_context :: "'r Kernel \<Rightarrow> Context \<Rightarrow> 'r Kernel" where
  "drop_context k c =
     (let k = (case vfork c of Some p \<Rightarrow> k\<lparr>inner := unblock p (inner k)\<rparr> | None \<Rightarrow> k);
          k = (if kernel_stack c > 0 then k\<lparr>kmem := unalloc (kmem k) (kernel_stack c)\<rparr> else k);
          k = (case ctx_stack c of Some s \<Rightarrow> k\<lparr>kmem := segment_drop (kmem k) s\<rparr> | None \<Rightarrow> k);
          k = (if memory c \<in> memory ` set (inner k) then k
               else k\<lparr>kmem := drop_segments (kmem k) (mem_cell k (memory c)),
                      mem_cell := (mem_cell k)(memory c := [])\<rparr>);
          k = (if files c \<in> files ` set (inner k) then k
               else k\<lparr>file_cell := (file_cell k)(files c := [])\<rparr>)
      in k)"

text \<open>\<^verbatim>\<open>ContextManager::clean\<close>: remove exited contexts at the current position.\<close>

definition wrap_index :: "'r Kernel \<Rightarrow> 'r Kernel" where
  "wrap_index k = (if cur_i k \<ge> length (inner k) then k\<lparr>cur_i := cur_i k - length (inner k)\<rparr> else k)"

definition remove_at :: "nat \<Rightarrow> 'a list \<Rightarrow> 'a list" where
  "remove_at i xs = take i xs @ drop (Suc i) xs"

lemma length_remove_at: "i < length xs \<Longrightarrow> length (remove_at i xs) = length xs - 1"
  by (simp add: remove_at_def)

lemma length_unblock [simp]: "length (unblock p cs) = length cs"
  by (simp add: unblock_def)

lemma inner_drop_context:
  "inner (drop_context k c) = (case vfork c of Some p \<Rightarrow> unblock p (inner k) | None \<Rightarrow> inner k)"
  by (simp add: drop_context_def Let_def split: option.splits)

lemma drop_context_fields [simp]:
  "length (inner (drop_context k c)) = length (inner k)"
  "enabled (drop_context k c) = enabled k" "cur_i (drop_context k c) = cur_i k"
  "pid_hint (drop_context k c) = pid_hint k" "clock_monotonic (drop_context k c) = clock_monotonic k"
  "clock_realtime (drop_context k c) = clock_realtime k"
  by (simp_all add: drop_context_def Let_def split: option.splits)

lemma wrap_index_inner [simp]: "inner (wrap_index k) = inner k" "enabled (wrap_index k) = enabled k"
  "clock_monotonic (wrap_index k) = clock_monotonic k"
  by (simp_all add: wrap_index_def)

function clean :: "'r Kernel \<Rightarrow> 'r Kernel" where
  "clean k0 =
     (let k = wrap_index k0 in
      case current k of
        Inr next \<Rightarrow>
          if exited next
          then clean (drop_context (k\<lparr>inner := remove_at (cur_i k) (inner k)\<rparr>) next)
          else wrap_index k
      | Inl _ \<Rightarrow> wrap_index k)"
  by pat_completeness auto
termination
  by (relation "measure (\<lambda>k. length (inner k))")
     (auto simp: current_def manager_get_def length_remove_at split: if_splits)

declare clean.simps [simp del]

section \<open>Context switch\<close>

definition duration_le :: "Duration \<Rightarrow> Duration \<Rightarrow> bool" where
  "duration_le a b = (duration_partial_cmp a b \<in> {Some Less, Some Equal})"

text \<open>
  One round of the search: advance, clean, and test the context at the new position.
  \<^term>\<open>Some k\<close> means the search breaks with that state. A blocked context whose wake-up time
  has come is woken.
\<close>

definition search_step :: "nat \<Rightarrow> 'r Kernel \<Rightarrow> 'r Kernel + 'r Kernel" where
  "search_step current_i k0 =
     (let k = clean (k0\<lparr>cur_i := cur_i k0 + 1\<rparr>);
          continue = (if cur_i k = current_i then Inr k else Inl k)
      in case current k of
           Inl _ \<Rightarrow> continue
         | Inr next \<Rightarrow>
             if blocked next then
               (case wake next of
                  Some w \<Rightarrow>
                    if duration_le w (clock_monotonic k)
                    then Inr (put_context k (cur_i k) (next\<lparr>blocked := False, wake := None\<rparr>))
                    else continue
                | None \<Rightarrow> continue)
             else Inr k)"

fun search :: "nat \<Rightarrow> nat \<Rightarrow> 'r Kernel \<Rightarrow> 'r Kernel option" where
  "search 0 current_i k = None"
| "search (Suc fuel) current_i k =
     (case search_step current_i k of Inr k' \<Rightarrow> Some k' | Inl k' \<Rightarrow> search fuel current_i k')"

definition context_map :: "'r Kernel \<Rightarrow> Context \<Rightarrow> mem \<Rightarrow> mem" where
  "context_map k c m =
     foldl segment_map (case ctx_stack c of Some s \<Rightarrow> segment_map m s | None \<Rightarrow> m) (mem_cell k (memory c))"

definition context_unmap :: "'r Kernel \<Rightarrow> Context \<Rightarrow> mem \<Rightarrow> mem" where
  "context_unmap k c m =
     (let m = foldl segment_unmap m (mem_cell k (memory c))
      in case ctx_stack c of Some s \<Rightarrow> segment_unmap m s | None \<Rightarrow> m)"

text \<open>
  The switch itself, after the search: the old context is unmapped, the new one counted and
  mapped. The result names the positions \<^verbatim>\<open>switch_to\<close> is then called with, if any.
\<close>

definition switch_contexts :: "nat \<Rightarrow> 'r Kernel \<Rightarrow> (nat \<times> nat) option \<times> 'r Kernel" where
  "switch_contexts current_i k =
     (if cur_i k = current_i then (None, k)
      else
        let (old, k) = (case manager_get k current_i of
                          Inr c \<Rightarrow> (Some current_i, k\<lparr>kmem := context_unmap k c (kmem k)\<rparr>)
                        | Inl _ \<Rightarrow> (None, k));
            (new, k) = (case current k of
                          Inr c \<Rightarrow>
                            (let c = c\<lparr>switch := switch c + 1\<rparr>;
                                 k = put_context k (cur_i k) c;
                                 k = k\<lparr>tss_sp0 := if kernel_stack c > 0
                                                  then kernel_stack c + CONTEXT_STACK_SIZE - 128
                                                  else 0x200000 - 128\<rparr>
                             in (Some (cur_i k), k\<lparr>kmem := context_map k c (kmem k)\<rparr>))
                        | Inl _ \<Rightarrow> (None, k))
        in (case (old, new) of (Some a, Some b) \<Rightarrow> Some (a, b) | _ \<Rightarrow> None, k))"

definition context_switch :: "nat \<Rightarrow> 'r Kernel \<Rightarrow> ((nat \<times> nat) option \<times> 'r Kernel) option" where
  "context_switch fuel k =
     (if enabled k then map_option (switch_contexts (cur_i k)) (search fuel (cur_i k) k)
      else Some (None, k))"

text \<open>
  \<^verbatim>\<open>Context::switch_to\<close> on x86: the callee-saved registers, the flags and the
  floating-point state of the processor are exchanged. The save areas hold one
  floating-point state (of type \<^typ>\<open>'f\<close>) per address; \<^term>\<open>init\<close> is the state after
  \<^verbatim>\<open>fninit\<close>. The instruction pointer changes hands by returning on the new stack.
\<close>

record 'f Cpu =
  cpu_regs :: Regs
  cpu_fpu :: 'f
  fx_areas :: "usize \<Rightarrow> 'f"

definition switch_to :: "'f \<Rightarrow> 'f Cpu \<Rightarrow> Context \<Rightarrow> Context \<Rightarrow> 'f Cpu \<times> Context" where
  "switch_to init cpu self next =
     (let cpu = cpu\<lparr>fx_areas := (fx_areas cpu)(fx self := cpu_fpu cpu)\<rparr>;
          self = self\<lparr>loadable := True\<rparr>;
          cpu = cpu\<lparr>cpu_fpu := if loadable next then fx_areas cpu (fx next) else init\<rparr>;
          r = cpu_regs cpu;
          self = self\<lparr>regs := (regs self)\<lparr>reg_flags := reg_flags r, reg_bx := reg_bx r, reg_di := reg_di r,
                              reg_si := reg_si r, reg_bp := reg_bp r, reg_sp := reg_sp r\<rparr>\<rparr>;
          n = regs next;
          cpu = cpu\<lparr>cpu_regs := r\<lparr>reg_flags := reg_flags n, reg_bx := reg_bx n, reg_di := reg_di n,
                                  reg_si := reg_si n, reg_bp := reg_bp n, reg_sp := reg_sp n\<rparr>\<rparr>
      in (cpu, self))"

section \<open>Operations of a context\<close>

definition canonicalize :: "string \<Rightarrow> string \<Rightarrow> string" where
  "canonicalize wd path =
     (let parent = slice_to wd (case rfind_char (\<lambda>c. c = CHR ''/'') (slice_to wd (length wd - 1)) of
                                   None \<Rightarrow> length wd | Some i \<Rightarrow> i + 1)
      in if find_char (\<lambda>c. c = CHR '':'') path = None then
           if path = ''.'' then wd
           else if path = ''..'' then parent
           else if take 2 path = ''./'' then wd @ slice_from path 2
           else if take 3 path = ''../'' then parent @ slice_from path 3
           else if take 1 path = ''/'' then
             slice_to wd (case find_char (\<lambda>c. c = CHR '':'') wd of None \<Rightarrow> 1 | Some i \<Rightarrow> i + 1) @ path
           else wd @ path
         else path)"

fun next_mem_loop :: "ContextMemory list \<Rightarrow> usize \<Rightarrow> usize" where
  "next_mem_loop [] next = next"
| "next_mem_loop (s # ss) next =
     (let pages = (virtual_size s + 4095) div 4096;
          fin = virtual_address s + pages * 4096
      in next_mem_loop ss (if next < fin then fin else next))"

definition next_mem :: "ContextMemory list \<Rightarrow> usize" where
  "next_mem ss = next_mem_loop ss 0"

fun translate_loop :: "ContextMemory list \<Rightarrow> usize \<Rightarrow> usize result" where
  "translate_loop [] p = Err EFAULT"
| "translate_loop (s # ss) p =
     (if p \<ge> virtual_address s \<and> p < virtual_address s + virtual_size s
      then Ok (p - virtual_address s + physical_address s) else translate_loop ss p)"

definition translate :: "ContextMemory option \<Rightarrow> ContextMemory list \<Rightarrow> usize \<Rightarrow> usize \<Rightarrow> usize result" where
  "translate st ss p len =
     (case st of
        Some s \<Rightarrow>
          if p \<ge> virtual_address s \<and> p + len \<le> virtual_address s + virtual_size s
          then Ok (p - virtual_address s + physical_address s) else translate_loop ss p
      | None \<Rightarrow> translate_loop ss p)"

text \<open>
  \<^verbatim>\<open>get_mem\<close> and \<^verbatim>\<open>get_mem_mut\<close> return the first segment at an address; its position
  in the list stands for the reference.
\<close>

fun get_mem :: "ContextMemory list \<Rightarrow> usize \<Rightarrow> nat result" where
  "get_mem [] p = Err ENOMEM"
| "get_mem (s # ss) p =
     (if virtual_address s = p then Ok 0 else (case get_mem ss p of Inl e \<Rightarrow> Err e | Inr i \<Rightarrow> Ok (Suc i)))"

text \<open>\<^verbatim>\<open>clean_mem\<close>: \<^verbatim>\<open>retain\<close> drops the removed segments.\<close>

definition clean_mem :: "mem \<Rightarrow> ContextMemory list \<Rightarrow> ContextMemory list \<times> mem" where
  "clean_mem m ss =
     (filter (\<lambda>s. virtual_size s > 0) ss, drop_segments m (filter (\<lambda>s. \<not> virtual_size s > 0) ss))"

text \<open>\<^verbatim>\<open>get_file\<close> and \<^verbatim>\<open>get_file_mut\<close>, again by position.\<close>

fun get_file :: "'r ContextFile list \<Rightarrow> usize \<Rightarrow> nat result" where
  "get_file [] fd = Err EBADF"
| "get_file (f # fs) fd =
     (if file_fd f = fd then Ok 0 else (case get_file fs fd of Inl e \<Rightarrow> Err e | Inr i \<Rightarrow> Ok (Suc i)))"

definition ctx_push :: "mem \<Rightarrow> Context \<Rightarrow> usize \<Rightarrow> mem \<times> Context" where
  "ctx_push m c data =
     (let sp = reg_sp (regs c) - SIZE_OF_USIZE
      in (write_usize m sp data, c\<lparr>regs := (regs c)\<lparr>reg_sp := sp\<rparr>\<rparr>))"

section \<open>Creating contexts\<close>

text \<open>A context as the constructors leave it, with three fresh cells.\<close>

definition blank_context :: "usize \<Rightarrow> string \<Rightarrow> usize \<Rightarrow> Regs \<Rightarrow> usize \<Rightarrow> nat \<Rightarrow> Context" where
  "blank_context p nm kstack rg fxa cell =
     \<lparr>pid = p, ppid = 0, ctx_name = nm, iopl = 3, blocked = False, exited = False, switch = 0,
      slices = 0, vfork = None, wake = None, kernel_stack = kstack, regs = rg, fx = fxa,
      ctx_stack = None, loadable = False, cwd = cell, memory = cell, files = cell,
      statuses = [], waiters = []\<rparr>"

definition fresh_cells :: "'r Kernel \<Rightarrow> 'r Kernel" where
  "fresh_cells k =
     k\<lparr>cwd_cell := (cwd_cell k)(fresh k := []), mem_cell := (mem_cell k)(fresh k := []),
       file_cell := (file_cell k)(fresh k := []), fresh := fresh k + 1\<rparr>"

text \<open>\<^verbatim>\<open>Context::root\<close>; \<^term>\<open>None\<close> when no pid is found.\<close>

definition context_root :: "'r Kernel \<Rightarrow> (Context \<times> 'r Kernel) option" where
  "context_root k =
     (let (fxa, m) = alloc (kmem k) 512;
          (p, k) = next_pid (k\<lparr>kmem := m\<rparr>)
      in case p of
           None \<Rightarrow> None
         | Some p \<Rightarrow> Some (blank_context p ''kidle'' 0 regs_default fxa (fresh k), fresh_cells k))"

text \<open>\<^verbatim>\<open>Context::new\<close>: a kernel stack with the arguments and the entry point pushed on it.\<close>

fun push_all :: "mem \<Rightarrow> Context \<Rightarrow> usize list \<Rightarrow> mem \<times> Context" where
  "push_all m c [] = (m, c)"
| "push_all m c (a # as) = (let (m, c) = ctx_push m c a in push_all m c as)"

definition context_new :: "'r Kernel \<Rightarrow> string \<Rightarrow> usize \<Rightarrow> usize list \<Rightarrow> (Context \<times> 'r Kernel) option" where
  "context_new k nm call args =
     (let (kstack, m) = alloc (kmem k) (CONTEXT_STACK_SIZE + 512);
          rg = regs_default\<lparr>reg_sp := kstack + CONTEXT_STACK_SIZE - 128\<rparr>;
          fxa = kstack + CONTEXT_STACK_SIZE;
          (p, k) = next_pid (k\<lparr>kmem := m\<rparr>)
      in case p of
           None \<Rightarrow> None
         | Some p \<Rightarrow>
             (let (m, c) = push_all (kmem k) (blank_context p nm kstack rg fxa (fresh k)) args;
                  (m, c) = ctx_push m c call
              in Some (c, (fresh_cells k)\<lparr>kmem := m\<rparr>)))"

text \<open>
  \<^verbatim>\<open>Context::spawn\<close>: the boxed function is a two-word object written to a fresh block;
  \<^term>\<open>entry\<close> is the address of \<^verbatim>\<open>context_box\<close>.
\<close>

definition context_spawn ::
  "'r Kernel \<Rightarrow> string \<Rightarrow> usize \<Rightarrow> usize \<times> usize \<Rightarrow> (usize \<times> 'r Kernel) option" where
  "context_spawn k nm entry box_fn =
     (let (p, m) = alloc (kmem k) 8;
          m = write_usize (write_usize m p (fst box_fn)) (p + 4) (snd box_fn)
      in case context_new (k\<lparr>kmem := m\<rparr>) nm entry [p, 0] of
           None \<Rightarrow> None
         | Some (c, k) \<Rightarrow> Some (pid c, push_context k c))"

section \<open>Cloning\<close>

text \<open>
  A copy of a segment in fresh memory, or nothing when no memory is left; the memory list
  copies segment by segment and leaves out those that fail.
\<close>

definition copy_segment :: "mem \<Rightarrow> ContextMemory \<Rightarrow> ContextMemory option \<times> mem" where
  "copy_segment m s =
     (let (p, m) = alloc m (virtual_size s)
      in if p > 0
         then (Some \<lparr>physical_address = p, virtual_address = virtual_address s,
                     virtual_size = virtual_size s, writeable = writeable s, allocated = True\<rparr>,
               memcpy m p (physical_address s) (virtual_size s))
         else (None, m))"

fun copy_segments :: "mem \<Rightarrow> ContextMemory list \<Rightarrow> ContextMemory list \<times> mem" where
  "copy_segments m [] = ([], m)"
| "copy_segments m (s # ss) =
     (let (c, m) = copy_segment m s; (cs, m) = copy_segments m ss
      in (case c of Some s' \<Rightarrow> s' # cs | None \<Rightarrow> cs, m))"

definition dup_files :: "('r \<Rightarrow> 'r result) \<Rightarrow> 'r ContextFile list \<Rightarrow> 'r ContextFile list" where
  "dup_files dup fs =
     concat (map (\<lambda>f. case dup (file_resource f) of
                        Inr r \<Rightarrow> [\<lparr>file_fd = file_fd f, file_resource = r\<rparr>]
                      | Inl _ \<Rightarrow> []) fs)"

definition has_flag :: "usize \<Rightarrow> usize \<Rightarrow> bool" where
  "has_flag fl f \<longleftrightarrow> fl AND f = f"

text \<open>
  \<^verbatim>\<open>context_clone\<close> up to the final switch of a \<^verbatim>\<open>vfork\<close>: \<^term>\<open>regs_addr\<close> is the
  address of the trap frame on the parent's kernel stack, \<^term>\<open>size_of_regs\<close> its size
  (twelve words on x86), \<^term>\<open>dup\<close> duplicates a resource.
\<close>

definition size_of_regs :: usize where [redox_consts]: "size_of_regs = 48"

definition clone_kernel_stack :: "usize \<Rightarrow> usize \<Rightarrow> Context \<Rightarrow> mem \<Rightarrow> mem" where
  "clone_kernel_stack regs_addr kstack parent m =
     (let extra = SIZE_OF_USIZE * 3;
          child_regs_addr = regs_addr - kernel_stack parent + kstack;
          m = memcpy m (child_regs_addr - extra) (regs_addr - extra) (size_of_regs + extra);
          m = write_usize m child_regs_addr 0
      in memcpy m (kstack + CONTEXT_STACK_SIZE) (fx parent) 512)"

definition clone_context ::
  "('r \<Rightarrow> 'r result) \<Rightarrow> usize \<Rightarrow> Regs \<Rightarrow> usize \<Rightarrow> usize \<Rightarrow> Context \<Rightarrow> 'r Kernel \<Rightarrow> Context \<times> 'r Kernel" where
  "clone_context dup regs_addr rg clone_pid kstack parent k =
     (let fl = reg_bx rg;
          m = clone_kernel_stack regs_addr kstack parent (kmem k);
          kregs = (regs parent)\<lparr>reg_sp := regs_addr - kernel_stack parent + kstack - SIZE_OF_USIZE * 3\<rparr>;
          fxa = kstack + CONTEXT_STACK_SIZE;
          (stack', m) = (case ctx_stack parent of Some s \<Rightarrow> copy_segment m s | None \<Rightarrow> (None, m));
          cell = fresh k;
          k = k\<lparr>fresh := cell + 1\<rparr>;
          (cwd', k) = (if has_flag fl CLONE_FS then (cwd parent, k)
                       else (cell, k\<lparr>cwd_cell := (cwd_cell k)(cell := cwd_cell k (cwd parent))\<rparr>));
          (mem', m, k) = (if has_flag fl CLONE_VM then (memory parent, m, k)
                          else let (ss, m) = copy_segments m (mem_cell k (memory parent))
                               in (cell, m, k\<lparr>mem_cell := (mem_cell k)(cell := ss)\<rparr>));
          (files', k) = (if has_flag fl CLONE_FILES then (files parent, k)
                         else (cell, k\<lparr>file_cell := (file_cell k)(cell := dup_files dup (file_cell k (files parent)))\<rparr>))
      in (\<lparr>pid = clone_pid, ppid = pid parent, ctx_name = ctx_name parent, iopl = iopl parent,
           blocked = False, exited = False, switch = 0, slices = 0,
           vfork = (if has_flag fl CLONE_VFORK then Some (pid parent) else None), wake = None,
           kernel_stack = kstack, regs = kregs, fx = fxa, ctx_stack = stack', loadable = loadable parent,
           cwd = cwd', memory = mem', files = files', statuses = [], waiters = []\<rparr>,
          k\<lparr>kmem := m\<rparr>))"

text \<open>The outer \<^term>\<open>None\<close> is a pid search that does not end.\<close>

definition context_clone ::
  "('r \<Rightarrow> 'r result) \<Rightarrow> usize \<Rightarrow> Regs \<Rightarrow> 'r Kernel \<Rightarrow> (usize result \<times> 'r Kernel) option" where
  "context_clone dup regs_addr rg k =
     (let (kstack, m) = alloc (kmem k) (CONTEXT_STACK_SIZE + 512); k = k\<lparr>kmem := m\<rparr>
      in if kstack > 0 then
           (case next_pid k of
              (None, k) \<Rightarrow> None
            | (Some clone_pid, k) \<Rightarrow>
                (case current k of
                   Inl e \<Rightarrow> Some (Err e, k)
                 | Inr parent \<Rightarrow>
                     (let (child, k) = clone_context dup regs_addr rg clone_pid kstack parent k;
                          k = (if has_flag (reg_bx rg) CLONE_VFORK
                               then put_context k (cur_i k) (parent\<lparr>blocked := True\<rparr>) else k)
                      in Some (Ok clone_pid, push_context k child))))
         else Some (Err ENOMEM, k))"

end
