(* ===== verification/Scheduling.thy ===== *)
theory Scheduling
  imports Context
begin

text \<open>
  Correctness of the context manager: process and file numbers are fresh, the scheduler's
  search ends and finds a runnable context without losing a living one, switching exchanges
  registers and page mappings.
\<close>

section \<open>Fresh numbers\<close>

lemma next_free_Some:
  "next_free r taken n = Some v \<Longrightarrow>
     v \<notin> set taken \<and> (\<exists>j < r. v = n + of_nat j \<and> (\<forall>i < j. n + of_nat i \<in> set taken))"
proof (induction r arbitrary: n)
  case (Suc r)
  show ?case
  proof (cases "n \<in> set taken")
    case True
    with Suc obtain j where v: "v \<notin> set taken" "j < r" "v = n + 1 + of_nat j"
      "\<forall>i < j. n + 1 + of_nat i \<in> set taken"
      by auto
    have "n + of_nat i \<in> set taken" if "i < Suc j" for i
      using that True v(4) by (cases i) (auto simp: add.assoc)
    then show ?thesis using v by (intro conjI exI[of _ "Suc j"]) (auto simp: add.assoc)
  qed (use Suc in auto)
qed simp

lemma next_free_None: "next_free r taken n = None \<Longrightarrow> j < r \<Longrightarrow> n + of_nat j \<in> set taken"
proof (induction r arbitrary: n j)
  case (Suc r)
  then show ?case
    by (cases j) (auto simp: add.assoc split: if_splits dest: Suc.IH[of "n + 1"])
qed simp

text \<open>With fewer than all numbers taken, as many rounds as taken numbers plus one are enough.\<close>

lemma next_free_total:
  assumes "length taken < 2 ^ 32"
  shows "\<exists>v. next_free (Suc (length taken)) taken n = Some v"
proof (rule ccontr)
  assume "\<nexists>v. next_free (Suc (length taken)) taken n = Some v"
  then have none: "next_free (Suc (length taken)) taken n = None" by simp
  let ?f = "\<lambda>j. n + of_nat j :: usize"
  have "inj_on ?f {..length taken}"
    using assms by (auto simp: inj_on_def of_nat_eq_word_iff)
  moreover have "?f ` {..length taken} \<subseteq> set taken"
    using next_free_None[OF none] by auto
  ultimately have "card {..length taken} \<le> card (set taken)"
    by (metis card_inj_on_le List.finite_set)
  then show False using card_length[of taken] by simp
qed

lemma next_fd_fresh:
  assumes "length fs < 2 ^ 32"
  shows "\<exists>fd. next_fd fs = Some fd \<and> fd \<notin> file_fd ` set fs \<and> (\<forall>w < fd. w \<in> file_fd ` set fs)"
proof -
  obtain fd where fd: "next_fd fs = Some fd"
    using next_free_total[of "map file_fd fs"] assms by (auto simp: next_fd_def)
  from next_free_Some[OF this[unfolded next_fd_def]] obtain j where
    j: "fd \<notin> file_fd ` set fs" "fd = of_nat j" "j < Suc (length fs)" "\<forall>i < j. of_nat i \<in> file_fd ` set fs"
    by auto
  have "w \<in> file_fd ` set fs" if "w < fd" for w
  proof -
    have "unat w < j" using that j(2,3) assms by (simp add: word_less_nat_alt unat_of_nat_lt)
    then have "(of_nat (unat w) :: usize) \<in> file_fd ` set fs" using j(4) by blast
    then show ?thesis by simp
  qed
  with fd j(1) show ?thesis by blast
qed

lemma next_pid_fresh:
  assumes "length (inner k) < 2 ^ 32"
  obtains p hint where "next_pid k = (Some p, k\<lparr>pid_hint := hint\<rparr>)" and "p \<notin> pid ` set (inner k)"
proof -
  obtain p where p: "next_free (Suc (length (inner k))) (map pid (inner k)) (pid_hint k) = Some p"
    using next_free_total[of "map pid (inner k)"] assms by auto
  show ?thesis
    by (rule that[of p "if p + 1 \<ge> 65536 then 1 else p + 1"])
       (use p next_free_Some[OF p] in \<open>auto simp: next_pid_def Let_def\<close>)
qed

section \<open>The scheduler's search\<close>

text \<open>A context that is unchanged or has been unblocked.\<close>

definition ctx_rel :: "Context \<Rightarrow> Context \<Rightarrow> bool" where
  "ctx_rel a b \<longleftrightarrow> b = a \<or> b = a\<lparr>blocked := False\<rparr>"

lemma ctx_rel_refl [simp]: "ctx_rel a a"
  by (simp add: ctx_rel_def)

lemma ctx_rel_trans: "ctx_rel a b \<Longrightarrow> ctx_rel b c \<Longrightarrow> ctx_rel a c"
  by (auto simp: ctx_rel_def)

lemma ctx_rel_keeps:
  "ctx_rel a b \<Longrightarrow> pid b = pid a \<and> exited b = exited a \<and> (\<not> blocked a \<longrightarrow> \<not> blocked b)"
  by (auto simp: ctx_rel_def)

lemma unblock_rel: "list_all2 ctx_rel cs (unblock p cs)"
  by (auto simp: unblock_def list_all2_conv_all_nth ctx_rel_def)

lemma dropped_rel: "list_all2 ctx_rel (inner k) (inner (drop_context k c))"
  by (auto simp: inner_drop_context unblock_rel list.rel_refl split: option.splits)

text \<open>
  The idle context, the first one, is never blocked and never exits; the scheduler relies on it.
\<close>

definition idle_ok :: "'r Kernel \<Rightarrow> bool" where
  "idle_ok k \<longleftrightarrow> enabled k \<and> inner k \<noteq> [] \<and> \<not> blocked (inner k ! 0) \<and> \<not> exited (inner k ! 0)"

text \<open>No living context is lost: each one is still in the list, possibly unblocked.\<close>

definition keeps_living :: "Context list \<Rightarrow> Context list \<Rightarrow> bool" where
  "keeps_living cs ds \<longleftrightarrow> (\<forall>c \<in> set cs. \<not> exited c \<longrightarrow> (\<exists>d \<in> set ds. pid d = pid c \<and> \<not> exited d))"

lemma keeps_living_refl [simp]: "keeps_living cs cs"
  by (auto simp: keeps_living_def)

lemma keeps_living_trans: "keeps_living cs ds \<Longrightarrow> keeps_living ds es \<Longrightarrow> keeps_living cs es"
  unfolding keeps_living_def by metis

lemma rel_keeps_living: "list_all2 ctx_rel cs ds \<Longrightarrow> keeps_living cs ds"
  unfolding keeps_living_def list_all2_conv_all_nth
  by (metis ctx_rel_keeps in_set_conv_nth)

lemma remove_exited_keeps:
  assumes "i < length cs" and "exited (cs ! i)"
  shows "keeps_living cs (remove_at i cs)"
proof -
  have "cs = take i cs @ cs ! i # drop (Suc i) cs"
    using assms(1) by (rule id_take_nth_drop)
  then have "c \<in> set (remove_at i cs)" if "c \<in> set cs" "\<not> exited c" for c
    using that assms(2) unfolding remove_at_def
    by (metis Un_iff list.set_intros(1) set_ConsD set_append)
  then show ?thesis by (auto simp: keeps_living_def)
qed

text \<open>What \<^const>\<open>clean\<close> does at a position after the first.\<close>

definition cleaned :: "'r Kernel \<Rightarrow> 'r Kernel \<Rightarrow> bool" where
  "cleaned k k' \<longleftrightarrow> idle_ok k' \<and> clock_monotonic k' = clock_monotonic k
     \<and> cur_i k \<le> length (inner k') \<and> length (inner k') \<le> length (inner k)
     \<and> list_all2 ctx_rel (take (cur_i k) (inner k)) (take (cur_i k) (inner k'))
     \<and> keeps_living (inner k) (inner k')
     \<and> (if cur_i k < length (inner k') then cur_i k' = cur_i k \<and> \<not> exited (inner k' ! cur_i k)
        else cur_i k' = 0)"

lemma clean_cleans:
  assumes "idle_ok k" and "0 < cur_i k" and "cur_i k \<le> length (inner k)"
  shows "cleaned k (clean k)"
  using assms
proof (induction k rule: clean.induct)
  case (1 k)
  show ?case
  proof (cases "cur_i k < length (inner k)")
    case False
    then have "cur_i k = length (inner k)" using "1.prems" by simp
    then have w: "wrap_index k = k\<lparr>cur_i := 0\<rparr>" by (simp add: wrap_index_def)
    have ne: "inner k \<noteq> []" using "1.prems" by (simp add: idle_ok_def)
    then have "current (k\<lparr>cur_i := 0\<rparr>) = Ok (inner k ! 0)"
      using "1.prems" by (simp add: current_def manager_get_def idle_ok_def)
    then have "clean k = k\<lparr>cur_i := 0\<rparr>"
      using "1.prems" ne by (subst clean.simps) (simp only: w Let_def, simp add: idle_ok_def wrap_index_def)
    then show ?thesis
      using "1.prems" \<open>cur_i k = length (inner k)\<close>
      by (simp add: cleaned_def idle_ok_def list.rel_refl)
  next
    case True
    then have w: "wrap_index k = k" by (simp add: wrap_index_def)
    have c: "current k = Ok (inner k ! cur_i k)"
      using "1.prems" True by (simp add: current_def manager_get_def idle_ok_def)
    show ?thesis
    proof (cases "exited (inner k ! cur_i k)")
      case False
      then have "clean k = k" by (subst clean.simps) (simp add: w c)
      then show ?thesis using "1.prems" True False by (simp add: cleaned_def list.rel_refl)
    next
      case ex: True
      define k1 where "k1 = k\<lparr>inner := remove_at (cur_i k) (inner k)\<rparr>"
      define k2 where "k2 = drop_context k1 (inner k ! cur_i k)"
      have rel: "list_all2 ctx_rel (remove_at (cur_i k) (inner k)) (inner k2)"
        using dropped_rel[of k1] by (simp add: k1_def k2_def)
      have len: "length (inner k2) = length (inner k) - 1"
        using True by (simp add: k1_def k2_def length_remove_at)
      have pre: "list_all2 ctx_rel (take (cur_i k) (inner k)) (take (cur_i k) (inner k2))"
        using list_all2_takeI[OF rel, of "cur_i k"] True by (simp add: remove_at_def)
      have zero: "ctx_rel (inner k ! 0) (inner k2 ! 0)"
        using list_all2_nthD[OF pre, of 0] "1.prems"(2) True by simp
      have "inner k2 \<noteq> []" using len "1.prems"(2) True by auto
      moreover have "enabled k2" using "1.prems"(1) by (simp add: k1_def k2_def idle_ok_def)
      ultimately have ok: "idle_ok k2"
        using "1.prems"(1) ctx_rel_keeps[OF zero] by (simp add: idle_ok_def)
      have eq: "clean k = clean k2"
        by (subst clean.simps) (simp add: w c ex k1_def k2_def)
      have "cleaned k2 (clean k2)"
        using "1.IH"[OF w[symmetric] c ex] ok "1.prems" len True
        by (simp add: k1_def k2_def)
      then show ?thesis
        unfolding eq cleaned_def
        using len pre rel True remove_exited_keeps[OF True ex] rel_keeps_living[OF rel]
        by (auto simp: k1_def k2_def intro: keeps_living_trans list_all2_trans[OF ctx_rel_trans])
    qed
  qed
qed

text \<open>The state the search may be in, and the one it may end in, relative to the start.\<close>

definition searching :: "nat \<Rightarrow> 'r Kernel \<Rightarrow> 'r Kernel \<Rightarrow> bool" where
  "searching i k k' \<longleftrightarrow> idle_ok k' \<and> i \<le> cur_i k' \<and> cur_i k' < length (inner k')
     \<and> list_all2 ctx_rel (take (Suc i) (inner k)) (take (Suc i) (inner k'))
     \<and> keeps_living (inner k) (inner k')"

definition found :: "nat \<Rightarrow> 'r Kernel \<Rightarrow> 'r Kernel \<Rightarrow> bool" where
  "found i k k' \<longleftrightarrow> idle_ok k' \<and> cur_i k' < length (inner k') \<and> i < length (inner k')
     \<and> \<not> blocked (inner k' ! cur_i k') \<and> \<not> exited (inner k' ! cur_i k')
     \<and> (cur_i k' = 0 \<or> i < cur_i k')
     \<and> list_all2 ctx_rel (take (Suc i) (inner k)) (take (Suc i) (inner k'))
     \<and> keeps_living (inner k) (inner k')"

lemma current_idle: "idle_ok k \<Longrightarrow> cur_i k < length (inner k) \<Longrightarrow> current k = Ok (inner k ! cur_i k)"
  by (simp add: current_def manager_get_def idle_ok_def)

lemma keeps_living_update:
  "j < length cs \<Longrightarrow> pid c = pid (cs ! j) \<Longrightarrow> exited c = exited (cs ! j) \<Longrightarrow> keeps_living cs (cs[j := c])"
  unfolding keeps_living_def
  by (metis in_set_conv_nth length_list_update nth_list_update)

lemma rel_take_mono:
  assumes "list_all2 ctx_rel (take n xs) (take n ys)" and "m \<le> n"
  shows "list_all2 ctx_rel (take m xs) (take m ys)"
  using list_all2_takeI[OF assms(1), of m] assms(2) by (simp add: min_absorb1)

lemma search_step_spec:
  assumes "searching i k0 k"
  shows "case search_step i k of
      Inr k' \<Rightarrow> found i k0 k'
    | Inl k' \<Rightarrow> searching i k0 k' \<and> length (inner k') - cur_i k' < length (inner k) - cur_i k"
proof -
  define k1 where "k1 = clean (k\<lparr>cur_i := cur_i k + 1\<rparr>)"
  have S: "idle_ok k" "i \<le> cur_i k" "cur_i k < length (inner k)"
    "list_all2 ctx_rel (take (Suc i) (inner k0)) (take (Suc i) (inner k))" "keeps_living (inner k0) (inner k)"
    using assms by (auto simp: searching_def)
  have "cleaned (k\<lparr>cur_i := cur_i k + 1\<rparr>) k1"
    unfolding k1_def by (rule clean_cleans) (use S in \<open>auto simp: idle_ok_def\<close>)
  then have C: "idle_ok k1" "Suc (cur_i k) \<le> length (inner k1)" "length (inner k1) \<le> length (inner k)"
    "list_all2 ctx_rel (take (Suc (cur_i k)) (inner k)) (take (Suc (cur_i k)) (inner k1))"
    "keeps_living (inner k) (inner k1)"
    and at: "if Suc (cur_i k) < length (inner k1) then cur_i k1 = Suc (cur_i k) \<and> \<not> exited (inner k1 ! Suc (cur_i k))
      else cur_i k1 = 0"
    by (auto simp: cleaned_def)
  have pre: "list_all2 ctx_rel (take (Suc i) (inner k0)) (take (Suc i) (inner k1))"
    using list_all2_trans[OF ctx_rel_trans S(4) rel_take_mono[OF C(4)]] S(2) by simp
  have live: "keeps_living (inner k0) (inner k1)" using keeps_living_trans S(5) C(5) by blast
  have lt: "cur_i k1 < length (inner k1)" using at C(1) by (auto simp: idle_ok_def split: if_splits)
  note cur = current_idle[OF C(1) lt]
  have step: "search_step i k =
     (let next = inner k1 ! cur_i k1; continue = (if cur_i k1 = i then Inr k1 else Inl k1)
      in if blocked next then
           (case wake next of
              Some w \<Rightarrow> if duration_le w (clock_monotonic k1)
                then Inr (put_context k1 (cur_i k1) (next\<lparr>blocked := False, wake := None\<rparr>)) else continue
            | None \<Rightarrow> continue)
         else Inr k1)"
    unfolding search_step_def k1_def[symmetric] Let_def cur by simp
  show ?thesis
  proof (cases "blocked (inner k1 ! cur_i k1)")
    case False
    moreover have "\<not> exited (inner k1 ! cur_i k1)" "cur_i k1 = 0 \<or> i < cur_i k1"
      using at C(1) S(2) by (auto simp: idle_ok_def split: if_splits)
    ultimately have "found i k0 k1"
      using C S(2) lt pre live by (simp add: found_def)
    then show ?thesis using False by (simp add: step Let_def)
  next
    case True
    then have pos: "Suc (cur_i k) < length (inner k1)" "cur_i k1 = Suc (cur_i k)" "\<not> exited (inner k1 ! cur_i k1)"
      using at C(1) by (auto simp: idle_ok_def split: if_splits)
    have go: "searching i k0 k1 \<and> length (inner k1) - cur_i k1 < length (inner k) - cur_i k"
      using C S pos pre live by (auto simp: searching_def)
    define w where "w = put_context k1 (cur_i k1) ((inner k1 ! cur_i k1)\<lparr>blocked := False, wake := None\<rparr>)"
    have "take (Suc i) (inner w) = take (Suc i) (inner k1)" "inner w ! 0 = inner k1 ! 0"
      using pos S(2) by (simp_all add: w_def put_context_def)
    moreover have "keeps_living (inner k1) (inner w)"
      unfolding w_def put_context_def by (simp add: keeps_living_update[OF lt])
    ultimately have "found i k0 w"
      using C(1) pos S(2) pre keeps_living_trans[OF live, of "inner w"]
      by (auto simp: found_def w_def put_context_def idle_ok_def)
    with go True pos S(2) show ?thesis
      by (auto simp: step Let_def w_def split: option.splits)
  qed
qed

text \<open>Every round of the search that does not end it moves the position closer to the end of the list.\<close>

lemma search_finds:
  assumes "searching i k0 k" and "length (inner k) - cur_i k \<le> fuel"
  shows "\<exists>k'. search fuel i k = Some k' \<and> found i k0 k'"
  using assms
proof (induction fuel arbitrary: k)
  case 0
  then show ?case by (simp add: searching_def)
next
  case (Suc fuel)
  show ?case
  proof (cases "search_step i k")
    case (Inl k')
    then show ?thesis
      using search_step_spec[OF Suc.prems(1)] Suc.IH[of k'] Suc.prems(2) by auto
  next
    case (Inr k')
    then show ?thesis using search_step_spec[OF Suc.prems(1)] by simp
  qed
qed

lemma searching_start:
  "idle_ok k \<Longrightarrow> cur_i k < length (inner k) \<Longrightarrow> searching (cur_i k) k k"
  by (simp add: searching_def list.rel_refl)

section \<open>Address spaces\<close>

text \<open>All segments of a context in the order they are mapped.\<close>

definition segments :: "'r Kernel \<Rightarrow> Context \<Rightarrow> ContextMemory list" where
  "segments k c = (case ctx_stack c of Some s \<Rightarrow> [s] | None \<Rightarrow> []) @ mem_cell k (memory c)"

text \<open>The segment that owns an address: the one mapped last.\<close>

definition seg_of :: "ContextMemory list \<Rightarrow> usize \<Rightarrow> ContextMemory option" where
  "seg_of ss va = find (\<lambda>s. on_seg s va) (rev ss)"

lemma foldl_map_entry:
  assumes "\<forall>s \<in> set ss. seg_ok s"
  shows "page_entry (foldl segment_map m ss) va =
    (case seg_of ss va of Some s \<Rightarrow> seg_entry s va | None \<Rightarrow> page_entry m va)"
  using assms by (induction ss rule: rev_induct) (simp_all add: seg_of_def segment_map_entry)

lemma foldl_unmap_entry:
  assumes "\<forall>s \<in> set ss. seg_ok s"
  shows "page_entry (foldl segment_unmap m ss) va =
    (if \<exists>s \<in> set ss. on_seg s va then kernel_entry va else page_entry m va)"
  using assms by (induction ss rule: rev_induct) (auto simp: segment_unmap_entry)

lemma context_map_foldl: "context_map k c m = foldl segment_map m (segments k c)"
  by (simp add: context_map_def segments_def split: option.splits)

lemma context_map_entry:
  assumes "\<forall>s \<in> set (segments k c). seg_ok s"
  shows "page_entry (context_map k c m) va =
    (case seg_of (segments k c) va of Some s \<Rightarrow> seg_entry s va | None \<Rightarrow> page_entry m va)"
  unfolding context_map_foldl by (rule foldl_map_entry[OF assms])

lemma context_unmap_entry:
  assumes "\<forall>s \<in> set (segments k c). seg_ok s"
  shows "page_entry (context_unmap k c m) va =
    (if \<exists>s \<in> set (segments k c). on_seg s va then kernel_entry va else page_entry m va)"
proof -
  have "\<forall>s \<in> set (mem_cell k (memory c)). seg_ok s" using assms by (auto simp: segments_def)
  then show ?thesis
    using assms foldl_unmap_entry[of "mem_cell k (memory c)" m va]
    by (auto simp: context_unmap_def segments_def Let_def segment_unmap_entry split: option.splits)
qed

lemma segments_cong: "ctx_stack c = ctx_stack d \<Longrightarrow> memory c = memory d \<Longrightarrow> mem_cell k = mem_cell k' \<Longrightarrow>
    segments k c = segments k' d"
  by (simp add: segments_def)

lemma context_map_switch [simp]:
  "context_map k (c\<lparr>switch := n\<rparr>) = context_map k c"
  by (rule ext) (simp add: context_map_def)

section \<open>Properties\<close>

text \<open>
  C33. Process numbers never collide: as long as there are fewer contexts than numbers, the
  search for a process number ends within one round per context, returns a number no context
  has, and changes nothing but the hint for the next search. Likewise the search for a file
  descriptor returns the least descriptor that is not in use.
\<close>

theorem fresh_numbers:
  assumes "length (inner k) < 2 ^ 32" and "length fs < 2 ^ 32"
  shows "(\<exists>p hint. next_pid k = (Some p, k\<lparr>pid_hint := hint\<rparr>) \<and> p \<notin> pid ` set (inner k))
    \<and> (\<exists>fd. next_fd fs = Some fd \<and> fd \<notin> file_fd ` set fs \<and> (\<forall>w < fd. w \<in> file_fd ` set fs))"
proof
  obtain p hint where "next_pid k = (Some p, k\<lparr>pid_hint := hint\<rparr>)" "p \<notin> pid ` set (inner k)"
    by (rule next_pid_fresh[OF assms(1)])
  then show "\<exists>p hint. next_pid k = (Some p, k\<lparr>pid_hint := hint\<rparr>) \<and> p \<notin> pid ` set (inner k)" by blast
qed (rule next_fd_fresh[OF assms(2)])

definition demo_context :: "usize \<Rightarrow> bool \<Rightarrow> bool \<Rightarrow> Context" where
  "demo_context p b e = (blank_context p ''demo'' 0 regs_default 0 0)\<lparr>blocked := b, exited := e\<rparr>"

definition demo_kernel :: "Context list \<Rightarrow> nat \<Rightarrow> unit Kernel" where
  "demo_kernel cs i =
     \<lparr>kmem = (\<lambda>_. 0), inner = cs, enabled = True, cur_i = i, pid_hint = 1,
      clock_monotonic = \<lparr>secs = 0, nanos = 0\<rparr>, clock_realtime = \<lparr>secs = 0, nanos = 0\<rparr>, tss_sp0 = 0,
      cwd_cell = (\<lambda>_. []), mem_cell = (\<lambda>_. []), file_cell = (\<lambda>_. []), fresh = 1\<rparr>"

theorem fresh_numbers_witness:
  "next_fd [\<lparr>file_fd = 0, file_resource = ()\<rparr>, \<lparr>file_fd = 2, file_resource = ()\<rparr>] = Some 1
   \<and> (\<exists>p hint. next_pid (demo_kernel [demo_context 1 False False] 0) =
        (Some p, (demo_kernel [demo_context 1 False False] 0)\<lparr>pid_hint := hint\<rparr>) \<and> p \<noteq> 1)"
  using fresh_numbers[of "demo_kernel [demo_context 1 False False] 0"
      "[\<lparr>file_fd = 0, file_resource = ()\<rparr>, \<lparr>file_fd = 2, file_resource = ()\<rparr>]"]
  by (auto simp: demo_kernel_def demo_context_def blank_context_def next_fd_def)

text \<open>
  C3. The scheduler always finds a context to run. In a state where the idle context (the first)
  is neither blocked nor exited and the current position is in the list, a context switch
  returns after at most one round per context; the context it selects is neither blocked nor
  exited; no living context is lost from the list (only exited ones are removed); the position of
  the context it leaves still denotes that context, so its registers are saved to the right
  place; and the idle context stays runnable.
\<close>

theorem context_switch_finds:
  assumes "idle_ok k" and "cur_i k < length (inner k)"
  shows "\<exists>r k' c. context_switch (length (inner k)) k = Some (r, k')
    \<and> current k' = Ok c \<and> \<not> blocked c \<and> \<not> exited c
    \<and> keeps_living (inner k) (inner k')
    \<and> pid (inner k' ! cur_i k) = pid (inner k ! cur_i k)
    \<and> r = (if cur_i k' = cur_i k then None else Some (cur_i k, cur_i k'))
    \<and> idle_ok k'"
proof -
  obtain k1 where s: "search (length (inner k)) (cur_i k) k = Some k1" and f: "found (cur_i k) k k1"
    using search_finds[OF searching_start[OF assms]] by (meson diff_le_self)
  have F: "idle_ok k1" "cur_i k1 < length (inner k1)" "cur_i k < length (inner k1)"
    "\<not> blocked (inner k1 ! cur_i k1)" "\<not> exited (inner k1 ! cur_i k1)" "keeps_living (inner k) (inner k1)"
    "list_all2 ctx_rel (take (Suc (cur_i k)) (inner k)) (take (Suc (cur_i k)) (inner k1))"
    using f by (auto simp: found_def)
  have "ctx_rel (inner k ! cur_i k) (inner k1 ! cur_i k)"
    using list_all2_nthD[OF F(7), of "cur_i k"] assms(2) F(3) by simp
  then have p: "pid (inner k1 ! cur_i k) = pid (inner k ! cur_i k)" by (simp add: ctx_rel_keeps)
  obtain r k2 where sw: "switch_contexts (cur_i k) k1 = (r, k2)" by fastforce
  have cs: "context_switch (length (inner k)) k = Some (r, k2)"
    using assms(1) by (simp add: context_switch_def idle_ok_def s sw)
  have en: "enabled k1" using F(1) by (simp add: idle_ok_def)
  show ?thesis
  proof (cases "cur_i k1 = cur_i k")
    case True
    then have "k2 = k1" "r = None" using sw by (simp_all add: switch_contexts_def)
    then show ?thesis using cs F p True current_idle[OF F(1,2)] by auto
  next
    case False
    define c where "c = (inner k1 ! cur_i k1)\<lparr>switch := switch (inner k1 ! cur_i k1) + 1\<rparr>"
    have inner2: "inner k2 = (inner k1)[cur_i k1 := c]" "cur_i k2 = cur_i k1" "enabled k2"
      and r: "r = Some (cur_i k, cur_i k1)"
      using sw False F(2,3) en
      by (auto simp: switch_contexts_def manager_get_def current_def put_context_def Let_def c_def)
    have "keeps_living (inner k1) (inner k2)"
      unfolding inner2 by (rule keeps_living_update[OF F(2)]) (simp_all add: c_def)
    then have "keeps_living (inner k) (inner k2)" using F(6) keeps_living_trans by blast
    moreover have "idle_ok k2"
      using F(1,2) inner2 by (cases "cur_i k1") (auto simp: idle_ok_def c_def)
    moreover have "current k2 = Ok c" using inner2 F(2) by (simp add: current_def manager_get_def)
    ultimately show ?thesis
      using cs r p False F inner2 by (auto simp: c_def)
  qed
qed

text \<open>Of three contexts, the second exited and the third blocked, the idle one is selected from itself.\<close>

theorem context_switch_finds_witness:
  "\<exists>r k' c. context_switch 3 (demo_kernel [demo_context 1 False False, demo_context 2 False True, demo_context 3 True False] 0)
     = Some (r, k') \<and> current k' = Ok c \<and> \<not> blocked c \<and> \<not> exited c"
proof -
  let ?k = "demo_kernel [demo_context 1 False False, demo_context 2 False True, demo_context 3 True False] 0"
  have "idle_ok ?k" "cur_i ?k < length (inner ?k)" "length (inner ?k) = 3"
    by (simp_all add: idle_ok_def demo_kernel_def demo_context_def blank_context_def)
  with context_switch_finds[of ?k] show ?thesis by metis
qed

text \<open>
  C26. A context switch exchanges address spaces. After switching from one context to another,
  every page of the new context's segments is mapped to its physical frame with exactly its
  rights, every other page of the old context's segments is the kernel's own again, not
  accessible from user space, and all remaining pages are as before.
\<close>

theorem switch_exchanges_pages:
  assumes "enabled k" and "a < length (inner k)" and "cur_i k < length (inner k)" and "cur_i k \<noteq> a"
    and "\<forall>s \<in> set (segments k (inner k ! a)). seg_ok s"
    and "\<forall>s \<in> set (segments k (inner k ! cur_i k)). seg_ok s"
  shows "page_entry (kmem (snd (switch_contexts a k))) va =
    (case seg_of (segments k (inner k ! cur_i k)) va of
       Some s \<Rightarrow> seg_entry s va
     | None \<Rightarrow>
         if \<exists>s \<in> set (segments k (inner k ! a)). on_seg s va then kernel_entry va
         else page_entry (kmem k) va)
    \<and> kernel_entry va AND PF_USER = 0"
proof -
  define m where "m = context_unmap k (inner k ! a) (kmem k)"
  have "kmem (snd (switch_contexts a k)) = context_map k (inner k ! cur_i k) m"
    using assms(1-4)
    by (simp add: switch_contexts_def manager_get_def current_def put_context_def Let_def m_def
        context_map_def split: option.splits)
  moreover have "kernel_entry va AND PF_USER = 0"
    by (simp add: kernel_entry_def bit.conj_disj_distrib2 and.assoc redox_consts)
  ultimately show ?thesis
    using context_map_entry[OF assms(6), of m va] context_unmap_entry[OF assms(5), of "kmem k" va]
    by (simp add: m_def split: option.splits)
qed

definition demo_segment :: ContextMemory where
  "demo_segment = \<lparr>physical_address = 0xA01000, virtual_address = 0x80000000, virtual_size = 100,
     writeable = True, allocated = True\<rparr>"

definition demo_switch :: "unit Kernel" where
  "demo_switch = (demo_kernel [demo_context 1 False False, (demo_context 2 False False)\<lparr>ctx_stack := Some demo_segment\<rparr>] 1)"

theorem switch_exchanges_pages_witness:
  "page_entry (kmem (snd (switch_contexts 0 demo_switch))) 0x80000010 = 0xA01007"
proof -
  have segs: "segments demo_switch (inner demo_switch ! 0) = []"
    "segments demo_switch (inner demo_switch ! cur_i demo_switch) = [demo_segment]"
    by (simp_all add: demo_switch_def demo_kernel_def demo_context_def blank_context_def segments_def)
  have "seg_ok demo_segment" by (simp add: seg_ok_def demo_segment_def)
  moreover have "page_no 0x80000010 = 0x80000" "seg_first demo_segment = 0x80000" "seg_count demo_segment = 1"
    by (simp_all add: page_no_def seg_first_def seg_count_def demo_segment_def)
  moreover have "enabled demo_switch" "0 < length (inner demo_switch)"
    "cur_i demo_switch < length (inner demo_switch)" "cur_i demo_switch \<noteq> 0"
    by (simp_all add: demo_switch_def demo_kernel_def)
  ultimately show ?thesis
    using switch_exchanges_pages[of demo_switch 0 "0x80000010"]
    by (simp add: segs seg_of_def on_seg_def seg_entry_def) (simp add: demo_segment_def redox_consts)
qed

text \<open>
  Registers survive a round trip: when a context is switched out and later, whatever ran in
  between, switched back in, the processor's stack pointer, base pointer, index and
  base registers, flags and floating-point state are the ones it was switched out with,
  provided its saved registers and its save area were left alone.
\<close>

theorem switch_roundtrip:
  assumes "switch_to init cpu a b = (cpu1, a1)"
    and "fx_areas cpu2 (fx a) = fx_areas cpu1 (fx a)" and "fx other \<noteq> fx a"
    and "switch_to init cpu2 other a1 = (cpu3, other1)"
  shows "reg_sp (cpu_regs cpu3) = reg_sp (cpu_regs cpu) \<and> reg_bp (cpu_regs cpu3) = reg_bp (cpu_regs cpu)
    \<and> reg_bx (cpu_regs cpu3) = reg_bx (cpu_regs cpu) \<and> reg_si (cpu_regs cpu3) = reg_si (cpu_regs cpu)
    \<and> reg_di (cpu_regs cpu3) = reg_di (cpu_regs cpu) \<and> reg_flags (cpu_regs cpu3) = reg_flags (cpu_regs cpu)
    \<and> cpu_fpu cpu3 = cpu_fpu cpu"
  using assms by (auto simp: switch_to_def Let_def)

definition demo_cpu :: "nat Cpu" where
  "demo_cpu = \<lparr>cpu_regs = regs_default\<lparr>reg_sp := 0x1000\<rparr>, cpu_fpu = 7, fx_areas = (\<lambda>_. 0)\<rparr>"

definition demo_there :: "nat Cpu \<times> Context" where
  "demo_there = switch_to 0 demo_cpu (demo_context 1 False False) ((demo_context 2 False False)\<lparr>fx := 512\<rparr>)"

definition demo_back :: "nat Cpu \<times> Context" where
  "demo_back = switch_to 0 (fst demo_there) ((demo_context 2 False False)\<lparr>fx := 512\<rparr>) (snd demo_there)"

theorem switch_roundtrip_witness:
  "cpu_fpu (fst demo_back) = 7 \<and> reg_sp (cpu_regs (fst demo_back)) = 0x1000"
proof -
  have ne: "fx ((demo_context 2 False False)\<lparr>fx := 512\<rparr>) \<noteq> fx (demo_context 1 False False)"
    by (simp add: demo_context_def blank_context_def)
  have there: "switch_to 0 demo_cpu (demo_context 1 False False) ((demo_context 2 False False)\<lparr>fx := 512\<rparr>) =
      (fst demo_there, snd demo_there)"
    and again: "switch_to 0 (fst demo_there) ((demo_context 2 False False)\<lparr>fx := 512\<rparr>) (snd demo_there) =
      (fst demo_back, snd demo_back)"
    by (simp_all add: demo_there_def demo_back_def)
  show ?thesis
    using switch_roundtrip[OF there refl ne again] by (simp add: demo_cpu_def)
qed

end
