(* ===== verification/Sync.thy ===== *)
theory Sync
  imports Scheduling
begin

text \<open>
  Blocking communication between contexts (\<^verbatim>\<open>kernel/sync\<close>): wait conditions, queues and maps.
  A condition holds raw pointers to waiting contexts, kept here as their pids. Kernel code runs
  with interrupts off (\<^verbatim>\<open>Intex\<close>) and is left only through \<^verbatim>\<open>context_switch\<close>, so what
  happens between two switches is one step; a \<^verbatim>\<open>receive\<close> is one attempt per step, repeated
  whenever the waiting context runs again.
\<close>

section \<open>Conditions, queues and maps\<close>

definition condition_notify :: "usize list \<Rightarrow> 'r Kernel \<Rightarrow> usize list \<times> 'r Kernel" where
  "condition_notify contexts k = ([], k\<lparr>inner := foldl (\<lambda>cs p. unblock p cs) (inner k) contexts\<rparr>)"

text \<open>\<^verbatim>\<open>wait\<close> up to the context switch it ends with.\<close>

definition condition_wait :: "usize list \<Rightarrow> 'r Kernel \<Rightarrow> usize list \<times> 'r Kernel" where
  "condition_wait contexts k =
     (case current k of
        Inr c \<Rightarrow> (contexts @ [pid c], put_context k (cur_i k) (c\<lparr>blocked := True\<rparr>))
      | Inl _ \<Rightarrow> (contexts, k))"

record 'i Waitable =
  wait_inner :: 'i
  condition :: "usize list"

text \<open>The common shape of the two \<^verbatim>\<open>send\<close> methods and of one round of the receiving loops.\<close>

definition wait_send :: "('i \<Rightarrow> 'i) \<Rightarrow> 'i Waitable \<Rightarrow> 'r Kernel \<Rightarrow> 'i Waitable \<times> 'r Kernel" where
  "wait_send put w k =
     (let (ws, k) = condition_notify (condition w) k in (\<lparr>wait_inner = put (wait_inner w), condition = ws\<rparr>, k))"

definition wait_receive ::
  "('i \<Rightarrow> ('v \<times> 'i) option) \<Rightarrow> 'i Waitable \<Rightarrow> 'r Kernel \<Rightarrow> 'v option \<times> 'i Waitable \<times> 'r Kernel" where
  "wait_receive get w k =
     (case get (wait_inner w) of
        Some (v, i) \<Rightarrow> (Some v, w\<lparr>wait_inner := i\<rparr>, k)
      | None \<Rightarrow> (let (ws, k) = condition_wait (condition w) k in (None, w\<lparr>condition := ws\<rparr>, k)))"

definition waitable_new :: "'i \<Rightarrow> 'i Waitable" where
  "waitable_new i = \<lparr>wait_inner = i, condition = []\<rparr>"

text \<open>\<^verbatim>\<open>WaitQueue\<close>, a queue of values.\<close>

type_synonym 'a WaitQueue = "'a list Waitable"

fun pop_front :: "'a list \<Rightarrow> ('a \<times> 'a list) option" where
  "pop_front [] = None"
| "pop_front (x # xs) = Some (x, xs)"

definition take_everything :: "'a list \<Rightarrow> ('a list \<times> 'a list) option" where
  "take_everything xs = (if xs \<noteq> [] then Some (xs, []) else None)"

definition queue_new :: "'a WaitQueue" where
  "queue_new = waitable_new []"

definition queue_receive :: "'a WaitQueue \<Rightarrow> 'r Kernel \<Rightarrow> 'a option \<times> 'a WaitQueue \<times> 'r Kernel" where
  "queue_receive = wait_receive pop_front"

definition queue_receive_all :: "'a WaitQueue \<Rightarrow> 'r Kernel \<Rightarrow> 'a list option \<times> 'a WaitQueue \<times> 'r Kernel" where
  "queue_receive_all = wait_receive take_everything"

definition queue_send :: "'a \<Rightarrow> 'a WaitQueue \<Rightarrow> 'r Kernel \<Rightarrow> 'a WaitQueue \<times> 'r Kernel" where
  "queue_send v = wait_send (\<lambda>xs. xs @ [v])"

text \<open>\<^verbatim>\<open>WaitMap\<close>, a \<^verbatim>\<open>BTreeMap\<close> with its entries in the order of the keys.\<close>

type_synonym ('k, 'v) WaitMap = "('k \<times> 'v) list Waitable"

fun btree_insert :: "'k::linorder \<Rightarrow> 'v \<Rightarrow> ('k \<times> 'v) list \<Rightarrow> ('k \<times> 'v) list" where
  "btree_insert k v [] = [(k, v)]"
| "btree_insert k v ((k', v') # es) =
     (if k < k' then (k, v) # (k', v') # es
      else if k = k' then (k, v) # es
      else (k', v') # btree_insert k v es)"

fun btree_remove :: "'k \<Rightarrow> ('k \<times> 'v) list \<Rightarrow> ('v \<times> ('k \<times> 'v) list) option" where
  "btree_remove k [] = None"
| "btree_remove k ((k', v') # es) =
     (if k = k' then Some (v', es)
      else (case btree_remove k es of Some (v, es') \<Rightarrow> Some (v, (k', v') # es') | None \<Rightarrow> None))"

definition map_new :: "('k, 'v) WaitMap" where
  "map_new = waitable_new []"

definition map_send :: "'k::linorder \<Rightarrow> 'v \<Rightarrow> ('k, 'v) WaitMap \<Rightarrow> 'r Kernel \<Rightarrow> ('k, 'v) WaitMap \<times> 'r Kernel" where
  "map_send key v = wait_send (btree_insert key v)"

definition map_receive :: "'k \<Rightarrow> ('k, 'v) WaitMap \<Rightarrow> 'r Kernel \<Rightarrow> 'v option \<times> ('k, 'v) WaitMap \<times> 'r Kernel" where
  "map_receive key = wait_receive (btree_remove key)"

section \<open>Ordered maps\<close>

definition btree_ok :: "('k::linorder \<times> 'v) list \<Rightarrow> bool" where
  "btree_ok es \<longleftrightarrow> sorted (map fst es) \<and> distinct (map fst es)"

lemma btree_ok_Nil [simp]: "btree_ok []"
  by (simp add: btree_ok_def)

lemma set_btree_insert: "fst ` set (btree_insert k v es) = insert k (fst ` set es)"
  by (induction k v es rule: btree_insert.induct) (auto simp: insert_commute)

lemma btree_insert_ok: "btree_ok es \<Longrightarrow> btree_ok (btree_insert k v es)"
proof (induction k v es rule: btree_insert.induct)
  case (2 k v k' v' es)
  then have "btree_ok es" by (simp add: btree_ok_def)
  with 2 show ?case
    using set_btree_insert[of k v es] by (auto simp: btree_ok_def)
qed (simp add: btree_ok_def)

lemma map_of_btree_insert: "btree_ok es \<Longrightarrow> map_of (btree_insert k v es) = (map_of es)(k \<mapsto> v)"
proof (induction k v es rule: btree_insert.induct)
  case (2 k v k' v' es)
  then have "btree_ok es" by (simp add: btree_ok_def)
  with 2 show ?case by (auto simp: fun_upd_twist)
qed simp

lemma btree_remove_None: "btree_remove k es = None \<longleftrightarrow> k \<notin> fst ` set es"
  by (induction k es rule: btree_remove.induct) (auto split: option.splits)

lemma btree_remove_Some:
  "btree_remove k es = Some (v, es') \<Longrightarrow> btree_ok es \<Longrightarrow>
   map_of es k = Some v \<and> map_of es' = (map_of es)(k := None) \<and> fst ` set es' = fst ` set es - {k} \<and> btree_ok es'"
proof (induction k es arbitrary: es' rule: btree_remove.induct)
  case (2 k k' v' es)
  have ok: "btree_ok es" "k' \<notin> fst ` set es" "\<forall>x \<in> fst ` set es. k' \<le> x"
    using 2(3) by (auto simp: btree_ok_def)
  show ?case
  proof (cases "k = k'")
    case True
    then have "map_of es k = None" using ok(2) by (simp add: map_of_eq_None_iff)
    then show ?thesis using 2(2) True ok by (auto simp: fun_upd_idem)
  next
    case False
    then obtain es1 where es1: "btree_remove k es = Some (v, es1)" "es' = (k', v') # es1"
      using 2(2) by (auto split: option.splits)
    note IH = "2.IH"[OF False es1(1) ok(1)]
    have "fst ` set es1 \<subseteq> fst ` set es" using IH by blast
    then have "btree_ok es'"
      using IH ok by (auto simp: es1(2) btree_ok_def)
    then show ?thesis using IH False ok(2) by (auto simp: es1(2) fun_upd_twist)
  qed
qed simp

section \<open>Switching never blocks\<close>

text \<open>Every context of the second list was in the first, and is blocked only if it was.\<close>

definition only_unblocks :: "Context list \<Rightarrow> Context list \<Rightarrow> bool" where
  "only_unblocks cs ds \<longleftrightarrow> (\<forall>d \<in> set ds. \<exists>c \<in> set cs. pid c = pid d \<and> (blocked d \<longrightarrow> blocked c))"

lemma only_unblocks_refl [simp]: "only_unblocks cs cs"
  by (auto simp: only_unblocks_def)

lemma only_unblocks_trans: "only_unblocks cs ds \<Longrightarrow> only_unblocks ds es \<Longrightarrow> only_unblocks cs es"
  unfolding only_unblocks_def by metis

lemma only_unblocks_subset: "set ds \<subseteq> set cs \<Longrightarrow> only_unblocks cs ds"
  by (auto simp: only_unblocks_def)

lemma only_unblocks_unblock: "only_unblocks cs (unblock p cs)"
  by (auto simp: only_unblocks_def unblock_def)

lemma only_unblocks_update:
  assumes "i < length cs" and "pid c = pid (cs ! i)" and "blocked c \<longrightarrow> blocked (cs ! i)"
  shows "only_unblocks cs (cs[i := c])"
  unfolding only_unblocks_def
proof
  fix d assume "d \<in> set (cs[i := c])"
  then consider "d = c" | "d \<in> set cs" using set_update_subset_insert[of cs i c] by blast
  then show "\<exists>c \<in> set cs. pid c = pid d \<and> (blocked d \<longrightarrow> blocked c)"
    by cases (use assms nth_mem[OF assms(1)] in auto)
qed

lemma only_unblocks_drop: "only_unblocks (inner k) (inner (drop_context k c))"
  by (simp add: inner_drop_context only_unblocks_unblock split: option.split)

lemma current_Ok: "current k = Inr c \<Longrightarrow> enabled k \<and> cur_i k < length (inner k) \<and> c = inner k ! cur_i k"
  by (auto simp: current_def manager_get_def split: if_splits)

lemma only_unblocks_clean: "only_unblocks (inner k) (inner (clean k))"
proof (induction k rule: clean.induct)
  case (1 k)
  let ?w = "wrap_index k"
  show ?case
  proof (cases "\<exists>c. current ?w = Inr c \<and> exited c")
    case False
    then have "inner (clean k) = inner k"
      by (subst clean.simps) (auto simp: Let_def split: sum.splits)
    then show ?thesis by simp
  next
    case True
    then obtain c where c: "current ?w = Inr c" "exited c" by blast
    define k1 where "k1 = ?w\<lparr>inner := remove_at (cur_i ?w) (inner ?w)\<rparr>"
    have "clean k = clean (drop_context k1 c)"
      by (subst clean.simps) (simp add: c k1_def Let_def)
    moreover have "only_unblocks (inner (drop_context k1 c)) (inner (clean (drop_context k1 c)))"
      using "1.IH"[OF refl c] by (simp add: k1_def)
    moreover have "only_unblocks (inner k) (inner k1)"
      by (rule only_unblocks_subset) (auto simp: k1_def remove_at_def dest: in_set_takeD in_set_dropD)
    ultimately show ?thesis
      using only_unblocks_drop[of k1 c] only_unblocks_trans by metis
  qed
qed

lemma only_unblocks_search_step:
  "case search_step i k of Inl k' \<Rightarrow> only_unblocks (inner k) (inner k') | Inr k' \<Rightarrow> only_unblocks (inner k) (inner k')"
proof -
  define k1 where "k1 = clean (k\<lparr>cur_i := cur_i k + 1\<rparr>)"
  have u: "only_unblocks (inner k) (inner k1)"
    using only_unblocks_clean[of "k\<lparr>cur_i := cur_i k + 1\<rparr>"] by (simp add: k1_def)
  have "only_unblocks (inner k) (inner (put_context k1 (cur_i k1) (c\<lparr>blocked := False, wake := None\<rparr>)))"
    if "current k1 = Inr c" for c
    using current_Ok[OF that]
    by (intro only_unblocks_trans[OF u]) (simp add: put_context_def only_unblocks_update)
  then show ?thesis
    using u unfolding search_step_def k1_def[symmetric] Let_def
    by (auto split: sum.splits option.splits)
qed

lemma only_unblocks_search: "search n i k = Some k' \<Longrightarrow> only_unblocks (inner k) (inner k')"
proof (induction n arbitrary: k)
  case (Suc n)
  show ?case
    using Suc only_unblocks_search_step[of k i] only_unblocks_trans
    by (auto split: sum.splits)
qed simp

lemma only_unblocks_switch: "context_switch n k = Some (r, k') \<Longrightarrow> only_unblocks (inner k) (inner k')"
proof -
  assume a: "context_switch n k = Some (r, k')"
  have sw: "only_unblocks (inner k1) (inner (snd (switch_contexts i k1)))" for i and k1 :: "'a Kernel"
    unfolding switch_contexts_def Let_def
    by (auto simp: put_context_def current_def manager_get_def only_unblocks_update split: sum.splits if_splits)
  show ?thesis
  proof (cases "enabled k")
    case True
    then obtain k1 where k1: "search n (cur_i k) k = Some k1" "k' = snd (switch_contexts (cur_i k) k1)"
      using a by (auto simp: context_switch_def)
    then show ?thesis using only_unblocks_trans[OF only_unblocks_search[OF k1(1)] sw] by metis
  qed (use a in \<open>simp add: context_switch_def\<close>)
qed

section \<open>No lost wake-ups\<close>

text \<open>
  A channel and the contexts that use it. A context inside a \<^verbatim>\<open>receive\<close> that has not
  returned yet is \<^term>\<open>pending\<close> with what it asks for. The steps: anybody sends; the current
  context starts or repeats a receive; the scheduler switches; anything else happens in the
  kernel that does not block a pending context.
\<close>

record ('i, 'q, 'r) Channel =
  chan :: "'i Waitable"
  kern :: "'r Kernel"
  pending :: "usize \<Rightarrow> 'q option"

inductive channel_step ::
  "('q \<Rightarrow> 'i \<Rightarrow> ('v \<times> 'i) option) \<Rightarrow> ('m \<Rightarrow> 'i \<Rightarrow> 'i) \<Rightarrow> ('i, 'q, 'r) Channel \<Rightarrow> ('i, 'q, 'r) Channel \<Rightarrow> bool"
  for get put where
  step_send: "wait_send (put msg) (chan s) (kern s) = (w, k) \<Longrightarrow> channel_step get put s (s\<lparr>chan := w, kern := k\<rparr>)"
| step_receive: "current (kern s) = Inr c \<Longrightarrow> pending s (pid c) \<in> {None, Some q} \<Longrightarrow>
    wait_receive (get q) (chan s) (kern s) = (v, w, k) \<Longrightarrow>
    channel_step get put s
      (s\<lparr>chan := w, kern := k, pending := (pending s)(pid c := (if v = None then Some q else None))\<rparr>)"
| step_switch: "context_switch n (kern s) = Some (r, k) \<Longrightarrow> channel_step get put s (s\<lparr>kern := k\<rparr>)"
| step_other: "(\<forall>d \<in> set (inner k). pending s (pid d) \<noteq> None \<longrightarrow> blocked d \<longrightarrow>
      (\<exists>c \<in> set (inner (kern s)). pid c = pid d \<and> blocked c)) \<Longrightarrow>
    channel_step get put s (s\<lparr>kern := k\<rparr>)"

text \<open>
  A blocked context that is waiting on the channel will be notified by the next send, and
  there is nothing for it on the channel.
\<close>

definition channel_inv :: "('q \<Rightarrow> 'i \<Rightarrow> ('v \<times> 'i) option) \<Rightarrow> ('i, 'q, 'r) Channel \<Rightarrow> bool" where
  "channel_inv get s \<longleftrightarrow> (\<forall>c \<in> set (inner (kern s)). \<forall>q. blocked c \<and> pending s (pid c) = Some q \<longrightarrow>
     pid c \<in> set (condition (chan s)) \<and> get q (wait_inner (chan s)) = None)"

lemma notify_unblocks:
  assumes "d \<in> set (foldl (\<lambda>cs p. unblock p cs) cs ps)"
  shows "(\<exists>c \<in> set cs. pid c = pid d \<and> (blocked d \<longrightarrow> blocked c)) \<and> (pid d \<in> set ps \<longrightarrow> \<not> blocked d)"
  using assms
proof (induction ps arbitrary: cs)
  case (Cons p ps)
  then have "\<exists>c \<in> set (unblock p cs). pid c = pid d \<and> (blocked d \<longrightarrow> blocked c)" "pid d \<in> set ps \<longrightarrow> \<not> blocked d"
    by auto
  then show ?case by (auto simp: unblock_def split: if_splits)
qed auto

locale wait_channel =
  fixes get :: "'q \<Rightarrow> 'i \<Rightarrow> ('v \<times> 'i) option"
  assumes get_keeps_empty: "get q i = None \<Longrightarrow> get q' i = Some (v, i') \<Longrightarrow> get q i' = None"
begin

lemma inv_send:
  assumes "channel_inv get s" and "wait_send f (chan s) (kern s) = (w, k)"
  shows "channel_inv get (s\<lparr>chan := w, kern := k\<rparr>)"
proof -
  have k: "inner k = foldl (\<lambda>cs p. unblock p cs) (inner (kern s)) (condition (chan s))"
    using assms(2) by (auto simp: wait_send_def condition_notify_def)
  have False if "d \<in> set (inner k)" "blocked d" "pending s (pid d) = Some q" for d q
    using notify_unblocks[of d] that assms(1) unfolding k channel_inv_def by metis
  then show ?thesis by (auto simp: channel_inv_def)
qed

lemma inv_receive:
  assumes "channel_inv get s" and "current (kern s) = Inr c" and "pending s (pid c) \<in> {None, Some q}"
    and "wait_receive (get q) (chan s) (kern s) = (v, w, k)"
  shows "channel_inv get
    (s\<lparr>chan := w, kern := k, pending := (pending s)(pid c := (if v = None then Some q else None))\<rparr>)"
proof (cases "get q (wait_inner (chan s))")
  case (Some r)
  then obtain x i where r: "get q (wait_inner (chan s)) = Some (x, i)" by (cases r) simp
  then have "v = Some x" "w = (chan s)\<lparr>wait_inner := i\<rparr>" "k = kern s"
    using assms(4) by (simp_all add: wait_receive_def)
  then show ?thesis using assms(1) get_keeps_empty[OF _ r] by (auto simp: channel_inv_def)
next
  case None
  then have v: "v = None" "w = (chan s)\<lparr>condition := condition (chan s) @ [pid c]\<rparr>"
      "inner k = (inner (kern s))[cur_i (kern s) := c\<lparr>blocked := True\<rparr>]"
    using assms(2,4) by (auto simp: wait_receive_def condition_wait_def put_context_def)
  have "d = c\<lparr>blocked := True\<rparr> \<or> d \<in> set (inner (kern s))" if "d \<in> set (inner k)" for d
    using that set_update_subset_insert[of "inner (kern s)"] unfolding v(3) by blast
  then show ?thesis using assms(1) None by (fastforce simp: channel_inv_def v(1,2))
qed

lemma inv_env:
  assumes "channel_inv get s" and "\<forall>d \<in> set (inner k). pending s (pid d) \<noteq> None \<longrightarrow> blocked d \<longrightarrow>
      (\<exists>c \<in> set (inner (kern s)). pid c = pid d \<and> blocked c)"
  shows "channel_inv get (s\<lparr>kern := k\<rparr>)"
  using assms unfolding channel_inv_def by (fastforce simp: Ball_def)

lemma inv_step:
  assumes "channel_step get put s s'" and "channel_inv get s"
  shows "channel_inv get s'"
  using assms(1)
proof (cases rule: channel_step.cases)
  case (step_switch n r k)
  show ?thesis
    unfolding step_switch(1)
    using only_unblocks_switch[OF step_switch(2)]
    by (intro inv_env[OF assms(2)]) (auto simp: only_unblocks_def)
qed (use assms(2) inv_send inv_receive inv_env in blast)+

lemma inv_reachable:
  assumes "(channel_step get put)\<^sup>*\<^sup>* s s'" and "channel_inv get s"
  shows "channel_inv get s'"
  using assms by (induction rule: rtranclp_induct) (auto intro: inv_step)

end

text \<open>Queues are asked for one value or for all, maps for the value of a key.\<close>

datatype QueueRequest = OneItem | AllItems

fun queue_get :: "QueueRequest \<Rightarrow> 'a list \<Rightarrow> ('a list \<times> 'a list) option" where
  "queue_get OneItem xs = map_option (\<lambda>(x, r). ([x], r)) (pop_front xs)"
| "queue_get AllItems xs = take_everything xs"

lemma queue_get_None: "queue_get q xs = None \<longleftrightarrow> xs = []"
  by (cases q; cases xs) (simp_all add: take_everything_def)

interpretation wait_queue: wait_channel queue_get
  by unfold_locales (metis queue_get_None option.distinct(1))

lemma btree_remove_keys: "btree_remove k es = Some (v, es') \<Longrightarrow> fst ` set es' \<subseteq> fst ` set es"
proof (induction k es arbitrary: es' rule: btree_remove.induct)
  case (2 k k' v' es)
  show ?case
  proof (cases "k = k'")
    case False
    then obtain es1 where "btree_remove k es = Some (v, es1)" "es' = (k', v') # es1"
      using 2(2) by (auto split: option.splits)
    then show ?thesis using "2.IH"[OF False] by auto
  qed (use 2(2) in auto)
qed simp

interpretation wait_map: wait_channel btree_remove
  by unfold_locales (metis btree_remove_None btree_remove_keys subsetD)

section \<open>First in, first out\<close>

datatype 'a QueueOp = OpSend 'a | OpReceive | OpReceiveAll

text \<open>A sequence of operations on a queue; a receive that has to wait gets nothing in that step.\<close>

fun queue_run :: "'a QueueOp list \<Rightarrow> 'a WaitQueue \<Rightarrow> 'r Kernel \<Rightarrow> 'a list \<times> 'a WaitQueue \<times> 'r Kernel" where
  "queue_run [] w k = ([], w, k)"
| "queue_run (OpSend v # ops) w k = (let (w, k) = queue_send v w k in queue_run ops w k)"
| "queue_run (OpReceive # ops) w k =
     (let (v, w, k) = queue_receive w k; (got, w, k) = queue_run ops w k
      in ((case v of Some x \<Rightarrow> [x] | None \<Rightarrow> []) @ got, w, k))"
| "queue_run (OpReceiveAll # ops) w k =
     (let (v, w, k) = queue_receive_all w k; (got, w, k) = queue_run ops w k
      in ((case v of Some xs \<Rightarrow> xs | None \<Rightarrow> []) @ got, w, k))"

fun sends :: "'a QueueOp list \<Rightarrow> 'a list" where
  "sends [] = []"
| "sends (OpSend v # ops) = v # sends ops"
| "sends (_ # ops) = sends ops"

lemma queue_send_inner: "wait_inner (fst (queue_send v w k)) = wait_inner w @ [v]"
  by (simp add: queue_send_def wait_send_def split: prod.split)

lemma queue_receive_inner:
  "queue_receive w k = (v, w', k') \<Longrightarrow> wait_inner w = (case v of Some x \<Rightarrow> [x] | None \<Rightarrow> []) @ wait_inner w'"
  by (cases "wait_inner w") (auto simp: queue_receive_def wait_receive_def split: prod.splits)

lemma queue_receive_all_inner:
  "queue_receive_all w k = (v, w', k') \<Longrightarrow> wait_inner w = (case v of Some xs \<Rightarrow> xs | None \<Rightarrow> []) @ wait_inner w'"
  by (auto simp: queue_receive_all_def wait_receive_def take_everything_def split: prod.splits if_splits)

section \<open>Properties\<close>

text \<open>
  C8. No lost wake-ups on a queue: starting with nobody waiting, whatever contexts send, receive
  and switch in whatever order, a context that is blocked inside a receive is registered to be
  notified by the next send, and the queue is empty. So as long as a value is in the queue,
  every context waiting for one can run.
\<close>

theorem queue_no_lost_wakeup:
  fixes s s' :: "('a list, QueueRequest, 'r) Channel"
  assumes "(channel_step queue_get (\<lambda>v xs. xs @ [v]))\<^sup>*\<^sup>* s s'" and "pending s = Map.empty"
    and "c \<in> set (inner (kern s'))" and "pending s' (pid c) = Some q" and "blocked c"
  shows "pid c \<in> set (condition (chan s')) \<and> wait_inner (chan s') = []
    \<and> (\<forall>d \<in> set (inner (snd (queue_send v (chan s') (kern s')))). pid d = pid c \<longrightarrow> \<not> blocked d)"
proof -
  have "channel_inv queue_get s" using assms(2) by (simp add: channel_inv_def)
  from wait_queue.inv_reachable[OF assms(1) this] assms(3-5)
  have r: "pid c \<in> set (condition (chan s'))" "wait_inner (chan s') = []"
    by (auto simp: channel_inv_def queue_get_None)
  have "inner (snd (queue_send v (chan s') (kern s'))) =
      foldl (\<lambda>cs p. unblock p cs) (inner (kern s')) (condition (chan s'))"
    by (simp add: queue_send_def wait_send_def condition_notify_def)
  then show ?thesis using r notify_unblocks by metis
qed

definition demo_channel :: "(nat list, QueueRequest, unit) Channel" where
  "demo_channel = \<lparr>chan = queue_new, kern = demo_kernel [demo_context 1 False False, demo_context 2 False False] 1,
     pending = Map.empty\<rparr>"

definition demo_waiting :: "(nat list, QueueRequest, unit) Channel" where
  "demo_waiting = \<lparr>chan = \<lparr>wait_inner = [], condition = [2]\<rparr>,
     kern = demo_kernel [demo_context 1 False False, demo_context 2 True False] 1, pending = [2 \<mapsto> OneItem]\<rparr>"

theorem queue_no_lost_wakeup_witness:
  "(channel_step queue_get (\<lambda>v xs. xs @ [v]))\<^sup>*\<^sup>* demo_channel demo_waiting
   \<and> list_all (\<lambda>d. pid d = 2 \<longrightarrow> \<not> blocked d) (inner (snd (queue_send 7 (chan demo_waiting) (kern demo_waiting))))"
proof -
  have "channel_step queue_get (\<lambda>v xs. xs @ [v]) demo_channel
      (demo_channel\<lparr>chan := chan demo_waiting, kern := kern demo_waiting,
        pending := (pending demo_channel)(pid (demo_context 2 False False) :=
          if (None :: nat list option) = None then Some OneItem else None)\<rparr>)"
    by (rule step_receive)
       (simp_all add: demo_channel_def demo_waiting_def demo_kernel_def demo_context_def blank_context_def current_def
         manager_get_def wait_receive_def queue_new_def waitable_new_def condition_wait_def put_context_def)
  then have s: "(channel_step queue_get (\<lambda>v xs. xs @ [v]))\<^sup>*\<^sup>* demo_channel demo_waiting"
    by (simp add: demo_channel_def demo_waiting_def demo_context_def blank_context_def)
  have "pending demo_channel = Map.empty" "demo_context 2 True False \<in> set (inner (kern demo_waiting))"
    "pending demo_waiting (pid (demo_context 2 True False)) = Some OneItem" "blocked (demo_context 2 True False)"
    "pid (demo_context 2 True False) = 2"
    by (simp_all add: demo_channel_def demo_waiting_def demo_kernel_def demo_context_def blank_context_def)
  with queue_no_lost_wakeup[OF s, of "demo_context 2 True False" OneItem 7] s show ?thesis by (simp add: list_all_iff)
qed

text \<open>
  No lost wake-ups on a map: a context that is blocked waiting for a key is registered to be
  notified, and the map has no value for that key.
\<close>

theorem map_no_lost_wakeup:
  fixes s s' :: "(('k::linorder \<times> 'v) list, 'k, 'r) Channel"
  assumes "(channel_step btree_remove (\<lambda>(key, v). btree_insert key v))\<^sup>*\<^sup>* s s'" and "pending s = Map.empty"
    and "c \<in> set (inner (kern s'))" and "pending s' (pid c) = Some key" and "blocked c"
  shows "pid c \<in> set (condition (chan s')) \<and> key \<notin> fst ` set (wait_inner (chan s'))
    \<and> (\<forall>d \<in> set (inner (snd (map_send key v (chan s') (kern s')))). pid d = pid c \<longrightarrow> \<not> blocked d)"
proof -
  have "channel_inv btree_remove s" using assms(2) by (simp add: channel_inv_def)
  from wait_map.inv_reachable[OF assms(1) this] assms(3-5)
  have r: "pid c \<in> set (condition (chan s'))" "key \<notin> fst ` set (wait_inner (chan s'))"
    by (auto simp: channel_inv_def btree_remove_None)
  have "inner (snd (map_send key v (chan s') (kern s'))) =
      foldl (\<lambda>cs p. unblock p cs) (inner (kern s')) (condition (chan s'))"
    by (simp add: map_send_def wait_send_def condition_notify_def)
  then show ?thesis using r notify_unblocks by metis
qed

definition demo_map_channel :: "usize list \<Rightarrow> bool \<Rightarrow> (usize \<Rightarrow> usize option) \<Rightarrow> ((usize \<times> usize) list, usize, unit) Channel" where
  "demo_map_channel ws b p = \<lparr>chan = \<lparr>wait_inner = [(5, 0)], condition = ws\<rparr>,
     kern = demo_kernel [demo_context 1 False False, demo_context 2 b False] 1, pending = p\<rparr>"

theorem map_no_lost_wakeup_witness:
  "(channel_step btree_remove (\<lambda>(key, v). btree_insert key v))\<^sup>*\<^sup>*
     (demo_map_channel [] False Map.empty) (demo_map_channel [2] True [2 \<mapsto> 9])
   \<and> 9 \<notin> fst ` set (wait_inner (chan (demo_map_channel [2] True [2 \<mapsto> 9])))"
proof -
  let ?s = "demo_map_channel [] False Map.empty" and ?t = "demo_map_channel [2] True [2 \<mapsto> 9]"
  have "channel_step btree_remove (\<lambda>(key, v). btree_insert key v) ?s
      (?s\<lparr>chan := chan ?t, kern := kern ?t,
        pending := (pending ?s)(pid (demo_context 2 False False) :=
          if (None :: usize option) = None then Some 9 else None)\<rparr>)"
    by (rule step_receive)
       (simp_all add: demo_map_channel_def demo_kernel_def demo_context_def blank_context_def current_def
         manager_get_def wait_receive_def condition_wait_def put_context_def)
  then have s: "(channel_step btree_remove (\<lambda>(key, v). btree_insert key v))\<^sup>*\<^sup>* ?s ?t"
    by (simp add: demo_map_channel_def demo_context_def blank_context_def)
  have "pending ?s = Map.empty" "demo_context 2 True False \<in> set (inner (kern ?t))"
    "pending ?t (pid (demo_context 2 True False)) = Some 9" "blocked (demo_context 2 True False)"
    by (simp_all add: demo_map_channel_def demo_kernel_def demo_context_def blank_context_def)
  with map_no_lost_wakeup[OF s, of "demo_context 2 True False" 9 0] s show ?thesis by blast
qed

text \<open>
  C17. Queues are first in, first out: over any sequence of operations, what was in the queue
  followed by what is sent equals what is received, in order, followed by what is left.
\<close>

theorem queue_fifo:
  "queue_run ops w k = (got, w', k') \<Longrightarrow> wait_inner w @ sends ops = got @ wait_inner w'"
proof (induction ops w k arbitrary: got rule: queue_run.induct)
  case (2 v ops w k)
  then show ?case
    using queue_send_inner[of v w k] by (auto split: prod.splits)
next
  case (3 ops w k)
  obtain v w1 k1 where r: "queue_receive w k = (v, w1, k1)" by (metis prod_cases3)
  obtain got1 where g: "queue_run ops w1 k1 = (got1, w', k')"
    "got = (case v of Some x \<Rightarrow> [x] | None \<Rightarrow> []) @ got1"
    using 3(2) r by (auto split: prod.splits)
  then show ?case using "3.IH"[OF r[symmetric] refl refl g(1)] queue_receive_inner[OF r] by simp
next
  case (4 ops w k)
  obtain v w1 k1 where r: "queue_receive_all w k = (v, w1, k1)" by (metis prod_cases3)
  obtain got1 where g: "queue_run ops w1 k1 = (got1, w', k')"
    "got = (case v of Some x \<Rightarrow> x | None \<Rightarrow> []) @ got1"
    using 4(2) r by (auto split: prod.splits)
  then show ?case using "4.IH"[OF r[symmetric] refl refl g(1)] queue_receive_all_inner[OF r] by simp
qed simp

theorem queue_fifo_witness:
  "fst (queue_run [OpSend (1::nat), OpSend 2, OpReceive, OpSend 3, OpReceiveAll] queue_new (demo_kernel [] 0)) = [1, 2, 3]"
proof -
  let ?ops = "[OpSend (1::nat), OpSend 2, OpReceive, OpSend 3, OpReceiveAll]"
  obtain got w k where r: "queue_run ?ops queue_new (demo_kernel [] 0) = (got, w, k)" by (metis prod_cases3)
  then have "wait_inner w = []"
    by (auto simp: queue_send_def wait_send_def queue_receive_def wait_receive_def queue_receive_all_def queue_new_def
        waitable_new_def condition_notify_def take_everything_def)
  with queue_fifo[OF r] r show ?thesis by (simp add: queue_new_def waitable_new_def)
qed

end
