(* ===== verification/Processes.thy ===== *)
theory Processes
  imports Sync
begin

text \<open>
  The system calls on processes and time (\<^verbatim>\<open>kernel/syscall/process.rs\<close>,
  \<^verbatim>\<open>time.rs\<close>) and the timer interrupt (\<^verbatim>\<open>kernel/main.rs\<close>). What a call stores through
  a user pointer is returned beside its result. A call that ends in
  \<^verbatim>\<open>context_switch\<close> is modelled up to the switch.
\<close>

section \<open>Definitions\<close>

text \<open>The exit statuses of a context's children, a \<^verbatim>\<open>WaitMap\<close> inside the context.\<close>

definition wait_map_of :: "Context \<Rightarrow> (usize, usize) WaitMap" where
  "wait_map_of c = \<lparr>wait_inner = statuses c, condition = waiters c\<rparr>"

definition set_wait_map :: "nat \<Rightarrow> (usize, usize) WaitMap \<Rightarrow> 'r Kernel \<Rightarrow> 'r Kernel" where
  "set_wait_map i w k = put_context k i ((inner k ! i)\<lparr>statuses := wait_inner w, waiters := condition w\<rparr>)"

definition send_status :: "nat \<Rightarrow> usize \<times> usize \<Rightarrow> 'r Kernel \<Rightarrow> 'r Kernel" where
  "send_status i entry k =
     (let (w, k) = map_send (fst entry) (snd entry) (wait_map_of (inner k ! i)) k in set_wait_map i w k)"

text \<open>One round of the loop of \<^verbatim>\<open>do_sys_exit\<close> over the contexts.\<close>

definition exit_one :: "usize \<Rightarrow> usize \<Rightarrow> usize \<Rightarrow> (usize \<times> usize) list \<Rightarrow> nat \<Rightarrow> 'r Kernel \<Rightarrow> 'r Kernel" where
  "exit_one p pp status sts i k =
     (let k = (if pid (inner k ! i) = pp then fold (send_status i) ((p, status) # sts) k else k)
      in if ppid (inner k ! i) = p then put_context k i ((inner k ! i)\<lparr>ppid := pp\<rparr>) else k)"

definition do_sys_exit :: "usize \<Rightarrow> 'r Kernel \<Rightarrow> 'r Kernel" where
  "do_sys_exit status k =
     (let (sts, p, pp, k) =
        (case current k of
           Inr c \<Rightarrow> (statuses c, pid c, ppid c, put_context k (cur_i k) (c\<lparr>exited := True, statuses := []\<rparr>))
         | Inl _ \<Rightarrow> ([], 0, 0, k))
      in fold (exit_one p pp status sts) [0..<length (inner k)] k)"

definition do_sys_getpid :: "'r Kernel \<Rightarrow> usize result" where
  "do_sys_getpid k = (case current k of Inl e \<Rightarrow> Err e | Inr c \<Rightarrow> Ok (pid c))"

definition do_sys_iopl :: "Regs \<Rightarrow> 'r Kernel \<Rightarrow> usize result \<times> Regs \<times> 'r Kernel" where
  "do_sys_iopl rg k =
     (let level = reg_bx rg
      in if level \<le> 3 then
           (case current k of
              Inl e \<Rightarrow> (Err e, rg, k)
            | Inr c \<Rightarrow>
                (let k = put_context k (cur_i k) (c\<lparr>iopl := level\<rparr>);
                     fl = reg_flags rg AND (0xFFFFFFFF - 0x3000);
                     fl = fl OR (push_bit 12 level AND 0x3000)
                 in (Ok 0, rg\<lparr>reg_flags := fl\<rparr>, k)))
         else (Err EINVAL, rg, k))"

text \<open>
  \<^verbatim>\<open>waitpid\<close>: \<^term>\<open>None\<close> when the context has to wait, which repeats the call when it runs
  again; otherwise the result and the status stored at \<^term>\<open>status_ptr\<close>.
\<close>

definition do_sys_waitpid ::
  "isize \<Rightarrow> usize \<Rightarrow> 'r Kernel \<Rightarrow> (usize result \<times> (usize \<times> usize) option) option \<times> 'r Kernel" where
  "do_sys_waitpid p status_ptr k =
     (case current k of
        Inl e \<Rightarrow> (Some (Err e, None), k)
      | Inr c \<Rightarrow>
          if sint p > 0 then
            (let (status, w, k) = map_receive p (wait_map_of c) k; k = set_wait_map (cur_i k) w k
             in case status of
                  None \<Rightarrow> (None, k)
                | Some st \<Rightarrow> (Some (Ok p, if status_ptr > 0 then Some (status_ptr, st) else None), k))
          else (Some (Err ECHILD, None), k))"

definition do_sys_yield :: "nat \<Rightarrow> 'r Kernel \<Rightarrow> (usize result \<times> 'r Kernel) option" where
  "do_sys_yield fuel k = map_option (\<lambda>(_, k). (Ok 0, k)) (context_switch fuel k)"

definition do_sys_clock_gettime :: "usize \<Rightarrow> usize \<Rightarrow> 'r Kernel \<Rightarrow> usize result \<times> TimeSpec option" where
  "do_sys_clock_gettime clock tp k =
     (if tp > 0 then
        if clock = CLOCK_REALTIME
        then (Ok 0, Some \<lparr>tv_sec = secs (clock_realtime k), tv_nsec = nanos (clock_realtime k)\<rparr>)
        else if clock = CLOCK_MONOTONIC
        then (Ok 0, Some \<lparr>tv_sec = secs (clock_monotonic k), tv_nsec = nanos (clock_monotonic k)\<rparr>)
        else (Err EINVAL, None)
      else (Err EFAULT, None))"

text \<open>
  \<^verbatim>\<open>nanosleep\<close> up to its switch: \<^term>\<open>None\<close> when the context goes to sleep. When it runs
  again, \<^verbatim>\<open>nanosleep_end\<close> is what it returns and stores at \<^term>\<open>rem\<close>.
\<close>

definition do_sys_nanosleep :: "usize \<Rightarrow> TimeSpec \<Rightarrow> 'r Kernel \<Rightarrow> usize result option \<times> 'r Kernel" where
  "do_sys_nanosleep req_ptr req k =
     (if req_ptr > 0 then
        (case current k of
           Inl e \<Rightarrow> (Some (Err e), k)
         | Inr c \<Rightarrow>
             (None, put_context k (cur_i k)
                (c\<lparr>blocked := True,
                   wake := Some (duration_add (clock_monotonic k) (duration_new (tv_sec req) (tv_nsec req)))\<rparr>)))
      else (Some (Err EFAULT), k))"

definition nanosleep_end :: "usize \<Rightarrow> usize result \<times> TimeSpec option" where
  "nanosleep_end rem = (Ok 0, if rem > 0 then Some \<lparr>tv_sec = 0, tv_nsec = 0\<rparr> else None)"

definition PIT_DURATION :: Duration where
  "PIT_DURATION = \<lparr>secs = 0, nanos = 4500572\<rparr>"

text \<open>Interrupt \<^verbatim>\<open>0x20\<close> up to its switch.\<close>

definition timer_interrupt :: "'r Kernel \<Rightarrow> 'r Kernel" where
  "timer_interrupt k =
     (let k = k\<lparr>clock_monotonic := duration_add (clock_monotonic k) PIT_DURATION\<rparr>;
          k = k\<lparr>clock_realtime := duration_add (clock_realtime k) PIT_DURATION\<rparr>
      in case current k of
           Inr c \<Rightarrow> put_context k (cur_i k) (c\<lparr>slices := slices c + 1\<rparr>)
         | Inl _ \<Rightarrow> k)"

text \<open>The idle loop halts the processor unless some other context is not blocked.\<close>

definition idle_halts :: "'r Kernel \<Rightarrow> bool" where
  "idle_halts k = list_all blocked (drop 1 (inner k))"

section \<open>Sending a status\<close>

lemma nth_unblock: "i < length cs \<Longrightarrow>
  unblock p cs ! i = (if pid (cs ! i) = p then (cs ! i)\<lparr>blocked := False\<rparr> else cs ! i)"
  by (simp add: unblock_def)

lemma length_unblocks [simp]: "length (foldl (\<lambda>cs p. unblock p cs) cs ps) = length cs"
  by (induction ps arbitrary: cs) simp_all

lemma nth_unblocks: "i < length cs \<Longrightarrow> foldl (\<lambda>cs p. unblock p cs) cs ps ! i =
    (cs ! i)\<lparr>blocked := blocked (cs ! i) \<and> pid (cs ! i) \<notin> set ps\<rparr>"
  by (induction ps arbitrary: cs) (auto simp: nth_unblock)

text \<open>
  What a sequence of sends to the context at one position does to the contexts: its map gets the
  entries, its waiters are released, and nothing else changes.
\<close>

definition sent_to :: "nat \<Rightarrow> (usize \<times> usize) list \<Rightarrow> Context list \<Rightarrow> nat \<Rightarrow> Context" where
  "sent_to i es cs j =
     (cs ! j)\<lparr>blocked := blocked (cs ! j) \<and> (es = [] \<or> pid (cs ! j) \<notin> set (waiters (cs ! i))),
       statuses := (if j = i then fold (\<lambda>(p, st). btree_insert p st) es (statuses (cs ! j)) else statuses (cs ! j)),
       waiters := (if j = i \<and> es \<noteq> [] then [] else waiters (cs ! j))\<rparr>"

lemma send_status_nth:
  assumes "i < length (inner k)" and "j < length (inner k)"
  shows "inner (send_status i e k) ! j = sent_to i [e] (inner k) j"
  using assms
  by (cases "j = i")
     (simp_all add: send_status_def map_send_def wait_send_def condition_notify_def set_wait_map_def wait_map_of_def
       put_context_def nth_unblocks sent_to_def Let_def split: prod.split)

lemma send_status_rest:
  "length (inner (send_status i e k)) = length (inner k)" "cur_i (send_status i e k) = cur_i k"
  "enabled (send_status i e k) = enabled k"
  by (simp_all add: send_status_def map_send_def wait_send_def condition_notify_def set_wait_map_def put_context_def
      split: prod.split)

lemma sends_status_rest:
  "length (inner (fold (send_status i) es k)) = length (inner k)" "cur_i (fold (send_status i) es k) = cur_i k"
  "enabled (fold (send_status i) es k) = enabled k"
  by (induction es arbitrary: k) (simp_all add: send_status_rest)

lemma sends_status_nth:
  assumes "i < length (inner k)" and "j < length (inner k)"
  shows "inner (fold (send_status i) es k) ! j = sent_to i es (inner k) j"
  using assms
proof (induction es arbitrary: k)
  case (Cons e es)
  have "inner (fold (send_status i) (e # es) k) ! j = sent_to i es (inner (send_status i e k)) j"
    using Cons by (simp add: send_status_rest)
  also have "\<dots> = sent_to i (e # es) (inner k) j"
    using Cons.prems send_status_nth[of i k i e] send_status_nth[of i k j e]
    by (cases "j = i"; cases "es = []") (auto simp: sent_to_def Let_def split: prod.split)
  finally show ?case .
qed (simp add: sent_to_def)

section \<open>The loop of exit\<close>

text \<open>The context at position \<^term>\<open>j\<close> after the loop has dealt with the first \<^term>\<open>n\<close> positions.\<close>

definition left_by_exit :: "usize \<Rightarrow> usize \<Rightarrow> (usize \<times> usize) list \<Rightarrow> Context list \<Rightarrow> nat \<Rightarrow> nat \<Rightarrow> Context" where
  "left_by_exit p pp es cs n j =
     (cs ! j)\<lparr>ppid := (if j < n \<and> ppid (cs ! j) = p then pp else ppid (cs ! j)),
       blocked := blocked (cs ! j) \<and> (\<forall>i < n. pid (cs ! i) = pp \<longrightarrow> pid (cs ! j) \<notin> set (waiters (cs ! i))),
       statuses := (if j < n \<and> pid (cs ! j) = pp then fold (\<lambda>(p, st). btree_insert p st) es (statuses (cs ! j))
                    else statuses (cs ! j)),
       waiters := (if j < n \<and> pid (cs ! j) = pp then [] else waiters (cs ! j))\<rparr>"

lemma left_by_exit_fields:
  "pid (left_by_exit p pp es cs n j) = pid (cs ! j)"
  "exited (left_by_exit p pp es cs n j) = exited (cs ! j)"
  "ppid (left_by_exit p pp es cs n j) = (if j < n \<and> ppid (cs ! j) = p then pp else ppid (cs ! j))"
  "blocked (left_by_exit p pp es cs n j) \<longleftrightarrow> blocked (cs ! j) \<and> (\<forall>i < n. pid (cs ! i) = pp \<longrightarrow> pid (cs ! j) \<notin> set (waiters (cs ! i)))"
  "waiters (left_by_exit p pp es cs n j) = (if j < n \<and> pid (cs ! j) = pp then [] else waiters (cs ! j))"
  "statuses (left_by_exit p pp es cs n j) = (if j < n \<and> pid (cs ! j) = pp
     then fold (\<lambda>(p, st). btree_insert p st) es (statuses (cs ! j)) else statuses (cs ! j))"
  by (auto simp: left_by_exit_def)

lemma exit_one_rest:
  "length (inner (exit_one p pp status sts i k)) = length (inner k)" "cur_i (exit_one p pp status sts i k) = cur_i k"
  "enabled (exit_one p pp status sts i k) = enabled k"
  by (simp_all add: exit_one_def Let_def put_context_def sends_status_rest send_status_rest)

lemma exits_rest:
  "length (inner (fold (exit_one p pp status sts) is k)) = length (inner k)"
  "cur_i (fold (exit_one p pp status sts) is k) = cur_i k" "enabled (fold (exit_one p pp status sts) is k) = enabled k"
  by (induction "is" arbitrary: k) (simp_all add: exit_one_rest)

lemma exit_one_nth:
  assumes "i < length (inner k)" and "j < length (inner k)"
  shows "inner (exit_one p pp status sts i k) ! j =
    (let c = (if pid (inner k ! i) = pp then sent_to i ((p, status) # sts) (inner k) j else inner k ! j)
     in if j = i \<and> ppid (inner k ! i) = p then c\<lparr>ppid := pp\<rparr> else c)"
proof -
  let ?es = "(p, status) # sts"
  define k1 where "k1 = (if pid (inner k ! i) = pp then fold (send_status i) ?es k else k)"
  have nth: "inner k1 ! l = (if pid (inner k ! i) = pp then sent_to i ?es (inner k) l else inner k ! l)"
    if "l < length (inner k)" for l
    using sends_status_nth[OF assms(1) that, of ?es] by (simp add: k1_def)
  have len: "length (inner k1) = length (inner k)" by (simp add: k1_def sends_status_rest send_status_rest)
  have "ppid (inner k1 ! i) = ppid (inner k ! i)"
    unfolding nth[OF assms(1)] by (simp add: sent_to_def Let_def)
  then have "inner (exit_one p pp status sts i k) ! j =
      (if j = i \<and> ppid (inner k ! i) = p then (inner k1 ! j)\<lparr>ppid := pp\<rparr> else inner k1 ! j)"
    using assms len by (simp add: exit_one_def k1_def[symmetric] put_context_def nth_list_update)
  then show ?thesis unfolding Let_def nth[OF assms(2)] .
qed

lemma left_by_exit_step:
  assumes "\<And>l. l < length cs \<Longrightarrow> ds ! l = left_by_exit p pp es cs n l" and "n < length cs" and "j < length cs" and "es \<noteq> []"
  shows "left_by_exit p pp es cs (Suc n) j =
    (let c = (if pid (ds ! n) = pp then sent_to n es ds j else ds ! j)
     in if j = n \<and> ppid (ds ! n) = p then c\<lparr>ppid := pp\<rparr> else c)"
proof -
  have eqs: "ds ! n = left_by_exit p pp es cs n n" "ds ! j = left_by_exit p pp es cs n j" using assms by simp_all
  show ?thesis
    unfolding sent_to_def eqs Let_def
    by (cases "j = n"; cases "pid (cs ! n) = pp"; cases "ppid (cs ! n) = p"; rule Context.Context.equality)
       (use assms(4) in \<open>auto simp: left_by_exit_def All_less_Suc less_Suc_eq\<close>)
qed

lemma exit_loop:
  assumes "n \<le> length (inner k)" and "j < length (inner k)"
  shows "inner (fold (exit_one p pp status sts) [0..<n] k) ! j = left_by_exit p pp ((p, status) # sts) (inner k) n j"
  using assms
proof (induction n arbitrary: j)
  case 0
  then show ?case by (simp add: left_by_exit_def)
next
  case (Suc n)
  define k1 where "k1 = fold (exit_one p pp status sts) [0..<n] k"
  have len: "length (inner k1) = length (inner k)" by (simp add: k1_def exits_rest)
  have IH: "inner k1 ! l = left_by_exit p pp ((p, status) # sts) (inner k) n l" if "l < length (inner k)" for l
    unfolding k1_def using Suc that by simp
  have n: "n < length (inner k)" using Suc.prems by simp
  have "fold (exit_one p pp status sts) [0..<Suc n] k = exit_one p pp status sts n k1" by (simp add: k1_def)
  then show ?case
    using exit_one_nth[of n k1 j p pp status sts] left_by_exit_step[OF IH n Suc.prems(2)] n Suc.prems(2) by (simp add: len)
qed

section \<open>Statuses on their way\<close>

lemma inserts_ok: "btree_ok m \<Longrightarrow> btree_ok (fold (\<lambda>(p, st). btree_insert p st) es m)"
  by (induction es arbitrary: m) (auto simp: btree_insert_ok)

lemma inserts_other:
  "btree_ok m \<Longrightarrow> q \<notin> fst ` set es \<Longrightarrow> map_of (fold (\<lambda>(p, st). btree_insert p st) es m) q = map_of m q"
  by (induction es arbitrary: m) (auto simp: btree_insert_ok map_of_btree_insert)

lemma inserts_in:
  "btree_ok m \<Longrightarrow> distinct (map fst es) \<Longrightarrow> (q, st) \<in> set es \<Longrightarrow>
   map_of (fold (\<lambda>(p, st). btree_insert p st) es m) q = Some st"
proof (induction es arbitrary: m)
  case (Cons e es)
  show ?case
  proof (cases "(q, st) = e")
    case True
    then show ?thesis
      using Cons.prems inserts_other[of "btree_insert q st m" q es]
      by (auto simp: btree_insert_ok map_of_btree_insert)
  next
    case False
    then show ?thesis using Cons by (auto simp: btree_insert_ok split: prod.split)
  qed
qed simp

lemma btree_remove_lookup:
  assumes "btree_ok es" and "map_of es q = Some st"
  shows "\<exists>es'. btree_remove q es = Some (st, es')"
proof -
  have "btree_remove q es \<noteq> None" using assms(2) map_of_SomeD[of es q st] unfolding btree_remove_None by force
  then obtain v es' where r: "btree_remove q es = Some (v, es')" by auto
  then show ?thesis using btree_remove_Some[OF r assms(1)] assms(2) by simp
qed

lemma waitpid_ready:
  assumes "current k = Inr c" and "0 < sint q" and "btree_ok (statuses c)" and "map_of (statuses c) q = Some st"
  shows "fst (do_sys_waitpid q status_ptr k) = Some (Ok q, if status_ptr > 0 then Some (status_ptr, st) else None)"
proof -
  obtain es' where "btree_remove q (statuses c) = Some (st, es')"
    using btree_remove_lookup[OF assms(3,4)] by blast
  then show ?thesis
    using assms(1,2) by (simp add: do_sys_waitpid_def map_receive_def wait_receive_def wait_map_of_def)
qed

lemma do_sys_exit_nth:
  assumes "current k = Inr c" and "j < length (inner k)"
  shows "inner (do_sys_exit status k) ! j = left_by_exit (pid c) (ppid c) ((pid c, status) # statuses c)
    ((inner k)[cur_i k := c\<lparr>exited := True, statuses := []\<rparr>]) (length (inner k)) j"
  using exit_loop[of "length (inner k)" "put_context k (cur_i k) (c\<lparr>exited := True, statuses := []\<rparr>)" j] assms
  by (simp add: do_sys_exit_def put_context_def)

lemma do_sys_exit_rest:
  "length (inner (do_sys_exit status k)) = length (inner k)" "enabled (do_sys_exit status k) = enabled k"
  by (simp_all add: do_sys_exit_def exits_rest put_context_def split: sum.split)

section \<open>Clocks\<close>

definition clock_ok :: "Duration \<Rightarrow> bool" where
  "clock_ok d \<longleftrightarrow> 0 \<le> sint (secs d) \<and> 0 \<le> sint (nanos d) \<and> sint (nanos d) < 1000000000"

lemma clock_total: "clock_ok d \<Longrightarrow> total_nanos d \<le> 2 ^ 60 * 1000000000 \<Longrightarrow> tame d"
  by (simp add: clock_ok_def tame_def total_nanos_def span_nanos_def)

lemma clock_add:
  assumes "clock_ok a" and "clock_ok b" and "total_nanos a \<le> 2 ^ 60 * 1000000000" and "total_nanos b \<le> 2 ^ 60 * 1000000000"
  shows "clock_ok (duration_add a b)" and "total_nanos (duration_add a b) = total_nanos a + total_nanos b"
proof -
  have t: "tame a" "tame b" using assms by (simp_all add: clock_total)
  show tot: "total_nanos (duration_add a b) = total_nanos a + total_nanos b" by (rule duration_add_total[OF t])
  have "0 \<le> total_nanos a + total_nanos b"
    using assms(1,2) by (simp add: clock_ok_def total_nanos_def span_nanos_def)
  moreover note duration_new_spec[OF conjunct2[OF total_add[OF t]], folded duration_add_def]
  ultimately show "clock_ok (duration_add a b)"
    using tot unfolding clock_ok_def same_sign_def total_nanos_def span_nanos_def by linarith
qed

lemma PIT_ok: "clock_ok PIT_DURATION" "total_nanos PIT_DURATION = 4500572"
  by (simp_all add: clock_ok_def PIT_DURATION_def total_nanos_def span_nanos_def)

lemma timer_clock: "clock_monotonic (timer_interrupt k) = duration_add (clock_monotonic k) PIT_DURATION"
  by (simp add: timer_interrupt_def Let_def put_context_def split: sum.split)

lemma ticks_clock:
  assumes "clock_ok (clock_monotonic k)" and "total_nanos (clock_monotonic k) + int n * 4500572 \<le> 2 ^ 60 * 1000000000"
  shows "clock_ok (clock_monotonic ((timer_interrupt ^^ n) k))
    \<and> total_nanos (clock_monotonic ((timer_interrupt ^^ n) k)) = total_nanos (clock_monotonic k) + int n * 4500572"
  using assms(2)
proof (induction n)
  case 0
  then show ?case using assms(1) by simp
next
  case (Suc n)
  then have IH: "clock_ok (clock_monotonic ((timer_interrupt ^^ n) k))"
    "total_nanos (clock_monotonic ((timer_interrupt ^^ n) k)) = total_nanos (clock_monotonic k) + int n * 4500572"
    by (simp_all add: algebra_simps)
  then show ?case
    using clock_add[OF IH(1) PIT_ok(1)] Suc.prems by (simp add: timer_clock PIT_ok(2) algebra_simps)
qed

lemma timer_inner:
  "length (inner (timer_interrupt k)) = length (inner k)" "cur_i (timer_interrupt k) = cur_i k"
  "blocked (inner (timer_interrupt k) ! j) = blocked (inner k ! j)" "wake (inner (timer_interrupt k) ! j) = wake (inner k ! j)"
proof -
  show "length (inner (timer_interrupt k)) = length (inner k)" "cur_i (timer_interrupt k) = cur_i k"
    by (simp_all add: timer_interrupt_def Let_def put_context_def split: sum.split)
  show "blocked (inner (timer_interrupt k) ! j) = blocked (inner k ! j)" "wake (inner (timer_interrupt k) ! j) = wake (inner k ! j)"
    by (cases "j = cur_i k"; auto simp: timer_interrupt_def Let_def put_context_def dest: current_Ok split: sum.split)+
qed

lemma ticks_inner:
  "blocked (inner ((timer_interrupt ^^ n) k) ! j) = blocked (inner k ! j)"
  "wake (inner ((timer_interrupt ^^ n) k) ! j) = wake (inner k ! j)"
  by (induction n) (simp_all add: timer_inner)

section \<open>Flags\<close>

lemma iopl_flags:
  fixes level f :: usize
  assumes "level \<le> 3"
  defines "fl \<equiv> (f AND (0xFFFFFFFF - 0x3000)) OR (push_bit 12 level AND 0x3000)"
  shows "take_bit 2 (drop_bit 12 fl) = level" and "i \<noteq> 12 \<Longrightarrow> i \<noteq> 13 \<Longrightarrow> bit fl i = bit f i"
proof -
  have m: "(0x3000 :: usize) = push_bit 12 (mask 2)" by (simp add: mask_eq_exp_minus_1 push_bit_eq_mult)
  have n: "(0xFFFFFFFF - 0x3000 :: usize) = NOT (push_bit 12 (mask 2))"
    by (simp add: m[symmetric] not_eq_complement)
  have fl: "fl = (f AND NOT (push_bit 12 (mask 2))) OR (push_bit 12 level AND push_bit 12 (mask 2))"
    unfolding fl_def n unfolding m ..
  have l: "take_bit 2 level = level"
    using assms(1) by (intro word_eq_unatI) (simp add: unsigned_take_bit_eq take_bit_nat_eq_self word_le_nat_alt)
  have bl: "bit level j \<Longrightarrow> j < 2" for j using l by (metis bit_take_bit_iff)
  show "take_bit 2 (drop_bit 12 fl) = level"
    unfolding fl by (rule bit_word_eqI) (auto simp: bit_simps dest: bl)
  show "bit fl i = bit f i" if "i \<noteq> 12" "i \<noteq> 13"
    unfolding fl using that bit_imp_le_length[of f i] by (auto simp: bit_simps)
qed

lemma current_cases: "current k = Err ESRCH \<or> (current k = Inr (inner k ! cur_i k) \<and> enabled k \<and> cur_i k < length (inner k))"
  by (simp add: current_def manager_get_def)

section \<open>Properties\<close>

text \<open>
  C11. Exit statuses reach the parent. When a process exits, it is marked as exited, nobody's
  number changes, its children become children of its parent, every context waiting on the
  parent's statuses is released, and the parent's next \<^verbatim>\<open>waitpid\<close> for the process, or for
  any child whose status the process had not collected, returns at once with the right status.
\<close>

theorem exit_status_delivered:
  assumes "current k = Inr c" and "pid c \<noteq> ppid c" and "distinct (pid c # map fst (statuses c))"
    and "i < length (inner k)" and "pid (inner k ! i) = ppid c" and "btree_ok (statuses (inner k ! i))"
  shows "let k' = do_sys_exit status k in
    exited (inner k' ! cur_i k) \<and> length (inner k') = length (inner k)
    \<and> (\<forall>j < length (inner k). pid (inner k' ! j) = pid (inner k ! j)
        \<and> ppid (inner k' ! j) = (if ppid (inner k ! j) = pid c then ppid c else ppid (inner k ! j))
        \<and> (pid (inner k ! j) \<in> set (waiters (inner k ! i)) \<longrightarrow> \<not> blocked (inner k' ! j)))
    \<and> (\<forall>(q, st) \<in> set ((pid c, status) # statuses c). 0 < sint q \<longrightarrow>
        fst (do_sys_waitpid q ptr (k'\<lparr>cur_i := i\<rparr>)) = Some (Ok q, if ptr > 0 then Some (ptr, st) else None))"
proof -
  define k' where "k' = do_sys_exit status k"
  define cs where "cs = (inner k)[cur_i k := c\<lparr>exited := True, statuses := []\<rparr>]"
  have cur: "cur_i k < length (inner k)" "c = inner k ! cur_i k" "enabled k" using current_Ok[OF assms(1)] by auto
  have ne: "i \<noteq> cur_i k" using assms(2,5) cur(2) by auto
  have cs: "pid (cs ! j) = pid (inner k ! j)" "ppid (cs ! j) = ppid (inner k ! j)"
      "waiters (cs ! j) = waiters (inner k ! j)" "blocked (cs ! j) = blocked (inner k ! j)" for j
    using cur by (cases "j = cur_i k"; simp add: cs_def)+
  have csi: "cs ! i = inner k ! i" using ne by (simp add: cs_def)
  note nth = do_sys_exit_nth[OF assms(1), where status = status, folded k'_def cs_def]
  have len: "length (inner k') = length (inner k)" "enabled k'" by (simp_all add: k'_def do_sys_exit_rest cur(3))
  have "exited (inner k' ! cur_i k)" using nth[OF cur(1)] cur(1) by (simp add: left_by_exit_fields cs_def)
  moreover have "pid (inner k' ! j) = pid (inner k ! j)
      \<and> ppid (inner k' ! j) = (if ppid (inner k ! j) = pid c then ppid c else ppid (inner k ! j))
      \<and> (pid (inner k ! j) \<in> set (waiters (inner k ! i)) \<longrightarrow> \<not> blocked (inner k' ! j))"
    if "j < length (inner k)" for j
    using nth[OF that] that assms(4,5) by (auto simp: left_by_exit_fields cs)
  moreover have "fst (do_sys_waitpid q ptr (k'\<lparr>cur_i := i\<rparr>)) = Some (Ok q, if ptr > 0 then Some (ptr, st) else None)"
    if e: "(q, st) \<in> set ((pid c, status) # statuses c)" and "0 < sint q" for q st
  proof (rule waitpid_ready)
    let ?es = "(pid c, status) # statuses c"
    have st: "statuses (inner k' ! i) = fold (\<lambda>(p, st). btree_insert p st) ?es (statuses (inner k ! i))"
      using nth[OF assms(4)] assms(4,5) by (simp add: left_by_exit_fields cs csi)
    show "current (k'\<lparr>cur_i := i\<rparr>) = Inr (inner k' ! i)" using len assms(4) by (simp add: current_def manager_get_def)
    show "btree_ok (statuses (inner k' ! i))" unfolding st by (rule inserts_ok[OF assms(6)])
    show "map_of (statuses (inner k' ! i)) q = Some st"
      unfolding st by (rule inserts_in[OF assms(6) _ e]) (use assms(3) in simp)
  qed (rule that(2))
  ultimately show ?thesis using len unfolding Let_def k'_def[symmetric] by blast
qed

definition demo_family :: "unit Kernel" where
  "demo_family = demo_kernel [demo_context 1 False False, (demo_context 2 True False)\<lparr>waiters := [2]\<rparr>,
     (demo_context 3 False False)\<lparr>ppid := 2, statuses := [(4, 9)]\<rparr>, (demo_context 5 False False)\<lparr>ppid := 3\<rparr>] 2"

theorem exit_status_delivered_witness:
  "\<not> blocked (inner (do_sys_exit 7 demo_family) ! 1) \<and> ppid (inner (do_sys_exit 7 demo_family) ! 3) = 2
   \<and> fst (do_sys_waitpid 3 0x1000 ((do_sys_exit 7 demo_family)\<lparr>cur_i := 1\<rparr>)) = Some (Ok 3, Some (0x1000, 7))"
proof -
  define c where "c = (demo_context 3 False False)\<lparr>ppid := 2, statuses := [(4, 9)]\<rparr>"
  have "current demo_family = Inr c" "pid c \<noteq> ppid c" "distinct (pid c # map fst (statuses c))"
    "1 < length (inner demo_family)" "pid (inner demo_family ! 1) = ppid c" "btree_ok (statuses (inner demo_family ! 1))"
    by (simp_all add: demo_family_def c_def demo_kernel_def demo_context_def blank_context_def current_def manager_get_def)
  note E = exit_status_delivered[OF this, of 7 "0x1000", unfolded Let_def]
  have "length (inner demo_family) = 4" "pid (inner demo_family ! 1) = 2" "waiters (inner demo_family ! 1) = [2]"
    "ppid (inner demo_family ! 3) = 3" "pid c = 3" "ppid c = 2"
    by (simp_all add: demo_family_def c_def demo_kernel_def demo_context_def blank_context_def)
  with E show ?thesis by auto
qed

text \<open>
  C38. Sleeping takes as long as asked, counted in timer ticks: \<^verbatim>\<open>nanosleep\<close> blocks the caller with
  a wake-up time, timer interrupts leave it blocked with that time, and after \<^term>\<open>n\<close> of them the
  test with which the scheduler wakes a blocked context succeeds exactly when
  \<^term>\<open>n\<close> ticks of 4500572 nanoseconds are at least the time asked for.
\<close>

theorem sleeper_wakes:
  assumes "current k = Inr c" and "req_ptr > 0" and "do_sys_nanosleep req_ptr req k = (r, k1)"
    and "clock_ok (clock_monotonic k)" and "clock_ok \<lparr>secs = tv_sec req, nanos = tv_nsec req\<rparr>"
    and "total_nanos (clock_monotonic k) + span_nanos (tv_sec req) (tv_nsec req) \<le> 2 ^ 59 * 1000000000" and "n \<le> 2 ^ 59"
  shows "r = None \<and> (\<exists>w. wake (inner ((timer_interrupt ^^ n) k1) ! cur_i k) = Some w
      \<and> blocked (inner ((timer_interrupt ^^ n) k1) ! cur_i k)
      \<and> (duration_le w (clock_monotonic ((timer_interrupt ^^ n) k1)) \<longleftrightarrow>
          span_nanos (tv_sec req) (tv_nsec req) \<le> int n * 4500572))"
proof -
  let ?d = "\<lparr>secs = tv_sec req, nanos = tv_nsec req\<rparr>" and ?t = "span_nanos (tv_sec req) (tv_nsec req)"
  define w where "w = duration_add (clock_monotonic k) (duration_new (tv_sec req) (tv_nsec req))"
  have cur: "cur_i k < length (inner k)" using current_Ok[OF assms(1)] by simp
  have k1: "r = None" "k1 = put_context k (cur_i k) (c\<lparr>blocked := True, wake := Some w\<rparr>)"
    using assms(1-3) by (simp_all add: do_sys_nanosleep_def w_def)
  have pos: "0 \<le> ?t" "0 \<le> total_nanos (clock_monotonic k)"
    using assms(4,5) by (simp_all add: clock_ok_def total_nanos_def span_nanos_def)
  have "duration_carry (tv_sec req) (tv_nsec req) = (tv_sec req, tv_nsec req)"
    "duration_borrow (tv_sec req) (tv_nsec req) = (tv_sec req, tv_nsec req)"
    using assms(5) by (auto simp: clock_ok_def duration_carry.simps[of "tv_sec req"] duration_borrow.simps[of "tv_sec req"])
  then have "duration_new (tv_sec req) (tv_nsec req) = ?d" by (simp add: duration_new_def)
  moreover have "total_nanos ?d = ?t" by (simp add: total_nanos_def)
  ultimately have W: "clock_ok w" "total_nanos w = total_nanos (clock_monotonic k) + ?t"
    using clock_add[OF assms(4,5)] assms(6) pos by (simp_all add: w_def)
  have "total_nanos (clock_monotonic k1) + int n * 4500572 \<le> 2 ^ 60 * 1000000000"
    using assms(6,7) pos by (simp add: k1 put_context_def)
  note T = ticks_clock[OF _ this]
  have "clock_ok (clock_monotonic k1)" "clock_monotonic k1 = clock_monotonic k" using assms(4) by (simp_all add: k1 put_context_def)
  note T' = T[OF this(1)] and same = this(2)
  have "tame w" "tame (clock_monotonic ((timer_interrupt ^^ n) k1))"
    using W T' assms(6,7) pos by (auto intro!: clock_total simp: same)
  then have "duration_le w (clock_monotonic ((timer_interrupt ^^ n) k1)) \<longleftrightarrow> ?t \<le> int n * 4500572"
    using W(2) T' by (auto simp: duration_le_def duration_cmp_total same)
  then show ?thesis using k1 cur by (simp add: ticks_inner put_context_def)
qed

theorem sleeper_wakes_witness:
  "\<exists>k1 w. do_sys_nanosleep 0x1000 \<lparr>tv_sec = 0, tv_nsec = 9000000\<rparr> (demo_kernel [demo_context 1 False False] 0) = (None, k1)
     \<and> wake (inner ((timer_interrupt ^^ 2) k1) ! 0) = Some w
     \<and> duration_le w (clock_monotonic ((timer_interrupt ^^ 2) k1))"
proof -
  let ?k = "demo_kernel [demo_context 1 False False] 0" and ?r = "\<lparr>tv_sec = 0, tv_nsec = 9000000\<rparr>"
  obtain r k1 where e: "do_sys_nanosleep 0x1000 ?r ?k = (r, k1)" by fastforce
  have "current ?k = Inr (demo_context 1 False False)" "(0x1000 :: usize) > 0" "clock_ok (clock_monotonic ?k)"
    "clock_ok \<lparr>secs = tv_sec ?r, nanos = tv_nsec ?r\<rparr>"
    "total_nanos (clock_monotonic ?k) + span_nanos (tv_sec ?r) (tv_nsec ?r) \<le> 2 ^ 59 * 1000000000" "cur_i ?k = 0"
    "(2 :: nat) \<le> 2 ^ 59" "span_nanos (tv_sec ?r) (tv_nsec ?r) \<le> int 2 * 4500572"
    by (simp_all add: demo_kernel_def current_def manager_get_def clock_ok_def total_nanos_def span_nanos_def)
  with sleeper_wakes[OF this(1,2) e this(3-5,7)] e show ?thesis by metis
qed

text \<open>
  Error behaviour of the process and time calls: \<^verbatim>\<open>getpid\<close> fails only without a current
  context; \<^verbatim>\<open>iopl\<close> accepts exactly the levels 0 to 3, puts the level in bits 12 and 13 of the flags
  and changes no other flag; \<^verbatim>\<open>waitpid\<close> refuses non-positive process numbers;
  \<^verbatim>\<open>clock_gettime\<close> refuses a null pointer before it looks at the clock, and unknown clocks; a call that fails
  changes nothing.
\<close>

theorem process_call_errors:
  "do_sys_getpid k = (if enabled k \<and> cur_i k < length (inner k) then Ok (pid (inner k ! cur_i k)) else Err ESRCH)
   \<and> (case do_sys_iopl rg k of (res, rg', k') \<Rightarrow>
       if reg_bx rg > 3 then res = Err EINVAL \<and> rg' = rg \<and> k' = k
       else if current k = Err ESRCH then res = Err ESRCH \<and> rg' = rg \<and> k' = k
       else res = Ok 0 \<and> iopl (inner k' ! cur_i k) = reg_bx rg
         \<and> take_bit 2 (drop_bit 12 (reg_flags rg')) = reg_bx rg
         \<and> (\<forall>i. i \<noteq> 12 \<and> i \<noteq> 13 \<longrightarrow> bit (reg_flags rg') i = bit (reg_flags rg) i))
   \<and> (sint p \<le> 0 \<longrightarrow> do_sys_waitpid p ptr k = (Some (Err (if current k = Err ESRCH then ESRCH else ECHILD), None), k))
   \<and> (do_sys_clock_gettime clock 0 k = (Err EFAULT, None))
   \<and> (clock \<notin> {CLOCK_REALTIME, CLOCK_MONOTONIC} \<and> tp > 0 \<longrightarrow> do_sys_clock_gettime clock tp k = (Err EINVAL, None))"
proof -
  have iopl: "case do_sys_iopl rg k of (res, rg', k') \<Rightarrow>
       if reg_bx rg > 3 then res = Err EINVAL \<and> rg' = rg \<and> k' = k
       else if current k = Err ESRCH then res = Err ESRCH \<and> rg' = rg \<and> k' = k
       else res = Ok 0 \<and> iopl (inner k' ! cur_i k) = reg_bx rg
         \<and> take_bit 2 (drop_bit 12 (reg_flags rg')) = reg_bx rg
         \<and> (\<forall>i. i \<noteq> 12 \<and> i \<noteq> 13 \<longrightarrow> bit (reg_flags rg') i = bit (reg_flags rg) i)"
    using iopl_flags[of "reg_bx rg", where f = "reg_flags rg"] current_cases[of k]
    by (auto simp: do_sys_iopl_def Let_def put_context_def not_le split: if_splits)
  show ?thesis
    using iopl current_cases[of k]
    by (auto simp: do_sys_getpid_def do_sys_waitpid_def do_sys_clock_gettime_def current_def manager_get_def)
qed

theorem process_call_errors_witness:
  "do_sys_waitpid (-1) 0 (demo_kernel [demo_context 1 False False] 0) =
     (Some (Err ECHILD, None), demo_kernel [demo_context 1 False False] 0)
   \<and> fst (do_sys_iopl (regs_default\<lparr>reg_bx := 4\<rparr>) (demo_kernel [] 0)) = Err EINVAL"
proof -
  have "sint (- 1 :: isize) \<le> 0" by simp
  moreover have "current (demo_kernel [demo_context 1 False False] 0) \<noteq> Err ESRCH"
    by (simp add: demo_kernel_def current_def manager_get_def)
  ultimately have "do_sys_waitpid (-1) 0 (demo_kernel [demo_context 1 False False] 0) =
     (Some (Err ECHILD, None), demo_kernel [demo_context 1 False False] 0)"
    using process_call_errors[of "demo_kernel [demo_context 1 False False] 0" regs_default "-1" 0 0 0] by simp
  moreover have "fst (do_sys_iopl (regs_default\<lparr>reg_bx := 4\<rparr>) (demo_kernel [] 0)) = Err EINVAL"
    using process_call_errors[of "demo_kernel [] 0" "regs_default\<lparr>reg_bx := 4\<rparr>" 1 0 0 0]
    by (auto split: prod.splits)
  ultimately show ?thesis ..
qed

end
