(* ===== verification/Cloning.thy ===== *)
theory Cloning
  imports Scheduling
begin

text \<open>
  Correctness of \<^verbatim>\<open>context_clone\<close> (\<^verbatim>\<open>kernel/arch/context.rs\<close>): what a child shares with
  its parent and what it gets a copy of, depending on the flags, with every segment copied byte
  by byte, a kernel stack of its own that resumes where the parent trapped, and no block of any
  other context touched. Operations that allocate are considered in memory with \<^term>\<open>room\<close> for what they
  take, which a booted machine has: \<^term>\<open>boot_mem\<close> has room for 30175 clusters.
\<close>

section \<open>Blocks that keep their contents\<close>

definition keeps_blocks :: "mem \<Rightarrow> mem \<Rightarrow> bool" where
  "keeps_blocks m m' \<longleftrightarrow> (\<forall>p. live m p \<longrightarrow> live m' p \<and> alloc_size m' p = alloc_size m p
     \<and> (\<forall>i. unat i < unat (alloc_size m p) \<longrightarrow> m' (p + i) = m (p + i)))"

lemma keeps_blocks_refl [simp]: "keeps_blocks m m"
  by (simp add: keeps_blocks_def)

lemma keeps_blocks_trans: "keeps_blocks m m1 \<Longrightarrow> keeps_blocks m1 m2 \<Longrightarrow> keeps_blocks m m2"
  by (simp add: keeps_blocks_def)

text \<open>Writes outside the table and outside every live block.\<close>

lemma keeps_blocks_write:
  assumes "\<And>a. in_table a \<Longrightarrow> m' a = m a"
    and "\<And>p i. live m p \<Longrightarrow> unat i < unat (alloc_size m p) \<Longrightarrow> m' (p + i) = m (p + i)"
  shows "keeps_blocks m m'" and "wf_table m' \<longleftrightarrow> wf_table m" and "room K m' \<longleftrightarrow> room K m"
    and "live m' p \<longleftrightarrow> live m p" and "alloc_size m' p = alloc_size m p"
proof -
  have tab: "cluster m' j = cluster m j" for j
    by (rule cluster_cong) (rule assms(1))
  show w: "wf_table m' \<longleftrightarrow> wf_table m" and l: "live m' p \<longleftrightarrow> live m p" for p
    by (rule table_cong[OF tab])+
  show "room K m' \<longleftrightarrow> room K m" by (rule room_cong) (rule tab)
  show s: "alloc_size m' p = alloc_size m p" for p by (rule alloc_size_cong) (simp add: tab)
  show "keeps_blocks m m'" using assms(2) by (simp add: keeps_blocks_def l s)
qed

lemma took_keeps_blocks:
  assumes "wf_table m" and "took m n k r m'"
  shows "keeps_blocks m m'"
  unfolding keeps_blocks_def
proof (intro allI impI conjI)
  fix p assume lv: "live m p"
  then show "live m' p" using took_live[OF assms(2)] by blast
  have "is_block p" "p \<noteq> r" using lv took_fresh[OF assms] by (auto simp: live_def)
  then show "alloc_size m' p = alloc_size m p" by (rule took_size_other[OF assms(2)])
  show "m' (p + i) = m (p + i)" if "unat i < unat (alloc_size m p)" for i
    by (rule took_keeps_block(1)[OF assms(1) lv assms(2) that])
qed

text \<open>Filling a fresh block keeps what the allocation kept.\<close>

lemma fill_fresh_block:
  assumes wf: "wf_table m" and took: "took m n (clusters_needed sz) r m1" and fits: "block_fits r sz"
    and same: "\<And>a. \<not> a - r < sz \<Longrightarrow> m2 a = m1 a"
  shows "keeps_blocks m m2" and "wf_table m2" and "room K m2 \<longleftrightarrow> room K m1"
    and "live m2 q \<longleftrightarrow> q = r \<or> live m q" and "unat (alloc_size m2 r) = 4096 * clusters_needed sz"
proof -
  have sz: "unat sz \<le> 4096 * clusters_needed sz"
    by (simp add: clusters_needed_def)
  have "\<not> a - r < sz" if "in_table a" for a
  proof -
    have "\<not> unat (a - r) < 4096 * clusters_needed sz"
      using fits that by (intro block_outside_table) (simp_all add: block_fits_def word_le_nat_alt)
    then show ?thesis using sz by (simp add: word_less_nat_alt)
  qed
  then have tab: "\<And>a. in_table a \<Longrightarrow> m2 a = m1 a" by (simp add: same)
  have cl: "cluster m2 j = cluster m1 j" for j by (rule cluster_cong) (rule tab)
  show "wf_table m2" using took_wf[OF wf took] by (simp add: table_cong[OF cl])
  show l: "live m2 q \<longleftrightarrow> q = r \<or> live m q" for q
    using took_live[OF took] by (simp add: table_cong[OF cl])
  show "room K m2 \<longleftrightarrow> room K m1" by (rule room_cong) (rule cl)
  have as: "alloc_size m2 q = alloc_size m1 q" for q by (rule alloc_size_cong) (simp add: cl)
  show "unat (alloc_size m2 r) = 4096 * clusters_needed sz" by (simp add: as took_size[OF wf took])
  show "keeps_blocks m m2"
    unfolding keeps_blocks_def
  proof (intro allI impI conjI)
    fix p assume lv: "live m p"
    then show "live m2 p" by (simp add: l)
    have k: "keeps_blocks m m1" by (rule took_keeps_blocks[OF wf took])
    then show "alloc_size m2 p = alloc_size m p" using lv by (simp add: as keeps_blocks_def)
    fix i :: usize
    assume i: "unat i < unat (alloc_size m p)"
    have "\<not> unat ((p + i) - r) < 4096 * clusters_needed sz" by (rule took_apart(1)[OF wf lv took i])
    then have "\<not> (p + i) - r < sz" using sz by (simp add: word_less_nat_alt)
    then show "m2 (p + i) = m (p + i)" using k lv i by (simp add: same keeps_blocks_def)
  qed
qed

section \<open>Copied segments\<close>

text \<open>The memory behind a segment is a live block at least as large as the segment.\<close>

definition backed :: "mem \<Rightarrow> ContextMemory \<Rightarrow> bool" where
  "backed m s \<longleftrightarrow> live m (physical_address s) \<and> unat (virtual_size s) \<le> unat (alloc_size m (physical_address s))"

text \<open>A copy of a segment: the same addresses, size and rights over other memory with the same bytes.\<close>

definition copy_of :: "mem \<Rightarrow> ContextMemory \<Rightarrow> mem \<Rightarrow> ContextMemory \<Rightarrow> bool" where
  "copy_of m s m' c \<longleftrightarrow> virtual_address c = virtual_address s \<and> virtual_size c = virtual_size s
     \<and> writeable c = writeable s \<and> allocated c \<and> backed m' c
     \<and> (\<forall>i < virtual_size s. m' (physical_address c + i) = m (physical_address s + i))"

lemma backed_keeps: "backed m s \<Longrightarrow> keeps_blocks m m' \<Longrightarrow> backed m' s"
  by (auto simp: backed_def keeps_blocks_def)

lemma backed_bytes:
  "backed m s \<Longrightarrow> keeps_blocks m m' \<Longrightarrow> i < virtual_size s \<Longrightarrow>
   m' (physical_address s + i) = m (physical_address s + i)"
  by (auto simp: backed_def keeps_blocks_def word_less_nat_alt)

lemma copy_of_keeps:
  "copy_of m s m1 c \<Longrightarrow> keeps_blocks m1 m2 \<Longrightarrow> copy_of m s m2 c"
  using backed_keeps backed_bytes[of m1 c m2] by (auto simp: copy_of_def)

lemma copy_of_from:
  "backed m0 s \<Longrightarrow> keeps_blocks m0 m \<Longrightarrow> copy_of m s m' c \<Longrightarrow> copy_of m0 s m' c"
  using backed_bytes[of m0 s m] by (auto simp: copy_of_def)

definition clusters_of :: "ContextMemory list \<Rightarrow> nat" where
  "clusters_of ss = sum_list (map (\<lambda>s. clusters_needed (virtual_size s)) ss)"

lemma copy_segment_spec:
  assumes wf: "wf_table m" and rm: "room K m" "clusters_needed (virtual_size s) \<le> K"
    and src: "backed m s" "0 < virtual_size s" and cp: "copy_segment m s = (c, m')"
  obtains d where "c = Some d" and "wf_table m'" and "room (K - clusters_needed (virtual_size s)) m'"
    and "keeps_blocks m m'" and "copy_of m s m' d" and "\<not> live m (physical_address d)"
proof -
  let ?p = "physical_address s" and ?n = "virtual_size s"
  obtain r m1 where a: "alloc m ?n = (r, m1)" by fastforce
  note A = alloc_room[OF rm(1) src(2) rm(2) a]
  obtain n where took: "took m n (clusters_needed ?n) r m1" using A(3) by blast
  have lv: "live m ?p" and le: "unat ?n \<le> unat (alloc_size m ?p)" using src(1) by (simp_all add: backed_def)
  have sz: "unat ?n \<le> 4096 * clusters_needed ?n" by (simp add: clusters_needed_def)
  have "?p + i \<noteq> r + j" if "i < ?n" "j < ?n" for i j
  proof
    assume "?p + i = r + j"
    then have "unat ((?p + i) - r) < 4096 * clusters_needed ?n" using that(2) sz by (simp add: word_less_nat_alt)
    then show False using took_apart(1)[OF wf lv took] that(1) le by (simp add: word_less_nat_alt)
  qed
  then have m': "m' = copied m1 r ?p ?n"
    and c: "c = Some \<lparr>physical_address = r, virtual_address = virtual_address s, virtual_size = ?n,
      writeable = writeable s, allocated = True\<rparr>"
    using cp a A(2) memcpy_eq[of ?n ?p r m1] by (auto simp: copy_segment_def word_gt_0)
  have same: "m' a = m1 a" if "\<not> a - r < ?n" for a using that by (simp add: m' copied_def)
  note fill = fill_fresh_block[OF wf took A(1), of m', OF same]
  have "m' (r + i) = m (?p + i)" if "i < ?n" for i
    using that took_keeps_block(1)[OF wf lv took, of i] le by (simp add: m' copied_def word_less_nat_alt)
  then show thesis
    using fill(1,2) fill(3)[of "K - clusters_needed ?n"] fill(4)[of r] fill(5) A(4) took_fresh[OF wf took] sz
    by (intro that[OF c]) (simp_all add: copy_of_def backed_def)
qed

lemma copy_of_live: "copy_of m s m' c \<Longrightarrow> live m' (physical_address c)"
  by (simp add: copy_of_def backed_def)

text \<open>Every segment is copied, in order, each into a block of its own.\<close>

lemma copy_segments_spec:
  assumes "wf_table m" and "room K m" and "clusters_of ss \<le> K"
    and "\<forall>s \<in> set ss. backed m s \<and> 0 < virtual_size s" and "copy_segments m ss = (cs, m')"
  shows "wf_table m' \<and> room (K - clusters_of ss) m' \<and> keeps_blocks m m' \<and> list_all2 (\<lambda>s c. copy_of m s m' c) ss cs
    \<and> distinct (map physical_address cs) \<and> (\<forall>c \<in> set cs. \<not> live m (physical_address c))"
  using assms
proof (induction ss arbitrary: m K cs)
  case (Cons s ss)
  let ?k = "clusters_needed (virtual_size s)"
  obtain c m1 where c: "copy_segment m s = (c, m1)" by fastforce
  have k: "?k \<le> K" "clusters_of ss \<le> K - ?k" using Cons.prems(3) by (simp_all add: clusters_of_def)
  have src: "backed m s" "0 < virtual_size s" using Cons.prems(4) by simp_all
  obtain d where d: "c = Some d" "wf_table m1" "room (K - ?k) m1" "keeps_blocks m m1" "copy_of m s m1 d" "\<not> live m (physical_address d)"
    by (rule copy_segment_spec[OF Cons.prems(1,2) k(1) src c])
  obtain cs1 where cs1: "copy_segments m1 ss = (cs1, m')" and cs: "cs = d # cs1"
    using Cons.prems(5) c d(1) by (auto split: prod.splits)
  have b1: "\<forall>s \<in> set ss. backed m1 s \<and> 0 < virtual_size s" using Cons.prems(4) d(4) backed_keeps by auto
  note R = Cons.IH[OF d(2,3) k(2) b1 cs1]
  have "list_all2 (\<lambda>s c. copy_of m s m' c) ss cs1"
    by (rule list.rel_mono_strong[of "\<lambda>s c. copy_of m1 s m' c"])
      (use R Cons.prems(4) copy_of_from[OF _ d(4)] in auto)
  moreover have "copy_of m s m' d" using copy_of_keeps[OF d(5)] R by blast
  moreover have "physical_address d \<notin> physical_address ` set cs1" using copy_of_live[OF d(5)] R by fastforce
  moreover have "\<not> live m (physical_address e)" if "e \<in> set cs1" for e using R that d(4) by (auto simp: keeps_blocks_def)
  moreover have "keeps_blocks m m'" using keeps_blocks_trans[OF d(4)] R by blast
  moreover have "room (K - clusters_of (s # ss)) m'" using R by (simp add: clusters_of_def diff_diff_eq)
  ultimately show ?case using R d(6) by (simp add: cs)
qed (simp add: clusters_of_def)

lemma copy_stack_spec:
  assumes "wf_table m" and "room K m" and "clusters_of (case st of Some s \<Rightarrow> [s] | None \<Rightarrow> []) \<le> K"
    and "\<And>s. st = Some s \<Longrightarrow> backed m s \<and> 0 < virtual_size s"
    and "(case st of Some s \<Rightarrow> copy_segment m s | None \<Rightarrow> (None, m)) = (c, m')"
  shows "wf_table m'" and "keeps_blocks m m'" and "rel_option (\<lambda>s c. copy_of m s m' c) st c"
    and "room (K - clusters_of (case st of Some s \<Rightarrow> [s] | None \<Rightarrow> [])) m'"
    and "\<And>d. c = Some d \<Longrightarrow> \<not> live m (physical_address d)"
proof -
  have "wf_table m' \<and> keeps_blocks m m' \<and> rel_option (\<lambda>s c. copy_of m s m' c) st c
    \<and> room (K - clusters_of (case st of Some s \<Rightarrow> [s] | None \<Rightarrow> [])) m' \<and> (\<forall>d. c = Some d \<longrightarrow> \<not> live m (physical_address d))"
  proof (cases st)
    case None
    then show ?thesis using assms by (simp add: clusters_of_def)
  next
    case (Some s)
    then have "room K m" "clusters_needed (virtual_size s) \<le> K" "backed m s" "0 < virtual_size s" "copy_segment m s = (c, m')"
      using assms by (simp_all add: clusters_of_def)
    then show ?thesis
      by (rule copy_segment_spec[OF assms(1)]) (use Some in \<open>simp add: clusters_of_def\<close>)
  qed
  then show "wf_table m'" and "keeps_blocks m m'" and "rel_option (\<lambda>s c. copy_of m s m' c) st c"
    and "room (K - clusters_of (case st of Some s \<Rightarrow> [s] | None \<Rightarrow> [])) m'"
    and "\<And>d. c = Some d \<Longrightarrow> \<not> live m (physical_address d)" by simp_all
qed

section \<open>The child's kernel stack\<close>

text \<open>
  The trap frame and the three words below it lie on the parent's kernel stack, a live block with
  the floating point state behind the stack, as \<^verbatim>\<open>context_new\<close> and \<^verbatim>\<open>context_clone\<close> lay it out.
\<close>

definition frame_ok :: "mem \<Rightarrow> Context \<Rightarrow> usize \<Rightarrow> bool" where
  "frame_ok m parent regs_addr \<longleftrightarrow> 12 \<le> unat (regs_addr - kernel_stack parent)
     \<and> unat (regs_addr - kernel_stack parent) + 48 \<le> 0x100000
     \<and> live m (kernel_stack parent) \<and> 0x100200 \<le> unat (alloc_size m (kernel_stack parent))
     \<and> fx parent = kernel_stack parent + CONTEXT_STACK_SIZE"

text \<open>An access of \<^term>\<open>n\<close> bytes at offset \<^term>\<open>d\<close> of a block of \<^term>\<open>sz\<close> bytes stays inside it.\<close>

lemma inside_block:
  fixes a r d n sz :: usize
  assumes "unat d + unat n \<le> unat sz" and "\<not> a - r < sz"
  shows "\<not> a - (r + d) < n"
proof
  assume lt: "a - (r + d) < n"
  have "unat (a - (r + d) + d) = unat (a - (r + d)) + unat d"
    using lt assms(1) unat_lt2p[of sz] by (intro unat_add_lt) (simp add: word_less_nat_alt)
  moreover have "a - (r + d) + d = a - r" by simp
  ultimately have "unat (a - r) < unat sz" using lt assms(1) by (simp add: word_less_nat_alt)
  then show False using assms(2) by (simp add: word_less_nat_alt)
qed

lemma child_stack_writes:
  assumes "frame_ok m0 parent regs_addr" and "\<not> a - kstack < 0x100200"
  shows "clone_kernel_stack regs_addr kstack parent m a = m a"
proof -
  define off where "off = regs_addr - kernel_stack parent"
  have off: "12 \<le> unat off" "unat off + 48 \<le> 0x100000" using assms(1) by (simp_all add: frame_ok_def off_def)
  have "(12 :: usize) \<le> off" using off by (simp add: word_le_nat_alt)
  then have u: "unat (off - 12) = unat off - 12" by (simp add: unat_sub_le)
  have c: "off + kstack - 12 = kstack + (off - 12)" "off + kstack = kstack + off" by simp_all
  have sizes: "SIZE_OF_USIZE * 3 = 12" "size_of_regs + 12 = 60" "CONTEXT_STACK_SIZE = 0x100000"
    by (simp_all add: redox_consts)
  have "\<not> a - (kstack + (off - 12)) < 60" "\<not> a - (kstack + off) < 4" "\<not> a - (kstack + 0x100000) < 512"
    by (rule inside_block[OF _ assms(2)]; use off u in simp)+
  then show ?thesis
    unfolding clone_kernel_stack_def Let_def sizes off_def[symmetric] c(1) unfolding c(2)
    by (simp only: memcpy_other write_usize_other[OF not_less[THEN iffD1]] not_False_eq_True)
qed

text \<open>
  The child's kernel stack: its trap frame is the parent's at the same distance from the bottom, with
  the result register zero, the saved stack pointer is three words below it, and the floating point
  state is the parent's.
\<close>

definition child_frame :: "Context \<Rightarrow> usize \<Rightarrow> mem \<Rightarrow> Context \<Rightarrow> mem \<Rightarrow> bool" where
  "child_frame parent regs_addr m child m' \<longleftrightarrow>
     (let frame = kernel_stack child + (regs_addr - kernel_stack parent) in
      regs child = (regs parent)\<lparr>reg_sp := frame - 12\<rparr>
      \<and> fx child = kernel_stack child + CONTEXT_STACK_SIZE
      \<and> (\<forall>i < 60. m' (frame - 12 + i) = (if 12 \<le> i \<and> i < 16 then 0 else m (regs_addr - 12 + i)))
      \<and> (\<forall>i < 512. m' (fx child + i) = m (fx parent + i)))"

lemma write_zero: "write_usize m a 0 x = (if x - a < 4 then 0 else m x)"
proof (cases "x - a < 4")
  case True
  define j where "j = unat (x - a)"
  have x: "x = a + of_nat j" by (simp add: j_def)
  have "j < 4" using True by (simp add: j_def word_less_nat_alt)
  then have "j = 0 \<or> j = 1 \<or> j = 2 \<or> j = 3" by linarith
  then have "x = a \<or> x = a + 1 \<or> x = a + 2 \<or> x = a + 3" using x by auto
  then show ?thesis using True by (auto simp: write_usize_def)
qed (simp add: write_usize_other)

lemma child_stack_contents:
  assumes wf: "wf_table m0" and fr: "frame_ok m0 parent regs_addr" and took: "took m0 n (clusters_needed 0x100200) kstack m1"
  defines "m2 \<equiv> clone_kernel_stack regs_addr kstack parent m1" and "off \<equiv> regs_addr - kernel_stack parent"
  shows "i < 60 \<Longrightarrow> m2 (kstack + (off - 12) + i) = (if 12 \<le> i \<and> i < 16 then 0 else m0 (regs_addr - 12 + i))"
    and "i < 512 \<Longrightarrow> m2 (kstack + 0x100000 + i) = m0 (fx parent + i)"
proof -
  let ?ks = "kernel_stack parent"
  have off: "12 \<le> unat off" "unat off + 48 \<le> 0x100000" and lv: "live m0 ?ks" and sz: "0x100200 \<le> unat (alloc_size m0 ?ks)"
    and fxp: "fx parent = ?ks + 0x100000"
    using fr by (simp_all add: frame_ok_def off_def CONTEXT_STACK_SIZE_def)
  have u: "unat (off - 12) = unat off - 12" using off by (simp add: unat_sub_le word_le_nat_alt)
  have k: "clusters_needed 0x100200 = 257" by (simp add: clusters_needed_def)
  have par: "m1 (?ks + d) = m0 (?ks + d)" "\<not> ?ks + d - kstack < 0x100200" if "unat d < 0x100200" for d
  proof -
    have d: "unat d < unat (alloc_size m0 ?ks)" using that sz by simp
    show "m1 (?ks + d) = m0 (?ks + d)" by (rule took_keeps_block(1)[OF wf lv took d])
    show "\<not> ?ks + d - kstack < 0x100200"
      using took_apart(1)[OF wf lv took d] by (simp add: k word_less_nat_alt)
  qed
  have d60: "unat (off - 12 + i) = unat off - 12 + unat i" if "i < 60" for i
    using that off u by (subst unat_add_lt) (simp_all add: word_less_nat_alt)
  have src: "regs_addr - 12 + i = ?ks + (off - 12 + i)" for i by (simp add: off_def)
  have in60: "kstack + (off - 12) + i - kstack < 0x100200" if "i < 60" for i
    using that off d60 by (simp add: word_less_nat_alt add.assoc)
  have "regs_addr - 12 + i \<noteq> kstack + (off - 12) + j" if "i < 60" "j < 60" for i j
  proof
    assume "regs_addr - 12 + i = kstack + (off - 12) + j"
    then have "?ks + (off - 12 + i) - kstack < 0x100200" using in60[OF that(2)] unfolding src by metis
    moreover have "unat (off - 12 + i) < 0x100200" using that(1) d60 off by (simp add: word_less_nat_alt)
    ultimately show False using par(2) by blast
  qed
  then have c1: "memcpy m1 (kstack + (off - 12)) (regs_addr - 12) 60 = copied m1 (kstack + (off - 12)) (regs_addr - 12) 60"
    by (rule memcpy_eq)
  define ma where "ma = write_usize (copied m1 (kstack + (off - 12)) (regs_addr - 12) 60) (kstack + off) 0"
  have d512: "unat (0x100000 + i :: usize) = 0x100000 + unat i" if "i < 512" for i
    using that by (subst unat_add_lt) (simp_all add: word_less_nat_alt)
  have in512: "kstack + 0x100000 + i - kstack < 0x100200" if "i < 512" for i
    using that d512 by (simp add: word_less_nat_alt add.assoc)
  have "fx parent + i \<noteq> kstack + 0x100000 + j" if "i < 512" "j < 512" for i j
  proof
    assume "fx parent + i = kstack + 0x100000 + j"
    then have "?ks + (0x100000 + i) - kstack < 0x100200" using in512[OF that(2)] unfolding fxp add.assoc by metis
    moreover have "unat (0x100000 + i) < 0x100200" using that(1) d512 by (simp add: word_less_nat_alt)
    ultimately show False using par(2) by blast
  qed
  then have c2: "memcpy ma (kstack + 0x100000) (fx parent) 512 = copied ma (kstack + 0x100000) (fx parent) 512"
    by (rule memcpy_eq)
  have sizes: "SIZE_OF_USIZE * 3 = 12" "size_of_regs + 12 = 60" "CONTEXT_STACK_SIZE = 0x100000"
    by (simp_all add: redox_consts)
  have a: "off + kstack - 12 = kstack + (off - 12)" "off + kstack = kstack + off" by simp_all
  have m2: "m2 = copied ma (kstack + 0x100000) (fx parent) 512"
    unfolding m2_def clone_kernel_stack_def Let_def sizes off_def[symmetric] a(1) c1
    unfolding a(2) ma_def[symmetric] by (rule c2)
  show "m2 (kstack + 0x100000 + i) = m0 (fx parent + i)" if i: "i < 512"
  proof -
    have d: "unat (0x100000 + i) < 0x100200" using i d512 by (simp add: word_less_nat_alt)
    have "\<not> fx parent + i - (kstack + off) < 4" "\<not> fx parent + i - (kstack + (off - 12)) < 60"
      unfolding fxp add.assoc by (rule inside_block[OF _ par(2)[OF d]]; use off u in simp)+
    then have "ma (fx parent + i) = m1 (fx parent + i)"
      unfolding ma_def write_zero by (simp add: copied_def)
    then show ?thesis using par(1)[OF d] i by (simp add: m2 copied_def fxp add.assoc)
  qed
  show "m2 (kstack + (off - 12) + i) = (if 12 \<le> i \<and> i < 16 then 0 else m0 (regs_addr - 12 + i))" if i: "i < 60"
  proof -
    have d: "unat (off - 12 + i) < 0x100000" using d60[OF i] off i by (simp add: word_less_nat_alt)
    have "\<not> off - 12 + i - 0x100000 < 512"
    proof -
      have "unat (off - 12 + i - 0x100000) = 2 ^ 32 + unat (off - 12 + i) - 0x100000"
        using d by (subst unat_diff_wrap) (simp add: word_le_nat_alt)
      then show ?thesis by (simp add: word_less_nat_alt)
    qed
    then have "m2 (kstack + (off - 12) + i) = ma (kstack + (off - 12) + i)"
      by (simp add: m2 copied_def algebra_simps)
    also have "\<dots> = (if i - 12 < 4 then 0 else m1 (regs_addr - 12 + i))"
      unfolding ma_def write_zero using i by (simp add: copied_def algebra_simps)
    also have "m1 (regs_addr - 12 + i) = m0 (regs_addr - 12 + i)"
      unfolding src by (rule par(1)) (use d in simp)
    also have "i - 12 < 4 \<longleftrightarrow> 12 \<le> i \<and> i < 16"
      using i unat_lt2p[of i] by (auto simp: word_less_nat_alt word_le_nat_alt unat_diff_wrap)
    finally show ?thesis .
  qed
qed

section \<open>Clones\<close>

definition cells_ok :: "'r Kernel \<Rightarrow> bool" where
  "cells_ok k \<longleftrightarrow> (\<forall>c \<in> set (inner k). cwd c < fresh k \<and> memory c < fresh k \<and> files c < fresh k)"

text \<open>The segments a context has for itself, given the flags it was cloned with.\<close>

definition own_segs :: "usize \<Rightarrow> 'r Kernel \<Rightarrow> Context \<Rightarrow> ContextMemory list" where
  "own_segs fl k c = (case ctx_stack c of Some s \<Rightarrow> [s] | None \<Rightarrow> []) @ (if has_flag fl CLONE_VM then [] else mem_cell k (memory c))"

text \<open>
  What a child shares with its parent, or has a copy of, in the new state. The copies are complete and in
  order; the blocks behind them and the kernel stack are pairwise different and were free before.
\<close>

definition clone_of ::
  "('r \<Rightarrow> 'r result) \<Rightarrow> usize \<Rightarrow> usize \<Rightarrow> 'r Kernel \<Rightarrow> Context \<Rightarrow> 'r Kernel \<Rightarrow> Context \<Rightarrow> bool" where
  "clone_of dup fl regs_addr k parent k' child \<longleftrightarrow>
     ppid child = pid parent \<and> ctx_name child = ctx_name parent \<and> \<not> blocked child \<and> \<not> exited child \<and> iopl child = iopl parent
     \<and> wake child = None \<and> statuses child = []
     \<and> vfork child = (if has_flag fl CLONE_VFORK then Some (pid parent) else None)
     \<and> (if has_flag fl CLONE_FS then cwd child = cwd parent
        else cwd child = fresh k \<and> cwd_cell k' (cwd child) = cwd_cell k (cwd parent))
     \<and> (if has_flag fl CLONE_FILES then files child = files parent
        else files child = fresh k \<and> file_cell k' (files child) = dup_files dup (file_cell k (files parent)))
     \<and> (if has_flag fl CLONE_VM then memory child = memory parent
        else memory child = fresh k
          \<and> list_all2 (\<lambda>s c. copy_of (kmem k) s (kmem k') c) (mem_cell k (memory parent)) (mem_cell k' (memory child)))
     \<and> rel_option (\<lambda>s c. copy_of (kmem k) s (kmem k') c) (ctx_stack parent) (ctx_stack child)
     \<and> live (kmem k') (kernel_stack child) \<and> child_frame parent regs_addr (kmem k) child (kmem k')
     \<and> distinct (kernel_stack child # map physical_address (own_segs fl k' child))
     \<and> (\<forall>p \<in> set (kernel_stack child # map physical_address (own_segs fl k' child)). \<not> live (kmem k) p)"

lemma clone_context_eq:
  fixes k :: "'r Kernel"
  assumes st: "(case ctx_stack parent of
        Some s \<Rightarrow> copy_segment (clone_kernel_stack regs_addr kstack parent (kmem k)) s
      | None \<Rightarrow> (None, clone_kernel_stack regs_addr kstack parent (kmem k))) = (stack', m2)"
    and ms: "copy_segments m2 (mem_cell k (memory parent)) = (ss, m3)"
    and fl: "has_flag (reg_bx rg) CLONE_VM = VM" "has_flag (reg_bx rg) CLONE_FS = FS" "has_flag (reg_bx rg) CLONE_FILES = FI"
  shows "clone_context dup regs_addr rg p kstack parent k =
    (\<lparr>pid = p, ppid = pid parent, ctx_name = ctx_name parent, iopl = iopl parent,
      blocked = False, exited = False, switch = 0, slices = 0,
      vfork = (if has_flag (reg_bx rg) CLONE_VFORK then Some (pid parent) else None), wake = None,
      kernel_stack = kstack, regs = (regs parent)\<lparr>reg_sp := regs_addr - kernel_stack parent + kstack - SIZE_OF_USIZE * 3\<rparr>,
      fx = kstack + CONTEXT_STACK_SIZE, ctx_stack = stack', loadable = loadable parent,
      cwd = (if FS then cwd parent else fresh k), memory = (if VM then memory parent else fresh k),
      files = (if FI then files parent else fresh k), statuses = [], waiters = []\<rparr>,
     k\<lparr>fresh := Suc (fresh k),
       cwd_cell := (if FS then cwd_cell k else (cwd_cell k)(fresh k := cwd_cell k (cwd parent))),
       mem_cell := (if VM then mem_cell k else (mem_cell k)(fresh k := ss)),
       file_cell := (if FI then file_cell k else (file_cell k)(fresh k := dup_files dup (file_cell k (files parent)))),
       kmem := (if VM then m2 else m3)\<rparr>)"
  unfolding clone_context_def Let_def fl st
  by (cases k; cases VM; cases FS; cases FI)
     (use ms in \<open>simp_all only: if_True if_False prod.case Kernel.simps simp_thms Suc_eq_plus1\<close>)

lemma clusters_of_append [simp]: "clusters_of (xs @ ys) = clusters_of xs + clusters_of ys"
  by (simp add: clusters_of_def)

lemma child_frame_keeps:
  assumes "child_frame parent regs_addr m child m1" and "keeps_blocks m1 m2" and "live m1 (kernel_stack child)"
    and "0x100200 \<le> unat (alloc_size m1 (kernel_stack child))" and "frame_ok m parent regs_addr"
  shows "child_frame parent regs_addr m child m2"
proof -
  let ?k = "kernel_stack child" and ?off = "regs_addr - kernel_stack parent"
  have off: "12 \<le> unat ?off" "unat ?off + 48 \<le> 0x100000" using assms(5) by (simp_all add: frame_ok_def)
  have u: "unat (?off - 12) = unat ?off - 12" using off by (simp add: unat_sub_le word_le_nat_alt)
  have same: "m2 (?k + d) = m1 (?k + d)" if "unat d < 0x100200" for d
    using assms(2-4) that by (simp add: keeps_blocks_def)
  have "m2 (?k + ?off - 12 + i) = m1 (?k + ?off - 12 + i)" if "i < 60" for i
  proof -
    have "unat (?off - 12 + i) = unat ?off - 12 + unat i"
      using that off u by (subst unat_add_lt) (simp_all add: word_less_nat_alt)
    then have "m2 (?k + (?off - 12 + i)) = m1 (?k + (?off - 12 + i))" using that off by (intro same) (simp add: word_less_nat_alt)
    moreover have "?k + ?off - 12 + i = ?k + (?off - 12 + i)" by simp
    ultimately show ?thesis by metis
  qed
  moreover have "m2 (?k + 0x100000 + i) = m1 (?k + 0x100000 + i)" if "i < 512" for i
  proof -
    have "unat (0x100000 + i :: usize) = 0x100000 + unat i" using that by (subst unat_add_lt) (simp_all add: word_less_nat_alt)
    then show ?thesis unfolding add.assoc using that by (intro same) (simp add: word_less_nat_alt)
  qed
  moreover have "fx child = ?k + 0x100000" using assms(1) by (simp add: child_frame_def Let_def CONTEXT_STACK_SIZE_def)
  ultimately show ?thesis using assms(1) unfolding child_frame_def Let_def by metis
qed

lemma clone_context_spec:
  assumes m0: "wf_table m0" "room K (kmem k)" "clusters_of (own_segs (reg_bx rg) k parent) \<le> K"
    and took: "took m0 n (clusters_needed 0x100200) kstack (kmem k)" "block_fits kstack 0x100200"
    and fr: "frame_ok m0 parent regs_addr"
    and bk: "\<forall>s \<in> set (own_segs (reg_bx rg) k parent). backed m0 s \<and> 0 < virtual_size s"
    and cl: "clone_context dup regs_addr rg p kstack parent k = (child, k')"
  shows "clone_of dup (reg_bx rg) regs_addr (k\<lparr>kmem := m0\<rparr>) parent k' child \<and> pid child = p
    \<and> wf_table (kmem k') \<and> keeps_blocks m0 (kmem k')
    \<and> (\<forall>x < fresh k. cwd_cell k' x = cwd_cell k x \<and> mem_cell k' x = mem_cell k x \<and> file_cell k' x = file_cell k x)
    \<and> fresh k' = Suc (fresh k) \<and> inner k' = inner k \<and> cur_i k' = cur_i k \<and> enabled k' = enabled k"
proof -
  define VM FS FI where "VM = has_flag (reg_bx rg) CLONE_VM" and "FS = has_flag (reg_bx rg) CLONE_FS"
    and "FI = has_flag (reg_bx rg) CLONE_FILES"
  note flags = VM_def[symmetric] FS_def[symmetric] FI_def[symmetric]
  define st where "st = (case ctx_stack parent of Some s \<Rightarrow> [s] | None \<Rightarrow> [])"
  define ms0 where "ms0 = (if VM then [] else mem_cell k (memory parent))"
  have own: "own_segs (reg_bx rg) k parent = st @ ms0" by (simp add: own_segs_def st_def ms0_def flags)
  define m1 where "m1 = clone_kernel_stack regs_addr kstack parent (kmem k)"
  have "m1 a = kmem k a" if "\<not> a - kstack < 0x100200" for a
    unfolding m1_def by (rule child_stack_writes[OF fr that])
  note fill = fill_fresh_block[OF m0(1) took this]
  have k257: "clusters_needed 0x100200 = 257" by (simp add: clusters_needed_def)
  have h1: "wf_table m1" "room K m1" and k1: "keeps_blocks m0 m1" and lk1: "live m1 kstack" "unat (alloc_size m1 kstack) = 0x101000"
    using fill(2,1,5) fill(3)[of K] fill(4)[of kstack] m0(2) by (simp_all add: k257)
  obtain stack' m2 where stk: "(case ctx_stack parent of Some s \<Rightarrow> copy_segment m1 s | None \<Rightarrow> (None, m1)) = (stack', m2)"
    by fastforce
  obtain ss m3 where ms: "copy_segments m2 (mem_cell k (memory parent)) = (ss, m3)" by fastforce
  have b1: "backed m1 s \<and> 0 < virtual_size s" if "ctx_stack parent = Some s" for s
    using that bk backed_keeps[OF _ k1] by (auto simp: own st_def)
  have c1: "clusters_of (case ctx_stack parent of Some s \<Rightarrow> [s] | None \<Rightarrow> []) \<le> K" using m0(3) by (simp add: own st_def)
  note S = copy_stack_spec[OF h1 c1 b1 stk, folded st_def]
  have k2: "keeps_blocks m0 m2" using k1 S(2) by (rule keeps_blocks_trans)
  define m4 ss0 where "m4 = (if VM then m2 else m3)" and "ss0 = (if VM then [] else ss)"
  have cs0: "copy_segments m2 ms0 = (ss0, m4)" using ms by (simp add: ms0_def m4_def ss0_def)
  have b2: "\<forall>s \<in> set ms0. backed m2 s \<and> 0 < virtual_size s" using bk backed_keeps[OF _ k2] by (auto simp: own)
  have c2: "clusters_of ms0 \<le> K - clusters_of st" using m0(3) by (simp add: own)
  note M = copy_segments_spec[OF S(1) S(4) c2 b2 cs0]
  have k14: "keeps_blocks m1 m4" and k4: "keeps_blocks m0 m4" using k1 k2 S(2) M keeps_blocks_trans by blast+
  have copies: "list_all2 (\<lambda>s c. copy_of m0 s m4 c) ms0 ss0"
    by (rule list.rel_mono_strong[of "\<lambda>s c. copy_of m2 s m4 c"]) (use M bk copy_of_from[OF _ k2] own in auto)
  have stack: "rel_option (\<lambda>s c. copy_of m0 s m4 c) (ctx_stack parent) stack'"
    by (rule option.rel_mono_strong[OF S(3)])
      (use M copy_of_keeps bk copy_of_from[OF _ k1] own st_def in \<open>auto split: option.splits\<close>)
  have lk2: "live m2 kstack" using lk1(1) S(2) by (simp add: keeps_blocks_def)
  have new: "distinct (kstack # map physical_address ((case stack' of Some s \<Rightarrow> [s] | None \<Rightarrow> []) @ ss0))"
    using M S(3,5) lk1(1) lk2 by (cases "ctx_stack parent"; cases stack') (auto dest: copy_of_live)
  have "\<not> live m0 kstack" by (rule took_fresh[OF m0(1) took(1)])
  then have old: "\<forall>p \<in> set (kstack # map physical_address ((case stack' of Some s \<Rightarrow> [s] | None \<Rightarrow> []) @ ss0)). \<not> live m0 p"
    using M S(5) k1 k2 by (cases stack') (auto simp: keeps_blocks_def)
  from clone_context_eq[OF stk[unfolded m1_def] ms flags] cl
  have ck: "child = fst (clone_context dup regs_addr rg p kstack parent k)"
    "k' = snd (clone_context dup regs_addr rg p kstack parent k)" by simp_all
  note eqs = ck[unfolded clone_context_eq[OF stk[unfolded m1_def] ms flags] fst_conv snd_conv]
  have ch: "ctx_stack child = stack'" "pid child = p" "ppid child = pid parent" "ctx_name child = ctx_name parent"
    "\<not> blocked child" "\<not> exited child" "wake child = None" "statuses child = []" "kernel_stack child = kstack"
    "iopl child = iopl parent" "vfork child = (if has_flag (reg_bx rg) CLONE_VFORK then Some (pid parent) else None)"
    "cwd child = (if FS then cwd parent else fresh k)" "memory child = (if VM then memory parent else fresh k)"
    "files child = (if FI then files parent else fresh k)" "fx child = kstack + CONTEXT_STACK_SIZE"
    "regs child = (regs parent)\<lparr>reg_sp := regs_addr - kernel_stack parent + kstack - SIZE_OF_USIZE * 3\<rparr>"
    by (simp_all add: eqs(1))
  have k': "fresh k' = Suc (fresh k)" "inner k' = inner k" "cur_i k' = cur_i k" "enabled k' = enabled k"
    "cwd_cell k' = (if FS then cwd_cell k else (cwd_cell k)(fresh k := cwd_cell k (cwd parent)))"
    "mem_cell k' = (if VM then mem_cell k else (mem_cell k)(fresh k := ss))"
    "file_cell k' = (if FI then file_cell k else (file_cell k)(fresh k := dup_files dup (file_cell k (files parent))))"
    "kmem k' = m4"
    by (simp_all add: eqs(2) m4_def)
  note C = child_stack_contents[OF m0(1) fr took(1), folded m1_def]
  have "child_frame parent regs_addr m0 child m1"
    using C by (simp add: child_frame_def Let_def ch redox_consts algebra_simps)
  then have cf: "child_frame parent regs_addr m0 child m4"
    by (rule child_frame_keeps[OF _ k14]) (use lk1 fr in \<open>simp_all add: ch\<close>)
  have own': "own_segs (reg_bx rg) k' child = (case stack' of Some s \<Rightarrow> [s] | None \<Rightarrow> []) @ ss0"
    by (simp add: own_segs_def ch k' flags ss0_def)
  have lk4: "live m4 kstack" using lk1(1) k14 by (simp add: keeps_blocks_def)
  have "clone_of dup (reg_bx rg) regs_addr (k\<lparr>kmem := m0\<rparr>) parent k' child"
    unfolding clone_of_def own' ch(9)
    using stack copies cf new old lk4 by (cases VM) (simp_all add: ch k' flags ms0_def ss0_def)
  then show ?thesis using M k4 by (simp add: ch(2) k')
qed

lemma clone_of_cong:
  "kmem k = kmem l \<Longrightarrow> fresh k = fresh l \<Longrightarrow> cwd_cell k = cwd_cell l \<Longrightarrow> mem_cell k = mem_cell l \<Longrightarrow>
   file_cell k = file_cell l \<Longrightarrow> clone_of dup fl ra k parent k' child = clone_of dup fl ra l parent k' child"
  unfolding clone_of_def by (simp only:)

lemma clone_cells:
  assumes "clone_of dup fl ra k parent k' child" and "cells_ok k" and "parent \<in> set (inner k)" and "fresh k' = Suc (fresh k)"
  shows "cwd child < fresh k'" and "memory child < fresh k'" and "files child < fresh k'"
  using assms unfolding clone_of_def cells_ok_def by (auto simp: less_Suc_eq split: if_splits)

section \<open>Properties\<close>

text \<open>
  C6. Cloning a process, up to the switch that ends a \<^verbatim>\<open>vfork\<close>. In memory with room for a kernel
  stack and the copies, the call returns a process number nobody has and appends exactly one context with that number,
  the parent's only change being that a \<^verbatim>\<open>vfork\<close> blocks it. The child shares with its parent what the flags say and
  has its own copy of the rest: the same directory, duplicates of the files that can be duplicated, and a copy of every segment,
  in order, at the same addresses, over new and pairwise different blocks with the same bytes, its user stack included. It
  has a kernel stack of its own from which it resumes with the parent's trap frame, the result register
  zero, and the parent's floating point state. Every block that was allocated keeps its contents, and every shared cell
  that existed keeps its value.
\<close>

theorem clone_correct:
  assumes "wf_table (kmem k)" and "room (257 + clusters_of (own_segs (reg_bx rg) k parent)) (kmem k)"
    and "current k = Ok parent" and "frame_ok (kmem k) parent regs_addr" and "cells_ok k"
    and "\<forall>s \<in> set (own_segs (reg_bx rg) k parent). backed (kmem k) s \<and> 0 < virtual_size s"
    and "length (inner k) < 2 ^ 32"
  shows "\<exists>p k' child. context_clone dup regs_addr rg k = Some (Ok p, k') \<and> p \<notin> pid ` set (inner k)
        \<and> inner k' = (if has_flag (reg_bx rg) CLONE_VFORK
                    then (inner k)[cur_i k := parent\<lparr>blocked := True\<rparr>] else inner k) @ [child]
        \<and> pid child = p \<and> clone_of dup (reg_bx rg) regs_addr k parent k' child
        \<and> wf_table (kmem k') \<and> keeps_blocks (kmem k) (kmem k') \<and> cells_ok k'
        \<and> (\<forall>x < fresh k. cwd_cell k' x = cwd_cell k x \<and> mem_cell k' x = mem_cell k x \<and> file_cell k' x = file_cell k x)"
proof -
  let ?fl = "reg_bx rg"
  have sz: "CONTEXT_STACK_SIZE + 512 = 0x100200" by (simp add: redox_consts)
  have c257: "clusters_needed 0x100200 = 257" by (simp add: clusters_needed_def)
  obtain r m1 where a: "alloc (kmem k) 0x100200 = (r, m1)" by fastforce
  have "clusters_needed 0x100200 \<le> 257 + clusters_of (own_segs ?fl k parent)" by (simp add: c257)
  note A = alloc_room[OF assms(2) _ this a]
  have rm: "room (clusters_of (own_segs ?fl k parent)) m1" using A(4) by (simp add: c257)
  obtain n where took: "took (kmem k) n (clusters_needed 0x100200) r m1" using A(3) by auto
  obtain p h where np: "next_pid (k\<lparr>kmem := m1\<rparr>) = (Some p, k\<lparr>kmem := m1, pid_hint := h\<rparr>)"
    and new: "p \<notin> pid ` set (inner k)"
    using next_pid_fresh[of "k\<lparr>kmem := m1\<rparr>"] assms(7) by (metis Kernel.select_convs(2) Kernel.surjective Kernel.update_convs(1))
  let ?k = "k\<lparr>kmem := m1, pid_hint := h\<rparr>"
  obtain child k2 where cl: "clone_context dup regs_addr rg p r parent ?k = (child, k2)" by fastforce
  have cur: "current ?k = Ok parent" and par: "parent \<in> set (inner k)"
    using assms(3) by (auto simp: current_def manager_get_def split: if_splits)
  have own: "own_segs ?fl ?k parent = own_segs ?fl k parent" by (simp add: own_segs_def)
  have rm': "room (clusters_of (own_segs ?fl ?k parent)) (kmem ?k)" using rm by (simp add: own)
  have tk: "took (kmem k) n (clusters_needed 0x100200) r (kmem ?k)" using took by simp
  note spec = clone_context_spec[OF assms(1) rm' le_refl tk A(1)[simplified] assms(4) assms(6)[folded own] cl]
  have co: "clone_of dup ?fl regs_addr k parent k2 child"
    using spec clone_of_cong[of k "?k\<lparr>kmem := kmem k\<rparr>"] by simp
  have fr: "fresh k2 = Suc (fresh k)" and inn: "inner k2 = inner k" "cur_i k2 = cur_i k" using spec by simp_all
  have cells: "\<forall>c \<in> set (inner k) \<union> {child, parent}. cwd c < fresh k2 \<and> memory c < fresh k2 \<and> files c < fresh k2"
    using assms(5) par clone_cells[OF co assms(5) par fr] fr by (auto simp: cells_ok_def less_Suc_eq)
  define k' where "k' = push_context (if has_flag ?fl CLONE_VFORK
    then put_context k2 (cur_i k2) (parent\<lparr>blocked := True\<rparr>) else k2) child"
  have res: "context_clone dup regs_addr rg k = Some (Ok p, k')"
    using a A(2) np cur cl by (simp add: context_clone_def sz k'_def word_gt_0)
  have ik: "inner k' = (if has_flag ?fl CLONE_VFORK
      then (inner k)[cur_i k := parent\<lparr>blocked := True\<rparr>] else inner k) @ [child]"
    and k': "kmem k' = kmem k2" "fresh k' = fresh k2" "cwd_cell k' = cwd_cell k2"
      "mem_cell k' = mem_cell k2" "file_cell k' = file_cell k2"
    by (simp_all add: k'_def push_context_def put_context_def inn)
  have sub: "set (inner k') \<subseteq> insert (parent\<lparr>blocked := True\<rparr>) (set (inner k) \<union> {child})"
    using set_update_subset_insert[of "inner k" "cur_i k" "parent\<lparr>blocked := True\<rparr>"] by (auto simp: ik)
  have "cells_ok k'"
    unfolding cells_ok_def k'
  proof
    fix c assume "c \<in> set (inner k')"
    then have "c = parent\<lparr>blocked := True\<rparr> \<or> c \<in> set (inner k) \<union> {child, parent}" using sub by blast
    then show "cwd c < fresh k2 \<and> memory c < fresh k2 \<and> files c < fresh k2" using cells by auto
  qed
  moreover have "clone_of dup ?fl regs_addr k parent k' child"
    using co unfolding clone_of_def own_segs_def k' .
  ultimately show ?thesis using spec new ik by (intro exI[of _ p] exI[of _ k'] exI[of _ child]) (simp add: res k')
qed

text \<open>The booted machine with one process, and the same with a kernel stack and one segment.\<close>

definition demo_clone :: "unit Kernel" where
  "demo_clone = (demo_kernel [demo_context 1 False False] 0)\<lparr>kmem := boot_mem\<rparr>"

definition demo_parent :: "usize \<Rightarrow> Context" where
  "demo_parent ks = (demo_context 1 False False)\<lparr>kernel_stack := ks, fx := ks + CONTEXT_STACK_SIZE\<rparr>"

definition demo_data :: "usize \<Rightarrow> ContextMemory" where
  "demo_data r = \<lparr>physical_address = r, virtual_address = 0x80000000, virtual_size = 100, writeable = True, allocated = True\<rparr>"

lemma demo_sizes: "clusters_needed 0x100200 = 257" "clusters_needed 100 = 1"
  by (simp_all add: clusters_needed_def)

lemma demo_alloc:
  obtains r m1 n where "alloc boot_mem 100 = (r, m1)" "r \<noteq> 0" "block_fits r 100" "took boot_mem n 1 r m1"
proof -
  obtain r m1 where a: "alloc boot_mem 100 = (r, m1)" by fastforce
  note A = alloc_room[OF boot_room _ _ a, unfolded demo_sizes, simplified]
  obtain n where "took boot_mem n 1 r m1" using A(3) by auto
  then show ?thesis by (rule that[OF a A(2,1)])
qed

lemma demo_two_blocks:
  obtains ks m1 r m where "wf_table m" "room 1000 m" "live m ks" "unat (alloc_size m ks) = 0x101000" "live m r" "unat (alloc_size m r) = 4096"
proof -
  obtain ks m1 where a: "alloc boot_mem 0x100200 = (ks, m1)" by fastforce
  note A = alloc_room[OF boot_room _ _ a, unfolded demo_sizes, simplified]
  obtain n1 where t1: "took boot_mem n1 257 ks m1" using A(3) by blast
  obtain r m where b: "alloc m1 100 = (r, m)" by fastforce
  note B = alloc_room[OF A(4) _ _ b, unfolded demo_sizes, simplified]
  obtain n2 where t2: "took m1 n2 1 r m" using B(3) by auto
  have w1: "wf_table m1" by (rule took_wf[OF boot_wf t1])
  have l1: "live m1 ks" "unat (alloc_size m1 ks) = 0x101000" using took_live[OF t1, of ks] took_size[OF boot_wf t1] by simp_all
  have "keeps_blocks m1 m" by (rule took_keeps_blocks[OF w1 t2])
  then have "live m ks" "unat (alloc_size m ks) = 0x101000" using l1 by (auto simp: keeps_blocks_def)
  then show ?thesis
    using that[of m ks r] took_wf[OF w1 t2] room_mono[OF B(4), of 1000] took_live[OF t2, of r] took_size[OF w1 t2] by simp
qed

theorem clone_correct_witness:
  "\<exists>k ra p k' child s c. context_clone Ok ra regs_default (k :: unit Kernel) = Some (Ok p, k') \<and> inner k' = inner k @ [child]
     \<and> mem_cell k (memory (hd (inner k))) = [s] \<and> mem_cell k' (memory child) = [c] \<and> copy_of (kmem k) s (kmem k') c"
proof -
  obtain ks r m where m: "wf_table m" "room 1000 m" "live m ks" "unat (alloc_size m ks) = 0x101000" "live m r" "unat (alloc_size m r) = 4096"
    by (rule demo_two_blocks)
  define k where "k = (demo_kernel [demo_parent ks] 0)\<lparr>kmem := m, mem_cell := (\<lambda>_. [demo_data r])\<rparr>"
  have fl: "\<not> has_flag (reg_bx regs_default) CLONE_VM" "\<not> has_flag (reg_bx regs_default) CLONE_VFORK"
    by (simp_all add: has_flag_def redox_consts regs_default_def)
  have own: "own_segs (reg_bx regs_default) k (demo_parent ks) = [demo_data r]"
    using fl by (simp add: own_segs_def k_def demo_parent_def demo_context_def blank_context_def)
  have "257 + clusters_of [demo_data r] \<le> 1000" by (simp add: clusters_of_def demo_data_def demo_sizes)
  then have rm: "room (257 + clusters_of (own_segs (reg_bx regs_default) k (demo_parent ks))) (kmem k)"
    unfolding own using room_mono[OF m(2)] by (simp add: k_def)
  have st: "wf_table (kmem k)" "current k = Ok (demo_parent ks)" "frame_ok (kmem k) (demo_parent ks) (ks + 0x1000)" "cells_ok k"
    "\<forall>s \<in> set (own_segs (reg_bx regs_default) k (demo_parent ks)). backed (kmem k) s \<and> 0 < virtual_size s"
    "length (inner k) < 2 ^ 32" "inner k = [demo_parent ks]" "mem_cell k (memory (demo_parent ks)) = [demo_data r]"
    using m unfolding own by (simp_all add: k_def demo_kernel_def demo_parent_def demo_context_def blank_context_def current_def
        manager_get_def frame_ok_def cells_ok_def backed_def demo_data_def)
  obtain p k' child where c: "context_clone Ok (ks + 0x1000) regs_default k = Some (Ok p, k')" "inner k' = inner k @ [child]"
      "clone_of Ok (reg_bx regs_default) (ks + 0x1000) k (demo_parent ks) k' child"
    using clone_correct[OF st(1) rm st(2-6), of Ok] fl by auto
  then have "list_all2 (\<lambda>s c. copy_of (kmem k) s (kmem k') c) [demo_data r] (mem_cell k' (memory child))"
    using fl st(8) unfolding clone_of_def by auto
  then obtain d where d: "mem_cell k' (memory child) = [d]" "copy_of (kmem k) (demo_data r) (kmem k') d"
    by (auto simp: list_all2_Cons1)
  have "mem_cell k (memory (hd (inner k))) = [demo_data r]" using st(7,8) by simp
  then show ?thesis using c(1,2) d by blast
qed

end
