(* ===== verification/UserMemory.thy ===== *)
theory UserMemory
  imports Cloning
begin

text \<open>
  The memory system calls, \<^verbatim>\<open>kernel/syscall/memory.rs\<close>: the segments of the current context
  grow, shrink, appear and disappear, with their pages mapped and unmapped and their physical
  memory taken from and given back to the allocator.
\<close>

section \<open>Definitions\<close>

definition segs_of :: "'r Kernel \<Rightarrow> Context \<Rightarrow> ContextMemory list" where
  "segs_of k c = mem_cell k (memory c)"

definition set_segs :: "'r Kernel \<Rightarrow> Context \<Rightarrow> ContextMemory list \<Rightarrow> 'r Kernel" where
  "set_segs k c ss = k\<lparr>mem_cell := (mem_cell k)(memory c := ss)\<rparr>"

text \<open>\<^verbatim>\<open>current.clean_mem()\<close> on the state.\<close>

definition clean_segs :: "'r Kernel \<Rightarrow> Context \<Rightarrow> 'r Kernel" where
  "clean_segs k c = (let (ss, m) = clean_mem (kmem k) (segs_of k c) in (set_segs k c ss)\<lparr>kmem := m\<rparr>)"

text \<open>The resizing of the last segment in \<^verbatim>\<open>do_sys_brk\<close>, on the memory and the list.\<close>

definition brk_resize :: "usize \<Rightarrow> usize \<Rightarrow> mem \<Rightarrow> ContextMemory list \<Rightarrow> usize \<times> mem \<times> ContextMemory list" where
  "brk_resize addr ret m ss =
     (if ss \<noteq> [] \<and> writeable (last ss) \<and> allocated (last ss) \<and> addr \<ge> virtual_address (last ss) then
        (let s = last ss; sz = addr - virtual_address s; (p, m) = realloc m (physical_address s) sz
         in if p > 0
            then (virtual_address s + sz, m, butlast ss @ [s\<lparr>physical_address := p, virtual_size := sz\<rparr>])
            else (ret, m, butlast ss @ [s\<lparr>virtual_size := 0\<rparr>]))
      else (ret, m, ss))"

definition do_sys_brk :: "usize \<Rightarrow> 'r Kernel \<Rightarrow> usize result \<times> 'r Kernel" where
  "do_sys_brk addr k =
     (case current k of
        Inl _ \<Rightarrow> (Ok 0, k)
      | Inr c \<Rightarrow>
          (let m = context_unmap k c (kmem k);
               (ret, m, ss) = brk_resize addr (next_mem (segs_of k c)) m (segs_of k c);
               k = clean_segs ((set_segs k c ss)\<lparr>kmem := m\<rparr>) c
           in (Ok ret, k\<lparr>kmem := context_map k c (kmem k)\<rparr>)))"

definition do_sys_alloc :: "usize \<Rightarrow> 'r Kernel \<Rightarrow> usize result \<times> 'r Kernel" where
  "do_sys_alloc sz k =
     (case current k of
        Inl _ \<Rightarrow> (Ok 0, k)
      | Inr c \<Rightarrow>
          (let (p, m) = alloc (kmem k) sz
           in if p > 0 then
                (let ret = next_mem (segs_of k c);
                     s = \<lparr>physical_address = p, virtual_address = ret, virtual_size = sz, writeable = True, allocated = True\<rparr>
                 in (Ok ret, (set_segs k c (segs_of k c @ [s]))\<lparr>kmem := segment_map m s\<rparr>))
              else (Ok 0, k\<lparr>kmem := m\<rparr>)))"

text \<open>
  The three remaining calls look for the segment at \<^term>\<open>p\<close>, unmap it, change it with
  \<^term>\<open>f\<close>, map it again (not \<^verbatim>\<open>unalloc\<close>) and remove the segments that have become empty.
\<close>

definition with_segment ::
  "usize \<Rightarrow> bool \<Rightarrow> (mem \<Rightarrow> ContextMemory \<Rightarrow> usize \<times> mem \<times> ContextMemory) \<Rightarrow> 'r Kernel \<Rightarrow> usize result \<times> 'r Kernel" where
  "with_segment p remap f k =
     (case current k of
        Inl _ \<Rightarrow> (Ok 0, k)
      | Inr c \<Rightarrow>
          (case get_mem (segs_of k c) p of
             Inl _ \<Rightarrow> (Ok 0, clean_segs k c)
           | Inr i \<Rightarrow>
               (let s = segs_of k c ! i;
                    (ret, m, s) = f (segment_unmap (kmem k) s) s;
                    m = (if remap then segment_map m s else m)
                in (Ok ret, clean_segs ((set_segs k c ((segs_of k c)[i := s]))\<lparr>kmem := m\<rparr>) c))))"

definition do_sys_realloc :: "usize \<Rightarrow> usize \<Rightarrow> 'r Kernel \<Rightarrow> usize result \<times> 'r Kernel" where
  "do_sys_realloc p sz =
     with_segment p True (\<lambda>m s.
       (let (pa, m) = realloc m (physical_address s) sz
        in if pa > 0 then (virtual_address s, m, s\<lparr>physical_address := pa, virtual_size := sz\<rparr>)
           else (0, m, s\<lparr>virtual_size := 0\<rparr>)))"

definition do_sys_realloc_inplace :: "usize \<Rightarrow> usize \<Rightarrow> 'r Kernel \<Rightarrow> usize result \<times> 'r Kernel" where
  "do_sys_realloc_inplace p sz =
     with_segment p True (\<lambda>m s.
       (let n = realloc_inplace m (physical_address s) sz in (n, m, s\<lparr>virtual_size := n\<rparr>)))"

definition do_sys_unalloc :: "usize \<Rightarrow> 'r Kernel \<Rightarrow> usize result \<times> 'r Kernel" where
  "do_sys_unalloc p = with_segment p False (\<lambda>m s. (0, m, s\<lparr>virtual_size := 0\<rparr>))"

section \<open>Where the next segment goes\<close>

definition seg_end :: "ContextMemory \<Rightarrow> nat" where
  "seg_end s = 4096 * (seg_first s + seg_count s)"

lemma seg_end_word:
  assumes "seg_ok s"
  shows "unat (virtual_address s + (virtual_size s + 4095) div 4096 * 4096) = seg_end s"
proof -
  have pages: "unat ((virtual_size s + 4095) div 4096) = seg_count s"
    using unat_segment_pages[OF assms] by (simp add: segment_pages_def)
  have e: "unat (virtual_address s) = 4096 * seg_first s"
    using assms by (auto simp: seg_ok_def seg_first_def)
  have "4096 * seg_count s \<le> unat (virtual_size s) + 4095" unfolding seg_count_def by simp
  then have lt: "unat (virtual_address s) + seg_count s * 4096 < 2 ^ 32"
    using assms unfolding seg_ok_def by linarith
  moreover have "unat ((virtual_size s + 4095) div 4096 * 4096) = seg_count s * 4096"
    using lt pages by (subst unat_mult_lt) simp_all
  ultimately have "unat (virtual_address s + (virtual_size s + 4095) div 4096 * 4096) =
      unat (virtual_address s) + seg_count s * 4096"
    by (subst unat_add_lt) simp_all
  then show ?thesis unfolding e seg_end_def by simp
qed

lemma next_mem_loop_spec:
  assumes "\<forall>s \<in> set ss. seg_ok s"
  shows "unat (next_mem_loop ss n) = foldl max (unat n) (map seg_end ss)"
  using assms
proof (induction ss arbitrary: n)
  case (Cons s ss)
  let ?fin = "virtual_address s + (virtual_size s + 4095) div 4096 * 4096"
  have "unat (if n < ?fin then ?fin else n) = max (unat n) (seg_end s)"
    using seg_end_word[of s] Cons.prems by (auto simp: word_less_nat_alt max_def)
  then show ?case using Cons by (simp add: Let_def)
qed simp

lemma foldl_max_ge: "\<forall>x \<in> insert a (set xs). x \<le> foldl max (a :: nat) xs"
proof (induction xs arbitrary: a)
  case (Cons y ys)
  show ?case using Cons[of "max a y"] by auto
qed simp

lemma foldl_max_dvd: "\<forall>x \<in> set xs. d dvd x \<Longrightarrow> d dvd a \<Longrightarrow> d dvd foldl max (a :: nat) xs"
  by (induction xs arbitrary: a) (auto simp: max_def)

lemma next_mem_after:
  assumes "\<forall>s \<in> set ss. seg_ok s"
  shows "s \<in> set ss \<Longrightarrow> seg_end s \<le> unat (next_mem ss)" and "4096 dvd unat (next_mem ss)"
  using next_mem_loop_spec[OF assms, of 0] foldl_max_ge[of 0 "map seg_end ss"] foldl_max_dvd[of "map seg_end ss" 4096 0]
  by (auto simp: next_mem_def seg_end_def)

section \<open>Page tables and blocks do not meet\<close>

lemma block_outside_pages:
  assumes "0xA01000 \<le> unat r" and "unat r + l \<le> 2 ^ 32" and "in_pages a"
  shows "\<not> unat (a - r) < l"
  using assms by (auto simp: unat_diff_wrap in_pages_def word_le_nat_alt)

lemma live_outside_pages:
  assumes "wf_table m" and "live m p" and "unat i < unat (alloc_size m p)"
  shows "\<not> in_pages (p + i)"
proof -
  obtain n c where e: "p = cluster_to_address n" "unat (alloc_size m p) = 4096 * c" "0 < c" "unat n + c \<le> WRAP_CLUSTER"
    by (rule live_extent[OF assms(1,2)])
  then have p: "unat p = 0xA01000 + 4096 * unat n" by (simp add: unat_cluster_to_address)
  have "unat p + 4096 * c \<le> 2 ^ 32" using e(4) by (simp add: p WRAP_CLUSTER_def)
  then have "unat (p + i) = unat p + unat i" using assms(3) unfolding e(2) by (intro unat_add_lt) simp
  then show ?thesis unfolding in_pages_def p by linarith
qed

lemma live_outside_table:
  assumes "wf_table m" and "live m p" and "unat i < unat (alloc_size m p)"
  shows "\<not> in_table (p + i)"
proof -
  obtain n c where e: "p = cluster_to_address n" "unat (alloc_size m p) = 4096 * c" "0 < c" "unat n + c \<le> WRAP_CLUSTER"
    by (rule live_extent[OF assms(1,2)])
  then have p: "unat p = 0xA01000 + 4096 * unat n" by (simp add: unat_cluster_to_address)
  have "unat p + 4096 * c \<le> 2 ^ 32" using e(4) by (simp add: p WRAP_CLUSTER_def)
  then show ?thesis using block_outside_table[of p "4096 * c" "p + i"] assms(3) e(2) p by auto
qed

lemma only_pages_keeps:
  assumes "wf_table m" and "\<And>a. \<not> in_pages a \<Longrightarrow> m' a = m a"
  shows "wf_table m'" and "keeps_blocks m m'" and "room K m' \<longleftrightarrow> room K m"
proof -
  have t: "m' a = m a" if "in_table a" for a using that by (intro assms(2) in_table_not_in_pages)
  have b: "m' (p + i) = m (p + i)" if "live m p" "unat i < unat (alloc_size m p)" for p i
    using that assms(1) by (intro assms(2) live_outside_pages)
  note W = keeps_blocks_write[of m' m, OF t b]
  show "wf_table m'" using W(2) assms(1) by simp
  show "keeps_blocks m m'" by (rule W(1))
  show "room K m' \<longleftrightarrow> room K m" by (rule W(3))
qed

lemma segment_map_keeps:
  assumes "wf_table m"
  shows "wf_table (segment_map m s)" and "keeps_blocks m (segment_map m s)" and "room K (segment_map m s) \<longleftrightarrow> room K m"
  by (rule only_pages_keeps[OF assms], erule segment_map_other)+

lemma segment_unmap_keeps:
  assumes "wf_table m"
  shows "wf_table (segment_unmap m s)" and "keeps_blocks m (segment_unmap m s)" and "room K (segment_unmap m s) \<longleftrightarrow> room K m"
  by (rule only_pages_keeps[OF assms], erule segment_unmap_other)+

lemma page_entry_cong:
  assumes "\<And>a. in_pages a \<Longrightarrow> m' a = m a"
  shows "page_entry m' va = page_entry m va"
  unfolding page_entry_def
proof (rule read_usize_cong)
  fix i :: usize
  assume "i < 4"
  then have i: "unat i < 4" by (simp add: word_less_nat_alt)
  then have "unat (entry_address va + i) = unat (entry_address va) + unat i"
    using page_no_bound[of va] by (intro unat_add_lt) (simp add: unat_entry_address)
  then show "m' (entry_address va + i) = m (entry_address va + i)"
    using i page_no_bound[of va] by (intro assms) (simp add: in_pages_def unat_entry_address)
qed

lemma took_page_entry:
  assumes "took m n k r m'" and "0xA01000 \<le> unat r" and "unat r + 4096 * k \<le> 2 ^ 32"
  shows "page_entry m' va = page_entry m va"
proof -
  have "m' a = m a" if "in_pages a" for a
  proof -
    have "\<not> in_table a" using that in_table_not_in_pages by blast
    then have "m' a = (if unat (a - r) < 4096 * k then 0 else m a)" using assms(1) unfolding took_def by blast
    then show ?thesis using block_outside_pages[OF assms(2,3) that] by simp
  qed
  then show ?thesis by (rule page_entry_cong)
qed

section \<open>Taking and giving back\<close>

lemma keeps_blocks_unalloc:
  assumes k: "keeps_blocks m m'" and wf: "wf_table m'" and r: "is_block r" "\<not> live m r"
  shows "keeps_blocks m (unalloc m' r)"
  unfolding keeps_blocks_def
proof (intro allI impI conjI)
  fix p assume p: "live m p"
  then have ne: "p \<noteq> r" and l: "live m' p" "alloc_size m' p = alloc_size m p" using r k by (auto simp: keeps_blocks_def)
  show "live (unalloc m' r) p" using unalloc_live[OF wf r(1), of p] ne l by simp
  show "alloc_size (unalloc m' r) p = alloc_size m p"
    using unalloc_size_other[OF wf r(1) _ ne] l by (simp add: live_def)
  fix i :: usize assume i: "unat i < unat (alloc_size m p)"
  have "\<not> in_table (p + i)" by (rule live_outside_table[OF wf l(1)]) (use i l(2) in simp)
  then show "unalloc m' r (p + i) = m (p + i)" using k p i by (simp add: unalloc_other keeps_blocks_def)
qed

text \<open>A successful \<^verbatim>\<open>do_sys_alloc\<close> in terms of the allocation it makes.\<close>

definition new_seg :: "'r Kernel \<Rightarrow> Context \<Rightarrow> usize \<Rightarrow> usize \<Rightarrow> ContextMemory" where
  "new_seg k c sz r = \<lparr>physical_address = r, virtual_address = next_mem (segs_of k c), virtual_size = sz,
     writeable = True, allocated = True\<rparr>"

lemma do_sys_alloc_room:
  assumes "room K (kmem k)" and "clusters_needed sz \<le> K" and "0 < sz" and "current k = Inr c"
  obtains r m1 n where "block_fits r sz" "took (kmem k) n (clusters_needed sz) r m1" "alloc (kmem k) sz = (r, m1)"
      "do_sys_alloc sz k = (Ok (next_mem (segs_of k c)),
         (set_segs k c (segs_of k c @ [new_seg k c sz r]))\<lparr>kmem := segment_map m1 (new_seg k c sz r)\<rparr>)"
proof -
  obtain r m1 where a: "alloc (kmem k) sz = (r, m1)" by fastforce
  note A = alloc_room[OF assms(1,3,2) a]
  obtain n where took: "took (kmem k) n (clusters_needed sz) r m1" using A(3) by blast
  show ?thesis
    by (rule that[OF A(1) took a])
       (use assms(4) a A(2) in \<open>simp add: do_sys_alloc_def new_seg_def Let_def word_gt_0\<close>)
qed

lemma new_seg_ok:
  assumes "\<forall>s \<in> set (segs_of k c). seg_ok s" and "unat (next_mem (segs_of k c)) + unat sz + 4095 < 2 ^ 32"
  shows "seg_ok (new_seg k c sz r)"
  using next_mem_after(2)[OF assms(1)] assms(2) by (auto simp: seg_ok_def new_seg_def)

lemma seg_in_end: "seg_ok s \<Longrightarrow> unat (virtual_address s + virtual_size s) \<le> seg_end s"
proof -
  assume ok: "seg_ok s"
  then have a: "unat (virtual_address s + virtual_size s) = unat (virtual_address s) + unat (virtual_size s)"
    by (intro unat_add_lt) (simp add: seg_ok_def)
  have "unat (virtual_address s) = 4096 * seg_first s" using ok by (auto simp: seg_ok_def seg_first_def)
  moreover have "unat (virtual_size s) \<le> 4096 * seg_count s" by (simp add: seg_count_def)
  ultimately show ?thesis unfolding a seg_end_def by simp
qed

lemma translate_past:
  "\<forall>s \<in> set ss. seg_ok s \<and> seg_end s \<le> unat p \<Longrightarrow> translate_loop (ss @ ts) p = translate_loop ts p"
proof (induction ss)
  case (Cons s ss)
  then have "unat (virtual_address s + virtual_size s) \<le> unat p" using seg_in_end[of s] by simp
  then have "\<not> p < virtual_address s + virtual_size s" by (simp add: word_less_nat_alt)
  then show ?case using Cons by simp
qed simp

text \<open>The memory after a successful allocation, its segment mapped.\<close>

lemma alloc_mapped:
  assumes wf: "wf_table m" and fits: "block_fits r sz" and took: "took m n (clusters_needed sz) r m1"
    and ok: "seg_ok s" and s: "physical_address s = r" "virtual_size s = sz"
  defines "m2 \<equiv> segment_map m1 s"
  shows "wf_table m2" and "keeps_blocks m m2" and "backed m2 s" and "\<not> live m r" and "is_block r"
    and "page_entry m2 va = (if on_seg s va then seg_entry s va else page_entry m va)"
    and "cluster m2 j = (if n \<le> j \<and> unat j < unat n + clusters_needed sz then r else cluster m j)"
proof -
  have h1: "wf_table m1" by (rule took_wf[OF wf took])
  show "wf_table m2" unfolding m2_def by (rule segment_map_keeps(1)[OF h1])
  have k2: "keeps_blocks m1 m2" unfolding m2_def by (rule segment_map_keeps(2)[OF h1])
  show "keeps_blocks m m2" by (rule keeps_blocks_trans[OF took_keeps_blocks[OF wf took] k2])
  have "backed m1 s"
    using took_live[OF took, of r] took_size[OF wf took] s by (simp add: backed_def clusters_needed_def)
  then show "backed m2 s" by (rule backed_keeps[OF _ k2])
  show "\<not> live m r" by (rule took_fresh[OF wf took])
  show "is_block r" by (rule took_head(2)[OF took])
  have "page_entry m1 va = page_entry m va"
    by (rule took_page_entry[OF took]) (use fits in \<open>simp_all add: block_fits_def word_le_nat_alt\<close>)
  then show "page_entry m2 va = (if on_seg s va then seg_entry s va else page_entry m va)"
    unfolding m2_def segment_map_entry[OF ok] by simp
  show "cluster m2 j = (if n \<le> j \<and> unat j < unat n + clusters_needed sz then r else cluster m j)"
    using took unfolding m2_def by (simp add: mem_simps took_def)
qed

lemma translate_new:
  assumes "\<forall>t \<in> set ss. seg_ok t \<and> seg_end t \<le> unat (virtual_address s)" and "seg_ok s" and "i < virtual_size s"
  shows "translate_loop (ss @ [s]) (virtual_address s + i) = Ok (physical_address s + i)"
proof -
  have u: "unat (virtual_address s + i) = unat (virtual_address s) + unat i"
    using assms(2,3) by (intro unat_add_lt) (simp add: seg_ok_def word_less_nat_alt)
  have v: "unat (virtual_address s + virtual_size s) = unat (virtual_address s) + unat (virtual_size s)"
    using assms(2) by (intro unat_add_lt) (simp add: seg_ok_def)
  have "translate_loop (ss @ [s]) (virtual_address s + i) = translate_loop [s] (virtual_address s + i)"
    by (rule translate_past) (use assms(1) u in auto)
  also have "\<dots> = Ok (physical_address s + i)"
    using assms(3) u v by (simp add: word_le_nat_alt word_less_nat_alt add.commute)
  finally show ?thesis .
qed

lemma get_mem_new:
  "\<forall>t \<in> set ss. virtual_address t \<noteq> virtual_address s \<Longrightarrow> get_mem (ss @ [s]) (virtual_address s) = Ok (length ss)"
  by (induction ss) auto

section \<open>Properties\<close>

text \<open>
  C29. Memory for user programs. When memory has room for the request, \<^verbatim>\<open>alloc\<close> returns the page-aligned
  address of a new segment of the requested size that
  lies after every existing segment, is backed by a physical block nobody had, is mapped
  writable page by page while every other page keeps its mapping, and whose addresses
  translate to that block; no existing block changes.
\<close>

theorem user_alloc_correct:
  assumes "wf_table (kmem k)" and "room (clusters_needed sz) (kmem k)" and "0 < sz"
    and "current k = Inr c" and "\<forall>s \<in> set (segs_of k c). seg_ok s"
    and "unat (next_mem (segs_of k c)) + unat sz + 4095 < 2 ^ 32"
  shows "\<exists>s k'. do_sys_alloc sz k = (Ok (virtual_address s), k') \<and> segs_of k' c = segs_of k c @ [s] \<and> virtual_size s = sz
      \<and> seg_ok s \<and> writeable s \<and> backed (kmem k') s \<and> \<not> live (kmem k) (physical_address s)
      \<and> (\<forall>t \<in> set (segs_of k c). seg_end t \<le> unat (virtual_address s))
      \<and> (\<forall>va. page_entry (kmem k') va = (if on_seg s va then seg_entry s va else page_entry (kmem k) va))
      \<and> (\<forall>i < sz. translate_loop (segs_of k' c) (virtual_address s + i) = Ok (physical_address s + i))
      \<and> wf_table (kmem k') \<and> keeps_blocks (kmem k) (kmem k')"
proof -
  obtain r m1 n where r: "block_fits r sz" "took (kmem k) n (clusters_needed sz) r m1"
    and res: "do_sys_alloc sz k = (Ok (next_mem (segs_of k c)),
       (set_segs k c (segs_of k c @ [new_seg k c sz r]))\<lparr>kmem := segment_map m1 (new_seg k c sz r)\<rparr>)"
    by (rule do_sys_alloc_room[OF assms(2) le_refl assms(3,4)])
  let ?s = "new_seg k c sz r"
  have ok: "seg_ok ?s" by (rule new_seg_ok[OF assms(5,6)])
  have s: "physical_address ?s = r" "virtual_size ?s = sz" "virtual_address ?s = next_mem (segs_of k c)" "writeable ?s"
    by (simp_all add: new_seg_def)
  note M = alloc_mapped[OF assms(1) r ok s(1,2)]
  have after: "\<forall>t \<in> set (segs_of k c). seg_end t \<le> unat (virtual_address ?s)"
    using next_mem_after(1)[OF assms(5)] by (simp add: s)
  have "translate_loop (segs_of k c @ [?s]) (virtual_address ?s + i) = Ok (physical_address ?s + i)" if "i < sz" for i
    by (rule translate_new) (use after assms(5) ok that s in auto)
  then show ?thesis
    unfolding res using M ok after s
    by (intro exI[of _ ?s] exI[of _ "(set_segs k c (segs_of k c @ [?s]))\<lparr>kmem := segment_map m1 ?s\<rparr>"])
      (simp add: segs_of_def set_segs_def)
qed

text \<open>The booted machine has the room.\<close>

lemma demo_user:
  "wf_table (kmem demo_clone)" "room (clusters_needed 100) (kmem demo_clone)" "kmem demo_clone = boot_mem"
  "current demo_clone = Inr (demo_context 1 False False)" "segs_of demo_clone (demo_context 1 False False) = []"
  "memory (demo_context 1 False False) = 0"
  using boot_wf room_mono[OF boot_room, of 1]
  by (simp_all add: demo_clone_def demo_sizes demo_kernel_def demo_context_def blank_context_def current_def
      manager_get_def segs_of_def)

theorem user_alloc_correct_witness:
  "\<exists>s k'. do_sys_alloc 100 demo_clone = (Ok 0, k') \<and> mem_cell k' 0 = [s] \<and> virtual_size s = 100 \<and> backed (kmem k') s"
proof -
  let ?c = "demo_context 1 False False"
  have "\<forall>s \<in> set (segs_of demo_clone ?c). seg_ok s" "unat (next_mem (segs_of demo_clone ?c)) + unat (100 :: usize) + 4095 < 2 ^ 32"
    by (simp_all add: demo_user(5) next_mem_def)
  from user_alloc_correct[OF demo_user(1,2) _ demo_user(4) this] obtain s k' where
    e: "do_sys_alloc 100 demo_clone = (Ok (virtual_address s), k')" "segs_of k' ?c = [s]" "virtual_size s = 100" "backed (kmem k') s"
    by (auto simp: demo_user(5))
  have "fst (do_sys_alloc 100 demo_clone) = Ok 0"
    by (auto simp: do_sys_alloc_def Let_def next_mem_def demo_user(4,5) split: prod.splits)
  then show ?thesis using e demo_user(6) by (auto simp: segs_of_def)
qed

text \<open>
  C10. Giving back what was taken: \<^verbatim>\<open>unalloc\<close> on the address that \<^verbatim>\<open>alloc\<close> returned removes
  exactly that segment, returns exactly its clusters to the allocator and changes no block that was live before. The pages of
  the segment are then mapped to themselves for the kernel, whatever they were before the allocation, and every
  other page has the entry it had.
\<close>

theorem user_alloc_unalloc:
  assumes "wf_table (kmem k)" and "room (clusters_needed sz) (kmem k)" and "0 < sz" and "current k = Inr c"
    and "\<forall>s \<in> set (segs_of k c). seg_ok s \<and> 0 < virtual_size s"
    and "unat (next_mem (segs_of k c)) + unat sz + 4095 < 2 ^ 32"
    and "do_sys_alloc sz k = (Ok v, k1)"
  shows "case do_sys_unalloc v k1 of (res, k2) \<Rightarrow>
    res = Ok 0 \<and> segs_of k2 c = segs_of k c \<and> (\<forall>j. cluster (kmem k2) j = cluster (kmem k) j)
    \<and> keeps_blocks (kmem k) (kmem k2)
    \<and> (\<exists>s. segs_of k1 c = segs_of k c @ [s]
        \<and> (\<forall>va. page_entry (kmem k2) va = (if on_seg s va then kernel_entry va else page_entry (kmem k) va)))"
proof -
  have oks: "\<forall>s \<in> set (segs_of k c). seg_ok s" using assms(5) by simp
  obtain r m1 n where r0: "block_fits r sz" "took (kmem k) n (clusters_needed sz) r m1"
    and res: "do_sys_alloc sz k = (Ok (next_mem (segs_of k c)),
       (set_segs k c (segs_of k c @ [new_seg k c sz r]))\<lparr>kmem := segment_map m1 (new_seg k c sz r)\<rparr>)"
    by (rule do_sys_alloc_room[OF assms(2) le_refl assms(3,4)])
  let ?s = "new_seg k c sz r"
  have r: "block_fits r sz" "took (kmem k) n (clusters_needed sz) r m1" "v = next_mem (segs_of k c)"
    and k1: "k1 = (set_segs k c (segs_of k c @ [?s]))\<lparr>kmem := segment_map m1 ?s\<rparr>"
    using r0 res assms(7) by auto
  have s: "physical_address ?s = r" "virtual_size ?s = sz" "virtual_address ?s = v" "allocated ?s"
    by (simp_all add: new_seg_def r(3))
  have ok: "seg_ok ?s" by (rule new_seg_ok[OF oks assms(6)])
  define m2 where "m2 = segment_map m1 ?s"
  note M = alloc_mapped[OF assms(1) r(1,2) ok s(1,2), folded m2_def]
  define m3 where "m3 = segment_unmap m2 ?s"
  have w3: "wf_table m3" and k3: "keeps_blocks (kmem k) m3"
    unfolding m3_def by (rule segment_unmap_keeps(1)[OF M(1)], rule keeps_blocks_trans[OF M(2) segment_unmap_keeps(2)[OF M(1)]])
  have cur: "current k1 = Inr c" using assms(4) by (simp add: k1 set_segs_def current_def manager_get_def split: if_splits)
  have ss1: "segs_of k1 c = segs_of k c @ [?s]" by (simp add: k1 segs_of_def set_segs_def)
  have "virtual_address t \<noteq> v" if t: "t \<in> set (segs_of k c)" for t
  proof
    assume e: "virtual_address t = v"
    have "0 < unat (virtual_size t)" using assms(5) t by (simp add: word_less_nat_alt)
    then have "4096 \<le> unat (virtual_size t) + 4095" by simp
    then have "0 < seg_count t" by (simp add: seg_count_def div_greater_zero_iff)
    then have "unat (virtual_address t) < seg_end t"
      using oks t by (auto simp: seg_end_def seg_first_def seg_ok_def)
    then show False using next_mem_after(1)[OF oks t] e r(3) by simp
  qed
  then have gm: "get_mem (segs_of k1 c) v = Ok (length (segs_of k c))"
    using get_mem_new[of "segs_of k c" ?s] by (simp add: ss1 s)
  have cln: "clean_mem m3 (segs_of k c @ [?s\<lparr>virtual_size := 0\<rparr>]) = (segs_of k c, unalloc m3 r)"
    using assms(5) by (auto simp: clean_mem_def drop_segments_def segment_drop_def s filter_id_conv filter_empty_conv)
  have un: "do_sys_unalloc v k1 = (Ok 0, (set_segs k1 c (segs_of k c))\<lparr>kmem := unalloc m3 r\<rparr>)"
    using cur gm cln
    by (simp add: do_sys_unalloc_def with_segment_def ss1 clean_segs_def)
       (simp add: k1 m2_def[symmetric] m3_def[symmetric] set_segs_def segs_of_def)
  have "cluster (kmem k) j \<noteq> r" for j
    using M(4,5) by (auto simp: live_def cluster_def is_block_def split: if_splits)
  then have "cluster (unalloc m3 r) j = cluster (kmem k) j" for j
    unfolding cluster_unalloc[OF w3 M(5)] using r(2) by (auto simp: m3_def mem_simps M(7) took_def)
  moreover have "page_entry (unalloc m3 r) va = page_entry m3 va" for va
    by (rule page_entry_cong) (rule unalloc_other, use in_table_not_in_pages in blast)
  moreover have "page_entry m3 va = (if on_seg ?s va then kernel_entry va else page_entry (kmem k) va)" for va
    unfolding m3_def segment_unmap_entry[OF ok] M(6) by simp
  moreover have "keeps_blocks (kmem k) (unalloc m3 r)" by (rule keeps_blocks_unalloc[OF k3 w3 M(5,4)])
  ultimately show ?thesis unfolding un by (simp add: ss1) (simp add: segs_of_def set_segs_def)
qed

theorem user_alloc_unalloc_witness:
  "\<exists>v k1. do_sys_alloc 100 demo_clone = (Ok v, k1) \<and> cluster (kmem (snd (do_sys_unalloc v k1))) 0 = 0"
proof -
  let ?c = "demo_context 1 False False"
  obtain v k1 where e: "do_sys_alloc 100 demo_clone = (Ok v, k1)"
    by (rule do_sys_alloc_room[OF demo_user(2) le_refl _ demo_user(4)]) simp_all
  have "\<forall>s \<in> set (segs_of demo_clone ?c). seg_ok s \<and> 0 < virtual_size s"
    "unat (next_mem (segs_of demo_clone ?c)) + unat (100 :: usize) + 4095 < 2 ^ 32"
    by (simp_all add: demo_user(5) next_mem_def)
  from user_alloc_unalloc[OF demo_user(1,2) _ demo_user(4) this e] have "cluster (kmem (snd (do_sys_unalloc v k1))) 0 = cluster boot_mem 0"
    by (auto simp: demo_user(3) split: prod.splits)
  moreover have "cluster boot_mem 0 = 0"
    using boot_usable[of 0] by (auto simp: boot_mem_def cluster_cluster_init boot_map_def const_vals)
  ultimately show ?thesis using e by auto
qed

text \<open>
  Moving the break. For an address above the start of the last segment, \<^verbatim>\<open>brk\<close> succeeds when memory has room:
  it returns the address, the last segment ends there, is backed by a live block
  and holds the old contents. When there is no free run of clusters that long at all, it returns the old break, and the last
  segment, although nothing was wrong with it, loses its memory and is marked for removal.
\<close>

theorem brk_resizes:
  assumes "wf_table m" and "ss \<noteq> []" and "writeable (last ss)" and "allocated (last ss)"
    and "backed m (last ss)" and "virtual_address (last ss) < addr" and "brk_resize addr ret m ss = (v, m', ss')"
    and "room (clusters_needed (addr - virtual_address (last ss))) m
      \<or> (\<nexists>n. first_run m (clusters_needed (addr - virtual_address (last ss))) n)"
    and "clusters_needed (addr - virtual_address (last ss)) < 0x100000"
  shows "(\<exists>t. v = addr \<and> ss' = butlast ss @ [t] \<and> virtual_address t = virtual_address (last ss)
      \<and> virtual_address t + virtual_size t = addr \<and> live m' (physical_address t)
      \<and> (\<forall>i. i < virtual_size (last ss) \<and> i < virtual_size t \<longrightarrow>
            m' (physical_address t + i) = m (physical_address (last ss) + i)))
    \<or> ((\<nexists>n. first_run m (clusters_needed (addr - virtual_address (last ss))) n) \<and> v = ret
      \<and> ss' = butlast ss @ [(last ss)\<lparr>virtual_size := 0\<rparr>] \<and> \<not> live m' (physical_address (last ss)))"
proof -
  let ?s = "last ss" and ?p = "physical_address (last ss)"
  define sz where "sz = addr - virtual_address ?s"
  obtain r m1 where re: "realloc m ?p sz = (r, m1)" by fastforce
  have m': "m1 = m'" and v: "v = (if r > 0 then addr else ret)"
    and ss': "ss' = butlast ss @ [if r > 0 then ?s\<lparr>physical_address := r, virtual_size := sz\<rparr> else ?s\<lparr>virtual_size := 0\<rparr>]"
    using assms(2-4,6,7) re by (auto simp: brk_resize_def Let_def sz_def split: if_splits)
  have lv: "live m ?p" and le: "unat (virtual_size ?s) \<le> unat (alloc_size m ?p)"
    using assms(5) by (simp_all add: backed_def)
  have nz: "sz \<noteq> 0" "0 < ?p" using assms(6) lv by (auto simp: sz_def live_def is_block_def word_gt_0)
  then have sz0: "0 < sz" by (simp add: word_gt_0)
  show ?thesis
  proof (cases "sz \<le> alloc_size m ?p")
    case True
    then have "r = ?p" "m' = m" using re nz m' by (simp_all add: realloc_def)
    then show ?thesis using v ss' nz lv by (auto simp: sz_def)
  next
    case grow: False
    obtain m0 where a: "alloc m sz = (r, m0)"
      using re nz grow by (auto simp: realloc_def Let_def split: prod.splits)
    show ?thesis
    proof (cases "\<exists>n. first_run m (clusters_needed sz) n")
      case True
      then have "room (clusters_needed sz) m" using assms(8) by (simp add: sz_def)
      note A = alloc_room[OF this sz0 le_refl a]
      have g: "alloc_size m ?p < sz" using grow by simp
      note R = realloc_move[OF assms(1) lv g re[unfolded m'] A(1)]
      have "unat i < 4096 * clusters_needed sz \<and> i < alloc_size m ?p" if "i < virtual_size ?s" "i < sz" for i
        using that le by (simp add: word_less_nat_alt clusters_needed_def)
      then have bytes: "\<forall>i. i < virtual_size ?s \<and> i < sz \<longrightarrow> m' (r + i) = m (?p + i)" using R(5) by auto
      have "v = addr" "ss' = butlast ss @ [?s\<lparr>physical_address := r, virtual_size := sz\<rparr>]"
        using v ss' A(2) by (simp_all add: word_gt_0)
      then show ?thesis using R(2)[of r] bytes by (auto simp: sz_def)
    next
      case False
      have "alloc m sz = (0, m)" by (rule alloc_first_fit(2)[OF sz0]) (use assms(9) False in \<open>simp_all add: sz_def\<close>)
      then have r0: "r = 0" and m0: "m0 = m" using a by simp_all
      then have "m' = unalloc m ?p" using re nz grow a m' by (auto simp: realloc_def Let_def)
      then have "\<not> live m' ?p" using unalloc_live[OF assms(1), of ?p ?p] lv by (simp add: live_def)
      then show ?thesis using v ss' r0 False by (simp add: sz_def)
    qed
  qed
qed

theorem brk_resizes_witness:
  "\<exists>m s v m' ss'. backed m s \<and> brk_resize (virtual_address s + 50) 0 m [s] = (v, m', ss')
     \<and> (v = virtual_address s + 50 \<or> \<not> live m' (physical_address s))"
proof -
  obtain ks r m where m: "wf_table m" "room 1000 m" "live m r" "unat (alloc_size m r) = 4096" by (rule demo_two_blocks)
  let ?s = "demo_data r"
  have b: "backed m ?s" using m by (simp add: backed_def demo_data_def)
  obtain v m' ss' where e: "brk_resize (virtual_address ?s + 50) 0 m [?s] = (v, m', ss')" by (metis prod_cases3)
  have st: "virtual_address (last [?s]) < virtual_address ?s + 50" "writeable (last [?s])" "allocated (last [?s])" "backed m (last [?s])"
    "virtual_address ?s + 50 - virtual_address (last [?s]) = 50"
    using b by (simp_all add: demo_data_def)
  have n: "clusters_needed 50 = 1" by (simp add: clusters_needed_def)
  have rm: "room 1 m" by (rule room_mono[OF m(2)]) simp
  have "v = virtual_address ?s + 50 \<or> \<not> live m' (physical_address ?s)"
    using brk_resizes[OF m(1) _ st(2-4,1) e] unfolding st(5) n using rm by auto
  then show ?thesis using b e by blast
qed

end
