(* ===== verification/ByteFile.thy ===== *)
theory ByteFile
  imports Main
begin

text \<open>
  The contract of a seekable file of bytes, as the file system calls use it: reading copies
  from the position and advances it, writing overwrites from the position and extends the file,
  seeking to a representable position inside the file goes there. The lemmas are what a client of such
  a file can rely on.
\<close>

locale byte_file =
  fixes inv :: "'f \<Rightarrow> bool"
    and contents :: "'f \<Rightarrow> 'b list"
    and pos :: "'f \<Rightarrow> nat"
    and fread :: "'f \<Rightarrow> 'b list \<Rightarrow> nat \<times> 'b list \<times> 'f"
    and fwrite :: "'f \<Rightarrow> 'b list \<Rightarrow> nat \<times> 'f"
    and fseek :: "'f \<Rightarrow> nat \<Rightarrow> 'f"
    and representable :: "nat \<Rightarrow> bool"
  assumes read_law: "inv f \<Longrightarrow> fread f buf = (n, buf', f') \<Longrightarrow>
      n = min (length buf) (length (contents f) - pos f)
      \<and> buf' = take n (drop (pos f) (contents f)) @ drop n buf
      \<and> inv f' \<and> contents f' = contents f \<and> pos f' = pos f + n"
    and write_law: "inv f \<Longrightarrow> fwrite f buf = (n, f') \<Longrightarrow>
      n = length buf \<and> inv f'
      \<and> contents f' = take (pos f) (contents f) @ buf @ drop (pos f + length buf) (contents f)
      \<and> pos f' = pos f + length buf"
    and seek_law: "inv f \<Longrightarrow> p \<le> length (contents f) \<Longrightarrow> representable p \<Longrightarrow>
      inv (fseek f p) \<and> contents (fseek f p) = contents f \<and> pos (fseek f p) = p"
    and pos_law: "inv f \<Longrightarrow> pos f \<le> length (contents f)"
begin

lemma read_after_write:
  assumes "inv f" and "fwrite f data = (n, f1)" and "length buf = length data"
    and "representable (pos f)"
  shows "fst (snd (fread (fseek f1 (pos f)) buf)) = data"
proof -
  note w = write_law[OF assms(1,2)] and p = pos_law[OF assms(1)]
  have "pos f \<le> length (contents f1)" using w p by simp
  then have s: "inv (fseek f1 (pos f))" "contents (fseek f1 (pos f)) = contents f1"
    "pos (fseek f1 (pos f)) = pos f"
    using w seek_law[of f1 "pos f"] assms(4) by auto
  obtain k buf' f2 where r: "fread (fseek f1 (pos f)) buf = (k, buf', f2)" by (rule prod_cases3)
  from read_law[OF s(1) r] show ?thesis
    using assms(3) s w p r by simp
qed

text \<open>Reading in pieces gives the same bytes as reading at once.\<close>

lemma read_in_pieces:
  assumes "inv f" and "fread f b1 = (n1, d1, f1)" and "fread f1 b2 = (n2, d2, f2)"
    and "fread f (b1 @ b2) = (n, d, f3)"
  shows "n = n1 + n2 \<and> take n d = take n1 d1 @ take n2 d2 \<and> pos f3 = pos f2"
proof -
  note r1 = read_law[OF assms(1,2)]
  then have "inv f1" by blast
  note r2 = read_law[OF this assms(3)] and r = read_law[OF assms(1,4)]
  define rest where "rest = length (contents f) - pos f"
  have n: "n1 = min (length b1) rest" "n2 = min (length b2) (rest - n1)" "n = min (length b1 + length b2) rest"
    using r1 r2 r by (auto simp: rest_def)
  then have sum: "n = n1 + n2" by (auto simp: min_def)
  have "take n d = take n (drop (pos f) (contents f))" using r n by (simp add: rest_def)
  also have "\<dots> = take n1 (drop (pos f) (contents f)) @ take n2 (drop (pos f + n1) (contents f))"
    by (simp add: sum take_add add.commute)
  also have "\<dots> = take n1 d1 @ take n2 d2"
    using r1 r2 n by (simp add: rest_def)
  finally show ?thesis using sum r r1 r2 by simp
qed

end

end
