(* ===== verification/Resource.thy ===== *)
theory Resource
  imports Errors ByteFile
begin

text \<open>
  Kernel resources: the default methods of the traits \<^verbatim>\<open>Resource\<close> and \<^verbatim>\<open>KScheme\<close>
  (\<^verbatim>\<open>kernel/fs/resource.rs\<close>, \<^verbatim>\<open>kscheme.rs\<close>) and the in-memory file
  \<^verbatim>\<open>VecResource\<close> (\<^verbatim>\<open>kernel/fs/vec_resource.rs\<close>) that most schemes return. A buffer a
  method fills is passed in and returned.
\<close>

section \<open>Definitions\<close>

datatype ResourceSeek = SeekStart usize | SeekCurrent isize | SeekEnd isize

text \<open>The methods a resource or scheme does not override.\<close>

definition resource_default :: "'a result" where
  "resource_default = Err EBADF"

definition kscheme_default :: "'a result" where
  "kscheme_default = Err ENOENT"

record VecResource =
  vr_path :: string
  vr_data :: "u8 list"
  vr_seek :: nat

definition vec_new :: "string \<Rightarrow> u8 list \<Rightarrow> VecResource" where
  "vec_new path data = \<lparr>vr_path = path, vr_data = data, vr_seek = 0\<rparr>"

definition vec_dup :: "VecResource \<Rightarrow> VecResource result" where
  "vec_dup r = Ok \<lparr>vr_path = vr_path r, vr_data = vr_data r, vr_seek = vr_seek r\<rparr>"

definition as_bytes :: "string \<Rightarrow> u8 list" where
  "as_bytes s = map of_char s"

text \<open>\<^verbatim>\<open>buf.iter_mut().zip(path.iter())\<close>, as every \<^verbatim>\<open>path\<close> method with a fixed name has it.\<close>

fun zip_copy :: "u8 list \<Rightarrow> u8 list \<Rightarrow> u8 list" where
  "zip_copy (b # bs) (p # ps) = p # zip_copy bs ps"
| "zip_copy bs _ = bs"

definition name_path :: "string \<Rightarrow> u8 list \<Rightarrow> nat result \<times> u8 list" where
  "name_path path buf = (Ok (min (length buf) (length path)), zip_copy buf (as_bytes path))"

function copy_loop :: "u8 list \<Rightarrow> u8 list \<Rightarrow> nat \<Rightarrow> nat \<times> u8 list" where
  "copy_loop path buf i =
     (if i < length buf \<and> i < length path then copy_loop path (buf[i := path ! i]) (i + 1) else (i, buf))"
  by pat_completeness auto
termination by (relation "measure (\<lambda>(path, buf, i). length buf - i)") auto

definition vec_path :: "VecResource \<Rightarrow> u8 list \<Rightarrow> nat result \<times> u8 list" where
  "vec_path r buf = (let (i, buf) = copy_loop (as_bytes (vr_path r)) buf 0 in (Ok i, buf))"

function read_loop :: "VecResource \<Rightarrow> u8 list \<Rightarrow> nat \<Rightarrow> nat \<times> u8 list \<times> VecResource" where
  "read_loop r buf i =
     (if i < length buf \<and> vr_seek r < length (vr_data r) then
        read_loop (r\<lparr>vr_seek := vr_seek r + 1\<rparr>) (buf[i := vr_data r ! vr_seek r]) (i + 1)
      else (i, buf, r))"
  by pat_completeness auto
termination by (relation "measure (\<lambda>(r, buf, i). length buf - i)") auto

definition vec_read :: "VecResource \<Rightarrow> u8 list \<Rightarrow> nat result \<times> u8 list \<times> VecResource" where
  "vec_read r buf = (let (i, buf, r) = read_loop r buf 0 in (Ok i, buf, r))"

function overwrite_loop :: "VecResource \<Rightarrow> u8 list \<Rightarrow> nat \<Rightarrow> nat \<times> VecResource" where
  "overwrite_loop r buf i =
     (if i < length buf \<and> vr_seek r < length (vr_data r) then
        overwrite_loop (r\<lparr>vr_data := (vr_data r)[vr_seek r := buf ! i], vr_seek := vr_seek r + 1\<rparr>) buf (i + 1)
      else (i, r))"
  by pat_completeness auto
termination by (relation "measure (\<lambda>(r, buf, i). length buf - i)") auto

function append_loop :: "VecResource \<Rightarrow> u8 list \<Rightarrow> nat \<Rightarrow> nat \<times> VecResource" where
  "append_loop r buf i =
     (if i < length buf then
        append_loop (r\<lparr>vr_data := vr_data r @ [buf ! i], vr_seek := vr_seek r + 1\<rparr>) buf (i + 1)
      else (i, r))"
  by pat_completeness auto
termination by (relation "measure (\<lambda>(r, buf, i). length buf - i)") auto

definition vec_write :: "VecResource \<Rightarrow> u8 list \<Rightarrow> nat result \<times> VecResource" where
  "vec_write r buf =
     (let (i, r) = overwrite_loop r buf 0; (i, r) = append_loop r buf i in (Ok i, r))"

text \<open>
  Positions are converted to \<^verbatim>\<open>isize\<close>, whose addition wraps, compared as signed numbers
  and converted back.
\<close>

definition seek_clamp :: "nat \<Rightarrow> isize \<Rightarrow> nat" where
  "seek_clamp seek p = nat (max 0 (min (sint (of_nat seek :: isize)) (sint p)))"

definition vec_seek :: "VecResource \<Rightarrow> ResourceSeek \<Rightarrow> nat result \<times> VecResource" where
  "vec_seek r p =
     (let s = (case p of
                 SeekStart offset \<Rightarrow> min (length (vr_data r)) (unat offset)
               | SeekCurrent offset \<Rightarrow> seek_clamp (vr_seek r) (of_nat (vr_seek r) + offset)
               | SeekEnd offset \<Rightarrow> seek_clamp (vr_seek r) (of_nat (length (vr_data r)) + offset))
      in (Ok s, r\<lparr>vr_seek := s\<rparr>))"

definition vec_sync :: "VecResource \<Rightarrow> unit result \<times> VecResource" where
  "vec_sync r = (Ok (), r)"

function pad_loop :: "u8 list \<Rightarrow> nat \<Rightarrow> u8 list" where
  "pad_loop data len = (if len > length data then pad_loop (data @ [0]) len else data)"
  by pat_completeness auto
termination by (relation "measure (\<lambda>(data, len). len - length data)") auto

definition vec_truncate :: "VecResource \<Rightarrow> nat \<Rightarrow> unit result \<times> VecResource" where
  "vec_truncate r len =
     (let data = take len (pad_loop (vr_data r) len)
      in (Ok (), r\<lparr>vr_data := data, vr_seek := min (vr_seek r) (length data)\<rparr>))"

declare copy_loop.simps [simp del] read_loop.simps [simp del] overwrite_loop.simps [simp del]
  append_loop.simps [simp del] pad_loop.simps [simp del]

section \<open>Closed forms of the loops\<close>

lemma copy_loop_eq:
  assumes "i \<le> length buf" and "i \<le> length path"
  shows "copy_loop path buf i =
    (let n = min (length buf) (length path) in (n, take i buf @ take (n - i) (drop i path) @ drop n buf))"
  using assms
proof (induction path buf i rule: copy_loop.induct)
  case (1 path buf i)
  show ?case
  proof (cases "i < length buf \<and> i < length path")
    case True
    have "take (i + 1) (buf[i := path ! i]) = take i buf @ [path ! i]"
      using True by (simp add: take_Suc_conv_app_nth)
    moreover have "path ! i # take k (drop (Suc i) path) = take (Suc k) (drop i path)" for k
      using True by (simp add: Cons_nth_drop_Suc[symmetric])
    moreover have "min (length buf) (length path) - i = Suc (min (length buf) (length path) - Suc i)"
      using True by auto
    ultimately show ?thesis
      using "1.IH"[OF True] True by (subst copy_loop.simps) (simp add: Let_def)
  next
    case False
    then show ?thesis using "1.prems" by (subst copy_loop.simps) (auto simp: Let_def min_def)
  qed
qed

lemma read_loop_eq:
  assumes "i \<le> length buf"
  shows "read_loop r buf i =
    (let n = min (length buf - i) (length (vr_data r) - vr_seek r)
     in (i + n, take i buf @ take n (drop (vr_seek r) (vr_data r)) @ drop (i + n) buf, r\<lparr>vr_seek := vr_seek r + n\<rparr>))"
  using assms
proof (induction r buf i rule: read_loop.induct)
  case (1 r buf i)
  show ?case
  proof (cases "i < length buf \<and> vr_seek r < length (vr_data r)")
    case True
    define n where "n = min (length buf - Suc i) (length (vr_data r) - Suc (vr_seek r))"
    have n: "min (length buf - i) (length (vr_data r) - vr_seek r) = Suc n"
      using True by (auto simp: n_def)
    have "take (i + 1) (buf[i := vr_data r ! vr_seek r]) = take i buf @ [vr_data r ! vr_seek r]"
      using True by (simp add: take_Suc_conv_app_nth)
    moreover have "vr_data r ! vr_seek r # take n (drop (Suc (vr_seek r)) (vr_data r)) =
        take (Suc n) (drop (vr_seek r) (vr_data r))"
      using True by (simp add: Cons_nth_drop_Suc[symmetric])
    ultimately show ?thesis
      using "1.IH"[OF True] True by (subst read_loop.simps) (simp add: Let_def n flip: n_def)
  next
    case False
    then show ?thesis using "1.prems" by (subst read_loop.simps) (auto simp: Let_def)
  qed
qed

lemma overwrite_loop_eq:
  assumes "i \<le> length buf" and "vr_seek r \<le> length (vr_data r)"
  shows "overwrite_loop r buf i =
    (let n = min (length buf - i) (length (vr_data r) - vr_seek r)
     in (i + n, r\<lparr>vr_data := take (vr_seek r) (vr_data r) @ take n (drop i buf) @ drop (vr_seek r + n) (vr_data r),
                 vr_seek := vr_seek r + n\<rparr>))"
  using assms
proof (induction r buf i rule: overwrite_loop.induct)
  case (1 r buf i)
  show ?case
  proof (cases "i < length buf \<and> vr_seek r < length (vr_data r)")
    case True
    define n where "n = min (length buf - Suc i) (length (vr_data r) - Suc (vr_seek r))"
    have n: "min (length buf - i) (length (vr_data r) - vr_seek r) = Suc n"
      using True by (auto simp: n_def)
    have "take (Suc (vr_seek r)) ((vr_data r)[vr_seek r := buf ! i]) = take (vr_seek r) (vr_data r) @ [buf ! i]"
      using True by (simp add: take_Suc_conv_app_nth)
    moreover have "buf ! i # take n (drop (Suc i) buf) = take (Suc n) (drop i buf)"
      using True by (simp add: Cons_nth_drop_Suc[symmetric])
    ultimately show ?thesis
      using "1.IH"[OF True] True by (subst overwrite_loop.simps) (simp add: Let_def n flip: n_def)
  next
    case False
    then show ?thesis using "1.prems" by (subst overwrite_loop.simps) (auto simp: Let_def)
  qed
qed

lemma append_loop_eq:
  assumes "i \<le> length buf"
  shows "append_loop r buf i =
    (length buf, r\<lparr>vr_data := vr_data r @ drop i buf, vr_seek := vr_seek r + (length buf - i)\<rparr>)"
  using assms
proof (induction r buf i rule: append_loop.induct)
  case (1 r buf i)
  show ?case
  proof (cases "i < length buf")
    case True
    then show ?thesis
      using "1.IH" by (subst append_loop.simps) (simp add: Cons_nth_drop_Suc)
  next
    case False
    then show ?thesis using "1.prems" by (subst append_loop.simps) simp
  qed
qed

lemma pad_loop_eq: "pad_loop data len = data @ replicate (len - length data) 0"
proof (induction data len rule: pad_loop.induct)
  case (1 data len)
  then show ?case
    by (subst pad_loop.simps) (auto simp: Suc_diff_Suc[symmetric] replicate_app_Cons_same)
qed

section \<open>The contract\<close>

definition vec_inv :: "VecResource \<Rightarrow> bool" where
  "vec_inv r \<longleftrightarrow> vr_seek r \<le> length (vr_data r)"

lemma vec_read_eq:
  "vec_read r buf =
    (let n = min (length buf) (length (vr_data r) - vr_seek r)
     in (Ok n, take n (drop (vr_seek r) (vr_data r)) @ drop n buf, r\<lparr>vr_seek := vr_seek r + n\<rparr>))"
  by (simp add: vec_read_def read_loop_eq Let_def)

lemma vec_write_eq:
  assumes "vec_inv r"
  shows "vec_write r buf =
    (Ok (length buf),
     r\<lparr>vr_data := take (vr_seek r) (vr_data r) @ buf @ drop (vr_seek r + length buf) (vr_data r),
       vr_seek := vr_seek r + length buf\<rparr>)"
proof -
  define n where "n = min (length buf) (length (vr_data r) - vr_seek r)"
  have "take n buf @ drop (vr_seek r + n) (vr_data r) @ drop n buf =
      buf @ drop (vr_seek r + length buf) (vr_data r)"
  proof (cases "length buf \<le> length (vr_data r) - vr_seek r")
    case False
    then have "n = length (vr_data r) - vr_seek r" by (simp add: n_def)
    then show ?thesis using assms False by (simp add: vec_inv_def)
  qed (simp add: n_def)
  moreover have "n \<le> length buf" by (simp add: n_def)
  ultimately show ?thesis
    using assms by (simp add: vec_write_def overwrite_loop_eq append_loop_eq vec_inv_def Let_def flip: n_def)
qed

text \<open>The methods with the position of success taken out of the \<^verbatim>\<open>Ok\<close>.\<close>

definition vec_read' :: "VecResource \<Rightarrow> u8 list \<Rightarrow> nat \<times> u8 list \<times> VecResource" where
  "vec_read' r buf = (case vec_read r buf of (res, buf, r) \<Rightarrow> (projr res, buf, r))"

definition vec_write' :: "VecResource \<Rightarrow> u8 list \<Rightarrow> nat \<times> VecResource" where
  "vec_write' r buf = (case vec_write r buf of (res, r) \<Rightarrow> (projr res, r))"

definition vec_seek_to :: "VecResource \<Rightarrow> nat \<Rightarrow> VecResource" where
  "vec_seek_to r p = snd (vec_seek r (SeekStart (of_nat p)))"

definition vec_position :: "nat \<Rightarrow> bool" where
  "vec_position p \<longleftrightarrow> p < 2 ^ 32"

interpretation vec_file: byte_file vec_inv vr_data vr_seek vec_read' vec_write' vec_seek_to vec_position
proof
  fix f buf n buf' f'
  assume "vec_inv f" and "vec_read' f buf = (n, buf', f')"
  then show "n = min (length buf) (length (vr_data f) - vr_seek f)
      \<and> buf' = take n (drop (vr_seek f) (vr_data f)) @ drop n buf
      \<and> vec_inv f' \<and> vr_data f' = vr_data f \<and> vr_seek f' = vr_seek f + n"
    by (auto simp: vec_read'_def vec_read_eq Let_def vec_inv_def)
next
  fix f buf n f'
  assume "vec_inv f" and "vec_write' f buf = (n, f')"
  then show "n = length buf \<and> vec_inv f'
      \<and> vr_data f' = take (vr_seek f) (vr_data f) @ buf @ drop (vr_seek f + length buf) (vr_data f)
      \<and> vr_seek f' = vr_seek f + length buf"
    by (auto simp: vec_write'_def vec_write_eq vec_inv_def)
next
  fix f p
  assume "vec_inv f" and "p \<le> length (vr_data f)" and "vec_position p"
  then show "vec_inv (vec_seek_to f p) \<and> vr_data (vec_seek_to f p) = vr_data f \<and> vr_seek (vec_seek_to f p) = p"
    by (simp add: vec_seek_to_def vec_seek_def vec_inv_def vec_position_def unat_of_nat_lt)
qed (simp add: vec_inv_def)

section \<open>Properties\<close>

text \<open>
  What is written to an in-memory file is read back: after writing, seeking back to where
  the write began and reading as many bytes returns exactly the bytes written.
\<close>

theorem vec_read_after_write:
  assumes "vec_inv r" and "vr_seek r < 2 ^ 32" and "vec_write r data = (res, r1)"
    and "length buf = length data"
  shows "res = Ok (length data)
    \<and> fst (snd (vec_read (snd (vec_seek r1 (SeekStart (of_nat (vr_seek r))))) buf)) = data"
proof -
  have "vec_write' r data = (projr res, r1)" using assms(3) by (simp add: vec_write'_def)
  from vec_file.read_after_write[OF assms(1) this assms(4)] assms(2)
  have "fst (snd (vec_read' (vec_seek_to r1 (vr_seek r)) buf)) = data" by (simp add: vec_position_def)
  then show ?thesis
    using assms(1,3) by (auto simp: vec_read'_def vec_seek_to_def vec_write_eq split: prod.splits)
qed

theorem vec_read_after_write_witness:
  "fst (snd (vec_read (snd (vec_seek (snd (vec_write \<lparr>vr_path = ''t'', vr_data = [1, 2, 3], vr_seek = 2\<rparr> [7, 8, 9]))
     (SeekStart (of_nat 2)))) [0, 0, 0])) = [7, 8, 9]"
  using vec_read_after_write[of "\<lparr>vr_path = ''t'', vr_data = [1, 2, 3], vr_seek = 2\<rparr>" "[7, 8, 9]"
      _ _ "[0, 0, 0]", OF _ _ surjective_pairing]
  by (simp add: vec_inv_def)

text \<open>
  Every operation of an in-memory file keeps its position inside the data. Seeking
  relative to the current position or to the end never moves forward: the new position is at
  most the old one, so only backward movements have an effect.
\<close>

theorem vec_operations:
  assumes "vec_inv r" and "length (vr_data r) < 2 ^ 31"
  shows "vec_inv (snd (snd (vec_read r buf))) \<and> vec_inv (snd (vec_write r buf))
    \<and> vec_inv (snd (vec_seek r p)) \<and> vec_inv (snd (vec_truncate r len))
    \<and> vr_data (snd (vec_truncate r len)) = take len (vr_data r) @ replicate (len - length (vr_data r)) 0
    \<and> vr_seek (snd (vec_seek r (SeekCurrent off))) \<le> vr_seek r
    \<and> vr_seek (snd (vec_seek r (SeekEnd off))) \<le> vr_seek r"
proof -
  have "sint (of_nat (vr_seek r) :: isize) = int (vr_seek r)"
    using assms by (simp add: vec_inv_def sint_uint unsigned_of_nat signed_take_bit_int_eq_self take_bit_nat_eq_self)
  then have clamp: "seek_clamp (vr_seek r) q \<le> vr_seek r" for q
    by (simp add: seek_clamp_def)
  have "vec_inv (snd (vec_seek r p))"
    using assms(1) clamp by (cases p) (auto simp: vec_seek_def vec_inv_def Let_def intro: order_trans)
  moreover have "take len (pad_loop (vr_data r) len) = take len (vr_data r) @ replicate (len - length (vr_data r)) 0"
    by (simp add: pad_loop_eq)
  ultimately show ?thesis
    using assms(1) clamp
    by (simp add: vec_read_eq vec_write_eq vec_truncate_def vec_seek_def vec_inv_def Let_def)
qed

theorem vec_operations_witness:
  "vr_seek (snd (vec_seek \<lparr>vr_path = ''t'', vr_data = [1, 2, 3], vr_seek = 1\<rparr> (SeekCurrent 1))) \<le> 1
   \<and> vr_data (snd (vec_truncate \<lparr>vr_path = ''t'', vr_data = [1, 2, 3], vr_seek = 1\<rparr> 2)) = [1, 2]"
  using vec_operations[of "\<lparr>vr_path = ''t'', vr_data = [1, 2, 3], vr_seek = 1\<rparr>" "[]" "SeekCurrent 1" 2 1]
  by (simp add: vec_inv_def)

end
