(* ===== verification/Files.thy ===== *)
theory Files
  imports Cloning Resource
begin

text \<open>
  The file system calls (\<^verbatim>\<open>kernel/syscall/file.rs\<close>) and the dispatch of URLs to schemes
  (\<^verbatim>\<open>Environment\<close> in \<^verbatim>\<open>kernel/env/mod.rs\<close>). Resources and schemes are trait objects
  in the code; here their methods are a record of functions, so everything below holds for
  every implementation. Methods work on the object itself and on the rest of the
  environment, of type \<^typ>\<open>'e\<close>. Paths are the strings behind the user's pointers, buffers
  are passed in and returned; whether a pointer is null is passed beside what it points to.
\<close>

section \<open>Interfaces\<close>

record ('r, 'e) ResourceOps =
  r_dup :: "'r \<Rightarrow> 'r result"
  r_path :: "'r \<Rightarrow> u8 list \<Rightarrow> usize result \<times> u8 list"
  r_read :: "u8 list \<Rightarrow> 'r \<Rightarrow> 'e \<Rightarrow> (usize result \<times> u8 list) \<times> 'r \<times> 'e"
  r_write :: "u8 list \<Rightarrow> 'r \<Rightarrow> 'e \<Rightarrow> usize result \<times> 'r \<times> 'e"
  r_seek :: "ResourceSeek \<Rightarrow> 'r \<Rightarrow> 'e \<Rightarrow> usize result \<times> 'r \<times> 'e"
  r_stat :: "'r \<Rightarrow> Stat \<Rightarrow> usize result \<times> Stat"
  r_sync :: "'r \<Rightarrow> 'e \<Rightarrow> unit result \<times> 'r \<times> 'e"
  r_truncate :: "usize \<Rightarrow> 'r \<Rightarrow> 'e \<Rightarrow> unit result \<times> 'r \<times> 'e"

record ('s, 'r, 'e) SchemeOps =
  s_on_irq :: "u8 \<Rightarrow> 's \<Rightarrow> 'e \<Rightarrow> 's \<times> 'e"
  s_name :: "'s \<Rightarrow> string"
  s_open :: "Url \<Rightarrow> usize \<Rightarrow> 's \<Rightarrow> 'e \<Rightarrow> 'r result \<times> 's \<times> 'e"
  s_mkdir :: "Url \<Rightarrow> usize \<Rightarrow> 's \<Rightarrow> 'e \<Rightarrow> unit result \<times> 's \<times> 'e"
  s_rmdir :: "Url \<Rightarrow> 's \<Rightarrow> 'e \<Rightarrow> unit result \<times> 's \<times> 'e"
  s_stat :: "Url \<Rightarrow> Stat \<Rightarrow> 's \<Rightarrow> 'e \<Rightarrow> (unit result \<times> Stat) \<times> 's \<times> 'e"
  s_unlink :: "Url \<Rightarrow> 's \<Rightarrow> 'e \<Rightarrow> unit result \<times> 's \<times> 'e"

text \<open>What opening needs besides the schemes: user-space schemes and in-memory files.\<close>

record ('s, 'r, 'e) World =
  resource_ops :: "('r, 'e) ResourceOps"
  scheme_ops :: "('s, 'r, 'e) SchemeOps"
  new_scheme :: "string \<Rightarrow> 'e \<Rightarrow> ('s \<times> 'r) result \<times> 'e"
  of_vec :: "VecResource \<Rightarrow> 'r"

record ('s, 'r, 'e) Env =
  contexts :: "'r Kernel"
  schemes :: "'s list"
  environment :: 'e

section \<open>The environment\<close>

text \<open>
  The loops over the schemes: the first scheme of that name handles the request and its new
  state replaces the old one.
\<close>

fun with_scheme :: "('s \<Rightarrow> string) \<Rightarrow> string \<Rightarrow> ('s \<Rightarrow> 'e \<Rightarrow> 'a \<times> 's \<times> 'e) \<Rightarrow> 's list \<Rightarrow> 'e \<Rightarrow> ('a \<times> 's list \<times> 'e) option" where
  "with_scheme nm name f [] e = None"
| "with_scheme nm name f (s # ss) e =
     (if nm s = name then (case f s e of (a, s', e') \<Rightarrow> Some (a, s' # ss, e'))
      else map_option (\<lambda>(a, ss', e'). (a, s # ss', e')) (with_scheme nm name f ss e))"

fun scheme_list :: "('s \<Rightarrow> string) \<Rightarrow> 's list \<Rightarrow> string \<Rightarrow> string" where
  "scheme_list nm [] acc = acc"
| "scheme_list nm (s # ss) acc =
     (if nm s \<noteq> [] then (if acc \<noteq> [] then scheme_list nm ss (acc @ [CHR 0x0A] @ nm s) else scheme_list nm ss (nm s))
      else scheme_list nm ss acc)"

definition only_slashes :: "string \<Rightarrow> bool" where
  "only_slashes p = list_all (\<lambda>c. c = CHR ''/'') p"

fun on_irq_all :: "(u8 \<Rightarrow> 's \<Rightarrow> 'e \<Rightarrow> 's \<times> 'e) \<Rightarrow> u8 \<Rightarrow> 's list \<Rightarrow> 'e \<Rightarrow> 's list \<times> 'e" where
  "on_irq_all f irq [] e = ([], e)"
| "on_irq_all f irq (s # ss) e =
     (let (s, e) = f irq s e; (ss, e) = on_irq_all f irq ss e in (s # ss, e))"

definition env_on_irq :: "('s, 'r, 'e) World \<Rightarrow> u8 \<Rightarrow> ('s, 'r, 'e) Env \<Rightarrow> ('s, 'r, 'e) Env" where
  "env_on_irq w irq env =
     (let (ss, e) = on_irq_all (s_on_irq (scheme_ops w)) irq (schemes env) (environment env)
      in env\<lparr>schemes := ss, environment := e\<rparr>)"

definition env_open :: "('s, 'r, 'e) World \<Rightarrow> Url \<Rightarrow> usize \<Rightarrow> ('s, 'r, 'e) Env \<Rightarrow> 'r result \<times> ('s, 'r, 'e) Env" where
  "env_open w url flags env =
     (let nm = s_name (scheme_ops w) in
      if url_scheme url = [] then
        if only_slashes (url_reference url) then
          (Ok (of_vec w (vec_new '':'' (as_bytes (scheme_list nm (schemes env) [])))), env)
        else if flags AND O_CREAT = O_CREAT then
          if list_ex (\<lambda>s. nm s = url_reference url) (schemes env) then (Err EEXIST, env)
          else (case new_scheme w (url_reference url) (environment env) of
                  (Inr (s, server), e) \<Rightarrow> (Ok server, env\<lparr>schemes := schemes env @ [s], environment := e\<rparr>)
                | (Inl err, e) \<Rightarrow> (Err err, env\<lparr>environment := e\<rparr>))
        else (Err ENOENT, env)
      else (case with_scheme nm (url_scheme url) (s_open (scheme_ops w) url flags) (schemes env) (environment env) of
              Some (res, ss, e) \<Rightarrow> (res, env\<lparr>schemes := ss, environment := e\<rparr>)
            | None \<Rightarrow> (Err ENOENT, env)))"

text \<open>The four remaining requests share their dispatch.\<close>

definition env_dispatch ::
  "('s, 'r, 'e) World \<Rightarrow> Url \<Rightarrow> ('s \<Rightarrow> 'e \<Rightarrow> 'a \<times> 's \<times> 'e) \<Rightarrow> 'a \<Rightarrow> ('s, 'r, 'e) Env \<Rightarrow> 'a \<times> ('s, 'r, 'e) Env" where
  "env_dispatch w url f missing env =
     (if url_scheme url \<noteq> [] then
        (case with_scheme (s_name (scheme_ops w)) (url_scheme url) f (schemes env) (environment env) of
           Some (res, ss, e) \<Rightarrow> (res, env\<lparr>schemes := ss, environment := e\<rparr>)
         | None \<Rightarrow> (missing, env))
      else (missing, env))"

definition env_mkdir :: "('s, 'r, 'e) World \<Rightarrow> Url \<Rightarrow> usize \<Rightarrow> ('s, 'r, 'e) Env \<Rightarrow> unit result \<times> ('s, 'r, 'e) Env" where
  "env_mkdir w url flags = env_dispatch w url (s_mkdir (scheme_ops w) url flags) (Err ENOENT)"

definition env_rmdir :: "('s, 'r, 'e) World \<Rightarrow> Url \<Rightarrow> ('s, 'r, 'e) Env \<Rightarrow> unit result \<times> ('s, 'r, 'e) Env" where
  "env_rmdir w url = env_dispatch w url (s_rmdir (scheme_ops w) url) (Err ENOENT)"

definition env_stat :: "('s, 'r, 'e) World \<Rightarrow> Url \<Rightarrow> Stat \<Rightarrow> ('s, 'r, 'e) Env \<Rightarrow> (unit result \<times> Stat) \<times> ('s, 'r, 'e) Env" where
  "env_stat w url st = env_dispatch w url (s_stat (scheme_ops w) url st) (Err ENOENT, st)"

definition env_unlink :: "('s, 'r, 'e) World \<Rightarrow> Url \<Rightarrow> ('s, 'r, 'e) Env \<Rightarrow> unit result \<times> ('s, 'r, 'e) Env" where
  "env_unlink w url = env_dispatch w url (s_unlink (scheme_ops w) url) (Err ENOENT)"

section \<open>System calls\<close>

text \<open>The files of a context, and replacing them.\<close>

definition files_of :: "('s, 'r, 'e) Env \<Rightarrow> Context \<Rightarrow> 'r ContextFile list" where
  "files_of env c = file_cell (contexts env) (files c)"

definition set_files :: "('s, 'r, 'e) Env \<Rightarrow> Context \<Rightarrow> 'r ContextFile list \<Rightarrow> ('s, 'r, 'e) Env" where
  "set_files env c fs = env\<lparr>contexts := (contexts env)\<lparr>file_cell := (file_cell (contexts env))(files c := fs)\<rparr>\<rparr>"

definition cwd_of :: "('s, 'r, 'e) Env \<Rightarrow> Context \<Rightarrow> string" where
  "cwd_of env c = cwd_cell (contexts env) (cwd c)"

definition do_sys_chdir :: "string \<Rightarrow> ('s, 'r, 'e) Env \<Rightarrow> usize result \<times> ('s, 'r, 'e) Env" where
  "do_sys_chdir path env =
     (case current (contexts env) of
        Inl e \<Rightarrow> (Err e, env)
      | Inr c \<Rightarrow> (Ok 0, env\<lparr>contexts := (contexts env)
          \<lparr>cwd_cell := (cwd_cell (contexts env))(cwd c := canonicalize (cwd_of env c) path)\<rparr>\<rparr>))"

text \<open>The loop of \<^verbatim>\<open>do_sys_close\<close>; \<^term>\<open>i\<close> counts up to the length it started with.\<close>

function close_loop :: "usize \<Rightarrow> nat \<Rightarrow> 'r ContextFile list \<Rightarrow> 'r ContextFile list option" where
  "close_loop fd i fs =
     (if i < length fs then (if file_fd (fs ! i) = fd then Some (remove_at i fs) else close_loop fd (i + 1) fs)
      else None)"
  by pat_completeness auto
termination by (relation "measure (\<lambda>(fd, i, fs). length fs - i)") auto

definition do_sys_close :: "usize \<Rightarrow> ('s, 'r, 'e) Env \<Rightarrow> usize result \<times> ('s, 'r, 'e) Env" where
  "do_sys_close fd env =
     (case current (contexts env) of
        Inl e \<Rightarrow> (Err e, env)
      | Inr c \<Rightarrow>
          (case close_loop fd 0 (files_of env c) of
             Some fs \<Rightarrow> (Ok 0, set_files env c fs)
           | None \<Rightarrow> (Err EBADF, env)))"

text \<open>Adding a file under the next free descriptor; the search for it is bounded as in \<^const>\<open>next_fd\<close>.\<close>

definition push_file :: "('s, 'r, 'e) Env \<Rightarrow> Context \<Rightarrow> 'r \<Rightarrow> (usize \<times> ('s, 'r, 'e) Env) option" where
  "push_file env c r =
     map_option (\<lambda>fd. (fd, set_files env c (files_of env c @ [\<lparr>file_fd = fd, file_resource = r\<rparr>])))
       (next_fd (files_of env c))"

definition do_sys_dup :: "('s, 'r, 'e) World \<Rightarrow> usize \<Rightarrow> ('s, 'r, 'e) Env \<Rightarrow> (usize result \<times> ('s, 'r, 'e) Env) option" where
  "do_sys_dup w fd env =
     (case current (contexts env) of
        Inl e \<Rightarrow> Some (Err e, env)
      | Inr c \<Rightarrow>
          (case get_file (files_of env c) fd of
             Inl e \<Rightarrow> Some (Err e, env)
           | Inr i \<Rightarrow>
               (case r_dup (resource_ops w) (file_resource (files_of env c ! i)) of
                  Inl e \<Rightarrow> Some (Err e, env)
                | Inr r \<Rightarrow> map_option (\<lambda>(fd', env'). (Ok fd', env')) (push_file env c r))))"

definition do_sys_fpath :: "('s, 'r, 'e) World \<Rightarrow> usize \<Rightarrow> u8 list \<Rightarrow> ('s, 'r, 'e) Env \<Rightarrow> usize result \<times> u8 list" where
  "do_sys_fpath w fd buf env =
     (case current (contexts env) of
        Inl e \<Rightarrow> (Err e, buf)
      | Inr c \<Rightarrow>
          (case get_file (files_of env c) fd of
             Inl e \<Rightarrow> (Err e, buf)
           | Inr i \<Rightarrow> r_path (resource_ops w) (file_resource (files_of env c ! i)) buf))"

definition do_sys_fstat :: "('s, 'r, 'e) World \<Rightarrow> usize \<Rightarrow> bool \<Rightarrow> Stat \<Rightarrow> ('s, 'r, 'e) Env \<Rightarrow> usize result \<times> Stat" where
  "do_sys_fstat w fd null st env =
     (case current (contexts env) of
        Inl e \<Rightarrow> (Err e, st)
      | Inr c \<Rightarrow>
          (case get_file (files_of env c) fd of
             Inl e \<Rightarrow> (Err e, st)
           | Inr i \<Rightarrow>
               if null then (Err EFAULT, st)
               else r_stat (resource_ops w) (file_resource (files_of env c ! i)) st))"

text \<open>The calls that use a resource mutably: find it, run the method, put both states back.\<close>

definition with_file ::
  "usize \<Rightarrow> ('r \<Rightarrow> 'e \<Rightarrow> 'a \<times> 'r \<times> 'e) \<Rightarrow> (usize \<Rightarrow> 'a) \<Rightarrow> ('s, 'r, 'e) Env \<Rightarrow> 'a \<times> ('s, 'r, 'e) Env" where
  "with_file fd f failed env =
     (case current (contexts env) of
        Inl e \<Rightarrow> (failed e, env)
      | Inr c \<Rightarrow>
          (case get_file (files_of env c) fd of
             Inl e \<Rightarrow> (failed e, env)
           | Inr i \<Rightarrow>
               (let file = files_of env c ! i; (a, r, e) = f (file_resource file) (environment env)
                in (a, (set_files env c ((files_of env c)[i := file\<lparr>file_resource := r\<rparr>]))\<lparr>environment := e\<rparr>))))"

text \<open>\<^verbatim>\<open>.and(Ok(0))\<close> on a result.\<close>

definition and_zero :: "unit result \<Rightarrow> usize result" where
  "and_zero r = (case r of Inl e \<Rightarrow> Err e | Inr _ \<Rightarrow> Ok 0)"

definition do_sys_fsync :: "('s, 'r, 'e) World \<Rightarrow> usize \<Rightarrow> ('s, 'r, 'e) Env \<Rightarrow> usize result \<times> ('s, 'r, 'e) Env" where
  "do_sys_fsync w fd = with_file fd (\<lambda>r e. apfst and_zero (r_sync (resource_ops w) r e)) Err"

definition do_sys_ftruncate :: "('s, 'r, 'e) World \<Rightarrow> usize \<Rightarrow> usize \<Rightarrow> ('s, 'r, 'e) Env \<Rightarrow> usize result \<times> ('s, 'r, 'e) Env" where
  "do_sys_ftruncate w fd len = with_file fd (\<lambda>r e. apfst and_zero (r_truncate (resource_ops w) len r e)) Err"

definition do_sys_lseek :: "('s, 'r, 'e) World \<Rightarrow> usize \<Rightarrow> isize \<Rightarrow> usize \<Rightarrow> ('s, 'r, 'e) Env \<Rightarrow> usize result \<times> ('s, 'r, 'e) Env" where
  "do_sys_lseek w fd offset whence =
     with_file fd (\<lambda>r e.
       if whence = SEEK_SET then r_seek (resource_ops w) (SeekStart offset) r e
       else if whence = SEEK_CUR then r_seek (resource_ops w) (SeekCurrent offset) r e
       else if whence = SEEK_END then r_seek (resource_ops w) (SeekEnd offset) r e
       else (Err EINVAL, r, e)) Err"

definition do_sys_read :: "('s, 'r, 'e) World \<Rightarrow> usize \<Rightarrow> u8 list \<Rightarrow> ('s, 'r, 'e) Env \<Rightarrow> (usize result \<times> u8 list) \<times> ('s, 'r, 'e) Env" where
  "do_sys_read w fd buf = with_file fd (r_read (resource_ops w) buf) (\<lambda>e. (Err e, buf))"

definition do_sys_write :: "('s, 'r, 'e) World \<Rightarrow> usize \<Rightarrow> u8 list \<Rightarrow> ('s, 'r, 'e) Env \<Rightarrow> usize result \<times> ('s, 'r, 'e) Env" where
  "do_sys_write w fd buf = with_file fd (r_write (resource_ops w) buf) Err"

text \<open>The calls on paths: the path is made absolute and parsed as a URL.\<close>

definition with_url :: "string \<Rightarrow> (Url \<Rightarrow> Context \<Rightarrow> 'a) \<Rightarrow> (usize \<Rightarrow> 'a) \<Rightarrow> ('s, 'r, 'e) Env \<Rightarrow> 'a" where
  "with_url path f failed env =
     (case current (contexts env) of
        Inl e \<Rightarrow> failed e
      | Inr c \<Rightarrow> (case url_from_str (canonicalize (cwd_of env c) path) of Inl e \<Rightarrow> failed e | Inr url \<Rightarrow> f url c))"

definition do_sys_mkdir :: "('s, 'r, 'e) World \<Rightarrow> string \<Rightarrow> usize \<Rightarrow> ('s, 'r, 'e) Env \<Rightarrow> usize result \<times> ('s, 'r, 'e) Env" where
  "do_sys_mkdir w path flags env =
     with_url path (\<lambda>url c. apfst and_zero (env_mkdir w url flags env)) (\<lambda>e. (Err e, env)) env"

definition do_sys_open :: "('s, 'r, 'e) World \<Rightarrow> string \<Rightarrow> usize \<Rightarrow> ('s, 'r, 'e) Env \<Rightarrow> (usize result \<times> ('s, 'r, 'e) Env) option" where
  "do_sys_open w path flags env =
     with_url path (\<lambda>url c.
       (case env_open w url flags env of
          (Inl e, env) \<Rightarrow> Some (Err e, env)
        | (Inr r, env) \<Rightarrow> map_option (\<lambda>(fd, env'). (Ok fd, env')) (push_file env c r))) (\<lambda>e. Some (Err e, env)) env"

definition do_sys_rmdir :: "('s, 'r, 'e) World \<Rightarrow> string \<Rightarrow> ('s, 'r, 'e) Env \<Rightarrow> usize result \<times> ('s, 'r, 'e) Env" where
  "do_sys_rmdir w path env =
     with_url path (\<lambda>url c. apfst and_zero (env_rmdir w url env)) (\<lambda>e. (Err e, env)) env"

definition do_sys_stat :: "('s, 'r, 'e) World \<Rightarrow> string \<Rightarrow> bool \<Rightarrow> Stat \<Rightarrow> ('s, 'r, 'e) Env \<Rightarrow> (usize result \<times> Stat) \<times> ('s, 'r, 'e) Env" where
  "do_sys_stat w path null st env =
     with_url path (\<lambda>url c.
       if null then ((Err EFAULT, st), env)
       else (case env_stat w url st env of ((res, st), env) \<Rightarrow> ((and_zero res, st), env)))
       (\<lambda>e. ((Err e, st), env)) env"

definition do_sys_unlink :: "('s, 'r, 'e) World \<Rightarrow> string \<Rightarrow> ('s, 'r, 'e) Env \<Rightarrow> usize result \<times> ('s, 'r, 'e) Env" where
  "do_sys_unlink w path env =
     with_url path (\<lambda>url c. apfst and_zero (env_unlink w url env)) (\<lambda>e. (Err e, env)) env"

text \<open>
  \<^verbatim>\<open>pipe2\<close> with the two ends of a new pipe as arguments; it returns the descriptors it stores
  at the user's pointer.
\<close>

definition do_sys_pipe2 ::
  "bool \<Rightarrow> 'r \<Rightarrow> 'r \<Rightarrow> ('s, 'r, 'e) Env \<Rightarrow> ((usize result \<times> (usize \<times> usize) option) \<times> ('s, 'r, 'e) Env) option" where
  "do_sys_pipe2 null rd wr env =
     (case current (contexts env) of
        Inl e \<Rightarrow> Some ((Err e, None), env)
      | Inr c \<Rightarrow>
          if null then Some ((Err EFAULT, None), env)
          else (case push_file env c rd of
                  None \<Rightarrow> None
                | Some (fd0, env) \<Rightarrow>
                    (case push_file env c wr of
                       None \<Rightarrow> None
                     | Some (fd1, env) \<Rightarrow> Some ((Ok 0, Some (fd0, fd1)), env))))"

declare close_loop.simps [simp del]

section \<open>In-memory files as resources\<close>

text \<open>The methods of \<^verbatim>\<open>VecResource\<close> as a table; \<^verbatim>\<open>stat\<close> is the default of the trait.\<close>

definition result_usize :: "nat result \<Rightarrow> usize result" where
  "result_usize r = (case r of Inl e \<Rightarrow> Err e | Inr n \<Rightarrow> Ok (of_nat n))"

definition vec_resource_ops :: "(VecResource, 'e) ResourceOps" where
  "vec_resource_ops =
     \<lparr>r_dup = vec_dup,
      r_path = (\<lambda>r buf. apfst result_usize (vec_path r buf)),
      r_read = (\<lambda>buf r e. (case vec_read r buf of (n, buf, r) \<Rightarrow> ((result_usize n, buf), r, e))),
      r_write = (\<lambda>buf r e. (case vec_write r buf of (n, r) \<Rightarrow> (result_usize n, r, e))),
      r_seek = (\<lambda>p r e. (case vec_seek r p of (n, r) \<Rightarrow> (result_usize n, r, e))),
      r_stat = (\<lambda>r st. (resource_default, st)),
      r_sync = (\<lambda>r e. (case vec_sync r of (u, r) \<Rightarrow> (u, r, e))),
      r_truncate = (\<lambda>len r e. (case vec_truncate r (unat len) of (u, r) \<Rightarrow> (u, r, e)))\<rparr>"

section \<open>Tables of files\<close>

lemma get_file_Ok: "get_file fs fd = Inr i \<Longrightarrow> i < length fs \<and> file_fd (fs ! i) = fd"
  by (induction fs fd arbitrary: i rule: get_file.induct) (auto split: if_splits sum.splits)

lemma get_file_Err: "get_file fs fd = (if fd \<in> file_fd ` set fs then get_file fs fd else Err EBADF)"
  by (induction fs fd rule: get_file.induct) auto

lemma close_loop_spec:
  "close_loop fd i fs = (case get_file (drop i fs) fd of Inr j \<Rightarrow> Some (remove_at (i + j) fs) | Inl _ \<Rightarrow> None)"
proof (induction fd i fs rule: close_loop.induct)
  case (1 fd i fs)
  show ?case
  proof (cases "i < length fs")
    case True
    then have "drop i fs = fs ! i # drop (Suc i) fs" by (rule Cons_nth_drop_Suc[symmetric])
    then show ?thesis
      using 1 True by (subst close_loop.simps) (auto split: sum.split)
  qed (subst close_loop.simps, simp)
qed

lemma map_remove_at: "map f (remove_at i xs) = remove_at i (map f xs)"
  by (simp add: remove_at_def take_map drop_map)

lemma distinct_remove_at: "distinct xs \<Longrightarrow> distinct (remove_at i xs)"
  by (auto simp: remove_at_def set_take_disj_set_drop_if_distinct)

lemma remove_at_last: "remove_at (length xs) (xs @ [x]) = xs"
  by (simp add: remove_at_def)

lemma get_file_append: "fd \<notin> file_fd ` set fs \<Longrightarrow> get_file (fs @ [f]) fd = (if file_fd f = fd then Ok (length fs) else Err EBADF)"
  by (induction fs) auto

text \<open>Descriptors are unique in every table.\<close>

definition fds_ok :: "('s, 'r, 'e) Env \<Rightarrow> bool" where
  "fds_ok env \<longleftrightarrow> (\<forall>cell. distinct (map file_fd (file_cell (contexts env) cell)))"

lemma fds_ok_set: "fds_ok env \<Longrightarrow> distinct (map file_fd fs) \<Longrightarrow> fds_ok (set_files env c fs)"
  by (simp add: fds_ok_def set_files_def)

lemma fds_ok_files: "fds_ok env \<Longrightarrow> distinct (map file_fd (files_of env c))"
  by (simp add: fds_ok_def files_of_def)

lemma fds_ok_cong: "contexts env' = contexts env \<Longrightarrow> fds_ok env' = fds_ok env"
  by (simp add: fds_ok_def)

lemma fds_ok_environment [simp]: "fds_ok (env\<lparr>environment := e\<rparr>) = fds_ok env"
  by (simp add: fds_ok_def)

lemma push_file_Some:
  assumes "push_file env c r = Some (fd, env')"
  shows "fd \<notin> file_fd ` set (files_of env c) \<and> env' = set_files env c (files_of env c @ [\<lparr>file_fd = fd, file_resource = r\<rparr>])"
proof -
  have "next_fd (files_of env c) = Some fd"
    and e: "env' = set_files env c (files_of env c @ [\<lparr>file_fd = fd, file_resource = r\<rparr>])"
    using assms by (auto simp: push_file_def)
  from next_free_Some[OF this(1)[unfolded next_fd_def]] e show ?thesis by auto
qed

lemma push_file_ok:
  assumes "push_file env c r = Some (fd, env')" and "fds_ok env"
  shows "fds_ok env'"
  using push_file_Some[OF assms(1)] fds_ok_files[OF assms(2), of c] by (auto intro: fds_ok_set[OF assms(2)])

lemma push_file_total: "length (files_of env c) < 2 ^ 32 \<Longrightarrow> \<exists>fd env'. push_file env c r = Some (fd, env')"
  using next_fd_fresh[of "files_of env c"] by (auto simp: push_file_def)

lemma with_file_ok: "fds_ok env \<Longrightarrow> fds_ok (snd (with_file fd f failed env))"
proof -
  assume ok: "fds_ok env"
  have "map file_fd ((files_of env c)[i := (files_of env c ! i)\<lparr>file_resource := r\<rparr>]) = map file_fd (files_of env c)" for c i r
    by (cases "i < length (files_of env c)") (simp_all add: map_update list_update_same_conv list_update_beyond)
  then have "fds_ok ((set_files env c ((files_of env c)[i := (files_of env c ! i)\<lparr>file_resource := r\<rparr>]))\<lparr>environment := e\<rparr>)" for c i r e
    using fds_ok_files[OF ok, of c] by (simp add: fds_ok_set[OF ok])
  then show ?thesis using ok by (auto simp: with_file_def Let_def split: sum.split prod.split)
qed

lemma get_file_cong: "map file_fd fs = map file_fd gs \<Longrightarrow> get_file fs fd = get_file gs fd"
proof (induction fs fd arbitrary: gs rule: get_file.induct)
  case (2 f fs fd)
  then obtain g gs' where "gs = g # gs'" "file_fd g = file_fd f" "map file_fd fs = map file_fd gs'" by auto
  then show ?case using "2.IH" by simp
qed simp

text \<open>After a call on a descriptor, the descriptor denotes the resource the call left.\<close>

lemma with_file_step:
  assumes "current (contexts env) = Inr c" and "get_file (files_of env c) fd = Inr i"
    and "f (file_resource (files_of env c ! i)) (environment env) = (a, r, e)" and "with_file fd f failed env = (b, env')"
  shows "b = a" and "current (contexts env') = Inr c" and "get_file (files_of env' c) fd = Inr i"
    and "file_resource (files_of env' c ! i) = r" and "environment env' = e"
proof -
  let ?fs = "(files_of env c)[i := (files_of env c ! i)\<lparr>file_resource := r\<rparr>]"
  have i: "i < length (files_of env c)" using get_file_Ok[OF assms(2)] by simp
  have e: "b = a" "env' = (set_files env c ?fs)\<lparr>environment := e\<rparr>"
    using assms by (simp_all add: with_file_def)
  show "b = a" by (rule e)
  show "current (contexts env') = Inr c"
    using assms(1) by (simp add: e set_files_def current_def manager_get_def split: if_splits)
  have fs: "files_of env' c = ?fs" by (simp add: e files_of_def set_files_def)
  have "map file_fd ?fs = map file_fd (files_of env c)" using i by (simp add: map_update list_update_same_conv)
  then show "get_file (files_of env' c) fd = Inr i" using get_file_cong assms(2) fs by metis
  show "file_resource (files_of env' c ! i) = r" using i by (simp add: fs)
  show "environment env' = e" by (simp add: e)
qed

section \<open>Schemes\<close>

lemma with_scheme_None: "with_scheme nm name f ss e = None \<longleftrightarrow> name \<notin> nm ` set ss"
  by (induction nm name f ss e rule: with_scheme.induct) (auto split: prod.splits)

lemma with_scheme_at:
  "name \<notin> nm ` set ss1 \<Longrightarrow> nm s = name \<Longrightarrow>
   with_scheme nm name f (ss1 @ s # ss2) e = (case f s e of (a, s', e') \<Rightarrow> Some (a, ss1 @ s' # ss2, e'))"
  by (induction ss1) (auto split: prod.split)

lemma env_open_contexts [simp]: "contexts (snd (env_open w url flags env)) = contexts env"
  by (auto simp: env_open_def Let_def split: option.split prod.split sum.split)

lemma env_dispatch_contexts [simp]: "contexts (snd (env_dispatch w url f missing env)) = contexts env"
  by (auto simp: env_dispatch_def split: option.split prod.split)

lemma snd_apfst [simp]: "snd (apfst f p) = snd p"
  by (cases p) simp

lemma env_open_ok: "env_open w url flags env = (r, env1) \<Longrightarrow> fds_ok env1 = fds_ok env"
  by (metis env_open_contexts fds_ok_cong snd_conv)

lemma do_sys_open_cases:
  assumes "do_sys_open w path flags env = Some (res, env')"
  obtains (failed) e where "res = Err e" and "contexts env' = contexts env"
  | (opened) c url r env1 fd where "current (contexts env) = Inr c" and "url_from_str (canonicalize (cwd_of env c) path) = Inr url"
      and "env_open w url flags env = (Inr r, env1)" and "push_file env1 c r = Some (fd, env')" and "res = Ok fd"
proof (cases "current (contexts env)")
  case (Inl e)
  then show ?thesis using assms failed[of e] by (auto simp: do_sys_open_def with_url_def)
next
  case c: (Inr c)
  show ?thesis
  proof (cases "url_from_str (canonicalize (cwd_of env c) path)")
    case (Inl e)
    then show ?thesis using assms failed[of e] c by (auto simp: do_sys_open_def with_url_def)
  next
    case url: (Inr url)
    obtain r env1 where o: "env_open w url flags env = (r, env1)" by fastforce
    show ?thesis
    proof (cases r)
      case (Inl e)
      then show ?thesis
        using assms failed[of e] c url o env_open_contexts[of w url flags env] by (auto simp: do_sys_open_def with_url_def)
    next
      case (Inr x)
      then obtain fd where "push_file env1 c x = Some (fd, env')" "res = Ok fd"
        using assms c url o by (auto simp: do_sys_open_def with_url_def)
      then show ?thesis using opened[OF c url] o Inr by blast
    qed
  qed
qed

lemma do_sys_open_ok:
  assumes "do_sys_open w path flags env = Some (res, env')" and "fds_ok env"
  shows "fds_ok env'"
  by (rule do_sys_open_cases[OF assms(1)]) (use assms(2) fds_ok_cong env_open_ok push_file_ok in metis)+

lemma do_sys_pipe2_ok:
  assumes "do_sys_pipe2 null rd wr env = Some (res, env')" and "fds_ok env"
  shows "fds_ok env'"
proof (cases "current (contexts env)")
  case (Inr c)
  show ?thesis
  proof (cases null)
    case False
    then obtain fd0 env0 fd1 where "push_file env c rd = Some (fd0, env0)" "push_file env0 c wr = Some (fd1, env')"
      using assms(1) Inr by (auto simp: do_sys_pipe2_def split: option.splits)
    then show ?thesis using push_file_ok[OF _ push_file_ok[OF _ assms(2)]] by blast
  qed (use assms Inr in \<open>auto simp: do_sys_pipe2_def\<close>)
qed (use assms in \<open>auto simp: do_sys_pipe2_def\<close>)

section \<open>Properties\<close>

text \<open>
  C5. Descriptors stay unique: whatever the schemes and resources do, no file system call puts
  two files with the same descriptor into a table of files.
\<close>

theorem file_calls_keep_descriptors:
  assumes "fds_ok env"
  shows "fds_ok (snd (do_sys_chdir path env)) \<and> fds_ok (snd (do_sys_close fd env))
    \<and> (\<forall>res env'. do_sys_dup w fd env = Some (res, env') \<longrightarrow> fds_ok env')
    \<and> (\<forall>res env'. do_sys_open w path flags env = Some (res, env') \<longrightarrow> fds_ok env')
    \<and> (\<forall>res env'. do_sys_pipe2 null rd wr env = Some (res, env') \<longrightarrow> fds_ok env')
    \<and> fds_ok (snd (do_sys_fsync w fd env)) \<and> fds_ok (snd (do_sys_ftruncate w fd len env))
    \<and> fds_ok (snd (do_sys_lseek w fd off whence env)) \<and> fds_ok (snd (do_sys_read w fd buf env))
    \<and> fds_ok (snd (do_sys_write w fd buf env)) \<and> fds_ok (snd (do_sys_mkdir w path flags env))
    \<and> fds_ok (snd (do_sys_rmdir w path env)) \<and> fds_ok (snd (do_sys_stat w path null st env))
    \<and> fds_ok (snd (do_sys_unlink w path env))"
proof -
  have "fds_ok (snd (do_sys_chdir path env))"
    using assms by (auto simp: do_sys_chdir_def fds_ok_def split: sum.split)
  moreover have "fds_ok (snd (do_sys_close fd env))"
  proof -
    have "distinct (map file_fd (remove_at i (files_of env c)))" for i c
      unfolding map_remove_at by (rule distinct_remove_at[OF fds_ok_files[OF assms]])
    then show ?thesis
      using assms by (auto simp: do_sys_close_def close_loop_spec fds_ok_set split: sum.splits option.splits)
  qed
  moreover have "fds_ok env'" if "do_sys_dup w fd env = Some (res, env')" for res env'
    using that assms push_file_ok[OF _ assms] by (auto simp: do_sys_dup_def split: sum.splits)
  moreover have "fds_ok env'" if "do_sys_pipe2 null rd wr env = Some (res, env')" for res env'
    by (rule do_sys_pipe2_ok[OF that assms])
  moreover have "fds_ok (snd (do_sys_mkdir w path flags env))" "fds_ok (snd (do_sys_rmdir w path env))"
      "fds_ok (snd (do_sys_unlink w path env))" "fds_ok (snd (do_sys_stat w path null st env))"
    using assms
    by (auto simp: do_sys_mkdir_def do_sys_rmdir_def do_sys_unlink_def do_sys_stat_def with_url_def env_mkdir_def
        env_rmdir_def env_unlink_def env_stat_def split: sum.splits prod.splits)
       (metis env_dispatch_contexts fds_ok_cong snd_conv)+
  ultimately show ?thesis
    using do_sys_open_ok[OF _ assms]
    by (auto simp: with_file_ok[OF assms] do_sys_fsync_def do_sys_ftruncate_def do_sys_lseek_def do_sys_read_def do_sys_write_def)
qed

text \<open>A world with in-memory files only: a scheme is a name and the contents of its one file.\<close>

definition demo_world :: "(string \<times> u8 list, VecResource, unit) World" where
  "demo_world =
     \<lparr>resource_ops = vec_resource_ops,
      scheme_ops = \<lparr>s_on_irq = (\<lambda>irq s e. (s, e)), s_name = fst,
        s_open = (\<lambda>url flags s e. (Ok (vec_new (url_to_string url) (snd s)), s, e)),
        s_mkdir = (\<lambda>url flags s e. (kscheme_default, s, e)), s_rmdir = (\<lambda>url s e. (kscheme_default, s, e)),
        s_stat = (\<lambda>url st s e. ((kscheme_default, st), s, e)), s_unlink = (\<lambda>url s e. (kscheme_default, s, e))\<rparr>,
      new_scheme = (\<lambda>name e. (Ok ((name, []), vec_new name []), e)), of_vec = (\<lambda>v. v)\<rparr>"

definition demo_env :: "(string \<times> u8 list, VecResource, unit) Env" where
  "demo_env =
     \<lparr>contexts = \<lparr>kmem = (\<lambda>_. 0), inner = [demo_context 1 False False], enabled = True, cur_i = 0, pid_hint = 2,
        clock_monotonic = \<lparr>secs = 0, nanos = 0\<rparr>, clock_realtime = \<lparr>secs = 0, nanos = 0\<rparr>, tss_sp0 = 0,
        cwd_cell = (\<lambda>_. ''file:/''), mem_cell = (\<lambda>_. []),
        file_cell = (\<lambda>_. [\<lparr>file_fd = 0, file_resource = vec_new ''a'' []\<rparr>]), fresh = 1\<rparr>,
      schemes = [(''file'', [1, 2, 3]), (''debug'', [])], environment = ()\<rparr>"

lemmas demo_env_simps = demo_env_def demo_world_def demo_context_def blank_context_def current_def manager_get_def

theorem file_calls_keep_descriptors_witness:
  "fds_ok demo_env \<and> fds_ok (snd (do_sys_close 0 demo_env))"
proof -
  have "fds_ok demo_env" by (simp add: fds_ok_def demo_env_def)
  then show ?thesis using file_calls_keep_descriptors[of demo_env] by blast
qed

text \<open>
  C13. Opening and closing. With room for another file, \<^verbatim>\<open>open\<close> always returns. When it succeeds the file
  it opened is under the least unused descriptor, every other file is untouched, and
  closing that descriptor gives exactly the old table back.
\<close>

theorem open_close_roundtrip:
  assumes "current (contexts env) = Inr c" and "length (files_of env c) < 2 ^ 32"
  shows "\<exists>res env1. do_sys_open w path flags env = Some (res, env1)
    \<and> (\<forall>fd. res = Ok fd \<longrightarrow> (\<exists>r url. env_open w url flags env = (Ok r, env1\<lparr>contexts := contexts env\<rparr>)
        \<and> files_of env1 c = files_of env c @ [\<lparr>file_fd = fd, file_resource = r\<rparr>]
        \<and> fd \<notin> file_fd ` set (files_of env c) \<and> (\<forall>v < fd. v \<in> file_fd ` set (files_of env c))
        \<and> get_file (files_of env1 c) fd = Ok (length (files_of env c))
        \<and> (\<exists>env2. do_sys_close fd env1 = (Ok 0, env2) \<and> files_of env2 c = files_of env c)))"
proof -
  have ex: "\<exists>res env1. do_sys_open w path flags env = Some (res, env1)"
  proof (cases "url_from_str (canonicalize (cwd_of env c) path)")
    case (Inr url)
    obtain r env1 where o: "env_open w url flags env = (r, env1)" by fastforce
    then have "contexts env1 = contexts env" using env_open_contexts[of w url flags env] by simp
    then have "length (files_of env1 c) < 2 ^ 32" using assms(2) by (simp add: files_of_def)
    then show ?thesis
      using assms(1) Inr o push_file_total[of env1 c] by (cases r) (force simp: do_sys_open_def with_url_def)+
  qed (use assms(1) in \<open>simp add: do_sys_open_def with_url_def\<close>)
  then obtain res env1 where o: "do_sys_open w path flags env = Some (res, env1)" by blast
  have "\<exists>r url. env_open w url flags env = (Ok r, env1\<lparr>contexts := contexts env\<rparr>)
        \<and> files_of env1 c = files_of env c @ [\<lparr>file_fd = fd, file_resource = r\<rparr>]
        \<and> fd \<notin> file_fd ` set (files_of env c) \<and> (\<forall>v < fd. v \<in> file_fd ` set (files_of env c))
        \<and> get_file (files_of env1 c) fd = Ok (length (files_of env c))
        \<and> (\<exists>env2. do_sys_close fd env1 = (Ok 0, env2) \<and> files_of env2 c = files_of env c)"
    if res: "res = Ok fd" for fd
  proof -
    from o res obtain url r env0 where e: "env_open w url flags env = (Inr r, env0)" "push_file env0 c r = Some (fd, env1)"
      by (cases rule: do_sys_open_cases) (use assms(1) in auto)
    have ctx: "contexts env0 = contexts env" using env_open_contexts[of w url flags env] e(1) by simp
    then have same: "files_of env0 c = files_of env c" by (simp add: files_of_def)
    have p: "fd \<notin> file_fd ` set (files_of env c)" "env1 = set_files env0 c (files_of env c @ [\<lparr>file_fd = fd, file_resource = r\<rparr>])"
      using push_file_Some[OF e(2)] by (simp_all add: same)
    have least: "\<forall>v < fd. v \<in> file_fd ` set (files_of env c)"
      using next_fd_fresh[OF assms(2)] e(2) by (auto simp: push_file_def same)
    have f1: "files_of env1 c = files_of env c @ [\<lparr>file_fd = fd, file_resource = r\<rparr>]"
      by (simp add: p(2) files_of_def set_files_def)
    have g: "get_file (files_of env1 c) fd = Ok (length (files_of env c))"
      using p(1) by (simp add: f1 get_file_append)
    have "current (contexts env1) = Inr c"
      using assms(1) by (simp add: p(2) set_files_def ctx current_def manager_get_def split: if_splits)
    then have "do_sys_close fd env1 = (Ok 0, set_files env1 c (files_of env c))"
      using g by (simp add: do_sys_close_def close_loop_spec f1 remove_at_last)
    moreover have "env1\<lparr>contexts := contexts env\<rparr> = env0" by (simp add: p(2) set_files_def ctx[symmetric])
    ultimately show ?thesis
      using e(1) f1 p(1) least g by (intro exI[of _ r] exI[of _ url]) (simp add: files_of_def set_files_def)
  qed
  then show ?thesis using o by blast
qed

theorem open_close_roundtrip_witness:
  "\<exists>env1. do_sys_open demo_world ''x'' 0 demo_env = Some (Ok 1, env1)
     \<and> (\<exists>env2. do_sys_close 1 env1 = (Ok 0, env2) \<and> file_cell (contexts env2) 0 = file_cell (contexts demo_env) 0)"
proof -
  let ?c = "demo_context 1 False False"
  have st: "current (contexts demo_env) = Inr ?c" "length (files_of demo_env ?c) < 2 ^ 32" "files ?c = 0"
    by (simp_all add: demo_env_simps files_of_def)
  have "map_option fst (do_sys_open demo_world ''x'' 0 demo_env) = Some (Ok 1)"
    by (simp add: demo_env_simps do_sys_open_def with_url_def cwd_of_def canonicalize_def url_from_str_def env_open_def
        slice_to_def slice_from_def push_file_def next_fd_def files_of_def Let_def)
  then show ?thesis
    using open_close_roundtrip[OF st(1,2), of demo_world "''x''" 0] st(3) by (auto simp: files_of_def)
qed

text \<open>
  C31. Reading back through the system calls: after \<^verbatim>\<open>write\<close> on a descriptor of an in-memory file,
  \<^verbatim>\<open>lseek\<close> to the position before the write and \<^verbatim>\<open>read\<close> of as many bytes, the buffer holds exactly
  the bytes written, and every call reports the right count.
\<close>

theorem write_seek_read:
  assumes "resource_ops w = vec_resource_ops" and "current (contexts env) = Inr c" and "get_file (files_of env c) fd = Inr i"
    and "r = file_resource (files_of env c ! i)" and "vec_inv r" and "vr_seek r < 2 ^ 32" and "length buf = length data"
    and "do_sys_write w fd data env = (res1, env1)"
    and "do_sys_lseek w fd (of_nat (vr_seek r)) SEEK_SET env1 = (res2, env2)"
    and "do_sys_read w fd buf env2 = (res3, env3)"
  shows "res1 = Ok (of_nat (length data)) \<and> res2 = Ok (of_nat (vr_seek r)) \<and> res3 = (Ok (of_nat (length data)), data)"
proof -
  define r1 where "r1 = r\<lparr>vr_data := take (vr_seek r) (vr_data r) @ data @ drop (vr_seek r + length data) (vr_data r),
    vr_seek := vr_seek r + length data\<rparr>"
  have w1: "r_write (resource_ops w) data r (environment env) = (Ok (of_nat (length data)), r1, environment env)"
    using assms(5) by (simp add: assms(1) vec_resource_ops_def vec_write_eq r1_def result_usize_def)
  note s1 = with_file_step[OF assms(2,3) _ assms(8)[unfolded do_sys_write_def], unfolded assms(4)[symmetric], OF w1]
  define r2 where "r2 = r1\<lparr>vr_seek := vr_seek r\<rparr>"
  have "vec_inv r2" "vr_seek r \<le> length (vr_data r1)" using assms(5) by (simp_all add: r2_def r1_def vec_inv_def)
  then have "vec_seek r1 (SeekStart (of_nat (vr_seek r))) = (Ok (vr_seek r), r2)"
    using assms(6) by (simp add: vec_seek_def r2_def unat_of_nat_lt Let_def)
  then have w2: "(if SEEK_SET = SEEK_SET then r_seek (resource_ops w) (SeekStart (of_nat (vr_seek r))) r1 (environment env1)
       else if SEEK_SET = SEEK_CUR then r_seek (resource_ops w) (SeekCurrent (of_nat (vr_seek r))) r1 (environment env1)
       else if SEEK_SET = SEEK_END then r_seek (resource_ops w) (SeekEnd (of_nat (vr_seek r))) r1 (environment env1)
       else (Err EINVAL, r1, environment env1)) = (Ok (of_nat (vr_seek r)), r2, environment env1)"
    by (simp add: assms(1) vec_resource_ops_def result_usize_def)
  note s2 = with_file_step[OF s1(2,3) _ assms(9)[unfolded do_sys_lseek_def], unfolded s1(4), OF w2]
  have "vec_read r2 buf = (Ok (length data), data, r2\<lparr>vr_seek := vr_seek r + length data\<rparr>)"
    using assms(5,7) by (simp add: vec_read_eq r2_def r1_def vec_inv_def Let_def)
  then have w3: "r_read (resource_ops w) buf r2 (environment env2) =
      ((Ok (of_nat (length data)), data), r2\<lparr>vr_seek := vr_seek r + length data\<rparr>, environment env2)"
    by (simp add: assms(1) vec_resource_ops_def result_usize_def)
  note s3 = with_file_step[OF s2(2,3) _ assms(10)[unfolded do_sys_read_def], unfolded s2(4), OF w3]
  show ?thesis using s1(1) s2(1) s3(1) by simp
qed

theorem write_seek_read_witness:
  "\<exists>env1 env2 env3. do_sys_write demo_world 0 [7, 8] demo_env = (Ok 2, env1)
     \<and> do_sys_lseek demo_world 0 0 SEEK_SET env1 = (Ok 0, env2)
     \<and> do_sys_read demo_world 0 [0, 0] env2 = ((Ok 2, [7, 8]), env3)"
proof -
  let ?c = "demo_context 1 False False"
  obtain res1 env1 where 1: "do_sys_write demo_world 0 [7, 8] demo_env = (res1, env1)" by fastforce
  obtain res2 env2 where 2: "do_sys_lseek demo_world 0 (of_nat (vr_seek (vec_new ''a'' []))) SEEK_SET env1 = (res2, env2)" by fastforce
  obtain res3 env3 where 3: "do_sys_read demo_world 0 [0, 0] env2 = (res3, env3)" by fastforce
  have st: "resource_ops demo_world = vec_resource_ops" "current (contexts demo_env) = Inr ?c"
    "get_file (files_of demo_env ?c) 0 = Inr 0" "vec_new ''a'' [] = file_resource (files_of demo_env ?c ! 0)"
    "vec_inv (vec_new ''a'' [])" "vr_seek (vec_new ''a'' []) < 2 ^ 32" "length [0, 0 :: u8] = length [7, 8 :: u8]"
    by (simp_all add: demo_env_simps files_of_def vec_inv_def vec_new_def)
  from write_seek_read[OF st 1 2 3] 1 2 3 show ?thesis by (simp add: vec_new_def)
qed

text \<open>
  C32. Errors of the file system calls: on a descriptor that is not open every call fails with
  \<^verbatim>\<open>EBADF\<close>, without a current context with \<^verbatim>\<open>ESRCH\<close>; a call that fails in one of these ways
  changes nothing.
\<close>

theorem file_call_errors:
  assumes "err = (if current (contexts env) = Err ESRCH then ESRCH else EBADF)"
    and "\<forall>c. current (contexts env) = Inr c \<longrightarrow> fd \<notin> file_fd ` set (files_of env c)"
  shows "do_sys_close fd env = (Err err, env) \<and> do_sys_dup w fd env = Some (Err err, env)
    \<and> do_sys_fpath w fd buf env = (Err err, buf) \<and> do_sys_fstat w fd null st env = (Err err, st)
    \<and> do_sys_fsync w fd env = (Err err, env) \<and> do_sys_ftruncate w fd len env = (Err err, env)
    \<and> do_sys_lseek w fd off whence env = (Err err, env) \<and> do_sys_read w fd buf env = ((Err err, buf), env)
    \<and> do_sys_write w fd buf env = (Err err, env)"
proof (cases "current (contexts env)")
  case (Inl e)
  then have "e = ESRCH" by (auto simp: current_def manager_get_def split: if_splits)
  then show ?thesis
    using Inl assms(1)
    by (simp add: do_sys_close_def do_sys_dup_def do_sys_fpath_def do_sys_fstat_def do_sys_fsync_def do_sys_ftruncate_def
        do_sys_lseek_def do_sys_read_def do_sys_write_def with_file_def)
next
  case (Inr c)
  have g: "get_file (files_of env c) fd = Err EBADF" using get_file_Err[of "files_of env c" fd] assms(2) Inr by simp
  then show ?thesis
    using Inr assms(1)
    by (simp add: do_sys_close_def do_sys_dup_def do_sys_fpath_def do_sys_fstat_def do_sys_fsync_def do_sys_ftruncate_def
        do_sys_lseek_def do_sys_read_def do_sys_write_def with_file_def close_loop_spec)
qed

theorem file_call_errors_witness:
  "do_sys_write demo_world 5 [1] demo_env = (Err EBADF, demo_env) \<and> do_sys_close 5 demo_env = (Err EBADF, demo_env)"
proof -
  have c: "current (contexts demo_env) = Inr (demo_context 1 False False)" by (simp add: demo_env_simps)
  have "\<forall>c. current (contexts demo_env) = Inr c \<longrightarrow> 5 \<notin> file_fd ` set (files_of demo_env c)"
    by (simp add: demo_env_def files_of_def)
  from file_call_errors[OF refl this] c show ?thesis by simp
qed

text \<open>
  Requests reach the scheme they name. If some scheme has the URL's (non-empty) scheme as its
  name, \<^verbatim>\<open>open\<close> and \<^verbatim>\<open>unlink\<close> are answered by the first such scheme, and only its state may change; if
  none has, they and the other requests fail with \<^verbatim>\<open>ENOENT\<close> and nothing changes. Creating a
  scheme whose name is taken fails with \<^verbatim>\<open>EEXIST\<close>.
\<close>

theorem scheme_dispatch:
  assumes "nm = s_name (scheme_ops w)"
  shows "(schemes env = ss1 @ s # ss2 \<and> nm s = url_scheme url \<and> url_scheme url \<noteq> [] \<and> url_scheme url \<notin> nm ` set ss1 \<longrightarrow>
      (case s_open (scheme_ops w) url flags s (environment env) of (r, s', e) \<Rightarrow>
         env_open w url flags env = (r, env\<lparr>schemes := ss1 @ s' # ss2, environment := e\<rparr>))
      \<and> (case s_unlink (scheme_ops w) url s (environment env) of (r, s', e) \<Rightarrow>
         env_unlink w url env = (r, env\<lparr>schemes := ss1 @ s' # ss2, environment := e\<rparr>)))
    \<and> (url_scheme url \<noteq> [] \<and> url_scheme url \<notin> nm ` set (schemes env) \<longrightarrow>
      env_open w url flags env = (Err ENOENT, env) \<and> env_mkdir w url flags env = (Err ENOENT, env)
      \<and> env_rmdir w url env = (Err ENOENT, env) \<and> env_unlink w url env = (Err ENOENT, env)
      \<and> env_stat w url st env = ((Err ENOENT, st), env))
    \<and> (url_scheme url = [] \<and> \<not> only_slashes (url_reference url) \<and> url_reference url \<in> nm ` set (schemes env) \<longrightarrow>
      env_open w url O_CREAT env = (Err EEXIST, env))"
proof (intro conjI impI)
  assume a: "schemes env = ss1 @ s # ss2 \<and> nm s = url_scheme url \<and> url_scheme url \<noteq> [] \<and> url_scheme url \<notin> nm ` set ss1"
  then show "case s_open (scheme_ops w) url flags s (environment env) of (r, s', e) \<Rightarrow>
         env_open w url flags env = (r, env\<lparr>schemes := ss1 @ s' # ss2, environment := e\<rparr>)"
    using assms by (auto simp: env_open_def Let_def with_scheme_at split: prod.split)
  show "case s_unlink (scheme_ops w) url s (environment env) of (r, s', e) \<Rightarrow>
         env_unlink w url env = (r, env\<lparr>schemes := ss1 @ s' # ss2, environment := e\<rparr>)"
    using a assms by (auto simp: env_unlink_def env_dispatch_def with_scheme_at split: prod.split)
next
  assume a: "url_scheme url \<noteq> [] \<and> url_scheme url \<notin> nm ` set (schemes env)"
  then show "env_open w url flags env = (Err ENOENT, env)" "env_mkdir w url flags env = (Err ENOENT, env)"
    "env_rmdir w url env = (Err ENOENT, env)" "env_unlink w url env = (Err ENOENT, env)"
    "env_stat w url st env = ((Err ENOENT, st), env)"
    using a assms
    by (simp_all add: env_open_def env_mkdir_def env_rmdir_def env_unlink_def env_stat_def env_dispatch_def with_scheme_None
        option.case_eq_if Let_def)
next
  assume "url_scheme url = [] \<and> \<not> only_slashes (url_reference url) \<and> url_reference url \<in> nm ` set (schemes env)"
  then show "env_open w url O_CREAT env = (Err EEXIST, env)"
    using assms by (auto simp: env_open_def Let_def list_ex_iff)
qed

theorem scheme_dispatch_witness:
  "env_open demo_world \<lparr>url_scheme = ''nowhere'', url_reference = ''x''\<rparr> 0 demo_env = (Err ENOENT, demo_env)
   \<and> env_open demo_world \<lparr>url_scheme = [], url_reference = ''debug''\<rparr> O_CREAT demo_env = (Err EEXIST, demo_env)"
  using scheme_dispatch[of fst demo_world demo_env "[]" _ _ "\<lparr>url_scheme = ''nowhere'', url_reference = ''x''\<rparr>" 0]
    scheme_dispatch[of fst demo_world demo_env "[]" _ _ "\<lparr>url_scheme = [], url_reference = ''debug''\<rparr>" O_CREAT]
  by (simp add: demo_world_def demo_env_def only_slashes_def)

end
