(* ===== verification/Bytes.thy ===== *)
theory Bytes
  imports Prelude
begin

text \<open>
  Words as sequences of bytes, little-endian as the processor stores them and big-endian as they
  travel on the network; the packed structures of the system are concatenations of these.
\<close>

definition le_bytes :: "nat \<Rightarrow> 'a::len word \<Rightarrow> u8 list" where
  "le_bytes n w = map (\<lambda>k. ucast (drop_bit (8 * k) w)) [0..<n]"

definition le_word :: "u8 list \<Rightarrow> 'a::len word" where
  "le_word bs = foldr (\<lambda>b w. ucast b OR push_bit 8 w) bs 0"

definition be_bytes :: "nat \<Rightarrow> 'a::len word \<Rightarrow> u8 list" where
  "be_bytes n w = rev (le_bytes n w)"

definition be_word :: "u8 list \<Rightarrow> 'a::len word" where
  "be_word bs = le_word (rev bs)"

lemma length_le_bytes [simp]: "length (le_bytes n w) = n"
  by (simp add: le_bytes_def)

lemma length_be_bytes [simp]: "length (be_bytes n w) = n"
  by (simp add: be_bytes_def)

lemma le_step:
  fixes v :: "'a::len word"
  shows "ucast (ucast v :: u8) OR push_bit 8 (take_bit (8 * n) (drop_bit 8 v)) = take_bit (8 * Suc n) v"
  by (rule bit_word_eqI) (auto simp: bit_simps)

lemma le_fold:
  fixes w :: "'a::len word"
  shows "foldr (\<lambda>b w. ucast b OR push_bit 8 w) (map (\<lambda>k. ucast (drop_bit (8 * k) w) :: u8) [a..<a + n]) 0 =
    take_bit (8 * n) (drop_bit (8 * a) w)"
proof (induction n arbitrary: a)
  case (Suc n)
  have "[a..<a + Suc n] = a # [Suc a..<Suc a + n]" by (simp add: upt_rec)
  moreover have "drop_bit (8 * Suc a) w = drop_bit 8 (drop_bit (8 * a) w)"
    by (simp add: add.commute)
  ultimately show ?case
    using le_step[of "drop_bit (8 * a) w" n] by (simp only: foldr.simps list.map o_apply Suc.IH)
qed simp

lemma le_word_le_bytes:
  fixes w :: "'a::len word"
  assumes "LENGTH('a) \<le> 8 * n"
  shows "le_word (le_bytes n w) = w"
  using le_fold[of w 0 n] assms by (simp add: le_word_def le_bytes_def take_bit_word_eq_self)

lemma be_word_be_bytes:
  fixes w :: "'a::len word"
  assumes "LENGTH('a) \<le> 8 * n"
  shows "be_word (be_bytes n w) = w"
  using le_word_le_bytes[OF assms] by (simp add: be_word_def be_bytes_def)

text \<open>The other direction: bytes that fit in the word come back.\<close>

lemma le_bytes_Suc: "le_bytes (Suc n) w = ucast w # le_bytes n (drop_bit 8 w)"
proof -
  have "[0..<Suc n] = 0 # map Suc [0..<n]" by (simp add: upt_conv_Cons map_Suc_upt)
  then show ?thesis by (simp add: le_bytes_def add.commute del: upt_Suc)
qed

lemma le_bytes_le_word:
  assumes "8 * length bs \<le> LENGTH('a::len)"
  shows "le_bytes (length bs) (le_word bs :: 'a word) = bs"
  using assms
proof (induction bs)
  case (Cons b bs)
  let ?w = "le_word bs :: 'a word"
  have len: "8 \<le> LENGTH('a)" "8 * length bs + 8 \<le> LENGTH('a)" using Cons.prems by auto
  have bits: "\<not> bit ?w i" if "8 * length bs \<le> i" for i
    using that
  proof (induction bs arbitrary: i)
    case (Cons b bs)
    then show ?case by (auto simp: le_word_def bit_simps dest: bit_imp_le_length)
  qed (simp add: le_word_def)
  have e: "le_word (b # bs) = ucast b OR push_bit 8 ?w" by (simp add: le_word_def)
  have "ucast (ucast b OR push_bit 8 ?w) = b"
    using len by (intro bit_word_eqI) (auto simp: bit_simps dest: bit_imp_le_length)
  moreover have "drop_bit 8 (ucast b OR push_bit 8 ?w) = ?w"
    using len bits by (intro bit_word_eqI) (auto simp: bit_simps not_le[symmetric] dest: bit_imp_le_length)
  ultimately show ?case using Cons by (simp add: e le_bytes_Suc)
qed (simp add: le_bytes_def)

lemma be_bytes_be_word:
  assumes "8 * length bs \<le> LENGTH('a::len)"
  shows "be_bytes (length bs) (be_word bs :: 'a word) = bs"
  using le_bytes_le_word[of "rev bs", where 'a = 'a] assms by (simp add: be_bytes_def be_word_def)

end
