(* ===== verification/Ipc.thy ===== *)
theory Ipc
  imports Sync Resource Bytes UserMemory
begin

text \<open>
  Schemes served by user programs (\<^verbatim>\<open>kernel/fs/scheme.rs\<close>, \<^verbatim>\<open>crates/system/scheme.rs\<close>).
  A request of a client becomes a packet in the queue \<^verbatim>\<open>todo\<close>; the server reads packets, handles
  them and writes them back; the kernel files the answers in the map \<^verbatim>\<open>done\<close> under the
  packet's number, where the client waits for its own. Buffers and paths are mapped
  into the server's memory for the time of a request. A request is two functions, what
  happens before the client waits for its answer and what happens when it has it.
\<close>

section \<open>Packets\<close>

record Packet =
  pk_id :: usize
  pk_a :: usize
  pk_b :: usize
  pk_c :: usize
  pk_d :: usize

definition SIZE_OF_PACKET :: nat where "SIZE_OF_PACKET = 20"

definition packet_bytes :: "Packet \<Rightarrow> u8 list" where
  "packet_bytes p =
     le_bytes 4 (pk_id p) @ le_bytes 4 (pk_a p) @ le_bytes 4 (pk_b p) @ le_bytes 4 (pk_c p) @ le_bytes 4 (pk_d p)"

definition bytes_packet :: "u8 list \<Rightarrow> Packet" where
  "bytes_packet bs =
     \<lparr>pk_id = le_word (take 4 bs), pk_a = le_word (take 4 (drop 4 bs)), pk_b = le_word (take 4 (drop 8 bs)),
      pk_c = le_word (take 4 (drop 12 bs)), pk_d = le_word (take 4 (drop 16 bs))\<rparr>"

section \<open>The two ends of a scheme\<close>

type_synonym answer = "usize \<times> usize \<times> usize \<times> usize"

text \<open>The raw pointer to the serving context is kept as its pid.\<close>

record SchemeInner =
  sc_name :: string
  sc_context :: usize
  next_id :: usize
  todo :: "Packet WaitQueue"
  served :: "(usize, answer) WaitMap"

definition inner_new :: "string \<Rightarrow> usize \<Rightarrow> SchemeInner" where
  "inner_new name c = \<lparr>sc_name = name, sc_context = c, next_id = 1, todo = queue_new, served = map_new\<rparr>"

text \<open>
  \<^verbatim>\<open>SchemeInner::call\<close>: the packet is sent and its number returned; then one attempt to receive the
  answer, \<^term>\<open>None\<close> when the client has to wait. The weak reference of the client is an
  argument: \<^term>\<open>None\<close> when the server is gone.
\<close>

definition call_send ::
  "usize \<Rightarrow> usize \<Rightarrow> usize \<Rightarrow> usize \<Rightarrow> SchemeInner \<Rightarrow> 'r Kernel \<Rightarrow> usize \<times> SchemeInner \<times> 'r Kernel" where
  "call_send a b c d s k =
     (let id = next_id s;
          n = id + 1;
          n = (if n \<le> 0 then 1 else n);
          (q, k) = queue_send \<lparr>pk_id = id, pk_a = a, pk_b = b, pk_c = c, pk_d = d\<rparr> (todo s) k
      in (id, s\<lparr>next_id := n, todo := q\<rparr>, k))"

definition call_receive :: "usize \<Rightarrow> SchemeInner \<Rightarrow> 'r Kernel \<Rightarrow> usize result option \<times> SchemeInner \<times> 'r Kernel" where
  "call_receive rid s k =
     (let (v, m, k) = map_receive rid (served s) k in (map_option (\<lambda>r. demux (fst r)) v, s\<lparr>served := m\<rparr>, k))"

definition inner_call ::
  "SchemeInner option \<Rightarrow> usize \<Rightarrow> usize \<Rightarrow> usize \<Rightarrow> usize \<Rightarrow> 'r Kernel \<Rightarrow> usize result \<times> SchemeInner option \<times> 'r Kernel" where
  "inner_call w a b c d k =
     (case w of
        Some s \<Rightarrow> (let (id, s, k) = call_send a b c d s k in (Ok id, Some s, k))
      | None \<Rightarrow> (Err EBADF, None, k))"

text \<open>The server's side: reading requests, at least one, as many as fit; writing answers.\<close>

fun pop_packets :: "nat \<Rightarrow> Packet list \<Rightarrow> Packet list \<times> Packet list" where
  "pop_packets 0 q = ([], q)"
| "pop_packets (Suc n) [] = ([], [])"
| "pop_packets (Suc n) (p # q) = (let (ps, q) = pop_packets n q in (p # ps, q))"

definition server_read ::
  "u8 list \<Rightarrow> SchemeInner \<Rightarrow> 'r Kernel \<Rightarrow> (nat result \<times> u8 list) option \<times> SchemeInner \<times> 'r Kernel" where
  "server_read buf s k =
     (if length buf \<ge> SIZE_OF_PACKET then
        (let (v, q, k) = queue_receive (todo s) k
         in case v of
              None \<Rightarrow> (None, s\<lparr>todo := q\<rparr>, k)
            | Some p \<Rightarrow>
                (let (ps, rest) = pop_packets (length buf div SIZE_OF_PACKET - 1) (wait_inner q);
                     bs = concat (map packet_bytes (p # ps))
                 in (Some (Ok (length bs), bs @ drop (length bs) buf), s\<lparr>todo := q\<lparr>wait_inner := rest\<rparr>\<rparr>, k)))
      else (Some (Err EINVAL, buf), s, k))"

definition file_answer :: "Packet \<Rightarrow> SchemeInner \<Rightarrow> 'r Kernel \<Rightarrow> SchemeInner \<times> 'r Kernel" where
  "file_answer p s k =
     (let (m, k) = map_send (pk_id p) (pk_a p, pk_b p, pk_c p, pk_d p) (served s) k in (s\<lparr>served := m\<rparr>, k))"

function server_write_loop :: "u8 list \<Rightarrow> nat \<Rightarrow> SchemeInner \<Rightarrow> 'r Kernel \<Rightarrow> nat \<times> SchemeInner \<times> 'r Kernel" where
  "server_write_loop buf i s k =
     (if i + SIZE_OF_PACKET \<le> length buf then
        (let (s, k) = file_answer (bytes_packet (drop i buf)) s k in server_write_loop buf (i + SIZE_OF_PACKET) s k)
      else (i, s, k))"
  by pat_completeness auto
termination
  by (relation "measure (\<lambda>(buf, i, s, k). length buf - i)") (auto simp: SIZE_OF_PACKET_def)

definition server_write :: "u8 list \<Rightarrow> SchemeInner \<Rightarrow> 'r Kernel \<Rightarrow> nat result \<times> SchemeInner \<times> 'r Kernel" where
  "server_write buf s k =
     (if length buf \<ge> SIZE_OF_PACKET then (let (i, s, k) = server_write_loop buf 0 s k in (Ok i, s, k))
      else (Err EINVAL, s, k))"

function name_loop :: "u8 list \<Rightarrow> u8 list \<Rightarrow> nat \<Rightarrow> nat \<times> u8 list" where
  "name_loop path buf i =
     (if i < length buf \<and> i - 1 < length path then name_loop path (buf[i := path ! (i - 1)]) (i + 1) else (i, buf))"
  by pat_completeness auto
termination by (relation "measure (\<lambda>(path, buf, i). length buf - i)") auto

definition server_path :: "u8 list \<Rightarrow> SchemeInner \<Rightarrow> nat result \<times> u8 list" where
  "server_path buf s =
     (let (i, buf) = copy_loop (as_bytes '':'') buf 0; (i, buf) = name_loop (as_bytes (sc_name s)) buf i in (Ok i, buf))"

definition server_seek :: "nat result" where "server_seek = Err ESPIPE"
definition server_sync :: "unit result" where "server_sync = Err EINVAL"
definition server_truncate :: "unit result" where "server_truncate = Err EINVAL"

text \<open>Dropping the last reference to a scheme removes it from the environment's list.\<close>

definition inner_drop :: "('s \<Rightarrow> string) \<Rightarrow> SchemeInner \<Rightarrow> 's list \<Rightarrow> 's list" where
  "inner_drop nm s ss = filter (\<lambda>x. nm x \<noteq> sc_name s) ss"

section \<open>Lending memory to the server\<close>

text \<open>
  The serving context behind the raw pointer. Where no context has that pid the pointer dangles, and
  what the code then does is undefined; the functions below answer with their error there, and
  the properties assume a serving context.
\<close>

definition server_context :: "'r Kernel \<Rightarrow> SchemeInner \<Rightarrow> Context option" where
  "server_context k s = find (\<lambda>c. pid c = sc_context s) (inner k)"

definition lend :: "usize \<Rightarrow> usize \<Rightarrow> bool \<Rightarrow> Context \<Rightarrow> 'r Kernel \<Rightarrow> usize \<times> 'r Kernel" where
  "lend phys sz wr srv k =
     (let va = next_mem (segs_of k srv)
      in (va, set_segs k srv (segs_of k srv @
            [\<lparr>physical_address = phys, virtual_address = va, virtual_size = sz, writeable = wr, allocated = False\<rparr>])))"

definition take_back :: "usize \<Rightarrow> Context \<Rightarrow> 'r Kernel \<Rightarrow> 'r Kernel" where
  "take_back va srv k =
     clean_segs
       (case get_mem (segs_of k srv) va of
          Inr i \<Rightarrow> set_segs k srv ((segs_of k srv)[i := (segs_of k srv ! i)\<lparr>virtual_size := 0\<rparr>])
        | Inl _ \<Rightarrow> k) srv"

text \<open>
  \<^verbatim>\<open>path\<close>, \<^verbatim>\<open>read\<close> and \<^verbatim>\<open>write\<close> of a client's resource, up to the wait: the buffer at
  \<^term>\<open>p\<close> is translated, the pages it lies on are lent to the server, and the call \<^term>\<open>nr\<close> is sent with
  the address in the server's space. The result names the packet and the lent address.
\<close>

definition buffer_call ::
  "usize \<Rightarrow> usize \<Rightarrow> usize \<Rightarrow> usize \<Rightarrow> SchemeInner option \<Rightarrow> 'r Kernel \<Rightarrow> (usize \<times> usize) result \<times> SchemeInner option \<times> 'r Kernel" where
  "buffer_call nr file_id p len w k =
     (case current k of
        Inl e \<Rightarrow> (Err e, w, k)
      | Inr c \<Rightarrow>
          (case translate (ctx_stack c) (segs_of k c) p len of
             Inl _ \<Rightarrow> (Err EFAULT, w, k)
           | Inr phys \<Rightarrow>
               (let offset = phys mod 4096;
                    sz = (len + offset + 4095) div 4096 * 4096
                in case w of
                     None \<Rightarrow> (Err EBADF, w, k)
                   | Some s \<Rightarrow>
                       (case server_context k s of
                          None \<Rightarrow> (Err EBADF, w, k)
                        | Some srv \<Rightarrow>
                            (let (va, k) = lend (phys - offset) sz True srv k
                             in if va > 0
                                then (let (id, s, k) = call_send nr file_id (va + offset) len s k
                                      in (Ok (id, va), Some s, k))
                                else (Err EBADF, w, k))))))"

text \<open>The same for the calls on paths, with the text of the URL at the physical address \<^term>\<open>phys\<close>.\<close>

definition path_call ::
  "usize \<Rightarrow> usize \<Rightarrow> usize \<Rightarrow> usize \<Rightarrow> SchemeInner option \<Rightarrow> 'r Kernel \<Rightarrow> (usize \<times> usize) result \<times> SchemeInner option \<times> 'r Kernel" where
  "path_call nr phys len arg w k =
     (case w of
        None \<Rightarrow> (Err ENOENT, w, k)
      | Some s \<Rightarrow>
          (case server_context k s of
             None \<Rightarrow> (Err ENOENT, w, k)
           | Some srv \<Rightarrow>
               (let (va, k) = lend phys len False srv k
                in if va > 0
                   then (let (id, s, k) = call_send nr va arg 0 s k in (Ok (id, va), Some s, k))
                   else (Err ENOENT, w, k))))"

text \<open>When the answer is there, the lent memory is taken back.\<close>

definition call_finish :: "usize \<Rightarrow> usize \<Rightarrow> SchemeInner \<Rightarrow> 'r Kernel \<Rightarrow> usize result option \<times> SchemeInner \<times> 'r Kernel" where
  "call_finish rid va s k =
     (let (r, s, k) = call_receive rid s k
      in case r of
           None \<Rightarrow> (None, s, k)
         | Some res \<Rightarrow>
             (Some res, s, case server_context k s of Some srv \<Rightarrow> take_back va srv k | None \<Rightarrow> k))"

definition resource_path where "resource_path = buffer_call SYS_FPATH"
definition resource_read where "resource_read = buffer_call SYS_READ"
definition resource_write where "resource_write = buffer_call SYS_WRITE"

definition seek_args :: "ResourceSeek \<Rightarrow> usize \<times> usize" where
  "seek_args p = (case p of SeekStart off \<Rightarrow> (SEEK_SET, off) | SeekCurrent off \<Rightarrow> (SEEK_CUR, off) | SeekEnd off \<Rightarrow> (SEEK_END, off))"

definition resource_seek :: "ResourceSeek \<Rightarrow> usize \<Rightarrow> SchemeInner option \<Rightarrow> 'r Kernel \<Rightarrow> usize result \<times> SchemeInner option \<times> 'r Kernel" where
  "resource_seek p file_id w k = (let (whence, off) = seek_args p in inner_call w SYS_LSEEK file_id off whence k)"

definition resource_sync :: "usize \<Rightarrow> SchemeInner option \<Rightarrow> 'r Kernel \<Rightarrow> usize result \<times> SchemeInner option \<times> 'r Kernel" where
  "resource_sync file_id w k = inner_call w SYS_FSYNC file_id 0 0 k"

definition resource_truncate :: "usize \<Rightarrow> usize \<Rightarrow> SchemeInner option \<Rightarrow> 'r Kernel \<Rightarrow> usize result \<times> SchemeInner option \<times> 'r Kernel" where
  "resource_truncate len file_id w k = inner_call w SYS_FTRUNCATE file_id len 0 k"

definition resource_drop :: "usize \<Rightarrow> SchemeInner option \<Rightarrow> 'r Kernel \<Rightarrow> usize result \<times> SchemeInner option \<times> 'r Kernel" where
  "resource_drop file_id w k = inner_call w SYS_CLOSE file_id 0 0 k"

definition resource_dup :: "'a result" where "resource_dup = Err EBADF"

definition scheme_open where "scheme_open phys len flags = path_call SYS_OPEN phys len flags"
definition scheme_mkdir where "scheme_mkdir phys len flags = path_call SYS_MKDIR phys len flags"
definition scheme_rmdir where "scheme_rmdir phys len = path_call SYS_RMDIR phys len 0"
definition scheme_unlink where "scheme_unlink phys len = path_call SYS_UNLINK phys len 0"

definition scheme_new :: "string \<Rightarrow> 'r Kernel \<Rightarrow> SchemeInner result" where
  "scheme_new name k = (case current k of Inl e \<Rightarrow> Err e | Inr c \<Rightarrow> Ok (inner_new name (pid c)))"

section \<open>The server program\<close>

text \<open>
  \<^verbatim>\<open>Scheme::handle\<close> in the server: the packet's first word selects the operation, and the encoded
  result replaces it. The operations of the server are a table over its state \<^typ>\<open>'t\<close>; what
  the pointers in a packet denote is part of that state.
\<close>

datatype Request =
  RqOpen usize usize usize | RqMkdir usize usize | RqRmdir usize | RqUnlink usize
| RqRead usize usize usize | RqWrite usize usize usize | RqSeek usize usize usize | RqFpath usize usize usize
| RqFstat usize usize | RqFsync usize | RqFtruncate usize usize | RqClose usize | RqUnknown

definition packet_request :: "Packet \<Rightarrow> Request" where
  "packet_request p =
     (if pk_a p = SYS_OPEN then RqOpen (pk_b p) (pk_c p) (pk_d p)
      else if pk_a p = SYS_MKDIR then RqMkdir (pk_b p) (pk_c p)
      else if pk_a p = SYS_RMDIR then RqRmdir (pk_b p)
      else if pk_a p = SYS_UNLINK then RqUnlink (pk_b p)
      else if pk_a p = SYS_READ then RqRead (pk_b p) (pk_c p) (pk_d p)
      else if pk_a p = SYS_WRITE then RqWrite (pk_b p) (pk_c p) (pk_d p)
      else if pk_a p = SYS_LSEEK then RqSeek (pk_b p) (pk_c p) (pk_d p)
      else if pk_a p = SYS_FPATH then RqFpath (pk_b p) (pk_c p) (pk_d p)
      else if pk_a p = SYS_FSTAT then RqFstat (pk_b p) (pk_c p)
      else if pk_a p = SYS_FSYNC then RqFsync (pk_b p)
      else if pk_a p = SYS_FTRUNCATE then RqFtruncate (pk_b p) (pk_c p)
      else if pk_a p = SYS_CLOSE then RqClose (pk_b p)
      else RqUnknown)"

text \<open>The defaults of the trait.\<close>

definition request_default :: "Request \<Rightarrow> usize result" where
  "request_default r =
     (case r of RqOpen _ _ _ \<Rightarrow> Err ENOENT | RqMkdir _ _ \<Rightarrow> Err ENOENT | RqRmdir _ \<Rightarrow> Err ENOENT | RqUnlink _ \<Rightarrow> Err ENOENT
      | RqUnknown \<Rightarrow> Err ENOSYS | _ \<Rightarrow> Err EBADF)"

definition scheme_handle :: "(Request \<Rightarrow> 't \<Rightarrow> usize result \<times> 't) \<Rightarrow> Packet \<Rightarrow> 't \<Rightarrow> Packet \<times> 't" where
  "scheme_handle serve p t =
     (let (res, t) = (case packet_request p of RqUnknown \<Rightarrow> (Err ENOSYS, t) | r \<Rightarrow> serve r t)
      in (p\<lparr>pk_a := mux res\<rparr>, t))"

declare server_write_loop.simps [simp del] name_loop.simps [simp del]

section \<open>The lent pages\<close>

lemma call_send_kernel:
  "call_send a b c d s k = (i, s', k') \<Longrightarrow> mem_cell k' = mem_cell k \<and> kmem k' = kmem k
   \<and> wait_inner (todo s') = wait_inner (todo s) @ [\<lparr>pk_id = i, pk_a = a, pk_b = b, pk_c = c, pk_d = d\<rparr>]"
  by (auto simp: call_send_def Let_def queue_send_def wait_send_def condition_notify_def)

lemma lent_size:
  fixes len phys :: usize
  assumes "unat len + 8192 \<le> 2 ^ 32"
  defines "offset \<equiv> phys mod 4096"
  defines "sz \<equiv> (len + offset + 4095) div 4096 * 4096"
  shows "unat offset + unat len \<le> unat sz" and "unat sz \<le> unat len + 8190" and "unat offset < 4096"
proof -
  show o: "unat offset < 4096" by (simp add: offset_def unat_mod)
  have "unat (len + offset + 4095) = unat len + unat offset + 4095"
    using o assms(1) by (simp add: unat_word_ariths)
  then have d: "unat ((len + offset + 4095) div 4096) = (unat len + unat offset + 4095) div 4096" by (simp add: unat_div)
  have le: "(unat len + unat offset + 4095) div 4096 * 4096 \<le> unat len + unat offset + 4095" by simp
  then have sz: "unat sz = (unat len + unat offset + 4095) div 4096 * 4096"
    unfolding sz_def using d o assms(1) by (subst unat_mult_lt) simp_all
  show "unat sz \<le> unat len + 8190" using sz le o by linarith
  show "unat offset + unat len \<le> unat sz" unfolding sz by simp
qed

text \<open>
  A buffer that lies inside one segment of a context, whose segments do not overlap and do not
  wrap around. \<^verbatim>\<open>translate\<close> looks at the first byte only, so a buffer that runs past its segment is accepted as well; it is not
  what this describes.
\<close>

definition holds :: "ContextMemory list \<Rightarrow> ContextMemory \<Rightarrow> usize \<Rightarrow> usize \<Rightarrow> bool" where
  "holds ss t p len \<longleftrightarrow> t \<in> set ss \<and> 0 < len
     \<and> virtual_address t \<le> p \<and> unat p + unat len \<le> unat (virtual_address t) + unat (virtual_size t)
     \<and> (\<forall>u \<in> set ss. unat (virtual_address u) + unat (virtual_size u) < 2 ^ 32
          \<and> (u = t \<or> unat (virtual_address u) + unat (virtual_size u) \<le> unat (virtual_address t)
             \<or> unat (virtual_address t) + unat (virtual_size t) \<le> unat (virtual_address u)))"

lemma holds_byte:
  assumes "holds ss t p len" and "j < len"
  shows "holds ss t (p + j) 1"
proof -
  have "unat (p + j) = unat p + unat j"
    using assms by (intro unat_add_lt) (auto simp: holds_def word_less_nat_alt)
  then show ?thesis using assms by (auto simp: holds_def word_less_nat_alt word_le_nat_alt)
qed

lemma holds_translate_loop:
  assumes "holds ss t p len" and "set ts \<subseteq> set ss" and "t \<in> set ts"
  shows "translate_loop ts p = Ok (p - virtual_address t + physical_address t)"
  using assms(2,3)
proof (induction ts)
  case (Cons u ts)
  have t: "unat (virtual_address t) \<le> unat p" "unat p < unat (virtual_address t) + unat (virtual_size t)"
    using assms(1) by (auto simp: holds_def word_less_nat_alt word_le_nat_alt)
  have e: "unat (virtual_address u + virtual_size u) = unat (virtual_address u) + unat (virtual_size u)"
    using assms(1) Cons.prems(1) by (intro unat_add_lt) (auto simp: holds_def)
  show ?case
  proof (cases "u = t")
    case True
    then show ?thesis using t e by (simp add: word_less_nat_alt word_le_nat_alt)
  next
    case False
    then have "unat (virtual_address u) + unat (virtual_size u) \<le> unat (virtual_address t)
        \<or> unat (virtual_address t) + unat (virtual_size t) \<le> unat (virtual_address u)"
      using assms(1) Cons.prems(1) by (auto simp: holds_def)
    then have "\<not> (virtual_address u \<le> p \<and> p < virtual_address u + virtual_size u)"
      using t e by (auto simp: word_less_nat_alt word_le_nat_alt)
    then show ?thesis using Cons False by auto
  qed
qed simp

lemma holds_translate:
  assumes "holds (segments k c) t p len"
  shows "translate (ctx_stack c) (segs_of k c) p len = Ok (p - virtual_address t + physical_address t)"
proof -
  have ss: "segments k c = (case ctx_stack c of Some s \<Rightarrow> [s] | None \<Rightarrow> []) @ segs_of k c" by (simp add: segments_def segs_of_def)
  have in_t: "unat (virtual_address t) \<le> unat p" "unat p + unat len \<le> unat (virtual_address t) + unat (virtual_size t)"
      "unat (virtual_address t) + unat (virtual_size t) < 2 ^ 32" "0 < unat len"
    using assms by (auto simp: holds_def word_less_nat_alt word_le_nat_alt)
  have pl: "unat (p + len) = unat p + unat len" using in_t by (intro unat_add_lt) simp
  show ?thesis
  proof (cases "ctx_stack c")
    case None
    then show ?thesis using holds_translate_loop[OF assms, of "segs_of k c"] assms by (simp add: translate_def ss holds_def)
  next
    case (Some u)
    have u: "u \<in> set (segments k c)" using Some by (simp add: ss)
    then have e: "unat (virtual_address u + virtual_size u) = unat (virtual_address u) + unat (virtual_size u)"
      using assms by (intro unat_add_lt) (auto simp: holds_def)
    show ?thesis
    proof (cases "u = t")
      case True
      then show ?thesis using Some in_t pl e by (simp add: translate_def word_le_nat_alt)
    next
      case False
      then have "unat (virtual_address u) + unat (virtual_size u) \<le> unat (virtual_address t)
          \<or> unat (virtual_address t) + unat (virtual_size t) \<le> unat (virtual_address u)"
        using assms u by (auto simp: holds_def)
      then have "\<not> (virtual_address u \<le> p \<and> p + len \<le> virtual_address u + virtual_size u)"
        using in_t pl e by (auto simp: word_le_nat_alt)
      moreover have "translate_loop (segs_of k c) p = Ok (p - virtual_address t + physical_address t)"
        by (rule holds_translate_loop[OF assms]) (use assms Some False in \<open>auto simp: ss holds_def\<close>)
      ultimately show ?thesis unfolding translate_def Some option.case by (simp only: if_False)
    qed
  qed
qed

lemma get_mem_middle:
  "\<forall>u \<in> set xs. virtual_address u \<noteq> virtual_address t \<Longrightarrow> get_mem (xs @ t # ys) (virtual_address t) = Ok (length xs)"
  by (induction xs) auto

lemma take_back_lent:
  assumes ss: "segs_of k srv = xs @ t # ys" and t: "virtual_address t = va" "\<not> allocated t"
    and ok: "\<forall>u \<in> set (xs @ ys). virtual_address u \<noteq> va \<and> virtual_size u \<noteq> 0"
  shows "segs_of (take_back va srv k) srv = xs @ ys \<and> kmem (take_back va srv k) = kmem k"
proof -
  have gm: "get_mem (segs_of k srv) va = Ok (length xs)" unfolding ss t(1)[symmetric] by (rule get_mem_middle) (use ok t in auto)
  have pos: "0 < virtual_size u" if "u \<in> set (xs @ ys)" for u using ok that by (simp add: word_gt_0)
  then have "filter (\<lambda>t. \<not> 0 < virtual_size t) xs = []" "filter (\<lambda>t. \<not> 0 < virtual_size t) ys = []" by (simp_all add: filter_empty_conv)
  moreover have "filter (\<lambda>t. 0 < virtual_size t) xs = xs" "filter (\<lambda>t. 0 < virtual_size t) ys = ys" using pos by (simp_all add: filter_id_conv)
  ultimately have "clean_mem (kmem k) (xs @ t\<lparr>virtual_size := 0\<rparr> # ys) = (xs @ ys, kmem k)"
    using t(2) by (simp add: clean_mem_def drop_segments_def segment_drop_def)
  then show ?thesis
    unfolding take_back_def gm by (simp add: ss clean_segs_def list_update_append) (simp add: segs_of_def set_segs_def)
qed

lemma call_finish_lent:
  assumes h: "server_context k s = Some srv"
    "segs_of k srv = xs @ \<lparr>physical_address = phys, virtual_address = va, virtual_size = sz, writeable = wr, allocated = False\<rparr> # ys"
    "\<forall>u \<in> set (xs @ ys). virtual_address u \<noteq> va \<and> virtual_size u \<noteq> 0"
    "btree_remove i (wait_inner (served s)) = Some (v, es)"
  shows "\<exists>s' k'. call_finish i va s k = (Some (demux (fst v)), s', k') \<and> segs_of k' srv = xs @ ys \<and> kmem k' = kmem k"
proof -
  have "call_receive i s k = (Some (demux (fst v)), s\<lparr>served := (served s)\<lparr>wait_inner := es\<rparr>\<rparr>, k)"
    using h(4) by (simp add: call_receive_def map_receive_def wait_receive_def)
  moreover have "server_context k (s\<lparr>served := (served s)\<lparr>wait_inner := es\<rparr>\<rparr>) = Some srv"
    using h(1) by (simp add: server_context_def)
  ultimately show ?thesis using take_back_lent[OF h(2) _ _ h(3)] by (simp add: call_finish_def)
qed

text \<open>
  C16. A buffer lent with a request is the client's own memory: for a buffer inside one of the client's segments the packet
  carries an address at which the server finds, byte for byte, the physical memory that the client's buffer is. The loan
  is one segment more for the server; and whatever the server has done to its other segments by
  the time the answer is there, taking the answer removes exactly that segment and changes no memory.
\<close>

theorem lent_buffer:
  assumes "current k = Inr c" and "holds (segments k c) t p len"
    and "server_context k s = Some srv" and "\<forall>t \<in> set (segs_of k srv). seg_ok t \<and> virtual_size t \<noteq> 0"
    and "0 < next_mem (segs_of k srv)" and "unat (next_mem (segs_of k srv)) + unat len + 12288 < 2 ^ 32"
  shows "\<exists>i va addr lent s' k'. buffer_call nr file_id p len (Some s) k = (Ok (i, va), Some s', k')
     \<and> wait_inner (todo s') = wait_inner (todo s) @ [\<lparr>pk_id = i, pk_a = nr, pk_b = file_id, pk_c = addr, pk_d = len\<rparr>]
     \<and> segs_of k' srv = segs_of k srv @ [lent]
     \<and> (\<forall>j < len. \<exists>x. translate (ctx_stack c) (segs_of k c) (p + j) 1 = Ok x \<and> translate_loop (segs_of k' srv) (addr + j) = Ok x)
     \<and> (\<forall>k2 s2 srv2 v es xs ys. server_context k2 s2 = Some srv2 \<and> segs_of k2 srv2 = xs @ lent # ys
          \<and> (\<forall>u \<in> set (xs @ ys). virtual_address u \<noteq> va \<and> virtual_size u \<noteq> 0)
          \<and> btree_remove i (wait_inner (served s2)) = Some (v, es) \<longrightarrow>
          (\<exists>s3 k3. call_finish i va s2 k2 = (Some (demux (fst v)), s3, k3) \<and> segs_of k3 srv2 = xs @ ys \<and> kmem k3 = kmem k2))"
proof -
  define phys where "phys = p - virtual_address t + physical_address t"
  have tr: "translate (ctx_stack c) (segs_of k c) p len = Ok phys" unfolding phys_def by (rule holds_translate[OF assms(2)])
  define offset where "offset = phys mod 4096"
  define sz where "sz = (len + offset + 4095) div 4096 * 4096"
  have Z: "unat offset + unat len \<le> unat sz" "unat sz \<le> unat len + 8190" "unat offset < 4096"
    using lent_size[of len phys] assms(6) by (simp_all add: offset_def sz_def)
  obtain va k1 where l: "lend (phys - offset) sz True srv k = (va, k1)" by fastforce
  let ?s = "\<lparr>physical_address = phys - offset, virtual_address = va, virtual_size = sz, writeable = True, allocated = False\<rparr>"
  have va: "va = next_mem (segs_of k srv)" and k1: "k1 = set_segs k srv (segs_of k srv @ [?s])"
    using l by (auto simp: lend_def Let_def)
  obtain i s' k' where cs: "call_send nr file_id (va + offset) len s k1 = (i, s', k')"
    by (cases "call_send nr file_id (va + offset) len s k1")
  have bc: "buffer_call nr file_id p len (Some s) k = (Ok (i, va), Some s', k')"
    using assms(1,3,5) tr l cs va by (simp add: buffer_call_def Let_def offset_def[symmetric] sz_def[symmetric])
  note S = call_send_kernel[OF cs]
  have ok: "seg_ok ?s"
    using next_mem_after(2)[of "segs_of k srv"] assms(4,6) Z by (auto simp: seg_ok_def va)
  have after: "\<forall>t \<in> set (segs_of k srv). seg_ok t \<and> seg_end t \<le> unat va"
    using next_mem_after(1)[of "segs_of k srv"] assms(4) by (auto simp: va)
  have ss: "segs_of k' srv = segs_of k srv @ [?s]" using S by (simp add: segs_of_def k1 set_segs_def)
  have same: "\<exists>x. translate (ctx_stack c) (segs_of k c) (p + j) 1 = Ok x \<and> translate_loop (segs_of k' srv) (va + offset + j) = Ok x"
    if j: "j < len" for j
  proof -
    have "unat (offset + j) = unat offset + unat j"
      using Z j assms(6) by (intro unat_add_lt) (simp add: word_less_nat_alt)
    then have "offset + j < sz" using Z(1) j by (simp add: word_less_nat_alt)
    then have "translate_loop (segs_of k' srv) (va + (offset + j)) = Ok (phys - offset + (offset + j))"
      using translate_new[of "segs_of k srv" ?s "offset + j"] after ok by (simp add: ss)
    moreover have "translate (ctx_stack c) (segs_of k c) (p + j) 1 = Ok (p + j - virtual_address t + physical_address t)"
      by (rule holds_translate[OF holds_byte[OF assms(2) j]])
    moreover have "phys - offset + (offset + j) = p + j - virtual_address t + physical_address t" by (simp add: phys_def)
    ultimately show ?thesis by (simp add: add.assoc)
  qed
  have todo: "wait_inner (todo s') = wait_inner (todo s) @ [\<lparr>pk_id = i, pk_a = nr, pk_b = file_id, pk_c = va + offset, pk_d = len\<rparr>]"
    using S by simp
  show ?thesis
  proof (intro exI conjI)
    show "\<forall>j < len. \<exists>x. translate (ctx_stack c) (segs_of k c) (p + j) 1 = Ok x \<and> translate_loop (segs_of k' srv) (va + offset + j) = Ok x"
      using same by blast
    show "\<forall>k2 s2 srv2 v es xs ys. server_context k2 s2 = Some srv2 \<and> segs_of k2 srv2 = xs @ ?s # ys
          \<and> (\<forall>u \<in> set (xs @ ys). virtual_address u \<noteq> va \<and> virtual_size u \<noteq> 0)
          \<and> btree_remove i (wait_inner (served s2)) = Some (v, es) \<longrightarrow>
          (\<exists>s3 k3. call_finish i va s2 k2 = (Some (demux (fst v)), s3, k3) \<and> segs_of k3 srv2 = xs @ ys \<and> kmem k3 = kmem k2)"
    proof (intro allI impI, elim conjE)
      fix k2 s2 srv2 v es xs ys
      assume h: "server_context k2 s2 = Some srv2" "segs_of k2 srv2 = xs @ ?s # ys"
        "\<forall>u \<in> set (xs @ ys). virtual_address u \<noteq> va \<and> virtual_size u \<noteq> 0"
        "btree_remove i (wait_inner (served s2)) = Some (v, es)"
      then show "\<exists>s3 k3. call_finish i va s2 k2 = (Some (demux (fst v)), s3, k3) \<and> segs_of k3 srv2 = xs @ ys \<and> kmem k3 = kmem k2"
        by (rule call_finish_lent)
    qed
  qed (rule bc todo ss)+
qed

definition demo_server :: Context where
  "demo_server = (demo_context 2 False False)\<lparr>memory := 1\<rparr>"

definition demo_lend :: "unit Kernel" where
  "demo_lend = (demo_kernel [demo_context 1 False False, demo_server] 0)\<lparr>mem_cell := (\<lambda>_. [])
     (0 := [\<lparr>physical_address = 0x500000, virtual_address = 0x80000000, virtual_size = 8192, writeable = True, allocated = True\<rparr>],
      1 := [\<lparr>physical_address = 0x600000, virtual_address = 0x80000000, virtual_size = 4096, writeable = True, allocated = True\<rparr>])\<rparr>"

theorem lent_buffer_witness:
  "\<exists>i va s' k' addr. buffer_call SYS_READ 3 0x80000010 100 (Some (inner_new ''demo'' 2)) demo_lend = (Ok (i, va), Some s', k')
     \<and> wait_inner (todo s') = [\<lparr>pk_id = i, pk_a = SYS_READ, pk_b = 3, pk_c = addr, pk_d = 100\<rparr>]
     \<and> translate_loop (segs_of k' demo_server) (addr + 5) = Ok 0x500015"
proof -
  let ?c = "demo_context 1 False False" and ?s = "inner_new ''demo'' 2"
  let ?t = "\<lparr>physical_address = 0x500000, virtual_address = 0x80000000, virtual_size = 8192, writeable = True, allocated = True\<rparr>"
  have c: "current demo_lend = Inr ?c" "server_context demo_lend ?s = Some demo_server"
    by (simp_all add: demo_lend_def demo_kernel_def current_def manager_get_def server_context_def demo_server_def
        demo_context_def blank_context_def inner_new_def)
  have cs: "segs_of demo_lend ?c = [?t]" "ctx_stack ?c = None"
    by (simp_all add: demo_lend_def segs_of_def demo_context_def blank_context_def)
  then have h: "holds (segments demo_lend ?c) ?t 0x80000010 100"
    by (simp add: holds_def segments_def segs_of_def word_le_nat_alt)
  have ss: "segs_of demo_lend demo_server =
      [\<lparr>physical_address = 0x600000, virtual_address = 0x80000000, virtual_size = 4096, writeable = True, allocated = True\<rparr>]"
    by (simp add: demo_lend_def demo_server_def segs_of_def)
  then have t: "\<forall>t \<in> set (segs_of demo_lend demo_server). seg_ok t \<and> virtual_size t \<noteq> 0"
    "0 < next_mem (segs_of demo_lend demo_server)"
    "unat (next_mem (segs_of demo_lend demo_server)) + unat (100 :: usize) + 12288 < 2 ^ 32"
    by (simp_all add: seg_ok_def next_mem_def)
  have w: "wait_inner (todo ?s) = []" by (simp add: inner_new_def queue_new_def waitable_new_def)
  obtain i va addr s' k' where r: "buffer_call SYS_READ 3 0x80000010 100 (Some ?s) demo_lend = (Ok (i, va), Some s', k')"
      "wait_inner (todo s') = [\<lparr>pk_id = i, pk_a = SYS_READ, pk_b = 3, pk_c = addr, pk_d = 100\<rparr>]"
      "\<forall>j < 100. \<exists>x. translate (ctx_stack ?c) (segs_of demo_lend ?c) (0x80000010 + j) 1 = Ok x
         \<and> translate_loop (segs_of k' demo_server) (addr + j) = Ok x"
    using lent_buffer[OF c(1) h c(2) t, of SYS_READ 3] unfolding w by auto
  have "translate (ctx_stack ?c) (segs_of demo_lend ?c) (0x80000010 + 5) 1 = Ok 0x500015" by (simp add: cs translate_def)
  then have "translate_loop (segs_of k' demo_server) (addr + 5) = Ok 0x500015" using spec[OF r(3), of 5] by auto
  then show ?thesis using r(1,2) by blast
qed

end
