(* ===== verification/Protocol.thy ===== *)
theory Protocol
  imports Ipc "HOL-Library.Multiset"
begin

text \<open>
  The protocol of \<^verbatim>\<open>kernel/fs/scheme.rs\<close> as a step relation: clients call, the server reads
  packets, handles them and writes them back in any grouping and order, clients fetch their answers,
  and in between anything may happen to the rest of the kernel. In this relation a client may try to
  fetch its answer at any moment, whether its context sleeps or not, and the server never closes its
  end; that an answer wakes its client is shown on the wait map itself.
\<close>

section \<open>Packets on the wire\<close>

lemma length_packet_bytes [simp]: "length (packet_bytes p) = SIZE_OF_PACKET"
  by (simp add: packet_bytes_def SIZE_OF_PACKET_def)

lemma bytes_packet_bytes [simp]: "bytes_packet (packet_bytes p @ bs) = p"
  by (simp add: bytes_packet_def packet_bytes_def le_word_le_bytes)

lemma length_packets [simp]: "length (concat (map packet_bytes ps)) = SIZE_OF_PACKET * length ps"
  by (induction ps) simp_all

fun packets_in :: "nat \<Rightarrow> u8 list \<Rightarrow> Packet list" where
  "packets_in 0 bs = []"
| "packets_in (Suc n) bs = bytes_packet bs # packets_in n (drop SIZE_OF_PACKET bs)"

lemma packets_in_packets [simp]: "packets_in (length ps) (concat (map packet_bytes ps) @ bs) = ps"
  by (induction ps) simp_all

lemma pop_packets_append: "pop_packets n q = (ps, q') \<Longrightarrow> q = ps @ q' \<and> length ps = min n (length q)"
proof (induction n q arbitrary: ps q' rule: pop_packets.induct)
  case (3 n p q)
  obtain ps1 q1 where e: "pop_packets n q = (ps1, q1)" by fastforce
  note "3.IH"[OF e]
  moreover have "ps = p # ps1" "q' = q1" using "3.prems" e by simp_all
  ultimately show ?case by (metis append_Cons length_Cons min_Suc_Suc)
qed auto

definition file_answers :: "Packet list \<Rightarrow> SchemeInner \<Rightarrow> 'r Kernel \<Rightarrow> SchemeInner \<times> 'r Kernel" where
  "file_answers ps s k = foldl (\<lambda>(s, k) p. file_answer p s k) (s, k) ps"

lemma server_write_loop_packets:
  assumes "length rest < SIZE_OF_PACKET" and "i \<le> length buf" and "drop i buf = concat (map packet_bytes ps) @ rest"
  shows "server_write_loop buf i s k = (i + SIZE_OF_PACKET * length ps, file_answers ps s k)"
  using assms(2,3)
proof (induction ps arbitrary: i s k)
  case Nil
  then have "length buf - i < SIZE_OF_PACKET" using assms(1) by (metis Nil.prems(2) concat.simps(1) append_Nil length_drop list.map(1))
  then have "\<not> i + SIZE_OF_PACKET \<le> length buf" by linarith
  then show ?case by (subst server_write_loop.simps) (simp add: file_answers_def)
next
  case (Cons p ps)
  have len: "i + SIZE_OF_PACKET \<le> length buf"
    using arg_cong[OF Cons.prems(2), of length] Cons.prems(1) by (simp add: SIZE_OF_PACKET_def)
  obtain s1 k1 where f: "file_answer p s k = (s1, k1)" by fastforce
  have "drop (i + SIZE_OF_PACKET) buf = drop SIZE_OF_PACKET (drop i buf)" by (simp add: add.commute)
  then have "drop (i + SIZE_OF_PACKET) buf = concat (map packet_bytes ps) @ rest" by (simp add: Cons.prems(2))
  from Cons.IH[OF len this] show ?case
    by (subst server_write_loop.simps) (simp add: len Cons.prems(2) f file_answers_def)
qed

lemma server_write_packets:
  assumes "ps \<noteq> []" and "length rest < SIZE_OF_PACKET"
  shows "server_write (concat (map packet_bytes ps) @ rest) s k =
    (let (s, k) = file_answers ps s k in (Ok (SIZE_OF_PACKET * length ps), s, k))"
proof -
  have "SIZE_OF_PACKET \<le> SIZE_OF_PACKET * length ps" using assms(1) by (cases ps) simp_all
  then have "SIZE_OF_PACKET \<le> length (concat (map packet_bytes ps) @ rest)" by (simp only: length_append length_packets)
  then show ?thesis
    using server_write_loop_packets[OF assms(2), of 0 "concat (map packet_bytes ps) @ rest" ps s k]
    by (simp add: server_write_def split_beta)
qed

section \<open>The step relation\<close>

text \<open>
  Beside the two ends of the scheme: how many calls were made, the calls whose client still waits,
  the packets the server has read and not answered, what it made of each request, and what the clients got.
\<close>

record ('r, 't) Ipc =
  ends :: SchemeInner
  ipc_kernel :: "'r Kernel"
  server_state :: 't
  issued :: nat
  outstanding :: "usize \<Rightarrow> Packet option"
  serving :: "Packet list"
  handled :: "(Packet \<times> Packet) list"
  returned :: "(Packet \<times> usize result) list"

definition ipc_start :: "string \<Rightarrow> usize \<Rightarrow> 'r Kernel \<Rightarrow> 't \<Rightarrow> ('r, 't) Ipc" where
  "ipc_start name c k t = \<lparr>ends = inner_new name c, ipc_kernel = k, server_state = t, issued = 0,
     outstanding = Map.empty, serving = [], handled = [], returned = []\<rparr>"

fun handle_all :: "(Request \<Rightarrow> 't \<Rightarrow> usize result \<times> 't) \<Rightarrow> Packet list \<Rightarrow> 't \<Rightarrow> Packet list \<times> 't" where
  "handle_all serve [] t = ([], t)"
| "handle_all serve (p # ps) t =
     (let (q, t) = scheme_handle serve p t; (qs, t) = handle_all serve ps t in (q # qs, t))"

definition received :: "(nat result \<times> u8 list) option \<Rightarrow> Packet list" where
  "received r = (case r of Some (Inr n, bs) \<Rightarrow> packets_in (n div SIZE_OF_PACKET) bs | _ \<Rightarrow> [])"

inductive ipc_step :: "(Request \<Rightarrow> 't \<Rightarrow> usize result \<times> 't) \<Rightarrow> ('r, 't) Ipc \<Rightarrow> ('r, 't) Ipc \<Rightarrow> bool"
  for serve where
  ipc_call: "call_send a b c d (ends s) (ipc_kernel s) = (i, e, k) \<Longrightarrow>
    ipc_step serve s (s\<lparr>ends := e, ipc_kernel := k, issued := issued s + 1,
      outstanding := (outstanding s)(i \<mapsto> \<lparr>pk_id = i, pk_a = a, pk_b = b, pk_c = c, pk_d = d\<rparr>)\<rparr>)"
| ipc_read: "server_read buf (ends s) (ipc_kernel s) = (r, e, k) \<Longrightarrow>
    ipc_step serve s (s\<lparr>ends := e, ipc_kernel := k, serving := serving s @ received r\<rparr>)"
| ipc_answer: "ps \<noteq> [] \<Longrightarrow> mset ps \<subseteq># mset (serving s) \<Longrightarrow> handle_all serve ps (server_state s) = (qs, t) \<Longrightarrow>
    server_write (concat (map packet_bytes qs)) (ends s) (ipc_kernel s) = (r, e, k) \<Longrightarrow>
    ipc_step serve s (s\<lparr>ends := e, ipc_kernel := k, server_state := t,
      serving := foldl (\<lambda>xs p. remove1 p xs) (serving s) ps, handled := handled s @ zip ps qs\<rparr>)"
| ipc_return: "outstanding s i = Some p \<Longrightarrow> call_receive i (ends s) (ipc_kernel s) = (r, e, k) \<Longrightarrow>
    ipc_step serve s (s\<lparr>ends := e, ipc_kernel := k,
      outstanding := (if r = None then outstanding s else (outstanding s)(i := None)),
      returned := returned s @ (case r of None \<Rightarrow> [] | Some res \<Rightarrow> [(p, res)])\<rparr>)"
| ipc_other: "ipc_step serve s (s\<lparr>ipc_kernel := k\<rparr>)"


section \<open>What the two ends do to queue and map\<close>

abbreviation waiting :: "SchemeInner \<Rightarrow> Packet list" where
  "waiting e \<equiv> wait_inner (todo e)"

abbreviation answers :: "SchemeInner \<Rightarrow> (usize \<times> answer) list" where
  "answers e \<equiv> wait_inner (served e)"

lemma call_send_effect:
  assumes "call_send a b c d e k = (i, e', k')"
  shows "i = next_id e" and "waiting e' = waiting e @ [\<lparr>pk_id = i, pk_a = a, pk_b = b, pk_c = c, pk_d = d\<rparr>]"
    and "answers e' = answers e" and "next_id e' = (if next_id e + 1 = 0 then 1 else next_id e + 1)"
  using assms by (auto simp: call_send_def Let_def queue_send_def wait_send_def condition_notify_def)

lemma server_read_effect:
  assumes "server_read buf e k = (r, e', k')"
  shows "waiting e = received r @ waiting e'" and "answers e' = answers e" and "next_id e' = next_id e"
proof -
  have pos: "0 < SIZE_OF_PACKET" by (simp add: SIZE_OF_PACKET_def)
  show "waiting e = received r @ waiting e'"
  proof (cases "length buf \<ge> SIZE_OF_PACKET \<and> waiting e \<noteq> []")
    case True
    then obtain p q where q: "waiting e = p # q" by (cases "waiting e") auto
    obtain ps rest where pp: "pop_packets (length buf div SIZE_OF_PACKET - 1) q = (ps, rest)" by fastforce
    let ?bs = "concat (map packet_bytes (p # ps))"
    have r: "r = Some (Ok (length ?bs), ?bs @ drop (length ?bs) buf)" "waiting e' = rest"
      using assms True q pp by (auto simp: server_read_def queue_receive_def wait_receive_def)
    have "received r = p # ps"
      using packets_in_packets[of "p # ps" "drop (length ?bs) buf"] pos
      by (simp add: r(1) received_def del: concat.simps list.map packets_in_packets)
    then show ?thesis using pop_packets_append[OF pp] q r(2) by simp
  next
    case False
    obtain v q k1 where w: "queue_receive (todo e) k = (v, q, k1)" by (cases "queue_receive (todo e) k")
    then have "v = None \<and> wait_inner q = []" if "waiting e = []"
      using that by (auto simp: queue_receive_def wait_receive_def condition_wait_def split: sum.splits)
    then show ?thesis
      using assms False w by (cases "length buf \<ge> SIZE_OF_PACKET") (auto simp: server_read_def received_def)
  qed
  show "answers e' = answers e" "next_id e' = next_id e"
    using assms by (auto simp: server_read_def split: if_splits prod.splits option.splits)
qed

lemma file_answer_effect:
  assumes "file_answer q e k = (e', k')"
  shows "answers e' = btree_insert (pk_id q) (pk_a q, pk_b q, pk_c q, pk_d q) (answers e)"
    and "todo e' = todo e" and "next_id e' = next_id e"
  using assms by (auto simp: file_answer_def map_send_def wait_send_def condition_notify_def split: prod.splits)

lemma call_receive_effect:
  assumes "call_receive i e k = (r, e', k')"
  shows "todo e' = todo e" and "next_id e' = next_id e"
    and "case btree_remove i (answers e) of
       None \<Rightarrow> r = None \<and> answers e' = answers e | Some (v, es) \<Rightarrow> r = Some (demux (fst v)) \<and> answers e' = es"
  using assms
  by (auto simp: call_receive_def map_receive_def wait_receive_def condition_wait_def split: option.splits sum.splits prod.splits)

section \<open>The invariant\<close>

definition ipc_inv :: "(Request \<Rightarrow> 't \<Rightarrow> usize result \<times> 't) \<Rightarrow> ('r, 't) Ipc \<Rightarrow> bool" where
  "ipc_inv serve s \<longleftrightarrow>
     btree_ok (answers (ends s)) \<and> next_id (ends s) = of_nat (issued s + 1)
   \<and> distinct (map pk_id (waiting (ends s) @ serving s)) \<and> distinct (map (pk_id \<circ> fst) (handled s))
   \<and> (\<forall>p. p \<in> set (waiting (ends s) @ serving s) \<longrightarrow>
        outstanding s (pk_id p) = Some p \<and> pk_id p \<notin> pk_id ` fst ` set (handled s))
   \<and> (\<forall>i v. map_of (answers (ends s)) i = Some v \<longrightarrow>
        (\<exists>p q. outstanding s i = Some p \<and> (p, q) \<in> set (handled s) \<and> fst v = pk_a q))
   \<and> (\<forall>i p. outstanding s i = Some p \<longrightarrow> pk_id p = i \<and> unat i \<le> issued s
        \<and> (p \<in> set (waiting (ends s) @ serving s) \<or> map_of (answers (ends s)) i \<noteq> None))
   \<and> (\<forall>p r. (p, r) \<in> set (returned s) \<longrightarrow> (\<exists>q. (p, q) \<in> set (handled s) \<and> r = demux (pk_a q)))
   \<and> (\<forall>p q. (p, q) \<in> set (handled s) \<longrightarrow> unat (pk_id p) \<le> issued s \<and> (\<exists>t. q = fst (scheme_handle serve p t)))"

lemma ipc_invD:
  assumes "ipc_inv serve s"
  shows "btree_ok (answers (ends s))" and "next_id (ends s) = of_nat (issued s + 1)"
    and "distinct (map pk_id (waiting (ends s) @ serving s))" and "distinct (map (pk_id \<circ> fst) (handled s))"
    and "p \<in> set (waiting (ends s) @ serving s) \<Longrightarrow>
      outstanding s (pk_id p) = Some p \<and> pk_id p \<notin> pk_id ` fst ` set (handled s)"
    and "map_of (answers (ends s)) i = Some v \<Longrightarrow>
      \<exists>p q. outstanding s i = Some p \<and> (p, q) \<in> set (handled s) \<and> fst v = pk_a q"
    and "outstanding s i = Some p \<Longrightarrow> pk_id p = i \<and> unat i \<le> issued s
      \<and> (p \<in> set (waiting (ends s) @ serving s) \<or> map_of (answers (ends s)) i \<noteq> None)"
    and "(p, r) \<in> set (returned s) \<Longrightarrow> \<exists>q. (p, q) \<in> set (handled s) \<and> r = demux (pk_a q)"
    and "(p, q) \<in> set (handled s) \<Longrightarrow> unat (pk_id p) \<le> issued s \<and> (\<exists>t. q = fst (scheme_handle serve p t))"
  using assms unfolding ipc_inv_def by blast+

lemma ipc_invI:
  assumes "btree_ok (answers (ends s))" and "next_id (ends s) = of_nat (issued s + 1)"
    and "distinct (map pk_id (waiting (ends s) @ serving s))" and "distinct (map (pk_id \<circ> fst) (handled s))"
    and "\<And>p. p \<in> set (waiting (ends s) @ serving s) \<Longrightarrow>
      outstanding s (pk_id p) = Some p \<and> pk_id p \<notin> pk_id ` fst ` set (handled s)"
    and "\<And>i v. map_of (answers (ends s)) i = Some v \<Longrightarrow>
      \<exists>p q. outstanding s i = Some p \<and> (p, q) \<in> set (handled s) \<and> fst v = pk_a q"
    and "\<And>i p. outstanding s i = Some p \<Longrightarrow> pk_id p = i \<and> unat i \<le> issued s
      \<and> (p \<in> set (waiting (ends s) @ serving s) \<or> map_of (answers (ends s)) i \<noteq> None)"
    and "\<And>p r. (p, r) \<in> set (returned s) \<Longrightarrow> \<exists>q. (p, q) \<in> set (handled s) \<and> r = demux (pk_a q)"
    and "\<And>p q. (p, q) \<in> set (handled s) \<Longrightarrow> unat (pk_id p) \<le> issued s \<and> (\<exists>t. q = fst (scheme_handle serve p t))"
  shows "ipc_inv serve s"
  using assms unfolding ipc_inv_def by blast

lemma inv_call:
  assumes inv: "ipc_inv serve s" and bound: "issued s + 1 < 2 ^ 32 - 1"
    and c: "call_send a b c d (ends s) (ipc_kernel s) = (i, e, k)"
  shows "ipc_inv serve (s\<lparr>ends := e, ipc_kernel := k, issued := issued s + 1,
      outstanding := (outstanding s)(i \<mapsto> \<lparr>pk_id = i, pk_a = a, pk_b = b, pk_c = c, pk_d = d\<rparr>)\<rparr>)"
proof -
  note E = call_send_effect[OF c] and I = ipc_invD[OF inv]
  have i: "unat i = issued s + 1"
    using bound by (simp add: E(1) I(2) unat_of_nat_lt del: of_nat_Suc of_nat_add)
  have n: "next_id e = of_nat (issued s + 1 + 1)"
  proof -
    have "next_id (ends s) + 1 = of_nat (issued s + 1 + 1)" using I(2) by simp
    moreover have "unat (of_nat (issued s + 1 + 1) :: usize) \<noteq> 0"
      using bound by (simp add: unat_of_nat_lt del: of_nat_Suc of_nat_add)
    ultimately show ?thesis using E(4) by (metis unat_eq_zero)
  qed
  have fresh: "outstanding s i = None" using I(7)[of i] i by fastforce
  have new: "pk_id p \<noteq> i" if "p \<in> set (waiting (ends s) @ serving s)" for p using I(5)[OF that] fresh by auto
  have newh: "i \<notin> pk_id ` fst ` set (handled s)" using I(9) i by fastforce
  have dist: "distinct (map pk_id (waiting e @ serving s))" using I(3) new by (auto simp: E(2))
  show ?thesis
  proof (rule ipc_invI, goal_cases)
    case (5 p) then show ?case using I(5)[of p] new[of p] newh by (auto simp: E(2))
  next
    case (6 j v) then show ?case using I(6)[of j v] fresh by (auto simp: E(3))
  next
    case (7 j p) then show ?case using I(7)[of j p] i by (auto simp: E(2,3) split: if_splits)
  next
    case (9 p q) then show ?case using I(9)[of p q] by simp
  qed (use I n dist in \<open>simp_all add: E(3)\<close>)
qed

lemma inv_read:
  assumes inv: "ipc_inv serve s" and r: "server_read buf (ends s) (ipc_kernel s) = (r, e, k)"
  shows "ipc_inv serve (s\<lparr>ends := e, ipc_kernel := k, serving := serving s @ received r\<rparr>)"
proof -
  note E = server_read_effect[OF r] and I = ipc_invD[OF inv]
  have q: "set (waiting e @ serving s @ received r) = set (waiting (ends s) @ serving s)" using E(1) by auto
  have "mset (waiting e @ serving s @ received r) = mset (waiting (ends s) @ serving s)" using E(1) by simp
  then have "mset (map pk_id (waiting e @ serving s @ received r)) = mset (map pk_id (waiting (ends s) @ serving s))"
    by (simp only: mset_map)
  then have dist: "distinct (map pk_id (waiting e @ serving s @ received r))"
    using I(3) mset_eq_imp_distinct_iff by blast
  show ?thesis
  proof (rule ipc_invI, goal_cases)
    case (5 p) then show ?case using I(5)[of p] q by auto
  next
    case (6 i v) then show ?case using I(6)[of i v] by (simp add: E(2))
  next
    case (7 i p) then show ?case using I(7)[of i p] q by (auto simp: E(2))
  next
    case (9 p q) then show ?case using I(9)[of p q] by simp
  qed (use I(1-4,8) dist in \<open>simp_all add: E(2,3)\<close>)
qed

lemma inv_file_answer:
  assumes inv: "ipc_inv serve s" and p: "p \<in> set (serving s)" and q: "q = fst (scheme_handle serve p t)"
    and f: "file_answer q (ends s) (ipc_kernel s) = (e, k)"
  shows "ipc_inv serve (s\<lparr>ends := e, ipc_kernel := k, server_state := t', serving := remove1 p (serving s),
      handled := handled s @ [(p, q)]\<rparr>)"
proof -
  note E = file_answer_effect[OF f] and I = ipc_invD[OF inv]
  have pid: "pk_id q = pk_id p" by (auto simp: q scheme_handle_def split: prod.splits)
  have out: "outstanding s (pk_id p) = Some p" "pk_id p \<notin> pk_id ` fst ` set (handled s)" using I(5)[of p] p by auto
  have inj: "distinct (waiting (ends s) @ serving s)" "inj_on pk_id (set (waiting (ends s) @ serving s))"
    using I(3) by (simp_all only: distinct_map)
  have left: "x \<in> set (waiting (ends s) @ remove1 p (serving s)) \<longleftrightarrow>
      x \<in> set (waiting (ends s) @ serving s) \<and> pk_id x \<noteq> pk_id p" for x
    using inj p by (auto dest: inj_onD)
  have "mset (waiting (ends s) @ remove1 p (serving s)) \<subseteq># mset (waiting (ends s) @ serving s)" by simp
  then have dist: "distinct (map pk_id (waiting (ends s) @ remove1 p (serving s)))"
    using inj unfolding distinct_map by (auto intro: inj_on_subset dest: notin_set_remove1)
  have ans: "map_of (answers e) = (map_of (answers (ends s)))(pk_id p \<mapsto> (pk_a q, pk_b q, pk_c q, pk_d q))"
    using I(1) by (simp add: E(1) map_of_btree_insert pid)
  show ?thesis
  proof (rule ipc_invI, goal_cases)
    case 1 then show ?case using I(1) by (simp add: E(1) btree_insert_ok)
  next
    case (5 x) then show ?case using I(5)[of x] left[of x] by (auto simp: E(2))
  next
    case (6 i v) then show ?case using I(6)[of i v] out(1) by (auto simp: ans split: if_splits)
  next
    case (7 i x) then show ?case using I(7)[of i x] left[of x] by (auto simp: E(2) ans)
  next
    case (8 x r) then show ?case using I(8)[of x r] by auto
  next
    case (9 x y) then show ?case using I(9)[of x y] I(7)[OF out(1)] q by auto
  qed (use I(2,4) dist out(2) in \<open>auto simp: E(2,3) image_comp\<close>)
qed


lemma inv_file_answers:
  assumes "ipc_inv serve s" and "mset ps \<subseteq># mset (serving s)" and "handle_all serve ps t = (qs, t')"
    and "file_answers qs (ends s) (ipc_kernel s) = (e, k)"
  shows "ipc_inv serve (s\<lparr>ends := e, ipc_kernel := k, server_state := t',
      serving := foldl (\<lambda>xs p. remove1 p xs) (serving s) ps, handled := handled s @ zip ps qs\<rparr>)"
  using assms
proof (induction ps arbitrary: s t qs)
  case Nil
  then have "e = ends s" "k = ipc_kernel s" by (simp_all add: file_answers_def)
  then show ?case using Nil.prems(1) by (simp add: ipc_inv_def)
next
  case (Cons p ps)
  obtain q t1 where q: "scheme_handle serve p t = (q, t1)" by fastforce
  obtain qs1 where qs1: "handle_all serve ps t1 = (qs1, t')" "qs = q # qs1"
    using Cons.prems(3) q by (auto split: prod.splits)
  obtain e1 k1 where f: "file_answer q (ends s) (ipc_kernel s) = (e1, k1)" by fastforce
  have p: "p \<in> set (serving s)" using Cons.prems(2) by (auto dest: mset_subset_eqD)
  define s1 where "s1 = s\<lparr>ends := e1, ipc_kernel := k1, server_state := t1, serving := remove1 p (serving s),
      handled := handled s @ [(p, q)]\<rparr>"
  have i1: "ipc_inv serve s1"
    unfolding s1_def by (rule inv_file_answer[OF Cons.prems(1) p _ f, where t = t]) (simp add: q)
  have "mset ps \<subseteq># mset (serving s1)"
    using Cons.prems(2) by (simp add: s1_def insert_subset_eq_iff)
  moreover have "file_answers qs1 (ends s1) (ipc_kernel s1) = (e, k)"
    using Cons.prems(4) f by (simp add: s1_def qs1(2) file_answers_def)
  ultimately show ?case
    using Cons.IH[OF i1 _ qs1(1)] by (simp add: s1_def qs1(2))
qed

lemma handle_all_length: "handle_all serve ps t = (qs, t') \<Longrightarrow> length qs = length ps"
  by (induction ps arbitrary: t qs) (auto split: prod.splits)

lemma server_write_answers:
  assumes "ps \<noteq> []" and "handle_all serve ps t = (qs, t')"
    and "server_write (concat (map packet_bytes qs)) e k = (r, e', k')"
  shows "file_answers qs e k = (e', k')"
proof -
  have "qs \<noteq> []" using handle_all_length[OF assms(2)] assms(1) by auto
  then show ?thesis
    using server_write_packets[of qs "[]" e k] assms(3) by (auto simp: SIZE_OF_PACKET_def split: prod.splits)
qed

lemma inv_return:
  assumes inv: "ipc_inv serve s" and o: "outstanding s i = Some p"
    and c: "call_receive i (ends s) (ipc_kernel s) = (r, e, k)"
  shows "ipc_inv serve (s\<lparr>ends := e, ipc_kernel := k,
      outstanding := (if r = None then outstanding s else (outstanding s)(i := None)),
      returned := returned s @ (case r of None \<Rightarrow> [] | Some res \<Rightarrow> [(p, res)])\<rparr>)"
proof (cases "btree_remove i (answers (ends s))")
  case None
  then show ?thesis using inv call_receive_effect[OF c] by (simp add: ipc_inv_def)
next
  case (Some a)
  then obtain v es where rm: "btree_remove i (answers (ends s)) = Some (v, es)" by (cases a) simp
  note E = call_receive_effect[OF c] and I = ipc_invD[OF inv]
  have r: "r = Some (demux (fst v))" "answers e = es" using E(3) rm by simp_all
  note R = btree_remove_Some[OF rm I(1)]
  obtain q where q: "(p, q) \<in> set (handled s)" "fst v = pk_a q" using I(6)[of i v] R o by auto
  have pid: "pk_id p = i" using I(7)[OF o] by simp
  have other: "pk_id x \<noteq> i" if "x \<in> set (waiting (ends s) @ serving s)" for x
    using I(5)[OF that] q(1) pid by force
  show ?thesis
  proof (rule ipc_invI, goal_cases)
    case (5 x) then show ?case using I(5)[of x] other[of x] by (auto simp: E(1) r(1))
  next
    case (6 j w) then show ?case using I(6)[of j w] R by (auto simp: r split: if_splits)
  next
    case (7 j x) then show ?case using I(7)[of j x] R by (auto simp: E(1) r split: if_splits)
  next
    case (8 x res) then show ?case using I(8)[of x res] q by (auto simp: r)
  next
    case (9 x y) then show ?case using I(9)[of x y] by simp
  qed (use I(2-4) R in \<open>simp_all add: E(1,2) r\<close>)
qed

lemma ipc_step_issued: "ipc_step serve s s' \<Longrightarrow> issued s \<le> issued s'"
  by (cases rule: ipc_step.cases) auto

lemma ipc_inv_step:
  assumes "ipc_step serve s s'" and "ipc_inv serve s" and "issued s' < 2 ^ 32 - 1"
  shows "ipc_inv serve s'"
  using assms
proof (cases rule: ipc_step.cases)
  case (ipc_call a b c d i e k)
  then show ?thesis using inv_call[OF assms(2) _ ipc_call(2)] assms(3) by simp
next
  case (ipc_read buf r e k)
  then show ?thesis using inv_read[OF assms(2)] by simp
next
  case (ipc_answer ps qs t r e k)
  then show ?thesis
    using inv_file_answers[OF assms(2) _ _ server_write_answers[OF ipc_answer(2,4,5)]] by simp
next
  case (ipc_return i p r e k)
  then show ?thesis using inv_return[OF assms(2)] by simp
next
  case (ipc_other k)
  then show ?thesis using assms(2) by (simp add: ipc_inv_def)
qed

lemma ipc_inv_reachable:
  assumes "(ipc_step serve)\<^sup>*\<^sup>* (ipc_start name c k t) s" and "issued s < 2 ^ 32 - 1"
  shows "ipc_inv serve s"
  using assms
proof (induction rule: rtranclp_induct)
  case base
  then show ?case by (simp add: ipc_inv_def ipc_start_def inner_new_def queue_new_def map_new_def waitable_new_def)
next
  case (step s s')
  then show ?case using ipc_step_issued[OF step(2)] ipc_inv_step[OF step(2)] by simp
qed


section \<open>Requests can be completed\<close>

lemma can_return:
  assumes "ipc_inv serve s" and "outstanding s i = Some p" and "map_of (answers (ends s)) i \<noteq> None"
  shows "\<exists>s' r. ipc_step serve s s' \<and> (p, r) \<in> set (returned s') \<and> outstanding s' i = None \<and> issued s' = issued s"
proof -
  have "btree_remove i (answers (ends s)) \<noteq> None"
    using assms(3) by (simp add: btree_remove_None map_of_eq_None_iff)
  then obtain v es where v: "btree_remove i (answers (ends s)) = Some (v, es)" by fastforce
  obtain r e k where c: "call_receive i (ends s) (ipc_kernel s) = (r, e, k)" by (cases "call_receive i (ends s) (ipc_kernel s)")
  then have "r = Some (demux (fst v))" using call_receive_effect(3)[OF c] v by simp
  then show ?thesis using ipc_return[OF assms(2) c, of serve] by fastforce
qed

lemma can_answer:
  assumes "ipc_inv serve s" and "p \<in> set (serving s)"
  shows "\<exists>s'. ipc_step serve s s' \<and> outstanding s' = outstanding s \<and> issued s' = issued s
    \<and> map_of (answers (ends s')) (pk_id p) \<noteq> None"
proof -
  obtain q t where q: "scheme_handle serve p (server_state s) = (q, t)" by fastforce
  then have h: "handle_all serve [p] (server_state s) = ([q], t)" by simp
  obtain r e k where w: "server_write (concat (map packet_bytes [q])) (ends s) (ipc_kernel s) = (r, e, k)"
    by (cases "server_write (concat (map packet_bytes [q])) (ends s) (ipc_kernel s)")
  have "file_answer q (ends s) (ipc_kernel s) = (e, k)"
    using server_write_answers[OF _ h w] by (simp add: file_answers_def)
  from file_answer_effect(1)[OF this] have "map_of (answers e) (pk_id q) \<noteq> None"
    using assms(1) by (simp add: map_of_btree_insert ipc_inv_def)
  moreover have "pk_id q = pk_id p" using q by (auto simp: scheme_handle_def split: prod.splits)
  ultimately show ?thesis
    using ipc_answer[OF _ _ h w] assms(2) by fastforce
qed

lemma can_read:
  assumes "p \<in> set (waiting (ends s))"
  shows "\<exists>s'. ipc_step serve s s' \<and> outstanding s' = outstanding s \<and> issued s' = issued s \<and> p \<in> set (serving s')"
proof -
  let ?n = "length (waiting (ends s))"
  obtain buf :: "u8 list" where buf: "length buf = SIZE_OF_PACKET * ?n" by (rule that[of "replicate _ 0"]) simp
  obtain r e k where r: "server_read buf (ends s) (ipc_kernel s) = (r, e, k)"
    by (cases "server_read buf (ends s) (ipc_kernel s)")
  obtain x q where q: "waiting (ends s) = x # q" using assms by (cases "waiting (ends s)") auto
  obtain ps rest where pp: "pop_packets (?n - 1) q = (ps, rest)" by fastforce
  have "length ps = length q" using conjunct2[OF pop_packets_append[OF pp]] q by simp
  moreover have "length q = length (ps @ rest)" using pop_packets_append[OF pp] by (rule conjunct1[THEN arg_cong])
  ultimately have "rest = []" by simp
  moreover have "length buf div SIZE_OF_PACKET = ?n" "SIZE_OF_PACKET \<le> length buf"
    using q by (simp_all add: buf SIZE_OF_PACKET_def)
  ultimately have "waiting e = []"
    using r q pp by (auto simp: server_read_def queue_receive_def wait_receive_def)
  then have "p \<in> set (received r)" using server_read_effect(1)[OF r] assms by simp
  then show ?thesis using ipc_read[OF r, of serve] by fastforce
qed

lemma can_complete:
  assumes "ipc_inv serve s" and "issued s < 2 ^ 32 - 1" and "outstanding s i = Some p"
  shows "\<exists>s' r. (ipc_step serve)\<^sup>*\<^sup>* s s' \<and> (p, r) \<in> set (returned s') \<and> outstanding s' i = None \<and> issued s' = issued s"
proof -
  have pid: "pk_id p = i" using ipc_invD(7)[OF assms(1,3)] by simp
  have ret: "\<exists>s2 r. (ipc_step serve)\<^sup>*\<^sup>* s s2 \<and> (p, r) \<in> set (returned s2) \<and> outstanding s2 i = None \<and> issued s2 = issued s"
    if "(ipc_step serve)\<^sup>*\<^sup>* s s1" "ipc_inv serve s1" "outstanding s1 i = Some p" "issued s1 = issued s"
      "map_of (answers (ends s1)) i \<noteq> None" for s1
    using can_return[OF that(2,3,5)] that(1,4) rtranclp.rtrancl_into_rtrancl by metis
  have ans: "\<exists>s2 r. (ipc_step serve)\<^sup>*\<^sup>* s s2 \<and> (p, r) \<in> set (returned s2) \<and> outstanding s2 i = None \<and> issued s2 = issued s"
    if st: "(ipc_step serve)\<^sup>*\<^sup>* s s1" "ipc_inv serve s1" "outstanding s1 i = Some p" "issued s1 = issued s"
      "p \<in> set (serving s1)" for s1
  proof -
    obtain s2 where s2: "ipc_step serve s1 s2" "outstanding s2 = outstanding s1" "issued s2 = issued s1"
        "map_of (answers (ends s2)) i \<noteq> None"
      using can_answer[OF st(2,5)] pid by auto
    show ?thesis
      by (rule ret[OF rtranclp.rtrancl_into_rtrancl[OF st(1) s2(1)] ipc_inv_step[OF s2(1) st(2)]])
         (use s2 st assms(2) in simp_all)
  qed
  consider "p \<in> set (waiting (ends s))" | "p \<in> set (serving s)" | "map_of (answers (ends s)) i \<noteq> None"
    using ipc_invD(7)[OF assms(1,3)] by auto
  then show ?thesis
  proof cases
    case 1
    then obtain s1 where s1: "ipc_step serve s s1" "outstanding s1 = outstanding s" "issued s1 = issued s" "p \<in> set (serving s1)"
      using can_read[of p s serve] by blast
    show ?thesis
      by (rule ans[of s1, OF _ ipc_inv_step[OF s1(1) assms(1)]]) (use s1 assms in auto)
  next
    case 2
    show ?thesis by (rule ans[OF rtranclp.rtrancl_refl assms(1,3) _ 2]) simp
  next
    case 3
    show ?thesis by (rule ret[OF rtranclp.rtrancl_refl assms(1,3) _ 3]) simp
  qed
qed

section \<open>Properties\<close>

text \<open>
  C2. Every client gets the answer to its own request: what a call returns is what the server's
  handler made of that packet, no request is handled twice, and a call that has not returned is in
  the queue, with the server, or answered and filed under its own number. This holds as long as
  fewer than 4294967295 calls were made, so that the numbers have not wrapped around.
\<close>

theorem ipc_answers_match:
  assumes "(ipc_step serve)\<^sup>*\<^sup>* (ipc_start name c k t) s" and "issued s < 2 ^ 32 - 1"
  shows "(\<forall>(p, r) \<in> set (returned s). \<exists>t q. (p, q) \<in> set (handled s) \<and> q = fst (scheme_handle serve p t) \<and> r = demux (pk_a q))
    \<and> distinct (map (pk_id \<circ> fst) (handled s))
    \<and> (\<forall>i p. outstanding s i = Some p \<longrightarrow> pk_id p = i \<and>
        (p \<in> set (waiting (ends s)) \<or> p \<in> set (serving s) \<or>
         (\<exists>q. (p, q) \<in> set (handled s) \<and> map_option fst (map_of (answers (ends s)) i) = Some (pk_a q))))"
proof (intro conjI)
  note I = ipc_invD[OF ipc_inv_reachable[OF assms]]
  show "\<forall>(p, r) \<in> set (returned s). \<exists>t q. (p, q) \<in> set (handled s) \<and> q = fst (scheme_handle serve p t) \<and> r = demux (pk_a q)"
    using I(8,9) by fast
  show "distinct (map (pk_id \<circ> fst) (handled s))" by (rule I(4))
  show "\<forall>i p. outstanding s i = Some p \<longrightarrow> pk_id p = i \<and>
        (p \<in> set (waiting (ends s)) \<or> p \<in> set (serving s) \<or>
         (\<exists>q. (p, q) \<in> set (handled s) \<and> map_option fst (map_of (answers (ends s)) i) = Some (pk_a q)))"
  proof (intro allI impI conjI)
    fix i p assume o: "outstanding s i = Some p"
    show "pk_id p = i" using I(7)[OF o] by simp
    consider "p \<in> set (waiting (ends s) @ serving s)" | v where "map_of (answers (ends s)) i = Some v"
      using I(7)[OF o] by blast
    then show "p \<in> set (waiting (ends s)) \<or> p \<in> set (serving s) \<or>
         (\<exists>q. (p, q) \<in> set (handled s) \<and> map_option fst (map_of (answers (ends s)) i) = Some (pk_a q))"
    proof cases
      case 2 then show ?thesis using I(6)[OF 2] o by auto
    qed auto
  qed
qed

definition demo_serve :: "Request \<Rightarrow> unit \<Rightarrow> usize result \<times> unit" where
  "demo_serve r t = (request_default r, t)"

definition demo_ipc :: "(unit, unit) Ipc" where
  "demo_ipc = ipc_start ''demo'' 2 (demo_kernel [] 0) ()"

definition demo_called :: "(unit, unit) Ipc" where
  "demo_called = (let (i, e, k) = call_send SYS_CLOSE 7 0 0 (ends demo_ipc) (ipc_kernel demo_ipc)
     in demo_ipc\<lparr>ends := e, ipc_kernel := k, issued := 1,
          outstanding := [i \<mapsto> \<lparr>pk_id = i, pk_a = SYS_CLOSE, pk_b = 7, pk_c = 0, pk_d = 0\<rparr>]\<rparr>)"

abbreviation demo_close :: Packet where
  "demo_close \<equiv> \<lparr>pk_id = 1, pk_a = SYS_CLOSE, pk_b = 7, pk_c = 0, pk_d = 0\<rparr>"

lemma demo_called_step: "ipc_step demo_serve demo_ipc demo_called"
  using ipc_call[of SYS_CLOSE 7 0 0 demo_ipc _ _ _ demo_serve]
  by (simp add: demo_called_def demo_ipc_def ipc_start_def split: prod.splits)

lemma demo_called_facts: "issued demo_called = 1" "outstanding demo_called 1 = Some demo_close"
  by (simp_all add: demo_called_def demo_ipc_def ipc_start_def inner_new_def call_send_def Let_def split: prod.splits)

lemma demo_called_reach:
  "(ipc_step demo_serve)\<^sup>*\<^sup>* (ipc_start ''demo'' 2 (demo_kernel [] 0) ()) demo_called" "ipc_inv demo_serve demo_called"
  using demo_called_step ipc_inv_reachable[of demo_serve "''demo''" 2 "demo_kernel [] 0" "()" demo_called] demo_called_facts(1)
  by (auto simp: demo_ipc_def)

theorem ipc_answers_match_witness:
  "\<exists>s. (ipc_step demo_serve)\<^sup>*\<^sup>* (ipc_start ''demo'' 2 (demo_kernel [] 0) ()) s \<and> (demo_close, Err EBADF) \<in> set (returned s)"
proof -
  obtain s r where s: "(ipc_step demo_serve)\<^sup>*\<^sup>* demo_called s" "(demo_close, r) \<in> set (returned s)" "issued s = 1"
    using can_complete[OF demo_called_reach(2) _ demo_called_facts(2)] demo_called_facts(1) by auto
  then have reach: "(ipc_step demo_serve)\<^sup>*\<^sup>* (ipc_start ''demo'' 2 (demo_kernel [] 0) ()) s"
    using demo_called_reach(1) by simp
  obtain t where "r = demux (pk_a (fst (scheme_handle demo_serve demo_close t)))"
    using ipc_answers_match[OF reach] s(2,3) by fastforce
  moreover have "pk_a (fst (scheme_handle demo_serve demo_close t)) = mux (Err EBADF)"
    by (simp add: scheme_handle_def packet_request_def demo_serve_def request_default_def redox_consts)
  moreover have "known_errno EBADF" by (simp add: known_errno_def EBADF_def)
  ultimately have "r = Err EBADF" by (simp only: demux_mux_Err)
  then show ?thesis using reach s(2) by blast
qed

section \<open>An answer wakes its client\<close>

abbreviation client_step ::
  "((usize \<times> answer) list, usize, 'r) Channel \<Rightarrow> ((usize \<times> answer) list, usize, 'r) Channel \<Rightarrow> bool" where
  "client_step \<equiv> channel_step btree_remove (\<lambda>(key, v). btree_insert key v)"

lemma client_step_sorted: "client_step\<^sup>*\<^sup>* s s' \<Longrightarrow> btree_ok (wait_inner (chan s)) \<Longrightarrow> btree_ok (wait_inner (chan s'))"
proof (induction rule: rtranclp_induct)
  case (step s1 s2)
  from step(2) show ?case
  proof (cases rule: channel_step.cases)
    case (step_send msg w k)
    then show ?thesis using step(3,4) btree_insert_ok by (auto simp: wait_send_def condition_notify_def split: prod.splits)
  next
    case (step_receive c q v w k)
    then show ?thesis
      using step(3,4) btree_remove_Some[of q "wait_inner (chan s1)"]
      by (fastforce simp: wait_receive_def split: option.splits prod.splits)
  qed (use step(3,4) in auto)
qed

text \<open>Writing answers is a sequence of sends on the map.\<close>

lemma file_answers_steps:
  "file_answers qs e k = (e', k') \<Longrightarrow>
   client_step\<^sup>*\<^sup>* \<lparr>chan = served e, kern = k, pending = w\<rparr> \<lparr>chan = served e', kern = k', pending = w\<rparr>"
proof (induction qs arbitrary: e k)
  case (Cons q qs)
  obtain e1 k1 where f: "file_answer q e k = (e1, k1)" by fastforce
  have "wait_send (btree_insert (pk_id q) (pk_a q, pk_b q, pk_c q, pk_d q)) (served e) k = (served e1, k1)"
    using f by (auto simp: file_answer_def map_send_def split: prod.splits)
  then have st: "client_step \<lparr>chan = served e, kern = k, pending = w\<rparr> \<lparr>chan = served e1, kern = k1, pending = w\<rparr>"
    using step_send[of "\<lambda>(key, v). btree_insert key v" "(pk_id q, pk_a q, pk_b q, pk_c q, pk_d q)"
        "\<lparr>chan = served e, kern = k, pending = w\<rparr>" "served e1" k1 btree_remove] by simp
  have "file_answers qs e1 k1 = (e', k')" using Cons.prems f by (simp add: file_answers_def)
  from converse_rtranclp_into_rtranclp[OF st Cons.IH[OF this]] show ?case .
qed (simp add: file_answers_def)

lemma file_answers_filed:
  assumes "file_answers qs e k = (e', k')" and "btree_ok (answers e)" and "distinct (map pk_id qs)"
  shows "map_of (answers e') i =
    (case find (\<lambda>q. pk_id q = i) qs of Some q \<Rightarrow> Some (pk_a q, pk_b q, pk_c q, pk_d q) | None \<Rightarrow> map_of (answers e) i)"
  using assms
proof (induction qs arbitrary: e k)
  case (Cons q qs)
  obtain e1 k1 where f: "file_answer q e k = (e1, k1)" by fastforce
  have F: "file_answers qs e1 k1 = (e', k')" using Cons.prems f by (simp add: file_answers_def)
  have b: "btree_ok (answers e1)" using file_answer_effect(1)[OF f] Cons.prems(2) by (simp add: btree_insert_ok)
  have m: "map_of (answers e1) = (map_of (answers e))(pk_id q \<mapsto> (pk_a q, pk_b q, pk_c q, pk_d q))"
    using file_answer_effect(1)[OF f] Cons.prems(2) by (simp add: map_of_btree_insert)
  have "find (\<lambda>q'. pk_id q' = pk_id q) qs = None" using Cons.prems(3) by (simp add: find_None_iff image_iff) metis
  then show ?case using Cons.IH[OF F b] Cons.prems(3) m by (auto split: option.split)
qed (simp add: file_answers_def)

lemma find_by_number: "distinct (map pk_id qs) \<Longrightarrow> q \<in> set qs \<Longrightarrow> find (\<lambda>x. pk_id x = pk_id q) qs = Some q"
  by (induction qs) (auto simp: image_iff)

lemma call_receive_filed:
  assumes "btree_ok (answers e)" and "map_of (answers e) i = Some v"
  shows "\<exists>e'. call_receive i e k = (Some (demux (fst v)), e', k)"
proof -
  have "i \<in> fst ` set (answers e)" using assms(2) by (metis domI dom_map_of_conv_image_fst)
  then obtain w es where r: "btree_remove i (answers e) = Some (w, es)" using btree_remove_None[of i "answers e"] by fastforce
  then have "w = v" using btree_remove_Some[OF r assms(1)] assms(2) by simp
  then show ?thesis using r by (simp add: call_receive_def map_receive_def wait_receive_def)
qed

text \<open>
  C14. An answer wakes the client it is for. Start with nobody waiting, and let clients wait for their
  answers, the server answer, the scheduler switch and the rest of the kernel run, in any order, up to a state where a
  context sleeps waiting for the answer number \<^term>\<open>rid\<close>. No such answer is there. When the server then writes answers and one of
  them has that number, the whole buffer is accepted, the client is no longer blocked, and its next attempt
  returns the result in that packet and does not block it again. As long as the answer has not been
  fetched, nothing that happens makes the client sleep again.
\<close>

theorem answer_wakes_client:
  fixes s0 s :: "((usize \<times> answer) list, usize, 'r) Channel"
  assumes "client_step\<^sup>*\<^sup>* s0 s" and "pending s0 = Map.empty" and "btree_ok (wait_inner (chan s0))"
    and "c \<in> set (inner (kern s))" and "blocked c" and "pending s (pid c) = Some rid" and "served e = chan s"
    and "distinct (map pk_id qs)" and "q \<in> set qs" and "pk_id q = rid"
    and "server_write (concat (map packet_bytes qs)) e (kern s) = (r, e', k')"
  shows "fst (call_receive rid e (kern s)) = None \<and> r = Ok (SIZE_OF_PACKET * length qs)
    \<and> (\<forall>d \<in> set (inner k'). pid d = pid c \<longrightarrow> \<not> blocked d)
    \<and> (\<forall>k :: 'r Kernel. \<exists>e2. call_receive rid e' k = (Some (demux (pk_a q)), e2, k))
    \<and> (\<forall>s2. client_step\<^sup>*\<^sup>* (s\<lparr>chan := served e', kern := k'\<rparr>) s2 \<and> rid \<in> fst ` set (wait_inner (chan s2)) \<longrightarrow>
         (\<forall>d \<in> set (inner (kern s2)). pending s2 (pid d) = Some rid \<longrightarrow> \<not> blocked d))"
proof -
  have "channel_inv btree_remove s0" using assms(2) by (simp add: channel_inv_def)
  note inv = wait_map.inv_reachable[OF assms(1) this]
  have none: "btree_remove rid (answers e) = None" using inv assms(4-7) by (auto simp: channel_inv_def)
  have ne: "qs \<noteq> []" using assms(9) by auto
  have fa: "file_answers qs e (kern s) = (e', k')" "r = Ok (SIZE_OF_PACKET * length qs)"
    using server_write_packets[OF ne, of "[]" e "kern s"] assms(11) by (auto simp: SIZE_OF_PACKET_def split: prod.splits)
  let ?s = "s\<lparr>chan := served e', kern := k'\<rparr>"
  have st: "client_step\<^sup>*\<^sup>* s ?s" using file_answers_steps[OF fa(1), of "pending s"] assms(7) by (cases s) simp
  have awake: "\<not> blocked d" if "client_step\<^sup>*\<^sup>* ?s s2" "rid \<in> fst ` set (wait_inner (chan s2))" "d \<in> set (inner (kern s2))"
      "pending s2 (pid d) = Some rid" for s2 d
    using wait_map.inv_reachable[OF that(1) wait_map.inv_reachable[OF st inv]] that(2-4)
    by (auto simp: channel_inv_def btree_remove_None)
  have ok: "btree_ok (answers e)" "btree_ok (answers e')"
    using client_step_sorted[OF assms(1,3)] client_step_sorted[OF rtranclp_trans[OF assms(1) st] assms(3)] assms(7) by simp_all
  have filed: "map_of (answers e') rid = Some (pk_a q, pk_b q, pk_c q, pk_d q)"
    using file_answers_filed[OF fa(1) ok(1) assms(8)] find_by_number[OF assms(8,9)] assms(10) by simp
  then have "rid \<in> fst ` set (answers e')" by (metis domI dom_map_of_conv_image_fst)
  then have "\<forall>d \<in> set (inner k'). pid d = pid c \<longrightarrow> \<not> blocked d" using awake[of ?s] assms(6) by auto
  moreover have "fst (call_receive rid e (kern s)) = None"
    using none by (simp add: call_receive_def map_receive_def wait_receive_def split: prod.split)
  moreover have "\<forall>k :: 'r Kernel. \<exists>e2. call_receive rid e' k = (Some (demux (pk_a q)), e2, k)"
    using call_receive_filed[OF ok(2) filed] unfolding fst_conv by blast
  ultimately show ?thesis using fa(2) awake by blast
qed

definition demo_client :: "usize list \<Rightarrow> bool \<Rightarrow> (usize \<Rightarrow> usize option) \<Rightarrow> ((usize \<times> answer) list, usize, unit) Channel" where
  "demo_client ws b p = \<lparr>chan = \<lparr>wait_inner = [], condition = ws\<rparr>,
     kern = demo_kernel [demo_context 1 False False, demo_context 2 b False] 1, pending = p\<rparr>"

lemma demo_client_step: "client_step\<^sup>*\<^sup>* (demo_client [] False Map.empty) (demo_client [2] True [2 \<mapsto> 1])"
proof -
  let ?s = "demo_client [] False Map.empty" and ?t = "demo_client [2] True [2 \<mapsto> 1]"
  have "client_step ?s
      (?s\<lparr>chan := chan ?t, kern := kern ?t,
        pending := (pending ?s)(pid (demo_context 2 False False) := if (None :: answer option) = None then Some 1 else None)\<rparr>)"
    by (rule step_receive)
       (simp_all add: demo_client_def demo_kernel_def demo_context_def blank_context_def current_def
         manager_get_def wait_receive_def condition_wait_def put_context_def)
  then show ?thesis by (simp add: demo_client_def demo_context_def blank_context_def)
qed

theorem answer_wakes_client_witness:
  "\<exists>e' k'. server_write (packet_bytes (demo_close\<lparr>pk_a := 0\<rparr>)) ((inner_new ''demo'' 1)\<lparr>served := \<lparr>wait_inner = [], condition = [2]\<rparr>\<rparr>)
       (demo_kernel [demo_context 1 False False, demo_context 2 True False] 1) = (Ok 20, e', k')
     \<and> (\<forall>d \<in> set (inner k'). pid d = 2 \<longrightarrow> \<not> blocked d) \<and> fst (call_receive 1 e' k') = Some (demux 0)"
proof -
  let ?e = "(inner_new ''demo'' 1)\<lparr>served := \<lparr>wait_inner = [], condition = [2]\<rparr>\<rparr>" and ?q = "demo_close\<lparr>pk_a := 0\<rparr>"
  let ?t = "demo_client [2] True [2 \<mapsto> 1]" and ?c = "demo_context 2 True False"
  obtain r e' k' where w: "server_write (concat (map packet_bytes [?q])) ?e (kern ?t) = (r, e', k')"
    by (cases "server_write (concat (map packet_bytes [?q])) ?e (kern ?t)")
  have h: "pending (demo_client [] False Map.empty) = Map.empty" "btree_ok (wait_inner (chan (demo_client [] False Map.empty)))"
    "?c \<in> set (inner (kern ?t))" "blocked ?c" "pending ?t (pid ?c) = Some 1" "served ?e = chan ?t"
    "distinct (map pk_id [?q])" "?q \<in> set [?q]" "pk_id ?q = 1" "pid ?c = 2"
    by (simp_all add: demo_client_def demo_kernel_def demo_context_def blank_context_def)
  note A = answer_wakes_client[OF demo_client_step h(1-9) w]
  then obtain e2 where "call_receive 1 e' k' = (Some (demux (pk_a ?q)), e2, k')" by blast
  then show ?thesis using A w h(10) by (auto simp: demo_client_def SIZE_OF_PACKET_def)
qed

end
