(* ===== verification/RedoxFs.thy ===== *)
theory RedoxFs
  imports Resource Text Bytes Abi
begin

text \<open>
  The file system (\<^verbatim>\<open>kernel/fs/redoxfs\<close>) and the scheme \<^verbatim>\<open>file:\<close> on it
  (\<^verbatim>\<open>kernel/schemes/file.rs\<close>). The disk is behind the trait \<^verbatim>\<open>Disk\<close>: its operations are a
  table over its state. Whether an allocation \<^verbatim>\<open>Memory::new\<close> of a number of bytes succeeds is
  the argument \<^term>\<open>avail\<close>; the memory it gives is zeroed. File resources hold a pointer to their scheme; here the file
  system is passed to and returned from their operations.
\<close>

section \<open>On the disk\<close>

record Extent =
  ex_block :: u64
  ex_length :: u64

definition extent_empty :: "Extent \<Rightarrow> bool" where
  "extent_empty e \<longleftrightarrow> ex_block e = 0 \<or> ex_length e = 0"

record 'd DiskOps =
  dk_name :: "'d \<Rightarrow> string"
  dk_read :: "u64 \<Rightarrow> u8 list \<Rightarrow> 'd \<Rightarrow> usize result \<times> u8 list \<times> 'd"
  dk_write :: "u64 \<Rightarrow> u8 list \<Rightarrow> 'd \<Rightarrow> usize result \<times> 'd"

record Header =
  signature :: "u8 list"
  version :: u64
  free_space :: Extent
  padding :: "u8 list"
  hd_extents :: "Extent list"

definition header_valid :: "Header \<Rightarrow> bool" where
  "header_valid h \<longleftrightarrow> signature h = as_bytes ''REDOXFS'' @ [0] \<and> version h = 1"

record NodeData =
  ndata_name :: "u8 list"
  ndata_extents :: "Extent list"

record Node =
  nd_block :: u64
  nd_name :: string
  nd_extents :: "Extent list"

text \<open>The layout of the packed structures.\<close>

definition extent_bytes :: "Extent \<Rightarrow> u8 list" where
  "extent_bytes e = le_bytes 8 (ex_block e) @ le_bytes 8 (ex_length e)"

definition bytes_extent :: "u8 list \<Rightarrow> Extent" where
  "bytes_extent bs = \<lparr>ex_block = le_word (take 8 bs), ex_length = le_word (take 8 (drop 8 bs))\<rparr>"

fun bytes_extents :: "nat \<Rightarrow> u8 list \<Rightarrow> Extent list" where
  "bytes_extents 0 bs = []"
| "bytes_extents (Suc n) bs = bytes_extent bs # bytes_extents n (drop 16 bs)"

definition bytes_header :: "u8 list \<Rightarrow> Header" where
  "bytes_header bs =
     \<lparr>signature = take 8 bs, version = le_word (take 8 (drop 8 bs)), free_space = bytes_extent (drop 16 bs),
      padding = take 224 (drop 32 bs), hd_extents = bytes_extents 16 (drop 256 bs)\<rparr>"

definition node_data_bytes :: "NodeData \<Rightarrow> u8 list" where
  "node_data_bytes n = ndata_name n @ concat (map extent_bytes (ndata_extents n))"

definition bytes_node_data :: "u8 list \<Rightarrow> NodeData" where
  "bytes_node_data bs = \<lparr>ndata_name = take 256 bs, ndata_extents = bytes_extents 16 (drop 256 bs)\<rparr>"

definition node_new :: "u64 \<Rightarrow> NodeData \<Rightarrow> Node" where
  "node_new b d =
     \<lparr>nd_block = b, nd_name = map (\<lambda>b. char_of (unat b)) (takeWhile (\<lambda>x. x > 0) (ndata_name d)), nd_extents = ndata_extents d\<rparr>"

definition node_data :: "Node \<Rightarrow> NodeData" where
  "node_data n =
     (let bs = take 256 (as_bytes (nd_name n))
      in \<lparr>ndata_name = bs @ replicate (256 - length bs) 0, ndata_extents = nd_extents n\<rparr>)"

section \<open>The file system\<close>

record 'd FileSystem =
  fs_disk :: 'd
  fs_header :: Header
  fs_nodes :: "Node list"

text \<open>\<^verbatim>\<open>current_sectors * 512\<close>, with the length cut to a machine word first.\<close>

definition max_size :: "Extent \<Rightarrow> usize" where
  "max_size e = (ucast (ex_length e) + 511) div 512 * 512"

definition extent_nodes :: "Extent \<Rightarrow> u8 list \<Rightarrow> Node list" where
  "extent_nodes e buf =
     map (\<lambda>i. node_new (ex_block e + of_nat i) (bytes_node_data (take 512 (drop (512 * i) buf))))
       [0..<unat (min (ucast (ex_length e)) (max_size e)) div 512]"

fun mount_extents :: "'d DiskOps \<Rightarrow> (nat \<Rightarrow> bool) \<Rightarrow> Extent list \<Rightarrow> 'd \<Rightarrow> Node list result \<times> 'd" where
  "mount_extents ops avail [] d = (Ok [], d)"
| "mount_extents ops avail (e # es) d =
     (if ex_block e > 0 \<and> ex_length e > 0 \<and> avail (unat (max_size e)) then
        (case dk_read ops (ex_block e) (replicate (unat (max_size e)) 0) d of
           (Inl err, buf, d) \<Rightarrow> (Err err, d)
         | (Inr n, buf, d) \<Rightarrow>
             (case mount_extents ops avail es d of
                (Inl err, d) \<Rightarrow> (Err err, d)
              | (Inr nodes, d) \<Rightarrow> (Ok (extent_nodes e buf @ nodes), d)))
      else mount_extents ops avail es d)"

definition from_disk :: "'d DiskOps \<Rightarrow> (nat \<Rightarrow> bool) \<Rightarrow> 'd \<Rightarrow> 'd FileSystem result" where
  "from_disk ops avail d =
     (if avail 512 then
        (case dk_read ops 1 (replicate 512 0) d of
           (Inl err, buf, d) \<Rightarrow> Err err
         | (Inr n, buf, d) \<Rightarrow>
             (let h = bytes_header buf in
              if header_valid h then
                (case mount_extents ops avail (hd_extents h) d of
                   (Inl err, d) \<Rightarrow> Err err
                 | (Inr nodes, d) \<Rightarrow> Ok \<lparr>fs_disk = d, fs_header = h, fs_nodes = nodes\<rparr>)
              else Err EINVAL))
      else Err ENOMEM)"

definition fs_node :: "'d FileSystem \<Rightarrow> string \<Rightarrow> Node option" where
  "fs_node fs filename = find (\<lambda>n. nd_name n = filename) (fs_nodes fs)"

definition starts_with :: "string \<Rightarrow> string \<Rightarrow> bool" where
  "starts_with s p \<longleftrightarrow> take (length p) s = p"

definition fs_list :: "'d FileSystem \<Rightarrow> string \<Rightarrow> string list" where
  "fs_list fs directory_str =
     (let directory = (if directory_str = [] then directory_str else directory_str @ ''/'')
      in map (\<lambda>n. slice_from (nd_name n) (length directory))
           (filter (\<lambda>n. starts_with (nd_name n) directory) (fs_nodes fs)))"

section \<open>An open file\<close>

record FileResource =
  fr_node :: Node
  fr_vec :: "u8 list"
  fr_seek :: nat
  fr_dirty :: bool

text \<open>The loops of \<^verbatim>\<open>read\<close> and \<^verbatim>\<open>write\<close> are those of \<^verbatim>\<open>VecResource\<close>.\<close>

definition vec_part :: "FileResource \<Rightarrow> VecResource" where
  "vec_part f = \<lparr>vr_path = [], vr_data = fr_vec f, vr_seek = fr_seek f\<rparr>"

definition file_dup :: "FileResource \<Rightarrow> FileResource result" where
  "file_dup f = Ok f"

definition file_path :: "FileResource \<Rightarrow> u8 list \<Rightarrow> nat result \<times> u8 list" where
  "file_path f buf =
     (let path = as_bytes ''file:/'' @ as_bytes (nd_name (fr_node f)); n = min (length buf) (length path)
      in (Ok n, take n path @ drop n buf))"

definition file_read :: "FileResource \<Rightarrow> u8 list \<Rightarrow> nat result \<times> u8 list \<times> FileResource" where
  "file_read f buf = (let (i, buf, r) = read_loop (vec_part f) buf 0 in (Ok i, buf, f\<lparr>fr_seek := vr_seek r\<rparr>))"

definition file_write :: "FileResource \<Rightarrow> u8 list \<Rightarrow> nat result \<times> FileResource" where
  "file_write f buf =
     (let (i, r) = overwrite_loop (vec_part f) buf 0; (i, r) = append_loop r buf i
      in (Ok i, f\<lparr>fr_vec := vr_data r, fr_seek := vr_seek r, fr_dirty := (if i > 0 then True else fr_dirty f)\<rparr>))"

definition file_seek :: "FileResource \<Rightarrow> ResourceSeek \<Rightarrow> nat result \<times> FileResource" where
  "file_seek f p =
     (let s = (case p of
                 SeekStart offset \<Rightarrow> unat offset
               | SeekCurrent offset \<Rightarrow> nat (max 0 (sint (of_nat (fr_seek f) + offset :: isize)))
               | SeekEnd offset \<Rightarrow> nat (max 0 (sint (of_nat (length (fr_vec f)) + offset :: isize))))
      in (Ok s, f\<lparr>fr_seek := s, fr_vec := pad_loop (fr_vec f) s\<rparr>))"

definition file_truncate :: "FileResource \<Rightarrow> nat \<Rightarrow> unit result \<times> FileResource" where
  "file_truncate f len =
     (let vec = take len (pad_loop (fr_vec f) len)
      in (Ok (), f\<lparr>fr_vec := vec, fr_seek := min (fr_seek f) (length vec), fr_dirty := True\<rparr>))"

section \<open>Writing a file back\<close>

definition isize_div :: "isize \<Rightarrow> isize \<Rightarrow> isize" where
  "isize_div a b = of_int (sgn (sint a) * sgn (sint b) * (\<bar>sint a\<bar> div \<bar>sint b\<bar>))"

record 'd SyncState =
  sy_fs :: "'d FileSystem"
  sy_vec :: "u8 list"
  sy_pos :: nat
  sy_remaining :: isize
  sy_dirty :: bool

text \<open>An empty extent is given what is needed from the start of the free space.\<close>

definition place_extent :: "isize \<Rightarrow> Extent \<Rightarrow> Header \<Rightarrow> Extent \<times> Header \<times> bool" where
  "place_extent remaining e h =
     (let sectors = scast (isize_div (remaining + 511) 512) :: u64; free = free_space h
      in if 0 < sint remaining \<and> extent_empty e \<and> ex_length free \<ge> sectors * 512
         then (\<lparr>ex_block = ex_block free, ex_length = scast remaining\<rparr>,
               h\<lparr>free_space := \<lparr>ex_block = ex_block free + sectors, ex_length = ex_length free - sectors * 512\<rparr>\<rparr>, True)
         else (e, h, False))"

text \<open>A valid extent takes its part of the file.\<close>

definition flush_extent :: "'d DiskOps \<Rightarrow> Extent \<Rightarrow> 'd SyncState \<Rightarrow> Extent \<times> 'd SyncState" where
  "flush_extent ops e s =
     (if extent_empty e then (e, s)
      else (let size = min (sy_remaining s) (max_size e);
                vec = pad_loop (sy_vec s) (sy_pos s + unat (max_size e));
                d = snd (dk_write ops (ex_block e) (take (unat (max_size e)) (drop (sy_pos s) vec)) (fs_disk (sy_fs s)))
            in (e\<lparr>ex_length := ucast size\<rparr>,
                \<lparr>sy_fs = (sy_fs s)\<lparr>fs_disk := d\<rparr>, sy_vec = take (sy_pos s + unat size) vec, sy_pos = sy_pos s + unat size,
                 sy_remaining = sy_remaining s - size, sy_dirty = (sy_dirty s \<or> ucast size \<noteq> ex_length e)\<rparr>)))"

definition sync_extent :: "'d DiskOps \<Rightarrow> Extent \<Rightarrow> 'd SyncState \<Rightarrow> Extent \<times> 'd SyncState" where
  "sync_extent ops e s =
     (let (e, h, placed) = place_extent (sy_remaining s) e (fs_header (sy_fs s))
      in flush_extent ops e (s\<lparr>sy_fs := (sy_fs s)\<lparr>fs_header := h\<rparr>, sy_dirty := (sy_dirty s \<or> placed)\<rparr>))"

fun sync_loop :: "'d DiskOps \<Rightarrow> Extent list \<Rightarrow> 'd SyncState \<Rightarrow> Extent list \<times> 'd SyncState" where
  "sync_loop ops [] s = ([], s)"
| "sync_loop ops (e # es) s = (let (e, s) = sync_extent ops e s; (es, s) = sync_loop ops es s in (e # es, s))"

text \<open>The changed node goes to its block and into the table of nodes.\<close>

definition write_node :: "'d DiskOps \<Rightarrow> (nat \<Rightarrow> bool) \<Rightarrow> Node \<Rightarrow> 'd FileSystem \<Rightarrow> 'd FileSystem" where
  "write_node ops avail n fs =
     (if nd_block n > 0 \<and> avail 512
      then fs\<lparr>fs_disk := snd (dk_write ops (nd_block n) (node_data_bytes (node_data n)) (fs_disk fs)),
              fs_nodes := map (\<lambda>x. if nd_block x = nd_block n then n else x) (fs_nodes fs)\<rparr>
      else fs)"

definition file_sync ::
  "'d DiskOps \<Rightarrow> (nat \<Rightarrow> bool) \<Rightarrow> FileResource \<Rightarrow> 'd FileSystem \<Rightarrow> unit result \<times> FileResource \<times> 'd FileSystem" where
  "file_sync ops avail f fs =
     (if fr_dirty f then
        (let (es, s) = sync_loop ops (nd_extents (fr_node f))
               \<lparr>sy_fs = fs, sy_vec = fr_vec f, sy_pos = 0, sy_remaining = of_nat (length (fr_vec f)), sy_dirty = False\<rparr>;
             node = (fr_node f)\<lparr>nd_extents := es\<rparr>;
             fs = (if sy_dirty s then write_node ops avail node (sy_fs s) else sy_fs s)
         in (if 0 < sint (sy_remaining s) then Err EIO else Ok (),
             f\<lparr>fr_node := node, fr_vec := sy_vec s, fr_dirty := False\<rparr>, fs))
      else (Ok (), f, fs))"

definition file_drop :: "'d DiskOps \<Rightarrow> (nat \<Rightarrow> bool) \<Rightarrow> FileResource \<Rightarrow> 'd FileSystem \<Rightarrow> 'd FileSystem" where
  "file_drop ops avail f fs = snd (snd (file_sync ops avail f fs))"

section \<open>The scheme\<close>

fun file_scheme_new :: "'d DiskOps \<Rightarrow> (nat \<Rightarrow> bool) \<Rightarrow> 'd list \<Rightarrow> 'd FileSystem option" where
  "file_scheme_new ops avail [] = None"
| "file_scheme_new ops avail (d # ds) =
     (case from_disk ops avail d of Inr fs \<Rightarrow> Some fs | Inl _ \<Rightarrow> file_scheme_new ops avail ds)"

definition trim_slashes :: "string \<Rightarrow> string" where
  "trim_slashes s = (let slash = (\<lambda>c. c = CHR ''/'') in rev (dropWhile slash (rev (dropWhile slash s))))"

definition dir_step :: "string \<times> string list \<Rightarrow> string \<Rightarrow> string \<times> string list" where
  "dir_step s file =
     (let (list, dirs) = s;
          (line, dirs) =
            (case find_char (\<lambda>c. c = CHR ''/'') file of
               Some index \<Rightarrow>
                 (let dirname = slice_to file (index + 1)
                  in if dirname \<in> set dirs then ([], dirs) else (dirname, dirs @ [dirname]))
             | None \<Rightarrow> (file, dirs))
      in (if line \<noteq> [] then (if list \<noteq> [] then list @ [CHR 0x0A] @ line else line) else list, dirs))"

definition dir_listing :: "string list \<Rightarrow> string" where
  "dir_listing children = fst (foldl dir_step ([], []) children)"

datatype FileHandle = Listing VecResource | OpenFile FileResource

fun load_extents :: "'d DiskOps \<Rightarrow> Extent list \<Rightarrow> u8 list \<Rightarrow> 'd \<Rightarrow> u8 list \<times> 'd" where
  "load_extents ops [] vec d = (vec, d)"
| "load_extents ops (e # es) vec d =
     (if ex_block e > 0 \<and> ex_length e > 0 then
        (let size = min (ucast (ex_length e)) (max_size e);
             (r, buf, d) = dk_read ops (ex_block e) (replicate (unat (max_size e)) 0) d
         in load_extents ops es (vec @ take (unat size) buf) d)
      else load_extents ops es vec d)"

definition create_node :: "string \<Rightarrow> Header \<Rightarrow> Node \<times> Header" where
  "create_node path h =
     (let node = \<lparr>nd_block = 0, nd_name = path, nd_extents = replicate 16 \<lparr>ex_block = 0, ex_length = 0\<rparr>\<rparr>; free = free_space h
      in if ex_length free \<ge> 512
         then (node\<lparr>nd_block := ex_block free\<rparr>,
               h\<lparr>free_space := \<lparr>ex_block = ex_block free + 1, ex_length = ex_length free - 512\<rparr>\<rparr>)
         else (node, h))"

definition file_scheme_open ::
  "'d DiskOps \<Rightarrow> Url \<Rightarrow> usize \<Rightarrow> 'd FileSystem \<Rightarrow> FileHandle result \<times> 'd FileSystem" where
  "file_scheme_open ops url flags fs =
     (let path = trim_slashes (url_reference url); children = fs_list fs path in
      if children \<noteq> [] then
        (let list = dir_listing children
         in (if list \<noteq> [] then Ok (Listing (vec_new (url_to_string url) (as_bytes list))) else Err ENOENT, fs))
      else (case fs_node fs path of
              Some node \<Rightarrow>
                (let (vec, d) = load_extents ops (nd_extents node) [] (fs_disk fs);
                     f = \<lparr>fr_node = node, fr_vec = vec, fr_seek = 0, fr_dirty = False\<rparr>
                 in (Ok (OpenFile (if flags AND O_TRUNC = O_TRUNC then snd (file_truncate f 0) else f)), fs\<lparr>fs_disk := d\<rparr>))
            | None \<Rightarrow>
                if flags AND O_CREAT = O_CREAT then
                  (let (node, h) = create_node path (fs_header fs)
                   in (Ok (OpenFile \<lparr>fr_node = node, fr_vec = [], fr_seek = 0, fr_dirty = False\<rparr>),
                       fs\<lparr>fs_header := h, fs_nodes := fs_nodes fs @ [node]\<rparr>))
                else (Err ENOENT, fs)))"

definition stat_size :: "Extent list \<Rightarrow> u64" where
  "stat_size es = foldl (\<lambda>n e. if ex_block e > 0 \<and> ex_length e > 0 then n + ex_length e else n) 0 es"

definition file_scheme_stat :: "Url \<Rightarrow> Stat \<Rightarrow> 'd FileSystem \<Rightarrow> unit result \<times> Stat" where
  "file_scheme_stat url st fs =
     (let path = trim_slashes (url_reference url); children = fs_list fs path in
      if children \<noteq> [] then
        (let list = dir_listing children
         in if list \<noteq> [] then (Ok (), st\<lparr>st_mode := MODE_DIR, st_size := of_nat (length list)\<rparr>) else (Err ENOENT, st))
      else (case fs_node fs path of
              Some node \<Rightarrow> (Ok (), st\<lparr>st_mode := MODE_FILE, st_size := stat_size (nd_extents node)\<rparr>)
            | None \<Rightarrow> (Err ENOENT, st)))"

function unlink_loop :: "string \<Rightarrow> nat \<Rightarrow> Node list \<Rightarrow> unit result \<Rightarrow> unit result \<times> Node list" where
  "unlink_loop path i ns ret =
     (if i < length ns then
        (if nd_name (ns ! i) = path then unlink_loop path i (take i ns @ drop (Suc i) ns) (Ok ())
         else unlink_loop path (i + 1) ns ret)
      else (ret, ns))"
  by pat_completeness auto
termination by (relation "measure (\<lambda>(path, i, ns, ret). length ns - i)") auto

definition file_scheme_unlink :: "Url \<Rightarrow> 'd FileSystem \<Rightarrow> unit result \<times> 'd FileSystem" where
  "file_scheme_unlink url fs =
     (let (ret, ns) = unlink_loop (trim_slashes (url_reference url)) 0 (fs_nodes fs) (Err ENOENT)
      in (ret, fs\<lparr>fs_nodes := ns\<rparr>))"

definition file_scheme_name :: string where
  "file_scheme_name = ''file''"

declare unlink_loop.simps [simp del]

end
