(* ===== verification/DiskFiles.thy ===== *)
theory DiskFiles
  imports RedoxFs
begin

text \<open>
  Properties of the file system of \<^verbatim>\<open>RedoxFs\<close>: what \<^verbatim>\<open>sync\<close> puts on the disk is what
  \<^verbatim>\<open>open\<close> and a later mount read, sizes and removal, and the contract of byte files for open files.
\<close>

section \<open>Disks\<close>

text \<open>
  What the code relies on of a disk of \<^term>\<open>cap\<close> sectors: reading gives the contents of the
  sectors, writing changes those and no others. \<^term>\<open>sec\<close> is the contents of a sector.
\<close>

definition disk_ok :: "'d DiskOps \<Rightarrow> ('d \<Rightarrow> u64 \<Rightarrow> u8 list) \<Rightarrow> nat \<Rightarrow> bool" where
  "disk_ok ops sec cap \<longleftrightarrow>
     cap < 2 ^ 64 \<and> (\<forall>d b. length (sec d b) = 512)
   \<and> (\<forall>d b n. unat b + n \<le> cap \<longrightarrow>
        (\<exists>r. dk_read ops b (replicate (512 * n) 0) d = (Ok r, concat (map (\<lambda>i. sec d (b + of_nat i)) [0..<n]), d)))
   \<and> (\<forall>d b n buf. unat b + n \<le> cap \<longrightarrow> length buf = 512 * n \<longrightarrow>
        (\<exists>r d'. dk_write ops b buf d = (Ok r, d')
          \<and> (\<forall>x. sec d' x = (if unat b \<le> unat x \<and> unat x < unat b + n
                             then take 512 (drop (512 * (unat x - unat b)) buf) else sec d x))))"

lemma disk_okD:
  assumes "disk_ok ops sec cap" and "unat b + n \<le> cap"
  shows "\<exists>r. dk_read ops b (replicate (512 * n) 0) d = (Ok r, concat (map (\<lambda>i. sec d (b + of_nat i)) [0..<n]), d)"
    and "length buf = 512 * n \<Longrightarrow> \<exists>r d'. dk_write ops b buf d = (Ok r, d')
       \<and> (\<forall>x. sec d' x = (if unat b \<le> unat x \<and> unat x < unat b + n
                             then take 512 (drop (512 * (unat x - unat b)) buf) else sec d x))"
    and "unat b + n < 2 ^ 64"
  using assms unfolding disk_ok_def by (blast, blast, linarith)

lemma concat_chunks: "length buf = 512 * n \<Longrightarrow> concat (map (\<lambda>i. take 512 (drop (512 * i) buf)) [0..<n]) = buf"
proof (induction n arbitrary: buf)
  case (Suc n)
  have "[0..<Suc n] = 0 # map Suc [0..<n]" by (simp add: upt_conv_Cons map_Suc_upt)
  then have "concat (map (\<lambda>i. take 512 (drop (512 * i) buf)) [0..<Suc n]) =
      take 512 buf @ concat (map (\<lambda>i. take 512 (drop (512 * i) (drop 512 buf))) [0..<n])"
    by (simp add: comp_def add.commute del: upt_Suc)
  then show ?case using Suc.IH[of "drop 512 buf"] Suc.prems by simp
qed simp

text \<open>What was written is read back, also when another part of the disk was written in between.\<close>

lemma read_written:
  assumes "disk_ok ops sec cap" and "unat b + n \<le> cap" and "length buf = 512 * n"
    and "\<And>x. unat b \<le> unat x \<Longrightarrow> unat x < unat b + n \<Longrightarrow> sec d x = take 512 (drop (512 * (unat x - unat b)) buf)"
  shows "\<exists>r. dk_read ops b (replicate (512 * n) 0) d = (Ok r, buf, d)"
proof -
  have "sec d (b + of_nat i) = take 512 (drop (512 * i) buf)" if "i < n" for i
  proof -
    have "unat (b + of_nat i) = unat b + i"
      using that disk_okD(3)[OF assms(1,2)] by (subst unat_add_lt) (simp_all add: unat_of_nat_lt)
    then show ?thesis using assms(4)[of "b + of_nat i"] that by simp
  qed
  then have "map (\<lambda>i. sec d (b + of_nat i)) [0..<n] = map (\<lambda>i. take 512 (drop (512 * i) buf)) [0..<n]" by simp
  then show ?thesis using disk_okD(1)[OF assms(1,2), of d] concat_chunks[OF assms(3)] by metis
qed

section \<open>Sizes\<close>

lemma max_size_sectors: "unat (max_size e) = 512 * (unat (max_size e) div 512)"
proof -
  have "unat (x div 512 * 512) mod 512 = 0" for x :: usize
  proof -
    have "unat (x div 512) * 512 < 2 ^ 32" using unat_lt2p[of x] by (simp add: unat_div)
    then show ?thesis by (subst unat_mult_lt) (simp_all add: unat_div)
  qed
  then have "unat (max_size e) mod 512 = 0" unfolding max_size_def .
  then show ?thesis using mult_div_mod_eq[of 512 "unat (max_size e)"] by simp
qed

lemma max_size_of_nat:
  assumes "L + 511 < 2 ^ 32"
  shows "unat (max_size \<lparr>ex_block = b, ex_length = of_nat L\<rparr>) = 512 * ((L + 511) div 512)"
proof -
  have "unat (of_nat L + 511 :: usize) = L + 511"
    using assms by (subst unat_add_lt) (simp_all add: unat_of_nat_lt)
  then have "unat ((of_nat L + 511) div 512 :: usize) = (L + 511) div 512" by (simp add: unat_div)
  moreover have "(L + 511) div 512 * 512 < 2 ^ 32" using assms by (meson div_times_less_eq_dividend le_less_trans)
  moreover have u: "(ucast (of_nat L :: u64) :: usize) = of_nat L"
    using assms by (simp add: unsigned_of_nat take_bit_nat_eq_self)
  ultimately show ?thesis by (simp add: max_size_def u) (subst unat_mult_lt, simp_all)
qed

lemma place_sectors:
  assumes "L + 511 < 2 ^ 31"
  shows "(scast (isize_div (of_nat L + 511) 512 :: isize) :: u64) = of_nat ((L + 511) div 512)"
    and "(scast (of_nat L :: isize) :: u64) = of_nat L" and "sint (of_nat L :: isize) = int L"
proof -
  have s: "sint (of_nat n :: isize) = int n" if "n < 2 ^ 31" for n
    using that by (simp add: signed_of_nat signed_take_bit_eq_if_positive bit_iff_odd take_bit_int_eq_self)
  show "sint (of_nat L :: isize) = int L" using s assms by simp
  have "sint (of_nat L + 511 :: isize) = int (L + 511)" using s[of "L + 511"] assms by simp
  moreover have "(int L + 511) div 512 = int ((L + 511) div 512)" by (simp add: zdiv_int)
  ultimately have "isize_div (of_nat L + 511) 512 = of_nat ((L + 511) div 512)"
    by (simp add: isize_div_def)
  moreover have "(L + 511) div 512 < 2 ^ 31" using assms by (meson div_le_dividend le_less_trans)
  ultimately show "(scast (isize_div (of_nat L + 511) 512 :: isize) :: u64) = of_nat ((L + 511) div 512)"
    using s by (simp add: scast_eq)
  show "(scast (of_nat L :: isize) :: u64) = of_nat L" using s assms by (simp add: scast_eq)
qed


section \<open>Flushing extents\<close>

lemma min_of_nat: "r < 2 ^ 32 \<Longrightarrow> unat (min (of_nat r :: usize) m) = min r (unat m)"
  by (simp add: min_def word_le_nat_alt unat_of_nat_lt)

lemma flush_extent_eq:
  assumes "\<not> extent_empty e" and "sy_remaining s = of_nat r" and "r < 2 ^ 32"
  defines "m \<equiv> unat (max_size e)"
  defines "sz \<equiv> min r m"
  defines "vec \<equiv> sy_vec s @ replicate (sy_pos s + m - length (sy_vec s)) 0"
  shows "flush_extent ops e s = (e\<lparr>ex_length := of_nat sz\<rparr>,
    \<lparr>sy_fs = (sy_fs s)\<lparr>fs_disk := snd (dk_write ops (ex_block e) (take m (drop (sy_pos s) vec)) (fs_disk (sy_fs s)))\<rparr>,
     sy_vec = take (sy_pos s + sz) vec, sy_pos = sy_pos s + sz, sy_remaining = of_nat (r - sz),
     sy_dirty = (sy_dirty s \<or> of_nat sz \<noteq> ex_length e)\<rparr>)"
proof -
  have z: "unat (min (of_nat r :: usize) (max_size e)) = sz" using min_of_nat[OF assms(3)] by (simp add: sz_def m_def)
  then have zw: "min (of_nat r :: usize) (max_size e) = of_nat sz" by (metis of_nat_unat ucast_id)
  have "sz < 2 ^ 32" using assms(3) by (simp add: sz_def)
  then have u: "(ucast (of_nat sz :: usize) :: u64) = of_nat sz" by (simp add: unsigned_of_nat take_bit_nat_eq_self)
  have "of_nat r - of_nat sz = (of_nat (r - sz) :: usize)" by (simp add: sz_def of_nat_diff)
  then show ?thesis
    using assms(1,2) z u by (simp add: flush_extent_def Let_def zw pad_loop_eq vec_def m_def)
qed

lemma sync_loop_done:
  "\<forall>x \<in> set es. extent_empty x \<Longrightarrow> sint (sy_remaining s) \<le> 0 \<Longrightarrow> sync_loop ops es s = (es, s)"
  by (induction es) (auto simp: sync_extent_def place_extent_def flush_extent_def Let_def)

text \<open>Where a file with a single extent goes: the sectors it has, or the next free ones.\<close>

definition data_block :: "Extent \<Rightarrow> Header \<Rightarrow> u64" where
  "data_block e h = (if extent_empty e then ex_block (free_space h) else ex_block e)"

definition data_sectors :: "Extent \<Rightarrow> nat \<Rightarrow> nat" where
  "data_sectors e len = (if extent_empty e then (len + 511) div 512 else unat (max_size e) div 512)"

definition file_fits :: "Extent \<Rightarrow> Header \<Rightarrow> nat \<Rightarrow> bool" where
  "file_fits e h len \<longleftrightarrow> len + 511 < 2 ^ 31 \<and>
     (if extent_empty e
      then len = 0 \<or> 0 < ex_block (free_space h) \<and> 512 * ((len + 511) div 512) \<le> unat (ex_length (free_space h))
      else len \<le> unat (max_size e))"

lemma place_extent_fits:
  assumes "file_fits e h len" and "extent_empty e" and "0 < len"
  obtains h' where "place_extent (of_nat len) e h = (\<lparr>ex_block = data_block e h, ex_length = of_nat len\<rparr>, h', True)"
proof -
  have L: "len + 511 < 2 ^ 31" using assms(1) by (simp add: file_fits_def)
  have d: "(len + 511) div 512 < 2 ^ 31" using L by (meson div_le_dividend le_less_trans)
  have "unat (of_nat ((len + 511) div 512) * 512 :: u64) = 512 * ((len + 511) div 512)"
    using d by (subst unat_mult_lt) (simp_all add: unat_of_nat_lt)
  then have "of_nat ((len + 511) div 512) * 512 \<le> ex_length (free_space h)"
    using assms by (simp add: file_fits_def word_le_nat_alt)
  then show ?thesis
    using that assms(2,3) place_sectors[OF L] by (simp add: place_extent_def Let_def data_block_def)
qed

text \<open>The loop on a file with one extent.\<close>

lemma sync_loop_one:
  assumes "file_fits e (fs_header fs) (length vec)" and "\<forall>x \<in> set rest. extent_empty x"
    and "\<not> (extent_empty e \<and> vec = [])"
  defines "n \<equiv> data_sectors e (length vec)"
  defines "e1 \<equiv> \<lparr>ex_block = data_block e (fs_header fs), ex_length = of_nat (length vec)\<rparr>"
  obtains h where "sync_loop ops (e # rest)
      \<lparr>sy_fs = fs, sy_vec = vec, sy_pos = 0, sy_remaining = of_nat (length vec), sy_dirty = False\<rparr> =
     (e1 # rest,
      \<lparr>sy_fs = fs\<lparr>fs_header := h, fs_disk := snd (dk_write ops (ex_block e1) (vec @ replicate (512 * n - length vec) 0) (fs_disk fs))\<rparr>,
       sy_vec = vec, sy_pos = length vec, sy_remaining = 0, sy_dirty = (e1 \<noteq> e)\<rparr>)"
    and "length vec \<le> 512 * n"
proof -
  let ?L = "length vec"
  have L: "?L + 511 < 2 ^ 31" using assms(1) by (simp add: file_fits_def)
  let ?s = "\<lparr>sy_fs = fs, sy_vec = vec, sy_pos = 0, sy_remaining = of_nat ?L, sy_dirty = False\<rparr>"
  show ?thesis
  proof (cases "extent_empty e")
    case False
    have m: "unat (max_size e) = 512 * n" using max_size_sectors[of e] False by (simp add: n_def data_sectors_def)
    have le: "?L \<le> 512 * n" using assms(1) False m by (simp add: file_fits_def)
    have ne: "e1 \<noteq> e \<longleftrightarrow> of_nat ?L \<noteq> ex_length e" using False by (cases e) (auto simp: e1_def data_block_def)
    have se: "sync_extent ops e ?s = flush_extent ops e ?s"
      using False by (simp add: sync_extent_def place_extent_def Let_def)
    have e1: "e\<lparr>ex_length := of_nat ?L\<rparr> = e1" using False by (simp add: e1_def data_block_def)
    have bl: "ex_block e1 = ex_block e" using False by (simp add: e1_def data_block_def)
    show ?thesis
      using that[of "fs_header fs"] le flush_extent_eq[OF False, of ?s ?L ops] L ne assms(2)
      by (simp add: se m e1 bl sync_loop_done min_absorb1)
  next
    case True
    then have pos: "0 < ?L" using assms(3) by simp
    obtain h where p: "place_extent (of_nat ?L) e (fs_header fs) = (e1, h, True)"
      using place_extent_fits[OF assms(1) True pos] by (auto simp: e1_def)
    have ne: "\<not> extent_empty e1"
    proof -
      have "unat (of_nat ?L :: u64) \<noteq> 0" using pos L by (simp add: unat_of_nat_lt)
      then have "(of_nat ?L :: u64) \<noteq> 0" by (metis unat_0)
      then show ?thesis using assms(1) True pos by (auto simp: extent_empty_def e1_def data_block_def file_fits_def)
    qed
    have m: "unat (max_size e1) = 512 * n"
      using max_size_of_nat[of ?L] L True by (simp add: e1_def n_def data_sectors_def)
    have le: "?L \<le> 512 * n" using True by (simp add: n_def data_sectors_def)
    have "e1 \<noteq> e" using ne True by auto
    then show ?thesis
      using that[of h] le flush_extent_eq[OF ne, of "?s\<lparr>sy_fs := fs\<lparr>fs_header := h\<rparr>, sy_dirty := True\<rparr>" ?L ops] L assms(2)
      by (simp add: sync_extent_def p m sync_loop_done min_absorb1) (simp add: e1_def)
  qed
qed


section \<open>Reading a file back\<close>

lemma load_empty: "\<forall>x \<in> set es. extent_empty x \<Longrightarrow> load_extents ops es vec d = (vec, d)"
  by (induction es) (auto simp: extent_empty_def)

lemma take_drop_take: "k + i \<le> m \<Longrightarrow> take k (drop i (take m xs)) = take k (drop i xs)"
  by (simp add: drop_take min_absorb1)

lemma load_one:
  assumes ok: "disk_ok ops sec cap" and b: "0 < b" "unat b + n \<le> cap" and L: "length vec + 511 < 2 ^ 31" "length vec \<le> 512 * n"
    and rest: "\<forall>x \<in> set rest. extent_empty x"
    and sec: "\<And>x. unat b \<le> unat x \<Longrightarrow> unat x < unat b + n \<Longrightarrow>
      sec d x = take 512 (drop (512 * (unat x - unat b)) (vec @ replicate (512 * n - length vec) 0))"
  shows "load_extents ops (\<lparr>ex_block = b, ex_length = of_nat (length vec)\<rparr> # rest) [] d = (vec, d)"
proof (cases "vec = []")
  case True
  then show ?thesis using load_empty[OF rest] by simp
next
  case False
  let ?L = "length vec" and ?full = "vec @ replicate (512 * n - length vec) 0"
  let ?e = "\<lparr>ex_block = b, ex_length = of_nat ?L\<rparr>"
  define n' where "n' = (?L + 511) div 512"
  have n': "n' \<le> n" "?L \<le> 512 * n'" using L(2) by (auto simp: n'_def)
  have m: "unat (max_size ?e) = 512 * n'" using max_size_of_nat[of ?L b] L(1) by (simp add: n'_def)
  let ?buf = "take (512 * n') ?full"
  have len: "length ?buf = 512 * n'" using n' L(2) by simp
  have "sec d x = take 512 (drop (512 * (unat x - unat b)) ?buf)" if "unat b \<le> unat x" "unat x < unat b + n'" for x
  proof -
    have "512 + 512 * (unat x - unat b) \<le> 512 * n'" using that by simp
    then have "take 512 (drop (512 * (unat x - unat b)) ?buf) = take 512 (drop (512 * (unat x - unat b)) ?full)"
      by (rule take_drop_take)
    then show ?thesis using sec[of x] that n'(1) by simp
  qed
  then obtain r where rd: "dk_read ops b (replicate (512 * n') 0) d = (Ok r, ?buf, d)"
    using read_written[OF ok _ len] b(2) n'(1) by fastforce
  have pos: "(of_nat ?L :: u64) > 0"
  proof -
    have "unat (of_nat ?L :: u64) \<noteq> 0" using False L(1) by (simp add: unat_of_nat_lt)
    then show ?thesis by (metis unat_0 word_neq_0_conv)
  qed
  have "(ucast (of_nat ?L :: u64) :: usize) = of_nat ?L" using L(1) by (simp add: unsigned_of_nat take_bit_nat_eq_self)
  then have sz: "unat (min (ucast (ex_length ?e)) (max_size ?e)) = ?L"
    using min_of_nat[of ?L "max_size ?e"] L(1) m n'(2) by simp
  have "take ?L ?buf = vec" using n'(2) by simp
  then show ?thesis using b(1) pos rd load_empty[OF rest] by (simp add: m sz[simplified] Let_def)
qed

definition nodes_ok :: "'d FileSystem \<Rightarrow> bool" where
  "nodes_ok fs \<longleftrightarrow> distinct (map nd_block (fs_nodes fs)) \<and> distinct (map nd_name (fs_nodes fs))"

lemma fs_node_mem:
  assumes "nodes_ok fs" and "n \<in> set (fs_nodes fs)"
  shows "fs_node fs (nd_name n) = Some n"
proof -
  have "find (\<lambda>x. nd_name x = nd_name n) ns = Some n" if "n \<in> set ns" "distinct (map nd_name ns)" for ns
    using that by (induction ns) (auto simp: image_iff)
  then show ?thesis using assms by (simp add: fs_node_def nodes_ok_def)
qed

lemma update_node:
  assumes "nodes_ok fs" and "n \<in> set (fs_nodes fs)" and "nd_block n' = nd_block n" and "nd_name n' = nd_name n"
  defines "fs' \<equiv> fs\<lparr>fs_nodes := map (\<lambda>x. if nd_block x = nd_block n' then n' else x) (fs_nodes fs)\<rparr>"
  shows "fs_node fs' (nd_name n) = Some n'" and "fs_list fs' = fs_list fs" and "nodes_ok fs'"
proof -
  have same: "nd_block x = nd_block n \<longleftrightarrow> x = n" "nd_name x = nd_name n \<longleftrightarrow> x = n" if "x \<in> set (fs_nodes fs)" for x
    using assms(1,2) that by (auto simp: nodes_ok_def distinct_map dest: inj_onD)
  have names: "map nd_name (fs_nodes fs') = map nd_name (fs_nodes fs)" "map nd_block (fs_nodes fs') = map nd_block (fs_nodes fs)"
    using same(1) assms(3,4) by (auto simp: fs'_def)
  have "find (\<lambda>x. nd_name x = nd_name n) (map (\<lambda>x. if nd_block x = nd_block n' then n' else x) ns) = Some n'"
    if "n \<in> set ns" "set ns \<subseteq> set (fs_nodes fs)" for ns
    using that by (induction ns) (use same assms(3,4) in auto)
  then show "fs_node fs' (nd_name n) = Some n'" using assms(2) by (simp add: fs_node_def fs'_def)
  show "nodes_ok fs'" using assms(1) names by (simp add: nodes_ok_def)
  have list: "fs_list g d = (let directory = (if d = [] then d else d @ ''/'') in
      map (drop (length directory)) (filter (\<lambda>x. starts_with x directory) (map nd_name (fs_nodes g))))" for g :: "'d FileSystem" and d
    by (simp add: fs_list_def filter_map comp_def Let_def)
  show "fs_list fs' = fs_list fs" by (rule ext) (simp only: list names)
qed


section \<open>Properties\<close>

lemma file_sync_one:
  assumes ok: "disk_ok ops sec cap" and f: "fr_dirty f" "nd_extents (fr_node f) = e # rest" "\<forall>x \<in> set rest. extent_empty x"
    and fits: "file_fits e (fs_header fs) (length (fr_vec f))"
    and place: "unat (data_block e (fs_header fs)) + data_sectors e (length (fr_vec f)) \<le> cap"
    and ne: "\<not> (extent_empty e \<and> fr_vec f = [])"
  defines "e1 \<equiv> \<lparr>ex_block = data_block e (fs_header fs), ex_length = of_nat (length (fr_vec f))\<rparr>"
  defines "n1 \<equiv> (fr_node f)\<lparr>nd_extents := e1 # rest\<rparr>"
  obtains h d1 where "file_sync ops avail f fs =
      (Ok (), f\<lparr>fr_node := n1, fr_dirty := False\<rparr>,
       if e1 \<noteq> e then write_node ops avail n1 (fs\<lparr>fs_header := h, fs_disk := d1\<rparr>) else fs\<lparr>fs_header := h, fs_disk := d1\<rparr>)"
    and "load_extents ops (e1 # rest) [] d1 = (fr_vec f, d1)"
    and "\<And>d2. (\<forall>x. unat (ex_block e1) \<le> unat x \<and> unat x < unat (ex_block e1) + data_sectors e (length (fr_vec f)) \<longrightarrow>
       sec d2 x = sec d1 x) \<Longrightarrow> load_extents ops (e1 # rest) [] d2 = (fr_vec f, d2)"
proof -
  let ?L = "length (fr_vec f)" and ?n = "data_sectors e (length (fr_vec f))"
  let ?buf = "fr_vec f @ replicate (512 * ?n - ?L) 0"
  obtain h where loop: "sync_loop ops (e # rest)
      \<lparr>sy_fs = fs, sy_vec = fr_vec f, sy_pos = 0, sy_remaining = of_nat ?L, sy_dirty = False\<rparr> =
     (e1 # rest, \<lparr>sy_fs = fs\<lparr>fs_header := h, fs_disk := snd (dk_write ops (ex_block e1) ?buf (fs_disk fs))\<rparr>,
       sy_vec = fr_vec f, sy_pos = ?L, sy_remaining = 0, sy_dirty = (e1 \<noteq> e)\<rparr>)" and le: "?L \<le> 512 * ?n"
    using sync_loop_one[OF fits f(3) ne] unfolding e1_def by metis
  have blk: "unat (ex_block e1) + ?n \<le> cap" using place by (simp add: e1_def)
  obtain r d1 where w: "dk_write ops (ex_block e1) ?buf (fs_disk fs) = (Ok r, d1)"
    and sec1: "\<forall>x. sec d1 x = (if unat (ex_block e1) \<le> unat x \<and> unat x < unat (ex_block e1) + ?n
       then take 512 (drop (512 * (unat x - unat (ex_block e1))) ?buf) else sec (fs_disk fs) x)"
    using disk_okD(2)[OF ok blk, of ?buf "fs_disk fs"] le by auto
  have L: "?L + 511 < 2 ^ 31" using fits by (simp add: file_fits_def)
  have pos: "0 < ex_block e1"
    using fits ne by (auto simp: e1_def data_block_def file_fits_def extent_empty_def word_gt_0)
  have load: "load_extents ops (e1 # rest) [] d2 = (fr_vec f, d2)"
    if "\<forall>x. unat (ex_block e1) \<le> unat x \<and> unat x < unat (ex_block e1) + ?n \<longrightarrow> sec d2 x = sec d1 x" for d2
    using load_one[OF ok pos blk L le f(3), of d2] that sec1 unfolding e1_def by simp
  show ?thesis
  proof (rule that[of d1 h])
    show "file_sync ops avail f fs = (Ok (), f\<lparr>fr_node := n1, fr_dirty := False\<rparr>,
       if e1 \<noteq> e then write_node ops avail n1 (fs\<lparr>fs_header := h, fs_disk := d1\<rparr>) else fs\<lparr>fs_header := h, fs_disk := d1\<rparr>)"
      using f(1,2) loop w by (simp add: file_sync_def n1_def Let_def)
    show "load_extents ops (e1 # rest) [] d1 = (fr_vec f, d1)" by (rule load) simp
  qed (rule load)
qed

text \<open>
  C4. A file written back is there when it is opened again. For a file in one extent, whose contents
  fit there or, if it has no extent yet, in the free space, \<^verbatim>\<open>sync\<close> succeeds, and opening its
  path gives a new handle on the updated node with exactly the bytes of the old one.
\<close>

theorem sync_open_roundtrip:
  assumes "disk_ok ops sec cap" and "nodes_ok fs" and "avail 512" and "fr_dirty f"
    and "fr_node f \<in> set (fs_nodes fs)" and "0 < nd_block (fr_node f)" and "unat (nd_block (fr_node f)) < cap"
    and "nd_extents (fr_node f) = e # rest" and "length rest = 15" and "\<forall>x \<in> set rest. extent_empty x"
    and "file_fits e (fs_header fs) (length (fr_vec f))"
    and "unat (data_block e (fs_header fs)) + data_sectors e (length (fr_vec f)) \<le> cap"
    and "\<not> (unat (data_block e (fs_header fs)) \<le> unat (nd_block (fr_node f))
          \<and> unat (nd_block (fr_node f)) < unat (data_block e (fs_header fs)) + data_sectors e (length (fr_vec f)))"
    and "trim_slashes (url_reference url) = nd_name (fr_node f)" and "fs_list fs (nd_name (fr_node f)) = []"
  shows "case file_sync ops avail f fs of (res, f', fs') \<Rightarrow>
     res = Ok () \<and> fr_vec f' = fr_vec f \<and>
     file_scheme_open ops url 0 fs' =
       (Ok (OpenFile \<lparr>fr_node = fr_node f', fr_vec = fr_vec f, fr_seek = 0, fr_dirty = False\<rparr>), fs')"
proof -
  note found = fs_node_mem[OF assms(2,5)]
  have trunc: "(0 :: usize) AND O_TRUNC \<noteq> O_TRUNC" by (simp add: O_TRUNC_def)
  have opened: "file_scheme_open ops url 0 g = (Ok (OpenFile \<lparr>fr_node = m, fr_vec = fr_vec f, fr_seek = 0, fr_dirty = False\<rparr>), g)"
    if "fs_list g (nd_name (fr_node f)) = []" "fs_node g (nd_name (fr_node f)) = Some m"
      "load_extents ops (nd_extents m) [] (fs_disk g) = (fr_vec f, fs_disk g)" for g :: "'a FileSystem" and m
    using that trunc by (simp add: file_scheme_open_def assms(14) Let_def)
  show ?thesis
  proof (cases "extent_empty e \<and> fr_vec f = []")
    case True
    have "\<forall>x \<in> set (nd_extents (fr_node f)). extent_empty x" using True assms(8,10) by simp
    then have "file_sync ops avail f fs = (Ok (), f\<lparr>fr_dirty := False\<rparr>, fs)"
      using assms(4) True by (simp add: file_sync_def sync_loop_done)
    moreover have "load_extents ops (nd_extents (fr_node f)) [] (fs_disk fs) = (fr_vec f, fs_disk fs)"
      using True assms(8,10) by (simp add: load_empty del: load_extents.simps)
    ultimately show ?thesis using opened[OF assms(15) found] by simp
  next
    case False
    let ?e1 = "\<lparr>ex_block = data_block e (fs_header fs), ex_length = of_nat (length (fr_vec f))\<rparr>"
    let ?n1 = "(fr_node f)\<lparr>nd_extents := ?e1 # rest\<rparr>"
    obtain h d1 where sync: "file_sync ops avail f fs = (Ok (), f\<lparr>fr_node := ?n1, fr_dirty := False\<rparr>,
         if ?e1 \<noteq> e then write_node ops avail ?n1 (fs\<lparr>fs_header := h, fs_disk := d1\<rparr>) else fs\<lparr>fs_header := h, fs_disk := d1\<rparr>)"
      and load1: "load_extents ops (?e1 # rest) [] d1 = (fr_vec f, d1)"
      and load2: "\<And>d2. (\<forall>x. unat (ex_block ?e1) \<le> unat x \<and> unat x < unat (ex_block ?e1) + data_sectors e (length (fr_vec f)) \<longrightarrow>
         sec d2 x = sec d1 x) \<Longrightarrow> load_extents ops (?e1 # rest) [] d2 = (fr_vec f, d2)"
      by (rule file_sync_one[OF assms(1,4,8,10,11,12) False, where avail = avail]) (rule that)
    let ?g = "fs\<lparr>fs_header := h, fs_disk := d1\<rparr>"
    have g: "fs_list ?g = fs_list fs" "fs_node ?g = fs_node fs" "nodes_ok ?g" "fr_node f \<in> set (fs_nodes ?g)"
      using assms(2,5) by (auto simp: fs_list_def fs_node_def nodes_ok_def fun_eq_iff)
    show ?thesis
    proof (cases "?e1 = e")
      case True
      then have "?n1 = fr_node f" using assms(8) by simp
      then show ?thesis using sync True opened[of ?g "fr_node f"] g found assms(8,15) load1 by simp
    next
      case ne: False
      let ?nb = "node_data_bytes (node_data ?n1)"
      have "length ?nb = 512 * 1"
        using assms(9) by (simp add: node_data_bytes_def node_data_def Let_def extent_bytes_def length_concat comp_def sum_list_triv)
      moreover have "unat (nd_block ?n1) + 1 \<le> cap" using assms(7) by simp
      ultimately obtain r d2 where w: "dk_write ops (nd_block ?n1) ?nb d1 = (Ok r, d2)"
        and sec2: "\<forall>x. sec d2 x = (if unat (nd_block ?n1) \<le> unat x \<and> unat x < unat (nd_block ?n1) + 1
           then take 512 (drop (512 * (unat x - unat (nd_block ?n1))) ?nb) else sec d1 x)"
        using disk_okD(2)[OF assms(1), of "nd_block ?n1" 1 ?nb d1] by metis
      have load: "load_extents ops (?e1 # rest) [] d2 = (fr_vec f, d2)"
        using sec2 assms(13) by (intro load2) auto
      let ?g2 = "?g\<lparr>fs_nodes := map (\<lambda>x. if nd_block x = nd_block ?n1 then ?n1 else x) (fs_nodes ?g)\<rparr>"
      have wn: "write_node ops avail ?n1 ?g = ?g2\<lparr>fs_disk := d2\<rparr>"
        using assms(3,6) w by (simp add: write_node_def)
      note U = update_node[OF g(3,4), of ?n1]
      have "fs_node (?g2\<lparr>fs_disk := d2\<rparr>) (nd_name (fr_node f)) = Some ?n1" "fs_list (?g2\<lparr>fs_disk := d2\<rparr>) (nd_name (fr_node f)) = []"
        using U(1,2) g(1) assms(15) by (simp_all add: fs_node_def fs_list_def fun_eq_iff)
      then show ?thesis
        using sync ne load opened[of "?g2\<lparr>fs_disk := d2\<rparr>" ?n1] by (simp add: wn)
    qed
  qed
qed


text \<open>A disk in memory, with a file that has no contents on the disk yet.\<close>

definition ram_sector :: "(u64 \<Rightarrow> u8 list) \<Rightarrow> u64 \<Rightarrow> u8 list" where
  "ram_sector d b = take 512 (d b @ replicate 512 0)"

definition ram_disk :: "(u64 \<Rightarrow> u8 list) DiskOps" where
  "ram_disk =
     \<lparr>dk_name = (\<lambda>d. ''ram''),
      dk_read = (\<lambda>b buf d. (Ok (of_nat (length buf)), concat (map (\<lambda>i. ram_sector d (b + of_nat i)) [0..<length buf div 512]), d)),
      dk_write = (\<lambda>b buf d. (Ok (of_nat (length buf)),
        \<lambda>x. if unat b \<le> unat x \<and> unat x < unat b + length buf div 512
            then take 512 (drop (512 * (unat x - unat b)) buf) else d x))\<rparr>"

lemma ram_disk_ok: "disk_ok ram_disk ram_sector 1000"
  unfolding disk_ok_def
proof (intro conjI allI impI)
  fix d b n and buf :: "u8 list" assume len: "length buf = 512 * n"
  show "\<exists>r d'. dk_write ram_disk b buf d = (Ok r, d') \<and>
      (\<forall>x. ram_sector d' x = (if unat b \<le> unat x \<and> unat x < unat b + n
         then take 512 (drop (512 * (unat x - unat b)) buf) else ram_sector d x))"
    using len by (auto simp: ram_disk_def ram_sector_def)
qed (auto simp: ram_disk_def ram_sector_def)

definition demo_file :: FileResource where
  "demo_file = \<lparr>fr_node = \<lparr>nd_block = 3, nd_name = ''a'', nd_extents = replicate 16 \<lparr>ex_block = 0, ex_length = 0\<rparr>\<rparr>,
     fr_vec = [1, 2, 3], fr_seek = 3, fr_dirty = True\<rparr>"

definition demo_fs :: "(u64 \<Rightarrow> u8 list) FileSystem" where
  "demo_fs = \<lparr>fs_disk = (\<lambda>_. []), fs_header = \<lparr>signature = [], version = 1, free_space = \<lparr>ex_block = 10, ex_length = 5120\<rparr>,
     padding = [], hd_extents = []\<rparr>, fs_nodes = [fr_node demo_file]\<rparr>"

lemma replicate_one: "replicate 16 x = x # replicate 15 x" "replicate 15 x = x # replicate 14 x"
  using replicate_Suc[of 15 x] replicate_Suc[of 14 x] by simp_all

theorem sync_open_roundtrip_witness:
  "case file_sync ram_disk (\<lambda>_. True) demo_file demo_fs of (res, f', fs') \<Rightarrow>
     res = Ok () \<and> fr_vec f' = [1, 2, 3] \<and>
     file_scheme_open ram_disk \<lparr>url_scheme = ''file'', url_reference = ''/a''\<rparr> 0 fs' =
       (Ok (OpenFile \<lparr>fr_node = fr_node f', fr_vec = [1, 2, 3], fr_seek = 0, fr_dirty = False\<rparr>), fs')"
proof -
  let ?z = "\<lparr>ex_block = 0, ex_length = 0\<rparr> :: Extent"
  have "nodes_ok demo_fs" "fr_dirty demo_file" "fr_node demo_file \<in> set (fs_nodes demo_fs)" "0 < nd_block (fr_node demo_file)"
    "unat (nd_block (fr_node demo_file)) < 1000" "nd_extents (fr_node demo_file) = ?z # replicate 15 ?z"
    "length (replicate 15 ?z) = 15" "\<forall>x \<in> set (replicate 15 ?z). extent_empty x"
    "file_fits ?z (fs_header demo_fs) (length (fr_vec demo_file))"
    "unat (data_block ?z (fs_header demo_fs)) + data_sectors ?z (length (fr_vec demo_file)) \<le> 1000"
    "\<not> (unat (data_block ?z (fs_header demo_fs)) \<le> unat (nd_block (fr_node demo_file))
          \<and> unat (nd_block (fr_node demo_file)) < unat (data_block ?z (fs_header demo_fs)) + data_sectors ?z (length (fr_vec demo_file)))"
    "trim_slashes (url_reference \<lparr>url_scheme = ''file'', url_reference = ''/a''\<rparr>) = nd_name (fr_node demo_file)"
    "fs_list demo_fs (nd_name (fr_node demo_file)) = []"
    by (simp_all add: demo_fs_def demo_file_def nodes_ok_def extent_empty_def file_fits_def data_block_def data_sectors_def
        trim_slashes_def fs_list_def starts_with_def replicate_one)
  from sync_open_roundtrip[OF ram_disk_ok this(1) _ this(2-)] show ?thesis by (simp add: demo_file_def)
qed

text \<open>
  A file that outgrows its extent loses its tail: the vector is truncated to the part the
  first extent holds before the second extent is written, so the second extent receives zeros and
  the open file holds zeros from there on, while \<^verbatim>\<open>sync\<close> reports success.
\<close>

theorem sync_loses_tail:
  assumes "fr_dirty f" and "nd_extents (fr_node f) = e # e2 # rest" and "\<not> extent_empty e"
    and "\<forall>x \<in> set (e2 # rest). extent_empty x" and "unat (max_size e) < length (fr_vec f)"
    and "length (fr_vec f) + 511 < 2 ^ 31" and "file_fits e2 (fs_header fs) (length (fr_vec f) - unat (max_size e))"
  shows "\<exists>f' fs'. file_sync ops avail f fs = (Ok (), f', fs')
    \<and> fr_vec f' = take (unat (max_size e)) (fr_vec f) @ replicate (length (fr_vec f) - unat (max_size e)) 0"
proof -
  let ?L = "length (fr_vec f)" and ?c = "unat (max_size e)"
  let ?s = "\<lparr>sy_fs = fs, sy_vec = fr_vec f, sy_pos = 0, sy_remaining = of_nat ?L, sy_dirty = False\<rparr>"
  have mn: "min ?L ?c = ?c" using assms(5) by simp
  obtain e' s1 where s1: "sync_extent ops e ?s = (e', s1)" by fastforce
  have "sync_extent ops e ?s = flush_extent ops e ?s"
    using assms(3) by (simp add: sync_extent_def place_extent_def Let_def)
  then have S1: "sy_vec s1 = take ?c (fr_vec f)" "sy_pos s1 = ?c" "sy_remaining s1 = of_nat (?L - ?c)"
      "fs_header (sy_fs s1) = fs_header fs"
    using s1 flush_extent_eq[OF assms(3), of ?s ?L ops] assms(5,6) by (auto simp: mn)
  have em: "extent_empty e2" and pos: "0 < ?L - ?c" using assms(4,5) by simp_all
  let ?e3 = "\<lparr>ex_block = data_block e2 (fs_header fs), ex_length = of_nat (?L - ?c)\<rparr>"
  obtain h where p: "place_extent (of_nat (?L - ?c)) e2 (fs_header fs) = (?e3, h, True)"
    by (rule place_extent_fits[OF assms(7) em pos])
  have "unat (of_nat (?L - ?c) :: u64) \<noteq> 0" using pos assms(6) by (simp add: unat_of_nat_lt del: of_nat_diff)
  then have "(of_nat (?L - ?c) :: u64) \<noteq> 0" by (metis unat_0)
  then have ne3: "\<not> extent_empty ?e3"
    using assms(7) em pos by (auto simp: extent_empty_def data_block_def file_fits_def)
  have m3: "unat (max_size ?e3) = 512 * ((?L - ?c + 511) div 512)" using assms(6) by (intro max_size_of_nat) simp
  have le: "?L - ?c \<le> 512 * ((?L - ?c + 511) div 512)" by simp
  let ?s1 = "s1\<lparr>sy_fs := (sy_fs s1)\<lparr>fs_header := h\<rparr>, sy_dirty := True\<rparr>"
  obtain e4 s2 where s2: "sync_extent ops e2 s1 = (e4, s2)" by fastforce
  then have "flush_extent ops ?e3 ?s1 = (e4, s2)" by (simp add: sync_extent_def S1 p)
  with flush_extent_eq[OF ne3, of ?s1 "?L - ?c" ops] assms(6)
  have S2: "sy_vec s2 = take ?L (take ?c (fr_vec f) @ replicate (512 * ((?L - ?c + 511) div 512)) 0)" "sy_remaining s2 = 0"
    using assms(5) le unfolding m3 by (auto simp: S1 min_absorb1)
  have "sync_loop ops (nd_extents (fr_node f)) ?s = (e' # e4 # rest, s2)"
    using s1 s2 sync_loop_done[of rest s2 ops] assms(4) S2(2) by (simp add: assms(2))
  moreover have "sy_vec s2 = take ?c (fr_vec f) @ replicate (?L - ?c) 0"
    using S2(1) assms(5) le by simp
  ultimately show ?thesis
    using assms(1) S2(2) by (simp add: file_sync_def Let_def)
qed

theorem sync_loses_tail_witness:
  "\<exists>f' fs'. file_sync ram_disk (\<lambda>_. True)
       (demo_file\<lparr>fr_node := (fr_node demo_file)\<lparr>nd_extents := \<lparr>ex_block = 5, ex_length = 512\<rparr> # replicate 15 \<lparr>ex_block = 0, ex_length = 0\<rparr>\<rparr>,
          fr_vec := replicate 1000 7\<rparr>) demo_fs = (Ok (), f', fs')
     \<and> fr_vec f' = replicate 512 7 @ replicate 488 0"
proof -
  let ?z = "\<lparr>ex_block = 0, ex_length = 0\<rparr> :: Extent" and ?e = "\<lparr>ex_block = 5, ex_length = 512\<rparr> :: Extent"
  let ?f = "demo_file\<lparr>fr_node := (fr_node demo_file)\<lparr>nd_extents := ?e # replicate 15 ?z\<rparr>, fr_vec := replicate 1000 7\<rparr>"
  have m: "unat (max_size ?e) = 512" by (simp add: max_size_def)
  have "fr_dirty ?f" "nd_extents (fr_node ?f) = ?e # ?z # replicate 14 ?z" "\<not> extent_empty ?e"
    "\<forall>x \<in> set (?z # replicate 14 ?z). extent_empty x" "unat (max_size ?e) < length (fr_vec ?f)"
    "length (fr_vec ?f) + 511 < 2 ^ 31" "file_fits ?z (fs_header demo_fs) (length (fr_vec ?f) - unat (max_size ?e))"
    by (simp_all add: m demo_file_def demo_fs_def extent_empty_def file_fits_def replicate_one)
  from sync_loses_tail[OF this, of ram_disk "\<lambda>_. True"] show ?thesis
    by (simp add: m take_replicate)
qed


section \<open>Mounting again\<close>

definition node_ok :: "Node \<Rightarrow> bool" where
  "node_ok n \<longleftrightarrow> length (nd_name n) \<le> 256 \<and> CHR 0x00 \<notin> set (nd_name n) \<and> length (nd_extents n) = 16"

lemma bytes_extents_concat: "bytes_extents (length es) (concat (map extent_bytes es) @ bs) = es"
  by (induction es) (auto simp: extent_bytes_def bytes_extent_def le_word_le_bytes)

lemma char_byte: "char_of (unat (of_char c :: u8)) = c"
proof -
  have "unat (of_nat (of_char c) :: u8) = of_char c" by (rule unat_of_nat_lt) (simp add: nat_of_char_less_256)
  then show ?thesis by (metis of_nat_of_char char_of_char)
qed

lemma takeWhile_bytes:
  assumes "CHR 0x00 \<notin> set cs"
  shows "takeWhile (\<lambda>x. x > 0) (as_bytes cs @ replicate n 0) = as_bytes cs"
proof -
  have "(of_char c :: u8) > 0" if "c \<in> set cs" for c
  proof -
    have "c \<noteq> char_of (0 :: nat)" using assms that by (auto simp: char_of_def)
    then have "(of_char c :: u8) \<noteq> 0" using char_byte[of c] by auto
    then show ?thesis by (simp add: word_gt_0)
  qed
  then show ?thesis by (induction cs) (auto simp: as_bytes_def takeWhile_eq_Nil_iff)
qed

lemma node_data_roundtrip:
  assumes "node_ok n"
  shows "node_new (nd_block n) (bytes_node_data (node_data_bytes (node_data n))) = n"
proof -
  have len: "length (as_bytes (nd_name n)) \<le> 256" using assms by (simp add: node_ok_def as_bytes_def)
  let ?nm = "as_bytes (nd_name n) @ replicate (256 - length (as_bytes (nd_name n))) 0"
  have d: "node_data n = \<lparr>ndata_name = ?nm, ndata_extents = nd_extents n\<rparr>" using len by (simp add: node_data_def Let_def)
  have "length ?nm = 256" using len by simp
  then have "bytes_node_data (node_data_bytes (node_data n)) = node_data n"
    using bytes_extents_concat[of "nd_extents n" "[]"] assms
    by (simp add: bytes_node_data_def node_data_bytes_def d node_ok_def len)
  moreover have "map (\<lambda>b. char_of (unat b)) (as_bytes (nd_name n)) = nd_name n"
    by (simp add: as_bytes_def comp_def char_byte)
  ultimately show ?thesis
    using takeWhile_bytes[of "nd_name n"] assms by (simp add: node_new_def d node_ok_def)
qed

text \<open>The nodes of the mounted extents, sector by sector.\<close>

definition sector_nodes :: "(u64 \<Rightarrow> u8 list) \<Rightarrow> Extent \<Rightarrow> Node list" where
  "sector_nodes c e = map (\<lambda>i. node_new (ex_block e + of_nat i) (bytes_node_data (c (ex_block e + of_nat i))))
     [0..<unat (min (ucast (ex_length e)) (max_size e)) div 512]"

definition mountable :: "(nat \<Rightarrow> bool) \<Rightarrow> Extent \<Rightarrow> bool" where
  "mountable avail e \<longleftrightarrow> ex_block e > 0 \<and> ex_length e > 0 \<and> avail (unat (max_size e))"

definition in_disk :: "nat \<Rightarrow> Extent \<Rightarrow> bool" where
  "in_disk cap e \<longleftrightarrow> unat (ex_block e) + unat (max_size e) div 512 \<le> cap"

lemma nth_sector:
  assumes "\<And>b. length (c b) = 512" and "i < n"
  shows "take 512 (drop (512 * i) (concat (map (\<lambda>i. c (b + of_nat i)) [0..<n]))) = c (b + of_nat i :: u64)"
proof -
  have "[0..<n] = [0..<i] @ i # [Suc i..<n]" using assms(2) upt_add_eq_append[of 0 i "n - i"] upt_conv_Cons[of i n] by simp
  moreover have "length (concat (map (\<lambda>i. c (b + of_nat i)) [0..<i])) = 512 * i"
    by (simp add: length_concat comp_def assms(1) sum_list_triv)
  ultimately show ?thesis by (simp add: assms(1))
qed

lemma mount_extents_eq:
  assumes "disk_ok ops sec cap" and "\<forall>e \<in> set es. mountable avail e \<longrightarrow> in_disk cap e"
  shows "mount_extents ops avail es d = (Ok (concat (map (sector_nodes (sec d)) (filter (mountable avail) es))), d)"
  using assms(2)
proof (induction es)
  case (Cons e es)
  show ?case
  proof (cases "mountable avail e")
    case True
    then have ind: "in_disk cap e" using Cons.prems by simp
    let ?n = "unat (max_size e) div 512"
    obtain r where rd: "dk_read ops (ex_block e) (replicate (unat (max_size e)) 0) d =
        (Ok r, concat (map (\<lambda>i. sec d (ex_block e + of_nat i)) [0..<?n]), d)"
      using disk_okD(1)[OF assms(1), of "ex_block e" ?n d] ind max_size_sectors[of e] by (auto simp: in_disk_def)
    have "unat (min (ucast (ex_length e)) (max_size e)) div 512 \<le> ?n"
      by (rule div_le_mono) (simp add: min_def word_le_nat_alt)
    then have "extent_nodes e (concat (map (\<lambda>i. sec d (ex_block e + of_nat i)) [0..<?n])) = sector_nodes (sec d) e"
      using nth_sector[of "sec d" _ ?n "ex_block e"] assms(1)
      by (auto simp: extent_nodes_def sector_nodes_def disk_ok_def)
    moreover have "ex_block e > 0 \<and> ex_length e > 0 \<and> avail (unat (max_size e))" using True by (simp add: mountable_def)
    ultimately show ?thesis using True Cons by (simp add: rd)
  next
    case False
    then have "\<not> (ex_block e > 0 \<and> ex_length e > 0 \<and> avail (unat (max_size e)))" by (simp add: mountable_def)
    then show ?thesis using False Cons by auto
  qed
qed simp

text \<open>
  C12. Mounting the disk again after the node of a file was rewritten gives exactly the file system
  there was in memory: the same header, the same nodes in the same order, the changed one included.
\<close>

theorem remount_after_write:
  assumes "disk_ok ops sec cap" and "from_disk ops avail d = Ok fs"
    and "\<forall>e \<in> set (hd_extents (fs_header fs)). mountable avail e \<longrightarrow> in_disk cap e"
    and "2 \<le> cap" and "node_ok n" and "1 < nd_block n" and "unat (nd_block n) < cap"
  shows "from_disk ops avail (fs_disk (write_node ops avail n fs)) = Ok (write_node ops avail n fs)"
proof -
  have one: "unat (1 :: u64) + 1 \<le> cap" using assms(4) by simp
  have rd: "\<exists>r. dk_read ops 1 (replicate 512 0) d = (Ok r, sec d 1, d)" for d
    using disk_okD(1)[OF assms(1) one, of d] by simp
  have av: "avail 512" using assms(2) by (auto simp: from_disk_def split: if_splits)
  have mount: "from_disk ops avail x = (let h = bytes_header (sec x 1) in
      if header_valid h then
        (case mount_extents ops avail (hd_extents h) x of (Inl err, d) \<Rightarrow> Err err
         | (Inr nodes, d) \<Rightarrow> Ok \<lparr>fs_disk = d, fs_header = h, fs_nodes = nodes\<rparr>) else Err EINVAL)" for x
    using rd[of x] av by (auto simp: from_disk_def)
  let ?h = "bytes_header (sec d 1)"
  have v: "header_valid ?h" using assms(2) unfolding mount by (auto simp: Let_def split: if_splits)
  have h: "fs_header fs = ?h"
    using assms(2) v unfolding mount by (auto simp: Let_def split: prod.splits sum.splits)
  have M: "mount_extents ops avail (hd_extents ?h) x = (Ok (concat (map (sector_nodes (sec x)) (filter (mountable avail) (hd_extents ?h)))), x)" for x
    using mount_extents_eq[OF assms(1) assms(3)[unfolded h]] .
  have fs: "fs = \<lparr>fs_disk = d, fs_header = ?h, fs_nodes = concat (map (sector_nodes (sec d)) (filter (mountable avail) (hd_extents ?h)))\<rparr>"
    using assms(2) v unfolding mount by (simp add: M Let_def)
  let ?nb = "node_data_bytes (node_data n)"
  have len: "length ?nb = 512 * 1"
    using assms(5) by (simp add: node_ok_def node_data_bytes_def node_data_def Let_def extent_bytes_def length_concat comp_def sum_list_triv)
  have "unat (nd_block n) + 1 \<le> cap" using assms(7) by simp
  then obtain r d2 where w: "dk_write ops (nd_block n) ?nb d = (Ok r, d2)"
    and s2: "\<forall>x. sec d2 x = (if unat (nd_block n) \<le> unat x \<and> unat x < unat (nd_block n) + 1
        then take 512 (drop (512 * (unat x - unat (nd_block n))) ?nb) else sec d x)"
    using disk_okD(2)[OF assms(1) _ len] by metis
  have sec2: "sec d2 x = (if x = nd_block n then ?nb else sec d x)" for x
    using s2 len by (auto simp: word_unat_eq_iff)
  have blk: "0 < nd_block n" "nd_block n \<noteq> 1" using assms(6) by (auto simp: word_less_nat_alt)
  have one': "sec d2 1 = sec d 1" using sec2 blk(2) by simp
  have "sector_nodes (sec d2) e = map (\<lambda>x. if nd_block x = nd_block n then n else x) (sector_nodes (sec d) e)" for e
    using node_data_roundtrip[OF assms(5)] by (auto simp: sector_nodes_def sec2 node_new_def)
  then have nodes: "concat (map (sector_nodes (sec d2)) es) =
      map (\<lambda>x. if nd_block x = nd_block n then n else x) (concat (map (sector_nodes (sec d)) es))" for es
    by (induction es) simp_all
  have wn: "write_node ops avail n fs = fs\<lparr>fs_disk := d2, fs_nodes := map (\<lambda>x. if nd_block x = nd_block n then n else x) (fs_nodes fs)\<rparr>"
    using w blk av fs by (simp add: write_node_def)
  have "from_disk ops avail d2 = Ok \<lparr>fs_disk = d2, fs_header = ?h,
      fs_nodes = concat (map (sector_nodes (sec d2)) (filter (mountable avail) (hd_extents ?h)))\<rparr>"
    using v unfolding mount by (simp add: one' M Let_def)
  also have "\<dots> = Ok (write_node ops avail n fs)" unfolding wn nodes by (subst (2) fs) (simp add: fs)
  finally show ?thesis by (simp add: wn)
qed


definition demo_sector :: "u8 list" where
  "demo_sector = as_bytes ''REDOXFS'' @ [0] @ le_bytes 8 (1 :: u64) @ extent_bytes \<lparr>ex_block = 10, ex_length = 5120\<rparr> @ replicate 224 0
     @ concat (map extent_bytes (\<lparr>ex_block = 2, ex_length = 512\<rparr> # replicate 15 \<lparr>ex_block = 0, ex_length = 0\<rparr>))"

lemma demo_sector:
  "length demo_sector = 512" "header_valid (bytes_header demo_sector)"
  "hd_extents (bytes_header demo_sector) = \<lparr>ex_block = 2, ex_length = 512\<rparr> # replicate 15 \<lparr>ex_block = 0, ex_length = 0\<rparr>"
proof -
  let ?es = "\<lparr>ex_block = 2, ex_length = 512\<rparr> # replicate 15 \<lparr>ex_block = 0, ex_length = 0\<rparr> :: Extent list"
  have b: "length (extent_bytes e) = 16" for e by (simp add: extent_bytes_def)
  then have "length (concat (map extent_bytes ?es)) = 256" by (simp add: length_concat comp_def sum_list_triv sum_list_replicate)
  then show "length demo_sector = 512" unfolding demo_sector_def by (simp add: b as_bytes_def)
  show "header_valid (bytes_header demo_sector)"
    by (simp add: header_valid_def bytes_header_def demo_sector_def as_bytes_def le_word_le_bytes)
  have "drop 256 demo_sector = concat (map extent_bytes ?es)"
    unfolding demo_sector_def by (simp add: b as_bytes_def)
  then show "hd_extents (bytes_header demo_sector) = ?es"
    using bytes_extents_concat[of ?es "[]"] by (simp add: bytes_header_def)
qed

theorem remount_after_write_witness:
  "\<exists>fs. from_disk ram_disk (\<lambda>_. True) ((\<lambda>_. [])(1 := demo_sector)) = Ok fs \<and>
     (let fs' = write_node ram_disk (\<lambda>_. True) \<lparr>nd_block = 2, nd_name = ''a'', nd_extents = replicate 16 \<lparr>ex_block = 9, ex_length = 5\<rparr>\<rparr> fs
      in from_disk ram_disk (\<lambda>_. True) (fs_disk fs') = Ok fs' \<and> fs_node fs' ''a'' \<noteq> None)"
proof -
  let ?d = "(\<lambda>_. [])(1 := demo_sector) :: u64 \<Rightarrow> u8 list" and ?all = "\<lambda>_. True"
  let ?n = "\<lparr>nd_block = 2, nd_name = ''a'', nd_extents = replicate 16 \<lparr>ex_block = 9, ex_length = 5\<rparr>\<rparr>"
  have s: "ram_sector ?d 1 = demo_sector" by (simp add: ram_sector_def demo_sector(1))
  have m: "unat (max_size \<lparr>ex_block = 2, ex_length = 512\<rparr>) = 512" by (simp add: max_size_def)
  have ext: "\<forall>e \<in> set (hd_extents (bytes_header demo_sector)). mountable ?all e \<longrightarrow> in_disk 1000 e"
    by (simp add: demo_sector(3) mountable_def in_disk_def m)
  have "dk_read ram_disk 1 (replicate 512 0) ?d = (Ok 512, demo_sector, ?d)" using s by (simp add: ram_disk_def)
  then have f: "from_disk ram_disk ?all ?d = Ok \<lparr>fs_disk = ?d, fs_header = bytes_header demo_sector,
      fs_nodes = concat (map (sector_nodes (ram_sector ?d)) (filter (mountable ?all) (hd_extents (bytes_header demo_sector))))\<rparr>"
      (is "_ = Ok ?fs")
    using mount_extents_eq[OF ram_disk_ok ext, of ?d] demo_sector(2) by (simp add: from_disk_def Let_def)
  have "fs_nodes ?fs = [node_new 2 (bytes_node_data (ram_sector ?d 2))]"
    by (simp add: demo_sector(3) mountable_def sector_nodes_def m) (simp add: max_size_def)
  then have "fs_node (write_node ram_disk ?all ?n ?fs) ''a'' \<noteq> None"
    by (simp add: write_node_def fs_node_def node_new_def)
  moreover have "from_disk ram_disk ?all (fs_disk (write_node ram_disk ?all ?n ?fs)) = Ok (write_node ram_disk ?all ?n ?fs)"
    by (rule remount_after_write[OF ram_disk_ok f]) (use ext in \<open>simp_all add: node_ok_def\<close>)
  ultimately show ?thesis using f by (auto simp: Let_def)
qed

section \<open>Sizes and removal\<close>

lemma load_extents_length:
  assumes "disk_ok ops sec cap" and "\<forall>e \<in> set es. \<not> extent_empty e \<longrightarrow> in_disk cap e \<and> unat (ex_length e) + 511 < 2 ^ 32"
  shows "load_extents ops es vec d = (fst (load_extents ops es vec d), d) \<and>
    length (fst (load_extents ops es vec d)) = length vec + sum_list (map (\<lambda>e. unat (ex_length e)) (filter (\<lambda>e. \<not> extent_empty e) es))"
  using assms(2)
proof (induction es arbitrary: vec)
  case (Cons e es)
  show ?case
  proof (cases "extent_empty e")
    case True
    then have "\<not> (ex_block e > 0 \<and> ex_length e > 0)" by (auto simp: extent_empty_def)
    then show ?thesis using Cons True by auto
  next
    case False
    let ?L = "unat (ex_length e)" and ?n = "unat (max_size e) div 512"
    have ind: "in_disk cap e" "?L + 511 < 2 ^ 32" using Cons.prems False by simp_all
    have e: "e = \<lparr>ex_block = ex_block e, ex_length = of_nat ?L\<rparr>" by simp
    have m: "unat (max_size e) = 512 * ((?L + 511) div 512)" by (subst e) (rule max_size_of_nat[OF ind(2)])
    then have L: "?L \<le> 512 * ?n" by simp
    have "unat (ucast (ex_length e) :: usize) = ?L" using ind(2) by (simp add: unsigned_ucast_eq take_bit_nat_eq_self)
    then have sz: "unat (min (ucast (ex_length e)) (max_size e)) = ?L" using L m by (simp add: min_def word_le_nat_alt)
    obtain r buf where rd: "dk_read ops (ex_block e) (replicate (unat (max_size e)) 0) d = (Ok r, buf, d)" "length buf = 512 * ?n"
      using disk_okD(1)[OF assms(1), of "ex_block e" ?n d] ind(1) max_size_sectors[of e] assms(1)
      by (auto simp: in_disk_def length_concat comp_def sum_list_triv disk_ok_def)
    have "ex_block e > 0 \<and> ex_length e > 0" using False by (simp add: extent_empty_def word_gt_0)
    then show ?thesis using False Cons rd L by (simp add: sz Let_def)
  qed
qed simp

lemma stat_size_sum:
  "foldl (\<lambda>n e. if ex_block e > 0 \<and> ex_length e > 0 then n + ex_length e else n) a es =
     a + of_nat (sum_list (map (\<lambda>e. unat (ex_length e)) (filter (\<lambda>e. \<not> extent_empty e) es)))"
  by (induction es arbitrary: a) (auto simp: extent_empty_def word_gt_0 add.assoc)

text \<open>
  C39. \<^verbatim>\<open>stat\<close> agrees with \<^verbatim>\<open>open\<close>: both fail or both succeed, and the size that \<^verbatim>\<open>stat\<close> reports is the number
  of bytes the opened file or directory listing holds.
\<close>

theorem stat_matches_open:
  assumes "disk_ok ops sec cap"
    and "\<forall>n \<in> set (fs_nodes fs). \<forall>e \<in> set (nd_extents n). \<not> extent_empty e \<longrightarrow> in_disk cap e \<and> unat (ex_length e) + 511 < 2 ^ 32"
  shows "case (file_scheme_stat url st fs, file_scheme_open ops url 0 fs) of
     ((Inr u, st'), (Inr (Listing v), fs')) \<Rightarrow> st_mode st' = MODE_DIR \<and> st_size st' = of_nat (length (vr_data v)) \<and> fs' = fs
   | ((Inr u, st'), (Inr (OpenFile f), fs')) \<Rightarrow> st_mode st' = MODE_FILE \<and> st_size st' = of_nat (length (fr_vec f)) \<and> fs' = fs
   | ((Inl e, st'), (Inl e', fs')) \<Rightarrow> e = ENOENT \<and> e' = ENOENT \<and> st' = st \<and> fs' = fs
   | _ \<Rightarrow> False"
proof -
  let ?p = "trim_slashes (url_reference url)"
  have no: "(0 :: usize) AND O_TRUNC \<noteq> O_TRUNC" "(0 :: usize) AND O_CREAT \<noteq> O_CREAT"
    by (simp_all add: O_TRUNC_def O_CREAT_def)
  show ?thesis
  proof (cases "fs_list fs ?p = []")
    case False
    then show ?thesis by (auto simp: file_scheme_stat_def file_scheme_open_def Let_def vec_new_def as_bytes_def)
  next
    case True
    show ?thesis
    proof (cases "fs_node fs ?p")
      case None
      then show ?thesis using True no by (simp add: file_scheme_stat_def file_scheme_open_def)
    next
      case (Some n)
      then have "n \<in> set (fs_nodes fs)" by (auto simp: fs_node_def find_Some_iff)
      then have L: "load_extents ops (nd_extents n) [] (fs_disk fs) = (fst (load_extents ops (nd_extents n) [] (fs_disk fs)), fs_disk fs)"
        "length (fst (load_extents ops (nd_extents n) [] (fs_disk fs))) =
           sum_list (map (\<lambda>e. unat (ex_length e)) (filter (\<lambda>e. \<not> extent_empty e) (nd_extents n)))"
        using load_extents_length[OF assms(1), of "nd_extents n" "[]" "fs_disk fs"] assms(2) by auto
      obtain vec where v: "load_extents ops (nd_extents n) [] (fs_disk fs) = (vec, fs_disk fs)" using L(1) by blast
      have "stat_size (nd_extents n) = of_nat (length vec)"
        using L(2) stat_size_sum[where a = 0 and es = "nd_extents n"] by (simp add: v stat_size_def)
      then show ?thesis using True Some no v by (simp add: file_scheme_stat_def file_scheme_open_def)
    qed
  qed
qed

theorem stat_matches_open_witness:
  "case file_scheme_open ram_disk \<lparr>url_scheme = ''file'', url_reference = ''a''\<rparr> 0 demo_fs of
     (Inr (OpenFile f), fs') \<Rightarrow>
       st_size (snd (file_scheme_stat \<lparr>url_scheme = ''file'', url_reference = ''a''\<rparr> \<lparr>st_mode = 0, st_size = 5\<rparr> demo_fs)) = of_nat (length (fr_vec f))
   | _ \<Rightarrow> False"
proof -
  have e: "\<forall>n \<in> set (fs_nodes demo_fs). \<forall>e \<in> set (nd_extents n). \<not> extent_empty e \<longrightarrow> in_disk 1000 e \<and> unat (ex_length e) + 511 < 2 ^ 32"
    by (simp add: demo_fs_def demo_file_def extent_empty_def)
  let ?u = "\<lparr>url_scheme = ''file'', url_reference = ''a''\<rparr>"
  have "fs_list demo_fs ''a'' = []" "fs_node demo_fs ''a'' = Some (fr_node demo_file)" "trim_slashes ''a'' = ''a''"
    by (simp_all add: demo_fs_def demo_file_def fs_list_def starts_with_def fs_node_def trim_slashes_def)
  then have "\<exists>st. file_scheme_stat ?u \<lparr>st_mode = 0, st_size = 5\<rparr> demo_fs = (Ok (), st)"
    "\<exists>f fs'. file_scheme_open ram_disk ?u 0 demo_fs = (Ok (OpenFile f), fs')"
    by (auto simp: file_scheme_stat_def file_scheme_open_def Let_def split: prod.splits)
  with stat_matches_open[OF ram_disk_ok e, where url = ?u and st = "\<lparr>st_mode = 0, st_size = 5\<rparr>"] show ?thesis by auto
qed

lemma unlink_loop_eq:
  "unlink_loop path i ns ret =
     (if path \<in> nd_name ` set (drop i ns) then Ok () else ret, take i ns @ filter (\<lambda>n. nd_name n \<noteq> path) (drop i ns))"
proof (induction path i ns ret rule: unlink_loop.induct)
  case (1 path i ns ret)
  show ?case
  proof (cases "i < length ns")
    case True
    then have d: "drop i ns = ns ! i # drop (Suc i) ns" by (simp add: Cons_nth_drop_Suc)
    show ?thesis
    proof (cases "nd_name (ns ! i) = path")
      case eq: True
      have "drop i (take i ns @ drop (Suc i) ns) = drop (Suc i) ns" using True by simp
      then show ?thesis using "1.IH"(1)[OF True eq] True eq by (subst unlink_loop.simps) (auto simp: d)
    next
      case False
      then show ?thesis
        using "1.IH"(2)[OF True False] True by (subst unlink_loop.simps) (auto simp: d take_Suc_conv_app_nth)
    qed
  next
    case False
    then show ?thesis by (subst unlink_loop.simps) simp
  qed
qed

text \<open>
  Removing a path removes every node of that name and keeps the others in their order; it fails
  with \<^verbatim>\<open>ENOENT\<close>, changing nothing, exactly when there was none, and afterwards the path no longer names a file.
\<close>

theorem unlink_removes:
  "case file_scheme_unlink url fs of (r, fs') \<Rightarrow>
     (let path = trim_slashes (url_reference url) in
      fs' = fs\<lparr>fs_nodes := filter (\<lambda>n. nd_name n \<noteq> path) (fs_nodes fs)\<rparr>
      \<and> r = (if fs_node fs path = None then Err ENOENT else Ok ()) \<and> (fs_node fs path = None \<longrightarrow> fs' = fs)
      \<and> fs_node fs' path = None \<and> (\<forall>p. p \<noteq> path \<longrightarrow> fs_node fs' p = fs_node fs p))"
proof -
  let ?p = "trim_slashes (url_reference url)"
  have none: "fs_node fs ?p = None \<longleftrightarrow> ?p \<notin> nd_name ` set (fs_nodes fs)"
    by (auto simp: fs_node_def find_None_iff image_iff eq_commute[of ?p])
  have other: "find (\<lambda>n. nd_name n = p) (filter (\<lambda>n. nd_name n \<noteq> ?p) ns) = find (\<lambda>n. nd_name n = p) ns" if "p \<noteq> ?p" for p ns
    using that by (induction ns) auto
  have "filter (\<lambda>n. nd_name n \<noteq> ?p) (fs_nodes fs) = fs_nodes fs" if "?p \<notin> nd_name ` set (fs_nodes fs)"
    using that by (metis (mono_tags, lifting) filter_True image_eqI)
  then show ?thesis
    using none other by (auto simp: file_scheme_unlink_def unlink_loop_eq Let_def fs_node_def find_None_iff)
qed

theorem unlink_removes_witness:
  "fst (file_scheme_unlink \<lparr>url_scheme = ''file'', url_reference = ''/a''\<rparr> demo_fs) = Ok ()
   \<and> fst (file_scheme_unlink \<lparr>url_scheme = ''file'', url_reference = ''b''\<rparr> demo_fs) = Err ENOENT"
  using unlink_removes[of "\<lparr>url_scheme = ''file'', url_reference = ''/a''\<rparr>" demo_fs]
    unlink_removes[of "\<lparr>url_scheme = ''file'', url_reference = ''b''\<rparr>" demo_fs]
  by (auto simp: Let_def trim_slashes_def fs_node_def demo_fs_def demo_file_def split: prod.splits)


section \<open>Disk files keep the contract of byte files\<close>

definition file_inv :: "FileResource \<Rightarrow> bool" where
  "file_inv f \<longleftrightarrow> fr_seek f \<le> length (fr_vec f)"

lemma file_read_eq:
  "file_read f buf = (let n = min (length buf) (length (fr_vec f) - fr_seek f)
     in (Ok n, take n (drop (fr_seek f) (fr_vec f)) @ drop n buf, f\<lparr>fr_seek := fr_seek f + n\<rparr>))"
  by (simp add: file_read_def read_loop_eq vec_part_def Let_def)

lemma file_write_eq:
  assumes "file_inv f"
  shows "file_write f buf = (Ok (length buf),
     f\<lparr>fr_vec := take (fr_seek f) (fr_vec f) @ buf @ drop (fr_seek f + length buf) (fr_vec f),
       fr_seek := fr_seek f + length buf, fr_dirty := (if buf \<noteq> [] then True else fr_dirty f)\<rparr>)"
proof -
  have "vec_inv (vec_part f)" using assms by (simp add: file_inv_def vec_inv_def vec_part_def)
  from vec_write_eq[OF this, of buf] show ?thesis
    by (auto simp: vec_write_def file_write_def vec_part_def split: prod.splits)
qed

definition file_read' :: "FileResource \<Rightarrow> u8 list \<Rightarrow> nat \<times> u8 list \<times> FileResource" where
  "file_read' f buf = (case file_read f buf of (res, buf, f) \<Rightarrow> (projr res, buf, f))"

definition file_write' :: "FileResource \<Rightarrow> u8 list \<Rightarrow> nat \<times> FileResource" where
  "file_write' f buf = (case file_write f buf of (res, f) \<Rightarrow> (projr res, f))"

definition file_seek_to :: "FileResource \<Rightarrow> nat \<Rightarrow> FileResource" where
  "file_seek_to f p = snd (file_seek f (SeekStart (of_nat p)))"

interpretation disk_file: byte_file file_inv fr_vec fr_seek file_read' file_write' file_seek_to vec_position
proof
  fix f buf n buf' f'
  assume "file_inv f" and "file_read' f buf = (n, buf', f')"
  then show "n = min (length buf) (length (fr_vec f) - fr_seek f)
      \<and> buf' = take n (drop (fr_seek f) (fr_vec f)) @ drop n buf
      \<and> file_inv f' \<and> fr_vec f' = fr_vec f \<and> fr_seek f' = fr_seek f + n"
    by (auto simp: file_read'_def file_read_eq Let_def file_inv_def)
next
  fix f buf n f'
  assume "file_inv f" and "file_write' f buf = (n, f')"
  then show "n = length buf \<and> file_inv f'
      \<and> fr_vec f' = take (fr_seek f) (fr_vec f) @ buf @ drop (fr_seek f + length buf) (fr_vec f)
      \<and> fr_seek f' = fr_seek f + length buf"
    by (auto simp: file_write'_def file_write_eq file_inv_def)
next
  fix f p
  assume "file_inv f" and "p \<le> length (fr_vec f)" and "vec_position p"
  then show "file_inv (file_seek_to f p) \<and> fr_vec (file_seek_to f p) = fr_vec f \<and> fr_seek (file_seek_to f p) = p"
    by (simp add: file_seek_to_def file_seek_def file_inv_def vec_position_def unat_of_nat_lt pad_loop_eq)
qed (simp add: file_inv_def)

text \<open>
  The operations of an open file: its position always stays inside the file, seeking past the end
  fills the gap with zeros, truncating cuts or extends, and bytes written are read back
  from where they were written.
\<close>

theorem file_operations:
  assumes "file_inv f" and "fr_seek f < 2 ^ 32"
  shows "file_inv (snd (snd (file_read f buf))) \<and> file_inv (snd (file_write f data)) \<and> file_inv (snd (file_seek f p))
    \<and> file_inv (snd (file_truncate f len))
    \<and> fr_vec (snd (file_truncate f len)) = take len (fr_vec f) @ replicate (len - length (fr_vec f)) 0
    \<and> (\<exists>k. fr_vec (snd (file_seek f p)) = fr_vec f @ replicate k 0)
    \<and> (length buf = length data \<longrightarrow>
        fst (snd (file_read (snd (file_seek (snd (file_write f data)) (SeekStart (of_nat (fr_seek f))))) buf)) = data)"
proof -
  have again: "fst (snd (file_read (snd (file_seek (snd (file_write f data)) (SeekStart (of_nat (fr_seek f))))) buf)) = data"
    if "length buf = length data"
  proof -
    obtain res f1 where w: "file_write f data = (res, f1)" by fastforce
    then have "file_write' f data = (projr res, f1)" by (simp add: file_write'_def)
    from disk_file.read_after_write[OF assms(1) this that] assms(2)
    have "fst (snd (file_read' (file_seek_to f1 (fr_seek f)) buf)) = data" by (simp add: vec_position_def)
    then show ?thesis by (auto simp: w file_read'_def file_seek_to_def split: prod.splits)
  qed
  have "file_inv (snd (file_seek f p))" "\<exists>k. fr_vec (snd (file_seek f p)) = fr_vec f @ replicate k 0"
    by (auto simp: file_seek_def file_inv_def pad_loop_eq Let_def)
  then show ?thesis
    using assms(1) again
    by (simp add: file_read_eq file_write_eq file_truncate_def file_inv_def pad_loop_eq Let_def)
qed

theorem file_operations_witness:
  "fr_vec (snd (file_seek demo_file (SeekStart 5))) \<noteq> [] \<and>
   fst (snd (file_read (snd (file_seek (snd (file_write demo_file [7, 8])) (SeekStart (of_nat 3)))) [0, 0])) = [7, 8]"
  using file_operations[of demo_file "[0, 0]" "[7, 8]" "SeekStart 5" 0] by (auto simp: file_inv_def demo_file_def)

end
