(* ===== verification/Wire.thy ===== *)
theory Wire
  imports Text Bytes
begin

text \<open>
  Network data (\<^verbatim>\<open>kernel/network/common.rs\<close>, \<^verbatim>\<open>ethernet.rs\<close>, \<^verbatim>\<open>ipv4.rs\<close> and the formats of
  \<^verbatim>\<open>kernel/network/schemes\<close>): integers in network order, addresses, the Internet checksum, and the
  packed headers with their conversions from and to bytes.
\<close>

section \<open>Integers in network order\<close>

type_synonym n16 = "u8 \<times> u8"
type_synonym n32 = "u8 \<times> u8 \<times> u8 \<times> u8"

definition n16_new :: "u16 \<Rightarrow> n16" where
  "n16_new v = (ucast (drop_bit 8 v), ucast v)"

definition n16_get :: "n16 \<Rightarrow> u16" where
  "n16_get n = (case n of (a, b) \<Rightarrow> push_bit 8 (ucast a) OR ucast b)"

definition n32_new :: "u32 \<Rightarrow> n32" where
  "n32_new v = (ucast (drop_bit 24 v), ucast (drop_bit 16 v), ucast (drop_bit 8 v), ucast v)"

definition n32_get :: "n32 \<Rightarrow> u32" where
  "n32_get n = (case n of (a, b, c, d) \<Rightarrow>
     push_bit 24 (ucast a) OR push_bit 16 (ucast b) OR push_bit 8 (ucast c) OR ucast d)"

definition n16_bytes :: "n16 \<Rightarrow> u8 list" where
  "n16_bytes n = (case n of (a, b) \<Rightarrow> [a, b])"

definition bytes_n16 :: "u8 list \<Rightarrow> n16" where
  "bytes_n16 bs = (bs ! 0, bs ! 1)"

definition n32_bytes :: "n32 \<Rightarrow> u8 list" where
  "n32_bytes n = (case n of (a, b, c, d) \<Rightarrow> [a, b, c, d])"

definition bytes_n32 :: "u8 list \<Rightarrow> n32" where
  "bytes_n32 bs = (bs ! 0, bs ! 1, bs ! 2, bs ! 3)"

section \<open>Addresses\<close>

text \<open>\<^verbatim>\<open>str::split\<close> gives at least one part.\<close>

fun split_on :: "char \<Rightarrow> string \<Rightarrow> string list" where
  "split_on x [] = [[]]"
| "split_on x (c # cs) = (if c = x then [] # split_on x cs else (c # hd (split_on x cs)) # tl (split_on x cs))"

fun join_dots :: "string list \<Rightarrow> string" where
  "join_dots [] = []"
| "join_dots [s] = s"
| "join_dots (s # ss) = s @ CHR ''.'' # join_dots ss"

type_synonym MacAddr = "u8 \<times> u8 \<times> u8 \<times> u8 \<times> u8 \<times> u8"
type_synonym Ipv4Addr = "u8 \<times> u8 \<times> u8 \<times> u8"

definition mac_bytes :: "MacAddr \<Rightarrow> u8 list" where
  "mac_bytes m = (case m of (a, b, c, d, e, f) \<Rightarrow> [a, b, c, d, e, f])"

definition bytes_mac :: "u8 list \<Rightarrow> MacAddr" where
  "bytes_mac bs = (bs ! 0, bs ! 1, bs ! 2, bs ! 3, bs ! 4, bs ! 5)"

definition ipv4_addr_bytes :: "Ipv4Addr \<Rightarrow> u8 list" where
  "ipv4_addr_bytes m = (case m of (a, b, c, d) \<Rightarrow> [a, b, c, d])"

definition bytes_ipv4_addr :: "u8 list \<Rightarrow> Ipv4Addr" where
  "bytes_ipv4_addr bs = (bs ! 0, bs ! 1, bs ! 2, bs ! 3)"

fun equals_loop :: "u8 list \<Rightarrow> u8 list \<Rightarrow> bool" where
  "equals_loop (x # xs) (y # ys) = (if x \<noteq> y then False else equals_loop xs ys)"
| "equals_loop _ _ = True"

definition mac_equals :: "MacAddr \<Rightarrow> MacAddr \<Rightarrow> bool" where
  "mac_equals a b = equals_loop (mac_bytes a) (mac_bytes b)"

definition ipv4_addr_equals :: "Ipv4Addr \<Rightarrow> Ipv4Addr \<Rightarrow> bool" where
  "ipv4_addr_equals a b = equals_loop (ipv4_addr_bytes a) (ipv4_addr_bytes b)"

definition mac_from_str :: "string \<Rightarrow> MacAddr" where
  "mac_from_str s = bytes_mac (map (\<lambda>p. ucast (to_num_radix p 16)) (take 6 (split_on (CHR ''.'') s)) @ replicate 6 0)"

text \<open>The format \<^verbatim>\<open>{:X}\<close> of a byte.\<close>

definition hex_digits :: string where
  "hex_digits = ''0123456789ABCDEF''"

definition hex_byte :: "u8 \<Rightarrow> string" where
  "hex_byte b = (let n = unat b in if n < 16 then [hex_digits ! n] else [hex_digits ! (n div 16), hex_digits ! (n mod 16)])"

definition mac_to_string :: "MacAddr \<Rightarrow> string" where
  "mac_to_string m = join_dots (map hex_byte (mac_bytes m))"

definition ipv4_from_string :: "string \<Rightarrow> Ipv4Addr" where
  "ipv4_from_string s = bytes_ipv4_addr (map (\<lambda>p. ucast (to_num p)) (take 4 (split_on (CHR ''.'') s)) @ replicate 4 0)"

definition ipv4_to_string :: "Ipv4Addr \<Rightarrow> string" where
  "ipv4_to_string m = join_dots (map (\<lambda>b. num_chars 10 (unat b)) (ipv4_addr_bytes m))"

definition BROADCAST_MAC_ADDR :: MacAddr where
  "BROADCAST_MAC_ADDR = (0xFF, 0xFF, 0xFF, 0xFF, 0xFF, 0xFF)"

definition BROADCAST_IP_ADDR :: Ipv4Addr where
  "BROADCAST_IP_ADDR = (10, 85, 85, 255)"

definition IP_ADDR :: Ipv4Addr where
  "IP_ADDR = (10, 85, 85, 2)"

section \<open>The checksum\<close>

text \<open>The memory a checksum runs over is given by its bytes; words are read little-endian.\<close>

fun checksum_loop :: "u8 list \<Rightarrow> usize \<Rightarrow> usize" where
  "checksum_loop (a # b # bs) acc = checksum_loop bs (acc + (ucast a OR push_bit 8 (ucast b)))"
| "checksum_loop [a] acc = acc + ucast a"
| "checksum_loop [] acc = acc"

definition checksum_sum :: "u8 list \<Rightarrow> usize" where
  "checksum_sum bs = checksum_loop bs 0"

lemma carry_less:
  fixes s :: usize
  assumes "drop_bit 16 s > 0"
  shows "unat ((s AND 0xFFFF) + drop_bit 16 s) = unat s mod 65536 + unat s div 65536"
    and "unat s mod 65536 + unat s div 65536 < unat s"
proof -
  have d: "unat (drop_bit 16 s) = unat s div 65536" by (simp add: drop_bit_eq_div unat_div)
  have m: "unat (s AND 0xFFFF) = unat s mod 65536"
  proof -
    have "s AND 0xFFFF = s mod 65536" using take_bit_eq_mask[of 16 s] by (simp add: mask_eq_exp_minus_1 take_bit_eq_mod)
    then show ?thesis by (simp add: unat_mod)
  qed
  have "unat s < 65536 * 65536" using unat_lt2p[of s] by simp
  then have "unat s div 65536 < 65536" by (simp add: less_mult_imp_div_less)
  then show "unat ((s AND 0xFFFF) + drop_bit 16 s) = unat s mod 65536 + unat s div 65536"
    using d m by (subst unat_add_lt) (simp_all add: less_imp_le_nat add_less_le_mono)
  have "0 < unat s div 65536" using assms d by (simp add: word_less_nat_alt)
  moreover have "unat s = 65536 * (unat s div 65536) + unat s mod 65536" by simp
  ultimately show "unat s mod 65536 + unat s div 65536 < unat s" by linarith
qed

function carry_fold :: "usize \<Rightarrow> usize" where
  "carry_fold s = (if drop_bit 16 s > 0 then carry_fold ((s AND 0xFFFF) + drop_bit 16 s) else s)"
  by pat_completeness auto
termination
  by (relation "measure unat") (use carry_less in \<open>auto simp only: in_measure wf_measure\<close>)

definition checksum_check :: "u8 list \<Rightarrow> bool" where
  "checksum_check bs \<longleftrightarrow> carry_fold (checksum_sum bs) = 0xFFFF"

definition checksum_compile :: "usize \<Rightarrow> u16" where
  "checksum_compile s = 0xFFFF - ucast (carry_fold s)"

declare carry_fold.simps [simp del]


section \<open>Packets\<close>

record EthernetIIHeader =
  eth_dst :: MacAddr
  eth_src :: MacAddr
  ethertype :: n16

definition ethernet_header_bytes :: "EthernetIIHeader \<Rightarrow> u8 list" where
  "ethernet_header_bytes h = mac_bytes (eth_dst h) @ mac_bytes (eth_src h) @ n16_bytes (ethertype h)"

definition bytes_ethernet_header :: "u8 list \<Rightarrow> EthernetIIHeader" where
  "bytes_ethernet_header bs =
     \<lparr>eth_dst = bytes_mac bs, eth_src = bytes_mac (drop 6 bs), ethertype = bytes_n16 (drop 12 bs)\<rparr>"

record EthernetII =
  eth_header :: EthernetIIHeader
  eth_data :: "u8 list"

definition ethernet_from_bytes :: "u8 list \<Rightarrow> EthernetII option" where
  "ethernet_from_bytes bs =
     (if length bs \<ge> 14 then Some \<lparr>eth_header = bytes_ethernet_header bs, eth_data = slice_from bs 14\<rparr> else None)"

definition ethernet_to_bytes :: "EthernetII \<Rightarrow> u8 list" where
  "ethernet_to_bytes f = ethernet_header_bytes (eth_header f) @ eth_data f"

record Ipv4Header =
  ver_hlen :: u8
  services :: u8
  ip_len :: n16
  ip_id :: n16
  flags_fragment :: n16
  ttl :: u8
  ip_proto :: u8
  ip_checksum :: u16
  ip_src :: Ipv4Addr
  ip_dst :: Ipv4Addr

definition ipv4_header_bytes :: "Ipv4Header \<Rightarrow> u8 list" where
  "ipv4_header_bytes h =
     [ver_hlen h, services h] @ n16_bytes (ip_len h) @ n16_bytes (ip_id h) @ n16_bytes (flags_fragment h)
     @ [ttl h, ip_proto h] @ le_bytes 2 (ip_checksum h) @ ipv4_addr_bytes (ip_src h) @ ipv4_addr_bytes (ip_dst h)"

definition bytes_ipv4_header :: "u8 list \<Rightarrow> Ipv4Header" where
  "bytes_ipv4_header bs =
     \<lparr>ver_hlen = bs ! 0, services = bs ! 1, ip_len = bytes_n16 (drop 2 bs), ip_id = bytes_n16 (drop 4 bs),
      flags_fragment = bytes_n16 (drop 6 bs), ttl = bs ! 8, ip_proto = bs ! 9, ip_checksum = le_word (take 2 (drop 10 bs)),
      ip_src = bytes_ipv4_addr (drop 12 bs), ip_dst = bytes_ipv4_addr (drop 16 bs)\<rparr>"

record Ipv4 =
  ip_header :: Ipv4Header
  ip_options :: "u8 list"
  ip_data :: "u8 list"

definition header_len :: "Ipv4Header \<Rightarrow> nat" where
  "header_len h = unat (push_bit 2 (ver_hlen h AND 0xF))"

definition ipv4_from_bytes :: "u8 list \<Rightarrow> Ipv4 option" where
  "ipv4_from_bytes bs =
     (if length bs \<ge> 20 then
        (let h = bytes_ipv4_header bs
         in Some \<lparr>ip_header = h, ip_options = slice_range bs 20 (header_len h), ip_data = slice_from bs (header_len h)\<rparr>)
      else None)"

definition ipv4_to_bytes :: "Ipv4 \<Rightarrow> u8 list" where
  "ipv4_to_bytes p = ipv4_header_bytes (ip_header p) @ ip_options p @ ip_data p"

record ArpHeader =
  htype :: n16
  ptype :: n16
  hlen :: u8
  plen :: u8
  oper :: n16
  src_mac :: MacAddr
  src_ip :: Ipv4Addr
  dst_mac :: MacAddr
  dst_ip :: Ipv4Addr

definition arp_header_bytes :: "ArpHeader \<Rightarrow> u8 list" where
  "arp_header_bytes h = n16_bytes (htype h) @ n16_bytes (ptype h) @ [hlen h, plen h] @ n16_bytes (oper h)
     @ mac_bytes (src_mac h) @ ipv4_addr_bytes (src_ip h) @ mac_bytes (dst_mac h) @ ipv4_addr_bytes (dst_ip h)"

definition bytes_arp_header :: "u8 list \<Rightarrow> ArpHeader" where
  "bytes_arp_header bs =
     \<lparr>htype = bytes_n16 bs, ptype = bytes_n16 (drop 2 bs), hlen = bs ! 4, plen = bs ! 5, oper = bytes_n16 (drop 6 bs),
      src_mac = bytes_mac (drop 8 bs), src_ip = bytes_ipv4_addr (drop 14 bs), dst_mac = bytes_mac (drop 18 bs),
      dst_ip = bytes_ipv4_addr (drop 24 bs)\<rparr>"

record Arp =
  arp_header :: ArpHeader
  arp_data :: "u8 list"

definition arp_from_bytes :: "u8 list \<Rightarrow> Arp option" where
  "arp_from_bytes bs =
     (if length bs \<ge> 28 then Some \<lparr>arp_header = bytes_arp_header bs, arp_data = slice_from bs 28\<rparr> else None)"

definition arp_to_bytes :: "Arp \<Rightarrow> u8 list" where
  "arp_to_bytes a = arp_header_bytes (arp_header a) @ arp_data a"

record IcmpHeader =
  icmp_type :: u8
  icmp_code :: u8
  icmp_checksum :: u16
  icmp_rest :: n32

definition icmp_header_bytes :: "IcmpHeader \<Rightarrow> u8 list" where
  "icmp_header_bytes h = [icmp_type h, icmp_code h] @ le_bytes 2 (icmp_checksum h) @ n32_bytes (icmp_rest h)"

definition bytes_icmp_header :: "u8 list \<Rightarrow> IcmpHeader" where
  "bytes_icmp_header bs =
     \<lparr>icmp_type = bs ! 0, icmp_code = bs ! 1, icmp_checksum = le_word (take 2 (drop 2 bs)), icmp_rest = bytes_n32 (drop 4 bs)\<rparr>"

record Icmp =
  icmp_header :: IcmpHeader
  icmp_data :: "u8 list"

definition icmp_from_bytes :: "u8 list \<Rightarrow> Icmp option" where
  "icmp_from_bytes bs =
     (if length bs \<ge> 8 then Some \<lparr>icmp_header = bytes_icmp_header bs, icmp_data = slice_from bs 8\<rparr> else None)"

definition icmp_to_bytes :: "Icmp \<Rightarrow> u8 list" where
  "icmp_to_bytes m = icmp_header_bytes (icmp_header m) @ icmp_data m"

section \<open>The two responders\<close>

text \<open>One round of \<^verbatim>\<open>ArpScheme::reply_loop\<close>: what is written for the bytes that were read.\<close>

definition arp_reply :: "MacAddr \<Rightarrow> u8 list \<Rightarrow> u8 list option" where
  "arp_reply mac_addr bs =
     (case arp_from_bytes bs of
        Some packet \<Rightarrow>
          (let h = arp_header packet in
           if n16_get (oper h) = 1 \<and> ipv4_addr_equals (dst_ip h) IP_ADDR
           then Some (arp_to_bytes \<lparr>arp_header = h\<lparr>oper := n16_new 2, dst_mac := src_mac h, dst_ip := src_ip h,
                        src_mac := mac_addr, src_ip := IP_ADDR\<rparr>, arp_data = arp_data packet\<rparr>)
           else None)
      | None \<Rightarrow> None)"

text \<open>One round of \<^verbatim>\<open>IcmpScheme::reply_loop\<close>.\<close>

definition icmp_reply :: "u8 list \<Rightarrow> u8 list option" where
  "icmp_reply bs =
     (case icmp_from_bytes bs of
        Some message \<Rightarrow>
          (if icmp_type (icmp_header message) = 0x08 then
             (let h = (icmp_header message)\<lparr>icmp_type := 0, icmp_checksum := 0\<rparr>;
                  c = checksum_compile (checksum_sum (icmp_header_bytes h) + checksum_sum (icmp_data message))
              in Some (icmp_to_bytes \<lparr>icmp_header = h\<lparr>icmp_checksum := c\<rparr>, icmp_data = icmp_data message\<rparr>))
           else None)
      | None \<Rightarrow> None)"

section \<open>Round trips\<close>

lemma n16_roundtrip [simp]: "n16_get (n16_new v) = v"
  unfolding n16_get_def n16_new_def by (rule bit_word_eqI) (auto simp: bit_simps dest: bit_imp_le_length)

lemma n32_roundtrip [simp]: "n32_get (n32_new v) = v"
proof (rule bit_word_eqI)
  fix n assume "n < LENGTH(32)"
  then consider "n < 8" | "8 \<le> n" "n < 16" | "16 \<le> n" "n < 24" | "24 \<le> n" "n < 32" by fastforce
  then show "bit (n32_get (n32_new v)) n = bit v n"
    by cases (auto simp: bit_simps n32_get_def n32_new_def)
qed

lemma addr_lengths [simp]:
  "length (n16_bytes n) = 2" "length (n32_bytes m) = 4" "length (mac_bytes a) = 6" "length (ipv4_addr_bytes b) = 4"
  by (simp_all add: n16_bytes_def n32_bytes_def mac_bytes_def ipv4_addr_bytes_def split: prod.split)

lemma addr_bytes [simp]:
  "bytes_n16 (n16_bytes n @ bs) = n" "bytes_n32 (n32_bytes m @ bs) = m" "bytes_mac (mac_bytes a @ bs) = a"
  "bytes_ipv4_addr (ipv4_addr_bytes b @ bs) = b" "bytes_ipv4_addr (ipv4_addr_bytes b) = b" "bytes_n32 (n32_bytes m) = m"
  "bytes_n16 (n16_bytes n) = n"
  by (simp_all add: n16_bytes_def bytes_n16_def n32_bytes_def bytes_n32_def mac_bytes_def bytes_mac_def ipv4_addr_bytes_def
      bytes_ipv4_addr_def nth_append numeral_eq_Suc split: prod.split)

lemma n32_bytes_of: "4 \<le> length xs \<Longrightarrow> n32_bytes (bytes_n32 xs) = take 4 xs"
  by (auto simp: n32_bytes_def bytes_n32_def numeral_eq_Suc Suc_le_length_iff)

lemma header_lengths [simp]:
  "length (ethernet_header_bytes eh) = 14" "length (ipv4_header_bytes ih) = 20" "length (arp_header_bytes ah) = 28"
  "length (icmp_header_bytes ch) = 8"
  by (simp_all add: ethernet_header_bytes_def ipv4_header_bytes_def arp_header_bytes_def icmp_header_bytes_def)

lemma header_roundtrips [simp]:
  "bytes_ethernet_header (ethernet_header_bytes eh @ bs) = eh"
  "bytes_ipv4_header (ipv4_header_bytes ih @ bs) = ih"
  "bytes_arp_header (arp_header_bytes ah @ bs) = ah"
  "bytes_icmp_header (icmp_header_bytes ch @ bs) = ch"
  by (simp_all add: ethernet_header_bytes_def bytes_ethernet_header_def ipv4_header_bytes_def bytes_ipv4_header_def
      arp_header_bytes_def bytes_arp_header_def icmp_header_bytes_def bytes_icmp_header_def nth_append le_word_le_bytes)


lemma bytes_of:
  "2 \<le> length xs \<Longrightarrow> n16_bytes (bytes_n16 xs) = take 2 xs"
  "6 \<le> length xs \<Longrightarrow> mac_bytes (bytes_mac xs) = take 6 xs"
  "4 \<le> length xs \<Longrightarrow> ipv4_addr_bytes (bytes_ipv4_addr xs) = take 4 xs"
  "2 \<le> length xs \<Longrightarrow> [xs ! 0, xs ! 1] = take 2 xs"
  by (auto simp: n16_bytes_def bytes_n16_def mac_bytes_def bytes_mac_def ipv4_addr_bytes_def bytes_ipv4_addr_def
      numeral_eq_Suc Suc_le_length_iff)

lemma checksum_of: "2 \<le> length xs \<Longrightarrow> le_bytes 2 (le_word (take 2 xs) :: u16) = take 2 xs"
  using le_bytes_le_word[of "take 2 xs", where 'a = 16] by (simp add: min_absorb2)

text \<open>The pieces of a list of bytes, put together again.\<close>

fun pieces :: "nat list \<Rightarrow> u8 list \<Rightarrow> u8 list" where
  "pieces [] bs = []"
| "pieces (n # ns) bs = take n bs @ pieces ns (drop n bs)"

lemma pieces_take: "pieces ns bs = take (sum_list ns) bs"
  by (induction ns arbitrary: bs) (simp_all add: take_add)

lemma ethernet_header_of: "14 \<le> length bs \<Longrightarrow> ethernet_header_bytes (bytes_ethernet_header bs) = take 14 bs"
  using pieces_take[of "[6, 6, 2]" bs] by (simp add: ethernet_header_bytes_def bytes_ethernet_header_def bytes_of)

lemma ipv4_header_of: "20 \<le> length bs \<Longrightarrow> ipv4_header_bytes (bytes_ipv4_header bs) = take 20 bs"
  using pieces_take[of "[2, 2, 2, 2, 2, 2, 4, 4]" bs] bytes_of(4)[of bs] bytes_of(4)[of "drop 8 bs"]
  by (simp add: ipv4_header_bytes_def bytes_ipv4_header_def bytes_of checksum_of)

lemma arp_header_of: "28 \<le> length bs \<Longrightarrow> arp_header_bytes (bytes_arp_header bs) = take 28 bs"
  using pieces_take[of "[2, 2, 2, 2, 6, 4, 6, 4]" bs] bytes_of(4)[of "drop 4 bs"]
  by (simp add: arp_header_bytes_def bytes_arp_header_def bytes_of)

lemma icmp_header_of: "8 \<le> length bs \<Longrightarrow> icmp_header_bytes (bytes_icmp_header bs) = take 8 bs"
  using pieces_take[of "[2, 2, 4]" bs] bytes_of(4)[of bs]
  by (simp add: icmp_header_bytes_def bytes_icmp_header_def bytes_of checksum_of n32_bytes_of)

text \<open>
  C37. Every packet format survives the wire: a frame, an ARP or an ICMP message, or an IPv4
  packet whose header length field is right, converted to bytes and back is the same packet; and whatever bytes arrive,
  a packet accepted from them converts back to exactly these bytes (for IPv4, when the header length field is at
  least 20).
\<close>

theorem packets_roundtrip:
  "ethernet_from_bytes (ethernet_to_bytes f) = Some f
   \<and> arp_from_bytes (arp_to_bytes a) = Some a \<and> icmp_from_bytes (icmp_to_bytes m) = Some m
   \<and> (header_len (ip_header p) = 20 + length (ip_options p) \<longrightarrow> ipv4_from_bytes (ipv4_to_bytes p) = Some p)
   \<and> (ethernet_from_bytes bs = Some f \<longrightarrow> ethernet_to_bytes f = bs)
   \<and> (arp_from_bytes bs = Some a \<longrightarrow> arp_to_bytes a = bs) \<and> (icmp_from_bytes bs = Some m \<longrightarrow> icmp_to_bytes m = bs)
   \<and> (ipv4_from_bytes bs = Some p \<longrightarrow> 20 \<le> header_len (ip_header p) \<longrightarrow> ipv4_to_bytes p = bs)"
proof (intro conjI impI)
  show "ethernet_from_bytes (ethernet_to_bytes f) = Some f" "arp_from_bytes (arp_to_bytes a) = Some a"
    "icmp_from_bytes (icmp_to_bytes m) = Some m"
    by (simp_all add: ethernet_from_bytes_def ethernet_to_bytes_def arp_from_bytes_def arp_to_bytes_def icmp_from_bytes_def
        icmp_to_bytes_def)
next
  assume "header_len (ip_header p) = 20 + length (ip_options p)"
  then show "ipv4_from_bytes (ipv4_to_bytes p) = Some p"
    by (simp add: ipv4_from_bytes_def ipv4_to_bytes_def Let_def slice_range_eq)
next
  assume "ethernet_from_bytes bs = Some f"
  then show "ethernet_to_bytes f = bs"
    by (auto simp: ethernet_from_bytes_def ethernet_to_bytes_def ethernet_header_of split: if_splits)
next
  assume "arp_from_bytes bs = Some a"
  then show "arp_to_bytes a = bs" by (auto simp: arp_from_bytes_def arp_to_bytes_def arp_header_of split: if_splits)
next
  assume "icmp_from_bytes bs = Some m"
  then show "icmp_to_bytes m = bs" by (auto simp: icmp_from_bytes_def icmp_to_bytes_def icmp_header_of split: if_splits)
next
  assume a: "ipv4_from_bytes bs = Some p" "20 \<le> header_len (ip_header p)"
  then have len: "20 \<le> length bs" and p: "p = \<lparr>ip_header = bytes_ipv4_header bs,
      ip_options = slice_range bs 20 (header_len (bytes_ipv4_header bs)), ip_data = slice_from bs (header_len (bytes_ipv4_header bs))\<rparr>"
    by (auto simp: ipv4_from_bytes_def Let_def split: if_splits)
  define n where "n = header_len (bytes_ipv4_header bs)"
  have "take 20 bs @ take (n - 20) (drop 20 bs) @ drop n bs = bs"
    using a(2) append_take_drop_id[of 20 bs] append_take_drop_id[of "n - 20" "drop 20 bs"] by (simp add: p n_def)
  then show "ipv4_to_bytes p = bs"
    using a(2) len by (simp add: p ipv4_to_bytes_def ipv4_header_of slice_range_eq n_def)
qed

theorem packets_roundtrip_witness:
  "ipv4_from_bytes (ipv4_to_bytes \<lparr>ip_header = \<lparr>ver_hlen = 0x45, services = 0, ip_len = (0, 21), ip_id = (1, 2), flags_fragment = (0, 0),
       ttl = 128, ip_proto = 6, ip_checksum = 0x1234, ip_src = IP_ADDR, ip_dst = BROADCAST_IP_ADDR\<rparr>, ip_options = [], ip_data = [7]\<rparr>) \<noteq> None
   \<and> ethernet_to_bytes \<lparr>eth_header = bytes_ethernet_header (replicate 20 5), eth_data = replicate 6 5\<rparr> = replicate 20 5"
proof -
  have "ethernet_from_bytes (replicate 20 5) = Some \<lparr>eth_header = bytes_ethernet_header (replicate 20 5), eth_data = replicate 6 5\<rparr>"
    by (simp add: ethernet_from_bytes_def)
  then show ?thesis
    using packets_roundtrip[of "\<lparr>eth_header = bytes_ethernet_header (replicate 20 5), eth_data = replicate 6 5\<rparr>" undefined undefined
      "\<lparr>ip_header = \<lparr>ver_hlen = 0x45, services = 0, ip_len = (0, 21), ip_id = (1, 2), flags_fragment = (0, 0),
       ttl = 128, ip_proto = 6, ip_checksum = 0x1234, ip_src = IP_ADDR, ip_dst = BROADCAST_IP_ADDR\<rparr>, ip_options = [], ip_data = [7]\<rparr>"
      "replicate 20 5"]
    by (simp add: header_len_def)
qed

section \<open>Addresses as text\<close>

lemma split_on_word: "x \<notin> set s \<Longrightarrow> split_on x (s @ x # t) = s # split_on x t"
  by (induction s) auto

lemma split_on_none: "x \<notin> set s \<Longrightarrow> split_on x s = [s]"
  by (induction s) auto

lemma split_join:
  assumes "ss \<noteq> []" and "\<forall>s \<in> set ss. CHR ''.'' \<notin> set s"
  shows "split_on (CHR ''.'') (join_dots ss) = ss"
  using assms by (induction ss rule: join_dots.induct) (auto simp: split_on_word split_on_none)

lemma hex_digit:
  assumes "d < 16"
  shows "digit_of (hex_digits ! d) = Some (of_nat d)" "hex_digits ! d \<noteq> CHR ''.''" "(of_nat d :: usize) < 16"
proof -
  have "\<forall>d \<in> set [0..<16]. digit_of (hex_digits ! d) = Some (of_nat d) \<and> hex_digits ! d \<noteq> CHR ''.''"
    by (simp add: upt_rec digit_of_def hex_digits_def)
  then show "digit_of (hex_digits ! d) = Some (of_nat d)" "hex_digits ! d \<noteq> CHR ''.''" using assms by auto
  show "(of_nat d :: usize) < 16" using assms by (simp add: word_less_nat_alt unat_of_nat_lt)
qed

lemma hex_byte_inverts: "to_num_radix (hex_byte b) 16 = ucast b" "CHR ''.'' \<notin> set (hex_byte b)"
proof -
  have b: "unat b < 256" using unat_lt2p[of b] by simp
  have n: "unat b div 16 < 16" "unat b mod 16 < 16" using b by auto
  have u: "(of_nat (unat b) :: usize) = ucast b" by simp
  have "(of_nat (unat b div 16) * 16 + of_nat (unat b mod 16) :: usize) = of_nat (unat b div 16 * 16 + unat b mod 16)"
    by (simp only: of_nat_add of_nat_mult of_nat_numeral)
  also have "\<dots> = of_nat (unat b)" by (simp only: div_mult_mod_eq)
  finally have two: "(of_nat (unat b div 16) * 16 + of_nat (unat b mod 16) :: usize) = ucast b" using u by simp
  show "to_num_radix (hex_byte b) 16 = ucast b"
  proof (cases "unat b < 16")
    case True
    then show ?thesis using hex_digit[OF True] u by (simp add: to_num_radix_def hex_byte_def not_le[symmetric])
  next
    case False
    then show ?thesis using hex_digit[OF n(1)] hex_digit[OF n(2)] two
      by (simp add: to_num_radix_def hex_byte_def Let_def not_le[symmetric])
  qed
  show "CHR ''.'' \<notin> set (hex_byte b)"
    using hex_digit(2)[OF n(1)] hex_digit(2)[OF n(2)] hex_digit(2)[of "unat b"] by (auto simp: hex_byte_def Let_def)
qed

lemma decimal_byte: "(ucast (to_num (num_chars 10 (unat b))) :: u8) = b" "CHR ''.'' \<notin> set (num_chars 10 (unat (b :: u8)))"
proof -
  have b: "unat b < 256" using unat_lt2p[of b] by simp
  have "to_num (num_chars 10 (unat b)) = of_nat (unat b)"
    using to_num_loop_chars[of 10 "unat b"] by (simp add: to_num_def to_num_radix_def)
  then show "(ucast (to_num (num_chars 10 (unat b))) :: u8) = b"
    using b by (simp add: unsigned_of_nat take_bit_nat_eq_self del: of_nat_unat) (metis of_nat_unat ucast_id)
  have "digit_of (CHR ''.'') = None" by (simp add: digit_of_def)
  then show "CHR ''.'' \<notin> set (num_chars 10 (unat b))"
    using num_chars_digits[of 10 "unat b"] valid_digit[of 10] by fastforce
qed

text \<open>Hardware and Internet addresses survive being printed and parsed.\<close>

theorem addresses_roundtrip: "mac_from_str (mac_to_string m) = m \<and> ipv4_from_string (ipv4_to_string a) = a"
proof -
  have "split_on (CHR ''.'') (mac_to_string m) = map hex_byte (mac_bytes m)"
    unfolding mac_to_string_def by (rule split_join) (auto simp: hex_byte_inverts mac_bytes_def split: prod.splits)
  moreover have "(ucast (ucast x :: usize) :: u8) = x" for x by (rule bit_word_eqI) (auto simp: bit_simps)
  ultimately have "mac_from_str (mac_to_string m) = m"
    by (simp add: mac_from_str_def hex_byte_inverts comp_def)
  moreover have "split_on (CHR ''.'') (ipv4_to_string a) = map (\<lambda>b. num_chars 10 (unat b)) (ipv4_addr_bytes a)"
    unfolding ipv4_to_string_def by (rule split_join) (auto simp: decimal_byte ipv4_addr_bytes_def split: prod.splits)
  then have "ipv4_from_string (ipv4_to_string a) = a"
    by (simp add: ipv4_from_string_def decimal_byte comp_def)
  ultimately show ?thesis by simp
qed

section \<open>Checksums\<close>

lemma carry_fold_spec:
  "unat (carry_fold s) mod 65535 = unat s mod 65535 \<and> unat (carry_fold s) \<le> 65535 \<and> (carry_fold s = 0 \<longleftrightarrow> s = 0)"
proof (induction s rule: carry_fold.induct)
  case (1 s)
  show ?case
  proof (cases "drop_bit 16 s > 0")
    case True
    let ?t = "(s AND 0xFFFF) + drop_bit 16 s"
    have t: "unat ?t = unat s mod 65536 + unat s div 65536" by (rule carry_less(1)[OF True])
    have "unat s = 65535 * (unat s div 65536) + (unat s mod 65536 + unat s div 65536)"
      using mult_div_mod_eq[of 65536 "unat s"] by linarith
    then have "unat s mod 65535 = unat ?t mod 65535" unfolding t by (metis mod_mult_self4 add.commute)
    moreover have "?t = 0 \<longleftrightarrow> s = 0"
    proof -
      have "s \<noteq> 0" using True by auto
      moreover have "0 < unat s div 65536"
        using True by (simp add: word_less_nat_alt drop_bit_eq_div unat_div)
      then have "unat ?t \<noteq> 0" unfolding t by simp
      then have "?t \<noteq> 0" by (metis unat_0)
      ultimately show ?thesis by simp
    qed
    ultimately show ?thesis using "1.IH"[OF True] True by (subst (1 2 3) carry_fold.simps) simp
  next
    case False
    then have "unat s div 65536 = 0" by (simp add: word_less_nat_alt drop_bit_eq_div unat_div)
    then have "unat s \<le> 65535" by (simp add: div_eq_0_iff)
    then show ?thesis using False by (subst (1 2 3) carry_fold.simps) simp
  qed
qed

lemma compile_completes:
  assumes "unat s + 65535 < 2 ^ 32"
  shows "carry_fold (s + ucast (checksum_compile s)) = 0xFFFF"
proof -
  define f where "f = unat (carry_fold s)"
  have f: "f mod 65535 = unat s mod 65535" "f \<le> 65535" using carry_fold_spec[of s] by (simp_all add: f_def)
  have u: "unat (ucast (carry_fold s) :: u16) = f" using f(2) by (simp add: f_def unsigned_ucast_eq take_bit_nat_eq_self)
  then have "(ucast (carry_fold s) :: u16) \<le> 0xFFFF" by (simp add: word_le_nat_alt f(2))
  then have c: "unat (checksum_compile s) = 65535 - f" by (simp add: checksum_compile_def unat_sub u)
  let ?t = "s + ucast (checksum_compile s)"
  have t: "unat ?t = unat s + (65535 - f)"
    using assms by (subst unat_add_lt) (simp_all add: c unsigned_ucast_eq take_bit_nat_eq_self)
  have "(unat s + (65535 - f)) mod 65535 = (f + (65535 - f)) mod 65535"
    by (metis f(1) mod_add_left_eq)
  then have m: "unat ?t mod 65535 = 0" unfolding t using f(2) by simp
  have "unat ?t \<noteq> 0"
  proof
    assume "unat ?t = 0"
    then have "unat s = 0" "f = 65535" using f(2) t by linarith+
    then have "s = 0" "carry_fold s \<noteq> 0" by (simp_all add: f_def unat_eq_zero) (metis f_def unat_0 zero_neq_numeral)
    then show False using carry_fold_spec[of s] by simp
  qed
  then have "?t \<noteq> 0" by auto
  note F = carry_fold_spec[of ?t]
  have "unat (carry_fold ?t) \<noteq> 0" using F \<open>?t \<noteq> 0\<close> by (simp add: unat_eq_zero)
  moreover have "unat (carry_fold ?t) mod 65535 = 0" "unat (carry_fold ?t) \<le> 65535" using F m by simp_all
  ultimately have "unat (carry_fold ?t) = 65535"
    by (metis le_neq_implies_less mod_less)
  then show ?thesis by (simp add: word_unat_eq_iff)
qed


lemma checksum_loop_acc: "checksum_loop bs a = a + checksum_loop bs 0"
proof (induction bs arbitrary: a rule: induct_list012)
  case (3 x y bs)
  show ?case unfolding checksum_loop.simps(1) by (subst (1 2) "3.IH"(1)) simp
qed simp_all

lemma checksum_sum_Cons2: "checksum_sum (a # b # bs) = (ucast a OR push_bit 8 (ucast b)) + checksum_sum bs"
  unfolding checksum_sum_def checksum_loop.simps by (subst checksum_loop_acc) simp

lemma checksum_sum_append: "even (length xs) \<Longrightarrow> checksum_sum (xs @ ys) = checksum_sum xs + checksum_sum ys"
proof (induction xs rule: induct_list012)
  case (3 a b xs)
  then show ?case by (simp add: checksum_sum_Cons2)
qed (simp_all add: checksum_sum_def)

lemma checksum_sum_word: "checksum_sum (le_bytes 2 (c :: u16)) = ucast c"
proof -
  have "ucast (ucast c :: u8) OR push_bit 8 (ucast (ucast (drop_bit 8 c) :: u8)) = (ucast c :: usize)"
    by (rule bit_word_eqI) (auto simp: bit_simps dest: bit_imp_le_length)
  then show ?thesis by (simp add: le_bytes_def checksum_sum_def upt_rec)
qed

lemma word_of_two: "unat (ucast (a :: u8) OR push_bit 8 (ucast (b :: u8)) :: usize) \<le> 65535"
proof -
  have "ucast a OR push_bit 8 (ucast b) = (take_bit 16 (ucast a OR push_bit 8 (ucast b)) :: usize)"
    by (rule bit_word_eqI) (auto simp: bit_simps dest: bit_imp_le_length)
  then have "unat (ucast a OR push_bit 8 (ucast b) :: usize) = take_bit 16 (unat (ucast a OR push_bit 8 (ucast b) :: usize))"
    using unsigned_take_bit_eq[of 16 "ucast a OR push_bit 8 (ucast b) :: usize", where 'a = nat] by simp
  also have "\<dots> < 2 ^ 16" by (rule take_bit_nat_less_exp)
  finally show ?thesis by simp
qed

lemma checksum_sum_bound:
  "65535 * ((length bs + 1) div 2) < 2 ^ 32 \<Longrightarrow> unat (checksum_sum bs) \<le> 65535 * ((length bs + 1) div 2)"
proof (induction bs rule: induct_list012)
  case (2 a)
  have "unat a < 2 ^ 8" using unat_lt2p[of a] by simp
  moreover from this have "unat (ucast a :: usize) = unat a" by (simp add: unsigned_ucast_eq take_bit_nat_eq_self)
  ultimately show ?case by (simp add: checksum_sum_def)
next
  case (3 a b bs)
  define x where "x = (length bs + 1) div 2"
  have l: "(length (a # b # bs) + 1) div 2 = x + 1" by (simp add: x_def)
  let ?w = "ucast a OR push_bit 8 (ucast b) :: usize"
  have IH: "unat (checksum_sum bs) \<le> 65535 * x" using 3 unfolding l x_def by simp
  then have "unat ?w + unat (checksum_sum bs) < 2 ^ 32" using word_of_two[of a b] 3(3) unfolding l by simp
  then have "unat (?w + checksum_sum bs) = unat ?w + unat (checksum_sum bs)" by (intro unat_add_lt) simp
  then show ?case using IH word_of_two[of a b] unfolding checksum_sum_Cons2 l by simp
qed (simp add: checksum_sum_def)

text \<open>A message whose checksum field, at an even offset, is computed over the message with that field cleared passes the check.\<close>

lemma checksum_field:
  assumes "even (length xs)" and "length xs + length ys + 2 \<le> 0x1FF00"
  shows "checksum_check (xs @ le_bytes 2 (checksum_compile (checksum_sum (xs @ le_bytes 2 (0 :: u16) @ ys))) @ ys)"
proof -
  let ?s = "checksum_sum (xs @ le_bytes 2 (0 :: u16) @ ys)"
  have w: "checksum_sum (xs @ le_bytes 2 (c :: u16) @ ys) = checksum_sum xs + ucast c + checksum_sum ys" for c
    using assms(1) checksum_sum_append[of "le_bytes 2 c" ys] by (simp add: checksum_sum_append checksum_sum_word add.assoc)
  have "(length (xs @ le_bytes 2 (0 :: u16) @ ys) + 1) div 2 \<le> 0xFF80" using assms(2) by simp
  then have b: "65535 * ((length (xs @ le_bytes 2 (0 :: u16) @ ys) + 1) div 2) \<le> 65535 * 0xFF80" by (intro mult_le_mono2)
  have "unat ?s \<le> 65535 * 0xFF80"
    by (rule order_trans[OF checksum_sum_bound b], rule le_less_trans[OF b]) simp
  then have "unat ?s + 65535 < 2 ^ 32" by simp
  from compile_completes[OF this] show ?thesis
    unfolding checksum_check_def w by (simp add: ac_simps)
qed

text \<open>
  The echo responder: it answers exactly the echo requests, with a message that differs from the request
  only in its type and checksum, and whose checksum is valid.
\<close>

theorem icmp_reply_correct:
  assumes "length bs \<le> 0x1FF00"
  shows "case icmp_reply bs of
     None \<Rightarrow> length bs < 8 \<or> bs ! 0 \<noteq> 8
   | Some r \<Rightarrow> 8 \<le> length bs \<and> bs ! 0 = 8 \<and> checksum_check r \<and> length r = length bs
       \<and> r ! 0 = 0 \<and> (\<forall>i < length bs. i \<notin> {0, 2, 3} \<longrightarrow> r ! i = bs ! i)"
proof (cases "8 \<le> length bs \<and> bs ! 0 = 8")
  case True
  let ?h = "bytes_icmp_header bs" and ?d = "drop 8 bs"
  let ?c = "checksum_compile (checksum_sum (icmp_header_bytes (?h\<lparr>icmp_type := 0, icmp_checksum := 0\<rparr>)) + checksum_sum ?d)"
  let ?r = "icmp_to_bytes \<lparr>icmp_header = ?h\<lparr>icmp_type := 0, icmp_checksum := ?c\<rparr>, icmp_data = ?d\<rparr>"
  have r: "icmp_reply bs = Some ?r"
    using True by (simp add: icmp_reply_def icmp_from_bytes_def Let_def bytes_icmp_header_def)
  let ?xs = "[0, icmp_code ?h]" and ?ys = "n32_bytes (icmp_rest ?h) @ ?d"
  have split: "?r = ?xs @ le_bytes 2 ?c @ ?ys" by (simp add: icmp_to_bytes_def icmp_header_bytes_def)
  have "icmp_header_bytes (?h\<lparr>icmp_type := 0, icmp_checksum := 0\<rparr>) @ ?d = ?xs @ le_bytes 2 (0 :: u16) @ ?ys"
    by (simp add: icmp_header_bytes_def)
  then have "checksum_sum (icmp_header_bytes (?h\<lparr>icmp_type := 0, icmp_checksum := 0\<rparr>)) + checksum_sum ?d =
      checksum_sum (?xs @ le_bytes 2 (0 :: u16) @ ?ys)"
    using checksum_sum_append[of "icmp_header_bytes (?h\<lparr>icmp_type := 0, icmp_checksum := 0\<rparr>)" ?d] by simp
  then have chk: "checksum_check ?r" unfolding split using checksum_field[of ?xs ?ys] assms True by simp
  have rest: "n32_bytes (icmp_rest ?h) = take 4 (drop 4 bs)"
    using conjunct1[OF True] by (simp add: bytes_icmp_header_def n32_bytes_of)
  have "n32_bytes (icmp_rest ?h) @ ?d = drop 4 bs" unfolding rest using append_take_drop_id[of 4 "drop 4 bs"] by simp
  then have body: "?r = ?xs @ le_bytes 2 ?c @ drop 4 bs" unfolding split by simp
  have "?r ! i = bs ! i" if "i < length bs" "i \<notin> {0, 2, 3}" for i
  proof (cases "i < 4")
    case i: True
    then have "i = 1" using that(2) by auto
    moreover have "icmp_code ?h = bs ! 1" by (simp add: bytes_icmp_header_def)
    ultimately show ?thesis unfolding body by simp
  next
    case False
    have "length (?xs @ le_bytes 2 ?c) = 4" by simp
    then have "((?xs @ le_bytes 2 ?c) @ drop 4 bs) ! i = drop 4 bs ! (i - 4)" using False by (simp only: nth_append if_False)
    then show ?thesis using False that(1) True by (simp add: body)
  qed
  moreover have "length ?r = length bs" using True by (simp add: icmp_to_bytes_def)
  ultimately show ?thesis using True chk r by (simp add: body)
next
  case False
  then show ?thesis by (auto simp: icmp_reply_def icmp_from_bytes_def bytes_icmp_header_def)
qed

theorem icmp_reply_correct_witness:
  "\<exists>r. icmp_reply [8, 0, 1, 2, 3, 4, 5, 6, 7] = Some r \<and> checksum_check r"
  using icmp_reply_correct[of "[8, 0, 1, 2, 3, 4, 5, 6, 7]"] by (cases "icmp_reply [8, 0, 1, 2, 3, 4, 5, 6, 7]") auto

end
