(* ===== verification/Tcp.thy ===== *)
theory Tcp
  imports Wire Errors
begin

text \<open>
  The transport protocols and the resources below them (\<^verbatim>\<open>kernel/network/schemes\<close>: \<^verbatim>\<open>ethernet.rs\<close>, \<^verbatim>\<open>ip.rs\<close>,
  \<^verbatim>\<open>tcp/main.rs\<close>, \<^verbatim>\<open>udp/main.rs\<close>). A resource reads from and writes to the one below it, a link: the
  results its reads will give, in order, and the packets written to it. A loop that waits for a packet consumes
  results until it accepts one; with no result left it is still waiting.
\<close>

section \<open>Links\<close>

record Link =
  inbound :: "u8 list result list"
  outbound :: "u8 list list"
  write_err :: "errno option"

definition link_write :: "u8 list \<Rightarrow> Link \<Rightarrow> usize result \<times> Link" where
  "link_write bs l =
     (case write_err l of Some e \<Rightarrow> (Err e, l) | None \<Rightarrow> (Ok (of_nat (length bs)), l\<lparr>outbound := outbound l @ [bs]\<rparr>))"

datatype 'a outcome = Waiting | Panicked | Failed errno | Done 'a

text \<open>\<^verbatim>\<open>parse\<close> gives \<^term>\<open>None\<close> when it panics and \<^term>\<open>Some None\<close> for bytes that are no packet.\<close>

fun wait_packet :: "(u8 list \<Rightarrow> 'p option option) \<Rightarrow> ('p \<Rightarrow> bool) \<Rightarrow> u8 list result list \<Rightarrow> 'p outcome \<times> u8 list result list" where
  "wait_packet parse accept [] = (Waiting, [])"
| "wait_packet parse accept (Inl e # rs) = (Failed e, rs)"
| "wait_packet parse accept (Inr bs # rs) =
     (case parse bs of
        None \<Rightarrow> (Panicked, rs)
      | Some None \<Rightarrow> wait_packet parse accept rs
      | Some (Some p) \<Rightarrow> if accept p then (Done p, rs) else wait_packet parse accept rs)"

text \<open>A loop that returns what it makes of the packet it was waiting for.\<close>

definition map_outcome :: "('p \<Rightarrow> 'a) \<Rightarrow> 'p outcome \<Rightarrow> 'a outcome" where
  "map_outcome f r = (case r of Done p \<Rightarrow> Done (f p) | Failed e \<Rightarrow> Failed e | Panicked \<Rightarrow> Panicked | Waiting \<Rightarrow> Waiting)"

section \<open>Ethernet\<close>

record EthernetResource =
  er_link :: Link
  er_data :: "u8 list"
  er_peer :: MacAddr
  er_ethertype :: u16

definition ethernet_accepts :: "MacAddr \<Rightarrow> EthernetResource \<Rightarrow> EthernetII \<Rightarrow> bool" where
  "ethernet_accepts mac_addr r frame \<longleftrightarrow>
     n16_get (ethertype (eth_header frame)) = er_ethertype r
     \<and> (mac_equals (eth_dst (eth_header frame)) mac_addr \<or> mac_equals (eth_dst (eth_header frame)) BROADCAST_MAC_ADDR)
     \<and> (mac_equals (eth_src (eth_header frame)) (er_peer r) \<or> mac_equals (er_peer r) BROADCAST_MAC_ADDR)"

definition ethernet_read_to_end :: "MacAddr \<Rightarrow> EthernetResource \<Rightarrow> u8 list outcome \<times> EthernetResource" where
  "ethernet_read_to_end mac_addr r =
     (if er_data r \<noteq> [] then (Done (er_data r), r\<lparr>er_data := []\<rparr>)
      else (let (res, rs) = wait_packet (\<lambda>bs. Some (ethernet_from_bytes bs)) (ethernet_accepts mac_addr r) (inbound (er_link r))
            in (map_outcome eth_data res, r\<lparr>er_link := (er_link r)\<lparr>inbound := rs\<rparr>\<rparr>)))"

definition ethernet_write :: "MacAddr \<Rightarrow> u8 list \<Rightarrow> EthernetResource \<Rightarrow> usize result \<times> EthernetResource" where
  "ethernet_write mac_addr buf r =
     (let frame = \<lparr>eth_header = \<lparr>eth_dst = er_peer r, eth_src = mac_addr, ethertype = n16_new (er_ethertype r)\<rparr>, eth_data = buf\<rparr>;
          (res, l) = link_write (ethernet_to_bytes frame) (er_link r)
      in (case res of Inr _ \<Rightarrow> Ok (of_nat (length buf)) | Inl e \<Rightarrow> Err e, r\<lparr>er_link := l\<rparr>))"

section \<open>IP\<close>

record IpResource =
  ir_link :: Link
  ir_data :: "u8 list"
  ir_peer :: Ipv4Addr
  ir_proto :: u8
  ir_id :: u16

definition ip_accepts :: "IpResource \<Rightarrow> Ipv4 \<Rightarrow> bool" where
  "ip_accepts r p \<longleftrightarrow> ip_proto (ip_header p) = ir_proto r \<and> ipv4_addr_equals (ip_dst (ip_header p)) IP_ADDR
     \<and> ipv4_addr_equals (ip_src (ip_header p)) (ir_peer r)"

definition ip_read_to_end :: "IpResource \<Rightarrow> u8 list outcome \<times> IpResource" where
  "ip_read_to_end r =
     (if ir_data r \<noteq> [] then (Done (ir_data r), r\<lparr>ir_data := []\<rparr>)
      else (let (res, rs) = wait_packet (\<lambda>bs. Some (ipv4_from_bytes bs)) (ip_accepts r) (inbound (ir_link r))
            in (map_outcome ip_data res, r\<lparr>ir_link := (ir_link r)\<lparr>inbound := rs\<rparr>\<rparr>)))"

definition ip_packet :: "IpResource \<Rightarrow> u8 list \<Rightarrow> Ipv4" where
  "ip_packet r buf =
     (let h = \<lparr>ver_hlen = 0x45, services = 0, ip_len = n16_new (of_nat (20 + length buf)), ip_id = n16_new (ir_id r),
               flags_fragment = n16_new 0, ttl = 128, ip_proto = ir_proto r, ip_checksum = 0, ip_src = IP_ADDR, ip_dst = ir_peer r\<rparr>
      in \<lparr>ip_header = h\<lparr>ip_checksum := checksum_compile (checksum_sum (ipv4_header_bytes h) + checksum_sum [])\<rparr>,
          ip_options = [], ip_data = buf\<rparr>)"

definition ip_write :: "u8 list \<Rightarrow> IpResource \<Rightarrow> usize result \<times> IpResource" where
  "ip_write buf r =
     (let r = r\<lparr>ir_id := ir_id r + 1\<rparr>; (res, l) = link_write (ipv4_to_bytes (ip_packet r buf)) (ir_link r)
      in (case res of Inr _ \<Rightarrow> Ok (of_nat (length buf)) | Inl e \<Rightarrow> Err e, r\<lparr>ir_link := l\<rparr>))"

section \<open>TCP\<close>

record TcpHeader =
  tcp_src :: n16
  tcp_dst :: n16
  tcp_sequence :: n32
  ack_num :: n32
  tcp_flags :: n16
  window_size :: n16
  tcp_checksum :: u16
  urgent_pointer :: n16

definition tcp_header_bytes :: "TcpHeader \<Rightarrow> u8 list" where
  "tcp_header_bytes h = n16_bytes (tcp_src h) @ n16_bytes (tcp_dst h) @ n32_bytes (tcp_sequence h) @ n32_bytes (ack_num h)
     @ n16_bytes (tcp_flags h) @ n16_bytes (window_size h) @ le_bytes 2 (tcp_checksum h) @ n16_bytes (urgent_pointer h)"

definition bytes_tcp_header :: "u8 list \<Rightarrow> TcpHeader" where
  "bytes_tcp_header bs =
     \<lparr>tcp_src = bytes_n16 bs, tcp_dst = bytes_n16 (drop 2 bs), tcp_sequence = bytes_n32 (drop 4 bs), ack_num = bytes_n32 (drop 8 bs),
      tcp_flags = bytes_n16 (drop 12 bs), window_size = bytes_n16 (drop 14 bs), tcp_checksum = le_word (take 2 (drop 16 bs)),
      urgent_pointer = bytes_n16 (drop 18 bs)\<rparr>"

record Tcp =
  tcp_header :: TcpHeader
  tcp_options :: "u8 list"
  tcp_data :: "u8 list"

definition TCP_FIN :: u16 where [redox_consts]: "TCP_FIN = 1"
definition TCP_SYN :: u16 where [redox_consts]: "TCP_SYN = 2"
definition TCP_RST :: u16 where [redox_consts]: "TCP_RST = 4"
definition TCP_PSH :: u16 where [redox_consts]: "TCP_PSH = 8"
definition TCP_ACK :: u16 where [redox_consts]: "TCP_ACK = 16"

text \<open>Indexing with a range panics when the range is not inside the slice.\<close>

definition tcp_from_bytes :: "u8 list \<Rightarrow> Tcp option option" where
  "tcp_from_bytes bs =
     (if length bs \<ge> 20 then
        (let h = bytes_tcp_header bs; n = unat (drop_bit 10 (n16_get (tcp_flags h) AND 0xF000))
         in if 20 \<le> n \<and> n \<le> length bs
            then Some (Some \<lparr>tcp_header = h, tcp_options = take (n - 20) (drop 20 bs), tcp_data = drop n bs\<rparr>) else None)
      else Some None)"

definition tcp_to_bytes :: "Tcp \<Rightarrow> u8 list" where
  "tcp_to_bytes t = tcp_header_bytes (tcp_header t) @ tcp_options t @ tcp_data t"

record TcpResource =
  tr_ip :: Link
  tr_peer_addr :: Ipv4Addr
  peer_port :: u16
  host_port :: u16
  tr_sequence :: u32
  acknowledge :: u32

text \<open>The construction every sending method repeats: no options, the length of the header and the flags in one field, the checksum last.\<close>

definition tcp_segment :: "TcpResource \<Rightarrow> u16 \<Rightarrow> u8 list \<Rightarrow> Tcp" where
  "tcp_segment r flags data =
     (let h = \<lparr>tcp_src = n16_new (host_port r), tcp_dst = n16_new (peer_port r), tcp_sequence = n32_new (tr_sequence r),
               ack_num = n32_new (acknowledge r), tcp_flags = n16_new (0x5000 OR flags), window_size = n16_new 65535,
               tcp_checksum = 0, urgent_pointer = n16_new 0\<rparr>;
          segment_len = n16_new (of_nat (20 + length data));
          c = checksum_compile (checksum_sum (ipv4_addr_bytes IP_ADDR) + checksum_sum (ipv4_addr_bytes (tr_peer_addr r))
                + checksum_sum (n16_bytes (n16_new 6)) + checksum_sum (n16_bytes segment_len)
                + checksum_sum (tcp_header_bytes h) + checksum_sum [] + checksum_sum data)
      in \<lparr>tcp_header = h\<lparr>tcp_checksum := c\<rparr>, tcp_options = [], tcp_data = data\<rparr>)"

definition send_segment :: "TcpResource \<Rightarrow> u16 \<Rightarrow> u8 list \<Rightarrow> usize result \<times> TcpResource" where
  "send_segment r flags data =
     (let (res, l) = link_write (tcp_to_bytes (tcp_segment r flags data)) (tr_ip r) in (res, r\<lparr>tr_ip := l\<rparr>))"

definition segment_flags :: "Tcp \<Rightarrow> u16" where
  "segment_flags t = n16_get (tcp_flags (tcp_header t)) AND (TCP_PSH OR TCP_SYN OR TCP_ACK)"

definition ports_match :: "TcpResource \<Rightarrow> Tcp \<Rightarrow> bool" where
  "ports_match r t \<longleftrightarrow> n16_get (tcp_dst (tcp_header t)) = host_port r \<and> n16_get (tcp_src (tcp_header t)) = peer_port r"

definition wait_segment :: "(Tcp \<Rightarrow> bool) \<Rightarrow> TcpResource \<Rightarrow> Tcp outcome \<times> TcpResource" where
  "wait_segment accept r =
     (let (res, rs) = wait_packet tcp_from_bytes accept (inbound (tr_ip r)) in (res, r\<lparr>tr_ip := (tr_ip r)\<lparr>inbound := rs\<rparr>\<rparr>))"

definition tcp_read :: "u8 list \<Rightarrow> TcpResource \<Rightarrow> (nat \<times> u8 list) outcome \<times> TcpResource" where
  "tcp_read buf r =
     (case wait_segment (\<lambda>t. segment_flags t = (TCP_PSH OR TCP_ACK) \<and> ports_match r t) r of
        (Done t, r) \<Rightarrow>
          (let r = r\<lparr>tr_sequence := n32_get (ack_num (tcp_header t)),
                     acknowledge := n32_get (tcp_sequence (tcp_header t)) + of_nat (length (tcp_data t))\<rparr>;
               r = snd (send_segment r TCP_ACK []);
               n = min (length buf) (length (tcp_data t))
           in (Done (n, take n (tcp_data t) @ drop n buf), r))
      | (Failed e, r) \<Rightarrow> (Failed e, r) | (Panicked, r) \<Rightarrow> (Panicked, r) | (Waiting, r) \<Rightarrow> (Waiting, r))"

definition tcp_write :: "u8 list \<Rightarrow> TcpResource \<Rightarrow> usize outcome \<times> TcpResource" where
  "tcp_write buf r =
     (case send_segment r (TCP_PSH OR TCP_ACK) buf of
        (Inl e, r) \<Rightarrow> (Failed e, r)
      | (Inr sz, r) \<Rightarrow>
          (case wait_segment (ports_match r) r of
             (Done t, r) \<Rightarrow>
               (if segment_flags t = TCP_ACK
                then (Done sz, r\<lparr>tr_sequence := n32_get (ack_num (tcp_header t)), acknowledge := n32_get (tcp_sequence (tcp_header t))\<rparr>)
                else (Failed EPIPE, r))
           | (Failed e, r) \<Rightarrow> (Failed e, r) | (Panicked, r) \<Rightarrow> (Panicked, r) | (Waiting, r) \<Rightarrow> (Waiting, r)))"

definition tcp_seek :: "usize result" where "tcp_seek = Err ESPIPE"

definition client_establish :: "TcpResource \<Rightarrow> bool outcome \<times> TcpResource" where
  "client_establish r =
     (case send_segment r TCP_SYN [] of
        (Inl e, r) \<Rightarrow> (Done False, r)
      | (Inr _, r) \<Rightarrow>
          (case wait_segment (ports_match r) r of
             (Done t, r) \<Rightarrow>
               (if segment_flags t = (TCP_SYN OR TCP_ACK)
                then (let r = r\<lparr>tr_sequence := n32_get (ack_num (tcp_header t)),
                                acknowledge := n32_get (tcp_sequence (tcp_header t)) + 1\<rparr>
                      in (Done True, snd (send_segment r TCP_ACK [])))
                else (Done False, r))
           | (Failed e, r) \<Rightarrow> (Done False, r) | (Panicked, r) \<Rightarrow> (Panicked, r) | (Waiting, r) \<Rightarrow> (Waiting, r)))"

definition server_establish :: "TcpResource \<Rightarrow> bool outcome \<times> TcpResource" where
  "server_establish r =
     (case send_segment (r\<lparr>acknowledge := acknowledge r + 1\<rparr>) (TCP_SYN OR TCP_ACK) [] of
        (Inl e, r) \<Rightarrow> (Done False, r)
      | (Inr _, r) \<Rightarrow>
          (case wait_segment (ports_match r) r of
             (Done t, r) \<Rightarrow>
               (if segment_flags t = TCP_ACK
                then (Done True, r\<lparr>tr_sequence := n32_get (ack_num (tcp_header t)), acknowledge := n32_get (tcp_sequence (tcp_header t))\<rparr>)
                else (Done False, r))
           | (Failed e, r) \<Rightarrow> (Done False, r) | (Panicked, r) \<Rightarrow> (Panicked, r) | (Waiting, r) \<Rightarrow> (Waiting, r)))"

definition tcp_drop :: "TcpResource \<Rightarrow> TcpResource" where
  "tcp_drop r = snd (send_segment r (TCP_FIN OR TCP_ACK) [])"

text \<open>
  The client's branch of \<^verbatim>\<open>open\<close> once the host and port are known, with the two random numbers it draws: the outcome and
  what has been sent by then. A connection that is not established is dropped.
\<close>

definition sent :: "TcpResource \<Rightarrow> u8 list list" where
  "sent r = outbound (tr_ip r)"

definition tcp_connect :: "Link \<Rightarrow> Ipv4Addr \<Rightarrow> u16 \<Rightarrow> usize \<Rightarrow> usize \<Rightarrow> TcpResource outcome \<times> u8 list list" where
  "tcp_connect ip addr port rand1 rand2 =
     (case client_establish \<lparr>tr_ip = ip, tr_peer_addr = addr, peer_port = port, host_port = ucast (rand1 mod 32768 + 32768),
              tr_sequence = rand2, acknowledge = 0\<rparr> of
        (Done True, r) \<Rightarrow> (Done r, sent r)
      | (Done False, r) \<Rightarrow> (Failed ENOENT, sent (tcp_drop r))
      | (Failed e, r) \<Rightarrow> (Failed e, sent r) | (Panicked, r) \<Rightarrow> (Panicked, sent r) | (Waiting, r) \<Rightarrow> (Waiting, sent r))"

text \<open>
  The server's branch: a loop that opens \<^verbatim>\<open>ip:///6\<close> again and again. What the opens give is the list \<^term>\<open>os\<close>: a link, the address
  in the path of the resource (\<^term>\<open>None\<close> when \<^verbatim>\<open>path\<close> fails) and the random number drawn for it; with none
  left the loop waits inside \<^verbatim>\<open>File::open\<close>. The first segment on the link has to be a SYN to the port; the ports and the
  sequence number of the connection come from it.
\<close>

fun tcp_listen :: "u16 \<Rightarrow> (Link \<times> Ipv4Addr option \<times> usize) result list \<Rightarrow> TcpResource outcome \<times> u8 list list" where
  "tcp_listen port [] = (Waiting, [])"
| "tcp_listen port (Inl e # os) = (Failed ENOENT, [])"
| "tcp_listen port (Inr (ip, path, rand) # os) =
     (case inbound ip of
        [] \<Rightarrow> (Waiting, [])
      | Inl e # rs \<Rightarrow> (Failed e, [])
      | Inr bs # rs \<Rightarrow>
          (case tcp_from_bytes bs of
             None \<Rightarrow> (Panicked, [])
           | Some None \<Rightarrow> tcp_listen port os
           | Some (Some t) \<Rightarrow>
               (if n16_get (tcp_dst (tcp_header t)) = port \<and> segment_flags t = TCP_SYN then
                  (case path of
                     None \<Rightarrow> tcp_listen port os
                   | Some addr \<Rightarrow>
                       (case server_establish \<lparr>tr_ip = ip\<lparr>inbound := rs\<rparr>, tr_peer_addr = addr, peer_port = n16_get (tcp_src (tcp_header t)),
                                host_port = port, tr_sequence = rand, acknowledge = n32_get (tcp_sequence (tcp_header t))\<rparr> of
                          (Done True, r) \<Rightarrow> (Done r, sent r)
                        | (Done False, r) \<Rightarrow> (let (res, ps) = tcp_listen port os in (res, sent (tcp_drop r) @ ps))
                        | (Failed e, r) \<Rightarrow> (Failed e, sent r) | (Panicked, r) \<Rightarrow> (Panicked, sent r)
                        | (Waiting, r) \<Rightarrow> (Waiting, sent r)))
                else tcp_listen port os)))"

section \<open>UDP\<close>

record UdpHeader =
  udp_src :: n16
  udp_dst :: n16
  udp_len :: n16
  udp_checksum :: u16

definition udp_header_bytes :: "UdpHeader \<Rightarrow> u8 list" where
  "udp_header_bytes h = n16_bytes (udp_src h) @ n16_bytes (udp_dst h) @ n16_bytes (udp_len h) @ le_bytes 2 (udp_checksum h)"

definition bytes_udp_header :: "u8 list \<Rightarrow> UdpHeader" where
  "bytes_udp_header bs =
     \<lparr>udp_src = bytes_n16 bs, udp_dst = bytes_n16 (drop 2 bs), udp_len = bytes_n16 (drop 4 bs), udp_checksum = le_word (take 2 (drop 6 bs))\<rparr>"

record Udp =
  udp_header :: UdpHeader
  udp_data :: "u8 list"

definition udp_from_bytes :: "u8 list \<Rightarrow> Udp option" where
  "udp_from_bytes bs = (if length bs \<ge> 8 then Some \<lparr>udp_header = bytes_udp_header bs, udp_data = drop 8 bs\<rparr> else None)"

definition udp_to_bytes :: "Udp \<Rightarrow> u8 list" where
  "udp_to_bytes u = udp_header_bytes (udp_header u) @ udp_data u"

record UdpResource =
  ur_ip :: Link
  ur_data :: "u8 list"
  ur_peer_addr :: Ipv4Addr
  ur_peer_port :: u16
  ur_host_port :: u16

text \<open>The copying loops of \<^verbatim>\<open>read\<close>, whose index is never advanced; not ending is \<^term>\<open>None\<close>.\<close>

partial_function (option) udp_copy :: "u8 list \<Rightarrow> u8 list \<Rightarrow> nat \<Rightarrow> (nat \<times> u8 list) option" where
  "udp_copy buf bytes i =
     (if i < length buf \<and> i < length bytes then udp_copy (buf[i := bytes ! i]) bytes i else Some (i, buf))"

definition udp_read :: "u8 list \<Rightarrow> UdpResource \<Rightarrow> ((nat \<times> u8 list) outcome \<times> UdpResource) option" where
  "udp_read buf r =
     (if ur_data r \<noteq> [] then map_option (\<lambda>res. (Done res, r\<lparr>ur_data := []\<rparr>)) (udp_copy buf (ur_data r) 0)
      else (case wait_packet (\<lambda>bs. Some (udp_from_bytes bs))
                   (\<lambda>u. n16_get (udp_dst (udp_header u)) = ur_host_port r \<and> n16_get (udp_src (udp_header u)) = ur_peer_port r)
                   (inbound (ur_ip r)) of
              (Done u, rs) \<Rightarrow> map_option (\<lambda>res. (Done res, r\<lparr>ur_ip := (ur_ip r)\<lparr>inbound := rs\<rparr>\<rparr>)) (udp_copy buf (udp_data u) 0)
            | (Failed e, rs) \<Rightarrow> Some (Failed e, r\<lparr>ur_ip := (ur_ip r)\<lparr>inbound := rs\<rparr>\<rparr>)
            | (Panicked, rs) \<Rightarrow> Some (Panicked, r) | (Waiting, rs) \<Rightarrow> Some (Waiting, r\<lparr>ur_ip := (ur_ip r)\<lparr>inbound := rs\<rparr>\<rparr>)))"

definition udp_datagram :: "UdpResource \<Rightarrow> u8 list \<Rightarrow> Udp" where
  "udp_datagram r data =
     (let h = \<lparr>udp_src = n16_new (ur_host_port r), udp_dst = n16_new (ur_peer_port r), udp_len = n16_new (of_nat (8 + length data)), udp_checksum = 0\<rparr>;
          c = checksum_compile (checksum_sum (ipv4_addr_bytes IP_ADDR) + checksum_sum (ipv4_addr_bytes (ur_peer_addr r))
                + checksum_sum (n16_bytes (n16_new 0x11)) + checksum_sum (n16_bytes (n16_new (of_nat (8 + length data))))
                + checksum_sum (udp_header_bytes h) + checksum_sum data)
      in \<lparr>udp_header = h\<lparr>udp_checksum := c\<rparr>, udp_data = data\<rparr>)"

definition udp_write :: "u8 list \<Rightarrow> UdpResource \<Rightarrow> usize result \<times> UdpResource" where
  "udp_write buf r =
     (let (res, l) = link_write (udp_to_bytes (udp_datagram r buf)) (ur_ip r)
      in (case res of Inr _ \<Rightarrow> Ok (of_nat (length buf)) | Inl e \<Rightarrow> Err e, r\<lparr>ur_ip := l\<rparr>))"

definition udp_seek :: "usize result" where "udp_seek = Err ESPIPE"


section \<open>Segments on the wire\<close>

lemma tcp_header_length [simp]: "length (tcp_header_bytes h) = 20" "length (udp_header_bytes g) = 8"
  by (simp_all add: tcp_header_bytes_def udp_header_bytes_def)

lemma tcp_header_roundtrip [simp]:
  "bytes_tcp_header (tcp_header_bytes h @ bs) = h" "bytes_udp_header (udp_header_bytes g @ bs) = g"
  by (simp_all add: tcp_header_bytes_def bytes_tcp_header_def udp_header_bytes_def bytes_udp_header_def le_word_le_bytes)

text \<open>The flags a segment carries leave the header length of five words intact.\<close>

definition plain_flags :: "u16 \<Rightarrow> bool" where
  "plain_flags f \<longleftrightarrow> f AND 0xF000 = 0"

lemma plain_flags_used [simp]:
  "plain_flags TCP_SYN" "plain_flags TCP_ACK" "plain_flags (TCP_SYN OR TCP_ACK)" "plain_flags (TCP_PSH OR TCP_ACK)" "plain_flags (TCP_FIN OR TCP_ACK)"
  by (simp_all add: plain_flags_def redox_consts)

lemma segment_fields [simp]:
  "tcp_src (tcp_header (tcp_segment r f d)) = n16_new (host_port r)" "tcp_dst (tcp_header (tcp_segment r f d)) = n16_new (peer_port r)"
  "tcp_sequence (tcp_header (tcp_segment r f d)) = n32_new (tr_sequence r)" "ack_num (tcp_header (tcp_segment r f d)) = n32_new (acknowledge r)"
  "tcp_flags (tcp_header (tcp_segment r f d)) = n16_new (0x5000 OR f)" "tcp_data (tcp_segment r f d) = d" "tcp_options (tcp_segment r f d) = []"
  by (simp_all add: tcp_segment_def Let_def)

lemma tcp_from_segment:
  assumes "plain_flags f"
  shows "tcp_from_bytes (tcp_to_bytes (tcp_segment r f d)) = Some (Some (tcp_segment r f d))"
proof -
  have "(0x5000 OR f) AND 0xF000 = 0x5000 OR (f AND 0xF000)" by (simp add: bit.conj_disj_distrib2)
  then have "unat (drop_bit 10 ((0x5000 OR f) AND 0xF000)) = 20" using assms by (simp add: plain_flags_def)
  then show ?thesis by (simp add: tcp_from_bytes_def tcp_to_bytes_def Let_def)
qed

definition pseudo_header :: "Ipv4Addr \<Rightarrow> u16 \<Rightarrow> nat \<Rightarrow> u8 list" where
  "pseudo_header addr proto len = ipv4_addr_bytes IP_ADDR @ ipv4_addr_bytes addr @ n16_bytes (n16_new proto) @ n16_bytes (n16_new (of_nat len))"

text \<open>
  C27. Every segment, datagram and IP packet that is sent is well formed: parsed again it is the
  same, and its checksum is valid, for the transport protocols over the pseudo-header of the addresses.
\<close>

theorem sent_packets_valid:
  assumes "plain_flags f" and "length d \<le> 0xFFFF"
  shows "tcp_from_bytes (tcp_to_bytes (tcp_segment r f d)) = Some (Some (tcp_segment r f d))
    \<and> checksum_check (pseudo_header (tr_peer_addr r) 6 (20 + length d) @ tcp_to_bytes (tcp_segment r f d))
    \<and> udp_from_bytes (udp_to_bytes (udp_datagram u d)) = Some (udp_datagram u d)
    \<and> checksum_check (pseudo_header (ur_peer_addr u) 17 (8 + length d) @ udp_to_bytes (udp_datagram u d))
    \<and> ipv4_from_bytes (ipv4_to_bytes (ip_packet i d)) = Some (ip_packet i d)
    \<and> checksum_check (ipv4_header_bytes (ip_header (ip_packet i d)))"
proof (intro conjI)
  show "tcp_from_bytes (tcp_to_bytes (tcp_segment r f d)) = Some (Some (tcp_segment r f d))"
    by (rule tcp_from_segment[OF assms(1)])
  show "udp_from_bytes (udp_to_bytes (udp_datagram u d)) = Some (udp_datagram u d)"
    by (simp add: udp_from_bytes_def udp_to_bytes_def)
  have "header_len (ip_header (ip_packet i d)) = 20" by (simp add: ip_packet_def Let_def header_len_def)
  then show "ipv4_from_bytes (ipv4_to_bytes (ip_packet i d)) = Some (ip_packet i d)"
    by (simp add: ipv4_from_bytes_def ipv4_to_bytes_def Let_def slice_range_eq ip_packet_def)
  show "checksum_check (pseudo_header (tr_peer_addr r) 6 (20 + length d) @ tcp_to_bytes (tcp_segment r f d))"
  proof -
    let ?pre = "pseudo_header (tr_peer_addr r) 6 (20 + length d)"
    let ?xs = "?pre @ n16_bytes (n16_new (host_port r)) @ n16_bytes (n16_new (peer_port r)) @ n32_bytes (n32_new (tr_sequence r))
       @ n32_bytes (n32_new (acknowledge r)) @ n16_bytes (n16_new (0x5000 OR f)) @ n16_bytes (n16_new 65535)"
    let ?ys = "n16_bytes (n16_new 0) @ d"
    have len: "length ?xs = 28" by (simp add: pseudo_header_def)
    have "?pre @ tcp_to_bytes (tcp_segment r f d) =
        ?xs @ le_bytes 2 (checksum_compile (checksum_sum (?xs @ le_bytes 2 (0 :: u16) @ ?ys))) @ ?ys"
      by (simp add: tcp_segment_def Let_def tcp_to_bytes_def tcp_header_bytes_def pseudo_header_def checksum_sum_append add.assoc
          checksum_sum_def[of "[]"])
    then show ?thesis using checksum_field[of ?xs ?ys] len assms(2) by simp
  qed
  show "checksum_check (pseudo_header (ur_peer_addr u) 17 (8 + length d) @ udp_to_bytes (udp_datagram u d))"
  proof -
    let ?pre = "pseudo_header (ur_peer_addr u) 17 (8 + length d)"
    let ?xs = "?pre @ n16_bytes (n16_new (ur_host_port u)) @ n16_bytes (n16_new (ur_peer_port u)) @ n16_bytes (n16_new (of_nat (8 + length d)))"
    have len: "length ?xs = 18" by (simp add: pseudo_header_def)
    have "?pre @ udp_to_bytes (udp_datagram u d) =
        ?xs @ le_bytes 2 (checksum_compile (checksum_sum (?xs @ le_bytes 2 (0 :: u16) @ d))) @ d"
      by (simp add: udp_datagram_def Let_def udp_to_bytes_def udp_header_bytes_def pseudo_header_def checksum_sum_append add.assoc)
    then show ?thesis using checksum_field[of ?xs d] len assms(2) by simp
  qed
  show "checksum_check (ipv4_header_bytes (ip_header (ip_packet i d)))"
  proof -
    let ?xs = "[0x45, 0] @ n16_bytes (n16_new (of_nat (20 + length d))) @ n16_bytes (n16_new (ir_id i)) @ n16_bytes (n16_new 0) @ [128, ir_proto i]"
    let ?ys = "ipv4_addr_bytes IP_ADDR @ ipv4_addr_bytes (ir_peer i)"
    have len: "length ?xs = 10" by simp
    have "ipv4_header_bytes (ip_header (ip_packet i d)) =
        ?xs @ le_bytes 2 (checksum_compile (checksum_sum (?xs @ le_bytes 2 (0 :: u16) @ ?ys))) @ ?ys"
      by (simp add: ip_packet_def Let_def ipv4_header_bytes_def checksum_sum_def[of "[]"])
    then show ?thesis using checksum_field[of ?xs ?ys] len by simp
  qed
qed


theorem sent_packets_valid_witness:
  "checksum_check (ipv4_header_bytes (ip_header (ip_packet \<lparr>ir_link = \<lparr>inbound = [], outbound = [], write_err = None\<rparr>, ir_data = [],
     ir_peer = (10, 85, 85, 7), ir_proto = 6, ir_id = 9\<rparr> [1, 2, 3])))"
  using sent_packets_valid[of TCP_ACK "[1, 2, 3]"] by simp

section \<open>Two ends of a connection\<close>

text \<open>Both ends agree on the ports and on what each has sent and the other received.\<close>

definition in_step :: "TcpResource \<Rightarrow> TcpResource \<Rightarrow> bool" where
  "in_step c s \<longleftrightarrow> peer_port c = host_port s \<and> peer_port s = host_port c
     \<and> tr_sequence c = acknowledge s \<and> tr_sequence s = acknowledge c"

text \<open>A resource whose link will read the given packets and has written none.\<close>

definition receiving :: "u8 list list \<Rightarrow> TcpResource \<Rightarrow> TcpResource" where
  "receiving ps r = r\<lparr>tr_ip := \<lparr>inbound = map Inr ps, outbound = [], write_err = None\<rparr>\<rparr>"

lemma segment_flags_sent:
  "segment_flags (tcp_segment r TCP_SYN d) = TCP_SYN" "segment_flags (tcp_segment r TCP_ACK d) = TCP_ACK"
  "segment_flags (tcp_segment r (TCP_SYN OR TCP_ACK) d) = (TCP_SYN OR TCP_ACK)"
  "segment_flags (tcp_segment r (TCP_PSH OR TCP_ACK) d) = (TCP_PSH OR TCP_ACK)"
  by (simp_all add: segment_flags_def redox_consts)

lemma tcp_segment_ip [simp]:
  "tcp_segment (r\<lparr>tr_ip := l\<rparr>) f d = tcp_segment r f d"
  "tcp_segment (r\<lparr>tr_ip := l, tr_sequence := a, acknowledge := b\<rparr>) f d = tcp_segment (r\<lparr>tr_sequence := a, acknowledge := b\<rparr>) f d"
  "tcp_segment (r\<lparr>tr_ip := l, acknowledge := b\<rparr>) f d = tcp_segment (r\<lparr>acknowledge := b\<rparr>) f d"
  by (simp_all add: tcp_segment_def)

lemma send_segment_ok:
  "write_err (tr_ip r) = None \<Longrightarrow> send_segment r f d =
     (Ok (of_nat (20 + length d)), r\<lparr>tr_ip := (tr_ip r)\<lparr>outbound := outbound (tr_ip r) @ [tcp_to_bytes (tcp_segment r f d)]\<rparr>\<rparr>)"
  by (simp add: send_segment_def link_write_def tcp_to_bytes_def)

lemma wait_segment_sent:
  assumes "inbound (tr_ip r) = Inr (tcp_to_bytes (tcp_segment q f d)) # rs" and "plain_flags f" and "accept (tcp_segment q f d)"
  shows "wait_segment accept r = (Done (tcp_segment q f d), r\<lparr>tr_ip := (tr_ip r)\<lparr>inbound := rs\<rparr>\<rparr>)"
  using assms by (simp add: wait_segment_def tcp_from_segment)

text \<open>A link on which the given packets arrive.\<close>

definition carrying :: "u8 list list \<Rightarrow> Link" where
  "carrying ps = \<lparr>inbound = map Inr ps, outbound = [], write_err = None\<rparr>"

lemma wait_segment_none: "inbound (tr_ip r) = [] \<Longrightarrow> wait_segment accept r = (Waiting, r)"
  by (cases r; cases "tr_ip r") (simp add: wait_segment_def)

lemma establish_waits:
  "\<exists>r. client_establish (receiving [] c) = (Waiting, r) \<and> sent r = [tcp_to_bytes (tcp_segment c TCP_SYN [])]"
  "\<exists>r. server_establish (receiving [] s) = (Waiting, r)
     \<and> sent r = [tcp_to_bytes (tcp_segment (s\<lparr>acknowledge := acknowledge s + 1\<rparr>) (TCP_SYN OR TCP_ACK) [])]"
  by (simp_all add: client_establish_def server_establish_def receiving_def send_segment_ok wait_segment_none sent_def)

lemma establish_done:
  assumes "peer_port c = host_port s" and "peer_port s = host_port c" and "acknowledge s = tr_sequence c"
  defines "syn_ack \<equiv> tcp_to_bytes (tcp_segment (s\<lparr>acknowledge := acknowledge s + 1\<rparr>) (TCP_SYN OR TCP_ACK) [])"
  shows "\<exists>c' s' ack. client_establish (receiving [syn_ack] c) = (Done True, c')
     \<and> sent c' = [tcp_to_bytes (tcp_segment c TCP_SYN []), ack]
     \<and> server_establish (receiving [ack] s) = (Done True, s') \<and> sent s' = [syn_ack] \<and> in_step c' s'
     \<and> tr_peer_addr c' = tr_peer_addr c \<and> tr_peer_addr s' = tr_peer_addr s \<and> host_port s' = host_port s"
proof -
  define s1 where "s1 = s\<lparr>acknowledge := acknowledge s + 1\<rparr>"
  define c1 where "c1 = c\<lparr>tr_sequence := acknowledge s1, acknowledge := tr_sequence s + 1\<rparr>"
  let ?syn_ack = "tcp_segment s1 (TCP_SYN OR TCP_ACK) []" and ?ack = "tcp_segment c1 TCP_ACK []"
  have sq: "tr_sequence s1 = tr_sequence s" by (simp add: s1_def)
  have pm: "ports_match r ?syn_ack" if "host_port r = host_port c" "peer_port r = peer_port c" for r
    using that assms by (simp add: ports_match_def s1_def)
  have pm': "ports_match r ?ack" if "host_port r = host_port s" "peer_port r = peer_port s" for r
    using that assms by (simp add: ports_match_def c1_def)
  define c2 where "c2 = c1\<lparr>tr_ip := \<lparr>inbound = [], outbound = [tcp_to_bytes (tcp_segment c TCP_SYN []), tcp_to_bytes ?ack], write_err = None\<rparr>\<rparr>"
  define s2 where "s2 = s1\<lparr>tr_sequence := acknowledge c1, acknowledge := tr_sequence c1,
     tr_ip := \<lparr>inbound = [], outbound = [tcp_to_bytes ?syn_ack], write_err = None\<rparr>\<rparr>"
  have "client_establish (receiving [tcp_to_bytes ?syn_ack] c) = (Done True, c2)" unfolding c2_def
    by (simp add: client_establish_def receiving_def send_segment_ok wait_segment_sent pm segment_flags_sent c1_def sq Let_def)
  moreover have "server_establish (receiving [tcp_to_bytes ?ack] s) = (Done True, s2)" unfolding s2_def
    by (simp add: server_establish_def receiving_def send_segment_ok wait_segment_sent pm' segment_flags_sent s1_def)
  moreover have "sent c2 = [tcp_to_bytes (tcp_segment c TCP_SYN []), tcp_to_bytes ?ack]" "sent s2 = [tcp_to_bytes ?syn_ack]" "in_step c2 s2"
    "tr_peer_addr c2 = tr_peer_addr c" "tr_peer_addr s2 = tr_peer_addr s" "host_port s2 = host_port s"
    using assms by (simp_all add: sent_def in_step_def c2_def s2_def c1_def s1_def)
  ultimately show ?thesis unfolding syn_ack_def s1_def[symmetric] by blast
qed

text \<open>
  C15. The handshake works, step by step: before anything arrives the client has sent its first segment and
  waits; a server listening on the client's port that receives this segment has answered and waits; with this answer
  the client's \<^verbatim>\<open>open\<close> returns a connection, having sent one segment more; and with that one the server's
  \<^verbatim>\<open>open\<close> returns a connection, having sent no more. The two ends are in step: each has the other's port, and the numbers match.
\<close>

theorem tcp_handshake:
  "\<exists>syn syn_ack ack c s.
     tcp_connect (carrying []) addr port rand1 rand2 = (Waiting, [syn])
   \<and> tcp_listen port [Ok (carrying [syn], Some peer, rand3)] = (Waiting, [syn_ack])
   \<and> tcp_connect (carrying [syn_ack]) addr port rand1 rand2 = (Done c, [syn, ack])
   \<and> tcp_listen port [Ok (carrying [syn, ack], Some peer, rand3)] = (Done s, [syn_ack])
   \<and> in_step c s \<and> tr_peer_addr c = addr \<and> tr_peer_addr s = peer \<and> host_port s = port"
proof -
  define c where "c = \<lparr>tr_ip = carrying [], tr_peer_addr = addr, peer_port = port, host_port = ucast (rand1 mod 32768 + 32768),
     tr_sequence = rand2, acknowledge = 0\<rparr>"
  define s where "s = \<lparr>tr_ip = carrying [], tr_peer_addr = peer, peer_port = host_port c, host_port = port, tr_sequence = rand3, acknowledge = rand2\<rparr>"
  let ?syn = "tcp_segment c TCP_SYN []"
  let ?syn_ack = "tcp_to_bytes (tcp_segment (s\<lparr>acknowledge := acknowledge s + 1\<rparr>) (TCP_SYN OR TCP_ACK) [])"
  have con: "tcp_connect (carrying ps) addr port rand1 rand2 =
      (case client_establish (receiving ps c) of
        (Done True, r) \<Rightarrow> (Done r, sent r)
      | (Done False, r) \<Rightarrow> (Failed ENOENT, sent (tcp_drop r))
      | (Failed e, r) \<Rightarrow> (Failed e, sent r) | (Panicked, r) \<Rightarrow> (Panicked, sent r) | (Waiting, r) \<Rightarrow> (Waiting, sent r))" for ps
    by (simp add: tcp_connect_def c_def receiving_def carrying_def)
  have syn: "tcp_from_bytes (tcp_to_bytes ?syn) = Some (Some ?syn)" "segment_flags ?syn = TCP_SYN"
    "n16_get (tcp_dst (tcp_header ?syn)) = port" "n16_get (tcp_src (tcp_header ?syn)) = host_port c"
    "n32_get (tcp_sequence (tcp_header ?syn)) = rand2"
    by (simp_all add: tcp_from_segment segment_flags_sent c_def)
  have cp: "peer_port c = port" "tr_sequence c = rand2" by (simp_all add: c_def)
  have lis: "tcp_listen port [Ok (carrying (tcp_to_bytes ?syn # ps), Some peer, rand3)] =
      (case server_establish (receiving ps s) of
        (Done True, r) \<Rightarrow> (Done r, sent r)
      | (Done False, r) \<Rightarrow> (Waiting, sent (tcp_drop r))
      | (Failed e, r) \<Rightarrow> (Failed e, sent r) | (Panicked, r) \<Rightarrow> (Panicked, sent r) | (Waiting, r) \<Rightarrow> (Waiting, sent r))" for ps
    using cp by (simp add: carrying_def syn s_def receiving_def split: prod.split outcome.split bool.split)
  have h: "peer_port c = host_port s" "peer_port s = host_port c" "acknowledge s = tr_sequence c" by (simp_all add: c_def s_def)
  obtain c2 s2 ack where d: "client_establish (receiving [?syn_ack] c) = (Done True, c2)" "sent c2 = [tcp_to_bytes ?syn, ack]"
      "server_establish (receiving [ack] s) = (Done True, s2)" "sent s2 = [?syn_ack]" "in_step c2 s2"
      "tr_peer_addr c2 = addr" "tr_peer_addr s2 = peer" "host_port s2 = port"
    using establish_done[OF h] by (auto simp: c_def s_def)
  have "tcp_connect (carrying []) addr port rand1 rand2 = (Waiting, [tcp_to_bytes ?syn])"
    "tcp_listen port [Ok (carrying [tcp_to_bytes ?syn], Some peer, rand3)] = (Waiting, [?syn_ack])"
    using establish_waits(1)[of c] establish_waits(2)[of s] by (auto simp: con lis simp del: tcp_listen.simps)
  moreover have "tcp_connect (carrying [?syn_ack]) addr port rand1 rand2 = (Done c2, [tcp_to_bytes ?syn, ack])"
    "tcp_listen port [Ok (carrying [tcp_to_bytes ?syn, ack], Some peer, rand3)] = (Done s2, [?syn_ack])"
    using d by (simp_all add: con lis del: tcp_listen.simps)
  ultimately show ?thesis using d(5-8) by blast
qed

definition demo_tcp :: "u16 \<Rightarrow> u16 \<Rightarrow> u32 \<Rightarrow> u32 \<Rightarrow> TcpResource" where
  "demo_tcp host peer sq ack = \<lparr>tr_ip = \<lparr>inbound = [], outbound = [], write_err = None\<rparr>, tr_peer_addr = IP_ADDR, peer_port = peer,
     host_port = host, tr_sequence = sq, acknowledge = ack\<rparr>"

text \<open>
  C9. Data arrives: when both ends are in step, what one end writes is what the other reads, as far as its
  buffer reaches; the acknowledgement reaches the writer, and both ends are in step again. The number \<^verbatim>\<open>write\<close>
  reports is that of the segment, 20 more than the bytes it was given.
\<close>

theorem tcp_transfer:
  assumes "in_step c s"
  shows "\<exists>c' s' seg ack n.
     tcp_write data (receiving [ack] c) = (Done (of_nat (20 + length data)), c') \<and> sent c' = [seg]
   \<and> tcp_read buf (receiving [seg] s) = (Done (n, take n data @ drop n buf), s') \<and> n = min (length buf) (length data)
   \<and> sent s' = [ack] \<and> in_step c' s'"
proof -
  define s1 where "s1 = s\<lparr>tr_sequence := acknowledge c, acknowledge := tr_sequence c + of_nat (length data)\<rparr>"
  let ?seg = "tcp_segment c (TCP_PSH OR TCP_ACK) data" and ?ack = "tcp_segment s1 TCP_ACK []"
  have pm: "ports_match r ?seg" if "host_port r = host_port s" "peer_port r = peer_port s" for r
    using that assms by (simp add: ports_match_def in_step_def)
  have pm': "ports_match r ?ack" if "host_port r = host_port c" "peer_port r = peer_port c" for r
    using that assms by (simp add: ports_match_def in_step_def s1_def)
  define c2 where "c2 = c\<lparr>tr_sequence := acknowledge s1, acknowledge := tr_sequence s1,
     tr_ip := \<lparr>inbound = [], outbound = [tcp_to_bytes ?seg], write_err = None\<rparr>\<rparr>"
  define s2 where "s2 = s1\<lparr>tr_ip := \<lparr>inbound = [], outbound = [tcp_to_bytes ?ack], write_err = None\<rparr>\<rparr>"
  define n where "n = min (length buf) (length data)"
  have "tcp_write data (receiving [tcp_to_bytes ?ack] c) = (Done (of_nat (20 + length data)), c2)" unfolding c2_def
    by (simp add: tcp_write_def receiving_def send_segment_ok wait_segment_sent pm' segment_flags_sent)
  moreover have "tcp_read buf (receiving [tcp_to_bytes ?seg] s) = (Done (n, take n data @ drop n buf), s2)" unfolding s2_def n_def
    by (simp add: tcp_read_def receiving_def wait_segment_sent pm segment_flags_sent send_segment_ok s1_def Let_def)
  moreover have "sent c2 = [tcp_to_bytes ?seg]" "sent s2 = [tcp_to_bytes ?ack]" "in_step c2 s2"
    using assms by (simp_all add: sent_def in_step_def c2_def s2_def s1_def)
  ultimately show ?thesis using n_def by blast
qed

theorem tcp_transfer_witness:
  "\<exists>c' s' seg ack. tcp_write [1, 2, 3] (receiving [ack] (demo_tcp 40000 80 8 101)) = (Done 23, c')
     \<and> tcp_read [0, 0, 0, 0] (receiving [seg] (demo_tcp 80 40000 101 8)) = (Done (3, [1, 2, 3, 0]), s') \<and> in_step c' s'"
  using tcp_transfer[of "demo_tcp 40000 80 8 101" "demo_tcp 80 40000 101 8" "[1, 2, 3]" "[0, 0, 0, 0]"]
  by (simp add: demo_tcp_def in_step_def numeral_eq_Suc) blast

lemma flags_words: "drop_bit 10 (f AND 0xF000) = push_bit 2 (drop_bit 12 (f :: u16))"
proof (rule bit_word_eqI)
  fix n assume "n < LENGTH(16)"
  have e: "(0xF000 :: u16) = push_bit 12 (mask 4)" by (simp add: mask_eq_exp_minus_1 push_bit_eq_mult)
  have kf: "bit (0xF000 :: u16) m \<longleftrightarrow> 12 \<le> m \<and> m < 16" for m
    unfolding e bit_push_bit_iff bit_mask_iff by auto
  have K: "bit (f AND 0xF000) (10 + n) \<longleftrightarrow> bit f (10 + n) \<and> 2 \<le> n \<and> n < 6" unfolding bit_and_iff kf by auto
  have "bit f (10 + n) \<Longrightarrow> n < 6" using bit_imp_le_length[of f "10 + n"] by simp
  then show "bit (drop_bit 10 (f AND 0xF000)) n = bit (push_bit 2 (drop_bit 12 f)) n"
    using \<open>n < LENGTH(16)\<close> unfolding bit_drop_bit_eq bit_push_bit_iff o_def K by (cases "2 \<le> n") auto
qed

text \<open>
  A segment from the network can stop the program: a header length field that is smaller than five words or
  reaches past the segment makes the slicing of \<^verbatim>\<open>from_bytes\<close> panic, and only such a field does.
\<close>

theorem tcp_parse_panics:
  "tcp_from_bytes bs = None \<longleftrightarrow> 20 \<le> length bs \<and>
     (unat (drop_bit 12 (n16_get (bs ! 12, bs ! 13))) < 5 \<or> length bs < 4 * unat (drop_bit 12 (n16_get (bs ! 12, bs ! 13))))"
proof (cases "20 \<le> length bs")
  case True
  let ?f = "n16_get (bs ! 12, bs ! 13)"
  note flags_words[of ?f]
  moreover have "unat (push_bit 2 (drop_bit 12 ?f)) = 4 * unat (drop_bit 12 ?f)"
  proof -
    have "unat (drop_bit 12 ?f) < 16" using unat_lt2p[of ?f] by (simp add: drop_bit_eq_div unat_div less_mult_imp_div_less)
    then show ?thesis by (simp add: push_bit_eq_mult) (subst unat_mult_lt, simp_all)
  qed
  ultimately show ?thesis
    using True by (auto simp: tcp_from_bytes_def Let_def bytes_tcp_header_def bytes_n16_def)
qed (simp add: tcp_from_bytes_def)

section \<open>Reading datagrams\<close>

lemma udp_copy_returns: "udp_copy buf bytes i = Some r \<Longrightarrow> \<not> (i < length buf \<and> i < length bytes)"
  by (rule udp_copy.raw_induct[of "\<lambda>buf bytes i r. \<not> (i < length buf \<and> i < length bytes)"])
     (auto split: if_splits)

text \<open>
  Reading a datagram never ends: with a datagram at hand and a buffer to fill, the copying loop does not
  advance its index and \<^verbatim>\<open>read\<close> does not return.
\<close>

theorem udp_read_diverges:
  assumes "buf \<noteq> []" and "ur_data r \<noteq> []"
  shows "udp_read buf r = None"
  using udp_copy_returns[of buf "ur_data r" 0] assms by (cases "udp_copy buf (ur_data r) 0") (auto simp: udp_read_def)

theorem udp_read_diverges_witness:
  "udp_read [0] \<lparr>ur_ip = \<lparr>inbound = [], outbound = [], write_err = None\<rparr>, ur_data = [5], ur_peer_addr = IP_ADDR, ur_peer_port = 1, ur_host_port = 2\<rparr> = None"
  by (rule udp_read_diverges) simp_all

end
