(* ===== verification/Pipe.thy ===== *)
theory Pipe
  imports Sync Resource
begin

text \<open>
  Pipes (\<^verbatim>\<open>kernel/schemes/pipe.rs\<close>): the two ends share a wait queue of bytes. The read ends hold
  it by \<^verbatim>\<open>Arc\<close>, the write ends by \<^verbatim>\<open>Weak\<close>, so the queue lives as long as a read end
  does, and the counts of both kinds of references are part of the state. A read that finds the queue
  empty gives up the processor inside \<^verbatim>\<open>WaitQueue::receive\<close> and continues there when it is woken.
\<close>

section \<open>The two ends\<close>

record Pipe =
  bytes :: "u8 WaitQueue"
  strong :: nat
  weak :: nat

definition pipe_read_new :: Pipe where
  "pipe_read_new = \<lparr>bytes = queue_new, strong = 1, weak = 0\<rparr>"

definition pipe_write_new :: "Pipe \<Rightarrow> Pipe" where
  "pipe_write_new p = p\<lparr>weak := weak p + 1\<rparr>"

definition pipe_read_dup :: "Pipe \<Rightarrow> Pipe" where
  "pipe_read_dup p = p\<lparr>strong := strong p + 1\<rparr>"

definition pipe_write_dup :: "Pipe \<Rightarrow> Pipe" where
  "pipe_write_dup p = p\<lparr>weak := weak p + 1\<rparr>"

text \<open>Dropping an end; with the last \<^verbatim>\<open>Arc\<close> goes the queue and what is in it.\<close>

definition pipe_read_drop :: "Pipe \<Rightarrow> Pipe" where
  "pipe_read_drop p =
     (if strong p \<le> 1 then p\<lparr>strong := 0, bytes := queue_new\<rparr> else p\<lparr>strong := strong p - 1\<rparr>)"

definition pipe_write_drop :: "Pipe \<Rightarrow> Pipe" where
  "pipe_write_drop p = p\<lparr>weak := weak p - 1\<rparr>"

definition pipe_read_path :: "u8 list \<Rightarrow> nat result \<times> u8 list" where
  "pipe_read_path = name_path ''pipe:r''"

definition pipe_write_path :: "u8 list \<Rightarrow> nat result \<times> u8 list" where
  "pipe_write_path = name_path ''pipe:w''"

text \<open>The loop after the first byte: as many bytes as are there and fit.\<close>

fun pipe_rest :: "u8 list \<Rightarrow> u8 list \<Rightarrow> nat \<times> u8 list \<times> u8 list" where
  "pipe_rest [] q = (0, [], q)"
| "pipe_rest (b # buf) [] = (0, b # buf, [])"
| "pipe_rest (b # buf) (x # q) = (let (i, buf, q) = pipe_rest buf q in (i + 1, x # buf, q))"

text \<open>
  One attempt of the \<^verbatim>\<open>receive\<close> in \<^verbatim>\<open>read\<close> and, when it gets a byte, the rest of the
  function. \<^term>\<open>None\<close>: the reader waits and makes the same attempt again when it runs.
\<close>

definition pipe_receive :: "u8 list \<Rightarrow> Pipe \<Rightarrow> 'r Kernel \<Rightarrow> (nat result \<times> u8 list) option \<times> Pipe \<times> 'r Kernel" where
  "pipe_receive buf p k =
     (if buf \<noteq> [] then
        (let (v, q, k) = queue_receive (bytes p) k
         in case v of
              None \<Rightarrow> (None, p\<lparr>bytes := q\<rparr>, k)
            | Some b \<Rightarrow>
                (let (i, rest, left) = pipe_rest (tl buf) (wait_inner q)
                 in (Some (Ok (i + 1), b # rest), p\<lparr>bytes := q\<lparr>wait_inner := left\<rparr>\<rparr>, k)))
      else (Some (Ok 1, buf), p, k))"

definition pipe_read :: "u8 list \<Rightarrow> Pipe \<Rightarrow> 'r Kernel \<Rightarrow> (nat result \<times> u8 list) option \<times> Pipe \<times> 'r Kernel" where
  "pipe_read buf p k =
     (if weak p = 0 \<and> wait_inner (bytes p) = [] then (Some (Ok 0, buf), p, k) else pipe_receive buf p k)"

fun send_all :: "u8 list \<Rightarrow> u8 WaitQueue \<Rightarrow> 'r Kernel \<Rightarrow> u8 WaitQueue \<times> 'r Kernel" where
  "send_all [] q k = (q, k)"
| "send_all (b # bs) q k = (let (q, k) = queue_send b q k in send_all bs q k)"

definition pipe_write :: "u8 list \<Rightarrow> Pipe \<Rightarrow> 'r Kernel \<Rightarrow> nat result \<times> Pipe \<times> 'r Kernel" where
  "pipe_write buf p k =
     (if strong p > 0 then (let (q, k) = send_all buf (bytes p) k in (Ok (length buf), p\<lparr>bytes := q\<rparr>, k))
      else (Err EPIPE, p, k))"

definition pipe_sync :: "unit result" where
  "pipe_sync = Ok ()"

section \<open>Any number of processes on one pipe\<close>

text \<open>
  What holders of the ends can do; \<^term>\<open>Resume buf\<close> is a waiting reader running again. Each
  operation is a step of the context at a given position of the list, which the scheduler has
  chosen. The history keeps the bytes accepted from writers and those handed to readers.
\<close>

datatype PipeCall =
    Read "u8 list" | Resume "u8 list" | Write "u8 list"
  | DupRead | DupWrite | DropRead | DropWrite

record 'r PipeState =
  pipe :: Pipe
  pkern :: "'r Kernel"
  sent :: "u8 list"
  got :: "u8 list"

definition received :: "(nat result \<times> u8 list) option \<Rightarrow> u8 list \<Rightarrow> u8 list" where
  "received r buf = (case r of Some (Inr n, bs) \<Rightarrow> if buf = [] then [] else take n bs | _ \<Rightarrow> [])"

definition after_read ::
  "u8 list \<Rightarrow> (nat result \<times> u8 list) option \<times> Pipe \<times> 'r Kernel \<Rightarrow> 'r PipeState \<Rightarrow> 'r PipeState" where
  "after_read buf r s = (case r of (v, p, k) \<Rightarrow> s\<lparr>pipe := p, pkern := k, got := got s @ received v buf\<rparr>)"

fun pipe_do :: "PipeCall \<Rightarrow> 'r PipeState \<Rightarrow> 'r PipeState" where
  "pipe_do (Read buf) s = (if strong (pipe s) > 0 then after_read buf (pipe_read buf (pipe s) (pkern s)) s else s)"
| "pipe_do (Resume buf) s = (if strong (pipe s) > 0 then after_read buf (pipe_receive buf (pipe s) (pkern s)) s else s)"
| "pipe_do (Write bs) s =
     (if weak (pipe s) > 0 then
        (case pipe_write bs (pipe s) (pkern s) of
           (r, p, k) \<Rightarrow> s\<lparr>pipe := p, pkern := k, sent := sent s @ (case r of Inr n \<Rightarrow> bs | Inl _ \<Rightarrow> [])\<rparr>)
      else s)"
| "pipe_do DupRead s = (if strong (pipe s) > 0 then s\<lparr>pipe := pipe_read_dup (pipe s)\<rparr> else s)"
| "pipe_do DupWrite s = (if weak (pipe s) > 0 then s\<lparr>pipe := pipe_write_dup (pipe s)\<rparr> else s)"
| "pipe_do DropRead s = (if strong (pipe s) > 0 then s\<lparr>pipe := pipe_read_drop (pipe s)\<rparr> else s)"
| "pipe_do DropWrite s = (if weak (pipe s) > 0 then s\<lparr>pipe := pipe_write_drop (pipe s)\<rparr> else s)"

fun pipe_run :: "(nat \<times> PipeCall) list \<Rightarrow> 'r PipeState \<Rightarrow> 'r PipeState" where
  "pipe_run [] s = s"
| "pipe_run ((i, c) # cs) s = pipe_run cs (pipe_do c (s\<lparr>pkern := (pkern s)\<lparr>cur_i := i\<rparr>\<rparr>))"

definition pipe_start :: "'r Kernel \<Rightarrow> 'r PipeState" where
  "pipe_start k = \<lparr>pipe = pipe_write_new pipe_read_new, pkern = k, sent = [], got = []\<rparr>"

section \<open>Bytes in order\<close>

lemma pipe_rest_eq:
  "pipe_rest buf q = (min (length buf) (length q), take (length buf) q @ drop (length q) buf, drop (length buf) q)"
  by (induction buf q rule: pipe_rest.induct) auto

lemma send_all_inner: "wait_inner (fst (send_all bs q k)) = wait_inner q @ bs"
  by (induction bs q k rule: send_all.induct) (auto simp: queue_send_def wait_send_def split: prod.splits)

lemma pipe_receive_cases:
  assumes "pipe_receive buf p k = (v, p', k')"
  shows "wait_inner (bytes p) = received v buf @ wait_inner (bytes p')"
    and "strong p' = strong p" and "weak p' = weak p"
    and "v = None \<longleftrightarrow> buf \<noteq> [] \<and> wait_inner (bytes p) = []"
    and "v = Some (r, bs) \<Longrightarrow> buf \<noteq> [] \<Longrightarrow>
      r = Ok (min (length buf) (length (wait_inner (bytes p)))) \<and> received v buf = take (length buf) (wait_inner (bytes p))
      \<and> bs = received v buf @ drop (length (received v buf)) buf"
  using assms
  by (cases buf; cases "wait_inner (bytes p)";
      auto simp: pipe_receive_def queue_receive_def wait_receive_def pipe_rest_eq received_def Let_def min_def
        split: prod.splits)+

definition stream_ok :: "'r PipeState \<Rightarrow> bool" where
  "stream_ok s \<longleftrightarrow>
     (if strong (pipe s) > 0 then sent s = got s @ wait_inner (bytes (pipe s)) else \<exists>lost. sent s = got s @ lost)"

lemma stream_after_read:
  assumes "stream_ok s" "strong (pipe s) > 0"
    and "wait_inner (bytes (pipe s)) = received v buf @ wait_inner (bytes p')" "strong p' = strong (pipe s)"
  shows "stream_ok (after_read buf (v, p', k') s)"
  using assms by (simp add: stream_ok_def after_read_def)

lemma pipe_do_stream: "stream_ok s \<Longrightarrow> stream_ok (pipe_do c s)"
proof (induction c s rule: pipe_do.induct)
  case (1 buf s)
  obtain v p k where r: "pipe_read buf (pipe s) (pkern s) = (v, p, k)" using prod_cases3 by blast
  have "wait_inner (bytes (pipe s)) = received v buf @ wait_inner (bytes p) \<and> strong p = strong (pipe s)"
  proof (cases "weak (pipe s) = 0 \<and> wait_inner (bytes (pipe s)) = []")
    case True
    then show ?thesis using r by (auto simp: pipe_read_def received_def)
  next
    case False
    have "pipe_receive buf (pipe s) (pkern s) = (v, p, k)" using r unfolding pipe_read_def if_not_P[OF False] .
    from pipe_receive_cases(1,2)[OF this] show ?thesis by simp
  qed
  then show ?case using 1 r by (simp add: stream_after_read)
next
  case (2 buf s)
  obtain v p k where r: "pipe_receive buf (pipe s) (pkern s) = (v, p, k)" using prod_cases3 by blast
  then show ?case using 2 pipe_receive_cases(1,2)[OF r] by (simp add: stream_after_read)
next
  case (3 bs s)
  then show ?case
    using send_all_inner[of bs "bytes (pipe s)" "pkern s"]
    by (auto simp: stream_ok_def pipe_write_def Let_def split: prod.splits)
qed (auto simp: stream_ok_def pipe_read_dup_def pipe_write_dup_def pipe_read_drop_def pipe_write_drop_def)

lemma pipe_run_stream: "stream_ok s \<Longrightarrow> stream_ok (pipe_run cs s)"
proof (induction cs s rule: pipe_run.induct)
  case (2 i c cs s)
  have "stream_ok (s\<lparr>pkern := (pkern s)\<lparr>cur_i := i\<rparr>\<rparr>)" using 2(2) by (simp add: stream_ok_def)
  then show ?case using 2(1)[OF pipe_do_stream] by simp
qed simp

section \<open>Readers without writers\<close>

text \<open>With the last write end gone, nothing the holders of read ends do unblocks a context.\<close>

definition stranded :: "nat \<Rightarrow> 'r PipeState \<Rightarrow> bool" where
  "stranded i s \<longleftrightarrow> weak (pipe s) = 0 \<and> i < length (inner (pkern s)) \<and> blocked (inner (pkern s) ! i)"

lemma blocked_after_wait:
  assumes "condition_wait ws k = (ws', k')" and "i < length (inner k)" and "blocked (inner k ! i)"
  shows "i < length (inner k') \<and> blocked (inner k' ! i)"
  using assms by (auto simp: condition_wait_def put_context_def current_def manager_get_def nth_list_update
      split: sum.splits if_splits)

lemma blocked_after_receive:
  assumes "pipe_receive buf p k = (v, p', k')" and "i < length (inner k)" and "blocked (inner k ! i)"
  shows "i < length (inner k') \<and> blocked (inner k' ! i)"
  using assms(1) blocked_after_wait[of "condition (bytes p)" k _ k' i] assms(2,3)
  by (cases "wait_inner (bytes p)")
     (auto simp: pipe_receive_def queue_receive_def wait_receive_def Let_def split: if_splits prod.splits)

lemma stranded_do: "stranded i s \<Longrightarrow> stranded i (pipe_do c s)"
proof (induction c s rule: pipe_do.induct)
  case (1 buf s)
  obtain v p k where r: "pipe_receive buf (pipe s) (pkern s) = (v, p, k)" using prod_cases3 by blast
  from 1 show ?case
    using pipe_receive_cases(3)[OF r] blocked_after_receive[OF r, of i] r
    by (auto simp: stranded_def after_read_def pipe_read_def)
next
  case (2 buf s)
  obtain v p k where r: "pipe_receive buf (pipe s) (pkern s) = (v, p, k)" using prod_cases3 by blast
  from 2 show ?case
    using pipe_receive_cases(3)[OF r] blocked_after_receive[OF r, of i] r
    by (auto simp: stranded_def after_read_def)
qed (auto simp: stranded_def pipe_read_dup_def pipe_read_drop_def)

lemma stranded_run: "stranded i s \<Longrightarrow> stranded i (pipe_run cs s)"
proof (induction cs s rule: pipe_run.induct)
  case (2 j c cs s)
  have "stranded i (s\<lparr>pkern := (pkern s)\<lparr>cur_i := j\<rparr>\<rparr>)" using 2(2) by (simp add: stranded_def)
  then show ?case using 2(1)[OF stranded_do] by simp
qed simp

section \<open>Properties\<close>

text \<open>
  C23. A pipe is a byte stream. Whatever its holders do, in whatever order, the bytes handed to readers are a
  prefix of the bytes accepted from writers, and while a read end exists the rest is in the queue. A read into
  a non-empty buffer then returns the next bytes of the stream, as many as there are and fit; it waits only if
  everything sent has been read and a write end exists, and reports the end of the stream only if
  everything has been read and no write end is left. Once no read end is left, writing fails.
\<close>

theorem pipe_stream:
  assumes s: "s = pipe_run cs (pipe_start k)"
  shows "\<exists>rest. sent s = got s @ rest
    \<and> (strong (pipe s) = 0 \<longrightarrow> fst (pipe_write bs (pipe s) (pkern s)) = Err EPIPE)
    \<and> (strong (pipe s) > 0 \<longrightarrow> rest = wait_inner (bytes (pipe s))
      \<and> (buf \<noteq> [] \<longrightarrow>
        (case pipe_read buf (pipe s) (pkern s) of
           (None, p', k') \<Rightarrow> rest = [] \<and> weak (pipe s) > 0
         | (Some (Inl e, buf'), p', k') \<Rightarrow> False
         | (Some (Inr n, buf'), p', k') \<Rightarrow>
             n = min (length buf) (length rest) \<and> buf' = take n rest @ drop n buf
             \<and> wait_inner (bytes p') = drop n rest \<and> (n = 0 \<longrightarrow> weak (pipe s) = 0))))"
proof -
  have ok: "stream_ok s" unfolding s
    by (rule pipe_run_stream) (simp add: pipe_start_def stream_ok_def pipe_write_new_def pipe_read_new_def
        queue_new_def waitable_new_def)
  show ?thesis
  proof (cases "strong (pipe s) = 0")
    case True
    then show ?thesis using ok by (auto simp: stream_ok_def pipe_write_def)
  next
    case False
    obtain v p' k' where r: "pipe_receive buf (pipe s) (pkern s) = (v, p', k')" using prod_cases3 by blast
    note facts = pipe_receive_cases(1,4,5)[OF r]
    have "case pipe_read buf (pipe s) (pkern s) of
           (None, p', k') \<Rightarrow> wait_inner (bytes (pipe s)) = [] \<and> weak (pipe s) > 0
         | (Some (Inl e, buf'), p', k') \<Rightarrow> False
         | (Some (Inr n, buf'), p', k') \<Rightarrow>
             n = min (length buf) (length (wait_inner (bytes (pipe s)))) \<and> buf' = take n (wait_inner (bytes (pipe s))) @ drop n buf
             \<and> wait_inner (bytes p') = drop n (wait_inner (bytes (pipe s))) \<and> (n = 0 \<longrightarrow> weak (pipe s) = 0)"
      if "buf \<noteq> []"
    proof (cases "weak (pipe s) = 0 \<and> wait_inner (bytes (pipe s)) = []")
      case True
      then show ?thesis by (simp add: pipe_read_def)
    next
      case eof: False
      show ?thesis
      proof (cases v)
        case None
        then show ?thesis using facts(2) eof by (simp add: pipe_read_def r)
      next
        case (Some x)
        obtain n buf' where x: "x = (n, buf')" by fastforce
        let ?q = "wait_inner (bytes (pipe s))"
        have q: "?q \<noteq> []" using facts(2) Some that by simp
        have f: "n = Ok (min (length buf) (length ?q)) \<and> received v buf = take (length buf) ?q
            \<and> buf' = received v buf @ drop (length (received v buf)) buf"
          by (rule facts(3)) (simp_all add: Some x that)
        then have "n = Ok (min (length buf) (length ?q))" "received v buf = take (length buf) ?q"
          "buf' = take (length buf) ?q @ drop (length (take (length buf) ?q)) buf" by metis+
        moreover have "wait_inner (bytes p') = drop (length buf) ?q"
          using facts(1) calculation(2) append_take_drop_id[of "length buf" ?q] by (metis append_same_eq same_append_eq)
        ultimately show ?thesis using eof q that by (auto simp: pipe_read_def r Some x min_def)
      qed
    qed
    then show ?thesis using ok False by (auto simp: stream_ok_def)
  qed
qed

definition demo_pipe :: "unit PipeState" where
  "demo_pipe = pipe_run [(0, Write [1, 2, 3]), (1, Read [0, 0]), (0, DropWrite)]
     (pipe_start (demo_kernel [demo_context 1 False False, demo_context 2 False False] 0))"

theorem pipe_stream_witness:
  "sent demo_pipe = got demo_pipe @ [3] \<and>
   (case pipe_read [0, 0] (pipe demo_pipe) (pkern demo_pipe) of
      (Some (Inr n, buf'), p', k') \<Rightarrow> n = 1 \<and> buf' = [3, 0] \<and> wait_inner (bytes p') = [] | _ \<Rightarrow> False)"
proof -
  have run: "got demo_pipe = [1, 2]" "sent demo_pipe = [1, 2, 3]" "strong (pipe demo_pipe) = 1"
    by (simp_all add: demo_pipe_def pipe_start_def pipe_write_new_def pipe_read_new_def queue_new_def waitable_new_def
        pipe_write_def pipe_read_def pipe_receive_def queue_send_def wait_send_def condition_notify_def queue_receive_def
        wait_receive_def after_read_def received_def pipe_write_drop_def)
  obtain rest where rest: "sent demo_pipe = got demo_pipe @ rest" and
    "case pipe_read [0, 0] (pipe demo_pipe) (pkern demo_pipe) of
       (None, p', k') \<Rightarrow> rest = [] \<and> weak (pipe demo_pipe) > 0
     | (Some (Inl e, buf'), p', k') \<Rightarrow> False
     | (Some (Inr n, buf'), p', k') \<Rightarrow>
         n = min (length [0, 0 :: u8]) (length rest) \<and> buf' = take n rest @ drop n [0, 0]
         \<and> wait_inner (bytes p') = drop n rest \<and> (n = 0 \<longrightarrow> weak (pipe demo_pipe) = 0)"
    using pipe_stream[OF demo_pipe_def, of "[]" "[0, 0]"] run(3) by auto
  moreover have "rest = [3]" using rest run by simp
  ultimately show ?thesis by (simp split: prod.splits option.splits sum.splits)
qed

text \<open>
  C25. Closing the last write end wakes nobody: a reader that waits on an empty pipe when the last write end
  is closed stays blocked, whatever the other holders of the pipe do afterwards.
\<close>

theorem pipe_reader_stranded:
  assumes "enabled k" and "i < length (inner k)" and "buf \<noteq> []"
  shows "blocked (inner (pkern (pipe_run ((i, Read buf) # (j, DropWrite) # cs) (pipe_start k))) ! i)"
proof -
  let ?s = "pipe_do DropWrite ((pipe_do (Read buf) ((pipe_start k)\<lparr>pkern := k\<lparr>cur_i := i\<rparr>\<rparr>))
     \<lparr>pkern := (pkern (pipe_do (Read buf) ((pipe_start k)\<lparr>pkern := k\<lparr>cur_i := i\<rparr>\<rparr>)))\<lparr>cur_i := j\<rparr>\<rparr>)"
  have "stranded i ?s"
    using assms by (simp add: stranded_def pipe_start_def pipe_write_new_def pipe_read_new_def queue_new_def
        waitable_new_def pipe_read_def pipe_receive_def queue_receive_def wait_receive_def condition_wait_def
        current_def manager_get_def put_context_def after_read_def pipe_write_drop_def)
  from stranded_run[OF this, of cs] show ?thesis by (simp add: stranded_def pipe_start_def)
qed

theorem pipe_reader_stranded_witness:
  "blocked (inner (pkern (pipe_run [(0, Read [0]), (1, DropWrite), (1, DropRead)]
     (pipe_start (demo_kernel [demo_context 1 False False, demo_context 2 False False] 0)))) ! 0)"
  by (rule pipe_reader_stranded) (simp_all add: demo_kernel_def)

end
