(* ===== verification/Display.thy ===== *)
theory Display
  imports Memory
begin

text \<open>
  The frame buffer (\<^verbatim>\<open>kernel/graphics\<close>, \<^verbatim>\<open>crates/system/graphics.rs\<close>): colours, the
  video mode left by the boot loader, and the display with its off-screen copy, drawn on pixel by pixel through
  raw pointers. The font is the file \<^verbatim>\<open>filesystem/ui/unifont.font\<close>, sixteen bytes for each of its
  2048 glyphs, and an argument here; the console draws bytes only, so no index leaves the file.
\<close>

section \<open>Drawing on memory\<close>

record Color =
  color_data :: u32

definition color_new :: "u8 \<Rightarrow> u8 \<Rightarrow> u8 \<Rightarrow> Color" where
  "color_new r g b = \<lparr>color_data = 0xFF000000 OR push_bit 16 (ucast r) OR push_bit 8 (ucast g) OR ucast b\<rparr>"

text \<open>\<^verbatim>\<open>rep movsb\<close> over \<^term>\<open>len * 4\<close> bytes, upwards like \<^const>\<open>memcpy\<close>.\<close>

definition fast_copy :: "mem \<Rightarrow> usize \<Rightarrow> usize \<Rightarrow> usize \<Rightarrow> mem" where
  "fast_copy m dst src len = memcpy m dst src (len * 4)"

text \<open>
  \<^verbatim>\<open>rep stosd\<close> on memory that is present everywhere. The kernel maps every page but the first; a store that runs up to the top of the address space and around
  it would fault there, which is not modelled.
\<close>

fun rep_stosd :: "nat \<Rightarrow> usize \<Rightarrow> u32 \<Rightarrow> mem \<Rightarrow> mem" where
  "rep_stosd 0 dst c m = m"
| "rep_stosd (Suc n) dst c m = rep_stosd n (dst + 4) c (write_usize m dst c)"

definition fast_set :: "mem \<Rightarrow> usize \<Rightarrow> u32 \<Rightarrow> usize \<Rightarrow> mem" where
  "fast_set m dst c len = rep_stosd (unat len) dst c m"

text \<open>The fields of the packed mode description that are used, and where it lies.\<close>

record VBEModeInfo =
  xresolution :: u16
  yresolution :: u16
  physbaseptr :: u32

definition vbe_init :: "mem \<Rightarrow> VBEModeInfo option" where
  "vbe_init m =
     (let mode_info = \<lparr>xresolution = read_u16 m (0x5200 + 18), yresolution = read_u16 m (0x5200 + 20),
                       physbaseptr = read_usize m (0x5200 + 40)\<rparr>
      in if physbaseptr mode_info > 0 then Some mode_info else None)"

record Display =
  offscreen :: usize
  onscreen :: usize
  disp_size :: usize
  width :: usize
  height :: usize

definition display_root :: "VBEModeInfo option \<Rightarrow> mem \<Rightarrow> Display option \<times> mem" where
  "display_root vbe m =
     (case vbe of
        Some mode_info \<Rightarrow>
          (let (p, m) = alloc m (ucast (xresolution mode_info) * ucast (yresolution mode_info) * 4)
           in (Some \<lparr>offscreen = p, onscreen = physbaseptr mode_info,
                     disp_size = ucast (xresolution mode_info) * ucast (yresolution mode_info),
                     width = ucast (xresolution mode_info), height = ucast (yresolution mode_info)\<rparr>, m))
      | None \<Rightarrow> (None, m))"

text \<open>\<^verbatim>\<open>offset\<close> on a pointer to pixels.\<close>

definition pixel_ptr :: "usize \<Rightarrow> usize \<Rightarrow> usize" where
  "pixel_ptr p i = p + 4 * i"

definition display_set :: "Display \<Rightarrow> Color \<Rightarrow> mem \<Rightarrow> mem" where
  "display_set d color m = fast_set m (offscreen d) (color_data color) (disp_size d)"

definition display_scroll :: "Display \<Rightarrow> usize \<Rightarrow> Color \<Rightarrow> mem \<Rightarrow> mem" where
  "display_scroll d rows color m =
     (if rows > 0 \<and> rows < height d then
        (let offset = rows * width d;
             m = fast_copy m (offscreen d) (pixel_ptr (offscreen d) offset) (disp_size d - offset)
         in fast_set m (pixel_ptr (offscreen d) (disp_size d - offset)) (color_data color) offset)
      else m)"

definition display_flip :: "Display \<Rightarrow> mem \<Rightarrow> mem" where
  "display_flip d m = fast_copy m (onscreen d) (offscreen d) (disp_size d)"

function rect_rows :: "Display \<Rightarrow> usize \<Rightarrow> usize \<Rightarrow> u32 \<Rightarrow> usize \<Rightarrow> usize \<Rightarrow> mem \<Rightarrow> mem" where
  "rect_rows d start_x len c end_y y m =
     (if y < end_y
      then rect_rows d start_x len c end_y (y + 1) (fast_set m (pixel_ptr (offscreen d) (y * width d + start_x)) c len)
      else m)"
  by pat_completeness auto
termination
  by (relation "measure (\<lambda>(d, start_x, len, c, end_y, y, m). unat end_y - unat y)") (auto simp: while_up_measure)

declare rect_rows.simps [simp del]

definition display_rect :: "Display \<Rightarrow> usize \<Rightarrow> usize \<Rightarrow> usize \<Rightarrow> usize \<Rightarrow> Color \<Rightarrow> mem \<Rightarrow> mem" where
  "display_rect d x y w h color m =
     (let start_y = min (height d - 1) y;
          end_y = min (height d - 1) (y + h);
          start_x = min (width d - 1) x;
          len = min (width d - 1) (x + w) - start_x
      in rect_rows d start_x len (color_data color) end_y start_y m)"

definition char_row :: "u8 \<Rightarrow> usize \<Rightarrow> u32 \<Rightarrow> mem \<Rightarrow> mem" where
  "char_row row_data dst c m =
     fold (\<lambda>col m. if bit row_data (7 - col) then write_usize m (pixel_ptr dst (of_nat col)) c else m) [0..<8] m"

fun char_rows :: "Display \<Rightarrow> (nat \<Rightarrow> u8) \<Rightarrow> nat \<Rightarrow> nat \<Rightarrow> usize \<Rightarrow> u32 \<Rightarrow> mem \<Rightarrow> mem" where
  "char_rows d font 0 i dst c m = m"
| "char_rows d font (Suc n) i dst c m =
     char_rows d font n (i + 1) (pixel_ptr dst (width d)) c (char_row (font i) dst c m)"

definition display_char :: "(nat \<Rightarrow> u8) \<Rightarrow> Display \<Rightarrow> usize \<Rightarrow> usize \<Rightarrow> u8 \<Rightarrow> Color \<Rightarrow> mem \<Rightarrow> mem" where
  "display_char font d x y character color m =
     (if x + 8 \<le> width d \<and> y + 16 \<le> height d
      then char_rows d font 16 (16 * unat character) (pixel_ptr (offscreen d) (y * width d + x)) (color_data color) m
      else m)"

definition display_drop :: "Display \<Rightarrow> mem \<Rightarrow> mem" where
  "display_drop d m = (if offscreen d > 0 then unalloc m (offscreen d) else m)"

section \<open>Pixels of a buffer\<close>

text \<open>The \<^term>\<open>i\<close>-th pixel of the buffer at \<^term>\<open>b\<close>, and the bytes of a buffer of \<^term>\<open>n\<close> pixels.\<close>

definition pix :: "usize \<Rightarrow> mem \<Rightarrow> nat \<Rightarrow> u32" where
  "pix b m i = read_usize m (b + 4 * of_nat i)"

definition in_pixels :: "usize \<Rightarrow> nat \<Rightarrow> usize \<Rightarrow> bool" where
  "in_pixels b n a \<longleftrightarrow> unat (a - b) < 4 * n"

lemma unat_pixel:
  assumes "i < n" and "4 * n \<le> 2 ^ 32"
  shows "unat (4 * of_nat i :: usize) = 4 * i"
proof -
  have "(4 * of_nat i :: usize) = of_nat (4 * i)" by simp
  moreover have "4 * i < 2 ^ LENGTH(32)" using assms by simp
  ultimately show ?thesis using unat_of_nat_lt by metis
qed

lemma pixels_disjoint:
  assumes "i < n" and "j < n" and "4 * n \<le> 2 ^ 32" and "i \<noteq> j"
  shows "cells_disjoint (b + 4 * of_nat i) (b + 4 * of_nat j)"
proof -
  have u: "unat (4 * of_nat i :: usize) = 4 * i" "unat (4 * of_nat j :: usize) = 4 * j"
    using unat_pixel assms by blast+
  have "(b + 4 * of_nat i) - (b + 4 * of_nat j) = (4 * of_nat i :: usize) - 4 * of_nat j"
    "(b + 4 * of_nat j) - (b + 4 * of_nat i) = (4 * of_nat j :: usize) - 4 * of_nat i" by simp_all
  moreover have "4 \<le> unat ((4 * of_nat i :: usize) - 4 * of_nat j)" "4 \<le> unat ((4 * of_nat j :: usize) - 4 * of_nat i)"
    using assms by (auto simp: unat_diff_wrap u word_le_nat_alt)
  ultimately show ?thesis by (simp add: cells_disjoint_def word_le_nat_alt)
qed

lemma pixel_outside:
  assumes "\<not> in_pixels b n a" and "i < n" and "4 * n \<le> 2 ^ 32"
  shows "4 \<le> a - (b + 4 * of_nat i)"
proof -
  have u: "unat (4 * of_nat i :: usize) = 4 * i" by (rule unat_pixel[OF assms(2,3)])
  have "(4 * of_nat i :: usize) \<le> a - b" using assms u by (simp add: word_le_nat_alt in_pixels_def)
  then have "unat ((a - b) - 4 * of_nat i) = unat (a - b) - 4 * i" by (simp add: unat_diff_wrap u)
  then have "unat (a - (b + 4 * of_nat i)) = unat (a - b) - 4 * i" by (simp only: diff_diff_add)
  then show ?thesis using assms(1,2) by (simp add: word_le_nat_alt in_pixels_def)
qed

text \<open>
  \<^term>\<open>paints b n m m' f\<close>: from \<^term>\<open>m\<close> to \<^term>\<open>m'\<close> only the buffer changed, and its pixels are
  now \<^term>\<open>f\<close>.
\<close>

definition paints :: "usize \<Rightarrow> nat \<Rightarrow> mem \<Rightarrow> mem \<Rightarrow> (nat \<Rightarrow> u32) \<Rightarrow> bool" where
  "paints b n m m' f \<longleftrightarrow> (\<forall>a. \<not> in_pixels b n a \<longrightarrow> m' a = m a) \<and> (\<forall>i<n. pix b m' i = f i)"

lemma paints_refl: "paints b n m m (pix b m)"
  by (simp add: paints_def)

lemma paints_trans:
  "paints b n m m1 f \<Longrightarrow> paints b n m1 m2 g \<Longrightarrow> paints b n m m2 g"
  by (simp add: paints_def)

lemma paints_cong: "paints b n m m' f \<Longrightarrow> (\<And>i. i < n \<Longrightarrow> g i = f i) \<Longrightarrow> paints b n m m' g"
  by (simp add: paints_def)

lemma paints_pixel:
  assumes "j < n" and "4 * n \<le> 2 ^ 32"
  shows "paints b n m (write_usize m (b + 4 * of_nat j) c) ((pix b m)(j := c))"
  using assms pixel_outside[of b n _ j] pixels_disjoint[of _ n j b]
  by (auto simp: paints_def pix_def mem_simps intro!: write_usize_other)

lemma paints_stosd:
  assumes "j + k \<le> n" and "4 * n \<le> 2 ^ 32"
  shows "paints b n m (rep_stosd k (b + 4 * of_nat j) c m) (\<lambda>i. if j \<le> i \<and> i < j + k then c else pix b m i)"
  using assms(1)
proof (induction k arbitrary: j m)
  case 0
  show ?case by (auto simp: paints_def)
next
  case (Suc k)
  let ?m = "write_usize m (b + 4 * of_nat j) c"
  have p: "paints b n m ?m ((pix b m)(j := c))" by (rule paints_pixel) (use Suc.prems assms(2) in simp_all)
  have q: "paints b n ?m (rep_stosd k (b + 4 * of_nat (Suc j)) c ?m) (\<lambda>i. if Suc j \<le> i \<and> i < Suc j + k then c else pix b ?m i)"
    by (rule Suc.IH) (use Suc.prems in simp)
  have e: "b + 4 * of_nat (Suc j) = (b + 4 * of_nat j) + 4" by simp
  have "pix b ?m i = ((pix b m)(j := c)) i" if "i < n" for i using p that by (simp add: paints_def)
  then show ?case
    using paints_cong[OF paints_trans[OF p q], of "\<lambda>i. if j \<le> i \<and> i < j + Suc k then c else pix b m i"]
    unfolding e by (auto split: if_splits)
qed

section \<open>The drawing operations\<close>

text \<open>A display whose pixels fit the address space, as every mode of the boot loader has it.\<close>

definition display_ok :: "Display \<Rightarrow> bool" where
  "display_ok d \<longleftrightarrow> 0 < width d \<and> 0 < height d \<and> unat (disp_size d) = unat (width d) * unat (height d)
     \<and> 4 * unat (disp_size d) < 2 ^ 32"

abbreviation paints_display :: "Display \<Rightarrow> mem \<Rightarrow> mem \<Rightarrow> (nat \<Rightarrow> u32) \<Rightarrow> bool" where
  "paints_display d \<equiv> paints (offscreen d) (unat (disp_size d))"

text \<open>Column and row of a pixel.\<close>

abbreviation col_of :: "Display \<Rightarrow> nat \<Rightarrow> nat" where "col_of d i \<equiv> i mod unat (width d)"
abbreviation row_of :: "Display \<Rightarrow> nat \<Rightarrow> nat" where "row_of d i \<equiv> i div unat (width d)"

lemma display_okD:
  assumes "display_ok d"
  shows "4 * unat (disp_size d) \<le> 2 ^ 32" and "0 < unat (width d)" and "0 < unat (height d)"
proof -
  have "4 * unat (disp_size d) < 2 ^ 32" "0 < width d" "0 < height d" using assms unfolding display_ok_def by blast+
  then show "4 * unat (disp_size d) \<le> 2 ^ 32" "0 < unat (width d)" "0 < unat (height d)"
    by (simp_all add: unat_gt_0 word_gt_0)
qed

lemma pixel_index:
  assumes "display_ok d" and "x < unat (width d)" and "y < unat (height d)"
  shows "y * unat (width d) + x < unat (disp_size d)"
proof -
  have "y * unat (width d) + x < Suc y * unat (width d)" using assms(2) by simp
  also have "\<dots> \<le> unat (height d) * unat (width d)" using assms(3) by (intro mult_le_mono1) simp
  finally show ?thesis using assms(1) by (simp add: display_ok_def mult.commute)
qed

lemma unat_pixel_index:
  fixes x y :: usize
  assumes "display_ok d" and "unat x < unat (width d)" and "unat y < unat (height d)"
  shows "unat (y * width d + x) = unat y * unat (width d) + unat x"
    and "pixel_ptr (offscreen d) (y * width d + x) = offscreen d + 4 * of_nat (unat y * unat (width d) + unat x)"
proof -
  have lt: "unat y * unat (width d) + unat x < 2 ^ 32"
    using pixel_index[OF assms] assms(1) unfolding display_ok_def by linarith
  then have "unat (y * width d) = unat y * unat (width d)" by (intro unat_mult_lt) simp
  then show e: "unat (y * width d + x) = unat y * unat (width d) + unat x"
    using lt by (subst unat_add_lt) simp_all
  then have "y * width d + x = of_nat (unat y * unat (width d) + unat x)" by simp
  then show "pixel_ptr (offscreen d) (y * width d + x) = offscreen d + 4 * of_nat (unat y * unat (width d) + unat x)"
    by (simp add: pixel_ptr_def)
qed

text \<open>A run of pixels inside one row.\<close>

lemma row_run:
  fixes w x y n i :: nat
  assumes "x + n \<le> w"
  shows "(y * w + x \<le> i \<and> i < y * w + x + n) \<longleftrightarrow> (i div w = y \<and> x \<le> i mod w \<and> i mod w < x + n)"
proof (cases "n = 0")
  case False
  then have w: "0 < w" using assms by simp
  have i: "i = (i div w) * w + i mod w" by simp
  have m: "i mod w < w" using w by simp
  show ?thesis
  proof
    assume l: "y * w + x \<le> i \<and> i < y * w + x + n"
    have "y * w \<le> i" "i < Suc y * w" using l assms by simp_all
    then have "i div w = y" using w by (metis div_nat_eqI mult.commute)
    moreover from this have "i = y * w + i mod w" using i by simp
    ultimately show "i div w = y \<and> x \<le> i mod w \<and> i mod w < x + n" using l by simp
  next
    assume r: "i div w = y \<and> x \<le> i mod w \<and> i mod w < x + n"
    then have "i = y * w + i mod w" using i by simp
    then show "y * w + x \<le> i \<and> i < y * w + x + n" using r by linarith
  qed
qed auto

lemma paints_set:
  assumes "display_ok d"
  shows "paints_display d m (display_set d c m) (\<lambda>i. color_data c)"
proof -
  have "paints_display d m (rep_stosd (unat (disp_size d)) (offscreen d + 4 * of_nat 0) (color_data c) m)
     (\<lambda>i. if 0 \<le> i \<and> i < 0 + unat (disp_size d) then color_data c else pix (offscreen d) m i)"
    by (rule paints_stosd) (use display_okD(1)[OF assms] in simp_all)
  then show ?thesis by (simp add: display_set_def fast_set_def paints_def)
qed

lemma paints_rect_rows:
  assumes ok: "display_ok d" and x: "unat x + unat n \<le> unat (width d)" "unat x < unat (width d)"
    and y: "unat e \<le> unat (height d)" "y \<le> e"
  shows "paints_display d m (rect_rows d x n c e y m)
    (\<lambda>i. if unat y \<le> row_of d i \<and> row_of d i < unat e \<and> unat x \<le> col_of d i \<and> col_of d i < unat x + unat n
         then c else pix (offscreen d) m i)"
  using y(2)
proof (induction arbitrary: m rule: word_up_induct)
  case stop
  show ?case by (auto simp: rect_rows.simps paints_def)
next
  case (step y)
  let ?j = "unat y * unat (width d) + unat x"
  let ?m = "fast_set m (pixel_ptr (offscreen d) (y * width d + x)) c n"
  have yh: "unat y < unat (height d)" using step.hyps y(1) by (simp add: word_less_nat_alt)
  have "?j + unat n \<le> unat y * unat (width d) + unat (width d)" using x(1) by simp
  also have "\<dots> \<le> unat (height d) * unat (width d)" using mult_le_mono1[of "Suc (unat y)" "unat (height d)" "unat (width d)"] yh by simp
  finally have fit: "?j + unat n \<le> unat (disp_size d)" using ok by (simp add: display_ok_def mult.commute)
  have p: "paints_display d m ?m (\<lambda>i. if ?j \<le> i \<and> i < ?j + unat n then c else pix (offscreen d) m i)"
    unfolding fast_set_def unat_pixel_index(2)[OF ok x(2) yh]
    by (rule paints_stosd[OF fit display_okD(1)[OF ok]])
  have y1: "unat (y + 1) = Suc (unat y)" by (rule unat_Suc_less[OF step.hyps])
  have "paints_display d m (rect_rows d x n c e (y + 1) ?m)
     (\<lambda>i. if unat (y + 1) \<le> row_of d i \<and> row_of d i < unat e \<and> unat x \<le> col_of d i \<and> col_of d i < unat x + unat n
          then c else pix (offscreen d) ?m i)"
    by (rule paints_trans[OF p step.IH])
  then have "paints_display d m (rect_rows d x n c e (y + 1) ?m)
     (\<lambda>i. if unat y \<le> row_of d i \<and> row_of d i < unat e \<and> unat x \<le> col_of d i \<and> col_of d i < unat x + unat n
          then c else pix (offscreen d) m i)"
  proof (rule paints_cong)
    fix i assume i: "i < unat (disp_size d)"
    have "pix (offscreen d) ?m i = (if row_of d i = unat y \<and> unat x \<le> col_of d i \<and> col_of d i < unat x + unat n then c
        else pix (offscreen d) m i)"
      using p i unfolding paints_def row_run[OF x(1)] by simp
    then show "(if unat y \<le> row_of d i \<and> row_of d i < unat e \<and> unat x \<le> col_of d i \<and> col_of d i < unat x + unat n
          then c else pix (offscreen d) m i) =
        (if unat (y + 1) \<le> row_of d i \<and> row_of d i < unat e \<and> unat x \<le> col_of d i \<and> col_of d i < unat x + unat n
          then c else pix (offscreen d) ?m i)"
      using step.hyps unfolding y1 by (auto simp: word_less_nat_alt not_less_eq_eq le_Suc_eq)
  qed
  then show ?case using step.hyps by (subst rect_rows.simps) simp
qed

text \<open>
  The effect of \<^verbatim>\<open>rect\<close> when neither corner wraps around: the part of the rectangle that lies on the screen
  is painted, the last row and the last column of the screen excepted.
\<close>

lemma unat_min_word: "unat (min a b :: 'a::len word) = min (unat a) (unat b)"
  by (simp add: min_def word_le_nat_alt)

lemma paints_rect:
  assumes ok: "display_ok d" and "unat x + unat w < 2 ^ 32" and "unat y + unat h < 2 ^ 32"
  shows "paints_display d m (display_rect d x y w h c m)
    (\<lambda>i. if unat x \<le> col_of d i \<and> col_of d i < unat x + unat w \<and> col_of d i + 1 < unat (width d)
           \<and> unat y \<le> row_of d i \<and> row_of d i < unat y + unat h \<and> row_of d i + 1 < unat (height d)
         then color_data c else pix (offscreen d) m i)"
proof -
  note D = display_okD[OF ok]
  let ?sx = "min (width d - 1) x" and ?ex = "min (width d - 1) (x + w)"
    and ?sy = "min (height d - 1) y" and ?ey = "min (height d - 1) (y + h)"
  have xw: "unat (x + w) = unat x + unat w" "unat (y + h) = unat y + unat h"
    using assms(2,3) by (simp_all add: unat_add_lt)
  have w1: "unat (width d - 1) = unat (width d) - 1" "unat (height d - 1) = unat (height d) - 1"
    using D(2,3) by (simp_all add: unat_minus_one unat_gt_0)
  have u: "unat ?sx = min (unat (width d) - 1) (unat x)" "unat ?ex = min (unat (width d) - 1) (unat x + unat w)"
    "unat ?sy = min (unat (height d) - 1) (unat y)" "unat ?ey = min (unat (height d) - 1) (unat y + unat h)"
    by (simp_all add: unat_min_word w1 xw)
  have le: "?sx \<le> ?ex" "?sy \<le> ?ey" unfolding word_le_nat_alt u by auto
  have n: "unat (?ex - ?sx) = unat ?ex - unat ?sx" using le(1) by (simp add: unat_diff_wrap)
  have run: "unat ?sx + unat (?ex - ?sx) = unat ?ex" using le(1) unfolding n word_le_nat_alt by simp
  have b: "unat ?ex \<le> unat (width d)" "unat ?sx < unat (width d)" "unat ?ey \<le> unat (height d)"
    unfolding u using D(2) by linarith+
  have p: "paints_display d m (rect_rows d ?sx (?ex - ?sx) (color_data c) ?ey ?sy m)
    (\<lambda>i. if unat ?sy \<le> row_of d i \<and> row_of d i < unat ?ey \<and> unat ?sx \<le> col_of d i \<and> col_of d i < unat ?sx + unat (?ex - ?sx)
         then color_data c else pix (offscreen d) m i)"
    by (rule paints_rect_rows[OF ok _ b(2,3) le(2)]) (simp only: run b(1))
  from p[unfolded run, unfolded u] show ?thesis
    unfolding display_rect_def Let_def
  proof (rule paints_cong)
    fix i
    have "(min (unat (height d) - 1) (unat y) \<le> row_of d i \<and> row_of d i < min (unat (height d) - 1) (unat y + unat h)
        \<and> min (unat (width d) - 1) (unat x) \<le> col_of d i \<and> col_of d i < min (unat (width d) - 1) (unat x + unat w)) \<longleftrightarrow>
      (unat x \<le> col_of d i \<and> col_of d i < unat x + unat w \<and> col_of d i + 1 < unat (width d)
        \<and> unat y \<le> row_of d i \<and> row_of d i < unat y + unat h \<and> row_of d i + 1 < unat (height d))"
      by linarith
    then show "(if unat x \<le> col_of d i \<and> col_of d i < unat x + unat w \<and> col_of d i + 1 < unat (width d)
           \<and> unat y \<le> row_of d i \<and> row_of d i < unat y + unat h \<and> row_of d i + 1 < unat (height d)
         then color_data c else pix (offscreen d) m i) =
       (if min (unat (height d) - 1) (unat y) \<le> row_of d i \<and> row_of d i < min (unat (height d) - 1) (unat y + unat h)
           \<and> min (unat (width d) - 1) (unat x) \<le> col_of d i \<and> col_of d i < min (unat (width d) - 1) (unat x + unat w)
         then color_data c else pix (offscreen d) m i)"
      by (simp only:)
  qed
qed

text \<open>Glyphs: the pixels of one row of a character, then all its rows.\<close>

lemma paints_char_row:
  assumes "j + 8 \<le> n" and "4 * n \<le> 2 ^ 32"
  shows "paints b n m (char_row r (b + 4 * of_nat j) c m)
    (\<lambda>i. if j \<le> i \<and> i < j + 8 \<and> bit r (7 - (i - j)) then c else pix b m i)"
proof -
  let ?f = "\<lambda>col m. if bit r (7 - col) then write_usize m (pixel_ptr (b + 4 * of_nat j) (of_nat col)) c else m"
  have "paints b n m (fold ?f [0..<k] m) (\<lambda>i. if j \<le> i \<and> i < j + k \<and> bit r (7 - (i - j)) then c else pix b m i)"
    if "k \<le> 8" for k
    using that
  proof (induction k)
    case 0
    show ?case by (auto simp: paints_def)
  next
    case (Suc k)
    let ?m = "fold ?f [0..<k] m"
    have p: "paints b n m ?m (\<lambda>i. if j \<le> i \<and> i < j + k \<and> bit r (7 - (i - j)) then c else pix b m i)"
      using Suc by simp
    have e: "pixel_ptr (b + 4 * of_nat j) (of_nat k) = b + 4 * of_nat (j + k)" by (simp add: pixel_ptr_def)
    have q: "paints b n ?m (write_usize ?m (pixel_ptr (b + 4 * of_nat j) (of_nat k)) c) ((pix b ?m)(j + k := c))"
      unfolding e by (rule paints_pixel) (use Suc.prems assms in simp_all)
    have px: "pix b ?m i = (if j \<le> i \<and> i < j + k \<and> bit r (7 - (i - j)) then c else pix b m i)" if "i < n" for i
      using p that by (simp add: paints_def)
    have st: "fold ?f [0..<Suc k] m = ?f k ?m" by simp
    show ?case
    proof (cases "bit r (7 - k)")
      case True
      show ?thesis unfolding st if_P[OF True]
        by (rule paints_cong[OF paints_trans[OF p q]]) (use True in \<open>auto simp: px less_Suc_eq\<close>)
    next
      case False
      show ?thesis unfolding st if_not_P[OF False]
        by (rule paints_cong[OF p]) (use False in \<open>auto simp: less_Suc_eq\<close>)
    qed
  qed
  from this[of 8] show ?thesis by (simp add: char_row_def)
qed

lemma row_run_offset:
  fixes w x y i :: nat
  assumes "i div w = y" and "x \<le> i mod w"
  shows "i - (y * w + x) = i mod w - x"
proof -
  have "i = y * w + i mod w" using assms(1) by (metis div_mult_mod_eq)
  then show ?thesis by simp
qed

lemma paints_char_rows:
  assumes ok: "display_ok d" and x: "x + 8 \<le> unat (width d)" and "y + n \<le> unat (height d)"
  shows "paints_display d m (char_rows d font n g (offscreen d + 4 * of_nat (y * unat (width d) + x)) c m)
    (\<lambda>i. if x \<le> col_of d i \<and> col_of d i < x + 8 \<and> y \<le> row_of d i \<and> row_of d i < y + n
            \<and> bit (font (g + (row_of d i - y))) (7 - (col_of d i - x))
         then c else pix (offscreen d) m i)"
  using assms(3)
proof (induction n arbitrary: y g m)
  case 0
  show ?case by (auto simp: paints_def)
next
  case (Suc n)
  let ?j = "y * unat (width d) + x"
  let ?m = "char_row (font g) (offscreen d + 4 * of_nat ?j) c m"
  have "y * unat (width d) + (x + 7) < unat (disp_size d)"
    by (rule pixel_index[OF ok]) (use x Suc.prems in simp_all)
  then have p: "paints_display d m ?m (\<lambda>i. if ?j \<le> i \<and> i < ?j + 8 \<and> bit (font g) (7 - (i - ?j)) then c else pix (offscreen d) m i)"
    by (intro paints_char_row) (use display_okD(1)[OF ok] in simp_all)
  have e: "pixel_ptr (offscreen d + 4 * of_nat ?j) (width d) = offscreen d + 4 * of_nat (Suc y * unat (width d) + x)"
    by (simp add: pixel_ptr_def algebra_simps)
  have q: "paints_display d ?m (char_rows d font n (g + 1) (offscreen d + 4 * of_nat (Suc y * unat (width d) + x)) c ?m)
    (\<lambda>i. if x \<le> col_of d i \<and> col_of d i < x + 8 \<and> Suc y \<le> row_of d i \<and> row_of d i < Suc y + n
            \<and> bit (font (g + 1 + (row_of d i - Suc y))) (7 - (col_of d i - x))
         then c else pix (offscreen d) ?m i)"
    by (rule Suc.IH) (use Suc.prems in simp)
  show ?case
    unfolding char_rows.simps(2) e
  proof (rule paints_cong[OF paints_trans[OF p q]])
    fix i assume i: "i < unat (disp_size d)"
    have "pix (offscreen d) ?m i =
        (if (?j \<le> i \<and> i < ?j + 8) \<and> bit (font g) (7 - (i - ?j)) then c else pix (offscreen d) m i)"
      using p i by (simp add: paints_def)
    then have px: "pix (offscreen d) ?m i =
        (if row_of d i = y \<and> x \<le> col_of d i \<and> col_of d i < x + 8 \<and> bit (font g) (7 - (col_of d i - x)) then c
         else pix (offscreen d) m i)"
      unfolding row_run[OF x] using row_run_offset[of i "unat (width d)" y x] by auto
    have "g + (row_of d i - y) = g + 1 + (row_of d i - Suc y)" if "Suc y \<le> row_of d i" using that by simp
    then show "(if x \<le> col_of d i \<and> col_of d i < x + 8 \<and> y \<le> row_of d i \<and> row_of d i < y + Suc n
            \<and> bit (font (g + (row_of d i - y))) (7 - (col_of d i - x))
         then c else pix (offscreen d) m i) =
       (if x \<le> col_of d i \<and> col_of d i < x + 8 \<and> Suc y \<le> row_of d i \<and> row_of d i < Suc y + n
            \<and> bit (font (g + 1 + (row_of d i - Suc y))) (7 - (col_of d i - x))
         then c else pix (offscreen d) ?m i)"
      unfolding px by (cases "row_of d i = y"; cases "Suc y \<le> row_of d i") auto
  qed
qed

lemma paints_char:
  assumes ok: "display_ok d" and "unat x + 8 < 2 ^ 32" and "unat y + 16 < 2 ^ 32"
  shows "paints_display d m (display_char font d x y ch c m)
    (\<lambda>i. if unat x + 8 \<le> unat (width d) \<and> unat y + 16 \<le> unat (height d)
           \<and> unat x \<le> col_of d i \<and> col_of d i < unat x + 8 \<and> unat y \<le> row_of d i \<and> row_of d i < unat y + 16
           \<and> bit (font (16 * unat ch + (row_of d i - unat y))) (7 - (col_of d i - unat x))
         then color_data c else pix (offscreen d) m i)"
proof -
  have e: "x + 8 \<le> width d \<longleftrightarrow> unat x + 8 \<le> unat (width d)" "y + 16 \<le> height d \<longleftrightarrow> unat y + 16 \<le> unat (height d)"
    using assms(2,3) by (simp_all add: word_le_nat_alt unat_add_lt)
  show ?thesis
  proof (cases "unat x + 8 \<le> unat (width d) \<and> unat y + 16 \<le> unat (height d)")
    case True
    then have p: "pixel_ptr (offscreen d) (y * width d + x) = offscreen d + 4 * of_nat (unat y * unat (width d) + unat x)"
      by (intro unat_pixel_index(2)[OF ok]) simp_all
    show ?thesis
      using paints_char_rows[OF ok, of "unat x" "unat y" 16 m font "16 * unat ch" "color_data c"] True
      by (simp add: display_char_def e p)
  next
    case False
    then show ?thesis unfolding display_char_def e by (auto simp: paints_def)
  qed
qed

section \<open>Scrolling and flipping\<close>

lemma unat_pixels:
  assumes "4 * k < 2 ^ 32"
  shows "unat (of_nat k * 4 :: usize) = 4 * k"
proof -
  have "(of_nat k * 4 :: usize) = of_nat (4 * k)" by simp
  then show ?thesis using assms unat_of_nat_lt[of "4 * k", where 'a = 32] by (simp add: mult.commute)
qed

text \<open>Copying \<^term>\<open>k\<close> pixels to the start of a buffer of \<^term>\<open>n\<close>.\<close>

lemma paints_copied:
  assumes "k \<le> n" and "4 * n < 2 ^ 32"
  shows "paints b n m (copied m b src (of_nat k * 4)) (\<lambda>i. if i < k then pix src m i else pix b m i)"
proof -
  have k: "unat (of_nat k * 4 :: usize) = 4 * k" by (rule unat_pixels) (use assms in simp)
  have "copied m b src (of_nat k * 4) (b + 4 * of_nat i + j) =
      (if i < k then m (src + 4 * of_nat i + j) else m (b + 4 * of_nat i + j))" if "i < n" "j < 4" for i and j :: usize
  proof -
    have j: "unat j < 4" using that(2) by (simp add: word_less_nat_alt)
    have "unat (4 * of_nat i :: usize) = 4 * i" by (rule unat_pixel[OF that(1)]) (use assms(2) in simp)
    then have "unat (4 * of_nat i + j) = 4 * i + unat j"
      using assms(2) that(1) j by (subst unat_add_lt) simp_all
    then have "4 * of_nat i + j < of_nat k * 4 \<longleftrightarrow> i < k" unfolding word_less_nat_alt k using j by auto
    moreover have "(b + 4 * of_nat i + j) - b = 4 * of_nat i + j" by simp
    ultimately show ?thesis by (simp add: copied_def add.assoc)
  qed
  from this[of _ 0] this[of _ 1] this[of _ 2] this[of _ 3]
  have "pix b (copied m b src (of_nat k * 4)) i = (if i < k then pix src m i else pix b m i)" if "i < n" for i
    using that unfolding pix_def read_usize_def by simp
  moreover have "copied m b src (of_nat k * 4) a = m a" if "\<not> in_pixels b n a" for a
    using that assms(1) by (simp add: copied_def word_less_nat_alt k in_pixels_def)
  ultimately show ?thesis by (simp add: paints_def)
qed

lemma paints_scroll:
  assumes ok: "display_ok d" and r: "0 < rows" "rows < height d"
  shows "paints_display d m (display_scroll d rows c m)
    (\<lambda>i. if row_of d i + unat rows < unat (height d) then pix (offscreen d) m (i + unat rows * unat (width d))
         else color_data c)"
proof -
  let ?n = "unat (disp_size d)" and ?o = "rows * width d" and ?b = "offscreen d"
  have n4: "4 * ?n < 2 ^ 32" and size: "?n = unat (width d) * unat (height d)" using ok unfolding display_ok_def by blast+
  have w: "0 < unat (width d)" by (rule display_okD(2)[OF ok])
  have "unat rows * unat (width d) + 0 < ?n"
    by (rule pixel_index[OF ok w]) (use r in \<open>simp add: word_less_nat_alt\<close>)
  moreover from this have o: "unat ?o = unat rows * unat (width d)" using n4 by (intro unat_mult_lt) simp
  ultimately have lt: "unat ?o < ?n" by simp
  then have k: "unat (disp_size d - ?o) = ?n - unat ?o" by (simp add: unat_diff_wrap word_le_nat_alt)
  let ?k = "?n - unat ?o"
  have ko: "(of_nat ?k :: usize) = disp_size d - ?o" unfolding k[symmetric] by simp
  then have len: "(disp_size d - ?o) * 4 = of_nat ?k * 4" by (simp only:)
  have kk: "unat (of_nat ?k * 4 :: usize) = 4 * ?k" by (rule unat_pixels) (use n4 in simp)
  have oo: "unat (4 * ?o) = 4 * unat ?o" using lt n4 by (subst unat_mult_lt) simp_all
  have "\<not> (pixel_ptr ?b ?o + i) - ?b < i" if "i < of_nat ?k * 4" for i
  proof -
    have "unat i < 4 * ?k" using that kk by (simp only: word_less_nat_alt)
    then have "unat (4 * ?o + i) = 4 * unat ?o + unat i" using n4 lt oo by (subst unat_add_lt) simp_all
    then show ?thesis by (simp add: pixel_ptr_def word_less_nat_alt)
  qed
  then have copy: "fast_copy m ?b (pixel_ptr ?b ?o) (disp_size d - ?o) = copied m ?b (pixel_ptr ?b ?o) (of_nat ?k * 4)"
    unfolding fast_copy_def memcpy_def len by (rule memcpy_loop_eq)
  let ?m = "copied m ?b (pixel_ptr ?b ?o) (of_nat ?k * 4)"
  have p: "paints_display d m ?m (\<lambda>i. if i < ?k then pix (pixel_ptr ?b ?o) m i else pix ?b m i)"
    by (rule paints_copied) (use n4 in simp_all)
  have e: "pixel_ptr ?b (disp_size d - ?o) = ?b + 4 * of_nat ?k" by (simp only: pixel_ptr_def ko)
  have q: "paints_display d ?m (rep_stosd (unat ?o) (?b + 4 * of_nat ?k) (color_data c) ?m)
      (\<lambda>i. if ?k \<le> i \<and> i < ?k + unat ?o then color_data c else pix ?b ?m i)"
    by (rule paints_stosd) (use lt n4 in simp_all)
  have res: "display_scroll d rows c m = rep_stosd (unat ?o) (?b + 4 * of_nat ?k) (color_data c) ?m"
    using r by (simp add: display_scroll_def Let_def copy e fast_set_def)
  have src: "pix (pixel_ptr ?b ?o) m i = pix ?b m (i + unat rows * unat (width d))" for i
    by (simp add: pix_def pixel_ptr_def algebra_simps flip: o)
  have kw: "?k = (unat (height d) - unat rows) * unat (width d)" unfolding size o by (simp only: diff_mult_distrib mult.commute[of "unat (width d)" "unat (height d)"])
  show ?thesis unfolding res
  proof (rule paints_cong[OF paints_trans[OF p q]])
    fix i assume i: "i < ?n"
    have "row_of d i + unat rows < unat (height d) \<longleftrightarrow> row_of d i < unat (height d) - unat rows" by linarith
    also have "\<dots> \<longleftrightarrow> i < ?k" unfolding kw using w by (simp add: div_less_iff_less_mult)
    finally have "row_of d i + unat rows < unat (height d) \<longleftrightarrow> i < ?k" .
    then show "(if row_of d i + unat rows < unat (height d) then pix ?b m (i + unat rows * unat (width d)) else color_data c) =
        (if ?k \<le> i \<and> i < ?k + unat ?o then color_data c else pix ?b ?m i)"
      using p i lt by (simp add: paints_def src)
  qed
qed

lemma paints_flip:
  assumes ok: "display_ok d" and apart: "\<And>a. in_pixels (offscreen d) (unat (disp_size d)) a \<Longrightarrow> \<not> in_pixels (onscreen d) (unat (disp_size d)) a"
  shows "paints (onscreen d) (unat (disp_size d)) m (display_flip d m) (pix (offscreen d) m)"
proof -
  let ?n = "unat (disp_size d)"
  have n4: "4 * ?n < 2 ^ 32" using ok unfolding display_ok_def by blast
  have len: "unat (disp_size d * 4) = 4 * ?n" using unat_pixels[OF n4] by simp
  have "offscreen d + i \<noteq> onscreen d + j" if "i < disp_size d * 4" "j < disp_size d * 4" for i j
  proof
    assume eq: "offscreen d + i = onscreen d + j"
    have "in_pixels (offscreen d) ?n (offscreen d + i)" "in_pixels (onscreen d) ?n (onscreen d + j)"
      using that len by (simp_all only: in_pixels_def word_less_nat_alt add_diff_cancel_left')
    then show False using apart[of "offscreen d + i"] eq by simp
  qed
  then have "display_flip d m = copied m (onscreen d) (offscreen d) (of_nat ?n * 4)"
    unfolding display_flip_def fast_copy_def by (subst memcpy_eq) simp_all
  moreover have "paints (onscreen d) ?n m (copied m (onscreen d) (offscreen d) (of_nat ?n * 4))
      (\<lambda>i. if i < ?n then pix (offscreen d) m i else pix (onscreen d) m i)"
    by (rule paints_copied[OF order.refl n4])
  ultimately show ?thesis by (simp add: paints_def)
qed

section \<open>Properties\<close>

text \<open>
  C24. Drawing does what it says and stays inside the off-screen buffer. On a display whose pixels fit the address space,
  and for corners that do not wrap around, the buffer afterwards is the one the operation describes, pixel by
  pixel, and no byte outside the buffer has changed: \<^verbatim>\<open>set\<close> fills it, \<^verbatim>\<open>scroll\<close> moves the rows up
  and fills the freed ones, \<^verbatim>\<open>char\<close> draws the set bits of the glyph, and \<^verbatim>\<open>rect\<close> fills the part of the
  rectangle on the screen, but never the last row and the last column.
\<close>

theorem display_draws:
  assumes "display_ok d" and "unat x + unat w < 2 ^ 32" and "unat y + unat h < 2 ^ 32"
    and "unat x + 8 < 2 ^ 32" and "unat y + 16 < 2 ^ 32" and "0 < rows" and "rows < height d"
  shows "paints_display d m (display_set d c m) (\<lambda>i. color_data c)
    \<and> paints_display d m (display_scroll d rows c m)
      (\<lambda>i. if row_of d i + unat rows < unat (height d) then pix (offscreen d) m (i + unat rows * unat (width d))
           else color_data c)
    \<and> paints_display d m (display_char font d x y ch c m)
      (\<lambda>i. if unat x + 8 \<le> unat (width d) \<and> unat y + 16 \<le> unat (height d)
             \<and> unat x \<le> col_of d i \<and> col_of d i < unat x + 8 \<and> unat y \<le> row_of d i \<and> row_of d i < unat y + 16
             \<and> bit (font (16 * unat ch + (row_of d i - unat y))) (7 - (col_of d i - unat x))
           then color_data c else pix (offscreen d) m i)
    \<and> paints_display d m (display_rect d x y w h c m)
      (\<lambda>i. if unat x \<le> col_of d i \<and> col_of d i < unat x + unat w \<and> col_of d i + 1 < unat (width d)
             \<and> unat y \<le> row_of d i \<and> row_of d i < unat y + unat h \<and> row_of d i + 1 < unat (height d)
           then color_data c else pix (offscreen d) m i)"
  using paints_set[OF assms(1)] paints_scroll[OF assms(1,6,7)] paints_char[OF assms(1,4,5)] paints_rect[OF assms(1-3)]
  by blast

definition demo_display :: Display where
  "demo_display = \<lparr>offscreen = 0x1000000, onscreen = 0xE0000000, disp_size = 307200, width = 640, height = 480\<rparr>"

lemma demo_display_ok: "display_ok demo_display"
  by (simp add: display_ok_def demo_display_def)

theorem display_draws_witness:
  "pix 0x1000000 (display_rect demo_display 632 0 8 16 (color_new 0xFF 0 0) (\<lambda>_. 0)) 638 = 0xFFFF0000
   \<and> pix 0x1000000 (display_rect demo_display 632 0 8 16 (color_new 0xFF 0 0) (\<lambda>_. 0)) 639 = 0"
proof -
  have "paints_display demo_display (\<lambda>_. 0) (display_rect demo_display 632 0 8 16 (color_new 0xFF 0 0) (\<lambda>_. 0))
      (\<lambda>i. if unat (632 :: usize) \<le> col_of demo_display i \<and> col_of demo_display i < unat (632 :: usize) + unat (8 :: usize)
             \<and> col_of demo_display i + 1 < unat (width demo_display)
             \<and> unat (0 :: usize) \<le> row_of demo_display i \<and> row_of demo_display i < unat (0 :: usize) + unat (16 :: usize)
             \<and> row_of demo_display i + 1 < unat (height demo_display)
           then color_data (color_new 0xFF 0 0) else pix (offscreen demo_display) (\<lambda>_. 0) i)"
    using display_draws[OF demo_display_ok, of 632 8 0 16 1] by (simp add: demo_display_def)
  then have p: "pix 0x1000000 (display_rect demo_display 632 0 8 16 (color_new 0xFF 0 0) (\<lambda>_. 0)) i =
      (if 632 \<le> i mod 640 \<and> i mod 640 + 1 < 640 \<and> i div 640 < 16 then 0xFFFF0000 else pix 0x1000000 (\<lambda>_. 0) i)"
    if "i < 307200" for i
    using that by (auto simp: paints_def demo_display_def color_new_def)
  have "pix 0x1000000 (\<lambda>_. 0) i = 0" for i by (simp add: pix_def read_usize_def)
  then show ?thesis using p[of 638] p[of 639] by simp
qed

end
