(* ===== verification/Console.thy ===== *)
theory Console
  imports Display Resource Sync Event
begin

text \<open>
  The kernel's console (\<^verbatim>\<open>kernel/env/console.rs\<close>) and the debug scheme in front of it
  (\<^verbatim>\<open>kernel/schemes/debug.rs\<close>): escape sequences, the cursor, drawing on the display and on the
  serial port, and the line editing of keyboard events. The ready flag of the serial port is polled by the code
  until the device sets it; here every byte goes out at once. A Rust \<^verbatim>\<open>char\<close> is its code point. The
  strings of an escape sequence are built from digits only, so parsing them has no sign to consider.
\<close>

section \<open>Colours and parameters\<close>

definition convert :: "u8 \<Rightarrow> u8" where
  "convert value = (if value = 0 then 0 else value * 0x28 + 0x28)"

definition ansi_table :: "(u8 \<times> u8 \<times> u8) list" where
  "ansi_table =
     [(0x00, 0x00, 0x00), (0x80, 0x00, 0x00), (0x00, 0x80, 0x00), (0x80, 0x80, 0x00),
      (0x00, 0x00, 0x80), (0x80, 0x00, 0x80), (0x00, 0x80, 0x80), (0xc0, 0xc0, 0xc0),
      (0x80, 0x80, 0x80), (0xff, 0x00, 0x00), (0x00, 0xff, 0x00), (0xff, 0xff, 0x00),
      (0x00, 0x00, 0xff), (0xff, 0x00, 0xff), (0x00, 0xff, 0xff), (0xff, 0xff, 0xff)]"

definition ansi_color :: "u8 \<Rightarrow> Color" where
  "ansi_color value =
     (if value < 16 then (case ansi_table ! unat value of (r, g, b) \<Rightarrow> color_new r g b)
      else if value \<le> 231 then
        color_new (convert ((value - 16) div 36 mod 6)) (convert ((value - 16) div 6 mod 6)) (convert ((value - 16) mod 6))
      else (let gray = (value - 232) * 10 + 8 in color_new gray gray gray))"

definition is_digit_char :: "rchar \<Rightarrow> bool" where
  "is_digit_char c \<longleftrightarrow> 0x30 \<le> c \<and> c \<le> 0x39"

text \<open>\<^verbatim>\<open>parse\<close> for an integer type with the given maximum; absent on an empty string or an overflow.\<close>

definition digits_value :: "rchar list \<Rightarrow> nat" where
  "digits_value s = foldl (\<lambda>n c. 10 * n + unat (c - 0x30)) 0 s"

definition parse_max :: "nat \<Rightarrow> rchar list \<Rightarrow> nat option" where
  "parse_max lim s = (if s \<noteq> [] \<and> list_all is_digit_char s \<and> digits_value s \<le> lim then Some (digits_value s) else None)"

definition unwrap_or :: "'a option \<Rightarrow> 'a \<Rightarrow> 'a" where
  "unwrap_or r d = (case r of None \<Rightarrow> d | Some v \<Rightarrow> v)"

definition parse_u8 :: "rchar list \<Rightarrow> u8" where
  "parse_u8 s = of_nat (unwrap_or (parse_max 255 s) 0)"

definition parse_usize :: "rchar list \<Rightarrow> nat" where
  "parse_usize s = unwrap_or (parse_max (2 ^ 32 - 1) s) 0"

definition parse_isize :: "rchar list \<Rightarrow> nat" where
  "parse_isize s = unwrap_or (parse_max (2 ^ 31 - 1) s) 1"

text \<open>\<^verbatim>\<open>value_iter.next().map_or("", ..)\<close> and \<^verbatim>\<open>sequence.get(i).map_or("", ..)\<close>.\<close>

definition next_str :: "rchar list list \<Rightarrow> rchar list \<times> rchar list list" where
  "next_str vs = (case vs of [] \<Rightarrow> ([], []) | v # vs \<Rightarrow> (v, vs))"

definition get_str :: "rchar list list \<Rightarrow> nat \<Rightarrow> rchar list" where
  "get_str vs i = (if i < length vs then vs ! i else [])"

text \<open>The parameters after 38 and 48: a true colour or one of 256, and what is left of them.\<close>

definition extended_color :: "rchar list list \<Rightarrow> Color option \<times> rchar list list" where
  "extended_color vs =
     (let (mode, vs) = next_str vs in
      if parse_usize mode = 2 then
        (let (r, vs) = next_str vs; (g, vs) = next_str vs; (b, vs) = next_str vs
         in (Some (color_new (parse_u8 r) (parse_u8 g) (parse_u8 b)), vs))
      else if parse_usize mode = 5 then
        (let (v, vs) = next_str vs in (Some (ansi_color (parse_u8 v)), vs))
      else (None, vs))"

lemma length_next_str: "length (snd (next_str vs)) \<le> length vs"
  by (cases vs) (auto simp: next_str_def)

lemma length_extended_color: "length (snd (extended_color vs)) \<le> length vs"
  by (auto simp: extended_color_def Let_def next_str_def split: list.splits)

function attributes :: "rchar list list \<Rightarrow> Color \<times> Color \<Rightarrow> Color \<times> Color" where
  "attributes [] (fg, bg) = (fg, bg)"
| "attributes (value_str # vs) (fg, bg) =
     (let v = parse_u8 value_str in
      if v = 0 then attributes vs (ansi_color 7, ansi_color 0)
      else if 30 \<le> v \<and> v \<le> 37 then attributes vs (ansi_color (v - 30), bg)
      else if v = 38 then attributes (snd (extended_color vs)) (unwrap_or (fst (extended_color vs)) fg, bg)
      else if 40 \<le> v \<and> v \<le> 47 then attributes vs (fg, ansi_color (v - 40))
      else if v = 48 then attributes (snd (extended_color vs)) (fg, unwrap_or (fst (extended_color vs)) bg)
      else attributes vs (fg, bg))"
  by pat_completeness auto
termination
  by (relation "measure (\<lambda>(vs, _). length vs)") (auto simp: le_imp_less_Suc length_extended_color)

section \<open>The console\<close>

record Console =
  display :: "Display option"
  point_x :: usize
  point_y :: usize
  foreground :: Color
  background :: Color
  draw :: bool
  redraw :: bool
  command :: "rchar list"
  commands :: "rchar list WaitQueue"
  escape :: bool
  escape_sequence :: bool
  sequence :: "rchar list list"
  raw_mode :: bool

definition console_new :: "VBEModeInfo option \<Rightarrow> mem \<Rightarrow> Console \<times> mem" where
  "console_new vbe m =
     (let (d, m) = display_root vbe m
      in (\<lparr>display = d, point_x = 0, point_y = 0, foreground = ansi_color 7, background = ansi_color 0, draw = False,
           redraw = True, command = [], commands = queue_new, escape = False, escape_sequence = False, sequence = [],
           raw_mode = False\<rparr>, m))"

definition on_display :: "Console \<Rightarrow> (Display \<Rightarrow> mem \<Rightarrow> mem) \<Rightarrow> mem \<Rightarrow> mem" where
  "on_display c f m = (case display c of Some d \<Rightarrow> f d m | None \<Rightarrow> m)"

text \<open>The cell under the cursor in one colour.\<close>

definition fill_cell :: "Console \<Rightarrow> Color \<Rightarrow> mem \<Rightarrow> mem" where
  "fill_cell c color = on_display c (\<lambda>d. display_rect d (point_x c) (point_y c) 8 16 color)"

text \<open>The commands inside a control sequence, without the reset at its end.\<close>

definition sequence_code :: "rchar \<Rightarrow> Console \<Rightarrow> mem \<Rightarrow> Console \<times> mem" where
  "sequence_code ch c m =
     (if 0x30 \<le> ch \<and> ch \<le> 0x39 then
        (if sequence c \<noteq> [] then c\<lparr>sequence := butlast (sequence c) @ [last (sequence c) @ [ch]]\<rparr> else c, m)
      else if ch = 0x3B then (c\<lparr>sequence := sequence c @ [[]]\<rparr>, m)
      else if ch = 0x6D then
        (let (fg, bg) = attributes (sequence c) (foreground c, background c)
         in (c\<lparr>foreground := fg, background := bg, escape_sequence := False\<rparr>, m))
      else if ch = 0x4A then
        (if parse_usize (get_str (sequence c) 0) = 2
         then (c\<lparr>point_x := 0, point_y := 0, redraw := True, escape_sequence := False\<rparr>,
               on_display c (\<lambda>d. display_set d (background c)) m)
         else (c\<lparr>escape_sequence := False\<rparr>, m))
      else if ch = 0x48 \<or> ch = 0x66 then
        (let m = fill_cell c (background c) m;
             row = parse_isize (get_str (sequence c) 0);
             col = parse_isize (get_str (sequence c) 1);
             c = c\<lparr>point_y := of_nat (row - 1) * 16, point_x := of_nat (col - 1) * 8, redraw := True, escape_sequence := False\<rparr>
         in (c, fill_cell c (foreground c) m))
      else if ch = 0x72 then (c\<lparr>raw_mode := True, escape_sequence := False\<rparr>, m)
      else if ch = 0x52 then (c\<lparr>raw_mode := False, escape_sequence := False\<rparr>, m)
      else (c\<lparr>escape_sequence := False\<rparr>, m))"

definition console_code :: "rchar \<Rightarrow> Console \<Rightarrow> mem \<Rightarrow> Console \<times> mem" where
  "console_code ch c m =
     (if escape_sequence c then
        (let (c, m) = sequence_code ch c m
         in (if \<not> escape_sequence c then c\<lparr>sequence := [], escape := False\<rparr> else c, m))
      else if ch = 0x5B then (c\<lparr>escape_sequence := True, sequence := sequence c @ [[]]\<rparr>, m)
      else if ch = 0x63 then
        (let c = c\<lparr>point_x := 0, point_y := 0, raw_mode := False, foreground := ansi_color 7, background := ansi_color 0\<rparr>
         in (c\<lparr>redraw := True, escape := False\<rparr>, on_display c (\<lambda>d. display_set d (background c)) m))
      else (c\<lparr>escape := False\<rparr>, m))"

text \<open>The scrolling loop of \<^verbatim>\<open>character\<close>; not returning is \<^term>\<open>None\<close>.\<close>

partial_function (option) scroll_loop ::
  "Display option \<Rightarrow> Color \<Rightarrow> usize \<Rightarrow> usize \<Rightarrow> mem \<Rightarrow> (usize \<times> mem) option" where
  "scroll_loop disp color h y m =
     (if y + 16 > h
      then scroll_loop disp color h (y - 16) (case disp of Some d \<Rightarrow> display_scroll d 16 color m | None \<Rightarrow> m)
      else Some (y, m))"

definition extent :: "Console \<Rightarrow> usize \<times> usize" where
  "extent c = (case display c of Some d \<Rightarrow> (width d, height d) | None \<Rightarrow> (80, 30))"

definition put_char :: "(nat \<Rightarrow> u8) \<Rightarrow> rchar \<Rightarrow> Console \<Rightarrow> mem \<Rightarrow> Console \<times> mem" where
  "put_char font ch c m =
     (if ch = 0 then (c, m)
      else if ch = 0x1B then (c\<lparr>escape := True\<rparr>, m)
      else if ch = 0x0A then (c\<lparr>point_x := 0, point_y := point_y c + 16, redraw := True\<rparr>, m)
      else if ch = 0x09 then (c\<lparr>point_x := (point_x c div 64 + 1) * 64\<rparr>, m)
      else if ch = 0x0D then (c\<lparr>point_x := 0\<rparr>, m)
      else if ch = 0x08 then
        (let c = (if point_x c \<ge> 8 then c\<lparr>point_x := point_x c - 8\<rparr> else c) in (c, fill_cell c (background c) m))
      else (c\<lparr>point_x := point_x c + 8\<rparr>,
            on_display c (\<lambda>d. display_char font d (point_x c) (point_y c) (ucast ch) (foreground c)) m))"

definition console_character :: "(nat \<Rightarrow> u8) \<Rightarrow> rchar \<Rightarrow> Console \<Rightarrow> mem \<Rightarrow> (Console \<times> mem) option" where
  "console_character font ch c m =
     (let (w, h) = extent c;
          m = fill_cell c (background c) m;
          (c, m) = put_char font ch c m;
          c = (if point_x c \<ge> w then c\<lparr>point_x := 0, point_y := point_y c + 16\<rparr> else c)
      in case scroll_loop (display c) (background c) h (point_y c) m of
           None \<Rightarrow> None
         | Some (y, m) \<Rightarrow> (let c = c\<lparr>point_y := y\<rparr> in Some (c, fill_cell c (foreground c) m)))"

text \<open>The console with the machine around it: the kernel, with its memory, and what went to the serial port.\<close>

record 'r Term =
  con :: Console
  tk :: "'r Kernel"
  serial :: "u8 list"

definition serial_echo :: "u8 \<Rightarrow> u8 list" where
  "serial_echo b = (if b = 8 then [8, 0x20, 8] else [b])"

definition console_byte :: "(nat \<Rightarrow> u8) \<Rightarrow> u8 \<Rightarrow> 'r Term \<Rightarrow> 'r Term option" where
  "console_byte font b t =
     map_option (\<lambda>(c, m). t\<lparr>con := c, tk := (tk t)\<lparr>kmem := m\<rparr>, serial := serial t @ serial_echo b\<rparr>)
       (if escape (con t) then Some (console_code (ucast b) (con t) (kmem (tk t)))
        else console_character font (ucast b) (con t) (kmem (tk t)))"

fun console_bytes :: "(nat \<Rightarrow> u8) \<Rightarrow> u8 list \<Rightarrow> 'r Term \<Rightarrow> 'r Term option" where
  "console_bytes font [] t = Some t"
| "console_bytes font (b # bs) t = Option.bind (console_byte font b t) (console_bytes font bs)"

definition console_flush :: "'r Term \<Rightarrow> 'r Term" where
  "console_flush t =
     (if draw (con t) \<and> redraw (con t)
      then t\<lparr>con := (con t)\<lparr>redraw := False\<rparr>, tk := (tk t)\<lparr>kmem := on_display (con t) display_flip (kmem (tk t))\<rparr>\<rparr>
      else t)"

definition console_write :: "(nat \<Rightarrow> u8) \<Rightarrow> u8 list \<Rightarrow> 'r Term \<Rightarrow> 'r Term option" where
  "console_write font bs t = map_option console_flush (console_bytes font bs t)"

text \<open>Keyboard events. A finished command goes to whoever waits for one.\<close>

definition send_command :: "'r Term \<Rightarrow> 'r Term" where
  "send_command t =
     (let (q, k) = queue_send (command (con t)) (commands (con t)) (tk t)
      in t\<lparr>con := (con t)\<lparr>command := [], commands := q\<rparr>, tk := k\<rparr>)"

definition push_command :: "rchar list \<Rightarrow> 'r Term \<Rightarrow> 'r Term" where
  "push_command s t = t\<lparr>con := (con t)\<lparr>command := command (con t) @ s\<rparr>\<rparr>"

definition raw_key :: "KeyEvent \<Rightarrow> rchar list" where
  "raw_key e =
     (if key_scancode e = K_BKSP then [8]
      else if key_scancode e = K_UP then [0x1B, 0x5B, 0x41]
      else if key_scancode e = K_DOWN then [0x1B, 0x5B, 0x42]
      else if key_scancode e = K_RIGHT then [0x1B, 0x5B, 0x43]
      else if key_scancode e = K_LEFT then [0x1B, 0x5B, 0x44]
      else if key_character e = 0 then [] else [key_character e])"

definition set_redraw :: "'r Term \<Rightarrow> 'r Term" where
  "set_redraw t = t\<lparr>con := (con t)\<lparr>redraw := True\<rparr>\<rparr>"

definition console_key :: "(nat \<Rightarrow> u8) \<Rightarrow> KeyEvent \<Rightarrow> 'r Term \<Rightarrow> 'r Term option" where
  "console_key font e t =
     (if raw_mode (con t) then
        (let t = push_command (raw_key e) t in Some (if command (con t) \<noteq> [] then send_command t else t))
      else if key_scancode e = K_BKSP then
        (if command (con t) \<noteq> [] then
           map_option (\<lambda>t. t\<lparr>con := (con t)\<lparr>command := butlast (command (con t))\<rparr>\<rparr>) (console_write font [8] (set_redraw t))
         else Some t)
      else if key_character e = 0 then Some t
      else map_option (\<lambda>t. let t = push_command [key_character e] t in if key_character e = 0x0A then send_command t else t)
             (console_write font [ucast (key_character e)] (set_redraw t)))"

definition console_event :: "(nat \<Rightarrow> u8) \<Rightarrow> Event \<Rightarrow> 'r Term \<Rightarrow> 'r Term option" where
  "console_event font ev t =
     (case event_to_option ev of Key e \<Rightarrow> if key_pressed e then console_key font e t else Some t | _ \<Rightarrow> Some t)"

section \<open>The debug scheme\<close>

text \<open>A resource keeps the bytes of the command it is reading; \<^verbatim>\<open>String\<close> is UTF-8.\<close>

definition utf8 :: "rchar \<Rightarrow> u8 list" where
  "utf8 c =
     (if c < 0x80 then [ucast c]
      else if c < 0x800 then [0xC0 OR ucast (drop_bit 6 c), 0x80 OR (ucast c AND 0x3F)]
      else if c < 0x10000 then
        [0xE0 OR ucast (drop_bit 12 c), 0x80 OR (ucast (drop_bit 6 c) AND 0x3F), 0x80 OR (ucast c AND 0x3F)]
      else [0xF0 OR ucast (drop_bit 18 c), 0x80 OR (ucast (drop_bit 12 c) AND 0x3F),
            0x80 OR (ucast (drop_bit 6 c) AND 0x3F), 0x80 OR (ucast c AND 0x3F)])"

definition debug_open :: "u8 list" where
  "debug_open = []"

fun debug_loop :: "u8 list \<Rightarrow> u8 list \<Rightarrow> nat \<times> u8 list \<times> u8 list" where
  "debug_loop [] cmd = (0, [], cmd)"
| "debug_loop (b # buf) [] = (0, b # buf, [])"
| "debug_loop (b # buf) (x # cmd) = (let (i, buf, cmd) = debug_loop buf cmd in (i + 1, x # buf, cmd))"

text \<open>One attempt to read; \<^term>\<open>None\<close> when the reader waits for a command.\<close>

definition debug_read :: "u8 list \<Rightarrow> u8 list \<Rightarrow> 'r Term \<Rightarrow> (nat result \<times> u8 list) option \<times> u8 list \<times> 'r Term" where
  "debug_read buf cmd t =
     (let (got, cmd, t) =
        (if cmd = [] then
           (let (v, q, k) = queue_receive (commands (con t)) (tk t);
                t = t\<lparr>con := (con t)\<lparr>commands := q\<rparr>, tk := k\<rparr>
            in case v of None \<Rightarrow> (False, [], t) | Some s \<Rightarrow> (True, concat (map utf8 s), t))
         else (True, cmd, t))
      in if got then (let (i, buf, cmd) = debug_loop buf cmd in (Some (Ok i, buf), cmd, t)) else (None, [], t))"

definition debug_write :: "(nat \<Rightarrow> u8) \<Rightarrow> u8 list \<Rightarrow> 'r Term \<Rightarrow> (nat result \<times> 'r Term) option" where
  "debug_write font buf t = map_option (\<lambda>t. (Ok (length buf), t)) (console_write font buf t)"

definition debug_sync :: "(nat \<Rightarrow> u8) \<Rightarrow> 'r Term \<Rightarrow> (unit result \<times> 'r Term) option" where
  "debug_sync font t = map_option (\<lambda>t. (Ok (), t)) (console_write font [] (set_redraw t))"

section \<open>Well-formed consoles\<close>

text \<open>
  Between bytes, the console is inside a control sequence only after an escape, it then has at least one parameter, the
  parameters are strings of digits, and outside there are none. The display, if there is one, has room for a row of text.
\<close>

definition console_wf :: "Console \<Rightarrow> bool" where
  "console_wf c \<longleftrightarrow> (if escape_sequence c then escape c \<and> sequence c \<noteq> [] else sequence c = [])
     \<and> list_all (list_all is_digit_char) (sequence c) \<and> 16 \<le> snd (extent c)"

lemma extent_sequence_code [simp]: "display (fst (sequence_code ch c m)) = display c"
  by (auto simp: sequence_code_def Let_def split: prod.split)

lemma extent_code [simp]: "display (fst (console_code ch c m)) = display c"
  by (simp add: console_code_def Let_def split_beta)

lemma sequence_code_wf:
  assumes "console_wf c" and "escape_sequence c"
  shows "escape (fst (sequence_code ch c m)) \<and>
    (escape_sequence (fst (sequence_code ch c m)) \<longrightarrow>
       sequence (fst (sequence_code ch c m)) \<noteq> [] \<and> list_all (list_all is_digit_char) (sequence (fst (sequence_code ch c m))))"
proof -
  obtain vs v where "sequence c = vs @ [v]" using assms by (metis append_butlast_last_id console_wf_def)
  then show ?thesis using assms
    by (auto simp: sequence_code_def console_wf_def is_digit_char_def Let_def split: prod.split)
qed

lemma console_code_wf:
  assumes "console_wf c" and "escape c"
  shows "console_wf (fst (console_code ch c m))"
proof -
  obtain c' m' where s: "sequence_code ch c m = (c', m')" by fastforce
  have "display c' = display c" using extent_sequence_code[of ch c m] s by simp
  with sequence_code_wf[of c ch m] assms s show ?thesis
    by (auto simp: console_code_def console_wf_def extent_def Let_def)
qed

lemma put_char_wf:
  assumes "console_wf c" and "\<not> escape c"
  shows "console_wf (fst (put_char font ch c m))" and "display (fst (put_char font ch c m)) = display c"
  using assms by (auto simp: put_char_def console_wf_def extent_def Let_def)

lemma scroll_loop_stop: "y + 16 \<le> h \<Longrightarrow> scroll_loop disp color h y m = Some (y, m)"
  by (subst scroll_loop.simps) (auto dest: leD)

text \<open>The loop ends wherever the cursor is: below 16 the subtraction wraps to a value whose sum with 16 is small again.\<close>

lemma scroll_loop_returns:
  assumes "16 \<le> h"
  shows "\<exists>r. scroll_loop disp color h y m = Some r"
proof (induction "unat y" arbitrary: y m rule: less_induct)
  case less
  let ?m = "case disp of Some d \<Rightarrow> display_scroll d 16 color m | None \<Rightarrow> m"
  show ?case
  proof (cases "y + 16 > h")
    case True
    have "\<exists>r. scroll_loop disp color h (y - 16) ?m = Some r"
    proof (cases "16 \<le> y")
      case True
      then have "unat (y - 16) < unat y" by (simp add: unat_diff_wrap word_le_nat_alt)
      then show ?thesis by (rule less)
    next
      case False
      then have "(y - 16) + 16 \<le> h" using assms by simp
      then show ?thesis using scroll_loop_stop by blast
    qed
    then show ?thesis using True by (subst scroll_loop.simps) simp
  next
    case False
    then show ?thesis using scroll_loop_stop[of y h] by (simp add: not_less)
  qed
qed

lemma console_character_total:
  assumes "console_wf c" and "\<not> escape c"
  shows "\<exists>c' m'. console_character font ch c m = Some (c', m') \<and> console_wf c' \<and> display c' = display c"
proof -
  obtain c1 m1 where p: "put_char font ch c (fill_cell c (background c) m) = (c1, m1)" by fastforce
  obtain w h where e: "extent c = (w, h)" by fastforce
  have c1: "console_wf c1" "display c1 = display c"
    using put_char_wf[OF assms, of font ch "fill_cell c (background c) m"] p by simp_all
  have h: "16 \<le> h" using assms(1) e by (simp add: console_wf_def)
  define c2 where "c2 = (if w \<le> point_x c1 then c1\<lparr>point_x := 0, point_y := point_y c1 + 16\<rparr> else c1)"
  obtain y m2 where l: "scroll_loop (display c2) (background c2) h (point_y c2) m1 = Some (y, m2)"
    using scroll_loop_returns[OF h] by (metis surj_pair)
  have "console_character font ch c m = Some (c2\<lparr>point_y := y\<rparr>, fill_cell (c2\<lparr>point_y := y\<rparr>) (foreground c2) m2)"
    using l by (simp add: console_character_def e p c2_def Let_def)
  moreover have "console_wf (c2\<lparr>point_y := y\<rparr>) \<and> display (c2\<lparr>point_y := y\<rparr>) = display c"
    using c1 by (auto simp: c2_def console_wf_def extent_def)
  ultimately show ?thesis by blast
qed

lemma console_byte_total:
  assumes "console_wf (con t)"
  shows "\<exists>t'. console_byte font b t = Some t' \<and> console_wf (con t') \<and> display (con t') = display (con t)"
proof (cases "escape (con t)")
  case True
  then show ?thesis
    using console_code_wf[OF assms True] by (auto simp: console_byte_def split: prod.split) (metis fst_conv extent_code)+
next
  case False
  then show ?thesis using console_character_total[OF assms False] by (fastforce simp: console_byte_def)
qed

lemma console_bytes_total:
  "console_wf (con t) \<Longrightarrow>
   \<exists>t'. console_bytes font bs t = Some t' \<and> console_wf (con t') \<and> display (con t') = display (con t)"
proof (induction bs arbitrary: t)
  case (Cons b bs)
  obtain t1 where "console_byte font b t = Some t1" "console_wf (con t1)" "display (con t1) = display (con t)"
    using console_byte_total[OF Cons.prems] by blast
  then show ?case using Cons.IH[of t1] by simp
qed simp

lemma console_flush_wf: "console_wf (con t) \<Longrightarrow> console_wf (con (console_flush t))"
  by (simp add: console_flush_def console_wf_def extent_def)

lemma console_write_total:
  assumes "console_wf (con t)"
  shows "\<exists>t'. console_write font bs t = Some t' \<and> console_wf (con t') \<and> display (con t') = display (con t)"
proof -
  obtain t1 where "console_bytes font bs t = Some t1" "console_wf (con t1)" "display (con t1) = display (con t)"
    using console_bytes_total[OF assms] by blast
  then show ?thesis using console_flush_wf[of t1] by (simp add: console_write_def console_flush_def)
qed

section \<open>The cursor stays on the screen\<close>

definition on_screen :: "Console \<Rightarrow> bool" where
  "on_screen c \<longleftrightarrow> (case display c of Some d \<Rightarrow> display_ok d | None \<Rightarrow> True)
     \<and> unat (point_x c) < unat (fst (extent c)) \<and> unat (point_y c) + 16 \<le> unat (snd (extent c))"

text \<open>From \<^term>\<open>m\<close> to \<^term>\<open>m'\<close> nothing but the off-screen buffer changed.\<close>

definition outside_same :: "Display option \<Rightarrow> mem \<Rightarrow> mem \<Rightarrow> bool" where
  "outside_same disp m m' \<longleftrightarrow>
     (\<forall>a. (case disp of Some d \<Rightarrow> \<not> in_pixels (offscreen d) (unat (disp_size d)) a | None \<Rightarrow> True) \<longrightarrow> m' a = m a)"

lemma outside_refl [simp]: "outside_same disp m m"
  by (simp add: outside_same_def)

lemma outside_trans: "outside_same disp m m1 \<Longrightarrow> outside_same disp m1 m2 \<Longrightarrow> outside_same disp m m2"
  by (simp add: outside_same_def)

lemma outside_paints: "paints_display d m m' f \<Longrightarrow> outside_same (Some d) m m'"
  by (simp add: outside_same_def paints_def)

lemma two_pow_32: "(2 :: nat) ^ 32 = 4294967296"
  by simp

lemma small_width:
  assumes "display_ok d" and "16 \<le> unat (height d)"
  shows "unat (width d) + 16 < 2 ^ 32"
proof -
  have "unat (width d) * 16 \<le> unat (width d) * unat (height d)" using assms(2) by simp
  moreover have "4 * (unat (width d) * unat (height d)) < 2 ^ 32" using assms(1) unfolding display_ok_def by metis
  ultimately show ?thesis using two_pow_32 by linarith
qed

lemma on_screen_room:
  assumes "on_screen c" and "display c = Some d"
  shows "display_ok d" and "unat (point_x c) + 8 < 2 ^ 32" and "unat (point_y c) + 16 < 2 ^ 32"
    and "unat (point_x c) < unat (width d)" and "unat (point_y c) + 16 \<le> unat (height d)"
proof -
  show ok: "display_ok d" and x: "unat (point_x c) < unat (width d)" and y: "unat (point_y c) + 16 \<le> unat (height d)"
    using assms by (simp_all add: on_screen_def extent_def)
  show "unat (point_x c) + 8 < 2 ^ 32" using small_width[OF ok] x y by linarith
  have "unat (disp_size d) = unat (width d) * unat (height d)" "4 * unat (disp_size d) < 2 ^ 32"
    using ok unfolding display_ok_def by blast+
  moreover have "unat (height d) \<le> unat (width d) * unat (height d)" using x by simp
  ultimately show "unat (point_y c) + 16 < 2 ^ 32" using y by linarith
qed

lemma paints_fill_cell:
  assumes "on_screen c" and "display c = Some d"
  shows "paints_display d m (fill_cell c color m)
    (\<lambda>i. if unat (point_x c) \<le> col_of d i \<and> col_of d i < unat (point_x c) + 8 \<and> col_of d i + 1 < unat (width d)
           \<and> unat (point_y c) \<le> row_of d i \<and> row_of d i < unat (point_y c) + 16 \<and> row_of d i + 1 < unat (height d)
         then color_data color else pix (offscreen d) m i)"
proof -
  note r = on_screen_room[OF assms]
  have "unat (point_x c) + unat (8 :: usize) < 2 ^ 32" "unat (point_y c) + unat (16 :: usize) < 2 ^ 32"
    using r(2,3) by simp_all
  from paints_rect[OF r(1) this, of m color] show ?thesis by (simp add: fill_cell_def on_display_def assms(2))
qed

lemma outside_fill_cell: "on_screen c \<Longrightarrow> outside_same (display c) m (fill_cell c color m)"
  using outside_paints[OF paints_fill_cell[of c]] by (cases "display c") (simp_all add: fill_cell_def on_display_def)

lemma put_char_on_screen:
  assumes "on_screen c" and "put_char font ch c m = (c', m')"
  shows "outside_same (display c) m m'" and "display c' = display c"
    and "point_y c' = point_y c \<or> point_y c' = point_y c + 16 \<and> point_x c' = 0" and "escape c' \<longleftrightarrow> escape c \<or> ch = 0x1B"
proof -
  let ?b = "if point_x c \<ge> 8 then c\<lparr>point_x := point_x c - 8\<rparr> else c"
  have "on_screen ?b"
    using assms(1) by (auto simp: on_screen_def extent_def unat_diff_wrap word_le_nat_alt)
  then have erased: "outside_same (display c) m (fill_cell ?b (background ?b) m)"
    using outside_fill_cell[of ?b m] by (simp split: if_splits)
  have "outside_same (display c) m (on_display c (\<lambda>d. display_char font d (point_x c) (point_y c) (ucast ch) (foreground c)) m)"
  proof (cases "display c")
    case (Some d)
    note r = on_screen_room[OF assms(1) Some]
    show ?thesis using outside_paints[OF paints_char[OF r(1-3)]] by (simp add: on_display_def Some)
  qed (simp add: on_display_def)
  then show "outside_same (display c) m m'" and "display c' = display c"
    and "point_y c' = point_y c \<or> point_y c' = point_y c + 16 \<and> point_x c' = 0" and "escape c' \<longleftrightarrow> escape c \<or> ch = 0x1B"
    using assms(2) erased by (auto simp: put_char_def Let_def split: if_splits)
qed

text \<open>At most one row is scrolled away by a character.\<close>

lemma scroll_loop_once:
  assumes h: "unat h + 16 < 2 ^ 32" and y0: "unat y0 + 16 \<le> unat h" and "y = y0 \<or> y = y0 + 16"
    and d: "\<And>d. disp = Some d \<Longrightarrow> display_ok d \<and> height d = h"
  shows "\<exists>y' m'. scroll_loop disp color h y m = Some (y', m') \<and> unat y' + 16 \<le> unat h \<and> outside_same disp m m'"
proof -
  let ?m = "case disp of Some d \<Rightarrow> display_scroll d 16 color m | None \<Rightarrow> m"
  have u: "unat (y0 + 16) = unat y0 + 16" using h y0 by (subst unat_add_lt) simp_all
  have le0: "y0 + 16 \<le> h" using y0 u by (simp add: word_le_nat_alt)
  have u2: "unat (y0 + 16 + 16) = unat y0 + 32" using h y0 u by (subst unat_add_lt) simp_all
  show ?thesis
  proof (cases "y = y0 + 16 \<and> h < y0 + 16 + 16")
    case True
    have "outside_same disp m ?m"
    proof (cases disp)
      case (Some x)
      show ?thesis
      proof (cases "16 < height x")
        case True
        then show ?thesis using outside_paints[OF paints_scroll[of x 16 m color]] d[OF Some] by (simp add: Some)
      qed (simp add: Some display_scroll_def)
    qed simp
    moreover have "scroll_loop disp color h y m = scroll_loop disp color h y0 ?m"
      using True by (subst scroll_loop.simps) simp
    ultimately show ?thesis using scroll_loop_stop[OF le0, of disp color ?m] y0 by simp
  next
    case False
    then have "y + 16 \<le> h \<and> unat y + 16 \<le> unat h"
      using assms(3) le0 y0 u u2 by (auto simp: not_less word_le_nat_alt)
    then show ?thesis using scroll_loop_stop[of y h disp color m] by simp
  qed
qed

lemma extent_room:
  assumes "on_screen c"
  shows "unat (snd (extent c)) + 16 < 2 ^ 32"
proof (cases "display c")
  case (Some d)
  note r = on_screen_room[OF assms Some]
  have "unat (disp_size d) = unat (width d) * unat (height d)" "4 * unat (disp_size d) < 2 ^ 32"
    using r(1) unfolding display_ok_def by blast+
  moreover have "unat (height d) \<le> unat (width d) * unat (height d)" using r(4) by simp
  ultimately have "unat (height d) + 16 < 2 ^ 32" using two_pow_32 by linarith
  then show ?thesis by (simp add: extent_def Some)
qed (simp add: extent_def)

lemma character_on_screen:
  assumes "on_screen c"
  shows "\<exists>c' m'. console_character font ch c m = Some (c', m') \<and> on_screen c' \<and> display c' = display c
    \<and> outside_same (display c) m m' \<and> (escape c' \<longleftrightarrow> escape c \<or> ch = 0x1B)"
proof -
  let ?m = "fill_cell c (background c) m"
  obtain c1 m1 where p: "put_char font ch c ?m = (c1, m1)" by fastforce
  obtain w h where e: "extent c = (w, h)" by fastforce
  note pc = put_char_on_screen[OF assms p]
  define c2 where "c2 = (if w \<le> point_x c1 then c1\<lparr>point_x := 0, point_y := point_y c1 + 16\<rparr> else c1)"
  have x: "unat (point_x c2) < unat w"
    using assms e by (auto simp: c2_def on_screen_def word_le_nat_alt)
  have w: "0 < w" using assms e by (auto simp: on_screen_def word_less_nat_alt)
  have y: "point_y c2 = point_y c \<or> point_y c2 = point_y c + 16"
    using pc(3) w by (auto simp: c2_def)
  have h: "unat h + 16 < 2 ^ 32" "unat (point_y c) + 16 \<le> unat h" using extent_room[OF assms] assms e by (simp_all add: on_screen_def)
  have d: "display c2 = display c" "escape c2 = escape c1" using pc(2) by (simp_all add: c2_def)
  have disp: "display_ok x \<and> height x = h" if "display c2 = Some x" for x
    using that assms e d by (simp add: on_screen_def extent_def)
  obtain y' m2 where l: "scroll_loop (display c2) (background c2) h (point_y c2) m1 = Some (y', m2)"
    and y': "unat y' + 16 \<le> unat h" and o2: "outside_same (display c) m1 m2"
    using scroll_loop_once[OF h y, of "display c2" "background c2" m1] disp d(1) by auto
  let ?c = "c2\<lparr>point_y := y'\<rparr>"
  have os: "on_screen ?c" using assms e x y' d(1) by (simp add: on_screen_def extent_def)
  have "console_character font ch c m = Some (?c, fill_cell ?c (foreground c2) m2)"
    using l by (simp add: console_character_def e p c2_def Let_def)
  moreover have "outside_same (display c) m (fill_cell ?c (foreground c2) m2)"
    using outside_trans[OF outside_trans[OF outside_trans[OF outside_fill_cell[OF assms] pc(1)] o2]]
      outside_fill_cell[OF os, of m2 "foreground c2"] d(1) by simp
  ultimately show ?thesis using os d pc(4) by auto
qed

lemma text_on_screen:
  assumes "on_screen (con t)" and "\<not> escape (con t)" and "0x1B \<notin> set bs"
  shows "\<exists>t'. console_bytes font bs t = Some t' \<and> on_screen (con t') \<and> \<not> escape (con t')
    \<and> display (con t') = display (con t) \<and> outside_same (display (con t)) (kmem (tk t)) (kmem (tk t'))
    \<and> serial t' = serial t @ concat (map serial_echo bs)"
  using assms
proof (induction bs arbitrary: t)
  case (Cons b bs)
  obtain c m where c: "console_character font (ucast b) (con t) (kmem (tk t)) = Some (c, m)" "on_screen c"
      "display c = display (con t)" "outside_same (display (con t)) (kmem (tk t)) m" "escape c \<longleftrightarrow> escape (con t) \<or> (ucast b :: rchar) = 0x1B"
    using character_on_screen[OF Cons.prems(1)] by blast
  let ?t = "t\<lparr>con := c, tk := (tk t)\<lparr>kmem := m\<rparr>, serial := serial t @ serial_echo b\<rparr>"
  have b: "console_byte font b t = Some ?t" using c(1) Cons.prems(2) by (simp add: console_byte_def)
  have "(ucast b :: rchar) = ucast (0x1B :: u8) \<longleftrightarrow> b = 0x1B" by (rule ucast_u8_u32_inject)
  then have ne: "\<not> escape c" using c(5) Cons.prems(2,3) by auto
  have "\<exists>t'. console_bytes font bs ?t = Some t' \<and> on_screen (con t') \<and> \<not> escape (con t')
    \<and> display (con t') = display (con ?t) \<and> outside_same (display (con ?t)) (kmem (tk ?t)) (kmem (tk t'))
    \<and> serial t' = serial ?t @ concat (map serial_echo bs)"
    by (rule Cons.IH) (use c(2) ne Cons.prems(3) in simp_all)
  then show ?case using b c(3) outside_trans[OF c(4)] by auto
qed simp

lemma flip_other:
  assumes "display_ok d" and "\<not> in_pixels (onscreen d) (unat (disp_size d)) a"
  shows "display_flip d m a = m a"
proof -
  have "4 * unat (disp_size d) < 2 ^ 32" using assms(1) unfolding display_ok_def by blast
  then have "unat (disp_size d * 4) = 4 * unat (disp_size d)" using unat_pixels[of "unat (disp_size d)"] by simp
  then have "\<not> a - onscreen d < disp_size d * 4" using assms(2) by (simp add: in_pixels_def word_less_nat_alt)
  then show ?thesis by (simp add: display_flip_def fast_copy_def memcpy_other)
qed

definition touches :: "Display option \<Rightarrow> usize \<Rightarrow> bool" where
  "touches disp a \<longleftrightarrow>
     (case disp of Some d \<Rightarrow> in_pixels (offscreen d) (unat (disp_size d)) a \<or> in_pixels (onscreen d) (unat (disp_size d)) a
      | None \<Rightarrow> False)"

lemma flush_other:
  assumes "on_screen (con t)" and "\<not> touches (display (con t)) a"
  shows "kmem (tk (console_flush t)) a = kmem (tk t) a"
proof (cases "display (con t)")
  case (Some d)
  then have "display_flip d m a = m a" for m
    using flip_other[of d a] on_screen_room(1)[OF assms(1) Some] assms(2) by (simp add: touches_def)
  then show ?thesis by (simp add: console_flush_def on_display_def Some)
qed (simp add: console_flush_def on_display_def)

section \<open>Line editing\<close>

text \<open>Text does not change what has been typed, the waiting commands or the mode.\<close>

lemma character_keeps:
  assumes "console_character font ch c m = Some (c', m')"
  shows "raw_mode c' = raw_mode c \<and> command c' = command c \<and> commands c' = commands c"
proof -
  obtain c1 m1 where p: "put_char font ch c (fill_cell c (background c) m) = (c1, m1)" by fastforce
  have "raw_mode c1 = raw_mode c \<and> command c1 = command c \<and> commands c1 = commands c"
    using p by (auto simp: put_char_def Let_def split: if_splits)
  then show ?thesis using assms p
    by (auto simp: console_character_def Let_def split: prod.splits option.splits if_splits)
qed

lemma write_char:
  assumes "on_screen (con t)" and "\<not> escape (con t)" and "b \<noteq> 0x1B"
  shows "\<exists>t'. console_write font [b] t = Some t' \<and> on_screen (con t') \<and> \<not> escape (con t') \<and> raw_mode (con t') = raw_mode (con t)
    \<and> command (con t') = command (con t) \<and> commands (con t') = commands (con t)"
proof -
  obtain c m where c: "console_character font (ucast b) (con t) (kmem (tk t)) = Some (c, m)" "on_screen c"
      "escape c \<longleftrightarrow> escape (con t) \<or> (ucast b :: rchar) = 0x1B"
    using character_on_screen[OF assms(1)] by blast
  have "(ucast b :: rchar) = ucast (0x1B :: u8) \<longleftrightarrow> b = 0x1B" by (rule ucast_u8_u32_inject)
  then have "\<not> escape c" using c(3) assms(2,3) by auto
  then show ?thesis using c(2) character_keeps[OF c(1)] assms(2)
    by (auto simp: console_write_def console_byte_def console_flush_def c(1) on_screen_def extent_def)
qed

text \<open>What the typed keys make of the line; the keys a line is typed with.\<close>

definition edit_key :: "KeyEvent \<Rightarrow> rchar list \<Rightarrow> rchar list" where
  "edit_key e line =
     (if key_scancode e = K_BKSP then butlast line else if key_character e = 0 then line else line @ [key_character e])"

definition line_key :: "KeyEvent \<Rightarrow> bool" where
  "line_key e \<longleftrightarrow> key_pressed e \<and> is_char (key_character e) \<and> key_character e \<noteq> 0x0A
     \<and> (ucast (key_character e) :: u8) \<noteq> 0x1B"

fun type_events :: "(nat \<Rightarrow> u8) \<Rightarrow> KeyEvent list \<Rightarrow> 'r Term \<Rightarrow> 'r Term option" where
  "type_events font [] t = Some t"
| "type_events font (e # es) t = Option.bind (console_event font (key_to_event e) t) (type_events font es)"

definition editing :: "'r Term \<Rightarrow> bool" where
  "editing t \<longleftrightarrow> on_screen (con t) \<and> \<not> escape (con t) \<and> \<not> raw_mode (con t)"

lemma editing_redraw: "editing (set_redraw t) \<longleftrightarrow> editing t"
  by (simp add: editing_def set_redraw_def on_screen_def extent_def)

lemma event_key: "is_char (key_character e) \<Longrightarrow> key_pressed e \<Longrightarrow> console_event font (key_to_event e) t = console_key font e t"
  using key_roundtrip[of e]
  by (simp add: console_event_def event_to_option_def) (simp add: key_to_event_def redox_consts)

lemma edit_one:
  assumes "editing t" and "line_key e"
  shows "\<exists>t'. console_event font (key_to_event e) t = Some t' \<and> editing t' \<and> command (con t') = edit_key e (command (con t))
    \<and> commands (con t') = commands (con t)"
proof -
  have k: "console_event font (key_to_event e) t = console_key font e t"
    using assms(2) by (simp add: event_key line_key_def)
  have w: "\<exists>t'. console_write font [b] (set_redraw t) = Some t' \<and> editing t' \<and> command (con t') = command (con t)
      \<and> commands (con t') = commands (con t)" if "b \<noteq> 0x1B" for b
    using write_char[of "set_redraw t" b font] that assms(1) editing_redraw[of t]
    by (auto simp: editing_def set_redraw_def)
  have raw: "\<not> raw_mode (con t)" using assms(1) by (simp add: editing_def)
  consider (bksp) "key_scancode e = K_BKSP" | (none) "key_scancode e \<noteq> K_BKSP" "key_character e = 0"
    | (char) "key_scancode e \<noteq> K_BKSP" "key_character e \<noteq> 0" by blast
  then show ?thesis
  proof cases
    case bksp
    from w[of 8] obtain t1 where "console_write font [8] (set_redraw t) = Some t1" "editing t1"
      "command (con t1) = command (con t)" "commands (con t1) = commands (con t)" by auto
    then show ?thesis using bksp raw assms(1)
      by (auto simp: k console_key_def edit_key_def editing_def on_screen_def extent_def)
  next
    case none
    then show ?thesis using raw assms(1) by (simp add: k console_key_def edit_key_def)
  next
    case char
    from w[of "ucast (key_character e)"] assms(2) obtain t1 where
      "console_write font [ucast (key_character e)] (set_redraw t) = Some t1" "editing t1"
      "command (con t1) = command (con t)" "commands (con t1) = commands (con t)" by (auto simp: line_key_def)
    then show ?thesis using char raw assms(2)
      by (auto simp: k console_key_def edit_key_def editing_def on_screen_def extent_def push_command_def line_key_def)
  qed
qed

lemma edit_line:
  "editing t \<Longrightarrow> list_all line_key es \<Longrightarrow>
   \<exists>t'. type_events font es t = Some t' \<and> editing t' \<and> command (con t') = fold edit_key es (command (con t))
     \<and> commands (con t') = commands (con t)"
proof (induction es arbitrary: t)
  case (Cons e es)
  from edit_one[OF Cons.prems(1), of e font] Cons.prems(2) obtain t1 where
    "console_event font (key_to_event e) t = Some t1" "editing t1" "command (con t1) = edit_key e (command (con t))"
    "commands (con t1) = commands (con t)" by auto
  then show ?case using Cons.IH[of t1] Cons.prems(2) by auto
qed simp

lemma type_events_append: "type_events font (es @ fs) t = Option.bind (type_events font es t) (type_events font fs)"
  by (induction es arbitrary: t) (auto simp: Option.bind_eq_Some_conv split: bind_splits)

lemma debug_loop_eq:
  "debug_loop buf cmd = (min (length buf) (length cmd), take (length buf) cmd @ drop (length cmd) buf, drop (length buf) cmd)"
  by (induction buf cmd rule: debug_loop.induct) auto

section \<open>Control sequences\<close>

text \<open>
  A byte that finishes a cursor command addresses a cell of the screen; every other byte passes. The parameters count from one, and a
  missing or malformed one counts as one.
\<close>

definition addresses_screen :: "u8 \<Rightarrow> Console \<Rightarrow> bool" where
  "addresses_screen b c \<longleftrightarrow>
     (if escape c \<and> escape_sequence c \<and> (b = 0x48 \<or> b = 0x66)
      then 16 * (parse_isize (get_str (sequence c) 0) - 1) + 16 \<le> unat (snd (extent c))
         \<and> 8 * (parse_isize (get_str (sequence c) 1) - 1) < unat (fst (extent c))
      else True)"

fun all_address_screen :: "(nat \<Rightarrow> u8) \<Rightarrow> u8 list \<Rightarrow> 'r Term \<Rightarrow> bool" where
  "all_address_screen font [] t = True"
| "all_address_screen font (b # bs) t =
     (addresses_screen b (con t) \<and> (case console_byte font b t of Some t \<Rightarrow> all_address_screen font bs t | None \<Rightarrow> True))"

lemma outside_set: "on_screen c \<Longrightarrow> outside_same (display c) m (on_display c (\<lambda>d. display_set d color) m)"
  using outside_paints[OF paints_set] by (cases "display c") (simp_all add: on_display_def on_screen_def)

lemma on_screen_home: "on_screen c \<Longrightarrow> on_screen (c\<lparr>point_x := 0, point_y := 0\<rparr>)"
  by (auto simp: on_screen_def extent_def)

lemma on_screen_updates [simp]:
  "on_screen (c\<lparr>escape := e\<rparr>) = on_screen c" "on_screen (c\<lparr>escape_sequence := e\<rparr>) = on_screen c"
  "on_screen (c\<lparr>sequence := vs\<rparr>) = on_screen c" "on_screen (c\<lparr>redraw := e\<rparr>) = on_screen c" "on_screen (c\<lparr>raw_mode := e\<rparr>) = on_screen c"
  "on_screen (c\<lparr>foreground := f\<rparr>) = on_screen c" "on_screen (c\<lparr>background := f\<rparr>) = on_screen c"
  by (simp_all add: on_screen_def extent_def)

lemma sequence_code_on_screen:
  assumes os: "on_screen c" and "escape c" and "escape_sequence c" and a: "addresses_screen b c"
  shows "on_screen (fst (sequence_code (ucast b) c m)) \<and> outside_same (display c) m (snd (sequence_code (ucast b) c m))"
proof (cases "b = 0x48 \<or> b = 0x66")
  case True
  define row where "row = parse_isize (get_str (sequence c) 0) - 1"
  define col where "col = parse_isize (get_str (sequence c) 1) - 1"
  let ?c = "c\<lparr>point_y := of_nat row * 16, point_x := of_nat col * 8, redraw := True, escape_sequence := False\<rparr>"
  have rc: "16 * row + 16 \<le> unat (snd (extent c))" "8 * col < unat (fst (extent c))"
    using a True assms(2,3) by (simp_all add: addresses_screen_def row_def col_def)
  have "unat (of_nat row * 16 :: usize) = 16 * row" "unat (of_nat col * 8 :: usize) = 8 * col"
    using rc unat_lt2p[of "snd (extent c)"] unat_lt2p[of "fst (extent c)"]
    by (simp_all add: unat_word_ariths unat_of_nat mod_mult_left_eq mult.commute)
  then have os': "on_screen ?c" using os rc by (simp add: on_screen_def extent_def)
  have "sequence_code (ucast b) c m = (?c, fill_cell ?c (foreground c) (fill_cell c (background c) m))"
    using True by (auto simp: sequence_code_def Let_def row_def col_def)
  then show ?thesis
    using os' outside_trans[OF outside_fill_cell[OF os, of m "background c"], of "fill_cell ?c (foreground c) (fill_cell c (background c) m)"]
      outside_fill_cell[OF os', of "fill_cell c (background c) m" "foreground c"] by simp
next
  case False
  then have nb: "\<not> ((ucast b :: rchar) = 0x48 \<or> (ucast b :: rchar) = 0x66)"
    using ucast_u8_u32_inject[of b "0x48"] ucast_u8_u32_inject[of b "0x66"] by auto
  have home: "on_screen (c\<lparr>point_x := 0, point_y := 0, redraw := True, escape_sequence := False\<rparr>)"
    using on_screen_home[OF os] by (simp add: on_screen_def extent_def)
  show ?thesis
    using nb os home outside_set[OF os]
    by (auto simp: sequence_code_def Let_def on_screen_home split: prod.split)
qed

lemma code_on_screen:
  assumes os: "on_screen c" and "escape c" and "addresses_screen b c"
  shows "on_screen (fst (console_code (ucast b) c m)) \<and> outside_same (display c) m (snd (console_code (ucast b) c m))"
proof (cases "escape_sequence c")
  case True
  obtain c1 m1 where s: "sequence_code (ucast b) c m = (c1, m1)" by fastforce
  have "on_screen c1 \<and> outside_same (display c) m m1" using sequence_code_on_screen[OF os assms(2) True assms(3), of m] s by simp
  then show ?thesis using True s by (auto simp: console_code_def)
next
  case False
  let ?c = "c\<lparr>point_x := 0, point_y := 0, raw_mode := False, foreground := ansi_color 7, background := ansi_color 0\<rparr>"
  have h: "on_screen ?c" using on_screen_home[OF os] by simp
  have "outside_same (display c) m (on_display ?c (\<lambda>d. display_set d (ansi_color 0)) m)" using outside_set[OF h] by simp
  then show ?thesis using False os h by (auto simp: console_code_def Let_def)
qed

lemma byte_on_screen:
  assumes "on_screen (con t)" and "console_wf (con t)" and "addresses_screen b (con t)"
  shows "\<exists>t'. console_byte font b t = Some t' \<and> on_screen (con t') \<and> console_wf (con t') \<and> display (con t') = display (con t)
    \<and> outside_same (display (con t)) (kmem (tk t)) (kmem (tk t')) \<and> serial t' = serial t @ serial_echo b"
proof -
  obtain t' where t': "console_byte font b t = Some t'" "console_wf (con t')" "display (con t') = display (con t)"
    using console_byte_total[OF assms(2)] by blast
  have "on_screen (con t') \<and> outside_same (display (con t)) (kmem (tk t)) (kmem (tk t')) \<and> serial t' = serial t @ serial_echo b"
  proof (cases "escape (con t)")
    case True
    then show ?thesis
      using t'(1) code_on_screen[OF assms(1) True assms(3), of "kmem (tk t)"] by (auto simp: console_byte_def split_beta)
  next
    case False
    then show ?thesis
      using t'(1) character_on_screen[OF assms(1), of font "ucast b" "kmem (tk t)"] by (auto simp: console_byte_def)
  qed
  then show ?thesis using t' by blast
qed

lemma bytes_on_screen:
  assumes "on_screen (con t)" and "console_wf (con t)" and "all_address_screen font bs t"
  shows "\<exists>t'. console_bytes font bs t = Some t' \<and> on_screen (con t') \<and> console_wf (con t') \<and> display (con t') = display (con t)
    \<and> outside_same (display (con t)) (kmem (tk t)) (kmem (tk t')) \<and> serial t' = serial t @ concat (map serial_echo bs)"
  using assms
proof (induction bs arbitrary: t)
  case (Cons b bs)
  obtain t1 where t1: "console_byte font b t = Some t1" "on_screen (con t1)" "console_wf (con t1)" "display (con t1) = display (con t)"
      "outside_same (display (con t)) (kmem (tk t)) (kmem (tk t1))" "serial t1 = serial t @ serial_echo b"
    using byte_on_screen[OF Cons.prems(1,2), of b font] Cons.prems(3) by auto
  have "all_address_screen font bs t1" using Cons.prems(3) t1(1) by simp
  then obtain t2 where "console_bytes font bs t1 = Some t2" "on_screen (con t2)" "console_wf (con t2)" "display (con t2) = display (con t1)"
      "outside_same (display (con t1)) (kmem (tk t1)) (kmem (tk t2))" "serial t2 = serial t1 @ concat (map serial_echo bs)"
    using Cons.IH[OF t1(2,3)] by blast
  then show ?case using t1 outside_trans by auto
qed simp

section \<open>Properties\<close>

text \<open>
  C36. Control sequences are safe as long as they keep to the screen. From a well-formed console with its cursor on the screen,
  any bytes, text and control sequences for colours, clearing, cursor moves, modes and reset, complete or not, in which every
  cursor command addresses a cell of the screen, are handled: the call returns, the console is well-formed with
  its cursor on the screen, every byte went to the serial port, and no byte of memory changed outside the off-screen buffer and the
  screen. A cursor command beyond the screen is not covered: its column can make the length of the cursor's rows wrap around.
\<close>

theorem console_controls_safe:
  assumes "on_screen (con t)" and "console_wf (con t)" and "all_address_screen font bs t"
  shows "\<exists>t'. console_write font bs t = Some t' \<and> on_screen (con t') \<and> console_wf (con t')
    \<and> serial t' = serial t @ concat (map serial_echo bs)
    \<and> (\<forall>a. \<not> touches (display (con t)) a \<longrightarrow> kmem (tk t') a = kmem (tk t) a)"
proof -
  obtain t1 where t1: "console_bytes font bs t = Some t1" "on_screen (con t1)" "console_wf (con t1)"
    "display (con t1) = display (con t)" "outside_same (display (con t)) (kmem (tk t)) (kmem (tk t1))"
    "serial t1 = serial t @ concat (map serial_echo bs)"
    using bytes_on_screen[OF assms] by blast
  have "kmem (tk (console_flush t1)) a = kmem (tk t) a" if "\<not> touches (display (con t)) a" for a
    using flush_other[OF t1(2), of a] t1(4,5) that by (auto simp: outside_same_def touches_def split: option.splits)
  moreover have "on_screen (con (console_flush t1))" "serial (console_flush t1) = serial t1"
    using t1(2) by (simp_all add: console_flush_def on_screen_def extent_def)
  ultimately show ?thesis using t1(1,6) console_flush_wf[OF t1(3)] by (simp add: console_write_def)
qed

definition demo_console :: Console where
  "demo_console = fst (console_new None (\<lambda>_. 0))"

definition demo_term :: "unit Term" where
  "demo_term = \<lparr>con = demo_console\<lparr>display := Some demo_display\<rparr>, tk = demo_kernel [demo_context 1 False False] 0, serial = []\<rparr>"

lemma demo_term_ok: "console_wf (con demo_term)" "on_screen (con demo_term)" "\<not> escape (con demo_term)"
    "\<not> raw_mode (con demo_term)" "command (con demo_term) = []" "commands (con demo_term) = queue_new"
    "display (con demo_term) = Some demo_display"
  using demo_display_ok
  by (simp_all add: demo_term_def demo_console_def console_new_def display_root_def console_wf_def on_screen_def extent_def
      demo_display_def)

theorem console_controls_safe_witness:
  "\<exists>t'. console_write (\<lambda>_. 0x55) [0x1B, 0x5B, 0x31, 0x3B, 0x39, 0x48] demo_term = Some t' \<and> on_screen (con t')
    \<and> kmem (tk t') 0x500000 = kmem (tk demo_term) 0x500000"
proof -
  let ?bs = "[0x1B, 0x5B, 0x31, 0x3B, 0x39, 0x48 :: u8]"
  obtain c m where c: "console_character (\<lambda>_. 0x55) 0x1B (con demo_term) (kmem (tk demo_term)) = Some (c, m)" "escape c" "display c = Some demo_display"
    using character_on_screen[OF demo_term_ok(2), of "\<lambda>_. 0x55" "0x1B" "kmem (tk demo_term)"] demo_term_ok(7) by auto
  have e: "\<not> escape_sequence (con demo_term)" "sequence (con demo_term) = []" using demo_term_ok(1,3) by (auto simp: console_wf_def split: if_splits)
  then have s: "\<not> escape_sequence c" "sequence c = []"
    using c(1) by (auto simp: console_character_def put_char_def Let_def split: prod.splits option.splits if_splits)
  have "all_address_screen (\<lambda>_. 0x55) ?bs demo_term"
    using c s e demo_term_ok(3)
    by (simp add: console_byte_def console_code_def sequence_code_def get_str_def parse_isize_def addresses_screen_def extent_def
        parse_max_def digits_value_def is_digit_char_def unwrap_or_def Let_def demo_display_def)
  from console_controls_safe[OF demo_term_ok(2,1) this]
  obtain t' where "console_write (\<lambda>_. 0x55) ?bs demo_term = Some t'" "on_screen (con t')"
    "\<forall>a. \<not> touches (display (con demo_term)) a \<longrightarrow> kmem (tk t') a = kmem (tk demo_term) a" by blast
  moreover have "\<not> touches (display (con demo_term)) 0x500000"
    unfolding demo_term_ok(7) by (simp add: touches_def in_pixels_def demo_display_def)
  ultimately show ?thesis by blast
qed

text \<open>
  C21. Text is safe: from a cursor on the screen, writing any bytes without an escape returns with the cursor on the screen again,
  every byte sent to the serial port (a backspace as backspace, blank, backspace), and no byte of
  memory changed outside the off-screen buffer and the screen.
\<close>

theorem console_text_safe:
  assumes "on_screen (con t)" and "\<not> escape (con t)" and "0x1B \<notin> set bs"
  shows "\<exists>t'. console_write font bs t = Some t' \<and> on_screen (con t') \<and> \<not> escape (con t')
    \<and> serial t' = serial t @ concat (map serial_echo bs)
    \<and> (\<forall>a. \<not> touches (display (con t)) a \<longrightarrow> kmem (tk t') a = kmem (tk t) a)"
proof -
  obtain t1 where t1: "console_bytes font bs t = Some t1" "on_screen (con t1)" "\<not> escape (con t1)"
    "display (con t1) = display (con t)" "outside_same (display (con t)) (kmem (tk t)) (kmem (tk t1))"
    "serial t1 = serial t @ concat (map serial_echo bs)"
    using text_on_screen[OF assms] by blast
  have "kmem (tk (console_flush t1)) a = kmem (tk t) a" if "\<not> touches (display (con t)) a" for a
    using flush_other[OF t1(2), of a] t1(4,5) that
    by (auto simp: outside_same_def touches_def split: option.splits)
  moreover have "on_screen (con (console_flush t1))" "\<not> escape (con (console_flush t1))" "serial (console_flush t1) = serial t1"
    using t1(2,3) by (simp_all add: console_flush_def on_screen_def extent_def)
  ultimately show ?thesis using t1(1,6) by (simp add: console_write_def)
qed

theorem console_text_safe_witness:
  "\<exists>t'. console_write (\<lambda>_. 0x55) [0x48, 0x69, 0x08, 0x0A] demo_term = Some t' \<and> on_screen (con t')
    \<and> serial t' = [0x48, 0x69, 0x08, 0x20, 0x08, 0x0A] \<and> kmem (tk t') 0x500000 = kmem (tk demo_term) 0x500000"
proof -
  obtain t' where "console_write (\<lambda>_. 0x55) [0x48, 0x69, 0x08, 0x0A] demo_term = Some t'" "on_screen (con t')"
    "serial t' = serial demo_term @ concat (map serial_echo [0x48, 0x69, 0x08, 0x0A])"
    "\<forall>a. \<not> touches (display (con demo_term)) a \<longrightarrow> kmem (tk t') a = kmem (tk demo_term) a"
    using console_text_safe[OF demo_term_ok(2,3), of "[0x48, 0x69, 0x08, 0x0A]" "\<lambda>_. 0x55"] by auto
  moreover have "\<not> touches (display (con demo_term)) 0x500000"
    unfolding demo_term_ok(7) by (simp add: touches_def in_pixels_def demo_display_def)
  ultimately show ?thesis by (simp add: serial_echo_def demo_term_def)
qed

text \<open>
  C28. A typed line reaches the reader of \<^verbatim>\<open>debug:\<close> as it was edited. In line mode, whatever printable keys and
  backspaces are pressed, the enter key sends the edited line with its newline as one command, and a read of the debug
  resource by a process that has nothing left of an earlier command returns the bytes of that line, as many as fit its
  buffer, and keeps the others for the next read.
\<close>

theorem console_line_read:
  assumes "editing t" and "command (con t) = []" and "wait_inner (commands (con t)) = []" and "list_all line_key es"
    and "enter = \<lparr>key_character = 0x0A, key_scancode = 0x1C, key_pressed = True\<rparr>"
    and "line = concat (map utf8 (fold edit_key es [] @ [0x0A]))"
  shows "\<exists>t'. type_events font (es @ [enter]) t = Some t' \<and> command (con t') = []
    \<and> (case debug_read buf [] t' of
         (Some (Inr n, buf'), cmd, t'') \<Rightarrow>
            n = min (length buf) (length line) \<and> buf' = take n line @ drop n buf \<and> cmd = drop n line
            \<and> wait_inner (commands (con t'')) = []
       | _ \<Rightarrow> False)"
proof -
  obtain t1 where t1: "type_events font es t = Some t1" "editing t1" "command (con t1) = fold edit_key es []"
      "commands (con t1) = commands (con t)"
    using edit_line[OF assms(1,4), of font] assms(2) by auto
  have "editing (set_redraw t1)" using t1(2) by (simp add: editing_redraw)
  then obtain t2 where t2: "console_write font [0x0A] (set_redraw t1) = Some t2" "command (con t2) = command (con t1)"
      "commands (con t2) = commands (con t1)"
    using write_char[of "set_redraw t1" "0x0A" font] by (auto simp: editing_def set_redraw_def)
  have "is_char 0x0A" by (simp add: is_char_def)
  then have "console_event font (key_to_event enter) t1 = console_key font enter t1"
    by (intro event_key) (simp_all add: assms(5))
  also have "\<dots> = Some (send_command (push_command [0x0A] t2))"
    using t1(2) t2(1) by (simp add: console_key_def assms(5) editing_def redox_consts Let_def)
  finally have run: "type_events font (es @ [enter]) t = Some (send_command (push_command [0x0A] t2))"
    using t1(1) by (simp add: type_events_append)
  let ?t = "send_command (push_command [0x0A] t2)"
  have "wait_inner (commands (con ?t)) = [fold edit_key es [] @ [0x0A]]" "command (con ?t) = []"
    using t2 t1 assms(3)
    by (simp_all add: send_command_def push_command_def Let_def split_beta queue_send_inner)
  then show ?thesis
    using run
    by (simp add: debug_read_def queue_receive_def wait_receive_def debug_loop_eq assms(6) min_def)
qed

definition typed :: "char list \<Rightarrow> KeyEvent list" where
  "typed s = map (\<lambda>c. \<lparr>key_character = of_char c, key_scancode = if c = CHR 0x08 then K_BKSP else 0x1E, key_pressed = True\<rparr>) s"

theorem console_line_read_witness:
  "\<exists>t'. type_events (\<lambda>_. 0) (typed (''lz'' @ [CHR 0x08] @ ''s'') @ [\<lparr>key_character = 0x0A, key_scancode = 0x1C, key_pressed = True\<rparr>])
     demo_term = Some t' \<and> (case debug_read [0, 0, 0, 0] [] t' of (Some (Inr n, buf'), cmd, t'') \<Rightarrow> n = 3 \<and> buf' = [0x6C, 0x73, 0x0A, 0]
       | _ \<Rightarrow> False)"
proof -
  let ?es = "typed (''lz'' @ [CHR 0x08] @ ''s'')"
  have e: "editing demo_term" using demo_term_ok by (simp add: editing_def)
  have q: "wait_inner (commands (con demo_term)) = []" by (simp add: demo_term_ok(6) queue_new_def waitable_new_def)
  have k: "list_all line_key ?es" by (simp add: typed_def line_key_def is_char_def)
  have l: "concat (map utf8 (fold edit_key ?es [] @ [0x0A])) = [0x6C, 0x73, 0x0A]"
    by (simp add: typed_def edit_key_def utf8_def redox_consts)
  from console_line_read[OF e demo_term_ok(5) q k refl refl, where font = "\<lambda>_. 0" and buf = "[0, 0, 0, 0]"]
  obtain t' where run: "type_events (\<lambda>_. 0) (?es @ [\<lparr>key_character = 0x0A, key_scancode = 0x1C, key_pressed = True\<rparr>]) demo_term = Some t'"
    and read: "case debug_read [0, 0, 0, 0] [] t' of
         (Some (Inr n, buf'), cmd, t'') \<Rightarrow>
            n = min (length [0, 0, 0, 0 :: u8]) (length [0x6C, 0x73, 0x0A :: u8])
            \<and> buf' = take n [0x6C, 0x73, 0x0A] @ drop n [0, 0, 0, 0] \<and> cmd = drop n [0x6C, 0x73, 0x0A]
            \<and> wait_inner (commands (con t'')) = []
       | _ \<Rightarrow> False" unfolding l by (elim exE conjE)
  have "case debug_read [0, 0, 0, 0] [] t' of
      (Some (Inr n, buf'), cmd, t'') \<Rightarrow> n = 3 \<and> buf' = [0x6C, 0x73, 0x0A, 0] | _ \<Rightarrow> False"
  proof -
    obtain r cmd u where dr: "debug_read [0, 0, 0, 0] [] t' = (r, cmd, u)" using prod_cases3 by blast
    show ?thesis
    proof (cases r)
      case (Some x)
      then show ?thesis using read by (cases x; cases "fst x") (auto simp: dr eval_nat_numeral)
    qed (use read in \<open>simp add: dr\<close>)
  qed
  with run show ?thesis by (intro exI conjI)
qed

text \<open>
  A printed character is seen: with room for it and for the cursor after it, the pixels of its cell become the foreground colour where
  the glyph has a bit and the background colour where it has none, the next cell holds the cursor, and every
  other pixel of the screen is as it was; the last row and column of the screen, which the background never reaches, excepted.
\<close>

theorem console_glyph:
  assumes "on_screen c" and "display c = Some d" and "ch \<notin> {0, 0x1B, 0x0A, 0x09, 0x0D, 0x08}"
    and "unat (point_x c) + 16 \<le> unat (width d)"
  defines "inner_pixel \<equiv> \<lambda>i. col_of d i + 1 < unat (width d) \<and> row_of d i + 1 < unat (height d)"
    and "in_cell \<equiv> \<lambda>x i. x \<le> col_of d i \<and> col_of d i < x + 8 \<and> unat (point_y c) \<le> row_of d i \<and> row_of d i < unat (point_y c) + 16"
  shows "\<exists>m'. console_character font ch c m = Some (c\<lparr>point_x := point_x c + 8\<rparr>, m')
    \<and> paints_display d m m' (\<lambda>i.
        if in_cell (unat (point_x c) + 8) i \<and> inner_pixel i then color_data (foreground c)
        else if in_cell (unat (point_x c)) i
                \<and> bit (font (16 * unat (ucast ch :: u8) + (row_of d i - unat (point_y c)))) (7 - (col_of d i - unat (point_x c)))
        then color_data (foreground c)
        else if in_cell (unat (point_x c)) i \<and> inner_pixel i then color_data (background c)
        else pix (offscreen d) m i)"
proof -
  note r = on_screen_room[OF assms(1,2)]
  let ?c = "c\<lparr>point_x := point_x c + 8\<rparr>"
  let ?m1 = "fill_cell c (background c) m"
  let ?m2 = "display_char font d (point_x c) (point_y c) (ucast ch) (foreground c) ?m1"
  have x: "unat (point_x c + 8) = unat (point_x c) + 8" using r(2) by (subst unat_add_lt) simp_all
  have os: "on_screen ?c" using assms(1,2,4) x by (simp add: on_screen_def extent_def)
  have "\<not> width d \<le> point_x c + 8" using assms(4) x by (simp add: word_le_nat_alt)
  moreover have "point_y c + 16 \<le> height d" using r(3,5) by (simp add: word_le_nat_alt unat_add_lt)
  ultimately have run: "console_character font ch c m = Some (?c, fill_cell ?c (foreground c) ?m2)"
    using assms(2,3) by (simp add: console_character_def put_char_def on_display_def extent_def scroll_loop_stop Let_def)
  have p1: "paints_display d m ?m1 (\<lambda>i. if in_cell (unat (point_x c)) i \<and> inner_pixel i then color_data (background c) else pix (offscreen d) m i)"
    by (rule paints_cong[OF paints_fill_cell[OF assms(1,2)]]) (auto simp: in_cell_def inner_pixel_def)
  have p2: "paints_display d ?m1 ?m2 (\<lambda>i. if in_cell (unat (point_x c)) i
        \<and> bit (font (16 * unat (ucast ch :: u8) + (row_of d i - unat (point_y c)))) (7 - (col_of d i - unat (point_x c)))
      then color_data (foreground c) else pix (offscreen d) ?m1 i)"
    by (rule paints_cong[OF paints_char[OF r(1-3)]]) (use assms(4) r(5) in \<open>auto simp: in_cell_def\<close>)
  have p3: "paints_display d ?m2 (fill_cell ?c (foreground c) ?m2)
      (\<lambda>i. if in_cell (unat (point_x c) + 8) i \<and> inner_pixel i then color_data (foreground c) else pix (offscreen d) ?m2 i)"
    by (rule paints_cong[OF paints_fill_cell[OF os]]) (use assms(2) x in \<open>auto simp: in_cell_def inner_pixel_def\<close>)
  have "paints_display d m (fill_cell ?c (foreground c) ?m2) (\<lambda>i.
        if in_cell (unat (point_x c) + 8) i \<and> inner_pixel i then color_data (foreground c)
        else if in_cell (unat (point_x c)) i
                \<and> bit (font (16 * unat (ucast ch :: u8) + (row_of d i - unat (point_y c)))) (7 - (col_of d i - unat (point_x c)))
        then color_data (foreground c)
        else if in_cell (unat (point_x c)) i \<and> inner_pixel i then color_data (background c)
        else pix (offscreen d) m i)"
    by (rule paints_cong[OF paints_trans[OF paints_trans[OF p1 p2] p3]]) (use p1 p2 in \<open>simp add: paints_def\<close>)
  then show ?thesis using run by blast
qed

theorem console_glyph_witness:
  "\<exists>m'. console_character (\<lambda>_. 0x80) 0x41 (con demo_term) (\<lambda>_. 0) = Some ((con demo_term)\<lparr>point_x := 8\<rparr>, m')
    \<and> pix 0x1000000 m' 0 = 0xFFC0C0C0 \<and> pix 0x1000000 m' 1 = 0xFF000000 \<and> pix 0x1000000 m' 8 = 0xFFC0C0C0"
proof -
  let ?c = "con demo_term"
  have f: "point_x ?c = 0" "point_y ?c = 0" "color_data (foreground ?c) = 0xFFC0C0C0" "color_data (background ?c) = 0xFF000000"
    by (simp_all add: demo_term_def demo_console_def console_new_def display_root_def ansi_color_def ansi_table_def color_new_def)
  have w: "unat (point_x ?c) + 16 \<le> unat (width demo_display)" by (simp add: f demo_display_def)
  have d: "unat (width demo_display) = 640" "unat (height demo_display) = 480" "offscreen demo_display = 0x1000000"
    "unat (disp_size demo_display) = 307200" by (simp_all add: demo_display_def)
  have ch: "(0x41 :: rchar) \<notin> {0, 0x1B, 0x0A, 0x09, 0x0D, 0x08}" by simp
  obtain m' where run: "console_character (\<lambda>_. 0x80) 0x41 ?c (\<lambda>_. 0) = Some (?c\<lparr>point_x := point_x ?c + 8\<rparr>, m')"
    and P: "paints_display demo_display (\<lambda>_. 0) m' (\<lambda>i.
        if (unat (point_x ?c) + 8 \<le> col_of demo_display i \<and> col_of demo_display i < unat (point_x ?c) + 8 + 8
            \<and> unat (point_y ?c) \<le> row_of demo_display i \<and> row_of demo_display i < unat (point_y ?c) + 16)
          \<and> col_of demo_display i + 1 < unat (width demo_display) \<and> row_of demo_display i + 1 < unat (height demo_display)
        then color_data (foreground ?c)
        else if (unat (point_x ?c) \<le> col_of demo_display i \<and> col_of demo_display i < unat (point_x ?c) + 8
            \<and> unat (point_y ?c) \<le> row_of demo_display i \<and> row_of demo_display i < unat (point_y ?c) + 16)
          \<and> bit (0x80 :: u8) (7 - (col_of demo_display i - unat (point_x ?c)))
        then color_data (foreground ?c)
        else if (unat (point_x ?c) \<le> col_of demo_display i \<and> col_of demo_display i < unat (point_x ?c) + 8
            \<and> unat (point_y ?c) \<le> row_of demo_display i \<and> row_of demo_display i < unat (point_y ?c) + 16)
          \<and> col_of demo_display i + 1 < unat (width demo_display) \<and> row_of demo_display i + 1 < unat (height demo_display)
        then color_data (background ?c) else pix (offscreen demo_display) (\<lambda>_. 0) i)"
    using console_glyph[OF demo_term_ok(2,7) ch w, of "\<lambda>_. 0x80" "\<lambda>_. 0"] by (elim exE conjE)
  note px = conjunct2[OF P[unfolded paints_def], THEN spec, THEN mp]
  have "bit (0x80 :: u8) 7" "\<not> bit (0x80 :: u8) 6" by simp_all
  then have "pix 0x1000000 m' 0 = 0xFFC0C0C0" "pix 0x1000000 m' 1 = 0xFF000000" "pix 0x1000000 m' 8 = 0xFFC0C0C0"
    using px[of 0, unfolded d f] px[of 1, unfolded d f] px[of 8, unfolded d f] by simp_all
  moreover have "point_x ?c + 8 = 8" by (simp add: f)
  ultimately show ?thesis using run by (intro exI[of _ m']) simp
qed

end
