(* ===== verification/Elf.thy ===== *)
theory Elf
  imports Files UserMemory
begin

text \<open>
  Program images (\<^verbatim>\<open>kernel/arch/elf.rs\<close>, \<^verbatim>\<open>kernel/arch/x86/elf.rs\<close>) and their loading
  (\<^verbatim>\<open>execute\<close> in \<^verbatim>\<open>kernel/syscall/execute.rs\<close>). The bytes of the file lie in memory at the address
  the code calls \<^verbatim>\<open>data.as_ptr()\<close>; headers are read through raw pointers computed from the offsets in the
  file, without a check that they stay inside it, so reading a header is reading memory at that address.
\<close>

section \<open>Headers\<close>

definition ELF_CLASS :: u8 where [redox_consts]: "ELF_CLASS = 1"

record ElfHeader =
  magic :: "u8 list"
  elf_class :: u8
  endian :: u8
  ver :: u8
  abi :: "u8 list"
  pad :: "u8 list"
  h_type :: u16
  machine :: u16
  ver_2 :: u32
  h_entry :: u32
  ph_off :: u32
  sh_off :: u32
  h_flags :: u32
  h_len :: u16
  ph_ent_len :: u16
  ph_len :: u16
  sh_ent_len :: u16
  sh_len :: u16
  sh_str_index :: u16

record ElfSegment =
  seg_type :: u32
  seg_off :: u32
  vaddr :: u32
  paddr :: u32
  file_len :: u32
  mem_len :: u32
  seg_flags :: u32
  seg_align :: u32

record ElfSection =
  sec_name :: u32
  sec_type :: u32
  sec_flags :: u32
  sec_addr :: u32
  sec_off :: u32
  sec_len :: u32
  sec_link :: u32
  sec_info :: u32
  addr_align :: u32
  ent_len :: u32

record ElfSymbol =
  sym_name :: u32
  sym_value :: u32
  sym_size :: u32
  sym_info :: u8
  sym_other :: u8
  sh_index :: u16

definition SIZE_OF_ELF_HEADER :: usize where [redox_consts]: "SIZE_OF_ELF_HEADER = 52"

definition read_bytes :: "mem \<Rightarrow> usize \<Rightarrow> nat \<Rightarrow> u8 list" where
  "read_bytes m p n = map (\<lambda>i. m (p + of_nat i)) [0..<n]"

definition read_header :: "mem \<Rightarrow> usize \<Rightarrow> ElfHeader" where
  "read_header m p =
     \<lparr>magic = read_bytes m p 4, elf_class = m (p + 4), endian = m (p + 5), ver = m (p + 6), abi = read_bytes m (p + 7) 2, pad = read_bytes m (p + 9) 7,
      h_type = read_u16 m (p + 16), machine = read_u16 m (p + 18), ver_2 = read_usize m (p + 20), h_entry = read_usize m (p + 24),
      ph_off = read_usize m (p + 28), sh_off = read_usize m (p + 32), h_flags = read_usize m (p + 36), h_len = read_u16 m (p + 40),
      ph_ent_len = read_u16 m (p + 42), ph_len = read_u16 m (p + 44), sh_ent_len = read_u16 m (p + 46),
      sh_len = read_u16 m (p + 48), sh_str_index = read_u16 m (p + 50)\<rparr>"

definition read_segment :: "mem \<Rightarrow> usize \<Rightarrow> ElfSegment" where
  "read_segment m p =
     \<lparr>seg_type = read_usize m p, seg_off = read_usize m (p + 4), vaddr = read_usize m (p + 8), paddr = read_usize m (p + 12),
      file_len = read_usize m (p + 16), mem_len = read_usize m (p + 20), seg_flags = read_usize m (p + 24),
      seg_align = read_usize m (p + 28)\<rparr>"

definition read_section :: "mem \<Rightarrow> usize \<Rightarrow> ElfSection" where
  "read_section m p =
     \<lparr>sec_name = read_usize m p, sec_type = read_usize m (p + 4), sec_flags = read_usize m (p + 8), sec_addr = read_usize m (p + 12),
      sec_off = read_usize m (p + 16), sec_len = read_usize m (p + 20), sec_link = read_usize m (p + 24),
      sec_info = read_usize m (p + 28), addr_align = read_usize m (p + 32), ent_len = read_usize m (p + 36)\<rparr>"

definition read_symbol :: "mem \<Rightarrow> usize \<Rightarrow> ElfSymbol" where
  "read_symbol m p =
     \<lparr>sym_name = read_usize m p, sym_value = read_usize m (p + 4), sym_size = read_usize m (p + 8), sym_info = m (p + 12),
      sym_other = m (p + 13), sh_index = read_u16 m (p + 14)\<rparr>"

section \<open>An executable\<close>

text \<open>Where the bytes of the file are; the three ways \<^verbatim>\<open>from\<close> refuses them, whose messages are only logged.\<close>

record Elf =
  elf_data :: usize
  elf_len :: usize

datatype ElfError = NotEnoughData | InvalidMagic | InvalidArchitecture

definition elf_from :: "mem \<Rightarrow> usize \<Rightarrow> usize \<Rightarrow> ElfError + Elf" where
  "elf_from m p len =
     (if len < SIZE_OF_ELF_HEADER then Inl NotEnoughData
      else if read_bytes m p 4 \<noteq> [0x7F, 0x45, 0x4C, 0x46] then Inl InvalidMagic
      else if m (p + 4) \<noteq> ELF_CLASS then Inl InvalidArchitecture
      else Inr \<lparr>elf_data = p, elf_len = len\<rparr>)"

definition elf_entry :: "mem \<Rightarrow> Elf \<Rightarrow> usize" where
  "elf_entry m e = h_entry (read_header m (elf_data e))"

definition segment_at :: "mem \<Rightarrow> Elf \<Rightarrow> nat \<Rightarrow> ElfSegment" where
  "segment_at m e i =
     (let h = read_header m (elf_data e)
      in read_segment m (elf_data e + ph_off h + of_nat i * ucast (ph_ent_len h)))"

definition load_segment :: "mem \<Rightarrow> Elf \<Rightarrow> ElfSegment list" where
  "load_segment m e =
     filter (\<lambda>s. seg_type s = 1) (map (segment_at m e) [0..<unat (ph_len (read_header m (elf_data e)))])"

text \<open>Names end at the first zero byte, or after 4095 bytes.\<close>

fun name_len :: "mem \<Rightarrow> usize \<Rightarrow> nat \<Rightarrow> nat \<Rightarrow> nat" where
  "name_len m p 0 j = j - 1"
| "name_len m p (Suc n) j = (if m (p + of_nat j) = 0 then j else name_len m p n (j + 1))"

definition read_name :: "mem \<Rightarrow> usize \<Rightarrow> u8 list" where
  "read_name m p = read_bytes m p (name_len m p 4096 0)"

text \<open>The loop over the sections remembers the last one of each of the two names.\<close>

definition section_at :: "mem \<Rightarrow> Elf \<Rightarrow> nat \<Rightarrow> ElfSection" where
  "section_at m e i =
     (let h = read_header m (elf_data e)
      in read_section m (elf_data e + sh_off h + of_nat i * ucast (sh_ent_len h)))"

definition find_sections :: "mem \<Rightarrow> Elf \<Rightarrow> ElfSection \<times> ElfSection" where
  "find_sections m e =
     (let h = read_header m (elf_data e);
          names = elf_data e + sec_off (section_at m e (unat (sh_str_index h)))
      in fold (\<lambda>i (sy, st). let s = section_at m e i; nm = read_name m (names + sec_name s)
                              in if nm = as_bytes ''.symtab'' then (s, st)
                                 else if nm = as_bytes ''.strtab'' then (sy, s) else (sy, st))
           [0..<unat (sh_len h)] (section_at m e 0, section_at m e 0))"

definition symbol_at :: "mem \<Rightarrow> Elf \<Rightarrow> ElfSection \<Rightarrow> nat \<Rightarrow> ElfSymbol" where
  "symbol_at m e sy i = read_symbol m (elf_data e + sec_off sy + of_nat i * ent_len sy)"

definition elf_symbol :: "mem \<Rightarrow> Elf \<Rightarrow> u8 list \<Rightarrow> usize" where
  "elf_symbol m e name =
     (let (sy, st) = find_sections m e
      in if sec_off sy > 0 \<and> sec_off st > 0 \<and> ent_len sy > 0 then
           (case find (\<lambda>i. read_name m (elf_data e + sec_off st + sym_name (symbol_at m e sy i)) = name)
                   [0..<unat (sec_len sy div ent_len sy)] of
              Some i \<Rightarrow> sym_value (symbol_at m e sy i)
            | None \<Rightarrow> 0)
         else 0)"

section \<open>Loading\<close>

text \<open>One loadable segment: a block, the bytes of the file in it, zeros after them.\<close>

definition load_one :: "Elf \<Rightarrow> ElfSegment \<Rightarrow> mem \<Rightarrow> ContextMemory option \<times> mem" where
  "load_one e s m =
     (let offset = vaddr s mod 4096;
          (p, m) = alloc m (mem_len s + offset)
      in if p > 0 then
           (let m = memcpy m (p + offset) (elf_data e + seg_off s) (file_len s);
                m = (if mem_len s > file_len s then memset m (p + offset + file_len s) 0 (mem_len s - file_len s) else m)
            in (Some \<lparr>physical_address = p, virtual_address = vaddr s - offset, virtual_size = mem_len s + offset,
                      writeable = (seg_flags s AND 2 = 2), allocated = True\<rparr>, m))
         else (None, m))"

fun load_all :: "Elf \<Rightarrow> ElfSegment list \<Rightarrow> mem \<Rightarrow> ContextMemory list \<times> mem" where
  "load_all e [] m = ([], m)"
| "load_all e (s # ss) m =
     (let (c, m) = load_one e s m; (cs, m) = load_all e ss m in (case c of Some c \<Rightarrow> c # cs | None \<Rightarrow> cs, m))"

section \<open>Programs as files\<close>

text \<open>
  The program a file describes, read from its bytes alone: the same functions over a memory that holds
  nothing but the file, at address 0.
\<close>

definition file_mem :: "u8 list \<Rightarrow> mem" where
  "file_mem vec a = (if unat a < length vec then vec ! unat a else 0)"

definition file_elf :: "u8 list \<Rightarrow> Elf" where
  "file_elf vec = \<lparr>elf_data = 0, elf_len = of_nat (length vec)\<rparr>"

definition is_program :: "u8 list \<Rightarrow> bool" where
  "is_program vec \<longleftrightarrow> elf_from (file_mem vec) 0 (of_nat (length vec)) = Inr (file_elf vec)"

definition program_entry :: "u8 list \<Rightarrow> usize" where
  "program_entry vec = elf_entry (file_mem vec) (file_elf vec)"

definition program_segments :: "u8 list \<Rightarrow> ElfSegment list" where
  "program_segments vec = load_segment (file_mem vec) (file_elf vec)"

text \<open>A segment whose bytes lie in the file and whose lengths are consistent.\<close>

definition seg_inside :: "u8 list \<Rightarrow> ElfSegment \<Rightarrow> bool" where
  "seg_inside vec s \<longleftrightarrow> unat (seg_off s) + unat (file_len s) \<le> length vec
     \<and> file_len s \<le> mem_len s \<and> 0 < mem_len s \<and> unat (mem_len s) + 4096 < 2 ^ 32"

text \<open>The table of segments lies in the file, and so do the segments.\<close>

definition program_ok :: "u8 list \<Rightarrow> bool" where
  "program_ok vec \<longleftrightarrow>
     (let h = read_header (file_mem vec) 0 in
      (\<forall>i < unat (ph_len h). unat (ph_off h) + i * unat (ph_ent_len h) + 32 \<le> length vec)
      \<and> (\<forall>s \<in> set (program_segments vec). seg_inside vec s))"

text \<open>The bytes of a file in a live block of memory.\<close>

definition stored :: "u8 list \<Rightarrow> mem \<Rightarrow> usize \<Rightarrow> bool" where
  "stored vec m p \<longleftrightarrow> live m p \<and> length vec \<le> unat (alloc_size m p) \<and> (\<forall>i < length vec. m (p + of_nat i) = vec ! i)"

lemma stored_length: "stored vec m p \<Longrightarrow> length vec < 2 ^ 32"
  using unat_lt2p[of "alloc_size m p"] by (simp add: stored_def)

lemma stored_byte: "stored vec m p \<Longrightarrow> unat a < length vec \<Longrightarrow> m (p + a) = file_mem vec a"
  using spec[of "\<lambda>i. i < length vec \<longrightarrow> m (p + of_nat i) = vec ! i" "unat a"] by (simp add: stored_def file_mem_def)

lemma stored_keeps: "stored vec m p \<Longrightarrow> keeps_blocks m m' \<Longrightarrow> stored vec m' p"
proof -
  assume st: "stored vec m p" and k: "keeps_blocks m m'"
  have "m' (p + of_nat i) = m (p + of_nat i)" if "i < length vec" for i
  proof -
    have "unat (of_nat i :: usize) = i" using that stored_length[OF st] by (intro unat_of_nat_lt) simp
    then show ?thesis using st k that by (simp add: stored_def keeps_blocks_def)
  qed
  then show "stored vec m' p" using st k by (simp add: stored_def keeps_blocks_def)
qed

lemma stored_shift:
  assumes "stored vec m p" and "unat a + n \<le> length vec" and "unat d < n"
  shows "m (p + a + d) = file_mem vec (a + d)"
proof -
  have "unat (a + d) = unat a + unat d" using assms stored_length[OF assms(1)] by (intro unat_add_lt) simp
  then show ?thesis using stored_byte[OF assms(1), of "a + d"] assms by (simp add: add.assoc)
qed

lemma stored_usize: "stored vec m p \<Longrightarrow> unat a + 4 \<le> length vec \<Longrightarrow> read_usize m (p + a) = read_usize (file_mem vec) a"
  using stored_shift[of vec m p a 4 0] stored_shift[of vec m p a 4 1] stored_shift[of vec m p a 4 2] stored_shift[of vec m p a 4 3]
  by (simp add: read_usize_def)

lemma stored_u16: "stored vec m p \<Longrightarrow> unat a + 2 \<le> length vec \<Longrightarrow> read_u16 m (p + a) = read_u16 (file_mem vec) a"
  using stored_shift[of vec m p a 2 0] stored_shift[of vec m p a 2 1]
  by (simp add: read_u16_def)

lemma stored_read_bytes:
  assumes "stored vec m p" and "unat a + n \<le> length vec"
  shows "read_bytes m (p + a) n = read_bytes (file_mem vec) a n"
  unfolding read_bytes_def
proof (rule map_cong[OF refl])
  fix i assume i: "i \<in> set [0..<n]"
  then have "unat (of_nat i :: usize) = i" using assms stored_length[OF assms(1)] by (intro unat_of_nat_lt) simp
  then show "m (p + a + of_nat i) = file_mem vec (a + of_nat i)" using i by (intro stored_shift[OF assms]) simp
qed

lemma stored_header:
  assumes "stored vec m p" and "52 \<le> length vec"
  shows "read_header m p = read_header (file_mem vec) 0"
proof -
  have b: "m (p + a) = file_mem vec a" if "unat a < 52" for a using that assms by (intro stored_byte) simp_all
  have w: "read_usize m (p + a) = read_usize (file_mem vec) a" if "unat a \<le> 48" for a using that assms by (intro stored_usize) simp_all
  have h: "read_u16 m (p + a) = read_u16 (file_mem vec) a" if "unat a \<le> 50" for a using that assms by (intro stored_u16) simp_all
  have r: "read_bytes m (p + a) n = read_bytes (file_mem vec) a n" if "unat a + n \<le> 52" for a n
    using that assms by (intro stored_read_bytes) simp_all
  show ?thesis unfolding read_header_def using r[of 0 4] by (simp add: b w h r)
qed

lemma stored_segment:
  assumes "stored vec m p" and "unat a + 32 \<le> length vec"
  shows "read_segment m (p + a) = read_segment (file_mem vec) a"
proof -
  have u: "unat (a + d) = unat a + unat d" if "unat d \<le> 28" for d
    using that assms(2) stored_length[OF assms(1)] by (intro unat_add_lt) simp
  have w: "read_usize m (p + a + d) = read_usize (file_mem vec) (a + d)" if "unat d \<le> 28" for d
    using that u[OF that] assms(2) stored_usize[OF assms(1), of "a + d"] by (simp add: add.assoc)
  show ?thesis unfolding read_segment_def using w[of 0] by (simp add: w)
qed

lemma stored_segments:
  assumes "stored vec m p" and "52 \<le> length vec" and "program_ok vec"
  shows "load_segment m \<lparr>elf_data = p, elf_len = n\<rparr> = program_segments vec"
proof -
  let ?h = "read_header (file_mem vec) 0"
  have "read_segment m (p + ph_off ?h + of_nat i * ucast (ph_ent_len ?h)) =
      read_segment (file_mem vec) (ph_off ?h + of_nat i * ucast (ph_ent_len ?h))" if i: "i < unat (ph_len ?h)" for i
  proof -
    let ?e = "ucast (ph_ent_len ?h) :: usize"
    have b: "unat (ph_off ?h) + i * unat (ph_ent_len ?h) + 32 \<le> length vec" using assms(3) i by (simp add: program_ok_def Let_def)
    have ent: "unat ?e = unat (ph_ent_len ?h)"
      using unat_lt2p[of "ph_ent_len ?h"] by (simp add: unsigned_ucast_eq take_bit_nat_eq_self)
    have ui: "unat (of_nat i :: usize) = i" using i unat_lt2p[of "ph_len ?h"] by (intro unat_of_nat_lt) simp
    have "unat (of_nat i * ?e) = i * unat (ph_ent_len ?h)"
      using b stored_length[OF assms(1)] by (subst unat_mult_lt) (simp_all add: ui ent)
    moreover from this have "unat (ph_off ?h + of_nat i * ?e) = unat (ph_off ?h) + unat (of_nat i * ?e)"
      using b stored_length[OF assms(1)] by (intro unat_add_lt) simp
    ultimately show ?thesis using stored_segment[OF assms(1), of "ph_off ?h + of_nat i * ?e"] b by (simp add: add.assoc)
  qed
  then have "map (segment_at m \<lparr>elf_data = p, elf_len = n\<rparr>) [0..<unat (ph_len ?h)] =
      map (segment_at (file_mem vec) (file_elf vec)) [0..<unat (ph_len ?h)]"
    by (intro map_cong) (simp_all add: segment_at_def Let_def stored_header[OF assms(1,2)] file_elf_def)
  then show ?thesis
    unfolding load_segment_def program_segments_def by (simp only: stored_header[OF assms(1,2)] file_elf_def Elf.select_convs)
qed

lemma stored_elf:
  assumes "stored vec m p"
  shows "elf_from m p (of_nat (length vec)) =
    (case elf_from (file_mem vec) 0 (of_nat (length vec)) of Inl e \<Rightarrow> Inl e | Inr _ \<Rightarrow> Inr \<lparr>elf_data = p, elf_len = of_nat (length vec)\<rparr>)"
proof -
  have l: "unat (of_nat (length vec) :: usize) = length vec" by (rule unat_of_nat_lt) (use stored_length[OF assms] in simp)
  show ?thesis
  proof (cases "length vec < 52")
    case False
    then have "read_bytes m (p + 0) 4 = read_bytes (file_mem vec) 0 4" "m (p + 4) = file_mem vec 4"
      using assms by (intro stored_read_bytes stored_byte; simp)+
    then show ?thesis by (simp add: elf_from_def)
  qed (simp add: elf_from_def redox_consts word_less_nat_alt l)
qed

lemma program_length: "is_program vec \<Longrightarrow> length vec < 2 ^ 32 \<Longrightarrow> 52 \<le> length vec"
  by (auto simp: is_program_def elf_from_def redox_consts word_less_nat_alt unat_of_nat_lt split: if_splits)

section \<open>What is loaded\<close>

text \<open>
  \<^term>\<open>image_of vec s m c\<close>: the segment \<^term>\<open>c\<close> of a context holds in \<^term>\<open>m\<close> the segment \<^term>\<open>s\<close> of the file
  \<^term>\<open>vec\<close>: at its address the bytes of the file, then zeros, on whole pages of a live block.
\<close>

definition image_of :: "u8 list \<Rightarrow> ElfSegment \<Rightarrow> mem \<Rightarrow> ContextMemory \<Rightarrow> bool" where
  "image_of vec s m c \<longleftrightarrow> virtual_address c = vaddr s - vaddr s mod 4096 \<and> virtual_size c = mem_len s + vaddr s mod 4096
     \<and> writeable c = (seg_flags s AND 2 = 2) \<and> allocated c \<and> backed m c
     \<and> (\<forall>i < mem_len s. m (physical_address c + (vaddr s mod 4096 + i)) =
          (if i < file_len s then vec ! (unat (seg_off s) + unat i) else 0))"

definition seg_clusters :: "ElfSegment list \<Rightarrow> nat" where
  "seg_clusters ss = sum_list (map (\<lambda>s. clusters_needed (mem_len s + vaddr s mod 4096)) ss)"

lemma source_offset:
  assumes "stored vec m p" and "seg_inside vec s" and "i < file_len s"
  shows "unat (seg_off s + i) = unat (seg_off s) + unat i" and "unat (seg_off s) + unat i < length vec"
    and "m (p + seg_off s + i) = vec ! (unat (seg_off s) + unat i)"
    and "unat (seg_off s + i) < unat (alloc_size m p)"
proof -
  show lt: "unat (seg_off s) + unat i < length vec" using assms(2,3) by (simp add: seg_inside_def word_less_nat_alt)
  then show u: "unat (seg_off s + i) = unat (seg_off s) + unat i" using stored_length[OF assms(1)] by (intro unat_add_lt) simp
  show "m (p + seg_off s + i) = vec ! (unat (seg_off s) + unat i)"
    using stored_byte[OF assms(1), of "seg_off s + i"] lt u by (simp add: file_mem_def add.assoc)
  show "unat (seg_off s + i) < unat (alloc_size m p)" using lt u assms(1) by (simp add: stored_def)
qed

lemma image_same:
  assumes "image_of vec s m1 c" and "seg_inside vec s"
    and "live m2 (physical_address c)" "alloc_size m2 (physical_address c) = alloc_size m1 (physical_address c)"
    and "\<And>i. unat i < unat (alloc_size m1 (physical_address c)) \<Longrightarrow> m2 (physical_address c + i) = m1 (physical_address c + i)"
  shows "image_of vec s m2 c"
proof -
  let ?o = "vaddr s mod 4096" and ?p = "physical_address c"
  have b: "unat (virtual_size c) \<le> unat (alloc_size m1 ?p)" using assms(1) unfolding image_of_def backed_def by blast
  have "m2 (?p + (?o + i)) = m1 (?p + (?o + i))" if "i < mem_len s" for i
  proof -
    have o: "unat ?o < 4096" by (simp add: unat_mod)
    have sz: "unat (mem_len s + ?o) = unat (mem_len s) + unat ?o"
      using assms(2) o by (intro unat_add_lt) (simp add: seg_inside_def)
    moreover have "unat (?o + i) = unat ?o + unat i"
      using that assms(2) o by (intro unat_add_lt) (simp add: seg_inside_def word_less_nat_alt)
    ultimately have "unat (?o + i) < unat (virtual_size c)" using that assms(1) by (simp add: image_of_def word_less_nat_alt)
    then show ?thesis using b by (intro assms(5)) simp
  qed
  then show ?thesis using assms(1,3,4) b by (simp add: image_of_def backed_def)
qed

lemma image_live: "image_of vec s m1 c \<Longrightarrow> live m1 (physical_address c)"
  by (simp add: image_of_def backed_def)

lemma image_keeps: "image_of vec s m1 c \<Longrightarrow> keeps_blocks m1 m2 \<Longrightarrow> seg_inside vec s \<Longrightarrow> image_of vec s m2 c"
  by (rule image_same[of vec s m1]) (auto simp: keeps_blocks_def dest: image_live)

lemma load_one_spec:
  assumes wf: "wf_table m" and st: "stored vec m p" and src: "seg_inside vec s" and e: "elf_data e = p"
    and rm: "room K m" "clusters_needed (mem_len s + vaddr s mod 4096) \<le> K" and ld: "load_one e s m = (c, m')"
  obtains d where "c = Some d" and "wf_table m'" and "room (K - clusters_needed (mem_len s + vaddr s mod 4096)) m'"
    and "keeps_blocks m m'" and "image_of vec s m' d" and "\<not> live m (physical_address d)"
    and "\<forall>q. live m' q \<longleftrightarrow> q = physical_address d \<or> live m q"
proof -
  let ?o = "vaddr s mod 4096" and ?f = "file_len s" and ?n = "mem_len s" and ?src = "p + seg_off s"
  let ?sz = "?n + ?o"
  have o: "unat ?o < 4096" by (simp add: unat_mod)
  have fn: "unat ?f \<le> unat ?n" "0 < unat ?n" "unat ?n + 4096 < 2 ^ 32"
    using src by (simp_all add: seg_inside_def word_le_nat_alt word_less_nat_alt)
  have sz: "unat ?sz = unat ?n + unat ?o" using fn o by (intro unat_add_lt) simp
  have sz0: "0 < ?sz" using sz fn(2) by (simp add: word_less_nat_alt)
  obtain r m1 where a: "alloc m ?sz = (r, m1)" by fastforce
  note A = alloc_room[OF rm(1) sz0 rm(2) a]
  obtain n where took: "took m n (clusters_needed ?sz) r m1" using A(3) by blast
  have lv: "live m p" using st by (simp add: stored_def)
  have szc: "unat ?sz \<le> 4096 * clusters_needed ?sz" by (simp add: clusters_needed_def)
  have kb: "keeps_blocks m m1" by (rule took_keeps_blocks[OF wf took])
  have of: "unat ?o + unat ?f \<le> unat ?sz" using fn sz by simp
  have "?src + i \<noteq> r + ?o + j" if "i < ?f" "j < ?f" for i j
  proof
    assume eq: "?src + i = r + ?o + j"
    have "r + ?o + j - r < ?sz" by (rule shift_in_block[OF _ of]) (use that(2) in simp)
    moreover have "\<not> unat (p + (seg_off s + i) - r) < 4096 * clusters_needed ?sz"
      by (rule took_apart(1)[OF wf lv took source_offset(4)[OF st src that(1)]])
    ultimately show False using szc eq by (simp add: word_less_nat_alt add.assoc)
  qed
  then have m2: "memcpy m1 (r + ?o) ?src ?f = copied m1 (r + ?o) ?src ?f" by (rule memcpy_eq)
  have m': "m' = (if ?f < ?n then filled (copied m1 (r + ?o) ?src ?f) (r + ?o + ?f) 0 (?n - ?f) else copied m1 (r + ?o) ?src ?f)"
    and c: "c = Some \<lparr>physical_address = r, virtual_address = vaddr s - ?o, virtual_size = ?sz,
      writeable = (seg_flags s AND 2 = 2), allocated = True\<rparr>"
    using ld a A(2) by (auto simp: load_one_def Let_def e m2 memset_eq word_gt_0)
  have nf: "unat (?n - ?f) = unat ?n - unat ?f" using fn(1) by (simp add: unat_diff_wrap word_le_nat_alt)
  have of': "unat (?o + ?f) = unat ?o + unat ?f" using fn o by (intro unat_add_lt) simp
  have same: "m' x = m1 x" if out: "\<not> x - r < ?sz" for x
  proof -
    have "\<not> x - (r + ?o) < ?f" using shift_in_block[OF _ of] out by blast
    moreover have "\<not> x - (r + (?o + ?f)) < ?n - ?f"
      using shift_in_block[of x r "?o + ?f" "?n - ?f" ?sz] out nf of' sz fn(1) by auto
    ultimately show ?thesis by (simp add: m' filled_def copied_def add.assoc)
  qed
  have "m' (r + (?o + i)) = (if i < ?f then vec ! (unat (seg_off s) + unat i) else 0)" if i: "i < ?n" for i
  proof (cases "i < ?f")
    case True
    then have "unat (i - ?f) = 2 ^ 32 + unat i - unat ?f" by (simp add: unat_diff_wrap word_less_nat_alt word_le_nat_alt)
    then have "\<not> i - ?f < ?n - ?f" using nf fn(1,3) unat_lt2p[of ?f] by (simp add: word_less_nat_alt)
    then show ?thesis using True source_offset(3)[OF stored_keeps[OF st kb] src True] by (simp add: m' filled_def copied_def)
  next
    case False
    then have "i - ?f < ?n - ?f" using nf i by (simp add: word_less_nat_alt unat_diff_wrap word_le_nat_alt)
    moreover have "?f < ?n" using False i by (simp add: word_less_nat_alt)
    ultimately show ?thesis using False by (simp add: m' filled_def)
  qed
  note img = this
  note fill = fill_fresh_block[OF wf took A(1), of m', OF same]
  show thesis
    using fill(1,2) fill(3)[of "K - clusters_needed ?sz"] fill(4) fill(5) A(4) took_fresh[OF wf took] szc img
    by (intro that[OF c]) (simp_all add: image_of_def backed_def)
qed

text \<open>Every loadable segment is loaded, in the order of the file, each into a block of its own.\<close>

lemma load_all_spec:
  assumes "wf_table m" and "stored vec m p" and "elf_data e = p" and "\<forall>s \<in> set ss. seg_inside vec s"
    and "room K m" and "seg_clusters ss \<le> K" and "load_all e ss m = (cs, m')"
  shows "wf_table m' \<and> room (K - seg_clusters ss) m' \<and> keeps_blocks m m' \<and> list_all2 (\<lambda>s c. image_of vec s m' c) ss cs
    \<and> distinct (map physical_address cs) \<and> (\<forall>c \<in> set cs. \<not> live m (physical_address c))
    \<and> (\<forall>q. live m' q \<longleftrightarrow> live m q \<or> q \<in> physical_address ` set cs)"
  using assms
proof (induction ss arbitrary: m K cs)
  case (Cons s ss)
  let ?k = "clusters_needed (mem_len s + vaddr s mod 4096)"
  obtain c m1 where c: "load_one e s m = (c, m1)" by fastforce
  have k: "?k \<le> K" "seg_clusters ss \<le> K - ?k" using Cons.prems(6) by (simp_all add: seg_clusters_def)
  have src: "seg_inside vec s" and srcs: "\<forall>s \<in> set ss. seg_inside vec s" using Cons.prems(4) by simp_all
  obtain d where d: "c = Some d" "wf_table m1" "room (K - ?k) m1" "keeps_blocks m m1" "image_of vec s m1 d" "\<not> live m (physical_address d)"
      "\<forall>q. live m1 q \<longleftrightarrow> q = physical_address d \<or> live m q"
    by (rule load_one_spec[OF Cons.prems(1,2) src Cons.prems(3,5) k(1) c])
  obtain cs1 where cs1: "load_all e ss m1 = (cs1, m')" and cs: "cs = d # cs1"
    using Cons.prems(7) c d(1) by (auto split: prod.splits)
  note R = Cons.IH[OF d(2) stored_keeps[OF Cons.prems(2) d(4)] Cons.prems(3) srcs d(3) k(2) cs1]
  have "image_of vec s m' d" using image_keeps[OF d(5) _ src] R by blast
  moreover have "physical_address d \<notin> physical_address ` set cs1" using image_live[OF d(5)] R by fastforce
  moreover have "\<not> live m (physical_address x)" if "x \<in> set cs1" for x using R that d(4) by (auto simp: keeps_blocks_def)
  moreover have "keeps_blocks m m'" using keeps_blocks_trans[OF d(4)] R by blast
  moreover have "room (K - seg_clusters (s # ss)) m'" using R by (simp add: seg_clusters_def diff_diff_eq)
  moreover have "live m' q \<longleftrightarrow> live m q \<or> q \<in> physical_address ` set cs" for q using R d(7) by (auto simp: cs)
  ultimately show ?case using R d(6) by (simp add: cs)
qed (simp add: seg_clusters_def)

end
