(* ===== verification/Exec.thy ===== *)
theory Exec
  imports Elf Processes
begin

text \<open>
  Executing a program (\<^verbatim>\<open>kernel/syscall/execute.rs\<close> and \<^verbatim>\<open>do_sys_execve\<close>): finding and reading the
  file, scripts, loading the image into the current context, and the kernel thread that builds the new stack. The
  storage of vectors and strings is the standard library's: \<^term>\<open>store\<close> puts bytes in a block of the
  kernel heap and returns its address. Success does not return to the caller; the value is then the call of
  \<^verbatim>\<open>execute_thread\<close>.
\<close>

section \<open>Reading the file\<close>

text \<open>The reading loop; not returning is \<^term>\<open>None\<close>.\<close>

partial_function (option) read_all ::
  "('r, 'e) ResourceOps \<Rightarrow> u8 list \<Rightarrow> 'r \<Rightarrow> 'e \<Rightarrow> (u8 list result \<times> 'r \<times> 'e) option" where
  "read_all ops acc r e =
     (case r_read ops (replicate 4096 0) r e of
        ((Inl err, buf), r, e) \<Rightarrow> Some (Err err, r, e)
      | ((Inr count, buf), r, e) \<Rightarrow>
          if count = 0 then Some (Ok acc, r, e) else read_all ops (acc @ take (unat count) buf) r e)"

text \<open>The file named by the first argument, or one of that name in \<^verbatim>\<open>/bin\<close>.\<close>

definition first_arg :: "string list \<Rightarrow> string" where
  "first_arg args = (case args of [] \<Rightarrow> [] | a # _ \<Rightarrow> a)"

definition open_program ::
  "('s, 'r, 'e) World \<Rightarrow> Context \<Rightarrow> string list \<Rightarrow> ('s, 'r, 'e) Env \<Rightarrow> (Url \<times> 'r) result \<times> ('s, 'r, 'e) Env" where
  "open_program w c args env =
     (case url_from_str (canonicalize (cwd_of env c) (first_arg args)) of
        Inl err \<Rightarrow> (Err err, env)
      | Inr url \<Rightarrow>
          (case env_open w url O_RDWR env of
             (Inr r, env) \<Rightarrow> (Ok (url, r), env)
           | (Inl _, env) \<Rightarrow>
               (case url_from_str (''file:/bin/'' @ first_arg args) of
                  Inl err \<Rightarrow> (Err err, env)
                | Inr url \<Rightarrow>
                    (case env_open w url O_RDWR env of
                       (Inr r, env) \<Rightarrow> (Ok (url, r), env)
                     | (Inl err, env) \<Rightarrow> (Err err, env)))))"

section \<open>Scripts\<close>

definition is_space :: "char \<Rightarrow> bool" where
  "is_space c \<longleftrightarrow> c \<in> {CHR '' '', CHR 0x09, CHR 0x0A, CHR 0x0B, CHR 0x0C, CHR 0x0D}"

definition trim :: "string \<Rightarrow> string" where
  "trim s = rev (dropWhile is_space (rev (dropWhile is_space s)))"

definition first_line :: "string \<Rightarrow> string" where
  "first_line s = takeWhile (\<lambda>c. c \<noteq> CHR 0x0A) s"

fun split_spaces :: "string \<Rightarrow> string \<Rightarrow> string list" where
  "split_spaces acc [] = [acc]"
| "split_spaces acc (c # s) = (if c = CHR '' '' then acc # split_spaces [] s else split_spaces (acc @ [c]) s)"

definition script_args :: "string \<Rightarrow> u8 list \<Rightarrow> string list \<Rightarrow> string list" where
  "script_args url vec args =
     (let args = (case args of [] \<Rightarrow> [] | _ # as \<Rightarrow> url # as);
          line = first_line (map (\<lambda>b. char_of (unat b)) (drop 2 vec));
          words = filter (\<lambda>a. a \<noteq> []) (split_spaces [] (trim line))
      in (if words = [] then [''/bin/sh''] else words) @ args)"

section \<open>The image\<close>

text \<open>
  The current context takes over the image: new name, its own working directory, the new segments in place
  of the old ones, which are dropped if no other context has them.
\<close>

definition become :: "string \<Rightarrow> ContextMemory list \<Rightarrow> Context \<Rightarrow> 'r Kernel \<Rightarrow> 'r Kernel" where
  "become url segs c k =
     (let cell = fresh k;
          c' = c\<lparr>ctx_name := url, cwd := cell, memory := cell\<rparr>;
          k = k\<lparr>fresh := cell + 1, cwd_cell := (cwd_cell k)(cell := cwd_cell k (cwd c)),
                kmem := context_unmap k c (kmem k)\<rparr>;
          k = put_context k (cur_i k) c';
          k = (if memory c \<in> memory ` set (inner k) then k
               else k\<lparr>kmem := drop_segments (kmem k) (mem_cell k (memory c)), mem_cell := (mem_cell k)(memory c := [])\<rparr>);
          k = k\<lparr>mem_cell := (mem_cell k)(cell := segs)\<rparr>
      in k\<lparr>kmem := context_map k c' (kmem k)\<rparr>)"

text \<open>The bytes of the file, stored at an address, as an executable; on failure everything is released.\<close>

definition exec_elf ::
  "(u8 list \<Rightarrow> mem \<Rightarrow> usize \<times> mem) \<Rightarrow> string \<Rightarrow> u8 list \<Rightarrow> 'r Kernel \<Rightarrow> usize result \<times> 'r Kernel" where
  "exec_elf store url vec k =
     (let (p, m) = store vec (kmem k)
      in case elf_from m p (of_nat (length vec)) of
           Inl _ \<Rightarrow> (Err ENOEXEC, k\<lparr>kmem := unalloc m p\<rparr>)
         | Inr executable \<Rightarrow>
             (let entry = elf_entry m executable;
                  (segs, m) = load_all executable (load_segment m executable) m
              in if entry > 0 \<and> segs \<noteq> [] then
                   (case current k of
                      Inl err \<Rightarrow> (Err err, k\<lparr>kmem := unalloc (drop_segments m segs) p\<rparr>)
                    | Inr c \<Rightarrow> (Ok entry, become url segs c (k\<lparr>kmem := m\<rparr>)))
                 else (Err ENOEXEC, k\<lparr>kmem := unalloc (drop_segments m segs) p\<rparr>)))"

text \<open>
  \<^verbatim>\<open>execute\<close>. A script is executed by executing its interpreter, so the function is recursive, and a script whose
  interpreter leads back to itself has no result.
\<close>

partial_function (option) execute ::
  "('s, 'r, 'e) World \<Rightarrow> (u8 list \<Rightarrow> mem \<Rightarrow> usize \<times> mem) \<Rightarrow> string list \<Rightarrow> ('s, 'r, 'e) Env \<Rightarrow>
   ((usize \<times> string list) result \<times> ('s, 'r, 'e) Env) option" where
  "execute w store args env =
     (case current (contexts env) of
        Inl err \<Rightarrow> Some (Err err, env)
      | Inr c \<Rightarrow>
          (case open_program w c args env of
             (Inl err, env) \<Rightarrow> Some (Err err, env)
           | (Inr (url, r), env) \<Rightarrow>
               Option.bind (read_all (resource_ops w) [] r (environment env))
                 (\<lambda>(res, r, e). let env = env\<lparr>environment := e\<rparr> in
                    case res of
                      Inl err \<Rightarrow> Some (Err err, env)
                    | Inr vec \<Rightarrow>
                        if take 2 vec = as_bytes ''#!'' then execute w store (script_args (url_to_string url) vec args) env
                        else (case exec_elf store (url_to_string url) vec (contexts env) of
                                (Inl err, k) \<Rightarrow> Some (Err err, env\<lparr>contexts := k\<rparr>)
                              | (Inr entry, k) \<Rightarrow> Some (Ok (entry, args), env\<lparr>contexts := k\<rparr>)))))"

definition do_sys_execve ::
  "('s, 'r, 'e) World \<Rightarrow> (u8 list \<Rightarrow> mem \<Rightarrow> usize \<times> mem) \<Rightarrow> string \<Rightarrow> string list \<Rightarrow> ('s, 'r, 'e) Env \<Rightarrow>
   ((usize \<times> string list) result \<times> ('s, 'r, 'e) Env) option" where
  "do_sys_execve w store path args env = execute w store (path # args) env"

section \<open>The new stack\<close>

text \<open>The arguments, last one first: each string becomes a read-only segment after all others.\<close>

definition nul_terminated :: "string \<Rightarrow> string" where
  "nul_terminated arg = (if arg \<noteq> [] \<and> last arg = CHR 0x00 then arg else arg @ [CHR 0x00])"

fun push_args ::
  "(u8 list \<Rightarrow> mem \<Rightarrow> usize \<times> mem) \<Rightarrow> string list \<Rightarrow> usize list \<Rightarrow> ContextMemory list \<Rightarrow> mem \<Rightarrow>
   usize list \<times> ContextMemory list \<times> mem" where
  "push_args store [] vas segs m = (vas, segs, m)"
| "push_args store (arg # args) vas segs m =
     (let bs = as_bytes (nul_terminated arg);
          (p, m) = store bs m;
          va = next_mem segs
      in push_args store args (vas @ [va])
           (segs @ [\<lparr>physical_address = p, virtual_address = va, virtual_size = of_nat (length bs), writeable = False, allocated = True\<rparr>]) m)"

fun stack_words :: "usize list \<Rightarrow> usize \<Rightarrow> mem \<Rightarrow> usize \<times> mem" where
  "stack_words [] sp m = (sp, m)"
| "stack_words (a # as) sp m = stack_words as (sp - SIZE_OF_USIZE) (write_usize m (sp - SIZE_OF_USIZE) a)"

definition heap_page :: "ContextMemory list \<Rightarrow> mem \<Rightarrow> ContextMemory list \<times> mem" where
  "heap_page segs m =
     (let (p, m) = alloc m 4096
      in if p > 0 then (segs @ [\<lparr>physical_address = p, virtual_address = next_mem segs, virtual_size = 4096, writeable = True,
                                 allocated = True\<rparr>], m)
         else (segs, m))"

text \<open>
  The body of the kernel thread, on the context at position \<^term>\<open>i\<close>; \<^term>\<open>userspace\<close> is the address of
  \<^verbatim>\<open>context_userspace\<close>.
\<close>

definition exec_thread ::
  "(u8 list \<Rightarrow> mem \<Rightarrow> usize \<times> mem) \<Rightarrow> usize \<Rightarrow> nat \<Rightarrow> usize \<Rightarrow> string list \<Rightarrow> 'r Kernel \<Rightarrow> 'r Kernel" where
  "exec_thread store userspace i entry args k =
     (let c = inner k ! i;
          (vas, segs, m) = push_args store (rev args) [] (mem_cell k (memory c)) (kmem k);
          context_args = [0, 0] @ vas @ [of_nat (length args)];
          (segs, m) = heap_page segs m;
          k = k\<lparr>mem_cell := (mem_cell k)(memory c := segs)\<rparr>;
          rg = regs_default\<lparr>reg_sp := kernel_stack c + CONTEXT_STACK_SIZE - 128\<rparr>;
          (p, m) = alloc m CONTEXT_STACK_SIZE;
          stack' = \<lparr>physical_address = p, virtual_address = CONTEXT_STACK_ADDR, virtual_size = CONTEXT_STACK_SIZE,
                    writeable = True, allocated = True\<rparr>;
          m = (case ctx_stack c of Some s \<Rightarrow> segment_drop m s | None \<Rightarrow> m);
          (sp, m) = stack_words context_args (p + CONTEXT_STACK_SIZE - 128) m;
          user_sp = sp - p + CONTEXT_STACK_ADDR;
          waiting = vfork c;
          c = c\<lparr>iopl := 0, regs := rg, ctx_stack := Some stack', vfork := None\<rparr>;
          (m, c) = push_all m c [0x20 OR 3, user_sp, 0x200, 0x18 OR 3, entry, userspace];
          k = put_context k i c;
          k = (case waiting of Some v \<Rightarrow> k\<lparr>inner := unblock v (inner k)\<rparr> | None \<Rightarrow> k)
      in k\<lparr>kmem := m\<rparr>)"

section \<open>Dropping the old image\<close>

lemma open_program_contexts: "contexts (snd (open_program w c args env)) = contexts env"
proof -
  have "contexts e = contexts env'" if "env_open w url f env' = (res, e)" for url f env' res e
    using env_open_contexts[of w url f env'] that by simp
  then show ?thesis unfolding open_program_def by (auto split: sum.split prod.split)
qed

definition keeps_except :: "usize set \<Rightarrow> mem \<Rightarrow> mem \<Rightarrow> bool" where
  "keeps_except D m m' \<longleftrightarrow> (\<forall>p. live m p \<longrightarrow> p \<notin> D \<longrightarrow> live m' p \<and> alloc_size m' p = alloc_size m p
     \<and> (\<forall>i. unat i < unat (alloc_size m p) \<longrightarrow> m' (p + i) = m (p + i)))"

lemma keeps_except_blocks: "keeps_blocks m m' \<Longrightarrow> keeps_except D m m'"
  by (simp add: keeps_except_def keeps_blocks_def)

lemma keeps_except_trans: "keeps_except D m m1 \<Longrightarrow> keeps_except D m1 m2 \<Longrightarrow> keeps_except D m m2"
  by (simp add: keeps_except_def)

lemma keeps_except_mono: "keeps_except D m m' \<Longrightarrow> D \<subseteq> E \<Longrightarrow> keeps_except E m m'"
  by (auto simp: keeps_except_def)

lemma unalloc_keeps:
  assumes wf: "wf_table m" and p: "is_block p"
  shows "wf_table (unalloc m p)" and "keeps_except {p} m (unalloc m p)"
proof -
  show "wf_table (unalloc m p)" by (rule unalloc_wf[OF assms])
  show "keeps_except {p} m (unalloc m p)"
    using unalloc_live[OF assms] unalloc_size_other[OF assms] unalloc_other live_outside_table[OF wf]
    by (auto simp: keeps_except_def live_def)
qed

lemma drop_segments_live:
  assumes "wf_table m" and "\<forall>s \<in> set ss. is_block (physical_address s)"
  shows "live (drop_segments m ss) q \<longleftrightarrow> live m q \<and> q \<notin> physical_address ` set (filter allocated ss)"
  using assms
proof (induction ss arbitrary: m)
  case (Cons s ss)
  have wf: "wf_table (segment_drop m s)" using Cons.prems unalloc_wf[of m] by (simp add: segment_drop_def)
  have "live (drop_segments m (s # ss)) q \<longleftrightarrow> live (segment_drop m s) q \<and> q \<notin> physical_address ` set (filter allocated ss)"
    using Cons.IH[OF wf] Cons.prems(2) by (simp add: drop_segments_def)
  also have "live (segment_drop m s) q \<longleftrightarrow> live m q \<and> \<not> (allocated s \<and> q = physical_address s)"
    using Cons.prems unalloc_live[of m "physical_address s" q] by (auto simp: segment_drop_def)
  finally show ?case by auto
qed (simp add: drop_segments_def)

lemma drop_segments_keeps:
  assumes "wf_table m" and "\<forall>s \<in> set ss. is_block (physical_address s)"
  shows "wf_table (drop_segments m ss)" and "keeps_except (physical_address ` set ss) m (drop_segments m ss)"
proof -
  have "wf_table (drop_segments m ss) \<and> keeps_except (physical_address ` set ss) m (drop_segments m ss)"
    using assms
  proof (induction ss arbitrary: m)
    case (Cons s ss)
    let ?D = "physical_address ` set (s # ss)"
    have one: "wf_table (segment_drop m s)" "keeps_except ?D m (segment_drop m s)"
      using unalloc_keeps[of m "physical_address s"] Cons.prems keeps_except_mono[of "{physical_address s}" m _ ?D]
      by (auto simp: segment_drop_def keeps_except_blocks)
    have "wf_table (drop_segments (segment_drop m s) ss) \<and> keeps_except (physical_address ` set ss) (segment_drop m s) (drop_segments (segment_drop m s) ss)"
      by (rule Cons.IH[OF one(1)]) (use Cons.prems(2) in simp)
    then have "wf_table (drop_segments (segment_drop m s) ss)" "keeps_except ?D (segment_drop m s) (drop_segments (segment_drop m s) ss)"
      by (auto intro: keeps_except_mono)
    then show ?case using keeps_except_trans[OF one(2)] by (simp add: drop_segments_def)
  qed (simp add: drop_segments_def keeps_except_def)
  then show "wf_table (drop_segments m ss)" and "keeps_except (physical_address ` set ss) m (drop_segments m ss)" by auto
qed

lemma context_map_keeps:
  assumes "wf_table m"
  shows "wf_table (context_map k c m) \<and> keeps_blocks m (context_map k c m)"
proof -
  have fold: "wf_table (foldl segment_map m ss) \<and> keeps_blocks m (foldl segment_map m ss)" if "wf_table m" for m ss
    using that
  proof (induction ss arbitrary: m)
    case (Cons s ss)
    then show ?case using segment_map_keeps[OF Cons.prems, where s = s] keeps_blocks_trans by fastforce
  qed simp
  show ?thesis
  proof (cases "ctx_stack c")
    case (Some s)
    then show ?thesis
      using fold[OF segment_map_keeps(1)[OF assms, of s]] keeps_blocks_trans[OF segment_map_keeps(2)[OF assms, of s]]
      by (simp add: context_map_def)
  qed (use fold[OF assms] in \<open>simp add: context_map_def\<close>)
qed

lemma context_unmap_keeps:
  assumes "wf_table m"
  shows "wf_table (context_unmap k c m) \<and> keeps_blocks m (context_unmap k c m)"
proof -
  have fold: "wf_table (foldl segment_unmap m ss) \<and> keeps_blocks m (foldl segment_unmap m ss)" if "wf_table m" for m ss
    using that
  proof (induction ss arbitrary: m)
    case (Cons s ss)
    then show ?case using segment_unmap_keeps[OF Cons.prems, where s = s] keeps_blocks_trans by fastforce
  qed simp
  let ?m = "foldl segment_unmap m (mem_cell k (memory c))"
  have ok: "wf_table ?m" "keeps_blocks m ?m" using fold[OF assms] by auto
  show ?thesis
    using ok segment_unmap_keeps[OF ok(1)] keeps_blocks_trans[OF ok(2)]
    by (auto simp: context_unmap_def Let_def split: option.split)
qed

lemma image_keeps_except:
  "image_of vec s m1 c \<Longrightarrow> keeps_except D m1 m2 \<Longrightarrow> physical_address c \<notin> D \<Longrightarrow> seg_inside vec s \<Longrightarrow> image_of vec s m2 c"
  by (rule image_same[of vec s m1]) (auto simp: keeps_except_def dest: image_live)

text \<open>The state after the current context has become the new image.\<close>

lemma become_spec:
  assumes heap: "wf_table (kmem k)" and cur: "current k = Inr c" and cells: "cells_ok k"
    and old: "\<forall>s \<in> set (mem_cell k (memory c)). is_block (physical_address s)"
  shows "wf_table (kmem (become url segs c k))"
    and "keeps_except (physical_address ` set (mem_cell k (memory c))) (kmem k) (kmem (become url segs c k))"
    and "current (become url segs c k) = Inr (c\<lparr>ctx_name := url, cwd := fresh k, memory := fresh k\<rparr>)"
    and "mem_cell (become url segs c k) (fresh k) = segs"
    and "cwd_cell (become url segs c k) (fresh k) = cwd_cell k (cwd c)"
proof -
  let ?D = "physical_address ` set (mem_cell k (memory c))"
  let ?c = "c\<lparr>ctx_name := url, cwd := fresh k, memory := fresh k\<rparr>"
  let ?m1 = "context_unmap k c (kmem k)"
  have i: "enabled k" "cur_i k < length (inner k)" "c \<in> set (inner k)"
    using cur by (auto simp: current_def manager_get_def split: if_splits)
  have ne: "memory c \<noteq> fresh k" using cells i(3) by (auto simp: cells_ok_def)
  have m1: "wf_table ?m1" "keeps_except ?D (kmem k) ?m1" using context_unmap_keeps[OF heap, of k c] keeps_except_blocks by auto
  define m2 where "m2 = (if memory c \<in> memory ` set ((inner k)[cur_i k := ?c]) then ?m1 else drop_segments ?m1 (mem_cell k (memory c)))"
  have m2: "wf_table m2" "keeps_except ?D ?m1 m2"
    using drop_segments_keeps[OF m1(1) old] m1(1) by (auto simp: m2_def keeps_except_blocks)
  have km: "kmem (become url segs c k) = context_map (become url segs c k) ?c m2"
    by (cases "ctx_stack c") (simp_all add: become_def Let_def m2_def put_context_def context_map_def)
  show "wf_table (kmem (become url segs c k))" unfolding km using context_map_keeps[OF m2(1)] by blast
  show "keeps_except ?D (kmem k) (kmem (become url segs c k))"
    unfolding km using context_map_keeps[OF m2(1)] keeps_except_trans[OF keeps_except_trans[OF m1(2) m2(2)]] keeps_except_blocks by blast
  show "current (become url segs c k) = Inr ?c"
    using i by (simp add: become_def Let_def current_def manager_get_def put_context_def)
  show "mem_cell (become url segs c k) (fresh k) = segs" "cwd_cell (become url segs c k) (fresh k) = cwd_cell k (cwd c)"
    by (simp_all add: become_def Let_def put_context_def)
qed

section \<open>Words on a stack\<close>

definition words_at :: "mem \<Rightarrow> usize \<Rightarrow> nat \<Rightarrow> usize list" where
  "words_at m p n = map (\<lambda>j. read_usize m (p + 4 * of_nat j)) [0..<n]"

lemma stack_words_spec:
  assumes "4 * length as < 2 ^ 32" and "stack_words as sp m = (sp', m')"
  shows "sp' = sp - 4 * of_nat (length as) \<and> (\<forall>j < length as. read_usize m' (sp' + 4 * of_nat j) = rev as ! j)
    \<and> (\<forall>x. \<not> unat (x - sp') < 4 * length as \<longrightarrow> m' x = m x)"
  using assms
proof (induction as arbitrary: sp m)
  case (Cons a as)
  let ?m = "write_usize m (sp - 4) a" and ?n = "length as"
  have lt: "4 * ?n < 2 ^ 32" and rec: "stack_words as (sp - 4) ?m = (sp', m')"
    using Cons.prems by (simp_all add: redox_consts)
  note ih = Cons.IH[OF lt rec]
  have IH1: "sp' = sp - 4 - 4 * of_nat ?n" by (rule conjunct1[OF ih])
  have IH2: "read_usize m' (sp' + 4 * of_nat j) = rev as ! j" if "j < ?n" for j using conjunct1[OF conjunct2[OF ih]] that by blast
  have IH3: "m' x = ?m x" if "\<not> unat (x - sp') < 4 * ?n" for x using conjunct2[OF conjunct2[OF ih]] that by blast
  have "unat (of_nat (4 * ?n) :: usize) = 4 * ?n" by (rule unat_of_nat_lt) (use lt in simp)
  then have top: "unat (4 * of_nat ?n :: usize) = 4 * ?n" by simp
  have "m' (sp - 4 + i) = ?m (sp - 4 + i)" if "i < 4" for i
  proof (rule IH3)
    have eq: "sp - 4 + i - sp' = 4 * of_nat ?n + i" by (simp add: IH1)
    have "unat (4 * of_nat ?n + i) = 4 * ?n + unat i"
      using that Cons.prems(1) top by (subst unat_add_lt) (simp_all add: word_less_nat_alt)
    then show "\<not> unat (sp - 4 + i - sp') < 4 * ?n" unfolding eq by simp
  qed
  then have "read_usize m' (sp - 4) = read_usize ?m (sp - 4)" by (rule read_usize_cong)
  then have last: "read_usize m' (sp' + 4 * of_nat ?n) = a" by (simp add: IH1 mem_simps)
  have other: "m' x = m x" if x: "\<not> unat (x - sp') < 4 * length (a # as)" for x
  proof -
    have eq: "x - (sp - 4) = (x - sp') - 4 * of_nat ?n" by (simp add: IH1)
    have "unat ((x - sp') - 4 * of_nat ?n) = unat (x - sp') - 4 * ?n"
      using x top by (subst unat_sub_if') (simp add: word_le_nat_alt)
    then have "4 \<le> x - (sp - 4)" unfolding eq using x by (simp add: word_le_nat_alt)
    then show ?thesis using IH3[of x] x by (simp add: write_usize_other)
  qed
  have "read_usize m' (sp' + 4 * of_nat j) = rev (a # as) ! j" if "j < length (a # as)" for j
    using that IH2[of j] last by (cases "j = ?n") (auto simp: nth_append less_Suc_eq)
  moreover have "sp' = sp - 4 * of_nat (length (a # as))" by (simp add: IH1 algebra_simps)
  ultimately show ?case using other by blast
qed simp

lemma push_all_stack:
  "push_all m c as =
     (case stack_words as (reg_sp (regs c)) m of (sp, m') \<Rightarrow> (m', c\<lparr>regs := (regs c)\<lparr>reg_sp := sp\<rparr>\<rparr>))"
  by (induction m c as rule: push_all.induct) (auto simp: ctx_push_def Let_def split: prod.splits)

lemma words_atI:
  "(\<And>j. j < length ws \<Longrightarrow> read_usize m (p + 4 * of_nat j) = ws ! j) \<Longrightarrow> words_at m p (length ws) = ws"
  by (rule nth_equalityI) (simp_all add: words_at_def)

lemma length_push_args: "push_args store args vas segs m = (vas', segs', m') \<Longrightarrow> length vas' = length vas + length args"
  by (induction store args vas segs m rule: push_args.induct) (auto simp: Let_def split: prod.splits)

lemma heap_page_room:
  assumes "wf_table m" and "room (Suc K) m" and "heap_page segs m = (segs', m')"
  shows "wf_table m'" and "keeps_blocks m m'" and "room K m'"
proof -
  obtain p ma where a: "alloc m 4096 = (p, ma)" by fastforce
  then have m': "m' = ma" using assms(3) by (auto simp: heap_page_def split: if_splits)
  have n: "clusters_needed 4096 = 1" by (simp add: clusters_needed_def)
  note A = alloc_room[OF assms(2) _ _ a, unfolded n, simplified]
  obtain k where took: "took m k 1 p ma" using A(3) by auto
  show "wf_table m'" "keeps_blocks m m'" using took_wf[OF assms(1) took] took_keeps_blocks[OF assms(1) took] by (simp_all add: m')
  show "room K m'" using A(4) by (simp add: m')
qed

text \<open>Two runs of words in different blocks.\<close>

lemma words_at_stack:
  assumes "4 * length as < 2 ^ 32" and "stack_words as sp m = (sp', m')"
  shows "sp' = sp - 4 * of_nat (length as)" and "words_at m' sp' (length as) = rev as"
    and "\<not> unat (x - sp') < 4 * length as \<Longrightarrow> m' x = m x"
proof -
  note w = stack_words_spec[OF assms]
  show "sp' = sp - 4 * of_nat (length as)" by (rule conjunct1[OF w])
  show "words_at m' sp' (length as) = rev as"
    using words_atI[of "rev as" m' sp'] conjunct1[OF conjunct2[OF w]] unfolding length_rev by blast
  show "\<not> unat (x - sp') < 4 * length as \<Longrightarrow> m' x = m x" using conjunct2[OF conjunct2[OF w]] by blast
qed

lemma words_at_cong:
  assumes "\<And>x. unat (x - p) < 4 * n \<Longrightarrow> m' x = m x" and "4 * n < 2 ^ 32"
  shows "words_at m' p n = words_at m p n"
  unfolding words_at_def
proof (rule map_cong[OF refl])
  fix j assume j: "j \<in> set [0..<n]"
  have u: "unat (of_nat (4 * j) :: usize) = 4 * j" by (rule unat_of_nat_lt) (use j assms(2) in simp)
  show "read_usize m' (p + 4 * of_nat j) = read_usize m (p + 4 * of_nat j)"
  proof (rule read_usize_cong, rule assms(1))
    fix d :: usize assume d: "d < 4"
    have eq: "p + 4 * of_nat j + d - p = of_nat (4 * j) + d" by simp
    have "unat (of_nat (4 * j) + d) = 4 * j + unat d"
      using d u j assms(2) by (subst unat_add_lt) (simp_all add: word_less_nat_alt)
    then show "unat (p + 4 * of_nat j + d - p) < 4 * n" unfolding eq using d j by (simp add: word_less_nat_alt)
  qed
qed

text \<open>Words pushed from the top of a stack stay inside it.\<close>

lemma stack_offset:
  fixes a p :: usize
  assumes "unat (a - (p + CONTEXT_STACK_SIZE - 128 - 4 * of_nat n)) < 4 * n" and "4 * n + 128 \<le> 0x100000"
  shows "unat (a - p) < 0x100000"
proof -
  let ?d = "a - (p + CONTEXT_STACK_SIZE - 128 - 4 * of_nat n)" and ?o = "of_nat (0x100000 - 128 - 4 * n) :: usize"
  have "?o = of_nat (0x100000 - 128) - of_nat (4 * n)" using assms(2) by (subst of_nat_diff) simp_all
  then have eq: "a - p = ?d + ?o" by (simp add: CONTEXT_STACK_SIZE_def)
  have u: "unat ?o = 0x100000 - 128 - 4 * n" by (rule unat_of_nat_lt) simp
  have "unat (?d + ?o) = unat ?d + unat ?o" using assms u by (intro unat_add_lt) simp
  then show ?thesis unfolding eq u using assms by simp
qed

lemma exec_thread_parts:
  assumes "push_args store (rev args) [] (mem_cell k (memory (inner k ! i))) (kmem k) = (vas, segs, m1)"
    and "heap_page segs m1 = (segs', m2)" and "alloc m2 CONTEXT_STACK_SIZE = (p, m3)"
    and "i < length (inner k)"
  obtains m4 m5 m6 sp ksp c' where
    "stack_words ([0, 0] @ vas @ [of_nat (length args)]) (p + CONTEXT_STACK_SIZE - 128) m4 = (sp, m5)"
    and "stack_words [0x23, sp - p + CONTEXT_STACK_ADDR, 0x200, 0x1B, entry, userspace]
           (kernel_stack (inner k ! i) + CONTEXT_STACK_SIZE - 128) m5 = (ksp, m6)"
    and "kmem (exec_thread store userspace i entry args k) = m6"
    and "inner (exec_thread store userspace i entry args k) ! i = c'"
    and "reg_sp (regs c') = ksp" and "iopl c' = 0" and "vfork c' = None"
    and "ctx_stack c' = Some \<lparr>physical_address = p, virtual_address = CONTEXT_STACK_ADDR, virtual_size = CONTEXT_STACK_SIZE,
           writeable = True, allocated = True\<rparr>"
    and "mem_cell (exec_thread store userspace i entry args k) (memory (inner k ! i)) = segs'"
proof -
  let ?c = "inner k ! i"
  define m4 where "m4 = (case ctx_stack ?c of Some s \<Rightarrow> segment_drop m3 s | None \<Rightarrow> m3)"
  obtain sp m5 where u: "stack_words ([0, 0] @ vas @ [of_nat (length args)]) (p + CONTEXT_STACK_SIZE - 128) m4 = (sp, m5)"
    by fastforce
  obtain ksp m6 where ks: "stack_words [0x23, sp - p + CONTEXT_STACK_ADDR, 0x200, 0x1B, entry, userspace]
      (kernel_stack ?c + CONTEXT_STACK_SIZE - 128) m5 = (ksp, m6)" by fastforce
  have n: "(0x20 OR 3 :: usize) = 0x23" "(0x18 OR 3 :: usize) = 0x1B" by simp_all
  define c' where "c' = ?c\<lparr>iopl := 0,
    ctx_stack := Some \<lparr>physical_address = p, virtual_address = CONTEXT_STACK_ADDR, virtual_size = CONTEXT_STACK_SIZE,
           writeable = True, allocated = True\<rparr>, vfork := None, regs := regs_default\<lparr>reg_sp := ksp\<rparr>\<rparr>"
  let ?k = "put_context (k\<lparr>mem_cell := (mem_cell k)(memory ?c := segs')\<rparr>) i c'"
  have run: "exec_thread store userspace i entry args k =
      (case vfork ?c of Some v \<Rightarrow> ?k\<lparr>inner := unblock v (inner ?k)\<rparr> | None \<Rightarrow> ?k)\<lparr>kmem := m6\<rparr>"
    unfolding exec_thread_def Let_def assms(1-3) prod.case m4_def[symmetric] u n push_all_stack
    by (cases "vfork ?c") (simp_all add: ks c'_def del: stack_words.simps)
  show thesis
    by (rule that[OF u ks])
      (use assms(4) in \<open>auto simp: run c'_def put_context_def nth_unblock simp del: stack_words.simps split: option.split\<close>)
qed

text \<open>The argument segments.\<close>

lemma push_args_segments:
  "push_args store args vas segs m = (vas', segs', m') \<Longrightarrow>
   \<exists>new. segs' = segs @ new \<and> vas' = vas @ map virtual_address new
     \<and> map virtual_size new = map (\<lambda>a. of_nat (length (nul_terminated a))) args"
proof (induction store args vas segs m rule: push_args.induct)
  case (2 store arg args vas segs m)
  obtain p m1 where st: "store (as_bytes (nul_terminated arg)) m = (p, m1)" by fastforce
  let ?s = "\<lparr>physical_address = p, virtual_address = next_mem segs, virtual_size = of_nat (length (as_bytes (nul_terminated arg))),
    writeable = False, allocated = True\<rparr>"
  have rec: "push_args store args (vas @ [next_mem segs]) (segs @ [?s]) m1 = (vas', segs', m')"
    using "2.prems" by (simp add: st Let_def)
  obtain new where "segs' = (segs @ [?s]) @ new" "vas' = (vas @ [next_mem segs]) @ map virtual_address new"
      "map virtual_size new = map (\<lambda>a. of_nat (length (nul_terminated a))) args"
    using "2.IH"[OF refl st[symmetric] refl refl rec] by blast
  then show ?case by (intro exI[of _ "?s # new"]) (simp add: as_bytes_def)
qed simp

section \<open>Properties\<close>

text \<open>
  What storing the bytes of a file in the kernel heap promises: a new block that holds them, and every other
  block as it was.
\<close>

definition new_file :: "u8 list \<Rightarrow> mem \<Rightarrow> usize \<Rightarrow> mem \<Rightarrow> bool" where
  "new_file vec m p m' \<longleftrightarrow> wf_table m' \<and> keeps_blocks m m' \<and> stored vec m' p \<and> \<not> live m p \<and> (\<forall>q. live m' q \<longleftrightarrow> q = p \<or> live m q)"

text \<open>The context \<^term>\<open>c\<close> of \<^term>\<open>k\<close> has become the program \<^term>\<open>vec\<close> in \<^term>\<open>k'\<close>.\<close>

definition became :: "string \<Rightarrow> u8 list \<Rightarrow> 'r Kernel \<Rightarrow> Context \<Rightarrow> 'r Kernel \<Rightarrow> bool" where
  "became url vec k c k' \<longleftrightarrow> wf_table (kmem k')
     \<and> keeps_except (physical_address ` set (mem_cell k (memory c))) (kmem k) (kmem k')
     \<and> (\<exists>c'. current k' = Inr c' \<and> pid c' = pid c \<and> files c' = files c \<and> ctx_name c' = url
          \<and> cwd_cell k' (cwd c') = cwd_cell k (cwd c)
          \<and> list_all2 (\<lambda>s d. image_of vec s (kmem k') d \<and> \<not> live (kmem k) (physical_address d))
              (program_segments vec) (mem_cell k' (memory c'))
          \<and> distinct (map physical_address (mem_cell k' (memory c'))))"

lemma exec_elf_spec:
  assumes cur: "current k = Inr c" and cells: "cells_ok k" and old: "\<forall>s \<in> set (mem_cell k (memory c)). backed (kmem k) s"
    and st: "store vec (kmem k) = (p, m1)" and nf: "new_file vec (kmem k) p m1"
    and rm: "room (seg_clusters (program_segments vec)) m1" and ok: "is_program vec \<longrightarrow> program_ok vec"
  shows "if is_program vec \<and> program_entry vec \<noteq> 0 \<and> program_segments vec \<noteq> []
    then \<exists>k'. exec_elf store url vec k = (Ok (program_entry vec), k') \<and> became url vec k c k'
    else \<exists>m. exec_elf store url vec k = (Err ENOEXEC, k\<lparr>kmem := m\<rparr>) \<and> wf_table m \<and> keeps_blocks (kmem k) m
      \<and> (\<forall>q. live m q \<longleftrightarrow> live (kmem k) q)"
proof -
  have wf: "wf_table m1" and kb: "keeps_blocks (kmem k) m1" and sv: "stored vec m1 p" and fresh: "\<not> live (kmem k) p"
    and live: "\<And>q. live m1 q \<longleftrightarrow> q = p \<or> live (kmem k) q" using nf by (auto simp: new_file_def)
  have blk: "is_block p" using live[of p] by (simp add: live_def)
  show ?thesis
  proof (cases "is_program vec")
    case False
    then have "\<exists>err. elf_from (file_mem vec) 0 (of_nat (length vec)) = Inl err"
      by (auto simp: is_program_def elf_from_def file_elf_def split: if_splits)
    then have "exec_elf store url vec k = (Err ENOEXEC, k\<lparr>kmem := unalloc m1 p\<rparr>)"
      by (auto simp: exec_elf_def st stored_elf[OF sv])
    moreover have "keeps_blocks (kmem k) (unalloc m1 p)" by (rule keeps_blocks_unalloc[OF kb wf blk fresh])
    ultimately show ?thesis
      using False unalloc_wf[OF wf blk] unalloc_live[OF wf blk] live fresh by auto
  next
    case True
    let ?e = "\<lparr>elf_data = p, elf_len = of_nat (length vec)\<rparr>"
    have l52: "52 \<le> length vec" by (rule program_length[OF True stored_length[OF sv]])
    have pok: "program_ok vec" using ok True by blast
    have elf: "elf_from m1 p (of_nat (length vec)) = Inr ?e" using True by (simp add: stored_elf[OF sv] is_program_def)
    have ent: "elf_entry m1 ?e = program_entry vec"
      by (simp add: elf_entry_def program_entry_def stored_header[OF sv l52]) (simp add: file_elf_def)
    note segs = stored_segments[OF sv l52 pok, of "of_nat (length vec)"]
    obtain ss m2 where l: "load_all ?e (program_segments vec) m1 = (ss, m2)" by fastforce
    have src: "\<forall>s \<in> set (program_segments vec). seg_inside vec s" using pok by (simp add: program_ok_def Let_def)
    have L: "wf_table m2" "keeps_blocks m1 m2" "list_all2 (\<lambda>s c. image_of vec s m2 c) (program_segments vec) ss"
      "distinct (map physical_address ss)" "\<forall>c \<in> set ss. \<not> live m1 (physical_address c)"
      "\<And>q. live m2 q \<longleftrightarrow> live m1 q \<or> q \<in> physical_address ` set ss"
      using load_all_spec[OF wf sv _ src rm le_refl l] by auto
    have k2: "keeps_blocks (kmem k) m2" by (rule keeps_blocks_trans[OF kb L(2)])
    have emp: "ss = [] \<longleftrightarrow> program_segments vec = []" using L(3) by auto
    show ?thesis
    proof (cases "program_entry vec \<noteq> 0 \<and> ss \<noteq> []")
      case run: True
      let ?k = "k\<lparr>kmem := m2\<rparr>" and ?D = "physical_address ` set (mem_cell k (memory c))"
      have old': "\<forall>s \<in> set (mem_cell ?k (memory c)). is_block (physical_address s)"
        using old by (auto simp: backed_def live_def)
      have "current ?k = current k" by (simp add: current_def manager_get_def)
      then have cur': "current ?k = Inr c" "cells_ok ?k" using cur cells by (simp_all add: cells_ok_def)
      have "wf_table (kmem ?k)" using L(1) by simp
      note B = become_spec[OF this cur' old', where url = url and segs = ss]
      have res: "exec_elf store url vec k = (Ok (program_entry vec), become url ss c ?k)"
        using run cur by (auto simp: exec_elf_def st elf segs l ent word_gt_0)
      have nl: "\<not> live (kmem k) (physical_address d)" if "d \<in> set ss" for d using L(5) that live by blast
      have "image_of vec s (kmem (become url ss c ?k)) d" if "image_of vec s m2 d" "s \<in> set (program_segments vec)" "d \<in> set ss" for s d
      proof -
        have "physical_address d \<notin> ?D" using nl[OF that(3)] old by (auto simp: backed_def)
        then show ?thesis using image_keeps_except[OF that(1), of ?D] B(2) src that(2) by auto
      qed
      then have "list_all2 (\<lambda>s d. image_of vec s (kmem (become url ss c ?k)) d \<and> \<not> live (kmem k) (physical_address d)) (program_segments vec) ss"
        using nl by (intro list.rel_mono_strong[OF L(3)]) blast
      moreover have "keeps_except ?D (kmem k) (kmem (become url ss c ?k))"
        using keeps_except_trans[OF keeps_except_blocks[OF k2]] B(2) by simp
      ultimately have "became url vec k c (become url ss c ?k)" using B L(4) by (simp add: became_def)
      then show ?thesis using res run emp True by simp
    next
      case stop: False
      let ?m = "unalloc (drop_segments m2 ss) p"
      have sb: "\<forall>s \<in> set ss. is_block (physical_address s) \<and> allocated s"
        using L(3) by (auto simp: list_all2_conv_all_nth set_conv_nth image_of_def backed_def live_def)
      then have al: "filter allocated ss = ss" and bs: "\<forall>s \<in> set ss. is_block (physical_address s)" by (auto simp: filter_id_conv)
      note D = drop_segments_keeps[OF L(1) bs]
      have "exec_elf store url vec k = (Err ENOEXEC, k\<lparr>kmem := ?m\<rparr>)"
        using stop by (auto simp: exec_elf_def st elf segs l ent word_gt_0)
      moreover have kd: "keeps_blocks (kmem k) (drop_segments m2 ss)"
      proof -
        have "q \<notin> physical_address ` set ss" if "live (kmem k) q" for q using L(5) live that by blast
        then show ?thesis using k2 D(2) unfolding keeps_blocks_def keeps_except_def by metis
      qed
      moreover have "live ?m q \<longleftrightarrow> live (kmem k) q" for q
      proof -
        show ?thesis
          using unalloc_live[OF D(1) blk, of q] drop_segments_live[OF L(1) bs, of q] al live fresh L(5,6) by auto
      qed
      ultimately show ?thesis
        using stop emp True unalloc_wf[OF D(1) blk] keeps_blocks_unalloc[OF kd D(1) blk fresh] by auto
    qed
  qed
qed

text \<open>
  C7. Executing a program. Let the first argument name a file that can be opened and read, and whose bytes are not a script. If they
  are no executable, have no entry point or no loadable segment, the
  call fails with \<^verbatim>\<open>ENOEXEC\<close>, with every block of memory as it was and none more or less. Otherwise, if the headers and segments lie inside the file and
  memory has room, the call enters the program at its entry point with the arguments, and the current context has become the program: under
  its new name, with its own working directory of the same value, with its files, and with one segment for every loadable segment of the file, in order, each over a new block of
  its own that holds, at the address the file asks for, the bytes of the file followed by
  zeros. The memory of everyone else is untouched; only blocks of the old image may have been released.
\<close>

theorem exec_loads_image:
  assumes "current (contexts env) = Inr c" and "cells_ok (contexts env)"
    and "\<forall>s \<in> set (mem_cell (contexts env) (memory c)). backed (kmem (contexts env)) s"
    and "open_program w c args env = (Ok (url, r), env1)"
    and "read_all (resource_ops w) [] r (environment env1) = Some (Ok vec, r1, e1)" and "take 2 vec \<noteq> as_bytes ''#!''"
    and "store vec (kmem (contexts env)) = (p, m1)" and "new_file vec (kmem (contexts env)) p m1"
    and "room (seg_clusters (program_segments vec)) m1" and "is_program vec \<longrightarrow> program_ok vec"
  shows "if is_program vec \<and> program_entry vec \<noteq> 0 \<and> program_segments vec \<noteq> []
    then \<exists>env'. execute w store args env = Some (Ok (program_entry vec, args), env')
      \<and> became (url_to_string url) vec (contexts env) c (contexts env')
    else \<exists>env' m. execute w store args env = Some (Err ENOEXEC, env') \<and> contexts env' = (contexts env)\<lparr>kmem := m\<rparr>
      \<and> wf_table m \<and> keeps_blocks (kmem (contexts env)) m \<and> (\<forall>q. live m q \<longleftrightarrow> live (kmem (contexts env)) q)"
proof -
  have ctx: "contexts env1 = contexts env" using open_program_contexts[of w c args env] assms(4) by simp
  have run: "execute w store args env =
      (case exec_elf store (url_to_string url) vec (contexts env) of
         (Inl err, k) \<Rightarrow> Some (Err err, env1\<lparr>environment := e1, contexts := k\<rparr>)
       | (Inr entry, k) \<Rightarrow> Some (Ok (entry, args), env1\<lparr>environment := e1, contexts := k\<rparr>))"
    using assms(1,4-6) by (subst execute.simps) (simp add: ctx Let_def)
  show ?thesis
    using exec_elf_spec[where store = store and url = "url_to_string url", OF assms(1-3,7-10)] unfolding run by (auto split: if_splits)
qed

text \<open>
  C19. The stacks of a new program. When memory has room for the heap page and the stack, and the stack holds the arguments, the thread leaves on it the
  argument count, the pointers to the arguments in order, and two zeros, the first word at the user stack pointer; each pointer is the address of a new segment as long as its argument with the final zero.
  On the kernel stack, at the saved stack pointer, it leaves the frame with which \<^verbatim>\<open>context_userspace\<close> enters the
  program: its entry point, the user segments, interrupts enabled, and the user stack pointer. The stack lies in a block nobody had. The context has no
  input/output rights left and nobody waits for it any more.
\<close>

theorem exec_stack:
  assumes i: "i < length (inner k)"
    and args: "push_args store (rev args) [] (mem_cell k (memory (inner k ! i))) (kmem k) = (vas, segs, m1)"
    and heap: "wf_table m1" "room 257 m1"
    and ks: "live m1 (kernel_stack (inner k ! i))" "CONTEXT_STACK_SIZE \<le> alloc_size m1 (kernel_stack (inner k ! i))"
    and fit: "4 * (length args + 3) + 128 \<le> 0x100000"
  shows "\<exists>k' c' new sp p. k' = exec_thread store userspace i entry args k \<and> c' = inner k' ! i
      \<and> sp = CONTEXT_STACK_SIZE - 128 - 4 * of_nat (length args + 3) \<and> is_block p \<and> \<not> live m1 p
      \<and> words_at (kmem k') (p + sp) (length args + 3) = of_nat (length args) # map virtual_address (rev new) @ [0, 0]
      \<and> set new \<subseteq> set (mem_cell k' (memory (inner k ! i)))
      \<and> map virtual_size (rev new) = map (\<lambda>a. of_nat (length (nul_terminated a))) args
      \<and> ctx_stack c' = Some \<lparr>physical_address = p, virtual_address = CONTEXT_STACK_ADDR, virtual_size = CONTEXT_STACK_SIZE,
           writeable = True, allocated = True\<rparr>
      \<and> words_at (kmem k') (reg_sp (regs c')) 6 = [userspace, entry, 0x1B, 0x200, CONTEXT_STACK_ADDR + sp, 0x23]
      \<and> iopl c' = 0 \<and> vfork c' = None"
proof -
  let ?ks = "kernel_stack (inner k ! i)" and ?n = "length args + 3"
  obtain segs' m2 where hp: "heap_page segs m1 = (segs', m2)" by fastforce
  obtain p m3 where st': "alloc m2 CONTEXT_STACK_SIZE = (p, m3)" by fastforce
  have "room (Suc 256) m1" using heap(2) by simp
  note hk = heap_page_room[OF heap(1) this hp]
  have c256: "clusters_needed CONTEXT_STACK_SIZE = 256" by (simp add: clusters_needed_def CONTEXT_STACK_SIZE_def)
  have "0 < CONTEXT_STACK_SIZE" by (simp add: CONTEXT_STACK_SIZE_def)
  note A = alloc_room[OF hk(3) this _ st', unfolded c256, simplified]
  obtain n0 where took: "took m2 n0 256 p m3" using A(3) by blast
  have pnew: "is_block p" "\<not> live m1 p" using took_head(2)[OF took] took_fresh[OF hk(1) took] hk(2) by (auto simp: keeps_blocks_def)
  obtain new where new: "segs = mem_cell k (memory (inner k ! i)) @ new" "vas = map virtual_address new"
      "map virtual_size new = map (\<lambda>a. of_nat (length (nul_terminated a))) (rev args)"
    using push_args_segments[OF args] by auto
  have vs: "map virtual_size (rev new) = map (\<lambda>a. of_nat (length (nul_terminated a))) args"
    using new(3) by (metis rev_map rev_rev_ident)
  have sub: "set new \<subseteq> set segs'" using new(1) hp by (auto simp: heap_page_def split: prod.splits if_splits)
  obtain m4 m5 m6 sp ksp c' where e:
      "stack_words ([0, 0] @ vas @ [of_nat (length args)]) (p + CONTEXT_STACK_SIZE - 128) m4 = (sp, m5)"
      "stack_words [0x23, sp - p + CONTEXT_STACK_ADDR, 0x200, 0x1B, entry, userspace] (?ks + CONTEXT_STACK_SIZE - 128) m5 = (ksp, m6)"
    and c': "kmem (exec_thread store userspace i entry args k) = m6"
      "inner (exec_thread store userspace i entry args k) ! i = c'" "reg_sp (regs c') = ksp" "iopl c' = 0" "vfork c' = None"
      "ctx_stack c' = Some \<lparr>physical_address = p, virtual_address = CONTEXT_STACK_ADDR, virtual_size = CONTEXT_STACK_SIZE,
           writeable = True, allocated = True\<rparr>"
      "mem_cell (exec_thread store userspace i entry args k) (memory (inner k ! i)) = segs'"
    by (rule exec_thread_parts[OF args hp st' i])
  have len: "length ([0, 0] @ vas @ [of_nat (length args)]) = ?n" using length_push_args[OF args] by simp
  note U = words_at_stack[OF _ e(1), unfolded len]
  note K = words_at_stack[OF _ e(2), simplified]
  have "m6 x = m5 x" if x: "unat (x - sp) < 4 * ?n" for x
  proof (rule K(3), rule notI)
    assume "unat (x - ksp) < 24"
    then have kx: "unat (x - ?ks) < 0x100000" using stack_offset[of x ?ks 6] K(1) by simp
    have ux: "unat (x - p) < 0x100000" using stack_offset[of x p ?n] x U(1) fit by simp
    have lv: "live m2 ?ks" "unat (x - ?ks) < unat (alloc_size m2 ?ks)"
      using hk(2) ks kx by (auto simp: keeps_blocks_def word_le_nat_alt CONTEXT_STACK_SIZE_def)
    have "\<not> unat (?ks + (x - ?ks) - p) < 4096 * 256" by (rule took_apart(1)[OF hk(1) lv(1) took lv(2)])
    then show False using ux by simp
  qed
  then have "words_at m6 sp ?n = words_at m5 sp ?n" using fit by (intro words_at_cong) simp_all
  then have w: "words_at m6 sp ?n = of_nat (length args) # map virtual_address (rev new) @ [0, 0]"
    using U(2) fit by (simp add: new(2) rev_map)
  let ?o = "CONTEXT_STACK_SIZE - 128 - 4 * of_nat ?n"
  have so: "sp = p + ?o" using U(1) fit by (simp add: algebra_simps)
  have kw: "words_at m6 ksp 6 = [userspace, entry, 0x1B, 0x200, CONTEXT_STACK_ADDR + ?o, 0x23]"
    using K(2) unfolding so by (simp add: algebra_simps eval_nat_numeral)
  show ?thesis
    by (intro exI conjI) (rule refl | rule w[unfolded so, folded c'(1)] | rule vs | rule c'(6)[folded c'(2)] | rule pnew |
      use sub c' kw in simp)+
qed

theorem exec_stack_witness:
  "\<exists>k p va. words_at (kmem (exec_thread (\<lambda>_ m. (0x5000, m)) 0x123456 0 0x8048000 [''ls''] (k :: unit Kernel))) (p + (0x100000 - 144)) 4 = [1, va, 0, 0]"
proof -
  let ?store = "\<lambda>_ m. (0x5000 :: usize, m) :: usize \<times> mem"
  obtain ks r m where m: "wf_table m" "room 1000 m" "live m ks" "unat (alloc_size m ks) = 0x101000" by (rule demo_two_blocks)
  define k where "k = (demo_kernel [demo_parent ks] 0)\<lparr>kmem := m\<rparr>"
  have km: "kmem k = m" by (simp add: k_def)
  obtain vas segs where a: "push_args ?store (rev [''ls'']) [] (mem_cell k (memory (inner k ! 0))) (kmem k) = (vas, segs, m)"
    by (simp add: Let_def km)
  have st: "0 < length (inner k)" "kernel_stack (inner k ! 0) = ks" by (simp_all add: k_def demo_kernel_def demo_parent_def)
  have s: "live m (kernel_stack (inner k ! 0))" "CONTEXT_STACK_SIZE \<le> alloc_size m (kernel_stack (inner k ! 0))"
    using m(3,4) by (simp_all add: st(2) CONTEXT_STACK_SIZE_def word_le_nat_alt)
  have rm: "room 257 m" by (rule room_mono[OF m(2)]) simp
  have fit: "4 * (length [''ls''] + 3) + 128 \<le> (0x100000 :: nat)" by simp
  note E = exec_stack[OF st(1) a m(1) rm s fit, of "0x123456" "0x8048000"]
  from E obtain k' and new :: "ContextMemory list" and sp p where e: "k' = exec_thread ?store 0x123456 0 0x8048000 [''ls''] k"
      "sp = CONTEXT_STACK_SIZE - 128 - 4 * of_nat (length [''ls''] + 3)"
      "words_at (kmem k') (p + sp) (length [''ls''] + 3) = of_nat (length [''ls'']) # map virtual_address (rev new) @ [0, 0]"
      "map virtual_size (rev new) = map (\<lambda>a. of_nat (length (nul_terminated a))) [''ls'']"
    by (elim exE conjE) (rule, assumption+)
  have n: "length [''ls''] + 3 = (4 :: nat)" "sp = 0x100000 - 144" "length new = 1"
    using e(2) map_eq_imp_length_eq[OF e(4)] by (simp_all add: CONTEXT_STACK_SIZE_def)
  have "words_at (kmem k') (p + (0x100000 - 144)) 4 = 1 # map virtual_address (rev new) @ [0, 0]"
    using e(3) unfolding n(1,2) by simp
  then show ?thesis using n(3) unfolding e(1) by (cases new) auto
qed

text \<open>A program of 88 bytes: the header, one loadable segment of four bytes of code and four of zeros, the code.\<close>

definition demo_program :: "u8 list" where
  "demo_program = [0x7F, 0x45, 0x4C, 0x46, 1, 1, 1, 0, 0, 0, 0, 0, 0, 0, 0, 0, 2, 0, 3, 0, 1, 0, 0, 0, 0, 0x80, 4, 8,
     52, 0, 0, 0, 0, 0, 0, 0, 0, 0, 0, 0, 52, 0, 32, 0, 1, 0, 0, 0, 0, 0, 0, 0,
     1, 0, 0, 0, 84, 0, 0, 0, 0, 0x80, 4, 8, 0, 0x80, 4, 8, 4, 0, 0, 0, 8, 0, 0, 0, 5, 0, 0, 0, 0, 0x10, 0, 0,
     0x90, 0x90, 0x90, 0xC3]"

text \<open>The reading loop over a resource that reads like a file.\<close>

lemma read_all_file:
  fixes contents :: "'r \<Rightarrow> u8 list"
  assumes law: "\<And>r e. ok r \<Longrightarrow> \<exists>r' e'. r_read ops (replicate 4096 0) r e =
        ((Ok (of_nat (min 4096 (length (contents r) - pos r))),
          take (min 4096 (length (contents r) - pos r)) (drop (pos r) (contents r)) @ replicate (4096 - (length (contents r) - pos r)) 0), r', e')
        \<and> ok r' \<and> contents r' = contents r \<and> pos r' = pos r + min 4096 (length (contents r) - pos r)"
    and "ok r"
  shows "\<exists>r' e'. read_all ops acc r e = Some (Ok (acc @ drop (pos r) (contents r)), r', e')"
  using assms(2)
proof (induction "length (contents r) - pos r" arbitrary: acc r e rule: less_induct)
  case less
  let ?n = "min 4096 (length (contents r) - pos r)"
  obtain r1 e1 where s: "r_read ops (replicate 4096 0) r e =
        ((Ok (of_nat ?n), take ?n (drop (pos r) (contents r)) @ replicate (4096 - (length (contents r) - pos r)) 0), r1, e1)"
      "ok r1" "contents r1 = contents r" "pos r1 = pos r + ?n"
    using law[OF less.prems] by blast
  have u: "unat (of_nat ?n :: usize) = ?n" by (rule unat_of_nat_lt) simp
  show ?case
  proof (cases "?n = 0")
    case True
    then have "length (contents r) \<le> pos r" by simp
    then show ?thesis using s(1) True by (subst read_all.simps) simp
  next
    case False
    then have nz: "(of_nat ?n :: usize) \<noteq> 0" using u by (metis unat_0)
    have "length (contents r1) - pos r1 < length (contents r) - pos r" using False unfolding s(3,4) by linarith
    note ih = less.hyps[OF this s(2), of "acc @ take ?n (drop (pos r) (contents r))" e1]
    obtain r' e' where "read_all ops (acc @ take ?n (drop (pos r) (contents r))) r1 e1 =
        Some (Ok ((acc @ take ?n (drop (pos r) (contents r))) @ drop (pos r1) (contents r1)), r', e')"
      using ih by blast
    moreover have "take ?n (drop (pos r) (contents r)) @ drop (pos r1) (contents r1) = drop (pos r) (contents r)"
      using append_take_drop_id[of ?n "drop (pos r) (contents r)"] by (simp add: s(3,4) add.commute)
    moreover have "take ?n (take ?n (drop (pos r) (contents r)) @ replicate (4096 - (length (contents r) - pos r)) 0)
        = take ?n (drop (pos r) (contents r))" by simp
    ultimately show ?thesis using s(1) nz u by (subst read_all.simps) (simp del: take_append)
  qed
qed

lemma read_all_vec:
  "\<exists>r' e'. read_all vec_resource_ops acc r e = Some (Ok (acc @ drop (vr_seek r) (vr_data r)), r', e')"
  by (rule read_all_file[where ok = "\<lambda>_. True"])
    (simp_all add: vec_resource_ops_def vec_read_eq result_usize_def Let_def min_def)

text \<open>A store that takes one block of the allocator and copies the bytes into it.\<close>

definition block_store :: "u8 list \<Rightarrow> mem \<Rightarrow> usize \<times> mem" where
  "block_store vec m =
     (let (p, m) = alloc m (of_nat (length vec))
      in (p, \<lambda>a. if a - p < of_nat (length vec) then vec ! unat (a - p) else m a))"

lemma block_store_new:
  assumes "wf_table m" and "room K m" and "clusters_needed (of_nat (length vec)) \<le> K" and "vec \<noteq> []" and "length vec < 2 ^ 32"
    and "block_store vec m = (p, m')"
  shows "new_file vec m p m'" and "room (K - clusters_needed (of_nat (length vec))) m'"
proof -
  let ?n = "of_nat (length vec) :: usize"
  obtain q m1 where a: "alloc m ?n = (q, m1)" by fastforce
  have u: "unat ?n = length vec" by (rule unat_of_nat_lt) (use assms(5) in simp)
  have n0: "0 < ?n" using assms(4) u by (simp add: word_less_nat_alt)
  note A = alloc_room[OF assms(2) n0 assms(3) a]
  obtain n where took: "took m n (clusters_needed ?n) q m1" using A(3) by blast
  have p: "p = q" and m': "m' = (\<lambda>a. if a - p < ?n then vec ! unat (a - p) else m1 a)"
    using assms(6) a by (auto simp: block_store_def)
  have same: "m' x = m1 x" if "\<not> x - q < ?n" for x using that by (simp add: m' p)
  note F = fill_fresh_block[OF assms(1) took A(1), of m', OF same]
  have "m' (q + of_nat i) = vec ! i" if "i < length vec" for i
  proof -
    have "unat (of_nat i :: usize) = i" using that assms(5) by (intro unat_of_nat_lt) simp
    then show ?thesis using that u by (simp add: m' p word_less_nat_alt)
  qed
  moreover have "length vec \<le> 4096 * clusters_needed ?n" unfolding clusters_needed_def u by simp
  ultimately have "stored vec m' q" using F(4)[of q] F(5) by (simp add: stored_def)
  then show "new_file vec m p m'" using F(1,2,4) took_fresh[OF assms(1) took] by (simp add: new_file_def p)
  show "room (K - clusters_needed ?n) m'" using A(4) F(3) by blast
qed

lemma demo_program_bytes:
  "length demo_program = 88" "is_program demo_program" "program_entry demo_program = 0x8048000"
  "program_segments demo_program =
     [\<lparr>seg_type = 1, seg_off = 84, vaddr = 0x8048000, paddr = 0x8048000, file_len = 4, mem_len = 8, seg_flags = 5, seg_align = 0x1000\<rparr>]"
  "program_ok demo_program"
proof -
  show len: "length demo_program = 88" by (simp add: demo_program_def)
  define bs where "bs = demo_program"
  have l: "length bs = 88" using len by (simp add: bs_def)
  have b: "unat a < 88 \<Longrightarrow> file_mem bs a = demo_program ! unat a" for a by (simp add: file_mem_def l) (simp add: bs_def)
  note eval = b demo_program_def
  have four: "[0..<4] = [0, 1, 2, 3 :: nat]" by (simp add: upt_rec)
  have "is_program bs"
    by (simp add: is_program_def elf_from_def file_elf_def l redox_consts read_bytes_def four eval)
  then show "is_program demo_program" by (simp add: bs_def)
  have "program_entry bs = 0x8048000"
    by (simp add: program_entry_def elf_entry_def file_elf_def read_header_def read_usize_def eval)
  then show "program_entry demo_program = 0x8048000" by (simp add: bs_def)
  have segs: "program_segments bs =
     [\<lparr>seg_type = 1, seg_off = 84, vaddr = 0x8048000, paddr = 0x8048000, file_len = 4, mem_len = 8, seg_flags = 5, seg_align = 0x1000\<rparr>]"
    by (simp add: program_segments_def load_segment_def file_elf_def segment_at_def read_segment_def read_header_def read_usize_def
        read_u16_def eval)
  then show "program_segments demo_program =
     [\<lparr>seg_type = 1, seg_off = 84, vaddr = 0x8048000, paddr = 0x8048000, file_len = 4, mem_len = 8, seg_flags = 5, seg_align = 0x1000\<rparr>]"
    by (simp add: bs_def)
  have "ph_len (read_header (file_mem bs) 0) = 1" "ph_off (read_header (file_mem bs) 0) = 52"
    "ph_ent_len (read_header (file_mem bs) 0) = 32"
    by (simp_all add: read_header_def read_usize_def read_u16_def eval)
  then have "program_ok bs" by (simp add: program_ok_def Let_def segs seg_inside_def l)
  then show "program_ok demo_program" by (simp add: bs_def)
qed

definition demo_disk :: "(string \<times> u8 list, VecResource, unit) Env" where
  "demo_disk = demo_env\<lparr>contexts := (contexts demo_env)\<lparr>kmem := boot_mem\<rparr>, schemes := [(''file'', demo_program)]\<rparr>"

theorem exec_loads_image_witness:
  "\<exists>env'. execute demo_world block_store [''ls''] demo_disk = Some (Ok (0x8048000, [''ls'']), env')
     \<and> became ''file:/ls'' demo_program (contexts demo_disk) (demo_context 1 False False) (contexts env')"
proof -
  let ?c = "demo_context 1 False False" and ?k = "contexts demo_disk"
  have st: "current ?k = Inr ?c" "cells_ok ?k" "\<forall>s \<in> set (mem_cell ?k (memory ?c)). backed (kmem ?k) s" "kmem ?k = boot_mem"
    by (simp_all add: demo_disk_def demo_env_simps cells_ok_def)
  obtain url r env1 where o: "open_program demo_world ?c [''ls''] demo_disk = (Ok (url, r), env1)"
      "url_to_string url = ''file:/ls''" "vr_seek r = 0" "vr_data r = demo_program"
    by (simp add: open_program_def first_arg_def cwd_of_def demo_disk_def demo_env_simps canonicalize_def url_from_str_def env_open_def
        slice_to_def slice_from_def url_to_string_def vec_new_def Let_def)
  obtain r1 e1 where rd: "read_all (resource_ops demo_world) [] r (environment env1) = Some (Ok demo_program, r1, e1)"
    using read_all_vec[of "[]" r "environment env1"] o(3,4) by (auto simp: demo_world_def)
  have hd: "take 2 demo_program \<noteq> as_bytes ''#!''" by (simp add: demo_program_def as_bytes_def)
  obtain p m1 where s: "block_store demo_program (kmem ?k) = (p, m1)" by fastforce
  have c: "clusters_needed (of_nat (length demo_program)) = 1" by (simp add: demo_program_bytes(1) clusters_needed_def)
  have ne: "clusters_needed (of_nat (length demo_program)) \<le> 30175" "demo_program \<noteq> []" "length demo_program < 2 ^ 32"
    using c demo_program_bytes(1) by auto
  note N = block_store_new[OF boot_wf boot_room ne s[unfolded st(4)], unfolded c]
  have nf: "new_file demo_program (kmem ?k) p m1" using N(1) by (simp add: st(4))
  have rm: "room (seg_clusters (program_segments demo_program)) m1"
    using room_mono[OF N(2), of 1] by (simp add: demo_program_bytes(4) seg_clusters_def clusters_needed_def)
  show ?thesis
    using exec_loads_image[where store = block_store, OF st(1-3) o(1) rd hd s nf rm] demo_program_bytes o(2) by simp
qed

text \<open>
  Reading a program. The loop that reads a program from an in-memory file, whose reads return at most 4096 bytes at a time, ends, and
  what it has collected is everything from the position of the resource to the end of the file.
\<close>

theorem read_all_returns:
  "\<exists>r' e'. read_all vec_resource_ops acc r e = Some (Ok (acc @ drop (vr_seek r) (vr_data r)), r', e')"
  by (rule read_all_file[where ok = "\<lambda>_. True"])
    (simp_all add: vec_resource_ops_def vec_read_eq result_usize_def Let_def min_def)

end
