(* ===== verification/Schemes.thy ===== *)
theory Schemes
  imports Console RedoxFs
begin

text \<open>
  The schemes of the kernel that show its state, \<^verbatim>\<open>memory:\<close>, \<^verbatim>\<open>context:\<close> and \<^verbatim>\<open>interrupt:\<close>
  (each file opened there is a text made when it is opened), the files built into the kernel, \<^verbatim>\<open>initfs:\<close>, and the screen with its events,
  \<^verbatim>\<open>display:\<close>. All are under \<^verbatim>\<open>kernel/schemes\<close>. The map of built-in files is generated by the build and an argument.
\<close>

section \<open>Tables of text\<close>

text \<open>\<^verbatim>\<open>{:<n}\<close> of the formatting macros.\<close>

definition pad_right :: "nat \<Rightarrow> string \<Rightarrow> string" where
  "pad_right n s = s @ replicate (n - length s) (CHR '' '')"

definition dec :: "usize \<Rightarrow> string" where
  "dec n = num_chars 10 (unat n)"

definition newline :: string where
  "newline = [CHR 0x0A]"

section \<open>Memory\<close>

definition memory_open :: "mem \<Rightarrow> VecResource result" where
  "memory_open m =
     Ok (vec_new ''memory:'' (as_bytes
       (''Memory Used: '' @ dec (memory_used m div 1024) @ '' KB'' @ newline @
        ''Memory Free: '' @ dec (memory_free m div 1024) @ '' KB'' @ newline)))"

section \<open>Contexts\<close>

definition context_memory :: "'r Kernel \<Rightarrow> Context \<Rightarrow> usize" where
  "context_memory k c =
     (let memory = (if kernel_stack c > 0 then CONTEXT_STACK_SIZE else 0);
          memory = (case ctx_stack c of Some s \<Rightarrow> memory + virtual_size s | None \<Rightarrow> memory)
      in foldl (\<lambda>n s. n + virtual_size s) memory (mem_cell k (Context.memory c)))"

definition memory_string :: "usize \<Rightarrow> string" where
  "memory_string n =
     (if n \<ge> 1024 * 1024 * 1024 then dec (n div 1024 div 1024 div 1024) @ '' GB''
      else if n \<ge> 1024 * 1024 then dec (n div 1024 div 1024) @ '' MB''
      else if n \<ge> 1024 then dec (n div 1024) @ '' KB''
      else dec n @ '' B'')"

definition flags_string :: "Context \<Rightarrow> string" where
  "flags_string c =
     (if ctx_stack c \<noteq> None then ''U'' else ''K'') @ (if blocked c then ''B'' else []) @ (if exited c then ''E'' else []) @
     (if vfork c \<noteq> None then ''V'' else []) @ (if wake c \<noteq> None then ''S'' else [])"

definition context_columns :: "string list \<Rightarrow> string" where
  "context_columns cs = concat (map2 pad_right [6, 6, 8, 8, 8, 6, 6, 6, 0] cs) @ newline"

definition context_line :: "'r Kernel \<Rightarrow> Context \<Rightarrow> string" where
  "context_line k c = context_columns
     [dec (pid c), dec (ppid c), dec (switch c), dec (slices c), memory_string (context_memory k c),
      num_chars 10 (length (file_cell k (files c))), flags_string c, dec (iopl c), ctx_name c]"

definition context_open :: "'r Kernel \<Rightarrow> VecResource result" where
  "context_open k =
     Ok (vec_new ''context:'' (as_bytes
       (context_columns [''PID'', ''PPID'', ''SWITCH'', ''TIME'', ''MEM'', ''FDS'', ''FLG'', ''IOPL'', ''NAME''] @
        concat (map (context_line k) (inner k)))))"

section \<open>Interrupts\<close>

definition IRQ_NAME :: "string list" where
  "IRQ_NAME =
     [''Programmable Interval Timer'', ''Keyboard'', ''Cascade'', ''Serial 2 and 4'', ''Serial 1 and 3'', ''Parallel 2'', ''Floppy'',
      ''Parallel 1'', ''Realtime Clock'', ''PCI 1'', ''PCI 2'', ''PCI 3'', ''Mouse'', ''Coprocessor'', ''IDE Primary'', ''IDE Secondary'']"

definition EXCEPTION_NAME :: "(nat \<times> string) list" where
  "EXCEPTION_NAME =
     [(0x80, ''System Call''), (0x0, ''Divide by zero exception''), (0x1, ''Debug exception''), (0x2, ''Non-maskable interrupt''),
      (0x3, ''Breakpoint exception''), (0x4, ''Overflow exception''), (0x5, ''Bound range exceeded exception''),
      (0x6, ''Invalid opcode exception''), (0x7, ''Device not available exception''), (0x8, ''Double fault''),
      (0xA, ''Invalid TSS exception''), (0xB, ''Segment not present exception''), (0xC, ''Stack-segment fault''),
      (0xD, ''General protection fault''), (0xE, ''Page fault''), (0x10, ''x87 floating-point exception''),
      (0x11, ''Alignment check exception''), (0x12, ''Machine check exception''), (0x13, ''SIMD floating-point exception''),
      (0x14, ''Virtualization exception''), (0x1E, ''Security exception'')]"

text \<open>Indexing past the end of the table of names is a panic, \<^term>\<open>None\<close>.\<close>

definition description :: "nat \<Rightarrow> string option" where
  "description i =
     (if 0x20 \<le> i \<and> i \<le> 0x30 then (if i - 0x20 < length IRQ_NAME then Some (IRQ_NAME ! (i - 0x20)) else None)
      else (case map_of EXCEPTION_NAME i of Some s \<Rightarrow> Some s | None \<Rightarrow> Some ''Unknown Interrupt''))"

definition upper :: "char \<Rightarrow> char" where
  "upper c = (let n = of_char c :: nat in if 97 \<le> n \<and> n \<le> 122 then char_of (n - 32) else c)"

fun interrupt_lines :: "nat \<Rightarrow> u64 list \<Rightarrow> string option" where
  "interrupt_lines i [] = Some []"
| "interrupt_lines i (count # counts) =
     (if count > 0 then
        Option.bind (description i) (\<lambda>d.
          map_option (\<lambda>rest. pad_right 6 (map upper (num_chars 16 i)) @ pad_right 16 (num_chars 10 (unat count)) @ d @ newline @ rest)
            (interrupt_lines (i + 1) counts))
      else interrupt_lines (i + 1) counts)"

definition interrupt_open :: "u64 list \<Rightarrow> VecResource result option" where
  "interrupt_open counts =
     map_option (\<lambda>s. Ok (vec_new ''interrupt:''
         (as_bytes (pad_right 6 ''INT'' @ pad_right 16 ''COUNT'' @ ''DESCRIPTION'' @ newline @ s))))
       (interrupt_lines 0 counts)"

section \<open>Built-in entries\<close>

text \<open>\<^term>\<open>entries\<close> are the entries of the map in the order of their names.\<close>

definition initfs_list :: "(string \<times> u8 list) list \<Rightarrow> string" where
  "initfs_list entries = foldl (\<lambda>list f. (if list \<noteq> [] then list @ newline else list) @ fst f) [] entries"

definition initfs_open :: "(string \<times> u8 list) list \<Rightarrow> Url \<Rightarrow> VecResource result" where
  "initfs_open entries url =
     (let reference = trim_slashes (url_reference url)
      in if reference = [] then Ok (vec_new (url_to_string url) (as_bytes (initfs_list entries)))
         else (case map_of entries reference of
                 Some data \<Rightarrow> Ok (vec_new (url_to_string url) data)
               | None \<Rightarrow> Err ENOENT))"

section \<open>The display\<close>

record DisplayResource =
  dr_path :: string
  dr_display :: Display
  dr_seek :: usize

definition display_dup :: "DisplayResource \<Rightarrow> DisplayResource result" where
  "display_dup r = Ok \<lparr>dr_path = dr_path r, dr_display = dr_display r, dr_seek = dr_seek r\<rparr>"

definition display_path :: "DisplayResource \<Rightarrow> u8 list \<Rightarrow> nat result \<times> u8 list" where
  "display_path r = name_path (dr_path r)"

definition SIZE_OF_EVENT :: nat where
  "SIZE_OF_EVENT = 32"

fun more_events :: "nat \<Rightarrow> u8 list \<Rightarrow> Event list \<Rightarrow> nat \<times> u8 list \<times> Event list" where
  "more_events i buf [] = (i, buf, [])"
| "more_events i buf (event # q) =
     (if i + SIZE_OF_EVENT \<le> length buf
      then more_events (i + SIZE_OF_EVENT) (take i buf @ event_bytes event @ drop (i + SIZE_OF_EVENT) buf) q
      else (i, buf, event # q))"

text \<open>One attempt to read; \<^term>\<open>None\<close> when the reader waits for an event.\<close>

definition display_read :: "u8 list \<Rightarrow> Event WaitQueue \<Rightarrow> 'r Kernel \<Rightarrow> (nat result \<times> u8 list) option \<times> Event WaitQueue \<times> 'r Kernel" where
  "display_read buf events k =
     (if length buf \<ge> SIZE_OF_EVENT then
        (let (v, q, k) = queue_receive events k
         in case v of
              None \<Rightarrow> (None, q, k)
            | Some event \<Rightarrow>
                (let (i, buf, left) = more_events SIZE_OF_EVENT (event_bytes event @ drop SIZE_OF_EVENT buf) (wait_inner q)
                 in (Some (Ok i, buf), q\<lparr>wait_inner := left\<rparr>, k)))
      else (Some (Err EINVAL, buf), events, k))"

text \<open>Writing \<^term>\<open>len\<close> bytes that lie at \<^term>\<open>src\<close>; the comparison is between signed numbers.\<close>

definition write_size :: "DisplayResource \<Rightarrow> usize \<Rightarrow> usize" where
  "write_size r len =
     of_int (max 0 (min (sint (disp_size (dr_display r) - dr_seek r :: isize)) (sint (len div 4 :: isize))))"

definition display_write :: "DisplayResource \<Rightarrow> usize \<Rightarrow> usize \<Rightarrow> mem \<Rightarrow> usize result \<times> mem" where
  "display_write r src len m =
     (let sz = write_size r len
      in (Ok sz, if sz > 0 then fast_copy m (pixel_ptr (onscreen (dr_display r)) (dr_seek r)) src sz else m))"

definition at_least_zero :: "isize \<Rightarrow> usize" where
  "at_least_zero i = (if sint i < 0 then 0 else i)"

definition display_seek :: "DisplayResource \<Rightarrow> ResourceSeek \<Rightarrow> usize result \<times> DisplayResource" where
  "display_seek r p =
     (let n = disp_size (dr_display r);
          s = (case p of
                 SeekStart offset \<Rightarrow> min n offset
               | SeekCurrent offset \<Rightarrow> min n (at_least_zero (dr_seek r + offset))
               | SeekEnd offset \<Rightarrow> min n (at_least_zero (n + offset)))
      in (Ok s, r\<lparr>dr_seek := s\<rparr>))"

definition display_sync :: "unit result" where
  "display_sync = Ok ()"

definition display_open :: "VBEModeInfo option \<Rightarrow> Console \<Rightarrow> mem \<Rightarrow> DisplayResource result \<times> Console \<times> mem" where
  "display_open vbe c m =
     (if draw c then
        (case display_root vbe m of
           (Some d, m) \<Rightarrow>
             (Ok \<lparr>dr_path = ''display:'' @ dec (width d) @ ''/'' @ dec (height d), dr_display = d, dr_seek = 0\<rparr>, c\<lparr>draw := False\<rparr>, m)
         | (None, m) \<Rightarrow> (Err ENOENT, c, m))
      else (Err EACCES, c, m))"

text \<open>Dropping the scheme, not a resource, gives the screen back to the console.\<close>

definition display_scheme_drop :: "Console \<Rightarrow> Console" where
  "display_scheme_drop c = c\<lparr>draw := True\<rparr>"

section \<open>Properties\<close>

lemma description_total: "description i = None \<longleftrightarrow> i = 0x30"
  by (auto simp: description_def IRQ_NAME_def split: option.split)

lemma interrupt_lines_None: "interrupt_lines i counts = None \<longleftrightarrow> (\<exists>j < length counts. i + j = 0x30 \<and> counts ! j > 0)"
proof (induction i counts rule: interrupt_lines.induct)
  case (2 i count counts)
  have "(\<exists>j < length (count # counts). i + j = 0x30 \<and> (count # counts) ! j > 0) \<longleftrightarrow>
      i = 0x30 \<and> count > 0 \<or> (\<exists>j < length counts. i + 1 + j = 0x30 \<and> counts ! j > 0)"
    by (auto simp: less_Suc_eq_0_disj)
  then show ?case
    using 2 description_total[of i] by (cases "count > 0"; cases "description i") auto
qed simp

text \<open>
  The list of interrupts can be read exactly as long as interrupt 48 has never occurred: the name of that one is looked up one past the end of the
  table of the sixteen hardware interrupts, and the kernel panics.
\<close>

theorem interrupt_open_panics:
  "length counts = 256 \<Longrightarrow> interrupt_open counts = None \<longleftrightarrow> counts ! 0x30 > 0"
  by (auto simp: interrupt_open_def interrupt_lines_None)

theorem interrupt_open_panics_witness: "interrupt_open ((replicate 256 0)[0x30 := 1]) = None"
  using interrupt_open_panics[of "(replicate 256 0)[0x30 := 1]"] by simp

text \<open>Events in a buffer.\<close>

lemma length_event_bytes [simp]: "length (event_bytes e) = 32"
  by (simp add: event_bytes_def i64_bytes_def)

lemma more_events_eq:
  assumes "i \<le> length buf"
  shows "more_events i buf q =
    (let n = min (length q) ((length buf - i) div 32)
     in (i + 32 * n, take i buf @ concat (map event_bytes (take n q)) @ drop (i + 32 * n) buf, drop n q))"
  using assms
proof (induction i buf q rule: more_events.induct)
  case (2 i buf e q)
  show ?case
  proof (cases "i + 32 \<le> length buf")
    case True
    let ?buf = "take i buf @ event_bytes e @ drop (i + 32) buf"
    have len: "length ?buf = length buf" using True by simp
    have d: "(length buf - i) div 32 = Suc ((length buf - (i + 32)) div 32)"
      using True by (subst div_if) (auto simp: algebra_simps)
    have run: "more_events i buf (e # q) = more_events (i + 32) ?buf q" using True by (simp add: SIZE_OF_EVENT_def)
    have t: "take (i + 32) ?buf = take i buf @ event_bytes e" "drop (i + 32 + n) ?buf = drop (i + 32 + n) buf" for n
      using True by (simp_all add: add.commute)
    show ?thesis
      unfolding run using "2.IH"[unfolded SIZE_OF_EVENT_def] True
      by (simp add: Let_def len d t del: append_assoc drop_append take_append) (simp add: min_def algebra_simps)
  next
    case False
    then have "(length buf - i) div 32 = 0" by simp
    then show ?thesis using False "2.prems" by (simp add: SIZE_OF_EVENT_def)
  qed
qed simp

text \<open>
  Reading events. With events waiting and room for one, a read of the display returns as many of the oldest events as fit, in order, each in the
  format of a packed event, leaves the rest of the buffer as it was and the other events in the queue; a buffer too small for one event is
  refused with \<^verbatim>\<open>EINVAL\<close> and takes none.
\<close>

theorem display_events_read:
  assumes "wait_inner events = es" and "es \<noteq> []"
  shows "display_read buf events k =
    (if 32 \<le> length buf then
       (let n = min (length es) (length buf div 32)
        in (Some (Ok (32 * n), concat (map event_bytes (take n es)) @ drop (32 * n) buf), events\<lparr>wait_inner := drop n es\<rparr>, k))
     else (Some (Err EINVAL, buf), events, k))"
proof -
  obtain e q where es: "es = e # q" using assms(2) by (cases es) auto
  show ?thesis
  proof (cases "32 \<le> length buf")
    case True
    let ?buf = "event_bytes e @ drop 32 buf"
    have len: "length ?buf = length buf" "32 \<le> length ?buf" using True by simp_all
    have d: "length buf div 32 = Suc ((length buf - 32) div 32)" using True by (subst div_if) simp
    have t: "take 32 ?buf = event_bytes e" "drop (32 + n) ?buf = drop (32 + n) buf" for n by (simp_all add: add.commute)
    have r: "queue_receive events k = (Some e, events\<lparr>wait_inner := q\<rparr>, k)"
      by (simp add: queue_receive_def wait_receive_def assms(1) es)
    show ?thesis
      using True more_events_eq[OF len(2), of q]
      by (simp add: display_read_def SIZE_OF_EVENT_def r es d len(1) t Let_def del: append_assoc drop_append take_append)
  qed (simp add: display_read_def SIZE_OF_EVENT_def)
qed

theorem display_events_read_witness:
  "fst (display_read (replicate 40 0) \<lparr>wait_inner = [event_new, event_new], condition = []\<rparr> (demo_kernel [] 0)) =
     Some (Ok 32, event_bytes event_new @ replicate 8 0)"
  using display_events_read[of "\<lparr>wait_inner = [event_new, event_new], condition = []\<rparr>" "[event_new, event_new]"
      "replicate 40 0" "demo_kernel [] 0"] by simp

text \<open>The number of pixels written.\<close>

lemma unat_write_size:
  assumes "dr_seek r \<le> disp_size (dr_display r)" and "unat (disp_size (dr_display r)) < 2 ^ 31"
  shows "unat (write_size r len) = min (unat (disp_size (dr_display r)) - unat (dr_seek r)) (unat len div 4)"
proof -
  let ?n = "disp_size (dr_display r)" and ?s = "dr_seek r"
  have d: "unat (?n - ?s) = unat ?n - unat ?s" using assms(1) by (simp add: unat_sub)
  have "sint (?n - ?s) = int (unat ?n - unat ?s)"
    using assms(2) d by (subst sint_unat_small) simp_all
  moreover have "unat (len div 4) < 2 ^ 31" using unat_lt2p[of len] by (simp add: unat_div)
  then have "sint (len div 4) = int (unat len div 4)" by (subst sint_unat_small) (simp_all add: unat_div)
  ultimately have "write_size r len = of_nat (min (unat ?n - unat ?s) (unat len div 4))"
    by (simp add: write_size_def of_nat_min[symmetric])
  then show ?thesis using assms(2) unat_lt2p[of ?n] by (simp only:) (rule unat_of_nat_lt, simp)
qed

text \<open>
  Writing to the display. However the resource was positioned, a write copies whole pixels, as many as there are in the buffer and up to the end of the screen, to
  the position of the resource, and changes no byte outside the screen. The result is the number of pixels, not of bytes.
\<close>

theorem display_write_bounds:
  assumes seek: "dr_seek r \<le> disp_size (dr_display r)" and small: "4 * unat (disp_size (dr_display r)) < 2 ^ 32"
    and apart: "\<forall>i < len. \<not> src + i - onscreen (dr_display r) < 4 * disp_size (dr_display r)"
  shows "\<exists>n m'. display_write r src len m = (Ok n, m')
      \<and> unat n = min (unat (disp_size (dr_display r)) - unat (dr_seek r)) (unat len div 4)
      \<and> (\<forall>a. \<not> a - onscreen (dr_display r) < 4 * disp_size (dr_display r) \<longrightarrow> m' a = m a)
      \<and> (\<forall>i < 4 * n. m' (pixel_ptr (onscreen (dr_display r)) (dr_seek r) + i) = m (src + i))
      \<and> dr_seek (snd (display_seek r p)) \<le> disp_size (dr_display r)"
proof -
  let ?d = "dr_display r" let ?n = "write_size r len" and ?b = "onscreen ?d" and ?o = "4 * dr_seek r"
  have n: "unat ?n = min (unat (disp_size ?d) - unat (dr_seek r)) (unat len div 4)"
    using small by (intro unat_write_size[OF seek]) simp
  have s: "unat (dr_seek r) \<le> unat (disp_size ?d)" using seek by (simp add: word_le_nat_alt)
  have u: "unat (4 * ?n) = 4 * unat ?n" "unat ?o = 4 * unat (dr_seek r)" "unat (4 * disp_size ?d) = 4 * unat (disp_size ?d)"
    using small s n by (simp_all add: unat_mult_lt)
  have inside: "x - ?b < 4 * disp_size ?d" if "x - (?b + ?o) < 4 * ?n" for x
    using that by (rule shift_in_block) (use u n s in simp)
  have "src + i \<noteq> ?b + ?o + j" if "i < ?n * 4" "j < ?n * 4" for i j
  proof
    assume eq: "src + i = ?b + ?o + j"
    have "i < len" using that(1) u(1) n by (simp add: word_less_nat_alt mult.commute)
    moreover have "src + i - ?b < 4 * disp_size ?d" unfolding eq by (rule inside) (use that(2) in \<open>simp add: mult.commute\<close>)
    ultimately show False using apart by blast
  qed
  then have copy: "memcpy m (?b + ?o) src (?n * 4) = copied m (?b + ?o) src (?n * 4)" by (rule memcpy_eq)
  define m' where "m' = (if ?n > 0 then copied m (?b + ?o) src (?n * 4) else m)"
  have w: "display_write r src len m = (Ok ?n, m')"
    by (simp add: display_write_def fast_copy_def pixel_ptr_def copy m'_def Let_def)
  have "m' a = m a" if "\<not> a - ?b < 4 * disp_size ?d" for a
    using inside[of a] that by (auto simp: m'_def copied_def mult.commute)
  moreover have "m' (pixel_ptr ?b (dr_seek r) + i) = m (src + i)" if "i < 4 * ?n" for i
    using that by (auto simp: m'_def copied_def pixel_ptr_def mult.commute word_gt_0)
  moreover have "dr_seek (snd (display_seek r p)) \<le> disp_size ?d"
    by (cases p) (simp_all add: display_seek_def Let_def)
  ultimately show ?thesis using w n by blast
qed

theorem display_write_bounds_witness:
  "\<exists>n m'. display_write \<lparr>dr_path = [], dr_display = \<lparr>offscreen = 0, onscreen = 0x8000000, disp_size = 786432, width = 1024, height = 768\<rparr>, dr_seek = 786430\<rparr>
      0xE000000 16 (\<lambda>_. 7) = (Ok n, m') \<and> unat n = 2"
proof -
  let ?r = "\<lparr>dr_path = [], dr_display = \<lparr>offscreen = 0, onscreen = 0x8000000, disp_size = 786432, width = 1024, height = 768\<rparr>, dr_seek = 786430\<rparr>"
  have a: "\<not> 0xE000000 + i - 0x8000000 < (4 * 786432 :: usize)" if "i < 16" for i :: usize
  proof -
    have "unat i < 16" using that by (simp add: word_less_nat_alt)
    then have "unat (100663296 + i) = 100663296 + unat i" by (intro trans[OF unat_add_lt]) simp_all
    then show ?thesis by (simp add: word_less_nat_alt)
  qed
  show ?thesis using display_write_bounds[of ?r 16 "0xE000000" "\<lambda>_. 7" "SeekStart 0"] a by auto
qed

end
