(* ===== verification/Raster.thy ===== *)
theory Raster
  imports Prelude "HOL-Library.Monad_Syntax"
begin

text \<open>
  Rectangles and images of the window manager (\<^verbatim>\<open>crates/orbital\<close>: \<^verbatim>\<open>rect.rs\<close>, \<^verbatim>\<open>color.rs\<close>, \<^verbatim>\<open>image.rs\<close>).
  A coordinate is an integer of 32 bits, here an integer with the wrap-around of every operation written out; \<^term>\<open>None\<close> is a failed assertion or
  an index outside a slice. A negative index becomes an unsigned one past the end of every slice.
\<close>

section \<open>Rectangles\<close>

definition wrap32 :: "int \<Rightarrow> int" where
  "wrap32 v = (v + 2 ^ 31) mod 2 ^ 32 - 2 ^ 31"

record Rect =
  rect_x :: int
  rect_y :: int
  rect_w :: int
  rect_h :: int

definition rect_new :: "int \<Rightarrow> int \<Rightarrow> int \<Rightarrow> int \<Rightarrow> Rect option" where
  "rect_new x y w h = (if 0 \<le> w \<and> 0 \<le> h then Some \<lparr>rect_x = x, rect_y = y, rect_w = w, rect_h = h\<rparr> else None)"

definition rect_default :: Rect where
  "rect_default = \<lparr>rect_x = 0, rect_y = 0, rect_w = 0, rect_h = 0\<rparr>"

definition area :: "Rect \<Rightarrow> int" where
  "area r = wrap32 (rect_w r * rect_h r)"

definition rect_left :: "Rect \<Rightarrow> int" where
  "rect_left r = rect_x r"

definition rect_right :: "Rect \<Rightarrow> int" where
  "rect_right r = wrap32 (rect_x r + rect_w r)"

definition rect_top :: "Rect \<Rightarrow> int" where
  "rect_top r = rect_y r"

definition rect_bottom :: "Rect \<Rightarrow> int" where
  "rect_bottom r = wrap32 (rect_y r + rect_h r)"

definition container :: "Rect \<Rightarrow> Rect \<Rightarrow> Rect option" where
  "container r other =
     (let l = min (rect_left r) (rect_left other); rt = max (rect_right r) (rect_right other);
          t = min (rect_top r) (rect_top other); b = max (rect_bottom r) (rect_bottom other)
      in if l \<le> rt \<and> t \<le> b then rect_new l t (wrap32 (rt - l)) (wrap32 (b - t)) else None)"

definition contains :: "Rect \<Rightarrow> int \<Rightarrow> int \<Rightarrow> bool" where
  "contains r x y \<longleftrightarrow> rect_left r \<le> x \<and> rect_right r \<ge> x \<and> rect_top r \<le> y \<and> rect_bottom r \<ge> y"

definition contains_rect :: "Rect \<Rightarrow> Rect \<Rightarrow> bool" where
  "contains_rect r other \<longleftrightarrow> rect_left r \<le> rect_left other \<and> rect_right r \<ge> rect_right other \<and> rect_top r \<le> rect_top other \<and> rect_bottom r \<ge> rect_bottom other"

definition is_empty_rect :: "Rect \<Rightarrow> bool" where
  "is_empty_rect r \<longleftrightarrow> rect_w r = 0 \<or> rect_h r = 0"

definition intersects :: "Rect \<Rightarrow> Rect \<Rightarrow> bool" where
  "intersects r other \<longleftrightarrow> \<not> (rect_left r > rect_right other \<or> rect_right r < rect_left other \<or> rect_top r > rect_bottom other \<or> rect_bottom r < rect_top other)"

definition intersection :: "Rect \<Rightarrow> Rect \<Rightarrow> Rect option" where
  "intersection r other =
     (let l = max (rect_left r) (rect_left other); rt = min (rect_right r) (rect_right other);
          t = max (rect_top r) (rect_top other); b = min (rect_bottom r) (rect_bottom other)
      in rect_new l t (max 0 (wrap32 (rt - l))) (max 0 (wrap32 (b - t))))"

definition offset_rect :: "Rect \<Rightarrow> int \<Rightarrow> int \<Rightarrow> Rect option" where
  "offset_rect r x y = rect_new (wrap32 (rect_x r + x)) (wrap32 (rect_y r + y)) (rect_w r) (rect_h r)"

section \<open>Colours and images\<close>

definition rgb :: "u8 \<Rightarrow> u8 \<Rightarrow> u8 \<Rightarrow> u32" where
  "rgb r g b = 0xFF000000 OR push_bit 16 (ucast r) OR push_bit 8 (ucast g) OR ucast b"

definition rgba :: "u8 \<Rightarrow> u8 \<Rightarrow> u8 \<Rightarrow> u8 \<Rightarrow> u32" where
  "rgba r g b a = push_bit 24 (ucast a) OR push_bit 16 (ucast r) OR push_bit 8 (ucast g) OR ucast b"

record Image =
  im_w :: int
  im_h :: int
  im_data :: "u32 list"

definition image_from_color :: "int \<Rightarrow> int \<Rightarrow> u32 \<Rightarrow> Image" where
  "image_from_color w h c = \<lparr>im_w = w, im_h = h, im_data = replicate (nat ((w mod 2 ^ 32) * (h mod 2 ^ 32) mod 2 ^ 32)) c\<rparr>"

definition image_new :: "int \<Rightarrow> int \<Rightarrow> Image" where
  "image_new w h = image_from_color w h (rgb 0 0 0)"

text \<open>Where row \<^term>\<open>i\<close> of a region of interest lies in the data of its image.\<close>

definition roi_row :: "Rect \<Rightarrow> Image \<Rightarrow> nat \<Rightarrow> (nat \<times> nat) option" where
  "roi_row r im i =
     (let s = wrap32 (wrap32 (wrap32 (rect_top r + int i) * im_w im) + rect_left r); e = wrap32 (s + rect_w r)
      in if 0 \<le> s \<and> s \<le> e \<and> e \<le> int (length (im_data im)) then Some (nat s, nat e) else None)"

definition slice_of :: "nat \<Rightarrow> nat \<Rightarrow> 'a list \<Rightarrow> 'a list" where
  "slice_of s e xs = take (e - s) (drop s xs)"

definition put_slice :: "nat \<Rightarrow> 'a list \<Rightarrow> 'a list \<Rightarrow> 'a list" where
  "put_slice s ys xs = take s xs @ ys @ drop (s + length ys) xs"

text \<open>
  The rows of two regions walked together, from row \<^term>\<open>i\<close> on for at most \<^term>\<open>n\<close> rows of the first; \<^term>\<open>g\<close> makes the new
  pixel from the old one and the other image's.
\<close>

fun zip_rows :: "(u32 \<Rightarrow> u32 \<Rightarrow> u32) \<Rightarrow> Rect \<Rightarrow> Rect \<Rightarrow> Image \<Rightarrow> nat \<Rightarrow> nat \<Rightarrow> Image \<Rightarrow> Image option" where
  "zip_rows g r ro other i 0 im = Some im"
| "zip_rows g r ro other i (Suc n) im =
     do {
       (s, e) \<leftarrow> roi_row r im i;
       if int i < rect_h ro then do {
         (s', e') \<leftarrow> roi_row ro other i;
         zip_rows g r ro other (i + 1) n
           (im\<lparr>im_data := put_slice s (map2 g (slice_of s e (im_data im)) (slice_of s' e' (im_data other))) (im_data im)\<rparr>)
       } else Some im
     }"

definition blend_channels :: "u32 \<Rightarrow> u32 \<Rightarrow> u32" where
  "blend_channels c a =
     push_bit 16 (drop_bit 8 ((drop_bit 16 c AND 0xFF) * a)) OR
     push_bit 8 (drop_bit 8 ((drop_bit 8 c AND 0xFF) * a)) OR drop_bit 8 ((c AND 0xFF) * a)"

definition alpha_of :: "u32 \<Rightarrow> u32" where
  "alpha_of c = drop_bit 24 c AND 0xFF"

definition blend_pixel :: "u32 \<Rightarrow> u32 \<Rightarrow> u32" where
  "blend_pixel old new =
     (if alpha_of new \<ge> 255 then new
      else if alpha_of new > 0 then blend_channels old (255 - alpha_of new) + blend_channels new (alpha_of new)
      else old)"

definition roi_blend :: "Rect \<Rightarrow> Rect \<Rightarrow> Image \<Rightarrow> Image \<Rightarrow> Image option" where
  "roi_blend r ro other im = zip_rows blend_pixel r ro other 0 (nat (rect_h r)) im"

definition roi_blit :: "Rect \<Rightarrow> Rect \<Rightarrow> Image \<Rightarrow> Image \<Rightarrow> Image option" where
  "roi_blit r ro other im = zip_rows (\<lambda>old new. new) r ro other 0 (nat (rect_h r)) im"

fun map_rows :: "(u32 \<Rightarrow> u32) \<Rightarrow> Rect \<Rightarrow> nat \<Rightarrow> nat \<Rightarrow> Image \<Rightarrow> Image option" where
  "map_rows g r i 0 im = Some im"
| "map_rows g r i (Suc n) im =
     do {
       (s, e) \<leftarrow> roi_row r im i;
       map_rows g r (i + 1) n (im\<lparr>im_data := put_slice s (map g (slice_of s e (im_data im))) (im_data im)\<rparr>)
     }"

definition roi_set :: "Rect \<Rightarrow> u32 \<Rightarrow> Image \<Rightarrow> Image option" where
  "roi_set r c im =
     (if alpha_of c \<ge> 255 then map_rows (\<lambda>old. c) r 0 (nat (rect_h r)) im
      else if alpha_of c > 0
      then map_rows (\<lambda>old. blend_channels old (255 - alpha_of c) + blend_channels c (alpha_of c)) r 0 (nat (rect_h r)) im
      else Some im)"

section \<open>Points\<close>

text \<open>Rectangles far from the limits of the coordinates, and the points of a rectangle.\<close>

definition in_range :: "Rect \<Rightarrow> bool" where
  "in_range r \<longleftrightarrow> 0 \<le> rect_w r \<and> 0 \<le> rect_h r \<and> - (2 ^ 29) \<le> rect_x r \<and> rect_x r + rect_w r \<le> 2 ^ 29
     \<and> - (2 ^ 29) \<le> rect_y r \<and> rect_y r + rect_h r \<le> 2 ^ 29"

definition points :: "Rect \<Rightarrow> (int \<times> int) set" where
  "points r = {(x, y). rect_x r \<le> x \<and> x < rect_x r + rect_w r \<and> rect_y r \<le> y \<and> y < rect_y r + rect_h r}"

lemma wrap32_id: "- (2 ^ 31) \<le> v \<Longrightarrow> v < 2 ^ 31 \<Longrightarrow> wrap32 v = v"
  by (simp add: wrap32_def)

lemma wrap32_pos: "0 \<le> v \<Longrightarrow> v < 2 ^ 30 \<Longrightarrow> wrap32 v = v"
  by (rule wrap32_id) simp_all

lemma in_range_edges:
  assumes "in_range r"
  shows "rect_right r = rect_x r + rect_w r" and "rect_bottom r = rect_y r + rect_h r" and "rect_left r = rect_x r" and "rect_top r = rect_y r"
  using assms by (simp_all add: in_range_def rect_right_def rect_bottom_def rect_left_def rect_top_def wrap32_id)

lemma interval_meet:
  fixes x :: int
  shows "max l l' \<le> x \<and> x < max l l' + max 0 (min r r' - max l l') \<longleftrightarrow> (l \<le> x \<and> x < r) \<and> l' \<le> x \<and> x < r'"
  by (auto simp: max_def min_def split: if_splits)

lemma intersection_spec:
  assumes "in_range a" and "in_range b"
  obtains r where "intersection a b = Some r" and "in_range r" and "points r = points a \<inter> points b"
proof -
  note e = in_range_edges[OF assms(1)] in_range_edges[OF assms(2)]
  let ?l = "max (rect_x a) (rect_x b)" and ?r = "min (rect_x a + rect_w a) (rect_x b + rect_w b)"
    and ?t = "max (rect_y a) (rect_y b)" and ?b = "min (rect_y a + rect_h a) (rect_y b + rect_h b)"
  have "wrap32 (?r - ?l) = ?r - ?l" "wrap32 (?b - ?t) = ?b - ?t"
    using assms by (auto simp: in_range_def intro!: wrap32_id)
  then have i: "intersection a b = Some \<lparr>rect_x = ?l, rect_y = ?t, rect_w = max 0 (?r - ?l), rect_h = max 0 (?b - ?t)\<rparr>"
    by (simp add: intersection_def e rect_new_def Let_def)
  show thesis
  proof (rule that[OF i])
    show "in_range \<lparr>rect_x = ?l, rect_y = ?t, rect_w = max 0 (?r - ?l), rect_h = max 0 (?b - ?t)\<rparr>"
      using assms by (auto simp: in_range_def max_def min_def)
    have "(x, y) \<in> points \<lparr>rect_x = ?l, rect_y = ?t, rect_w = max 0 (?r - ?l), rect_h = max 0 (?b - ?t)\<rparr>
        \<longleftrightarrow> (x, y) \<in> points a \<inter> points b" for x y
      using interval_meet[of "rect_x a" "rect_x b" x "rect_x a + rect_w a" "rect_x b + rect_w b"]
        interval_meet[of "rect_y a" "rect_y b" y "rect_y a + rect_h a" "rect_y b + rect_h b"]
      unfolding points_def mem_Collect_eq case_prod_conv Int_iff Rect.simps by argo
    then show "points \<lparr>rect_x = ?l, rect_y = ?t, rect_w = max 0 (?r - ?l), rect_h = max 0 (?b - ?t)\<rparr> = points a \<inter> points b"
      by (intro set_eqI) (simp only: split_paired_all)
  qed
qed

lemma container_spec:
  assumes "in_range a" and "in_range b"
  obtains r where "container a b = Some r" and "in_range r" and "points a \<union> points b \<subseteq> points r"
proof -
  note e = in_range_edges[OF assms(1)] in_range_edges[OF assms(2)]
  let ?l = "min (rect_x a) (rect_x b)" and ?r = "max (rect_x a + rect_w a) (rect_x b + rect_w b)"
    and ?t = "min (rect_y a) (rect_y b)" and ?b = "max (rect_y a + rect_h a) (rect_y b + rect_h b)"
  have w: "wrap32 (?r - ?l) = ?r - ?l" "wrap32 (?b - ?t) = ?b - ?t"
    using assms by (auto simp: in_range_def intro!: wrap32_id)
  have le: "?l \<le> ?r" "?t \<le> ?b" using assms by (auto simp: in_range_def)
  then have c: "container a b = Some \<lparr>rect_x = ?l, rect_y = ?t, rect_w = ?r - ?l, rect_h = ?b - ?t\<rparr>"
    by (simp add: container_def e w rect_new_def Let_def)
  show thesis
    by (rule that[OF c]) (use assms le in \<open>auto simp: in_range_def points_def\<close>)
qed

lemma empty_points: "in_range r \<Longrightarrow> is_empty_rect r \<longleftrightarrow> points r = {}"
proof
  assume "in_range r" and "is_empty_rect r" then show "points r = {}" by (auto simp: points_def is_empty_rect_def in_range_def)
next
  assume r: "in_range r" and "points r = {}"
  then have "(rect_x r, rect_y r) \<notin> points r" by simp
  then show "is_empty_rect r" using r by (auto simp: points_def is_empty_rect_def in_range_def)
qed

section \<open>Pixels\<close>

definition good_image :: "Image \<Rightarrow> bool" where
  "good_image im \<longleftrightarrow> 0 \<le> im_w im \<and> 0 \<le> im_h im \<and> im_w im * im_h im < 2 ^ 30 \<and> length (im_data im) = nat (im_w im * im_h im)"

definition bounds :: "Image \<Rightarrow> Rect" where
  "bounds im = \<lparr>rect_x = 0, rect_y = 0, rect_w = im_w im, rect_h = im_h im\<rparr>"

definition pixel :: "Image \<Rightarrow> int \<times> int \<Rightarrow> u32" where
  "pixel im p = (case p of (x, y) \<Rightarrow> im_data im ! nat (y * im_w im + x))"

definition inside :: "Image \<Rightarrow> Rect \<Rightarrow> bool" where
  "inside im r \<longleftrightarrow> 0 \<le> rect_w r \<and> 0 \<le> rect_h r \<and> 0 \<le> rect_x r \<and> rect_x r + rect_w r \<le> im_w im
     \<and> 0 \<le> rect_y r \<and> rect_y r + rect_h r \<le> im_h im"

lemma row_major:
  fixes W :: int
  assumes "0 \<le> x" and "x < W" and "0 \<le> a" and "a + w \<le> W"
  shows "q * W + a \<le> y * W + x \<and> y * W + x < q * W + a + w \<longleftrightarrow> y = q \<and> a \<le> x \<and> x < a + w"
proof -
  consider "y < q" | "y = q" | "q < y" by linarith
  then show ?thesis
  proof cases
    case 1
    then have "(y + 1) * W \<le> q * W" using assms by (intro mult_right_mono) simp_all
    then show ?thesis using assms 1 by (auto simp: algebra_simps)
  next
    case 3
    then have "(q + 1) * W \<le> y * W" using assms by (intro mult_right_mono) simp_all
    then show ?thesis using assms 3 by (auto simp: algebra_simps)
  qed auto
qed

lemma index_bounds:
  fixes W :: int
  assumes "0 \<le> x" and "x < W" and "0 \<le> y" and "y < H"
  shows "0 \<le> y * W + x" and "y * W + x < W * H"
proof -
  show "0 \<le> y * W + x" using assms by simp
  have "(y + 1) * W \<le> H * W" using assms by (intro mult_right_mono) simp_all
  then show "y * W + x < W * H" using assms(2) by (simp add: algebra_simps)
qed

lemma roi_row_inside:
  assumes "good_image im" and "inside im r" and "int i < rect_h r" and s: "s = (rect_y r + int i) * im_w im + rect_x r"
  shows "roi_row r im i = Some (nat s, nat (s + rect_w r))" and "0 \<le> s" and "s + rect_w r \<le> im_w im * im_h im"
proof -
  let ?W = "im_w im" and ?q = "rect_y r + int i"
  have q: "0 \<le> ?q" "?q < im_h im" "0 \<le> ?W" using assms(1-3) by (auto simp: inside_def good_image_def)
  have "(?q + 1) * ?W \<le> im_h im * ?W" using q by (intro mult_right_mono) simp_all
  then have row: "?q * ?W + ?W \<le> ?W * im_h im" by (simp add: algebra_simps)
  have q0: "0 \<le> ?q * ?W" using q by simp
  show s0: "0 \<le> s" using q0 assms(2) by (simp add: s inside_def)
  show se: "s + rect_w r \<le> ?W * im_h im" using row assms(2) by (simp add: s inside_def)
  have lim: "?W * im_h im < 2 ^ 30" and len: "int (length (im_data im)) = ?W * im_h im"
    using assms(1) by (simp_all add: good_image_def)
  have w0: "0 \<le> rect_w r" "0 \<le> rect_x r" "rect_x r + rect_w r \<le> ?W" using assms(2) by (simp_all add: inside_def)
  have t: "wrap32 (rect_top r + int i) * ?W = ?q * ?W"
  proof (cases "?W = 0")
    case False
    then have "im_h im * 1 \<le> im_h im * ?W" using q by (intro mult_left_mono) simp_all
    then have "?q < 2 ^ 30" using q lim unfolding mult_1_right mult.commute[of "im_h im"] by linarith
    then show ?thesis using q(1) by (simp add: rect_top_def wrap32_id)
  qed simp
  have "wrap32 (?q * ?W) = ?q * ?W" using q0 row lim q(3) by (intro wrap32_pos) linarith+
  moreover have "wrap32 (?q * ?W + rect_x r) = s" using s0 se lim w0 wrap32_pos[of s] unfolding s by linarith
  moreover have "wrap32 (s + rect_w r) = s + rect_w r" using s0 se lim w0 by (intro wrap32_pos) linarith+
  ultimately show "roi_row r im i = Some (nat s, nat (s + rect_w r))"
    using s0 se w0 len by (simp add: roi_row_def t rect_left_def)
qed

lemma nth_put_slice:
  assumes "s + length ys \<le> length xs" and "k < length xs"
  shows "put_slice s ys xs ! k = (if s \<le> k \<and> k < s + length ys then ys ! (k - s) else xs ! k)"
  using assms by (auto simp: put_slice_def nth_append)

lemma length_put_slice [simp]: "s + length ys \<le> length xs \<Longrightarrow> length (put_slice s ys xs) = length xs"
  by (simp add: put_slice_def)

text \<open>One row of a region replaced.\<close>

lemma pixel_put_row:
  assumes "good_image im" and "inside im r" and "int i < rect_h r" and "length ys = nat (rect_w r)"
    and s: "s = (rect_y r + int i) * im_w im + rect_x r" and p: "(x, y) \<in> points (bounds im)"
  shows "pixel (im\<lparr>im_data := put_slice (nat s) ys (im_data im)\<rparr>) (x, y) =
      (if y = rect_y r + int i \<and> rect_x r \<le> x \<and> x < rect_x r + rect_w r then ys ! nat (x - rect_x r) else pixel im (x, y))"
proof -
  let ?W = "im_w im" and ?k = "y * im_w im + x"
  note R = roi_row_inside[OF assms(1-3) s]
  have b: "0 \<le> x" "x < ?W" "0 \<le> y" "y < im_h im" using p by (auto simp: points_def bounds_def)
  note k = index_bounds[OF b]
  have w: "0 \<le> rect_w r" "0 \<le> rect_x r" "rect_x r + rect_w r \<le> ?W" using assms(2) by (simp_all add: inside_def)
  have len: "length (im_data im) = nat (?W * im_h im)" using assms(1) by (simp add: good_image_def)
  have fits: "nat s + length ys \<le> length (im_data im)" using R(2,3) w(1) assms(4) len by simp
  have "nat ?k < length (im_data im)" using k len by simp
  note nth = nth_put_slice[OF fits this]
  have "nat s \<le> nat ?k \<and> nat ?k < nat s + length ys \<longleftrightarrow> s \<le> ?k \<and> ?k < s + rect_w r"
    using R(2) k(1) w(1) assms(4) by auto
  also have "\<dots> \<longleftrightarrow> y = rect_y r + int i \<and> rect_x r \<le> x \<and> x < rect_x r + rect_w r"
    unfolding s by (rule row_major[OF b(1,2) w(2,3)])
  finally have c: "nat s \<le> nat ?k \<and> nat ?k < nat s + length ys \<longleftrightarrow> y = rect_y r + int i \<and> rect_x r \<le> x \<and> x < rect_x r + rect_w r" .
  have "nat ?k - nat s = nat (x - rect_x r)" if "y = rect_y r + int i" using that R(2) by (simp add: s nat_diff_distrib')
  then show ?thesis using nth c by (simp add: pixel_def)
qed

text \<open>A row as it was.\<close>

lemma nth_slice_row:
  assumes "good_image im" and "inside im r" and "int i < rect_h r" and s: "s = (rect_y r + int i) * im_w im + rect_x r"
  shows "length (slice_of (nat s) (nat (s + rect_w r)) (im_data im)) = nat (rect_w r)"
    and "0 \<le> a \<Longrightarrow> a < rect_w r \<Longrightarrow>
      slice_of (nat s) (nat (s + rect_w r)) (im_data im) ! nat a = pixel im (rect_x r + a, rect_y r + int i)"
proof -
  note R = roi_row_inside[OF assms]
  have len: "length (im_data im) = nat (im_w im * im_h im)" using assms(1) by (simp add: good_image_def)
  have w: "0 \<le> rect_w r" using assms(2) by (simp add: inside_def)
  show "length (slice_of (nat s) (nat (s + rect_w r)) (im_data im)) = nat (rect_w r)"
    using R(2,3) w len by (simp add: slice_of_def nat_diff_distrib' nat_add_distrib)
  assume a: "0 \<le> a" "a < rect_w r"
  have k: "(rect_y r + int i) * im_w im + (rect_x r + a) = s + a" by (simp add: s)
  have sum: "nat s + nat a = nat (s + a)" using R(2) a(1) by (simp add: nat_add_distrib)
  have "nat a < nat (s + rect_w r) - nat s" "nat s \<le> length (im_data im)" using R(2,3) a w len by simp_all
  then show "slice_of (nat s) (nat (s + rect_w r)) (im_data im) ! nat a = pixel im (rect_x r + a, rect_y r + int i)"
    by (simp add: slice_of_def pixel_def k sum)
qed

definition redrawn :: "Image \<Rightarrow> Image \<Rightarrow> (int \<times> int) set \<Rightarrow> (int \<times> int \<Rightarrow> u32) \<Rightarrow> bool" where
  "redrawn im im' S f \<longleftrightarrow> good_image im' \<and> im_w im' = im_w im \<and> im_h im' = im_h im
     \<and> (\<forall>p \<in> points (bounds im). pixel im' p = (if p \<in> S then f p else pixel im p))"

definition rows_from :: "Rect \<Rightarrow> nat \<Rightarrow> (int \<times> int) set" where
  "rows_from r i = {(x, y) \<in> points r. rect_y r + int i \<le> y}"

lemma redrawn_row:
  assumes "good_image im" and "inside im r" and "int i < rect_h r" and "length ys = nat (rect_w r)"
    and s: "s = (rect_y r + int i) * im_w im + rect_x r"
    and "\<And>a. 0 \<le> a \<Longrightarrow> a < rect_w r \<Longrightarrow> ys ! nat a = f (rect_x r + a, rect_y r + int i)"
    and rest: "redrawn (im\<lparr>im_data := put_slice (nat s) ys (im_data im)\<rparr>) im' (rows_from r (i + 1)) f"
  shows "redrawn im im' (rows_from r i) f"
proof -
  let ?im = "im\<lparr>im_data := put_slice (nat s) ys (im_data im)\<rparr>"
  have "pixel im' (x, y) = (if (x, y) \<in> rows_from r i then f (x, y) else pixel im (x, y))" if p: "(x, y) \<in> points (bounds im)" for x y
  proof -
    have "(x, y) \<in> points (bounds ?im)" using p by (simp add: bounds_def)
    then have "pixel im' (x, y) = (if (x, y) \<in> rows_from r (i + 1) then f (x, y) else pixel ?im (x, y))"
      using rest by (auto simp: redrawn_def)
    moreover note pixel_put_row[OF assms(1-5) p]
    moreover have "ys ! nat (x - rect_x r) = f (x, y)" if "y = rect_y r + int i" "rect_x r \<le> x" "x < rect_x r + rect_w r"
      using assms(6)[of "x - rect_x r"] that by simp
    moreover have "(x, y) \<in> rows_from r i \<longleftrightarrow> (x, y) \<in> rows_from r (i + 1) \<or> (y = rect_y r + int i \<and> rect_x r \<le> x \<and> x < rect_x r + rect_w r)"
      using assms(3) by (auto simp: rows_from_def points_def)
    ultimately show ?thesis by auto
  qed
  then show ?thesis using rest by (auto simp: redrawn_def)
qed

lemma good_put_row:
  assumes "good_image im" and "inside im r" and "int i < rect_h r" and "length ys = nat (rect_w r)"
    and s: "s = (rect_y r + int i) * im_w im + rect_x r"
  shows "good_image (im\<lparr>im_data := put_slice (nat s) ys (im_data im)\<rparr>)"
    and "inside (im\<lparr>im_data := put_slice (nat s) ys (im_data im)\<rparr>) r"
proof -
  note R = roi_row_inside[OF assms(1-3) s]
  have "nat s + length ys \<le> length (im_data im)"
    using R(2,3) assms(1,2,4) nat_mono[OF R(3)] by (simp add: good_image_def inside_def nat_add_distrib)
  then show "good_image (im\<lparr>im_data := put_slice (nat s) ys (im_data im)\<rparr>)" using assms(1) by (simp add: good_image_def)
  show "inside (im\<lparr>im_data := put_slice (nat s) ys (im_data im)\<rparr>) r" using assms(2) by (simp add: inside_def)
qed

lemma zip_rows_spec:
  assumes "good_image im" and "good_image other" and "inside im r" and "inside other ro" and "rect_w ro = rect_w r" and "rect_h ro = rect_h r"
    and "int i + int n = rect_h r"
  shows "\<exists>im'. zip_rows g r ro other i n im = Some im' \<and> redrawn im im' (rows_from r i)
    (\<lambda>p. g (pixel im p) (pixel other (fst p - rect_x r + rect_x ro, snd p - rect_y r + rect_y ro)))"
  using assms(1,3,7)
proof (induction n arbitrary: i im)
  case 0
  then show ?case by (auto simp: redrawn_def rows_from_def points_def)
next
  case (Suc n)
  let ?f = "\<lambda>im p. g (pixel im p) (pixel other (fst p - rect_x r + rect_x ro, snd p - rect_y r + rect_y ro))"
  let ?s = "(rect_y r + int i) * im_w im + rect_x r" and ?t = "(rect_y ro + int i) * im_w other + rect_x ro"
  have i: "int i < rect_h r" "int i < rect_h ro" using Suc.prems(3) assms(6) by simp_all
  let ?a = "slice_of (nat ?s) (nat (?s + rect_w r)) (im_data im)" and ?b = "slice_of (nat ?t) (nat (?t + rect_w ro)) (im_data other)"
  define ys where "ys = map2 g ?a ?b"
  let ?im = "im\<lparr>im_data := put_slice (nat ?s) ys (im_data im)\<rparr>"
  note A = nth_slice_row[OF Suc.prems(1,2) i(1) refl] and B = nth_slice_row[OF assms(2,4) i(2) refl]
  have len: "length ys = nat (rect_w r)" using A(1) B(1) assms(5) by (simp add: ys_def)
  have row: "ys ! nat a = ?f im (rect_x r + a, rect_y r + int i)" if a: "0 \<le> a" "a < rect_w r" for a
  proof -
    have "nat a < length ?a" "nat a < length ?b" using a A(1) B(1) assms(5) by simp_all
    then show ?thesis using A(2)[OF a] B(2)[of a] a assms(5) by (simp add: ys_def algebra_simps)
  qed
  note G = good_put_row[OF Suc.prems(1,2) i(1) len refl]
  have "int (i + 1) + int n = rect_h r" using Suc.prems(3) by simp
  from Suc.IH[OF G this] obtain im' where im': "zip_rows g r ro other (i + 1) n ?im = Some im'" "redrawn ?im im' (rows_from r (i + 1)) (?f ?im)"
    by blast
  have "pixel ?im p = pixel im p" if "p \<in> rows_from r (i + 1)" "p \<in> points (bounds im)" for p
    using that pixel_put_row[OF Suc.prems(1,2) i(1) len refl, of "fst p" "snd p"] by (auto simp: rows_from_def)
  then have "redrawn ?im im' (rows_from r (i + 1)) (?f im)" using im'(2) by (auto simp: redrawn_def bounds_def)
  then have "redrawn im im' (rows_from r i) (?f im)"
    using redrawn_row[OF Suc.prems(1,2) i(1) len refl, of "?f im"] row by blast
  moreover have "zip_rows g r ro other i (Suc n) im = Some im'"
    using im'(1) i(2) by (simp add: roi_row_inside(1)[OF Suc.prems(1,2) i(1) refl] roi_row_inside(1)[OF assms(2,4) i(2) refl] ys_def)
  ultimately show ?case by blast
qed

lemma rows_from_0 [simp]: "rows_from r 0 = points r"
  by (auto simp: rows_from_def points_def)

lemma map2_first: "length xs = length ys \<Longrightarrow> map2 (\<lambda>a b. g a) xs ys = map g xs"
  by (induction xs ys rule: list_induct2) simp_all

lemma map_rows_zip:
  assumes "good_image im" and "good_image other" and "inside im r" and "inside other r" and "int i + int n = rect_h r"
  shows "map_rows g r i n im = zip_rows (\<lambda>old new. g old) r r other i n im"
  using assms(1,3,5)
proof (induction n arbitrary: i im)
  case (Suc n)
  let ?s = "(rect_y r + int i) * im_w im + rect_x r" and ?t = "(rect_y r + int i) * im_w other + rect_x r"
  have i: "int i < rect_h r" using Suc.prems(3) by simp
  let ?a = "slice_of (nat ?s) (nat (?s + rect_w r)) (im_data im)" and ?b = "slice_of (nat ?t) (nat (?t + rect_w r)) (im_data other)"
  have l: "length ?a = nat (rect_w r)" "length ?b = nat (rect_w r)"
    using nth_slice_row(1)[OF Suc.prems(1,2) i refl] nth_slice_row(1)[OF assms(2,4) i refl] by simp_all
  have "map_rows g r (i + 1) n (im\<lparr>im_data := put_slice (nat ?s) (map g ?a) (im_data im)\<rparr>) =
      zip_rows (\<lambda>old new. g old) r r other (i + 1) n (im\<lparr>im_data := put_slice (nat ?s) (map g ?a) (im_data im)\<rparr>)"
    by (rule Suc.IH) (use good_put_row[OF Suc.prems(1,2) i _ refl] l Suc.prems(3) in simp_all)
  then show ?case
    using i by (simp add: roi_row_inside(1)[OF Suc.prems(1,2) i refl] roi_row_inside(1)[OF assms(2,4) i refl] map2_first[of ?a ?b] l)
qed simp

text \<open>What drawing does to the pixels of an image.\<close>

definition painted :: "Image \<Rightarrow> Image \<Rightarrow> (int \<times> int \<Rightarrow> u32 \<Rightarrow> u32) \<Rightarrow> bool" where
  "painted im im' f \<longleftrightarrow> good_image im' \<and> im_w im' = im_w im \<and> im_h im' = im_h im
     \<and> (\<forall>p \<in> points (bounds im). pixel im' p = f p (pixel im p))"

definition copy_paint :: "(u32 \<Rightarrow> u32 \<Rightarrow> u32) \<Rightarrow> Rect \<Rightarrow> Rect \<Rightarrow> Image \<Rightarrow> int \<times> int \<Rightarrow> u32 \<Rightarrow> u32" where
  "copy_paint g r ro other p old =
     (if p \<in> points r then g old (pixel other (fst p - rect_x r + rect_x ro, snd p - rect_y r + rect_y ro)) else old)"

lemma roi_zip_paints:
  assumes "good_image im" and "good_image other" and "inside im r" and "inside other ro" and "rect_w ro = rect_w r" and "rect_h ro = rect_h r"
  shows "\<exists>im'. zip_rows g r ro other 0 (nat (rect_h r)) im = Some im' \<and> painted im im' (copy_paint g r ro other)"
proof -
  have "int 0 + int (nat (rect_h r)) = rect_h r" using assms(3) by (simp add: inside_def)
  from zip_rows_spec[OF assms this] obtain im' where z: "zip_rows g r ro other 0 (nat (rect_h r)) im = Some im'"
    "redrawn im im' (points r) (\<lambda>p. g (pixel im p) (pixel other (fst p - rect_x r + rect_x ro, snd p - rect_y r + rect_y ro)))"
    unfolding rows_from_0 by blast
  from z(2) have "painted im im' (copy_paint g r ro other)" unfolding redrawn_def painted_def copy_paint_def by simp
  with z(1) show ?thesis by blast
qed

lemma roi_set_paints:
  assumes "good_image im" and "inside im r" and "alpha_of c = 255"
  shows "\<exists>im'. roi_set r c im = Some im' \<and> painted im im' (\<lambda>p old. if p \<in> points r then c else old)"
proof -
  have "int 0 + int (nat (rect_h r)) = rect_h r" using assms(2) by (simp add: inside_def)
  then have "roi_set r c im = zip_rows (\<lambda>old new. c) r r im 0 (nat (rect_h r)) im"
    using map_rows_zip[OF assms(1,1,2,2), of 0] assms(3) by (simp add: roi_set_def)
  moreover have "copy_paint (\<lambda>old new. c) r r im = (\<lambda>p old. if p \<in> points r then c else old)"
    by (intro ext) (simp add: copy_paint_def)
  ultimately show ?thesis using roi_zip_paints[OF assms(1,1,2,2) refl refl, of "\<lambda>old new. c"] by simp
qed

lemma painted_trans: "painted im im1 f \<Longrightarrow> painted im1 im2 h \<Longrightarrow> painted im im2 (\<lambda>p old. h p (f p old))"
  by (simp add: painted_def bounds_def)

lemma painted_refl: "good_image im \<Longrightarrow> painted im im (\<lambda>p old. old)"
  by (simp add: painted_def)

lemma painted_cong:
  "painted im im' f \<Longrightarrow> (\<And>p old. p \<in> points (bounds im) \<Longrightarrow> f p old = h p old) \<Longrightarrow> painted im im' h"
  by (simp add: painted_def)

lemma painted_good: "painted im im' f \<Longrightarrow> good_image im'" "painted im im' f \<Longrightarrow> bounds im' = bounds im" "painted im im' f \<Longrightarrow> inside im' r = inside im r"
  by (simp_all add: painted_def bounds_def inside_def)

end
