(* ===== verification/Orbital.thy ===== *)
theory Orbital
  imports Raster Schemes
begin

text \<open>
  The window manager, a user program that serves the scheme \<^verbatim>\<open>orbital:\<close> (\<^verbatim>\<open>crates/orbital\<close>: \<^verbatim>\<open>font.rs\<close>, \<^verbatim>\<open>window.rs\<close>,
  \<^verbatim>\<open>main.rs\<close>). It keeps an image of the screen, redraws the parts of it that were scheduled, and runs
  them to the display. The font is an argument and so are the images of background and cursor. The map of windows is a function from their numbers. The display takes
  whatever it is sent. The two threads of the program hold a lock around each operation, so a session is a sequence of them.
\<close>

section \<open>Text\<close>

definition white :: u32 where
  "white = rgb 255 255 255"

definition font_render :: "u8 list \<Rightarrow> rchar \<Rightarrow> u32 \<Rightarrow> Image" where
  "font_render font c color =
     (let font_i = 16 * unat c
      in \<lparr>im_w = 8, im_h = 16,
          im_data = (if font_i + 16 \<le> length font
                     then map (\<lambda>k. if bit (font ! (font_i + k div 8)) (7 - k mod 8) then color else 0) [0..<128]
                     else replicate 128 0)\<rparr>)"

section \<open>Windows\<close>

record Window =
  win_x :: int
  win_y :: int
  win_async :: bool
  win_image :: Image
  win_title :: "rchar list"
  win_events :: "Event list"

definition window_new :: "int \<Rightarrow> int \<Rightarrow> int \<Rightarrow> int \<Rightarrow> rchar list \<Rightarrow> bool \<Rightarrow> Window" where
  "window_new x y w h title async =
     \<lparr>win_x = x, win_y = y, win_async = async, win_image = image_new w h, win_title = title, win_events = []\<rparr>"

definition win_width :: "Window \<Rightarrow> int" where
  "win_width w = im_w (win_image w)"

definition win_height :: "Window \<Rightarrow> int" where
  "win_height w = im_h (win_image w)"

definition window_rect :: "Window \<Rightarrow> Rect option" where
  "window_rect w = rect_new (win_x w) (win_y w) (win_width w) (win_height w)"

definition title_rect :: "Window \<Rightarrow> Rect option" where
  "title_rect w = (if win_title w = [] then Some rect_default else rect_new (win_x w) (wrap32 (win_y w - 18)) (win_width w) 18)"

definition title_end :: "Window \<Rightarrow> int" where
  "title_end w = max (wrap32 (win_x w + 2)) (wrap32 (wrap32 (win_x w + win_width w) - 10))"

definition exit_contains :: "Window \<Rightarrow> int \<Rightarrow> int \<Rightarrow> bool" where
  "exit_contains w x y \<longleftrightarrow> win_title w \<noteq> [] \<and> x \<ge> max (win_x w) (wrap32 (wrap32 (win_x w + win_width w) - 10))
     \<and> y \<ge> wrap32 (win_y w - 18) \<and> x < wrap32 (win_x w + win_width w) \<and> y < win_y w"

text \<open>
  The part of an object at \<^term>\<open>obj\<close> that falls into \<^term>\<open>rect\<close>, drawn from the object's own image.
\<close>

definition draw_part :: "(u32 \<Rightarrow> u32 \<Rightarrow> u32) \<Rightarrow> Rect \<Rightarrow> Rect \<Rightarrow> Image \<Rightarrow> Image \<Rightarrow> Image option" where
  "draw_part g rect obj src im =
     do {
       i \<leftarrow> intersection rect obj;
       if is_empty_rect i then Some im
       else do {
         o' \<leftarrow> offset_rect i (wrap32 (- rect_left obj)) (wrap32 (- rect_top obj));
         zip_rows g i o' src 0 (nat (rect_h i)) im
       }
     }"

definition draw_glyph :: "u8 list \<Rightarrow> Rect \<Rightarrow> int \<Rightarrow> int \<Rightarrow> rchar \<Rightarrow> Image \<Rightarrow> Image option" where
  "draw_glyph font rect x y c im =
     (let font_image = font_render font c white
      in do { r \<leftarrow> rect_new x y (im_w font_image) (im_h font_image); draw_part blend_pixel rect r font_image im })"

fun draw_chars :: "u8 list \<Rightarrow> Rect \<Rightarrow> int \<Rightarrow> int \<Rightarrow> int \<Rightarrow> rchar list \<Rightarrow> Image \<Rightarrow> Image option" where
  "draw_chars font rect lim y x [] im = Some im"
| "draw_chars font rect lim y x (c # cs) im =
     (if x < lim then do { im \<leftarrow> draw_glyph font rect x y c im; draw_chars font rect lim y (wrap32 (x + 8)) cs im }
      else Some im)"

definition title_color :: "bool \<Rightarrow> u32" where
  "title_color focused = (if focused then rgb 192 192 192 else rgb 64 64 64)"

definition draw_title :: "u8 list \<Rightarrow> Rect \<Rightarrow> bool \<Rightarrow> Window \<Rightarrow> Image \<Rightarrow> Image option" where
  "draw_title font rect focused w im =
     do {
       tr \<leftarrow> title_rect w;
       i \<leftarrow> intersection rect tr;
       if is_empty_rect i then Some im
       else do {
         im \<leftarrow> roi_set i (title_color focused) im;
         im \<leftarrow> draw_chars font rect (title_end w) (wrap32 (rect_top tr + 1)) (wrap32 (win_x w + 2)) (win_title w) im;
         if wrap32 (title_end w + 10) \<le> wrap32 (win_x w + win_width w)
         then draw_glyph font rect (title_end w) (wrap32 (rect_top tr + 1)) 0x58 im
         else Some im
       }
     }"

definition draw_window :: "Rect \<Rightarrow> Window \<Rightarrow> Image \<Rightarrow> Image option" where
  "draw_window rect w im =
     do {
       self_rect \<leftarrow> window_rect w;
       i \<leftarrow> intersection self_rect rect;
       if is_empty_rect i then Some im
       else do {
         o' \<leftarrow> offset_rect i (wrap32 (- rect_left self_rect)) (wrap32 (- rect_top self_rect));
         roi_blit i o' (win_image w) im
       }
     }"

definition window_event :: "Event \<Rightarrow> Window \<Rightarrow> Window" where
  "window_event e w = w\<lparr>win_events := win_events w @ [e]\<rparr>"

definition window_read :: "u8 list \<Rightarrow> Window \<Rightarrow> (nat result \<times> u8 list) \<times> Window" where
  "window_read buf w =
     (if length buf \<ge> SIZE_OF_EVENT then
        (let (i, buf, q) = more_events 0 buf (win_events w) in ((Ok i, buf), w\<lparr>win_events := q\<rparr>))
      else ((Err EINVAL, buf), w))"

text \<open>The bytes of a buffer as pixels.\<close>

fun buf_pixels :: "u8 list \<Rightarrow> u32 list" where
  "buf_pixels (a # b # c # d # bs) = le_word [a, b, c, d] # buf_pixels bs"
| "buf_pixels bs = []"

definition window_write :: "u8 list \<Rightarrow> Window \<Rightarrow> nat result \<times> Window" where
  "window_write buf w =
     (let old = im_data (win_image w); new = buf_pixels buf; len = min (length old) (length new)
      in (Ok len, w\<lparr>win_image := (win_image w)\<lparr>im_data := take len new @ drop len old\<rparr>\<rparr>))"

definition show_i32 :: "int \<Rightarrow> string" where
  "show_i32 v = (if v < 0 then ''-'' else []) @ num_chars 10 (nat \<bar>v\<bar>)"

definition window_path_text :: "Window \<Rightarrow> u8 list" where
  "window_path_text w =
     as_bytes (''orbital:'' @ (if win_async w then ''a'' else []) @ ''/'' @ show_i32 (win_x w) @ ''/'' @ show_i32 (win_y w) @ ''/'' @
       show_i32 (win_width w) @ ''/'' @ show_i32 (win_height w) @ ''/'') @ concat (map utf8 (win_title w))"

definition window_path :: "u8 list \<Rightarrow> Window \<Rightarrow> nat result \<times> u8 list" where
  "window_path buf w = (let (i, buf) = copy_loop (window_path_text w) buf 0 in (Ok i, buf))"

section \<open>The session\<close>

fun schedule :: "Rect list \<Rightarrow> Rect \<Rightarrow> Rect list option" where
  "schedule [] request = Some [request]"
| "schedule (r # rs) request =
     do {
       c \<leftarrow> container r request;
       if area c \<le> wrap32 (area r + area request) then Some (c # rs)
       else do { rs \<leftarrow> schedule rs request; Some (r # rs) }
     }"

record OrbitalScheme =
  screen :: Image
  backdrop :: Image
  cursor :: Image
  cursor_x :: int
  cursor_y :: int
  dragging :: bool
  drag_x :: int
  drag_y :: int
  next_id :: isize
  next_x :: int
  next_y :: int
  order :: "usize list"
  windows :: "usize \<Rightarrow> Window option"
  redraws :: "Rect list"

definition orbital_new :: "int \<Rightarrow> int \<Rightarrow> Image \<Rightarrow> Image \<Rightarrow> OrbitalScheme option" where
  "orbital_new w h bg cur =
     do {
       all \<leftarrow> rect_new 0 0 w h;
       Some \<lparr>screen = image_new w h, backdrop = bg, cursor = cur, cursor_x = 0, cursor_y = 0, dragging = False, drag_x = 0,
             drag_y = 0, next_id = 1, next_x = 20, next_y = 20, order = [], windows = (\<lambda>_. None), redraws = [all]\<rparr>
     }"

definition cursor_rect :: "OrbitalScheme \<Rightarrow> Rect option" where
  "cursor_rect st = rect_new (cursor_x st) (cursor_y st) (im_w (cursor st)) (im_h (cursor st))"

definition screen_rect :: "OrbitalScheme \<Rightarrow> Rect option" where
  "screen_rect st = rect_new 0 0 (im_w (screen st)) (im_h (screen st))"

text \<open>All windows, the last in the order first; \<^term>\<open>i\<close> is the position of the first of the list.\<close>

fun draw_windows :: "u8 list \<Rightarrow> Rect \<Rightarrow> (usize \<Rightarrow> Window option) \<Rightarrow> nat \<Rightarrow> usize list \<Rightarrow> Image \<Rightarrow> Image option" where
  "draw_windows font rect ws i [] im = Some im"
| "draw_windows font rect ws i (n # ns) im =
     do {
       im \<leftarrow> draw_windows font rect ws (i + 1) ns im;
       case ws n of
         Some w \<Rightarrow> do { im \<leftarrow> draw_title font rect (i = 0) w im; draw_window rect w im }
       | None \<Rightarrow> Some im
     }"

definition redraw_rect :: "u8 list \<Rightarrow> OrbitalScheme \<Rightarrow> Rect \<Rightarrow> Image \<Rightarrow> Image option" where
  "redraw_rect font st rect im =
     (if is_empty_rect rect then Some im
      else do {
        im \<leftarrow> roi_blit rect rect (backdrop st) im;
        im \<leftarrow> draw_windows font rect (windows st) 0 (order st) im;
        cr \<leftarrow> cursor_rect st;
        draw_part blend_pixel rect cr (cursor st) im
      })"

fun redraw_rects :: "u8 list \<Rightarrow> OrbitalScheme \<Rightarrow> Rect \<Rightarrow> Rect list \<Rightarrow> Image \<Rightarrow> (Rect list \<times> Image) option" where
  "redraw_rects font st all [] im = Some ([], im)"
| "redraw_rects font st all (r # rs) im =
     do {
       r \<leftarrow> intersection r all;
       im \<leftarrow> redraw_rect font st r im;
       (rs, im) \<leftarrow> redraw_rects font st all rs im;
       Some (r # rs, im)
     }"

text \<open>What is sent to the display: positions and runs of pixels.\<close>

definition send_row :: "Image \<Rightarrow> Rect \<Rightarrow> int \<Rightarrow> (nat \<times> u32 list) option" where
  "send_row im r row =
     (let off1 = wrap32 (wrap32 (row * im_w im) + rect_left r); off2 = wrap32 (wrap32 (row * im_w im) + rect_right r)
      in if 0 \<le> off1 \<and> off1 \<le> off2 \<and> off2 \<le> int (length (im_data im))
         then Some (nat off1, slice_of (nat off1) (nat off2) (im_data im)) else None)"

fun all_some :: "'a option list \<Rightarrow> 'a list option" where
  "all_some [] = Some []"
| "all_some (v # vs) = do { v \<leftarrow> v; vs \<leftarrow> all_some vs; Some (v # vs) }"

definition send_rect :: "Image \<Rightarrow> Rect \<Rightarrow> (nat \<times> u32 list) list option" where
  "send_rect im r = (if is_empty_rect r then Some [] else all_some (map (send_row im r) [rect_top r..rect_bottom r - 1]))"

definition redraw :: "u8 list \<Rightarrow> OrbitalScheme \<Rightarrow> (OrbitalScheme \<times> (nat \<times> u32 list) list) option" where
  "redraw font st =
     do {
       all \<leftarrow> screen_rect st;
       (rs, im) \<leftarrow> redraw_rects font st all (redraws st) (screen st);
       runs \<leftarrow> all_some (map (send_rect im) rs);
       Some (st\<lparr>screen := im, redraws := []\<rparr>, concat runs)
     }"

section \<open>Scheduling\<close>

definition schedule_on :: "OrbitalScheme \<Rightarrow> Rect option \<Rightarrow> OrbitalScheme option" where
  "schedule_on st r = do { r \<leftarrow> r; rs \<leftarrow> schedule (redraws st) r; Some (st\<lparr>redraws := rs\<rparr>) }"

definition schedule_window :: "Window \<Rightarrow> OrbitalScheme \<Rightarrow> OrbitalScheme option" where
  "schedule_window w st = do { st \<leftarrow> schedule_on st (title_rect w); schedule_on st (window_rect w) }"

definition schedule_id :: "usize \<Rightarrow> OrbitalScheme \<Rightarrow> OrbitalScheme option" where
  "schedule_id n st = (case windows st n of Some w \<Rightarrow> schedule_window w st | None \<Rightarrow> Some st)"

definition schedule_front :: "OrbitalScheme \<Rightarrow> OrbitalScheme option" where
  "schedule_front st = (case order st of n # _ \<Rightarrow> schedule_id n st | [] \<Rightarrow> Some st)"

definition set_window :: "usize \<Rightarrow> Window \<Rightarrow> OrbitalScheme \<Rightarrow> OrbitalScheme" where
  "set_window n w st = st\<lparr>windows := (windows st)(n \<mapsto> w)\<rparr>"

definition move_cursor :: "int \<Rightarrow> int \<Rightarrow> OrbitalScheme \<Rightarrow> OrbitalScheme option" where
  "move_cursor x y st =
     do {
       st \<leftarrow> schedule_on st (cursor_rect st);
       let st = st\<lparr>cursor_x := x, cursor_y := y\<rparr>;
       schedule_on st (cursor_rect st)
     }"

section \<open>Events\<close>

definition as_i32 :: "i64 \<Rightarrow> int" where
  "as_i32 v = sint (ucast v :: 32 word)"

definition key_event :: "Event \<Rightarrow> OrbitalScheme \<Rightarrow> OrbitalScheme option" where
  "key_event e st =
     do {
       st \<leftarrow> (if sint (event_c e) > 0 then
                (if ucast (event_b e) = K_F1 then move_cursor 0 0 st
                 else if ucast (event_b e) = K_F2 then
                   do { all \<leftarrow> screen_rect st; move_cursor (rect_w all) (rect_h all) st }
                 else Some st)
              else Some st);
       Some (case order st of
               n # _ \<Rightarrow> (case windows st n of Some w \<Rightarrow> set_window n (window_event e w) st | None \<Rightarrow> st)
             | [] \<Rightarrow> st)
     }"

definition drag_front :: "Event \<Rightarrow> OrbitalScheme \<Rightarrow> OrbitalScheme option" where
  "drag_front e st =
     (if sint (event_c e) > 0 then
        (case order st of
           n # _ \<Rightarrow>
             (case windows st n of
                Some w \<Rightarrow>
                  if drag_x st \<noteq> cursor_x st \<or> drag_y st \<noteq> cursor_y st then
                    do {
                      st \<leftarrow> schedule_window w st;
                      let w = w\<lparr>win_x := wrap32 (win_x w + wrap32 (cursor_x st - drag_x st)),
                                win_y := wrap32 (win_y w + wrap32 (cursor_y st - drag_y st))\<rparr>;
                      schedule_window w (set_window n w (st\<lparr>drag_x := cursor_x st, drag_y := cursor_y st\<rparr>))
                    }
                  else Some st
              | None \<Rightarrow> Some (st\<lparr>dragging := False\<rparr>))
         | [] \<Rightarrow> Some (st\<lparr>dragging := False\<rparr>))
      else Some (st\<lparr>dragging := False\<rparr>))"

text \<open>
  The search for the window under the mouse, in the order of the windows; the result is the position of the window that shall get the focus, 0 for
  none.
\<close>

fun mouse_target :: "Event \<Rightarrow> usize list \<Rightarrow> nat \<Rightarrow> OrbitalScheme \<Rightarrow> (nat \<times> OrbitalScheme) option" where
  "mouse_target e [] i st = Some (0, st)"
| "mouse_target e (n # ns) i st =
     (case windows st n of
        Some w \<Rightarrow>
          do {
            r \<leftarrow> window_rect w;
            if contains r (as_i32 (event_a e)) (as_i32 (event_b e)) then
              Some (if sint (event_c e) > 0 then i else 0,
                    set_window n (window_event (e\<lparr>event_a := event_a e - of_int (win_x w), event_b := event_b e - of_int (win_y w)\<rparr>) w) st)
            else do {
              tr \<leftarrow> title_rect w;
              if contains tr (as_i32 (event_a e)) (as_i32 (event_b e)) then
                Some (if sint (event_c e) > 0 then
                        (i, if exit_contains w (as_i32 (event_a e)) (as_i32 (event_b e))
                            then set_window n (window_event (quit_to_event QuitEvent) w) st
                            else st\<lparr>dragging := True, drag_x := cursor_x st, drag_y := cursor_y st\<rparr>)
                      else (0, st))
              else mouse_target e ns (i + 1) st
            }
          }
      | None \<Rightarrow> mouse_target e ns (i + 1) st)"

definition focus_window :: "nat \<Rightarrow> OrbitalScheme \<Rightarrow> OrbitalScheme option" where
  "focus_window focus st =
     (if focus > 0 then
        do {
          st \<leftarrow> schedule_front st;
          if focus < length (order st) then
            do {
              let n = order st ! focus;
              let st = st\<lparr>order := take focus (order st) @ drop (focus + 1) (order st)\<rparr>;
              st \<leftarrow> schedule_id n st;
              Some (st\<lparr>order := n # order st\<rparr>)
            }
          else Some st
        }
      else Some st)"

definition mouse_event :: "Event \<Rightarrow> OrbitalScheme \<Rightarrow> OrbitalScheme option" where
  "mouse_event e st =
     do {
       st \<leftarrow> (if as_i32 (event_a e) \<noteq> cursor_x st \<or> as_i32 (event_b e) \<noteq> cursor_y st
              then move_cursor (as_i32 (event_a e)) (as_i32 (event_b e)) st else Some st);
       if dragging st then drag_front e st
       else do { (focus, st) \<leftarrow> mouse_target e (order st) 0 st; focus_window focus st }
     }"

definition orbital_event :: "Event \<Rightarrow> OrbitalScheme \<Rightarrow> OrbitalScheme option" where
  "orbital_event e st =
     (if event_code e = EVENT_KEY then key_event e st
      else if event_code e = EVENT_MOUSE then mouse_event e st
      else Some st)"

section \<open>Calls of clients\<close>

text \<open>\<^verbatim>\<open>parse::<i32>\<close>, 0 when it fails.\<close>

definition digit_value :: "rchar list \<Rightarrow> int option" where
  "digit_value s = (if s \<noteq> [] \<and> list_all is_digit_char s then Some (int (digits_value s)) else None)"

definition parse_i32 :: "rchar list \<Rightarrow> int" where
  "parse_i32 s =
     (let v = (case s of
                 c # ds \<Rightarrow> if c = 0x2D then map_option uminus (digit_value ds) else if c = 0x2B then digit_value ds else digit_value s
               | [] \<Rightarrow> None)
      in case v of Some n \<Rightarrow> if - (2 ^ 31) \<le> n \<and> n < 2 ^ 31 then n else 0 | None \<Rightarrow> 0)"

fun split_slash :: "rchar list \<Rightarrow> rchar list list" where
  "split_slash [] = [[]]"
| "split_slash (c # s) =
     (if c = 0x2F then [] # split_slash s
      else (case split_slash s of p # ps \<Rightarrow> (c # p) # ps | [] \<Rightarrow> [[c]]))"

definition path_part :: "nat \<Rightarrow> rchar list list \<Rightarrow> rchar list" where
  "path_part k ps = (if k < length ps then ps ! k else [])"

text \<open>The window a path asks for; one at a negative position is placed after the previous one.\<close>

definition open_window :: "rchar list \<Rightarrow> OrbitalScheme \<Rightarrow> Window \<times> OrbitalScheme" where
  "open_window path st =
     (let parts = split_slash path;
          async = (0x61 \<in> set (path_part 0 parts));
          x = parse_i32 (path_part 1 parts); y = parse_i32 (path_part 2 parts);
          w = parse_i32 (path_part 3 parts); h = parse_i32 (path_part 4 parts);
          title = foldl (\<lambda>t p. t @ [0x2F] @ p) (path_part 5 parts) (drop 6 parts);
          st = st\<lparr>next_id := (if sint (next_id st + 1) < 0 then 1 else next_id st + 1)\<rparr>
      in if x < 0 \<and> y < 0 then
           (window_new (next_x st) (next_y st) w h title async,
            st\<lparr>next_x := (if wrap32 (wrap32 (next_x st + 20) + 20) \<ge> im_w (screen st) then 20 else wrap32 (next_x st + 20)),
               next_y := (if wrap32 (wrap32 (next_y st + 20) + 20) \<ge> im_h (screen st) then 20 else wrap32 (next_y st + 20))\<rparr>)
         else (window_new x y w h title async, st))"

definition orbital_open :: "rchar list \<Rightarrow> OrbitalScheme \<Rightarrow> (usize result \<times> OrbitalScheme) option" where
  "orbital_open path st =
     (let n = next_id st; (win, st) = open_window path st
      in do {
           st \<leftarrow> schedule_front st;
           st \<leftarrow> schedule_window win st;
           Some (Ok n, set_window n win (st\<lparr>order := n # order st\<rparr>))
         })"

definition orbital_read :: "usize \<Rightarrow> u8 list \<Rightarrow> OrbitalScheme \<Rightarrow> (nat result \<times> u8 list) \<times> OrbitalScheme" where
  "orbital_read n buf st =
     (case windows st n of
        Some w \<Rightarrow> (let (r, w) = window_read buf w in (r, set_window n w st))
      | None \<Rightarrow> ((Err EBADF, buf), st))"

definition orbital_write :: "usize \<Rightarrow> u8 list \<Rightarrow> OrbitalScheme \<Rightarrow> (nat result \<times> OrbitalScheme) option" where
  "orbital_write n buf st =
     (case windows st n of
        Some w \<Rightarrow>
          do {
            st \<leftarrow> schedule_on st (window_rect w);
            let (r, w) = window_write buf w;
            Some (r, set_window n w st)
          }
      | None \<Rightarrow> Some (Err EBADF, st))"

definition orbital_fpath :: "usize \<Rightarrow> u8 list \<Rightarrow> OrbitalScheme \<Rightarrow> nat result \<times> u8 list" where
  "orbital_fpath n buf st = (case windows st n of Some w \<Rightarrow> window_path buf w | None \<Rightarrow> (Err EBADF, buf))"

definition orbital_close :: "usize \<Rightarrow> OrbitalScheme \<Rightarrow> (usize result \<times> OrbitalScheme) option" where
  "orbital_close n st =
     do {
       st \<leftarrow> schedule_front (st\<lparr>order := filter (\<lambda>e. e \<noteq> n) (order st)\<rparr>);
       case windows st n of
         Some w \<Rightarrow> do { st \<leftarrow> schedule_window w (st\<lparr>windows := (windows st)(n := None)\<rparr>); Some (Ok 0, st) }
       | None \<Rightarrow> Some (Err EBADF, st)
     }"

end
