(* ===== verification/OrbitalPaint.thy ===== *)
theory OrbitalPaint
  imports Orbital
begin

text \<open>
  Properties of the window manager: a redraw paints exactly the scene, and what is scheduled covers what
  changes.
\<close>

section \<open>Scheduled rectangles\<close>

definition damage :: "Rect list \<Rightarrow> (int \<times> int) set" where
  "damage rs = (\<Union>r \<in> set rs. points r)"

lemma damage_simps [simp]: "damage [] = {}" "damage (r # rs) = points r \<union> damage rs"
  by (auto simp: damage_def)

lemma schedule_covers:
  assumes "\<forall>r \<in> set rs. in_range r" and "in_range q"
  shows "\<exists>rs'. schedule rs q = Some rs' \<and> (\<forall>r \<in> set rs'. in_range r) \<and> damage rs \<union> points q \<subseteq> damage rs'"
  using assms(1)
proof (induction rs)
  case (Cons r rs)
  have "in_range r" using Cons.prems by simp
  from container_spec[OF this assms(2)] obtain c where
    c: "container r q = Some c" "in_range c" "points r \<union> points q \<subseteq> points c" by metis
  obtain rs' where rs': "schedule rs q = Some rs'" "\<forall>r \<in> set rs'. in_range r" "damage rs \<union> points q \<subseteq> damage rs'"
    using Cons by auto
  show ?case
    using c rs' Cons.prems by (cases "area c \<le> wrap32 (area r + area q)") auto
qed (use assms(2) in simp)

section \<open>Drawing a part\<close>

lemma nonempty_inside:
  assumes "in_range a" and "\<not> is_empty_rect a" and "points a \<subseteq> points b"
  shows "rect_x b \<le> rect_x a" and "rect_x a + rect_w a \<le> rect_x b + rect_w b"
    and "rect_y b \<le> rect_y a" and "rect_y a + rect_h a \<le> rect_y b + rect_h b"
proof -
  have "(rect_x a, rect_y a) \<in> points a" "(rect_x a + rect_w a - 1, rect_y a + rect_h a - 1) \<in> points a"
    using assms(1,2) by (auto simp: points_def in_range_def is_empty_rect_def)
  then have "(rect_x a, rect_y a) \<in> points b" "(rect_x a + rect_w a - 1, rect_y a + rect_h a - 1) \<in> points b"
    using assms(3) by auto
  then show "rect_x b \<le> rect_x a" "rect_x a + rect_w a \<le> rect_x b + rect_w b"
    "rect_y b \<le> rect_y a" "rect_y a + rect_h a \<le> rect_y b + rect_h b"
    by (auto simp: points_def)
qed

lemma intersection_commute: "intersection a b = intersection b a"
  by (simp add: intersection_def max.commute min.commute)

text \<open>Painting limited to a set of points.\<close>

definition paints_in :: "(int \<times> int) set \<Rightarrow> Image \<Rightarrow> Image \<Rightarrow> (int \<times> int \<Rightarrow> u32 \<Rightarrow> u32) \<Rightarrow> bool" where
  "paints_in R im im' f \<longleftrightarrow> painted im im' (\<lambda>p old. if p \<in> R then f p old else old)"

lemma paints_in_trans: "paints_in R im im1 f \<Longrightarrow> paints_in R im1 im2 h \<Longrightarrow> paints_in R im im2 (\<lambda>p old. h p (f p old))"
  unfolding paints_in_def painted_def bounds_def by simp

lemma paints_in_refl: "good_image im \<Longrightarrow> paints_in R im im (\<lambda>p old. old)"
  unfolding paints_in_def painted_def by simp

lemma paints_in_cong: "paints_in R im im' f \<Longrightarrow> (\<And>p old. p \<in> R \<Longrightarrow> f p old = h p old) \<Longrightarrow> paints_in R im im' h"
  unfolding paints_in_def painted_def by simp

lemma paints_in_good: "paints_in R im im' f \<Longrightarrow> good_image im' \<and> bounds im' = bounds im"
  unfolding paints_in_def using painted_good by blast

definition object_paint :: "(u32 \<Rightarrow> u32 \<Rightarrow> u32) \<Rightarrow> Rect \<Rightarrow> Image \<Rightarrow> int \<times> int \<Rightarrow> u32 \<Rightarrow> u32" where
  "object_paint g obj src p old = (if p \<in> points obj then g old (pixel src (fst p - rect_x obj, snd p - rect_y obj)) else old)"

lemma draw_part_paints:
  assumes im: "good_image im" and src: "good_image src" and r: "in_range r" "points r \<subseteq> points (bounds im)" and obj: "in_range obj"
    and dim: "rect_w obj = im_w src" "rect_h obj = im_h src"
  shows "\<exists>im'. draw_part g r obj src im = Some im' \<and> paints_in (points r) im im' (object_paint g obj src)"
proof -
  from intersection_spec[OF r(1) obj] obtain i where
    i: "intersection r obj = Some i" "in_range i" "points i = points r \<inter> points obj" by metis
  show ?thesis
  proof (cases "is_empty_rect i")
    case True
    then have "points r \<inter> points obj = {}" using i empty_points by blast
    then have "paints_in (points r) im im (object_paint g obj src)"
      by (intro paints_in_cong[OF paints_in_refl[OF im]]) (auto simp: object_paint_def)
    then show ?thesis using True i(1) by (auto simp: draw_part_def)
  next
    case False
    note a = nonempty_inside[OF i(2) False, of obj] nonempty_inside[OF i(2) False, of "bounds im"]
    have b: "rect_x obj \<le> rect_x i" "rect_x i + rect_w i \<le> rect_x obj + rect_w obj" "rect_y obj \<le> rect_y i" "rect_y i + rect_h i \<le> rect_y obj + rect_h obj"
      using a(1-4) i(3) by auto
    have c: "inside im i" using a(5-8) i(2,3) r(2) by (auto simp: inside_def bounds_def in_range_def)
    let ?o = "\<lparr>rect_x = rect_x i - rect_x obj, rect_y = rect_y i - rect_y obj, rect_w = rect_w i, rect_h = rect_h i\<rparr>"
    have "wrap32 (- rect_left obj) = - rect_x obj" "wrap32 (- rect_top obj) = - rect_y obj"
      "wrap32 (rect_x i - rect_x obj) = rect_x i - rect_x obj" "wrap32 (rect_y i - rect_y obj) = rect_y i - rect_y obj"
      using obj i(2) by (auto simp: in_range_def rect_left_def rect_top_def intro!: wrap32_id)
    then have o: "offset_rect i (wrap32 (- rect_left obj)) (wrap32 (- rect_top obj)) = Some ?o"
      using i(2) by (simp add: offset_rect_def rect_new_def in_range_def)
    have d: "inside src ?o" using b i(2) dim by (simp add: inside_def in_range_def)
    from roi_zip_paints[OF im src c d, of g] obtain im' where
      im': "zip_rows g i ?o src 0 (nat (rect_h i)) im = Some im'" "painted im im' (copy_paint g i ?o src)" by auto
    have "paints_in (points r) im im' (object_paint g obj src)"
      unfolding paints_in_def by (rule painted_cong[OF im'(2)]) (auto simp: copy_paint_def object_paint_def i(3))
    then show ?thesis using False i(1) o im'(1) by (auto simp: draw_part_def)
  qed
qed

section \<open>Titles and windows\<close>

text \<open>The scene: what each thing on the screen makes of the pixel below it.\<close>

definition glyph_rect :: "int \<Rightarrow> int \<Rightarrow> Rect" where
  "glyph_rect x y = \<lparr>rect_x = x, rect_y = y, rect_w = 8, rect_h = 16\<rparr>"

definition glyph_paint :: "u8 list \<Rightarrow> int \<Rightarrow> int \<Rightarrow> rchar \<Rightarrow> int \<times> int \<Rightarrow> u32 \<Rightarrow> u32" where
  "glyph_paint font x y c = object_paint blend_pixel (glyph_rect x y) (font_render font c white)"

fun chars_paint :: "u8 list \<Rightarrow> int \<Rightarrow> int \<Rightarrow> int \<Rightarrow> rchar list \<Rightarrow> int \<times> int \<Rightarrow> u32 \<Rightarrow> u32" where
  "chars_paint font lim y x [] p old = old"
| "chars_paint font lim y x (c # cs) p old =
     (if x < lim then chars_paint font lim y (x + 8) cs p (glyph_paint font x y c p old) else old)"

definition frame :: "Window \<Rightarrow> Rect" where
  "frame w = \<lparr>rect_x = win_x w, rect_y = win_y w, rect_w = win_width w, rect_h = win_height w\<rparr>"

definition title_bar :: "Window \<Rightarrow> Rect" where
  "title_bar w = (if win_title w = [] then rect_default else \<lparr>rect_x = win_x w, rect_y = win_y w - 18, rect_w = win_width w, rect_h = 18\<rparr>)"

definition text_end :: "Window \<Rightarrow> int" where
  "text_end w = max (win_x w + 2) (win_x w + win_width w - 10)"

definition title_paint :: "u8 list \<Rightarrow> bool \<Rightarrow> Window \<Rightarrow> int \<times> int \<Rightarrow> u32 \<Rightarrow> u32" where
  "title_paint font focused w p old =
     (if p \<in> points (title_bar w) then
        (let t = chars_paint font (text_end w) (win_y w - 17) (win_x w + 2) (win_title w) p (title_color focused)
         in if text_end w + 10 \<le> win_x w + win_width w then glyph_paint font (text_end w) (win_y w - 17) 0x58 p t else t)
      else old)"

definition window_paint :: "u8 list \<Rightarrow> bool \<Rightarrow> Window \<Rightarrow> int \<times> int \<Rightarrow> u32 \<Rightarrow> u32" where
  "window_paint font focused w p old =
     object_paint (\<lambda>old new. new) (frame w) (win_image w) p (title_paint font focused w p old)"

definition win_ok :: "Window \<Rightarrow> bool" where
  "win_ok w \<longleftrightarrow> good_image (win_image w) \<and> - (2 ^ 28) \<le> win_x w \<and> win_x w + win_width w \<le> 2 ^ 28
     \<and> - (2 ^ 28) \<le> win_y w \<and> win_y w + win_height w \<le> 2 ^ 28"

lemma win_ok_size: "win_ok w \<Longrightarrow> 0 \<le> win_width w \<and> 0 \<le> win_height w"
  by (simp add: win_ok_def good_image_def win_width_def win_height_def)

lemma win_ok_rects:
  assumes "win_ok w"
  shows "window_rect w = Some (frame w)" and "title_rect w = Some (title_bar w)" and "in_range (frame w)" and "in_range (title_bar w)"
proof -
  have y: "wrap32 (win_y w - 18) = win_y w - 18" using assms win_ok_size[OF assms] by (intro wrap32_id) (auto simp: win_ok_def)
  show "window_rect w = Some (frame w)" using win_ok_size[OF assms] by (simp add: window_rect_def rect_new_def frame_def)
  show "title_rect w = Some (title_bar w)" using win_ok_size[OF assms] y by (simp add: title_rect_def rect_new_def title_bar_def)
  show "in_range (frame w)" using assms win_ok_size[OF assms] by (auto simp: in_range_def frame_def win_ok_def)
  show "in_range (title_bar w)" using assms win_ok_size[OF assms] by (auto simp: in_range_def title_bar_def win_ok_def rect_default_def)
qed

lemma win_ok_edges:
  assumes "win_ok w"
  shows "title_end w = text_end w" and "wrap32 (text_end w + 10) = text_end w + 10" and "wrap32 (win_x w + win_width w) = win_x w + win_width w"
    and "wrap32 (win_x w + 2) = win_x w + 2" and "wrap32 (win_y w - 18 + 1) = win_y w - 17"
proof -
  have b: "- (2 ^ 28) \<le> win_x w" "win_x w + win_width w \<le> 2 ^ 28" "- (2 ^ 28) \<le> win_y w" "win_y w \<le> 2 ^ 28" "0 \<le> win_width w"
    using assms win_ok_size[OF assms] by (auto simp: win_ok_def)
  have e: "wrap32 (win_x w + win_width w) = win_x w + win_width w" using b by (intro wrap32_id) simp_all
  have x: "wrap32 (win_x w + 2) = win_x w + 2" using b by (intro wrap32_id) simp_all
  moreover have "wrap32 (win_x w + win_width w - 10) = win_x w + win_width w - 10" using b by (intro wrap32_id) simp_all
  ultimately show "title_end w = text_end w" by (simp add: title_end_def text_end_def e)
  show "wrap32 (text_end w + 10) = text_end w + 10" using b by (intro wrap32_id) (auto simp: text_end_def)
  show "wrap32 (win_x w + win_width w) = win_x w + win_width w" by (rule e)
  show "wrap32 (win_x w + 2) = win_x w + 2" by (rule x)
  show "wrap32 (win_y w - 18 + 1) = win_y w - 17" using b wrap32_id[of "win_y w - 17"] by simp
qed

lemma good_glyph: "good_image (font_render font c color)"
  by (simp add: good_image_def font_render_def Let_def)

lemma draw_glyph_paints:
  assumes "good_image im" and "in_range r" "points r \<subseteq> points (bounds im)" and "in_range (glyph_rect x y)"
  shows "\<exists>im'. draw_glyph font r x y c im = Some im' \<and> paints_in (points r) im im' (glyph_paint font x y c)"
proof -
  have "rect_w (glyph_rect x y) = im_w (font_render font c white)" "rect_h (glyph_rect x y) = im_h (font_render font c white)"
    by (simp_all add: glyph_rect_def font_render_def Let_def)
  from draw_part_paints[OF assms(1) good_glyph assms(2-4) this, of blend_pixel]
  show ?thesis by (simp add: draw_glyph_def rect_new_def glyph_paint_def glyph_rect_def font_render_def Let_def)
qed

lemma draw_chars_paints:
  assumes "in_range r" and "- (2 ^ 28) \<le> x" and "lim \<le> 2 ^ 28 + 16" and "- (2 ^ 28) - 32 \<le> y" and "y \<le> 2 ^ 28"
    and "good_image im" and "points r \<subseteq> points (bounds im)"
  shows "\<exists>im'. draw_chars font r lim y x cs im = Some im' \<and> paints_in (points r) im im' (chars_paint font lim y x cs)"
  using assms(2,6,7)
proof (induction cs arbitrary: x im)
  case Nil
  then show ?case using paints_in_refl by auto
next
  case (Cons c cs)
  show ?case
  proof (cases "x < lim")
    case True
    have "in_range (glyph_rect x y)" using Cons.prems(1) True assms(3-5) by (simp add: in_range_def glyph_rect_def)
    from draw_glyph_paints[OF Cons.prems(2) assms(1) Cons.prems(3) this, of font c] obtain im1 where
      g: "draw_glyph font r x y c im = Some im1" "paints_in (points r) im im1 (glyph_paint font x y c)" by blast
    have w: "wrap32 (x + 8) = x + 8" using Cons.prems(1) True assms(3) by (intro wrap32_id) simp_all
    obtain im2 where "draw_chars font r lim y (x + 8) cs im1 = Some im2"
        "paints_in (points r) im1 im2 (chars_paint font lim y (x + 8) cs)"
      using Cons.IH[of "x + 8" im1] Cons.prems(1,3) paints_in_good[OF g(2)] by auto
    then show ?thesis using True g(1) w paints_in_trans[OF g(2), of im2] by auto
  next
    case False
    then show ?thesis using paints_in_refl[OF Cons.prems(2)] by auto
  qed
qed

lemma chars_paint_outside:
  assumes "\<And>x'. x \<le> x' \<Longrightarrow> x' < lim \<Longrightarrow> p \<notin> points (glyph_rect x' y)"
  shows "chars_paint font lim y x cs p old = old"
  using assms
proof (induction cs arbitrary: x old)
  case (Cons c cs)
  have "p \<notin> points (glyph_rect x y)" if "x < lim" using Cons.prems[of x] that by simp
  moreover have "chars_paint font lim y (x + 8) cs p o' = o'" for o' by (rule Cons.IH) (use Cons.prems in simp)
  ultimately show ?case by (simp add: glyph_paint_def object_paint_def)
qed simp

lemma glyph_in_title:
  assumes "win_title w \<noteq> []" and "win_x w \<le> x" and "x + 8 \<le> win_x w + win_width w"
  shows "points (glyph_rect x (win_y w - 17)) \<subseteq> points (title_bar w)"
  using assms by (auto simp: points_def glyph_rect_def title_bar_def)

lemma title_letters_outside:
  assumes "win_title w \<noteq> []" and "p \<notin> points (title_bar w)"
  shows "chars_paint font (text_end w) (win_y w - 17) (win_x w + 2) cs p old = old"
    and "text_end w + 10 \<le> win_x w + win_width w \<Longrightarrow> glyph_paint font (text_end w) (win_y w - 17) c p old = old"
proof -
  show "chars_paint font (text_end w) (win_y w - 17) (win_x w + 2) cs p old = old"
  proof (rule chars_paint_outside)
    fix x assume "win_x w + 2 \<le> x" "x < text_end w"
    then have "win_x w \<le> x" "x + 8 \<le> win_x w + win_width w" by (auto simp: text_end_def)
    then show "p \<notin> points (glyph_rect x (win_y w - 17))" using glyph_in_title[OF assms(1)] assms(2) by blast
  qed
  assume "text_end w + 10 \<le> win_x w + win_width w"
  moreover have "win_x w \<le> text_end w" by (simp add: text_end_def)
  ultimately have "p \<notin> points (glyph_rect (text_end w) (win_y w - 17))" using glyph_in_title[OF assms(1), of "text_end w"] assms(2) by auto
  then show "glyph_paint font (text_end w) (win_y w - 17) c p old = old" by (simp add: glyph_paint_def object_paint_def)
qed

lemma alpha_title_color: "alpha_of (title_color f) = 255"
  by (cases f) (simp_all add: title_color_def alpha_of_def rgb_def)

lemma draw_title_paints:
  assumes w: "win_ok w" and im: "good_image im" and r: "in_range r" "points r \<subseteq> points (bounds im)"
  shows "\<exists>im'. draw_title font r focused w im = Some im' \<and> paints_in (points r) im im' (title_paint font focused w)"
proof -
  note R = win_ok_rects[OF w] and E = win_ok_edges[OF w]
  from intersection_spec[OF r(1) R(4)] obtain i where
    i: "intersection r (title_bar w) = Some i" "in_range i" "points i = points r \<inter> points (title_bar w)" by metis
  show ?thesis
  proof (cases "is_empty_rect i")
    case True
    then have "points r \<inter> points (title_bar w) = {}" using i empty_points by blast
    then have "paints_in (points r) im im (title_paint font focused w)"
      by (intro paints_in_cong[OF paints_in_refl[OF im]]) (auto simp: title_paint_def)
    then show ?thesis using True i(1) R(2) by (auto simp: draw_title_def)
  next
    case False
    then have t: "win_title w \<noteq> []" using i by (auto simp: title_bar_def rect_default_def points_def empty_points)
    have top: "wrap32 (rect_top (title_bar w) + 1) = win_y w - 17" using E(5) t by (simp add: title_bar_def rect_top_def)
    have "inside im i" using nonempty_inside[OF i(2) False, of "bounds im"] i(2,3) r(2) by (auto simp: inside_def bounds_def in_range_def)
    from roi_set_paints[OF im this alpha_title_color] obtain im1 where
      s1: "roi_set i (title_color focused) im = Some im1" "painted im im1 (\<lambda>p old. if p \<in> points i then title_color focused else old)" by blast
    have p1: "paints_in (points r) im im1 (\<lambda>p old. if p \<in> points (title_bar w) then title_color focused else old)"
      unfolding paints_in_def by (rule painted_cong[OF s1(2)]) (simp add: i(3))
    have b: "- (2 ^ 28) \<le> win_x w + 2" "text_end w \<le> 2 ^ 28 + 16" "- (2 ^ 28) - 32 \<le> win_y w - 17" "win_y w - 17 \<le> 2 ^ 28"
      using w win_ok_size[OF w] by (auto simp: win_ok_def text_end_def)
    have im1: "good_image im1" "points r \<subseteq> points (bounds im1)" using paints_in_good[OF p1] r(2) by auto
    from draw_chars_paints[OF r(1) b im1, of font "win_title w"] obtain im2 where
      s2: "draw_chars font r (text_end w) (win_y w - 17) (win_x w + 2) (win_title w) im1 = Some im2"
        "paints_in (points r) im1 im2 (chars_paint font (text_end w) (win_y w - 17) (win_x w + 2) (win_title w))" by blast
    note p2 = paints_in_trans[OF p1 s2(2)]
    have im2: "good_image im2" "points r \<subseteq> points (bounds im2)" using paints_in_good[OF p2] r(2) by auto
    have gr: "in_range (glyph_rect (text_end w) (win_y w - 17))" using b w win_ok_size[OF w] by (auto simp: in_range_def glyph_rect_def win_ok_def text_end_def)
    have run: "draw_title font r focused w im =
        (if text_end w + 10 \<le> win_x w + win_width w then draw_glyph font r (text_end w) (win_y w - 17) 0x58 im2 else Some im2)"
      using False i(1) R(2) s1(1) s2(1) by (simp add: draw_title_def E top)
    show ?thesis
    proof (cases "text_end w + 10 \<le> win_x w + win_width w")
      case True
      from draw_glyph_paints[OF im2(1) r(1) im2(2) gr, of font "0x58"] obtain im3 where
        s3: "draw_glyph font r (text_end w) (win_y w - 17) 0x58 im2 = Some im3"
          "paints_in (points r) im2 im3 (glyph_paint font (text_end w) (win_y w - 17) 0x58)" by blast
      have "paints_in (points r) im im3 (title_paint font focused w)"
        by (rule paints_in_cong[OF paints_in_trans[OF p2 s3(2)]])
          (use True in \<open>simp add: title_paint_def title_letters_outside[OF t] Let_def\<close>)
      then show ?thesis using run s3(1) True by auto
    next
      case False
      have "paints_in (points r) im im2 (title_paint font focused w)"
        by (rule paints_in_cong[OF p2]) (use False in \<open>simp add: title_paint_def title_letters_outside[OF t] Let_def\<close>)
      then show ?thesis using run False by auto
    qed
  qed
qed

lemma draw_window_part: "window_rect w = Some q \<Longrightarrow> draw_window r w im = draw_part (\<lambda>old new. new) r q (win_image w) im"
  unfolding draw_window_def draw_part_def roi_blit_def intersection_commute[of r] by simp

lemma draw_both_paint:
  assumes w: "win_ok w" and im: "good_image im" and r: "in_range r" "points r \<subseteq> points (bounds im)"
  shows "\<exists>im'. (do { im \<leftarrow> draw_title font r focused w im; draw_window r w im }) = Some im'
    \<and> paints_in (points r) im im' (window_paint font focused w)"
proof -
  from draw_title_paints[OF assms, of font focused] obtain im1 where
    t: "draw_title font r focused w im = Some im1" "paints_in (points r) im im1 (title_paint font focused w)" by blast
  have im1: "good_image im1" "points r \<subseteq> points (bounds im1)" using paints_in_good[OF t(2)] r(2) by auto
  have g: "good_image (win_image w)" using w by (simp add: win_ok_def)
  have d: "rect_w (frame w) = im_w (win_image w)" "rect_h (frame w) = im_h (win_image w)" by (simp_all add: frame_def win_width_def win_height_def)
  from draw_part_paints[OF im1(1) g r(1) im1(2) win_ok_rects(3)[OF w] d, of "\<lambda>old new. new"] obtain im2 where
    s: "draw_part (\<lambda>old new. new) r (frame w) (win_image w) im1 = Some im2"
      "paints_in (points r) im1 im2 (object_paint (\<lambda>old new. new) (frame w) (win_image w))" by blast
  have "paints_in (points r) im im2 (window_paint font focused w)"
    by (rule paints_in_cong[OF paints_in_trans[OF t(2) s(2)]]) (simp add: window_paint_def)
  then show ?thesis using t(1) s(1) draw_window_part[OF win_ok_rects(1)[OF w]] by auto
qed

section \<open>The screen\<close>

text \<open>The layers of the windows from position \<^term>\<open>i\<close> on, the first on top.\<close>

fun windows_paint :: "u8 list \<Rightarrow> (usize \<Rightarrow> Window option) \<Rightarrow> nat \<Rightarrow> usize list \<Rightarrow> int \<times> int \<Rightarrow> u32 \<Rightarrow> u32" where
  "windows_paint font ws i [] p old = old"
| "windows_paint font ws i (n # ns) p old =
     (let old = windows_paint font ws (i + 1) ns p old
      in case ws n of Some w \<Rightarrow> window_paint font (i = 0) w p old | None \<Rightarrow> old)"

definition cursor_frame :: "OrbitalScheme \<Rightarrow> Rect" where
  "cursor_frame st = \<lparr>rect_x = cursor_x st, rect_y = cursor_y st, rect_w = im_w (cursor st), rect_h = im_h (cursor st)\<rparr>"

definition scene :: "u8 list \<Rightarrow> OrbitalScheme \<Rightarrow> int \<times> int \<Rightarrow> u32" where
  "scene font st p =
     object_paint blend_pixel (cursor_frame st) (cursor st) p
       (windows_paint font (windows st) 0 (order st) p (pixel (backdrop st) p))"

text \<open>
  Sessions whose coordinates are away from the limits of 32 bits and whose background covers the screen.
\<close>

definition session_ok :: "OrbitalScheme \<Rightarrow> bool" where
  "session_ok st \<longleftrightarrow> good_image (screen st) \<and> in_range (bounds (screen st)) \<and> good_image (backdrop st) \<and> inside (backdrop st) (bounds (screen st))
     \<and> good_image (cursor st) \<and> in_range (cursor_frame st) \<and> (\<forall>n w. windows st n = Some w \<longrightarrow> win_ok w) \<and> (\<forall>r \<in> set (redraws st). in_range r)"

lemma draw_windows_paints:
  assumes ws: "\<forall>n w. ws n = Some w \<longrightarrow> win_ok w" and "good_image im" and "in_range r" and "points r \<subseteq> points (bounds im)"
  shows "\<exists>im'. draw_windows font r ws i ns im = Some im' \<and> paints_in (points r) im im' (windows_paint font ws i ns)"
  using assms(2,4)
proof (induction ns arbitrary: i)
  case Nil
  then show ?case using paints_in_refl by auto
next
  case (Cons n ns)
  obtain im1 where t: "draw_windows font r ws (i + 1) ns im = Some im1" "paints_in (points r) im im1 (windows_paint font ws (i + 1) ns)"
    using Cons by blast
  have im1: "good_image im1" "points r \<subseteq> points (bounds im1)" using paints_in_good[OF t(2)] Cons.prems(2) by auto
  show ?case
  proof (cases "ws n")
    case None
    have "paints_in (points r) im im1 (windows_paint font ws i (n # ns))" by (rule paints_in_cong[OF t(2)]) (simp add: None)
    moreover have "draw_windows font r ws i (n # ns) im = Some im1" using t(1) None by simp
    ultimately show ?thesis by blast
  next
    case (Some w)
    from draw_both_paint[OF ws[rule_format, OF Some] im1(1) assms(3) im1(2), of font "i = 0"] obtain im2 where
      s: "(do { im \<leftarrow> draw_title font r (i = 0) w im1; draw_window r w im }) = Some im2"
        "paints_in (points r) im1 im2 (window_paint font (i = 0) w)" by blast
    have "paints_in (points r) im im2 (windows_paint font ws i (n # ns))"
      by (rule paints_in_cong[OF paints_in_trans[OF t(2) s(2)]]) (simp add: Some)
    moreover have "draw_windows font r ws i (n # ns) im = Some im2" using t(1) s(1) Some by simp
    ultimately show ?thesis by blast
  qed
qed

lemma redraw_rect_paints:
  assumes st: "session_ok st" and im: "good_image im" "bounds im = bounds (screen st)" and r: "in_range r" "points r \<subseteq> points (bounds im)"
  shows "\<exists>im'. redraw_rect font st r im = Some im' \<and> paints_in (points r) im im' (\<lambda>p old. scene font st p)"
proof (cases "is_empty_rect r")
  case True
  then have "points r = {}" using empty_points[OF r(1)] by simp
  then have "paints_in (points r) im im (\<lambda>p old. scene font st p)" by (intro paints_in_cong[OF paints_in_refl[OF im(1)]]) simp
  then show ?thesis using True by (auto simp: redraw_rect_def)
next
  case False
  note a = nonempty_inside[OF r(1) False r(2)]
  have ins: "inside im r" "inside (backdrop st) r"
    using a r(1) st im(2) by (auto simp: inside_def bounds_def in_range_def session_ok_def)
  have bg: "good_image (backdrop st)" and cur: "good_image (cursor st)" "in_range (cursor_frame st)" and ws: "\<forall>n w. windows st n = Some w \<longrightarrow> win_ok w"
    using st by (auto simp: session_ok_def)
  from roi_zip_paints[OF im(1) bg ins refl refl, of "\<lambda>old new. new"] obtain im1 where
    s1: "roi_blit r r (backdrop st) im = Some im1" "painted im im1 (copy_paint (\<lambda>old new. new) r r (backdrop st))"
    by (auto simp: roi_blit_def)
  have p1: "paints_in (points r) im im1 (\<lambda>p old. pixel (backdrop st) p)"
    unfolding paints_in_def by (rule painted_cong[OF s1(2)]) (simp add: copy_paint_def)
  have im1: "good_image im1" "points r \<subseteq> points (bounds im1)" using paints_in_good[OF p1] r(2) by auto
  from draw_windows_paints[OF ws im1(1) r(1) im1(2), of font 0 "order st"] obtain im2 where
    s2: "draw_windows font r (windows st) 0 (order st) im1 = Some im2" "paints_in (points r) im1 im2 (windows_paint font (windows st) 0 (order st))"
    by blast
  have im2: "good_image im2" "points r \<subseteq> points (bounds im2)" using paints_in_good[OF s2(2)] im1(2) by auto
  have d: "rect_w (cursor_frame st) = im_w (cursor st)" "rect_h (cursor_frame st) = im_h (cursor st)" by (simp_all add: cursor_frame_def)
  from draw_part_paints[OF im2(1) cur(1) r(1) im2(2) cur(2) d, of blend_pixel] obtain im3 where
    s3: "draw_part blend_pixel r (cursor_frame st) (cursor st) im2 = Some im3"
      "paints_in (points r) im2 im3 (object_paint blend_pixel (cursor_frame st) (cursor st))" by blast
  have "cursor_rect st = Some (cursor_frame st)"
    using cur(1) by (simp add: cursor_rect_def rect_new_def cursor_frame_def good_image_def)
  moreover have "paints_in (points r) im im3 (\<lambda>p old. scene font st p)"
    by (rule paints_in_cong[OF paints_in_trans[OF paints_in_trans[OF p1 s2(2)] s3(2)]]) (simp add: scene_def)
  ultimately show ?thesis using False s1(1) s2(1) s3(1) by (auto simp: redraw_rect_def)
qed

lemma screen_rect_bounds: "session_ok st \<Longrightarrow> screen_rect st = Some (bounds (screen st))"
  by (simp add: screen_rect_def rect_new_def bounds_def session_ok_def good_image_def)

lemma redraw_rects_paint:
  assumes st: "session_ok st" and "\<forall>r \<in> set rs. in_range r" and "good_image im" and "bounds im = bounds (screen st)"
  shows "\<exists>rs' im'. redraw_rects font st (bounds (screen st)) rs im = Some (rs', im')
      \<and> paints_in (damage rs) im im' (\<lambda>p old. scene font st p)
      \<and> (\<forall>r \<in> set rs'. in_range r \<and> points r \<subseteq> points (bounds im)) \<and> damage rs' = damage rs \<inter> points (bounds im)"
  using assms(2-4)
proof (induction rs arbitrary: im)
  case Nil
  then show ?case using paints_in_refl[of im "{}"] by (auto simp: paints_in_def)
next
  case (Cons r rs)
  have b: "in_range (bounds (screen st))" using st by (simp add: session_ok_def)
  from intersection_spec[OF _ b, of r] Cons.prems(1) obtain i where
    i: "intersection r (bounds (screen st)) = Some i" "in_range i" "points i = points r \<inter> points (bounds (screen st))" by (metis list.set_intros(1))
  from redraw_rect_paints[OF st Cons.prems(2,3) i(2)] i(3) Cons.prems(3) obtain im1 where
    s1: "redraw_rect font st i im = Some im1" "paints_in (points i) im im1 (\<lambda>p old. scene font st p)" by auto
  have im1: "good_image im1" "bounds im1 = bounds (screen st)" using paints_in_good[OF s1(2)] Cons.prems(3) by simp_all
  from Cons.IH[OF _ im1] Cons.prems(1) obtain rs' im2 where
    s2: "redraw_rects font st (bounds (screen st)) rs im1 = Some (rs', im2)" "paints_in (damage rs) im1 im2 (\<lambda>p old. scene font st p)"
      "\<forall>r \<in> set rs'. in_range r \<and> points r \<subseteq> points (bounds im1)" "damage rs' = damage rs \<inter> points (bounds im1)" by auto
  have "paints_in (damage (r # rs)) im im2 (\<lambda>p old. scene font st p)"
    using s1(2) s2(2) Cons.prems(3) im1(2) i(3) unfolding paints_in_def painted_def by (auto simp: bounds_def)
  moreover have "redraw_rects font st (bounds (screen st)) (r # rs) im = Some (i # rs', im2)"
    using i(1) s1(1) s2(1) by simp
  ultimately show ?case using s2(3,4) i(2,3) im1(2) Cons.prems(3) by auto
qed

section \<open>The display\<close>

text \<open>The display after the runs of pixels have arrived.\<close>

definition shown :: "(nat \<times> u32 list) list \<Rightarrow> (nat \<Rightarrow> u32) \<Rightarrow> nat \<Rightarrow> u32" where
  "shown runs d = fold (\<lambda>(off, px) d k. if off \<le> k \<and> k < off + length px then px ! (k - off) else d k) runs d"

definition run_of_data :: "u32 list \<Rightarrow> nat \<times> u32 list \<Rightarrow> bool" where
  "run_of_data xs s \<longleftrightarrow> (\<forall>j < length (snd s). fst s + j < length xs \<and> snd s ! j = xs ! (fst s + j))"

lemma shown_runs:
  assumes "\<forall>s \<in> set runs. run_of_data xs s"
  shows "shown runs d k = (if \<exists>s \<in> set runs. fst s \<le> k \<and> k < fst s + length (snd s) then xs ! k else d k)"
  using assms
proof (induction runs arbitrary: d)
  case (Cons s runs)
  obtain off px where s: "s = (off, px)" by fastforce
  have "px ! (k - off) = xs ! k" if "off \<le> k" "k < off + length px"
    using Cons.prems that s by (auto simp: run_of_data_def dest!: spec[of _ "k - off"])
  then show ?case using Cons by (auto simp: shown_def s)
qed (simp add: shown_def)

lemma all_some_map: "(\<And>x. x \<in> set xs \<Longrightarrow> f x = Some (g x)) \<Longrightarrow> all_some (map f xs) = Some (map g xs)"
  by (induction xs) auto

definition row_run :: "Image \<Rightarrow> Rect \<Rightarrow> int \<Rightarrow> nat \<times> u32 list" where
  "row_run im r row = (let s = row * im_w im + rect_x r in (nat s, slice_of (nat s) (nat (s + rect_w r)) (im_data im)))"

lemma send_row_run:
  assumes "good_image im" and "inside im r" and "in_range r" and "rect_y r \<le> row" and "row < rect_y r + rect_h r"
  shows "send_row im r row = Some (row_run im r row)" and "run_of_data (im_data im) (row_run im r row)"
    and "(x, y) \<in> points (bounds im) \<Longrightarrow>
      (let k = nat (y * im_w im + x) in fst (row_run im r row) \<le> k \<and> k < fst (row_run im r row) + length (snd (row_run im r row)))
      \<longleftrightarrow> y = row \<and> rect_x r \<le> x \<and> x < rect_x r + rect_w r"
proof -
  define i where "i = nat (row - rect_y r)"
  have i: "int i < rect_h r" "rect_y r + int i = row" using assms(4,5) by (simp_all add: i_def)
  let ?s = "row * im_w im + rect_x r"
  have s: "?s = (rect_y r + int i) * im_w im + rect_x r" by (simp add: i(2))
  note R = roi_row_inside[OF assms(1,2) i(1) s] and L = nth_slice_row[OF assms(1,2) i(1) s]
  have lim: "im_w im * im_h im < 2 ^ 30" "int (length (im_data im)) = im_w im * im_h im" "0 \<le> im_w im" using assms(1) by (auto simp: good_image_def)
  have w: "0 \<le> rect_w r" "0 \<le> rect_x r" "0 \<le> row" "rect_x r + rect_w r \<le> im_w im" using assms(2,4) by (simp_all add: inside_def)
  have q0: "0 \<le> row * im_w im" using w(3) lim(3) by simp
  have "wrap32 (row * im_w im) = row * im_w im" using q0 R(3) lim(1) w by (intro wrap32_pos) linarith+
  moreover have "wrap32 ?s = ?s" using R(2,3) lim(1) w by (intro wrap32_pos) linarith+
  moreover have e: "row * im_w im + rect_right r = ?s + rect_w r" by (simp add: in_range_edges[OF assms(3)])
  moreover have "wrap32 (?s + rect_w r) = ?s + rect_w r" using R(2,3) lim(1) w by (intro wrap32_pos) linarith+
  ultimately show "send_row im r row = Some (row_run im r row)"
    using R(2,3) w lim(2) by (simp add: send_row_def row_run_def rect_left_def Let_def add.assoc)
  have len: "length (snd (row_run im r row)) = nat (rect_w r)" using L(1) by (simp add: row_run_def Let_def)
  show "run_of_data (im_data im) (row_run im r row)"
    using R(2,3) w(1) lim(2) by (auto simp: run_of_data_def row_run_def Let_def slice_of_def)
  show "(let k = nat (y * im_w im + x) in fst (row_run im r row) \<le> k \<and> k < fst (row_run im r row) + length (snd (row_run im r row)))
      \<longleftrightarrow> y = row \<and> rect_x r \<le> x \<and> x < rect_x r + rect_w r" if "(x, y) \<in> points (bounds im)"
  proof -
    have b: "0 \<le> x" "x < im_w im" "0 \<le> y" "y < im_h im" using that by (auto simp: points_def bounds_def)
    let ?k = "y * im_w im + x"
    have "nat ?s \<le> nat ?k \<and> nat ?k < nat ?s + nat (rect_w r) \<longleftrightarrow> ?s \<le> ?k \<and> ?k < ?s + rect_w r"
      using R(2) index_bounds[OF b] w(1) by auto
    then show ?thesis using row_major[OF b(1,2) w(2,4), of row y] len by (simp add: row_run_def Let_def)
  qed
qed

lemma send_rect_runs:
  assumes "good_image im" and "in_range r" and "points r \<subseteq> points (bounds im)"
  obtains out where "send_rect im r = Some out" and "\<forall>s \<in> set out. run_of_data (im_data im) s"
    and "\<And>x y. (x, y) \<in> points (bounds im) \<Longrightarrow>
      (\<exists>s \<in> set out. fst s \<le> nat (y * im_w im + x) \<and> nat (y * im_w im + x) < fst s + length (snd s)) \<longleftrightarrow> (x, y) \<in> points r"
proof (cases "is_empty_rect r")
  case True
  then have "points r = {}" using empty_points[OF assms(2)] by simp
  then show thesis using that[of "[]"] True by (simp add: send_rect_def)
next
  case False
  have ins: "inside im r" using nonempty_inside[OF assms(2) False assms(3)] assms(2) by (auto simp: inside_def bounds_def in_range_def)
  have rows: "row \<in> set [rect_top r..rect_bottom r - 1] \<longleftrightarrow> rect_y r \<le> row \<and> row < rect_y r + rect_h r" for row
    using in_range_edges[OF assms(2)] by auto
  note row = send_row_run[OF assms(1) ins assms(2)]
  let ?out = "map (row_run im r) [rect_top r..rect_bottom r - 1]"
  have "send_rect im r = Some ?out"
    using False all_some_map[of "[rect_top r..rect_bottom r - 1]" "send_row im r" "row_run im r"] row(1) rows by (simp add: send_rect_def)
  moreover have "\<forall>s \<in> set ?out. run_of_data (im_data im) s" using row(2) rows by auto
  moreover have "(\<exists>s \<in> set ?out. fst s \<le> nat (y * im_w im + x) \<and> nat (y * im_w im + x) < fst s + length (snd s)) \<longleftrightarrow> (x, y) \<in> points r"
    if p: "(x, y) \<in> points (bounds im)" for x y
  proof -
    have "(\<exists>s \<in> set ?out. fst s \<le> nat (y * im_w im + x) \<and> nat (y * im_w im + x) < fst s + length (snd s)) \<longleftrightarrow>
        (\<exists>q. (rect_y r \<le> q \<and> q < rect_y r + rect_h r) \<and> (y = q \<and> rect_x r \<le> x \<and> x < rect_x r + rect_w r))"
      unfolding set_map bex_simps(7) using rows row(3)[OF _ _ p, unfolded Let_def] by (metis (no_types, lifting))
    then show ?thesis by (auto simp: points_def)
  qed
  ultimately show thesis by (rule that)
qed

lemma send_all_rects:
  assumes "good_image im" and "\<forall>r \<in> set rs. in_range r \<and> points r \<subseteq> points (bounds im)"
  shows "\<exists>outs. all_some (map (send_rect im) rs) = Some outs \<and> (\<forall>s \<in> set (concat outs). run_of_data (im_data im) s)
    \<and> (\<forall>x y. (x, y) \<in> points (bounds im) \<longrightarrow>
         (\<exists>s \<in> set (concat outs). fst s \<le> nat (y * im_w im + x) \<and> nat (y * im_w im + x) < fst s + length (snd s)) = ((x, y) \<in> damage rs))"
  using assms(2)
proof (induction rs)
  case (Cons r rs)
  obtain outs where o: "all_some (map (send_rect im) rs) = Some outs" "\<forall>s \<in> set (concat outs). run_of_data (im_data im) s"
    "\<forall>x y. (x, y) \<in> points (bounds im) \<longrightarrow>
         (\<exists>s \<in> set (concat outs). fst s \<le> nat (y * im_w im + x) \<and> nat (y * im_w im + x) < fst s + length (snd s)) = ((x, y) \<in> damage rs)"
    using Cons by auto
  obtain out where q: "send_rect im r = Some out" "\<forall>s \<in> set out. run_of_data (im_data im) s"
    "\<And>x y. (x, y) \<in> points (bounds im) \<Longrightarrow>
      (\<exists>s \<in> set out. fst s \<le> nat (y * im_w im + x) \<and> nat (y * im_w im + x) < fst s + length (snd s)) \<longleftrightarrow> (x, y) \<in> points r"
    using send_rect_runs[OF assms(1), of r] Cons.prems by auto
  have "all_some (map (send_rect im) (r # rs)) = Some (out # outs)" using o(1) q(1) by simp
  moreover have "set (concat (out # outs)) = set out \<union> set (concat outs)" by simp
  ultimately show ?case using o(2,3) q(2,3) unfolding damage_simps bex_Un ball_Un Un_iff
    by (intro exI[of _ "out # outs"] conjI allI impI) (simp_all only: ball_Un bex_Un Un_iff)
qed simp

section \<open>Redrawing\<close>

lemma redraw_correct:
  assumes "session_ok st"
  shows "\<exists>im out. redraw font st = Some (st\<lparr>screen := im, redraws := []\<rparr>, out)
    \<and> good_image im \<and> bounds im = bounds (screen st)
    \<and> (\<forall>p \<in> points (bounds im). pixel im p = (if p \<in> damage (redraws st) then scene font st p else pixel (screen st) p))
    \<and> (\<forall>d. \<forall>(x, y) \<in> points (bounds im). shown out d (nat (y * im_w im + x)) =
         (if (x, y) \<in> damage (redraws st) then scene font st (x, y) else d (nat (y * im_w im + x))))"
proof -
  have g: "good_image (screen st)" "\<forall>r \<in> set (redraws st). in_range r" using assms by (simp_all add: session_ok_def)
  from redraw_rects_paint[OF assms g(2,1) refl, of font] obtain rs' im where
    r: "redraw_rects font st (bounds (screen st)) (redraws st) (screen st) = Some (rs', im)"
      "paints_in (damage (redraws st)) (screen st) im (\<lambda>p old. scene font st p)"
      "\<forall>r \<in> set rs'. in_range r \<and> points r \<subseteq> points (bounds (screen st))" "damage rs' = damage (redraws st) \<inter> points (bounds (screen st))" by blast
  have im: "good_image im" "bounds im = bounds (screen st)" using paints_in_good[OF r(2)] by simp_all
  from send_all_rects[OF im(1), of rs'] r(3) im(2) obtain outs where
    o: "all_some (map (send_rect im) rs') = Some outs" "\<forall>s \<in> set (concat outs). run_of_data (im_data im) s"
      "\<forall>x y. (x, y) \<in> points (bounds im) \<longrightarrow>
         (\<exists>s \<in> set (concat outs). fst s \<le> nat (y * im_w im + x) \<and> nat (y * im_w im + x) < fst s + length (snd s)) = ((x, y) \<in> damage rs')"
    by auto
  have px: "\<forall>p \<in> points (bounds im). pixel im p = (if p \<in> damage (redraws st) then scene font st p else pixel (screen st) p)"
    using r(2) im(2) by (simp add: paints_in_def painted_def)
  have "shown (concat outs) d (nat (y * im_w im + x)) =
      (if (x, y) \<in> damage (redraws st) then scene font st (x, y) else d (nat (y * im_w im + x)))" if p: "(x, y) \<in> points (bounds im)" for d x y
  proof -
    have "shown (concat outs) d (nat (y * im_w im + x)) = (if (x, y) \<in> damage rs' then pixel im (x, y) else d (nat (y * im_w im + x)))"
      using shown_runs[OF o(2), of d] o(3)[rule_format, OF p] by (simp add: pixel_def)
    then show ?thesis using px p r(4) im(2) by auto
  qed
  moreover have "redraw font st = Some (st\<lparr>screen := im, redraws := []\<rparr>, concat outs)"
    using r(1) o(1) by (simp add: redraw_def screen_rect_bounds[OF assms])
  ultimately show ?thesis using im px by blast
qed

text \<open>
  A redraw brings the screen up to date. In a session whose coordinates are away from the limits, redrawing succeeds; afterwards nothing is scheduled any more,
  and every pixel of the screen's image that was covered by a scheduled rectangle is the pixel of the scene (background, windows with their titles from
  the last to the first of the order, cursor), the others are as before; and what is sent to the display sets the same pixels there and no others.
\<close>

theorem redraw_shows_scene:
  assumes "session_ok st"
  shows "\<exists>im out. redraw font st = Some (st\<lparr>screen := im, redraws := []\<rparr>, out)
    \<and> good_image im \<and> bounds im = bounds (screen st)
    \<and> (\<forall>p \<in> points (bounds im). pixel im p = (if p \<in> damage (redraws st) then scene font st p else pixel (screen st) p))
    \<and> (\<forall>d. \<forall>(x, y) \<in> points (bounds im). shown out d (nat (y * im_w im + x)) =
         (if (x, y) \<in> damage (redraws st) then scene font st (x, y) else d (nat (y * im_w im + x))))"
  by (rule redraw_correct[OF assms])

end
