(* ===== verification/OrbitalDamage.thy ===== *)
theory OrbitalDamage
  imports OrbitalPaint "HOL-Library.Multiset"
begin

text \<open>
  The window manager schedules what changes: outside the scheduled rectangles the screen always shows the scene, so that after
  each redraw it shows it everywhere.
\<close>

section \<open>Layers\<close>

definition layer :: "u8 list \<Rightarrow> (usize \<Rightarrow> Window option) \<Rightarrow> bool \<Rightarrow> int \<times> int \<Rightarrow> usize \<Rightarrow> u32 \<Rightarrow> u32" where
  "layer font ws focused p n old = (case ws n of Some w \<Rightarrow> window_paint font focused w p old | None \<Rightarrow> old)"

definition space :: "Window \<Rightarrow> (int \<times> int) set" where
  "space w = points (title_bar w) \<union> points (frame w)"

lemma window_paint_outside: "p \<notin> space w \<Longrightarrow> window_paint font f w p old = old"
  by (simp add: window_paint_def object_paint_def title_paint_def space_def)

lemma windows_paint_rest: "0 < i \<Longrightarrow> windows_paint font ws i ns p old = foldr (layer font ws False p) ns old"
  by (induction ns arbitrary: i) (simp_all add: layer_def Let_def split: option.split)

lemma windows_paint_front:
  "windows_paint font ws 0 ns p old =
     (case ns of [] \<Rightarrow> old | n # ns \<Rightarrow> layer font ws True p n (foldr (layer font ws False p) ns old))"
  by (cases ns) (simp_all add: windows_paint_rest layer_def Let_def split: option.split)

lemma layers_cong:
  "(\<And>n. n \<in> set ns \<Longrightarrow> layer font ws f p n = layer font ws' f p n) \<Longrightarrow>
   foldr (layer font ws f p) ns old = foldr (layer font ws' f p) ns old"
  by (induction ns) simp_all

lemma windows_paint_cong:
  assumes "\<And>n f. layer font ws f p n = layer font ws' f p n"
  shows "windows_paint font ws i ns p old = windows_paint font ws' i ns p old"
  using layers_cong[of ns font ws False p ws'] assms
  by (cases "0 < i") (simp_all add: windows_paint_rest windows_paint_front layers_cong[of _ font ws False p ws'] split: list.split)

lemma layers_filter:
  "(\<And>n old. n \<in> set ns \<Longrightarrow> \<not> P n \<Longrightarrow> layer font ws f p n old = old) \<Longrightarrow>
   foldr (layer font ws f p) (filter P ns) old = foldr (layer font ws f p) ns old"
  by (induction ns) simp_all

section \<open>Sessions\<close>

definition up_to_date :: "u8 list \<Rightarrow> OrbitalScheme \<Rightarrow> bool" where
  "up_to_date font st \<longleftrightarrow> (\<forall>p \<in> points (bounds (screen st)). p \<notin> damage (redraws st) \<longrightarrow> pixel (screen st) p = scene font st p)"

definition fine :: "u8 list \<Rightarrow> OrbitalScheme \<Rightarrow> bool" where
  "fine font st \<longleftrightarrow> session_ok st \<and> up_to_date font st"

text \<open>The same session with more scheduled, at least the points of \<^term>\<open>D\<close>.\<close>

definition scheduled :: "(int \<times> int) set \<Rightarrow> OrbitalScheme \<Rightarrow> OrbitalScheme \<Rightarrow> bool" where
  "scheduled D st st' \<longleftrightarrow> (\<exists>rs. st' = st\<lparr>redraws := rs\<rparr> \<and> (\<forall>r \<in> set rs. in_range r) \<and> damage (redraws st) \<union> D \<subseteq> damage rs)"

lemma scheduled_trans: "scheduled D st st1 \<Longrightarrow> scheduled E st1 st2 \<Longrightarrow> scheduled (D \<union> E) st st2"
  unfolding scheduled_def by (elim exE conjE) (simp, blast)

lemma schedule_on_ok:
  assumes "session_ok st" and "in_range r"
  shows "\<exists>st'. schedule_on st (Some r) = Some st' \<and> scheduled (points r) st st'"
  using schedule_covers[of "redraws st" r] assms by (auto simp: session_ok_def schedule_on_def scheduled_def)

lemma scheduled_ok: "scheduled D st st' \<Longrightarrow> session_ok st \<Longrightarrow> session_ok st'"
  unfolding scheduled_def by (elim exE conjE) (simp add: session_ok_def cursor_frame_def)

lemma scheduled_same:
  assumes "scheduled D st st'"
  shows "screen st' = screen st" "backdrop st' = backdrop st" "cursor st' = cursor st" "cursor_x st' = cursor_x st" "cursor_y st' = cursor_y st"
    "dragging st' = dragging st" "drag_x st' = drag_x st" "drag_y st' = drag_y st" "order st' = order st" "windows st' = windows st"
    "next_id st' = next_id st" "next_x st' = next_x st" "next_y st' = next_y st" "cursor_frame st' = cursor_frame st"
  using assms unfolding scheduled_def by (elim exE conjE; simp add: cursor_frame_def)+

lemma scheduled_damage:
  assumes "scheduled D st st'"
  shows "\<forall>r \<in> set (redraws st'). in_range r" and "damage (redraws st) \<union> D \<subseteq> damage (redraws st')"
  using assms unfolding scheduled_def by (elim exE conjE; simp)+

lemma schedule_window_ok:
  assumes "session_ok st" and "win_ok w"
  shows "\<exists>st'. schedule_window w st = Some st' \<and> scheduled (space w) st st'"
proof -
  note R = win_ok_rects[OF assms(2)]
  from schedule_on_ok[OF assms(1) R(4)] obtain st1 where
    s1: "schedule_on st (Some (title_bar w)) = Some st1" "scheduled (points (title_bar w)) st st1" by blast
  from schedule_on_ok[OF scheduled_ok[OF s1(2) assms(1)] R(3)] obtain st2 where
    s2: "schedule_on st1 (Some (frame w)) = Some st2" "scheduled (points (frame w)) st1 st2" by blast
  then show ?thesis using s1 scheduled_trans[OF s1(2) s2(2)] by (simp add: schedule_window_def R(1,2) space_def)
qed

text \<open>A change of the session outside of which the scene is the same.\<close>

lemma fine_change:
  assumes "fine font st" and "session_ok st'" and "screen st' = screen st" and "damage (redraws st) \<union> D \<subseteq> damage (redraws st')"
    and "\<And>p. p \<notin> D \<Longrightarrow> scene font st' p = scene font st p"
  shows "fine font st'"
  unfolding fine_def up_to_date_def
proof (intro conjI ballI impI)
  show "session_ok st'" by (rule assms(2))
  fix p assume p: "p \<in> points (bounds (screen st'))" "p \<notin> damage (redraws st')"
  then have "p \<notin> damage (redraws st)" "p \<notin> D" using assms(4) by auto
  then show "pixel (screen st') p = scene font st' p" using assms(1,3,5) p(1) by (simp add: fine_def up_to_date_def)
qed

lemma scheduled_scene: "scheduled D st st' \<Longrightarrow> scene font st' p = scene font st p"
  unfolding scene_def by (simp add: scheduled_same)

lemma scheduled_fine: "scheduled D st st' \<Longrightarrow> fine font st \<Longrightarrow> fine font st'"
  by (rule fine_change[of font st _ "{}"]) (auto simp: fine_def scheduled_ok scheduled_same scheduled_scene dest: scheduled_damage(2))

section \<open>The cursor\<close>

lemma move_cursor_fine:
  assumes "fine font st" and "in_range \<lparr>rect_x = x, rect_y = y, rect_w = im_w (cursor st), rect_h = im_h (cursor st)\<rparr>"
  shows "\<exists>st'. move_cursor x y st = Some st' \<and> fine font st' \<and> cursor_x st' = x \<and> cursor_y st' = y \<and> screen st' = screen st \<and> cursor st' = cursor st
    \<and> windows st' = windows st \<and> order st' = order st \<and> dragging st' = dragging st \<and> drag_x st' = drag_x st \<and> drag_y st' = drag_y st"
proof -
  have ok: "session_ok st" using assms(1) by (simp add: fine_def)
  have c: "cursor_rect s = Some (cursor_frame s)" if "session_ok s" for s
    using that by (simp add: cursor_rect_def rect_new_def cursor_frame_def session_ok_def good_image_def)
  have "in_range (cursor_frame st)" using ok by (simp add: session_ok_def)
  from schedule_on_ok[OF ok this] obtain st1 where
    s1: "schedule_on st (Some (cursor_frame st)) = Some st1" "scheduled (points (cursor_frame st)) st st1" by blast
  let ?st = "st1\<lparr>cursor_x := x, cursor_y := y\<rparr>"
  have fr: "cursor_frame ?st = \<lparr>rect_x = x, rect_y = y, rect_w = im_w (cursor st), rect_h = im_h (cursor st)\<rparr>"
    by (simp add: cursor_frame_def scheduled_same[OF s1(2)])
  have ok1: "session_ok ?st" using scheduled_ok[OF s1(2) ok] assms(2) unfolding session_ok_def fr by simp
  from schedule_on_ok[OF ok1, of "cursor_frame ?st"] assms(2) fr obtain st2 where
    s2: "schedule_on ?st (Some (cursor_frame ?st)) = Some st2" "scheduled (points (cursor_frame ?st)) ?st st2" by auto
  have run: "move_cursor x y st = Some st2" using s1(1) s2(1) by (simp add: move_cursor_def c[OF ok] c[OF ok1] Let_def)
  note same = scheduled_same[OF s2(2)] scheduled_same[OF s1(2)]
  have "fine font st2"
  proof (rule fine_change[OF assms(1) scheduled_ok[OF s2(2) ok1]])
    show "screen st2 = screen st" by (simp add: same)
    show "damage (redraws st) \<union> (points (cursor_frame st) \<union> points (cursor_frame ?st)) \<subseteq> damage (redraws st2)"
      using scheduled_damage(2)[OF s1(2)] scheduled_damage(2)[OF s2(2)] by auto
    fix p assume "p \<notin> points (cursor_frame st) \<union> points (cursor_frame ?st)"
    then show "scene font st2 p = scene font st p" by (simp add: scene_def object_paint_def same)
  qed
  then show ?thesis using run same by simp
qed

section \<open>Windows\<close>

lemma scene_windows:
  assumes "backdrop st' = backdrop st" and "cursor st' = cursor st" and "cursor_frame st' = cursor_frame st"
    and "\<And>old. windows_paint font (windows st') 0 (order st') p old = windows_paint font (windows st) 0 (order st) p old"
  shows "scene font st' p = scene font st p"
  by (simp add: scene_def assms)

text \<open>A window replaced by one that looks the same outside \<^term>\<open>D\<close>.\<close>

lemma set_window_fine:
  assumes "fine font st" and "windows st n = Some w" and "win_ok w'" and "D \<subseteq> damage (redraws st)"
    and "\<And>p f old. p \<notin> D \<Longrightarrow> window_paint font f w' p old = window_paint font f w p old"
  shows "fine font (set_window n w' st)"
proof (rule fine_change[OF assms(1), of _ D])
  show "session_ok (set_window n w' st)"
    using assms(1,3) by (auto simp: fine_def session_ok_def set_window_def cursor_frame_def)
  show "screen (set_window n w' st) = screen st" by (simp add: set_window_def)
  show "damage (redraws st) \<union> D \<subseteq> damage (redraws (set_window n w' st))" using assms(4) by (simp add: set_window_def)
  fix p assume p: "p \<notin> D"
  show "scene font (set_window n w' st) p = scene font st p"
    by (rule scene_windows)
      (use assms(2) assms(5)[OF p] in \<open>auto simp: set_window_def cursor_frame_def layer_def intro!: windows_paint_cong\<close>)
qed

lemma events_places: "frame (w\<lparr>win_events := q\<rparr>) = frame w" "title_bar (w\<lparr>win_events := q\<rparr>) = title_bar w" "text_end (w\<lparr>win_events := q\<rparr>) = text_end w"
    "win_width (w\<lparr>win_events := q\<rparr>) = win_width w" "win_height (w\<lparr>win_events := q\<rparr>) = win_height w"
  by (simp_all add: frame_def title_bar_def text_end_def win_width_def win_height_def)

lemma events_paint: "window_paint font f (w\<lparr>win_events := q\<rparr>) = window_paint font f w" "win_ok (w\<lparr>win_events := q\<rparr>) = win_ok w"
  by (simp_all add: window_paint_def title_paint_def win_ok_def events_places fun_eq_iff Let_def)

lemma window_event_paint: "window_paint font f (window_event e w) = window_paint font f w" "win_ok (window_event e w) = win_ok w"
  by (simp_all add: window_event_def events_paint)

lemma send_event_fine: "fine font st \<Longrightarrow> windows st n = Some w \<Longrightarrow> fine font (set_window n (window_event e w) st)"
  by (rule set_window_fine[where D = "{}"]) (auto simp: window_event_paint fine_def session_ok_def)

text \<open>Fields the scene does not depend on.\<close>

lemma fine_other_fields:
  assumes "fine font st"
  shows "fine font (st\<lparr>dragging := b\<rparr>)" "fine font (st\<lparr>drag_x := x, drag_y := y\<rparr>)" "fine font (st\<lparr>dragging := b, drag_x := x, drag_y := y\<rparr>)"
    "fine font (st\<lparr>next_id := k\<rparr>)" "fine font (st\<lparr>next_x := x, next_y := y\<rparr>)"
  using assms by (simp_all add: fine_def session_ok_def up_to_date_def scene_def cursor_frame_def)

definition moved :: "int \<Rightarrow> int \<Rightarrow> Window \<Rightarrow> Window" where
  "moved dx dy w = w\<lparr>win_x := win_x w + dx, win_y := win_y w + dy\<rparr>"

lemma drag_front_fine:
  assumes "fine font st" and "\<forall>n w. windows st n = Some w \<longrightarrow> win_ok (moved (cursor_x st - drag_x st) (cursor_y st - drag_y st) w)"
  shows "\<exists>st'. drag_front e st = Some st' \<and> fine font st'"
proof -
  have "\<exists>st'. drag_front e st = Some st' \<and> fine font st'"
    if c: "sint (event_c e) > 0" "order st = n # ns" "windows st n = Some w" "drag_x st \<noteq> cursor_x st \<or> drag_y st \<noteq> cursor_y st" for n ns w
  proof -
    let ?dx = "cursor_x st - drag_x st" and ?dy = "cursor_y st - drag_y st"
    have ok: "session_ok st" and w: "win_ok w" "win_ok (moved ?dx ?dy w)"
      using assms c(3) by (auto simp: fine_def session_ok_def)
    from schedule_window_ok[OF ok w(1)] obtain st1 where s1: "schedule_window w st = Some st1" "scheduled (space w) st st1" by blast
    note same = scheduled_same[OF s1(2)]
    have d: "\<bar>?dx\<bar> \<le> 2 ^ 29" "\<bar>?dy\<bar> \<le> 2 ^ 29"
      using w win_ok_size[OF w(1)] by (auto simp: win_ok_def moved_def win_width_def win_height_def)
    have "wrap32 ?dx = ?dx" "wrap32 ?dy = ?dy" using d by (auto intro!: wrap32_id)
    moreover have "wrap32 (win_x w + ?dx) = win_x w + ?dx" "wrap32 (win_y w + ?dy) = win_y w + ?dy"
      using w(2) win_ok_size[OF w(2)] by (auto simp: win_ok_def moved_def intro!: wrap32_id)
    ultimately have mv: "w\<lparr>win_x := wrap32 (win_x w + wrap32 (cursor_x st1 - drag_x st1)),
        win_y := wrap32 (win_y w + wrap32 (cursor_y st1 - drag_y st1))\<rparr> = moved ?dx ?dy w"
      by (simp add: same moved_def)
    let ?w = "moved ?dx ?dy w" and ?st = "st1\<lparr>drag_x := cursor_x st1, drag_y := cursor_y st1\<rparr>"
    have f1: "fine font ?st" using fine_other_fields(2)[OF scheduled_fine[OF s1(2) assms(1)]] .
    have ok2: "session_ok (set_window n ?w ?st)"
      using f1 w(2) by (auto simp: fine_def session_ok_def set_window_def cursor_frame_def)
    from schedule_window_ok[OF ok2 w(2)] obtain st2 where
      s2: "schedule_window ?w (set_window n ?w ?st) = Some st2" "scheduled (space ?w) (set_window n ?w ?st) st2" by blast
    have run: "drag_front e st = Some st2" using c s1(1) s2(1) by (simp add: drag_front_def mv Let_def)
    have "fine font st2"
    proof (rule fine_change[OF f1 scheduled_ok[OF s2(2) ok2], of "space w \<union> space ?w"])
      show "screen st2 = screen ?st" by (simp add: scheduled_same[OF s2(2)] set_window_def)
      show "damage (redraws ?st) \<union> (space w \<union> space ?w) \<subseteq> damage (redraws st2)"
        using scheduled_damage(2)[OF s1(2)] scheduled_damage(2)[OF s2(2)] by (auto simp: set_window_def)
      fix p assume p: "p \<notin> space w \<union> space ?w"
      have "scene font (set_window n ?w ?st) p = scene font ?st p"
        by (rule scene_windows)
          (use p c(3) in \<open>auto simp: set_window_def cursor_frame_def layer_def same window_paint_outside intro!: windows_paint_cong\<close>)
      then show "scene font st2 p = scene font ?st p" by (simp add: scheduled_scene[OF s2(2)])
    qed
    then show ?thesis using run by blast
  qed
  then show ?thesis
    using fine_other_fields(1)[OF assms(1), of False] assms(1)
    by (cases "sint (event_c e) > 0"; cases "order st"; cases "windows st (hd (order st))"; cases "drag_x st \<noteq> cursor_x st \<or> drag_y st \<noteq> cursor_y st")
      (auto simp: drag_front_def)
qed

lemma mouse_target_fine:
  assumes "fine font st"
  shows "\<exists>f st'. mouse_target e ns i st = Some (f, st') \<and> fine font st'"
proof (induction ns arbitrary: i)
  case (Cons n ns)
  show ?case
  proof (cases "windows st n")
    case (Some w)
    have "win_ok w" using assms Some by (auto simp: fine_def session_ok_def)
    note R = win_ok_rects[OF this]
    show ?thesis
      using Cons[of "i + 1"] R(1,2) Some assms send_event_fine[OF assms Some] fine_other_fields(3)[OF assms] by auto
  qed (use Cons[of "i + 1"] in simp)
qed (use assms in simp)

section \<open>The order of the windows\<close>

definition id_space :: "(usize \<Rightarrow> Window option) \<Rightarrow> usize \<Rightarrow> (int \<times> int) set" where
  "id_space ws n = (case ws n of Some w \<Rightarrow> space w | None \<Rightarrow> {})"

lemma layer_outside: "p \<notin> id_space ws n \<Longrightarrow> layer font ws f p n old = old"
  by (auto simp: layer_def id_space_def window_paint_outside split: option.splits)

definition front_space :: "OrbitalScheme \<Rightarrow> (int \<times> int) set" where
  "front_space st = (case order st of n # _ \<Rightarrow> id_space (windows st) n | [] \<Rightarrow> {})"

lemma scheduled_refl: "session_ok st \<Longrightarrow> scheduled {} st st"
  unfolding scheduled_def by (rule exI[of _ "redraws st"]) (simp add: session_ok_def)

lemma schedule_id_ok:
  assumes "session_ok st"
  shows "\<exists>st'. schedule_id n st = Some st' \<and> scheduled (id_space (windows st) n) st st'"
proof (cases "windows st n")
  case (Some w)
  then have "win_ok w" using assms by (simp add: session_ok_def)
  then show ?thesis using schedule_window_ok[OF assms] Some by (simp add: schedule_id_def id_space_def)
qed (use scheduled_refl[OF assms] in \<open>simp add: schedule_id_def id_space_def\<close>)

lemma schedule_front_ok:
  assumes "session_ok st"
  shows "\<exists>st'. schedule_front st = Some st' \<and> scheduled (front_space st) st st'"
  using schedule_id_ok[OF assms] scheduled_refl[OF assms] by (cases "order st") (simp_all add: schedule_front_def front_space_def)

lemma plain_paint:
  assumes "case ns of n # _ \<Rightarrow> p \<notin> id_space ws n | [] \<Rightarrow> True"
  shows "windows_paint font ws 0 ns p old = foldr (layer font ws False p) ns old"
  using assms by (cases ns) (simp_all add: windows_paint_rest windows_paint_front layer_outside del: windows_paint.simps)

lemma focus_window_fine:
  assumes "fine font st"
  shows "\<exists>st'. focus_window f st = Some st' \<and> fine font st'"
proof -
  have ok: "session_ok st" using assms by (simp add: fine_def)
  from schedule_front_ok[OF ok] obtain st1 where s1: "schedule_front st = Some st1" "scheduled (front_space st) st st1" by blast
  note same = scheduled_same[OF s1(2)]
  have f1: "fine font st1" by (rule scheduled_fine[OF s1(2) assms])
  show ?thesis
  proof (cases "f > 0 \<and> f < length (order st)")
    case True
    let ?n = "order st ! f" and ?rest = "take f (order st) @ drop (f + 1) (order st)"
    let ?st = "st1\<lparr>order := ?rest\<rparr>"
    have ok1: "session_ok ?st" using f1 by (simp add: fine_def session_ok_def cursor_frame_def)
    from schedule_id_ok[OF ok1, of ?n] obtain st2 where
      s2: "schedule_id ?n ?st = Some st2" "scheduled (id_space (windows ?st) ?n) ?st st2" by blast
    note same2 = scheduled_same[OF s2(2)]
    let ?st' = "st2\<lparr>order := ?n # ?rest\<rparr>"
    have run: "focus_window f st = Some ?st'" using True s1(1) s2(1) by (simp add: focus_window_def same same2 Let_def)
    have "fine font ?st'"
    proof (rule fine_change[OF f1, of _ "front_space st \<union> id_space (windows st) ?n"])
      show "session_ok ?st'" using scheduled_ok[OF s2(2) ok1] by (simp add: session_ok_def cursor_frame_def)
      show "screen ?st' = screen st1" by (simp add: same2)
      show "damage (redraws st1) \<union> (front_space st \<union> id_space (windows st) ?n) \<subseteq> damage (redraws ?st')"
        using scheduled_damage(2)[OF s1(2)] scheduled_damage(2)[OF s2(2)] by (auto simp: same)
      fix p assume p: "p \<notin> front_space st \<union> id_space (windows st) ?n"
      have ord: "order st = take f (order st) @ ?n # drop (f + 1) (order st)" using True by (simp add: id_take_nth_drop)
      let ?L = "foldr (layer font (windows st) False p)"
      have "windows_paint font (windows st) 0 (order st) p old = ?L (order st) old" for old
        by (rule plain_paint) (use p in \<open>auto simp: front_space_def split: list.splits\<close>)
      moreover have "?L (order st) old = ?L ?rest old" for old
        by (subst (1) ord) (use p in \<open>simp add: layer_outside\<close>)
      moreover have "windows_paint font (windows st) 0 (?n # ?rest) p old = ?L (?n # ?rest) old" for old
        by (rule plain_paint) (use p in simp)
      ultimately have "windows_paint font (windows st) 0 (?n # ?rest) p old = windows_paint font (windows st) 0 (order st) p old" for old
        using p by (simp add: layer_outside)
      then show "scene font ?st' p = scene font st1 p"
        by (intro scene_windows) (simp_all add: same same2 cursor_frame_def)
    qed
    then show ?thesis using run by blast
  next
    case False
    then show ?thesis using s1(1) f1 assms by (auto simp: focus_window_def same)
  qed
qed

section \<open>Calls\<close>

lemma add_window_fine:
  assumes "fine font st" and "win_ok w" and "windows st n = None" and "n \<notin> set (order st)"
  shows "\<exists>st1 st2. schedule_front st = Some st1 \<and> schedule_window w st1 = Some st2
    \<and> fine font (set_window n w (st2\<lparr>order := n # order st2\<rparr>)) \<and> scheduled (front_space st \<union> space w) st st2"
proof -
  have ok: "session_ok st" using assms(1) by (simp add: fine_def)
  from schedule_front_ok[OF ok] obtain st1 where s1: "schedule_front st = Some st1" "scheduled (front_space st) st st1" by blast
  from schedule_window_ok[OF scheduled_ok[OF s1(2) ok] assms(2)] obtain st2 where
    s2: "schedule_window w st1 = Some st2" "scheduled (space w) st1 st2" by blast
  note s = scheduled_trans[OF s1(2) s2(2)]
  note same = scheduled_same[OF s] and f2 = scheduled_fine[OF s assms(1)]
  let ?st = "set_window n w (st2\<lparr>order := n # order st2\<rparr>)" and ?ws = "(windows st)(n \<mapsto> w)"
  have "fine font ?st"
  proof (rule fine_change[OF f2, of _ "front_space st \<union> space w"])
    show "session_ok ?st" using f2 assms(2) by (auto simp: fine_def session_ok_def set_window_def cursor_frame_def)
    show "screen ?st = screen st2" by (simp add: set_window_def)
    show "damage (redraws st2) \<union> (front_space st \<union> space w) \<subseteq> damage (redraws ?st)"
      using scheduled_damage(2)[OF s] by (simp add: set_window_def)
    fix p assume p: "p \<notin> front_space st \<union> space w"
    have "windows_paint font ?ws 0 (n # order st) p old = foldr (layer font ?ws False p) (n # order st) old" for old
      by (rule plain_paint) (use p in \<open>simp add: id_space_def\<close>)
    moreover have "layer font ?ws False p n old = old" for old by (rule layer_outside) (use p in \<open>simp add: id_space_def\<close>)
    moreover have "foldr (layer font ?ws False p) (order st) old = foldr (layer font (windows st) False p) (order st) old" for old
      by (rule layers_cong) (use assms(4) in \<open>auto simp: layer_def fun_eq_iff\<close>)
    moreover have "windows_paint font (windows st) 0 (order st) p old = foldr (layer font (windows st) False p) (order st) old" for old
      by (rule plain_paint) (use p in \<open>auto simp: front_space_def split: list.splits\<close>)
    ultimately show "scene font ?st p = scene font st2 p"
      by (intro scene_windows) (simp_all add: same set_window_def cursor_frame_def)
  qed
  then show ?thesis using s1(1) s2(1) s by blast
qed

lemma window_write_places:
  assumes "window_write buf w = (r, w')"
  shows "frame w' = frame w" "title_bar w' = title_bar w" "win_ok w \<Longrightarrow> win_ok w'" "p \<notin> points (frame w) \<Longrightarrow> window_paint font f w' p old = window_paint font f w p old"
proof -
  let ?len = "min (length (im_data (win_image w))) (length (buf_pixels buf))"
  have w': "w' = w\<lparr>win_image := (win_image w)\<lparr>im_data := take ?len (buf_pixels buf) @ drop ?len (im_data (win_image w))\<rparr>\<rparr>"
    using assms by (simp add: window_write_def Let_def)
  have pl: "frame w' = frame w" "title_bar w' = title_bar w" "text_end w' = text_end w" "win_width w' = win_width w" "win_height w' = win_height w"
    "win_x w' = win_x w" "win_y w' = win_y w" "win_title w' = win_title w"
    by (simp_all add: w' frame_def title_bar_def text_end_def win_width_def win_height_def)
  show "frame w' = frame w" "title_bar w' = title_bar w" by (rule pl)+
  show "win_ok w'" if "win_ok w" using that unfolding win_ok_def pl by (simp add: w' good_image_def)
  show "window_paint font f w' p old = window_paint font f w p old" if "p \<notin> points (frame w)"
    using that by (simp add: window_paint_def object_paint_def title_paint_def pl Let_def)
qed

lemma orbital_write_fine:
  assumes "fine font st"
  shows "\<exists>r st'. orbital_write n buf st = Some (r, st') \<and> fine font st'"
proof (cases "windows st n")
  case (Some w)
  have ok: "session_ok st" and w: "win_ok w" using assms Some by (auto simp: fine_def session_ok_def)
  from schedule_on_ok[OF ok win_ok_rects(3)[OF w]] obtain st1 where
    s: "schedule_on st (Some (frame w)) = Some st1" "scheduled (points (frame w)) st st1" by blast
  obtain r w' where ww: "window_write buf w = (r, w')" by fastforce
  note P = window_write_places[OF ww]
  have "fine font (set_window n w' st1)"
    by (rule set_window_fine[OF scheduled_fine[OF s(2) assms], where w = w and D = "points (frame w)"])
      (use Some P w scheduled_damage(2)[OF s(2)] in \<open>auto simp: scheduled_same[OF s(2)]\<close>)
  then show ?thesis using Some s(1) ww by (simp add: orbital_write_def win_ok_rects(1)[OF w])
qed (use assms in \<open>simp add: orbital_write_def\<close>)

lemma orbital_read_fine: "fine font st \<Longrightarrow> fine font (snd (orbital_read n buf st))"
proof (cases "windows st n")
  case (Some w)
  assume f: "fine font st"
  obtain r w' where ww: "window_read buf w = (r, w')" by fastforce
  then obtain q where "w' = w\<lparr>win_events := q\<rparr>" by (auto simp: window_read_def split: prod.splits if_splits) (metis Window.surjective Window.update_convs(6))
  then have "fine font (set_window n w' st)"
    using f Some by (intro set_window_fine[OF f Some, of _ "{}"]) (auto simp: events_paint fine_def session_ok_def)
  then show ?thesis using Some ww by (simp add: orbital_read_def)
qed (simp add: orbital_read_def)

lemma orbital_close_fine:
  assumes "fine font st"
  shows "\<exists>r st'. orbital_close n st = Some (r, st') \<and> fine font st'"
proof -
  let ?o = "filter (\<lambda>e. e \<noteq> n) (order st)"
  let ?st = "st\<lparr>order := ?o\<rparr>"
  have ok: "session_ok ?st" "session_ok st" using assms by (simp_all add: fine_def session_ok_def cursor_frame_def)
  from schedule_front_ok[OF ok(1)] obtain st1 where s1: "schedule_front ?st = Some st1" "scheduled (front_space ?st) ?st st1" by blast
  note same = scheduled_same[OF s1(2)]
  have ok1: "session_ok st1" by (rule scheduled_ok[OF s1(2) ok(1)])
  let ?ws = "(windows st)(n := None)"
  have paint: "windows_paint font ws 0 ?o p old = windows_paint font (windows st) 0 (order st) p old"
    if p: "p \<notin> front_space ?st" "p \<notin> id_space (windows st) n" and ws: "ws = windows st \<or> ws = ?ws" for ws p old
  proof -
    let ?L = "\<lambda>ws. foldr (layer font ws False p)"
    have l: "layer font ws f p k = layer font (windows st) f p k" for f k
      using ws layer_outside[OF p(2), of font f] by (auto simp: layer_def fun_eq_iff)
    have front: "case ?o of k # _ \<Rightarrow> p \<notin> id_space (windows st) k | [] \<Rightarrow> True" using p(1) by (auto simp: front_space_def split: list.splits)
    have "case order st of k # _ \<Rightarrow> p \<notin> id_space (windows st) k | [] \<Rightarrow> True"
      using front p(2) by (auto split: list.splits if_splits)
    then have "windows_paint font (windows st) 0 (order st) p old = ?L (windows st) (order st) old" by (rule plain_paint)
    also have "\<dots> = ?L (windows st) ?o old" by (rule layers_filter[symmetric]) (use layer_outside[OF p(2)] in auto)
    also have "\<dots> = windows_paint font (windows st) 0 ?o p old" by (rule plain_paint[OF front, symmetric])
    also have "\<dots> = windows_paint font ws 0 ?o p old" by (rule windows_paint_cong) (simp add: l)
    finally show ?thesis by simp
  qed
  show ?thesis
  proof (cases "windows st n")
    case None
    have "fine font st1"
    proof (rule fine_change[OF assms ok1, of "front_space ?st"])
      show "screen st1 = screen st" by (simp add: same)
      show "damage (redraws st) \<union> front_space ?st \<subseteq> damage (redraws st1)" using scheduled_damage(2)[OF s1(2)] by simp
      show "scene font st1 p = scene font st p" if "p \<notin> front_space ?st" for p
        using paint[OF that, of "windows st"] None by (intro scene_windows) (simp_all add: same cursor_frame_def id_space_def)
    qed
    then show ?thesis using s1(1) None by (simp add: orbital_close_def same)
  next
    case (Some w)
    let ?st1 = "st1\<lparr>windows := ?ws\<rparr>"
    have ok2: "session_ok ?st1" "win_ok w" using ok1 ok(2) Some by (auto simp: session_ok_def cursor_frame_def same)
    from schedule_window_ok[OF ok2] obtain st2 where s2: "schedule_window w ?st1 = Some st2" "scheduled (space w) ?st1 st2" by blast
    note same2 = scheduled_same[OF s2(2)]
    have "fine font st2"
    proof (rule fine_change[OF assms scheduled_ok[OF s2(2) ok2(1)], of "front_space ?st \<union> space w"])
      show "screen st2 = screen st" by (simp add: same same2)
      show "damage (redraws st) \<union> (front_space ?st \<union> space w) \<subseteq> damage (redraws st2)"
        using scheduled_damage(2)[OF s1(2)] scheduled_damage(2)[OF s2(2)] by auto
      show "scene font st2 p = scene font st p" if "p \<notin> front_space ?st \<union> space w" for p
        using paint[of p ?ws] that Some by (intro scene_windows) (simp_all add: same same2 cursor_frame_def id_space_def)
    qed
    then show ?thesis using s1(1) s2(1) Some by (simp add: orbital_close_def same)
  qed
qed

section \<open>Numbers of windows\<close>

text \<open>What scheduling leaves alone.\<close>

lemma schedule_ids:
  "schedule_on st r = Some st' \<Longrightarrow> order st' = order st \<and> windows st' = windows st \<and> next_id st' = next_id st"
  "schedule_window w st = Some st' \<Longrightarrow> order st' = order st \<and> windows st' = windows st \<and> next_id st' = next_id st"
  "schedule_id n st = Some st' \<Longrightarrow> order st' = order st \<and> windows st' = windows st \<and> next_id st' = next_id st"
  "schedule_front st = Some st' \<Longrightarrow> order st' = order st \<and> windows st' = windows st \<and> next_id st' = next_id st"
proof -
  have one: "order st' = order st \<and> windows st' = windows st \<and> next_id st' = next_id st" if "schedule_on st r = Some st'" for st st' r
    using that by (auto simp: schedule_on_def bind_eq_Some_conv)
  then show "schedule_on st r = Some st' \<Longrightarrow> order st' = order st \<and> windows st' = windows st \<and> next_id st' = next_id st" .
  have two: "order st' = order st \<and> windows st' = windows st \<and> next_id st' = next_id st" if "schedule_window w st = Some st'" for st st' w
    using that one by (auto simp: schedule_window_def bind_eq_Some_conv)
  then show "schedule_window w st = Some st' \<Longrightarrow> order st' = order st \<and> windows st' = windows st \<and> next_id st' = next_id st" .
  have three: "order st' = order st \<and> windows st' = windows st \<and> next_id st' = next_id st" if "schedule_id n st = Some st'" for n
    using that two by (cases "windows st n") (auto simp: schedule_id_def)
  then show "schedule_id n st = Some st' \<Longrightarrow> order st' = order st \<and> windows st' = windows st \<and> next_id st' = next_id st" .
  show "schedule_front st = Some st' \<Longrightarrow> order st' = order st \<and> windows st' = windows st \<and> next_id st' = next_id st"
    using three by (cases "order st") (auto simp: schedule_front_def)
qed

definition ids_ok :: "OrbitalScheme \<Rightarrow> bool" where
  "ids_ok st \<longleftrightarrow> distinct (order st) \<and> set (order st) = dom (windows st) \<and> (\<forall>n \<in> set (order st). unat n < unat (next_id st))"

definition same_ids :: "OrbitalScheme \<Rightarrow> OrbitalScheme \<Rightarrow> bool" where
  "same_ids st st' \<longleftrightarrow> mset (order st') = mset (order st) \<and> dom (windows st') = dom (windows st) \<and> next_id st' = next_id st"

lemma same_ids_ok: "same_ids st st' \<Longrightarrow> ids_ok st \<Longrightarrow> ids_ok st'"
  unfolding same_ids_def ids_ok_def by (metis mset_eq_imp_distinct_iff mset_eq_setD)

lemma same_ids_trans: "same_ids st st1 \<Longrightarrow> same_ids st1 st2 \<Longrightarrow> same_ids st st2"
  by (simp add: same_ids_def)

lemma same_ids_simps [simp]: "same_ids st st" "same_ids st (st\<lparr>dragging := b\<rparr>)" "same_ids st (st\<lparr>drag_x := x, drag_y := y\<rparr>)"
    "same_ids st (st\<lparr>dragging := b, drag_x := x, drag_y := y\<rparr>)" "same_ids st (st\<lparr>cursor_x := x, cursor_y := y\<rparr>)"
  by (simp_all add: same_ids_def)

lemma set_window_ids: "windows st n = Some w \<Longrightarrow> same_ids st (set_window n w' st)"
  by (auto simp: same_ids_def set_window_def)

lemma move_cursor_ids: "move_cursor x y st = Some st' \<Longrightarrow> same_ids st st'"
  by (auto simp: move_cursor_def bind_eq_Some_conv Let_def same_ids_def dest!: schedule_ids(1))

lemma drag_front_ids: "drag_front e st = Some st' \<Longrightarrow> same_ids st st'"
  by (auto simp: drag_front_def bind_eq_Some_conv Let_def same_ids_def set_window_def dest!: schedule_ids(2)
      split: if_splits list.splits option.splits)

lemma mouse_target_ids: "mouse_target e ns i st = Some (f, st') \<Longrightarrow> same_ids st st'"
  by (induction ns arbitrary: i)
    (auto simp: bind_eq_Some_conv intro: set_window_ids split: if_splits option.splits)

lemma focus_window_ids: "focus_window f st = Some st' \<Longrightarrow> same_ids st st'"
proof -
  assume run: "focus_window f st = Some st'"
  show ?thesis
  proof (cases "f > 0 \<and> f < length (order st)")
    case True
    have "mset (order st) = mset (take f (order st) @ order st ! f # drop (f + 1) (order st))" using True by (simp add: id_take_nth_drop[symmetric])
    then have "mset (order st ! f # take f (order st) @ drop (f + 1) (order st)) = mset (order st)" by simp
    then show ?thesis using run True
      by (auto simp: focus_window_def bind_eq_Some_conv Let_def same_ids_def dest!: schedule_ids(3,4))
  next
    case False
    then show ?thesis using run by (auto simp: focus_window_def bind_eq_Some_conv same_ids_def dest!: schedule_ids(4) split: if_splits)
  qed
qed

section \<open>A session\<close>

text \<open>What the two loops of the program do with the session, one thing at a time.\<close>

datatype Step = DoEvent Event | DoOpen "rchar list" | DoRead usize "u8 list" | DoWrite usize "u8 list" | DoClose usize | DoRedraw

fun step :: "u8 list \<Rightarrow> Step \<Rightarrow> OrbitalScheme \<Rightarrow> OrbitalScheme option" where
  "step font (DoEvent e) st = orbital_event e st"
| "step font (DoOpen path) st = map_option snd (orbital_open path st)"
| "step font (DoRead n buf) st = Some (snd (orbital_read n buf st))"
| "step font (DoWrite n buf) st = map_option snd (orbital_write n buf st)"
| "step font (DoClose n) st = map_option snd (orbital_close n st)"
| "step font DoRedraw st = map_option fst (redraw font st)"

fun run_steps :: "u8 list \<Rightarrow> Step list \<Rightarrow> OrbitalScheme \<Rightarrow> OrbitalScheme option" where
  "run_steps font [] st = Some st"
| "run_steps font (s # ss) st = do { st \<leftarrow> step font s st; run_steps font ss st }"

text \<open>Steps that keep coordinates away from the limits, and less than \<open>2\<^sup>3\<^sup>1\<close> windows opened.\<close>

definition cursor_fits :: "OrbitalScheme \<Rightarrow> int \<Rightarrow> int \<Rightarrow> bool" where
  "cursor_fits st x y \<longleftrightarrow> in_range \<lparr>rect_x = x, rect_y = y, rect_w = im_w (cursor st), rect_h = im_h (cursor st)\<rparr>"

definition event_ok :: "Event \<Rightarrow> OrbitalScheme \<Rightarrow> bool" where
  "event_ok e st \<longleftrightarrow> cursor_fits st 0 0 \<and> cursor_fits st (im_w (screen st)) (im_h (screen st)) \<and> cursor_fits st (as_i32 (event_a e)) (as_i32 (event_b e))
     \<and> (dragging st \<longrightarrow> (\<forall>n w. windows st n = Some w \<longrightarrow>
          win_ok (moved (as_i32 (event_a e) - drag_x st) (as_i32 (event_b e) - drag_y st) w)))"

fun step_ok :: "Step \<Rightarrow> OrbitalScheme \<Rightarrow> bool" where
  "step_ok (DoEvent e) st = event_ok e st"
| "step_ok (DoOpen path) st = (win_ok (fst (open_window path st)) \<and> unat (next_id st) + 1 < 2 ^ 31)"
| "step_ok s st = True"

fun steps_ok :: "u8 list \<Rightarrow> Step list \<Rightarrow> OrbitalScheme \<Rightarrow> bool" where
  "steps_ok font [] st = True"
| "steps_ok font (s # ss) st = (step_ok s st \<and> (case step font s st of Some st' \<Rightarrow> steps_ok font ss st' | None \<Rightarrow> True))"

lemma key_event_fine:
  assumes "fine font st" and "event_ok e st"
  shows "\<exists>st'. key_event e st = Some st' \<and> fine font st' \<and> same_ids st st'"
proof -
  let ?mv = "if sint (event_c e) > 0 then
      (if ucast (event_b e) = K_F1 then move_cursor 0 0 st
       else if ucast (event_b e) = K_F2 then do { all \<leftarrow> screen_rect st; move_cursor (rect_w all) (rect_h all) st }
       else Some st) else Some st"
  have sr: "screen_rect st = Some (bounds (screen st))" using assms(1) screen_rect_bounds by (simp add: fine_def)
  have "\<exists>st1. ?mv = Some st1 \<and> fine font st1 \<and> same_ids st st1"
    using move_cursor_fine[OF assms(1), of 0 0] move_cursor_fine[OF assms(1), of "im_w (screen st)" "im_h (screen st)"] assms move_cursor_ids
    by (auto simp: sr bounds_def event_ok_def cursor_fits_def)
  then obtain st1 where m: "?mv = Some st1" "fine font st1" "same_ids st st1" by blast
  let ?st = "case order st1 of n # _ \<Rightarrow> (case windows st1 n of Some w \<Rightarrow> set_window n (window_event e w) st1 | None \<Rightarrow> st1) | [] \<Rightarrow> st1"
  have "fine font ?st \<and> same_ids st1 ?st"
    using m(2) send_event_fine[OF m(2)] set_window_ids by (auto split: list.split option.split)
  moreover have "key_event e st = Some ?st" using m(1) by (simp add: key_event_def)
  ultimately show ?thesis using same_ids_trans[OF m(3)] by blast
qed

lemma mouse_event_fine:
  assumes "fine font st" and "event_ok e st"
  shows "\<exists>st'. mouse_event e st = Some st' \<and> fine font st' \<and> same_ids st st'"
proof -
  let ?x = "as_i32 (event_a e)" and ?y = "as_i32 (event_b e)"
  let ?mv = "if ?x \<noteq> cursor_x st \<or> ?y \<noteq> cursor_y st then move_cursor ?x ?y st else Some st"
  have "\<exists>st1. ?mv = Some st1 \<and> fine font st1 \<and> same_ids st st1 \<and> cursor_x st1 = ?x \<and> cursor_y st1 = ?y \<and> windows st1 = windows st
      \<and> dragging st1 = dragging st \<and> drag_x st1 = drag_x st \<and> drag_y st1 = drag_y st"
    using move_cursor_fine[OF assms(1), of ?x ?y] assms move_cursor_ids by (auto simp: event_ok_def cursor_fits_def)
  then obtain st1 where m: "?mv = Some st1" "fine font st1" "same_ids st st1" and same: "cursor_x st1 = ?x" "cursor_y st1 = ?y" "windows st1 = windows st"
      "dragging st1 = dragging st" "drag_x st1 = drag_x st" "drag_y st1 = drag_y st" by blast
  show ?thesis
  proof (cases "dragging st1")
    case True
    have "\<forall>n w. windows st1 n = Some w \<longrightarrow> win_ok (moved (cursor_x st1 - drag_x st1) (cursor_y st1 - drag_y st1) w)"
      using assms(2) True by (simp add: same event_ok_def)
    from drag_front_fine[OF m(2) this] obtain st2 where s: "drag_front e st1 = Some st2" "fine font st2" by blast
    then show ?thesis using m(1) True same_ids_trans[OF m(3) drag_front_ids[OF s(1)]] by (simp add: mouse_event_def)
  next
    case False
    from mouse_target_fine[OF m(2)] obtain f st2 where t: "mouse_target e (order st1) 0 st1 = Some (f, st2)" "fine font st2" by blast
    from focus_window_fine[OF t(2)] obtain st3 where s: "focus_window f st2 = Some st3" "fine font st3" by blast
    then show ?thesis
      using m(1) False t(1) same_ids_trans[OF same_ids_trans[OF m(3) mouse_target_ids[OF t(1)]] focus_window_ids[OF s(1)]]
      by (simp add: mouse_event_def)
  qed
qed

lemma open_window_state:
  assumes "fine font st" and "open_window path st = (win, st1)" and "unat (next_id st) + 1 < 2 ^ 31"
  shows "fine font st1" and "order st1 = order st" and "windows st1 = windows st" and "unat (next_id st1) = unat (next_id st) + 1"
proof -
  have u: "unat (next_id st + 1) = unat (next_id st) + 1" using assms(3) by (subst unat_add_lt) simp_all
  then have "sint (next_id st + 1) = int (unat (next_id st) + 1)" using assms(3) by (subst sint_unat_small) (simp_all only: u)
  then have "\<not> sint (next_id st + 1) < 0" by linarith
  then consider "st1 = st\<lparr>next_id := next_id st + 1\<rparr>" | x y where "st1 = st\<lparr>next_id := next_id st + 1, next_x := x, next_y := y\<rparr>"
    using assms(2) by (auto simp: open_window_def Let_def split: if_splits)
  then have "fine font st1 \<and> order st1 = order st \<and> windows st1 = windows st \<and> unat (next_id st1) = unat (next_id st) + 1"
  proof cases
    case 1
    then show ?thesis using fine_other_fields(4)[OF assms(1), of "next_id st + 1"] u by simp
  next
    case (2 x y)
    then show ?thesis using fine_other_fields(5)[OF fine_other_fields(4)[OF assms(1), of "next_id st + 1"], of y x] u by simp
  qed
  then show "fine font st1" "order st1 = order st" "windows st1 = windows st" "unat (next_id st1) = unat (next_id st) + 1" by simp_all
qed

lemma orbital_open_fine:
  assumes "fine font st" and "ids_ok st" and "step_ok (DoOpen path) st"
  shows "\<exists>r st'. orbital_open path st = Some (r, st') \<and> fine font st' \<and> ids_ok st'"
proof -
  obtain win st1 where o: "open_window path st = (win, st1)" by fastforce
  have lim: "unat (next_id st) + 1 < 2 ^ 31" and win: "win_ok win" using assms(3) o by simp_all
  note S = open_window_state[OF assms(1) o lim]
  let ?n = "next_id st"
  have new: "?n \<notin> set (order st1)" "windows st1 ?n = None" using assms(2) by (auto simp: ids_ok_def S(2,3))
  from add_window_fine[OF S(1) win new(2,1)] obtain st2 st3 where
    a: "schedule_front st1 = Some st2" "schedule_window win st2 = Some st3"
      "fine font (set_window ?n win (st3\<lparr>order := ?n # order st3\<rparr>))" "scheduled (front_space st1 \<union> space win) st1 st3" by blast
  note same = scheduled_same[OF a(4)]
  have "ids_ok (set_window ?n win (st3\<lparr>order := ?n # order st3\<rparr>))"
    using assms(2) new by (auto simp: ids_ok_def set_window_def same S(2-4) less_SucI)
  moreover have "orbital_open path st = Some (Ok ?n, set_window ?n win (st3\<lparr>order := ?n # order st3\<rparr>))"
    using a(1,2) by (simp add: orbital_open_def o Let_def)
  ultimately show ?thesis using a(3) by blast
qed

lemma call_ids:
  "orbital_write n buf st = Some (r, st') \<Longrightarrow> ids_ok st \<Longrightarrow> ids_ok st'"
  "orbital_close n st = Some (c, st') \<Longrightarrow> ids_ok st \<Longrightarrow> ids_ok st'"
  "ids_ok st \<Longrightarrow> ids_ok (snd (orbital_read n buf st))"
proof -
  show "ids_ok st'" if "orbital_write n buf st = Some (r, st')" "ids_ok st"
  proof (cases "windows st n")
    case (Some w)
    obtain r' w' where "window_write buf w = (r', w')" by fastforce
    then show ?thesis
      using that Some by (auto simp: orbital_write_def bind_eq_Some_conv ids_ok_def set_window_def dest!: schedule_ids(1) split: if_splits)
  qed (use that in \<open>simp add: orbital_write_def\<close>)
  show "ids_ok st'" if "orbital_close n st = Some (c, st')" "ids_ok st"
    using that by (auto simp: orbital_close_def bind_eq_Some_conv ids_ok_def dest!: schedule_ids(2,4) split: option.splits if_splits)
  show "ids_ok (snd (orbital_read n buf st))" if "ids_ok st"
    using that by (auto simp: orbital_read_def ids_ok_def set_window_def split: option.split prod.split)
qed

lemma redraw_fine:
  assumes "fine font st"
  shows "\<exists>st' out. redraw font st = Some (st', out) \<and> fine font st' \<and> order st' = order st \<and> windows st' = windows st \<and> next_id st' = next_id st
    \<and> redraws st' = [] \<and> (\<forall>p. scene font st' p = scene font st p)"
proof -
  have ok: "session_ok st" using assms by (simp add: fine_def)
  from redraw_correct[OF ok, of font] obtain im out where
    r: "redraw font st = Some (st\<lparr>screen := im, redraws := []\<rparr>, out)" "good_image im" "bounds im = bounds (screen st)"
      "\<forall>p \<in> points (bounds im). pixel im p = (if p \<in> damage (redraws st) then scene font st p else pixel (screen st) p)" by blast
  let ?st = "st\<lparr>screen := im, redraws := []\<rparr>"
  have sc: "scene font ?st p = scene font st p" for p by (simp add: scene_def cursor_frame_def)
  have "session_ok ?st" using ok r(2,3) by (simp add: session_ok_def cursor_frame_def)
  moreover have "up_to_date font ?st" using r(3,4) assms by (simp add: up_to_date_def fine_def sc)
  ultimately show ?thesis using r(1) sc by (auto simp: fine_def)
qed

lemma step_fine:
  assumes "fine font st" and "ids_ok st" and "step_ok s st"
  shows "\<exists>st'. step font s st = Some st' \<and> fine font st' \<and> ids_ok st'"
proof (cases s)
  case (DoEvent e)
  have "\<exists>st'. orbital_event e st = Some st' \<and> fine font st' \<and> same_ids st st'"
    using key_event_fine[OF assms(1), of e] mouse_event_fine[OF assms(1), of e] assms(1,3) DoEvent by (simp add: orbital_event_def)
  then show ?thesis using assms(2) same_ids_ok DoEvent by auto
next
  case (DoOpen path)
  then show ?thesis using orbital_open_fine[OF assms(1,2), of path] assms(3) by auto
next
  case (DoRead n buf)
  then show ?thesis using orbital_read_fine[OF assms(1)] call_ids(3)[OF assms(2)] by simp
next
  case (DoWrite n buf)
  then show ?thesis using orbital_write_fine[OF assms(1), of n buf] call_ids(1)[OF _ assms(2)] by fastforce
next
  case (DoClose n)
  then show ?thesis using orbital_close_fine[OF assms(1), of n] call_ids(2)[OF _ assms(2)] by fastforce
next
  case DoRedraw
  then show ?thesis using redraw_fine[OF assms(1)] assms(2) by (auto simp: ids_ok_def)
qed

lemma run_fine:
  "fine font st \<Longrightarrow> ids_ok st \<Longrightarrow> steps_ok font ss st \<Longrightarrow> \<exists>st'. run_steps font ss st = Some st' \<and> fine font st' \<and> ids_ok st'"
proof (induction ss arbitrary: st)
  case (Cons s ss)
  from step_fine[OF Cons.prems(1,2)] Cons.prems(3) obtain st1 where
    s: "step font s st = Some st1" "fine font st1" "ids_ok st1" by auto
  then show ?case using Cons.IH[OF s(2,3)] Cons.prems(3) by simp
qed simp

lemma new_session_fine:
  assumes "0 \<le> w" "w \<le> 2 ^ 29" "0 \<le> h" "h \<le> 2 ^ 29" "w * h < 2 ^ 30" and "good_image bg" "w \<le> im_w bg" "h \<le> im_h bg"
    and "good_image cur" "im_w cur \<le> 2 ^ 29" "im_h cur \<le> 2 ^ 29"
  shows "\<exists>st. orbital_new w h bg cur = Some st \<and> fine font st \<and> ids_ok st"
proof -
  have m: "w mod 2 ^ 32 = w" "h mod 2 ^ 32 = h" "w * h mod 2 ^ 32 = w * h" using assms(1-5) by (simp_all add: zero_le_mult_iff)
  have g: "good_image (image_new w h)" "bounds (image_new w h) = \<lparr>rect_x = 0, rect_y = 0, rect_w = w, rect_h = h\<rparr>"
    using assms(1-5) by (simp_all add: good_image_def image_new_def image_from_color_def m bounds_def)
  obtain st where st: "orbital_new w h bg cur = Some st" using assms(1,3) by (simp add: orbital_new_def rect_new_def)
  then have st': "st = \<lparr>screen = image_new w h, backdrop = bg, cursor = cur, cursor_x = 0, cursor_y = 0, dragging = False, drag_x = 0,
      drag_y = 0, next_id = 1, next_x = 20, next_y = 20, order = [], windows = (\<lambda>_. None), redraws = [\<lparr>rect_x = 0, rect_y = 0, rect_w = w, rect_h = h\<rparr>]\<rparr>"
    using assms(1,3) by (simp add: orbital_new_def rect_new_def)
  have "session_ok st" using g assms by (auto simp: st' session_ok_def in_range_def inside_def cursor_frame_def good_image_def)
  moreover have "up_to_date font st" using g(2) by (simp add: st' up_to_date_def)
  ultimately show ?thesis using st by (auto simp: fine_def ids_ok_def st')
qed

text \<open>
  C40. The screen follows the scene. Start the window manager with a background at least as large as the screen, and let any sequence of input events, calls of clients and redraws happen that
  keeps coordinates away from the limits of 32 bits: nothing panics, the order of the windows always lists each open window once, and after the next redraw every pixel of
  the screen is the pixel of the scene as the windows and the cursor then are, however little of it was redrawn.
\<close>

theorem screen_follows_scene:
  assumes "0 \<le> w" "w \<le> 2 ^ 29" "0 \<le> h" "h \<le> 2 ^ 29" "w * h < 2 ^ 30" and "good_image bg" "w \<le> im_w bg" "h \<le> im_h bg"
    and "good_image cur" "im_w cur \<le> 2 ^ 29" "im_h cur \<le> 2 ^ 29"
    and "\<forall>st. orbital_new w h bg cur = Some st \<longrightarrow> steps_ok font ss st"
  shows "\<exists>st0 st st' out. orbital_new w h bg cur = Some st0 \<and> run_steps font ss st0 = Some st \<and> redraw font st = Some (st', out)
    \<and> distinct (order st) \<and> set (order st) = dom (windows st)
    \<and> (\<forall>p \<in> points (bounds (screen st')). pixel (screen st') p = scene font st p)"
proof -
  from new_session_fine[OF assms(1-11)] obtain st0 where n: "orbital_new w h bg cur = Some st0" "fine font st0" "ids_ok st0" by blast
  have "steps_ok font ss st0" using assms(12) n(1) by blast
  from run_fine[OF n(2,3) this] obtain st where r: "run_steps font ss st0 = Some st" "fine font st" "ids_ok st" by blast
  from redraw_fine[OF r(2)] obtain st' out where
    d: "redraw font st = Some (st', out)" "fine font st'" "redraws st' = []" "\<forall>p. scene font st' p = scene font st p" by blast
  have "\<forall>p \<in> points (bounds (screen st')). pixel (screen st') p = scene font st p"
    using d(2-4) by (simp add: fine_def up_to_date_def)
  then show ?thesis using n(1) r(1,3) d(1) by (auto simp: ids_ok_def)
qed

definition demo_dot :: Image where
  "demo_dot = \<lparr>im_w = 1, im_h = 1, im_data = [0xFF00FF00]\<rparr>"

definition demo_path :: "rchar list" where
  "demo_path = [0x2F, 0x30, 0x2F, 0x30, 0x2F, 0x31, 0x2F, 0x31, 0x2F]"

lemma demo_dot: "good_image demo_dot" "im_w demo_dot = 1" "im_h demo_dot = 1"
  by (simp_all add: good_image_def demo_dot_def)

lemma parse_digits: "parse_i32 [0x30] = 0" "parse_i32 [0x31] = 1" "parse_i32 [0x2D, 0x31] = - 1"
  by (simp_all add: parse_i32_def digit_value_def digits_value_def is_digit_char_def)

lemma six_parts:
  "path_part 0 [a, b, c, d, e, f] = a" "path_part (Suc 0) [a, b, c, d, e, f] = b" "path_part 2 [a, b, c, d, e, f] = c" "path_part 3 [a, b, c, d, e, f] = d"
  "path_part 4 [a, b, c, d, e, f] = e" "path_part 5 [a, b, c, d, e, f] = f"
  by (simp_all add: path_part_def)

lemma demo_window: "fst (open_window demo_path st) = window_new 0 0 1 1 [] False"
proof -
  have "split_slash demo_path = [[], [0x30], [0x30], [0x31], [0x31], []]" by (simp add: demo_path_def)
  then show ?thesis by (simp add: open_window_def Let_def six_parts parse_digits)
qed

lemma demo_window_ok: "win_ok (window_new 0 0 1 1 [] False)"
  by (simp add: win_ok_def window_new_def image_new_def image_from_color_def good_image_def win_width_def win_height_def)

theorem screen_follows_scene_witness:
  "\<exists>st0 st st' out. orbital_new 1 1 demo_dot demo_dot = Some st0 \<and> run_steps [] [DoOpen demo_path] st0 = Some st \<and> redraw [] st = Some (st', out)
    \<and> distinct (order st)"
proof -
  have s: "\<forall>st. orbital_new 1 1 demo_dot demo_dot = Some st \<longrightarrow> steps_ok [] [DoOpen demo_path] st"
    by (auto simp: orbital_new_def rect_new_def demo_window demo_window_ok split: option.split)
  from screen_follows_scene[OF _ _ _ _ _ demo_dot(1) _ _ demo_dot(1) _ _ s] demo_dot show ?thesis by fastforce
qed

text \<open>
  A client can stop the window manager: opening a window with a negative width or height fails an assertion while the window is scheduled, whatever the session.
\<close>

theorem open_negative_panics:
  assumes "win_width (fst (open_window path st)) < 0 \<or> win_height (fst (open_window path st)) < 0"
  shows "orbital_open path st = None"
proof -
  obtain win st1 where o: "open_window path st = (win, st1)" by fastforce
  then have "window_rect win = None" using assms by (auto simp: window_rect_def rect_new_def)
  then have "schedule_window win s = None" for s by (simp add: schedule_window_def schedule_on_def)
  then show ?thesis by (simp add: orbital_open_def o Let_def)
qed

theorem open_negative_panics_witness:
  "orbital_open [0x2F, 0x30, 0x2F, 0x30, 0x2F, 0x2D, 0x31, 0x2F, 0x30, 0x2F] (the (orbital_new 1 1 demo_dot demo_dot)) = None"
proof -
  have "win_width (fst (open_window [0x2F, 0x30, 0x2F, 0x30, 0x2F, 0x2D, 0x31, 0x2F, 0x30, 0x2F] st)) < 0" for st
    by (simp add: open_window_def Let_def six_parts parse_digits win_width_def window_new_def image_new_def image_from_color_def)
  then show ?thesis by (intro open_negative_panics) simp
qed

theorem redraw_shows_scene_witness:
  "\<exists>im out. redraw [] (the (orbital_new 1 1 demo_dot demo_dot)) = Some ((the (orbital_new 1 1 demo_dot demo_dot))\<lparr>screen := im, redraws := []\<rparr>, out)
     \<and> pixel im (0, 0) = scene [] (the (orbital_new 1 1 demo_dot demo_dot)) (0, 0)"
proof -
  let ?st = "the (orbital_new 1 1 demo_dot demo_dot)"
  have "\<exists>st. orbital_new 1 1 demo_dot demo_dot = Some st \<and> fine [] st \<and> ids_ok st"
    by (rule new_session_fine) (simp_all add: demo_dot)
  then have ok: "session_ok ?st" by (auto simp: fine_def)
  have st: "bounds (screen ?st) = \<lparr>rect_x = 0, rect_y = 0, rect_w = 1, rect_h = 1\<rparr>" "redraws ?st = [\<lparr>rect_x = 0, rect_y = 0, rect_w = 1, rect_h = 1\<rparr>]"
    by (simp_all add: orbital_new_def rect_new_def bounds_def image_new_def image_from_color_def)
  from redraw_shows_scene[OF ok, of "[]"] obtain im out where
    r: "redraw [] ?st = Some (?st\<lparr>screen := im, redraws := []\<rparr>, out)" "bounds im = bounds (screen ?st)"
      "\<forall>p \<in> points (bounds im). pixel im p = (if p \<in> damage (redraws ?st) then scene [] ?st p else pixel (screen ?st) p)" by blast
  have "(0, 0) \<in> points (bounds im)" "(0, 0) \<in> damage (redraws ?st)" unfolding r(2) st by (simp_all add: points_def)
  then show ?thesis using r(1,3) by auto
qed

end
