(* ===== verification/Spec2Isabelle.thy ===== *)
theory Spec2Isabelle
  imports Rtc Keyboard Processes UserMemory Files Protocol DiskFiles Tcp Pipe Console Exec Schemes OrbitalDamage
begin

text \<open>
  Redox is an operating system written in Rust. This development models its kernel
  (\<^verbatim>\<open>src/kernel\<close>) with the crate it shares with user space (\<^verbatim>\<open>src/crates/system\<close>), in the default build for
  32-bit i386, where \<^verbatim>\<open>usize\<close> has 32 bits and arithmetic wraps, and proves what makes its parts correct.
  Programs run in \<^emph>\<open>contexts\<close>. A trap reaches the dispatcher of system calls, which works on the
  current context, its segments of memory and its open files; files are \<^emph>\<open>resources\<close> opened through \<^emph>\<open>schemes\<close>, chosen by the
  first part of a URL, in the kernel or in a user program.

  \<^bold>\<open>Conventions.\<close> Memory is a function from addresses to bytes and the allocator's table, page tables, stacks and frame
  buffers lie in it, so aliasing is what it is on the machine. A struct is a record, an enum a datatype, a
  fallible function returns \<^verbatim>\<open>error + value\<close>, and a panic or an endless loop is \<^term>\<open>None\<close>.
  Shared cells (\<^verbatim>\<open>Arc\<close>) are numbers into a table of the kernel state. The interrupt lock \<^verbatim>\<open>Intex\<close> makes the code between two context switches atomic; blocking functions are
  split at the switch. Hardware, the trap instruction, the disk, the network link, resources of unknown type and
  the storage of vectors are parameters. Methods of resources and schemes of unknown type are total functions that do not touch
  contexts or block, and dropping a resource has no further effect; so a file call that always returns does so relative to them. Duplicating a resource is a function, and the pointer to a parent that waits for
  its \<^verbatim>\<open>vfork\<close> is its process number.

  \<^bold>\<open>Theories.\<close>

  \<^item> \<open>Prelude\<close>, \<open>Bytes\<close>: machine integers, results, memory access, words as bytes; lemmas on words and loops.
  \<^item> \<open>Externs\<close>: \<^verbatim>\<open>crates/system/externs.rs\<close>, the byte loops and 64-bit division; \<open>Errors\<close>:
    \<^verbatim>\<open>crates/system/error.rs\<close>. The loops agree with block operations; division agrees with arithmetic up to \<open>2\<^sup>6\<^sup>3\<close>.
  \<^item> \<open>Allocator\<close>, \<open>Memory\<close>: the contract of a block allocator as a locale, and \<^verbatim>\<open>kernel/arch/memory.rs\<close>,
    interpreted in it: fresh, zeroed, disjoint blocks by first fit; release and growth. On i386 the addresses of the last clusters wrap around to low memory and
    \<^verbatim>\<open>alloc\<close> hands them out when everything else is used up, so what rests on an allocation assumes \<open>room\<close>, a long enough free run below them;
    \<open>boot_mem\<close>, the table as an ordinary 128 MiB machine starts, has it.
  \<^item> \<open>Paging\<close>, \<open>Segments\<close>: \<^verbatim>\<open>kernel/arch/x86/paging.rs\<close> and \<^verbatim>\<open>ContextMemory\<close> of \<^verbatim>\<open>kernel/arch/context.rs\<close>; a page operation sets one whole entry and nothing else.
  \<^item> \<open>Context\<close>, \<open>Scheduling\<close>, \<open>Cloning\<close>: \<^verbatim>\<open>kernel/arch/context.rs\<close>: creation, switching, cloning. A switch finds a runnable context whenever
    there is one and exchanges exactly the mapped pages; a clone, followed up to the switch that ends a \<^verbatim>\<open>vfork\<close>, shares what its flags say and has copies of all the rest.
  \<^item> \<open>Sync\<close>: \<^verbatim>\<open>kernel/sync\<close>: conditions, queues, maps, with a locale for channels that wait and step relations over any
    interleaving; no wake-up is lost, queues are first in, first out.
  \<^item> \<open>Time\<close>, \<open>Processes\<close>: \<^verbatim>\<open>kernel/common/time.rs\<close>, \<^verbatim>\<open>kernel/syscall/process.rs\<close>, \<^verbatim>\<open>kernel/syscall/time.rs\<close> and the timer interrupt: exit, wait, sleep.
  \<^item> \<open>UserMemory\<close>: \<^verbatim>\<open>kernel/syscall/memory.rs\<close>: blocks of user memory through allocator, segments and page table.
  \<^item> \<open>Elf\<close>, \<open>Exec\<close>: \<^verbatim>\<open>kernel/arch/elf.rs\<close>, \<^verbatim>\<open>kernel/syscall/execute.rs\<close>: reading a program, scripts, loading its image, its first
    stack. A loaded image holds the bytes of the file and the stack holds the arguments.
  \<^item> \<open>Text\<close>, \<open>ByteFile\<close>, \<open>Resource\<close>: \<^verbatim>\<open>kernel/common\<close> and \<^verbatim>\<open>kernel/fs/url.rs\<close>; the contract of a file of
    bytes as a locale, interpreted for \<^verbatim>\<open>VecResource\<close> and for files on disk.
  \<^item> \<open>Abi\<close>, \<open>Files\<close>: \<^verbatim>\<open>crates/system/syscall\<close>, \<^verbatim>\<open>kernel/syscall/mod.rs\<close>, \<^verbatim>\<open>kernel/syscall/file.rs\<close>,
    \<^verbatim>\<open>kernel/env/mod.rs\<close>: every wrapper reaches its kernel function with its arguments; descriptors stay distinct under every file call.
  \<^item> \<open>Ipc\<close>, \<open>Protocol\<close>: \<^verbatim>\<open>kernel/fs/scheme.rs\<close>: schemes served by programs, and their protocol as a step relation; each client gets the
    answer to its own request, an answer wakes the client that sleeps for it, and a lent buffer is the client's memory. That a server answers at all is not claimed; one that closes its end
    leaves its clients waiting.
  \<^item> \<open>RedoxFs\<close>, \<open>DiskFiles\<close>: \<^verbatim>\<open>kernel/fs/redoxfs\<close>, \<^verbatim>\<open>kernel/schemes/file.rs\<close>: what is synchronised is what is found
    when the file is opened again, as long as one extent holds it; a node rewritten on a mounted file system is what the next mount reads.
  \<^item> \<open>Wire\<close>, \<open>Tcp\<close>: \<^verbatim>\<open>kernel/network\<close>: packet formats, checksums, ARP and ICMP answers, TCP and UDP resources; the handshake, from connecting and listening on, and a stream between two
    ends.
  \<^item> \<open>Pipe\<close>: \<^verbatim>\<open>kernel/schemes/pipe.rs\<close>: a pipe is a stream of bytes between its holders.
  \<^item> \<open>Event\<close>, \<open>Keyboard\<close>, \<open>Rtc\<close>: \<^verbatim>\<open>kernel/common/event.rs\<close>, \<^verbatim>\<open>kernel/drivers/ps2.rs\<close> with its layouts, and
    \<^verbatim>\<open>kernel/drivers/rtc.rs\<close>.
  \<^item> \<open>Display\<close>, \<open>Console\<close>: \<^verbatim>\<open>kernel/graphics\<close>, \<^verbatim>\<open>kernel/env/console.rs\<close>, \<^verbatim>\<open>kernel/schemes/debug.rs\<close>: drawing stays inside the
    buffer, text and control sequences that keep to the screen change nothing else, a typed line is what is read. Drawing is a store to memory with no page faults, so cursor commands
    beyond the screen, which make it run to the end of the address space, are left out of the claims.
  \<^item> \<open>Schemes\<close>: the other schemes of \<^verbatim>\<open>kernel/schemes\<close>: memory, context, interrupt, built-in files, display.
  \<^item> \<open>Raster\<close>, \<open>Orbital\<close>, \<open>OrbitalPaint\<close>, \<open>OrbitalDamage\<close>: the window manager \<^verbatim>\<open>crates/orbital\<close>: rectangles and images, windows, events and calls;
    what is redrawn is the scene, and enough is redrawn.

  \<^bold>\<open>Loops.\<close> Loops are functions with a termination proof where the code's bound gives one. The searches for a free
  process number and file descriptor run for one round more than there are numbers in use, which is enough, as \<open>fresh_numbers\<close> shows; the search for the next context visits each context
  once. Loops that may not end are partial functions: \<open>udp_copy\<close>, which does not end for some buffers, \<open>scroll_loop\<close>, which is shown to end,
  \<open>read_all\<close>, which ends on files, and \<open>execute\<close>, which does not end for a script that is its own interpreter.

  \<^bold>\<open>Not modelled.\<close> The fork of the standard library (\<^verbatim>\<open>libstd\<close>), programs other than the window manager (and of it the loops around the session and the parsing of image files), the 64-bit variants of the
  architecture files. Boot code and interrupt stubs are assembly. Drivers of PCI, disks, network cards, sound and USB, and the walk over ACPI tables, are sequences of port and
  memory accesses whose meaning is the devices'. Of the modelled files, debug output is left out, and so are the typed element access of \<^verbatim>\<open>Memory\<close>, the unused two-level pager, the initialisation of the
  keyboard controller, and the opening of network URLs through other schemes.
\<close>

end
